(* ===== verification/Prelude.thy ===== *)
theory Prelude
  imports Main "HOL-Library.Word" "HOL-Library.Char_ord" "HOL-Library.List_Lexorder" "HOL-Library.Multiset"
begin

section \<open>Prelude: results, loops that may fail, strings as bytes\<close>

text \<open>
  Shared vocabulary of the development.

  \<^item> Rust's \<open>Result<T, E>\<close> is the sum \<open>'e + 'a\<close>, the error on the left; the operator
    \<open>?\<close> is \<open>rbind\<close>, a guarded early return is \<open>ensure\<close>, a \<open>for\<close> loop whose body may
    return early is \<open>try_fold\<close>, and \<open>collect::<Result<Vec<_>, _>>\<close> is \<open>try_map\<close>.
  \<^item> Rust's \<open>String\<close> and \<open>str\<close> are \<open>string\<close>: the list of the UTF-8 bytes, one \<open>char\<close>
    (0 to 255) each, so \<open>length\<close> is \<open>str::len\<close> and the order of \<open>HOL-Library.List_Lexorder\<close>
    is \<open>str::cmp\<close>. What the standard library says of Unicode characters (\<open>trim\<close>,
    \<open>char::is_control\<close>) is written out over their encodings.
  \<^item> \<open>u64\<close>, \<open>u32\<close>, \<open>u8\<close> are words of that width.
\<close>

named_theorems result_simps \<open>what a successful or failed result says of its parts\<close>
named_theorems text_simps \<open>the string operations the components share\<close>

type_synonym u8 = "8 word"
type_synonym u32 = "32 word"
type_synonym u64 = "64 word"
type_synonym byte = "8 word"

subsection \<open>Results\<close>

fun rbind :: "'e + 'a \<Rightarrow> ('a \<Rightarrow> 'e + 'b) \<Rightarrow> 'e + 'b" where
  "rbind (Inl e) f = Inl e"
| "rbind (Inr a) f = f a"

definition ensure :: "bool \<Rightarrow> 'e \<Rightarrow> 'e + unit" where
  "ensure ok e = (if ok then Inr () else Inl e)"

definition ok_or :: "'a option \<Rightarrow> 'e \<Rightarrow> 'e + 'a" where
  "ok_or x e = (case x of None \<Rightarrow> Inl e | Some a \<Rightarrow> Inr a)"

lemma rbind_Inr_iff [result_simps]:
  "rbind m f = Inr b \<longleftrightarrow> (\<exists>a. m = Inr a \<and> f a = Inr b)"
  by (cases m) auto

lemma rbind_Inl_iff [result_simps]:
  "rbind m f = Inl e \<longleftrightarrow> m = Inl e \<or> (\<exists>a. m = Inr a \<and> f a = Inl e)"
  by (cases m) auto

lemma ensure_Inr_iff [result_simps]: "ensure ok e = Inr u \<longleftrightarrow> ok"
  by (simp add: ensure_def)

lemma ensure_Inl_iff [result_simps]: "ensure ok e = Inl e' \<longleftrightarrow> \<not> ok \<and> e = e'"
  by (auto simp: ensure_def)

lemma ok_or_Inr_iff [result_simps]: "ok_or x e = Inr a \<longleftrightarrow> x = Some a"
  by (cases x) (auto simp: ok_or_def)

lemma ok_or_Inl_iff [result_simps]: "ok_or x e = Inl e' \<longleftrightarrow> x = None \<and> e = e'"
  by (cases x) (auto simp: ok_or_def)

lemma rbind_ensure: "rbind (ensure ok e) f = (if ok then f () else Inl e)"
  by (simp add: ensure_def)

lemma rbind_cong [fundef_cong]:
  "m = m' \<Longrightarrow> (\<And>a. m' = Inr a \<Longrightarrow> f a = g a) \<Longrightarrow> rbind m f = rbind m' g"
  by (cases m') auto

subsection \<open>Loops that may return early\<close>

fun try_fold :: "('a \<Rightarrow> 's \<Rightarrow> 'e + 's) \<Rightarrow> 'a list \<Rightarrow> 's \<Rightarrow> 'e + 's" where
  "try_fold f [] s = Inr s"
| "try_fold f (x # xs) s = rbind (f x s) (try_fold f xs)"

fun try_map :: "('a \<Rightarrow> 'e + 'b) \<Rightarrow> 'a list \<Rightarrow> 'e + 'b list" where
  "try_map f [] = Inr []"
| "try_map f (x # xs) = rbind (f x) (\<lambda>y. rbind (try_map f xs) (\<lambda>ys. Inr (y # ys)))"

lemma try_fold_append:
  "try_fold f (xs @ ys) s = rbind (try_fold f xs s) (try_fold f ys)"
proof (induction xs arbitrary: s)
  case (Cons x xs)
  then show ?case by (cases "f x s") simp_all
qed simp

lemma try_fold_invariant:
  assumes "try_fold f xs s = Inr t" and "P s"
    and "\<And>x s t. x \<in> set xs \<Longrightarrow> P s \<Longrightarrow> f x s = Inr t \<Longrightarrow> P t"
  shows "P t"
  using assms
proof (induction xs arbitrary: s)
  case (Cons x xs)
  then obtain u where u: "f x s = Inr u" "try_fold f xs u = Inr t"
    by (auto simp: result_simps)
  have "P u" using Cons.prems(3)[of x s u] Cons.prems(2) u(1) by simp
  show ?case
  proof (rule Cons.IH[OF u(2) \<open>P u\<close>])
    fix y a b assume "y \<in> set xs" "P a" "f y a = Inr b"
    then show "P b" using Cons.prems(3)[of y a b] by simp
  qed
qed simp

lemma try_fold_Cons_Inr: "try_fold f (x # xs) s = Inr t \<longleftrightarrow> (\<exists>u. f x s = Inr u \<and> try_fold f xs u = Inr t)"
  by (simp add: rbind_Inr_iff)

lemma try_fold_unit_Inr_iff:
  "try_fold (\<lambda>x u. f x) xs () = Inr () \<longleftrightarrow> list_all (\<lambda>x. f x = Inr ()) xs"
  by (induction xs) (auto simp: result_simps)

lemma try_map_Inr_iff [result_simps]:
  "try_map f xs = Inr ys \<longleftrightarrow> list_all2 (\<lambda>x y. f x = Inr y) xs ys"
proof (induction xs arbitrary: ys)
  case (Cons x xs)
  then show ?case by (cases ys) (auto simp: result_simps)
qed auto

lemma try_map_all_Inr: "(\<And>x. x \<in> set xs \<Longrightarrow> f x = Inr (g x)) \<Longrightarrow> try_map f xs = Inr (map g xs)"
  by (induction xs) auto

lemma find_case_Inr:
  "(case find P xs of Some x \<Rightarrow> Inl (f x) | None \<Rightarrow> Inr ()) = Inr () \<longleftrightarrow> (\<forall>x \<in> set xs. \<not> P x)"
  by (induction xs) auto

lemma set_map_filter_Some: "set (List.map_filter f xs) = {y. \<exists>x \<in> set xs. f x = Some y}"
  by (induction xs) (auto simp: List.map_filter_simps split: option.splits)

lemma singleton_list: "distinct ys \<Longrightarrow> set ys = {x} \<Longrightarrow> ys = [x]"
  by (cases ys; cases "tl ys") auto

subsection \<open>Ordered maps\<close>

text \<open>A key-value list collected into a \<open>BTreeMap\<close>: the last value of a key stays, and the keys
  are walked in order.\<close>

definition btree_map :: "('k \<times> 'b) list \<Rightarrow> 'k \<Rightarrow> 'b option" where
  "btree_map pairs = map_of (rev pairs)"

definition btree_keys :: "('k :: linorder \<times> 'b) list \<Rightarrow> 'k list" where
  "btree_keys pairs = sort (remdups (map fst pairs))"

lemma set_btree_keys [simp]: "set (btree_keys pairs) = fst ` set pairs"
  by (simp add: btree_keys_def)

lemma dom_btree_map [simp]: "dom (btree_map pairs) = fst ` set pairs"
  by (simp add: btree_map_def dom_map_of_conv_image_fst)

lemma btree_map_distinct: "distinct (map fst pairs) \<Longrightarrow> btree_map pairs k = Some v \<longleftrightarrow> (k, v) \<in> set pairs"
  by (simp add: btree_map_def map_of_eq_Some_iff rev_map [symmetric])

text \<open>A \<open>BTreeMap\<close> as the list of its entries in key order: \<open>insert\<close> and \<open>entry(k).or_insert(d)\<close>
  followed by an update of the entry.\<close>

fun tree_insert :: "'k :: linorder \<Rightarrow> 'b \<Rightarrow> ('k \<times> 'b) list \<Rightarrow> ('k \<times> 'b) list" where
  "tree_insert k v [] = [(k, v)]"
| "tree_insert k v ((k', v') # m) =
     (if k < k' then (k, v) # (k', v') # m
      else if k = k' then (k, v) # m
      else (k', v') # tree_insert k v m)"

definition tree_entry :: "'k :: linorder \<Rightarrow> 'b \<Rightarrow> ('b \<Rightarrow> 'b) \<Rightarrow> ('k \<times> 'b) list \<Rightarrow> ('k \<times> 'b) list" where
  "tree_entry k d f m = tree_insert k (f (case map_of m k of Some v \<Rightarrow> v | None \<Rightarrow> d)) m"

definition tree_map :: "('k :: linorder \<times> 'b) list \<Rightarrow> bool" where
  "tree_map m \<longleftrightarrow> sorted_wrt (<) (map fst m)"

lemma map_of_tree_insert [simp]: "map_of (tree_insert k v m) = (map_of m)(k \<mapsto> v)"
  by (induction k v m rule: tree_insert.induct) auto

lemma keys_tree_insert [simp]: "fst ` set (tree_insert k v m) = insert k (fst ` set m)"
  by (induction k v m rule: tree_insert.induct) auto

lemma tree_map_Nil [simp]: "tree_map []"
  by (simp add: tree_map_def)

lemma tree_map_insert [simp]: "tree_map m \<Longrightarrow> tree_map (tree_insert k v m)"
proof (induction k v m rule: tree_insert.induct)
  case (2 k v k' v' m)
  have keys: "set (map fst (tree_insert k v m)) = insert k (fst ` set m)" by simp
  have less: "\<forall>x \<in> set (map fst m). k' < x" and rest: "tree_map m"
    using 2(2) by (auto simp: tree_map_def)
  show ?case
  proof (cases "k < k' \<or> k = k'")
    case True
    then show ?thesis using less rest by (fastforce simp: tree_map_def)
  next
    case False
    then have "tree_map (tree_insert k v m)" using 2(1) rest by blast
    moreover have "\<forall>x \<in> set (map fst (tree_insert k v m)). k' < x"
      unfolding keys using less False by auto
    ultimately show ?thesis using False by (simp add: tree_map_def)
  qed
qed (simp add: tree_map_def)

lemma map_of_tree_entry [simp]:
  "map_of (tree_entry k d f m) = (map_of m)(k \<mapsto> f (case map_of m k of Some v \<Rightarrow> v | None \<Rightarrow> d))"
  by (simp add: tree_entry_def)

lemma tree_map_entry [simp]: "tree_map m \<Longrightarrow> tree_map (tree_entry k d f m)"
  by (simp add: tree_entry_def)

lemma tree_map_distinct: "tree_map m \<Longrightarrow> distinct (map fst m)"
  by (simp add: tree_map_def strict_sorted_iff)

lemma tree_map_in: "tree_map m \<Longrightarrow> (k, v) \<in> set m \<longleftrightarrow> map_of m k = Some v"
  by (simp add: tree_map_distinct map_of_eq_Some_iff)

subsection \<open>Counts\<close>

lemma sum_list_le_pointwise:
  fixes f g :: "'a \<Rightarrow> nat"
  assumes "\<And>x. x \<in> set xs \<Longrightarrow> f x \<le> g x"
  shows "sum_list (map f xs) \<le> sum_list (map g xs)"
  using assms by (induction xs) (auto intro: add_mono)

lemma sum_list_eq_pointwise:
  fixes f g :: "'a \<Rightarrow> nat"
  assumes "\<And>x. x \<in> set xs \<Longrightarrow> f x \<le> g x"
  shows "sum_list (map f xs) = sum_list (map g xs) \<longleftrightarrow> list_all (\<lambda>x. f x = g x) xs"
  using assms
proof (induction xs)
  case (Cons x xs)
  have "f x \<le> g x" "sum_list (map f xs) \<le> sum_list (map g xs)"
    using Cons.prems by (simp_all add: sum_list_le_pointwise)
  then have "sum_list (map f (x # xs)) = sum_list (map g (x # xs)) \<longleftrightarrow>
      f x = g x \<and> sum_list (map f xs) = sum_list (map g xs)"
    by auto
  then show ?case using Cons by simp
qed simp

lemma length_filter_eq_all: "length (filter P xs) = length xs \<longleftrightarrow> list_all P xs"
  by (induction xs) (auto simp: Suc_length_conv, metis Suc_n_not_le_n length_filter_le)

subsection \<open>Strings\<close>

fun strip_prefix :: "'a list \<Rightarrow> 'a list \<Rightarrow> 'a list option" where
  "strip_prefix [] s = Some s"
| "strip_prefix (p # ps) (c # s) = (if p = c then strip_prefix ps s else None)"
| "strip_prefix (p # ps) [] = None"

definition starts_with :: "'a list \<Rightarrow> 'a list \<Rightarrow> bool" where
  "starts_with p s \<longleftrightarrow> strip_prefix p s \<noteq> None"

definition strip_suffix :: "'a list \<Rightarrow> 'a list \<Rightarrow> 'a list option" where
  "strip_suffix p s = map_option rev (strip_prefix (rev p) (rev s))"

definition ends_with :: "'a list \<Rightarrow> 'a list \<Rightarrow> bool" where
  "ends_with p s \<longleftrightarrow> strip_suffix p s \<noteq> None"

lemma strip_prefix_Some [text_simps]: "strip_prefix p s = Some t \<longleftrightarrow> s = p @ t"
  by (induction p s rule: strip_prefix.induct) auto

lemma strip_prefix_append [simp]: "strip_prefix p (p @ t) = Some t"
  by (simp add: strip_prefix_Some)

lemma starts_with_iff [text_simps]: "starts_with p s \<longleftrightarrow> (\<exists>t. s = p @ t)"
  by (auto simp: starts_with_def strip_prefix_Some)

lemma ends_with_iff [text_simps]: "ends_with p s \<longleftrightarrow> (\<exists>t. s = t @ p)"
proof
  assume "ends_with p s"
  then obtain t where "strip_prefix (rev p) (rev s) = Some t"
    by (auto simp: ends_with_def strip_suffix_def)
  then have "rev s = rev p @ t" by (simp add: strip_prefix_Some)
  then have "s = rev t @ p" by (metis rev_append rev_rev_ident)
  then show "\<exists>t. s = t @ p" ..
next
  assume "\<exists>t. s = t @ p"
  then show "ends_with p s" by (auto simp: ends_with_def strip_suffix_def)
qed

text \<open>\<open>str::split\<close> on one character: never empty, the pieces between the separators.\<close>

fun split_on :: "'a \<Rightarrow> 'a list \<Rightarrow> 'a list list" where
  "split_on sep [] = [[]]"
| "split_on sep (c # s) =
     (if c = sep then [] # split_on sep s
      else case split_on sep s of piece # pieces \<Rightarrow> (c # piece) # pieces | [] \<Rightarrow> [[c]])"

fun join :: "'a list \<Rightarrow> 'a list list \<Rightarrow> 'a list" where
  "join sep [] = []"
| "join sep [s] = s"
| "join sep (s # ss) = s @ sep @ join sep ss"

lemma split_on_nonempty [simp]: "split_on sep s \<noteq> []"
  by (cases s) (auto split: list.split)

lemma split_on_no_sep: "piece \<in> set (split_on sep s) \<Longrightarrow> sep \<notin> set piece"
  by (induction sep s arbitrary: piece rule: split_on.induct) (auto split: if_splits list.splits)

lemma join_split_on: "join [sep] (split_on sep s) = s"
proof (induction sep s rule: split_on.induct)
  case (2 sep c s)
  obtain p ps where p: "split_on sep s = p # ps" by (cases "split_on sep s") auto
  then show ?case using 2 by (cases ps) auto
qed simp

lemma split_on_append_sep: "split_on sep (a @ sep # b) = split_on sep a @ split_on sep b"
proof (induction a)
  case (Cons c a)
  then show ?case by (cases "split_on sep a") (auto split: list.split)
qed simp

lemma split_on_trivial: "sep \<notin> set s \<Longrightarrow> split_on sep s = [s]"
  by (induction s) auto

text \<open>ASCII classes of one byte.\<close>

definition code :: "char \<Rightarrow> nat" where "code c = of_char c"

lemma code_less [simp]: "code c < 256"
  by (simp add: code_def)

lemma code_char_of [simp]: "code (char_of n) = n mod 256"
  by (simp add: code_def)

lemma char_of_code [simp]: "char_of (code c) = c"
  by (simp add: code_def)

lemma char_of_cong: "m mod 256 = n mod 256 \<Longrightarrow> char_of m = char_of (n :: nat)"
  by (metis char_of_code code_char_of char_of_mod_256)

definition is_ascii :: "char \<Rightarrow> bool" where "is_ascii c \<longleftrightarrow> code c < 128"

definition is_ascii_lowercase :: "char \<Rightarrow> bool" where
  "is_ascii_lowercase c \<longleftrightarrow> 97 \<le> code c \<and> code c \<le> 122"

definition is_ascii_uppercase :: "char \<Rightarrow> bool" where
  "is_ascii_uppercase c \<longleftrightarrow> 65 \<le> code c \<and> code c \<le> 90"

definition is_ascii_digit :: "char \<Rightarrow> bool" where
  "is_ascii_digit c \<longleftrightarrow> 48 \<le> code c \<and> code c \<le> 57"

definition is_ascii_hexdigit :: "char \<Rightarrow> bool" where
  "is_ascii_hexdigit c \<longleftrightarrow> is_ascii_digit c \<or> (65 \<le> code c \<and> code c \<le> 70)
     \<or> (97 \<le> code c \<and> code c \<le> 102)"

definition to_ascii_lowercase :: "char \<Rightarrow> char" where
  "to_ascii_lowercase c = (if is_ascii_uppercase c then char_of (code c + 32) else c)"

text \<open>
  The characters of Unicode's \<open>White_Space\<close>, by their UTF-8 encodings: tab to carriage return,
  space, U+0085, U+00A0, U+1680, U+2000 to U+200A, U+2028, U+2029, U+202F, U+205F and U+3000.
\<close>

definition bytes_text :: "nat list \<Rightarrow> string" where
  "bytes_text = map char_of"

definition white_space :: "string list" where
  "white_space = map bytes_text
     ([[9], [10], [11], [12], [13], [32], [194, 133], [194, 160], [225, 154, 128]]
      @ map (\<lambda>b. [226, 128, b]) [128, 129, 130, 131, 132, 133, 134, 135, 136, 137, 138]
      @ [[226, 128, 168], [226, 128, 169], [226, 128, 175], [226, 129, 159], [227, 128, 128]])"

fun strip_any :: "'a list list \<Rightarrow> 'a list \<Rightarrow> 'a list option" where
  "strip_any [] s = None"
| "strip_any (p # ps) s =
     (if p = [] then strip_any ps s
      else case strip_prefix p s of Some t \<Rightarrow> Some t | None \<Rightarrow> strip_any ps s)"

lemma strip_any_Some:
  "strip_any ps s = Some t \<Longrightarrow> \<exists>p \<in> set ps. p \<noteq> [] \<and> s = p @ t"
  by (induction ps s rule: strip_any.induct)
    (auto simp: strip_prefix_Some split: if_splits option.splits)

lemma strip_any_shorter: "strip_any ps s = Some t \<Longrightarrow> length t < length s"
  using strip_any_Some by fastforce

function trim_with :: "'a list list \<Rightarrow> 'a list \<Rightarrow> 'a list" where
  "trim_with ps s = (case strip_any ps s of None \<Rightarrow> s | Some t \<Rightarrow> trim_with ps t)"
  by pat_completeness auto
termination
  by (relation "measure (\<lambda>(ps, s). length s)") (auto dest: strip_any_shorter)

declare trim_with.simps [simp del]

lemma trim_with_shorter: "length (trim_with ps s) \<le> length s"
proof (induction ps s rule: trim_with.induct)
  case (1 ps s)
  show ?case
  proof (cases "strip_any ps s")
    case (Some t)
    then show ?thesis
      using 1[OF Some] strip_any_shorter[OF Some] by (subst trim_with.simps) simp
  qed (subst trim_with.simps, simp)
qed

definition trim_start :: "string \<Rightarrow> string" where
  "trim_start = trim_with white_space"

definition trim_end :: "string \<Rightarrow> string" where
  "trim_end s = rev (trim_with (map rev white_space) (rev s))"

definition trim :: "string \<Rightarrow> string" where
  "trim s = trim_end (trim_start s)"

lemma strip_any_None: "strip_any ps s = None \<longleftrightarrow> (\<forall>p \<in> set ps. p = [] \<or> \<not> starts_with p s)"
  by (induction ps s rule: strip_any.induct) (auto simp: starts_with_def split: option.splits)

lemma white_space_first:
  "list_all (\<lambda>p. case p of [] \<Rightarrow> True | c # _ \<Rightarrow> code c \<le> 13 \<or> code c = 32 \<or> 128 \<le> code c) white_space"
  by (simp add: white_space_def bytes_text_def code_def)
lemma space_only:
  "list_all (\<lambda>p. p = '' '' \<or> (p \<noteq> [] \<and> hd p \<noteq> CHR '' '')) white_space"
proof -
  have c: "CHR '' '' = char_of (32::nat)" by code_simp
  show ?thesis by (simp add: white_space_def bytes_text_def c char_of_eq_iff take_bit_eq_mod)
qed
lemma space_in: "'' '' \<in> set white_space"
proof -
  have c: "CHR '' '' = char_of (32::nat)" by code_simp
  show ?thesis by (simp add: white_space_def bytes_text_def c char_of_eq_iff take_bit_eq_mod)
qed

lemma trim_start_stays:
  assumes "13 < code c" "code c \<noteq> 32" "code c < 128"
  shows "trim_start (c # s) = c # s"
proof -
  have "p = [] \<or> \<not> starts_with p (c # s)" if "p \<in> set white_space" for p
    using white_space_first that assms
    by (cases p) (fastforce simp: list_all_iff starts_with_iff)+
  then have "strip_any white_space (c # s) = None" by (simp add: strip_any_None)
  then show ?thesis by (simp add: trim_start_def trim_with.simps)
qed

lemma trim_start_Nil [simp]: "trim_start [] = []"
proof -
  have "strip_any white_space [] = None" by (auto simp: strip_any_None starts_with_iff)
  then show ?thesis by (simp add: trim_start_def trim_with.simps)
qed

lemma trim_start_space [simp]: "trim_start (CHR '' '' # s) = trim_start s"
proof -
  have *: "list_all (\<lambda>p. p = '' '' \<or> hd p \<noteq> CHR '' '') white_space" "'' '' \<in> set white_space"
    using space_only space_in by (auto simp: list_all_iff)
  obtain t where t: "strip_any white_space (CHR '' '' # s) = Some t"
    using *(2) by (cases "strip_any white_space (CHR '' '' # s)")
      (auto simp: strip_any_None starts_with_iff)
  obtain p where "p \<in> set white_space" "p \<noteq> []" "CHR '' '' # s = p @ t"
    using strip_any_Some[OF t] by blast
  with *(1) have "t = s" by (cases p) (auto simp: list_all_iff)
  with t show ?thesis by (simp add: trim_start_def trim_with.simps[of _ "CHR '' '' # s"])
qed

text \<open>A number in decimal digits, as \<open>{}\<close> formats it.\<close>

fun decimal :: "nat \<Rightarrow> string" where
  "decimal n = (if n < 10 then [char_of (48 + n)] else decimal (n div 10) @ [char_of (48 + n mod 10)])"

declare decimal.simps [simp del]

definition digits_value :: "string \<Rightarrow> nat" where
  "digits_value s = foldl (\<lambda>acc c. acc * 10 + (code c - 48)) 0 s"

lemma digits_value_decimal [simp]: "digits_value (decimal n) = n"
proof (induction n rule: decimal.induct)
  case (1 n)
  then show ?case by (subst decimal.simps) (auto simp: digits_value_def)
qed

lemma decimal_inject [simp]: "decimal m = decimal n \<longleftrightarrow> m = n"
  by (metis digits_value_decimal)

lemma decimal_digits: "c \<in> set (decimal n) \<Longrightarrow> is_ascii_digit c"
proof (induction n rule: decimal.induct)
  case (1 n)
  then show ?case
    by (subst (asm) (2) decimal.simps) (auto simp: is_ascii_digit_def split: if_splits)
qed

lemma decimal_nonempty [simp]: "decimal n \<noteq> []"
  by (subst decimal.simps) simp

text \<open>\<open>str::parse\<close> of an unsigned integer no greater than \<open>limit\<close>: digits, a \<open>+\<close> before them or not.\<close>

definition parse_unsigned :: "nat \<Rightarrow> string \<Rightarrow> nat option" where
  "parse_unsigned limit s =
     (let digits = (case s of c # t \<Rightarrow> if c = CHR ''+'' then t else s | [] \<Rightarrow> []) in
      if digits \<noteq> [] \<and> list_all is_ascii_digit digits \<and> digits_value digits \<le> limit
      then Some (digits_value digits) else None)"

lemma parse_unsigned_decimal: "n \<le> limit \<Longrightarrow> parse_unsigned limit (decimal n) = Some n"
proof -
  assume n: "n \<le> limit"
  have digits: "list_all is_ascii_digit (decimal n)" using decimal_digits by (auto simp: list_all_iff)
  obtain c t where ct: "decimal n = c # t" using decimal_nonempty[of n] by (cases "decimal n") auto
  have "is_ascii_digit c" using digits ct by simp
  then have "c \<noteq> CHR ''+''" by (auto simp: is_ascii_digit_def code_def)
  then have "(case decimal n of c # t \<Rightarrow> if c = CHR ''+'' then t else decimal n | [] \<Rightarrow> []) = decimal n"
    by (simp add: ct)
  then show ?thesis using n digits unfolding parse_unsigned_def Let_def by simp
qed

text \<open>\<open>char::is_control\<close> anywhere in the text: U+0000 to U+001F, U+007F, and U+0080 to U+009F,
  whose encodings are \<open>C2 80\<close> to \<open>C2 9F\<close>.\<close>

fun has_control :: "string \<Rightarrow> bool" where
  "has_control [] \<longleftrightarrow> False"
| "has_control (c # s) \<longleftrightarrow>
     code c < 32 \<or> code c = 127
     \<or> (code c = 194 \<and> (case s of [] \<Rightarrow> False | d # _ \<Rightarrow> 128 \<le> code d \<and> code d \<le> 159))
     \<or> has_control s"

end
