(* ===== verification/Probe.thy ===== *)
theory Probe
  imports Prelude
begin

section \<open>The base-3 probe frame (probe\_v2.rs)\<close>

text \<open>
  A compound decision of \<open>n\<close> conditions travels as one number: condition \<open>i\<close> adds
  \<open>0\<close>, \<open>1\<close> or \<open>2\<close> times \<open>3 ^ i\<close> as it was not reached, false or true. \<open>decode\<close> is the
  engine's reader (\<open>probe_v2::decode\<close>); \<open>frame_value\<close> is the contract's encoding
  (contracts/probe-v2/README.md) on unbounded numbers, the reference the reader is
  compared with.
\<close>

definition PROBE_V2_RADIX :: nat where "PROBE_V2_RADIX = 3"

definition PROBE_V2_JS_MAX_CONDITIONS :: nat where "PROBE_V2_JS_MAX_CONDITIONS = 32"

datatype condition_value = Unreached | ValueFalse | ValueTrue

record decision_vector =
  dv_values :: "condition_value list"
  dv_outcome :: bool

definition DIGITS :: "condition_value list" where
  "DIGITS = [Unreached, ValueFalse, ValueTrue]"

text \<open>The loop of \<open>decode\<close>: one digit taken per condition, and what remains.\<close>

fun decode_digits :: "nat \<Rightarrow> u64 \<Rightarrow> condition_value list \<times> u64" where
  "decode_digits 0 remaining = ([], remaining)"
| "decode_digits (Suc n) remaining =
     (let digit = DIGITS ! unat (remaining mod of_nat PROBE_V2_RADIX);
          (values, rest) = decode_digits n (remaining div of_nat PROBE_V2_RADIX)
      in (digit # values, rest))"

definition decode :: "nat \<Rightarrow> u64 \<Rightarrow> bool \<Rightarrow> decision_vector option" where
  "decode condition_count encoded outcome =
     (if condition_count > PROBE_V2_JS_MAX_CONDITIONS then None
      else let (values, remaining) = decode_digits condition_count encoded
           in if remaining = 0 then Some \<lparr>dv_values = values, dv_outcome = outcome\<rparr> else None)"

subsection \<open>The contract's encoding\<close>

fun digit_of :: "condition_value \<Rightarrow> nat" where
  "digit_of Unreached = 0"
| "digit_of ValueFalse = 1"
| "digit_of ValueTrue = 2"

fun frame_value :: "condition_value list \<Rightarrow> nat" where
  "frame_value [] = 0"
| "frame_value (v # vs) = digit_of v + 3 * frame_value vs"

lemma frame_value_bound: "frame_value vs < 3 ^ length vs"
proof (induction vs)
  case (Cons v vs)
  have "digit_of v \<le> 2" by (cases v) simp_all
  with Cons show ?case by simp
qed simp

lemma DIGITS_digit_of: "DIGITS ! digit_of v = v"
  by (cases v) (simp_all add: DIGITS_def)

lemma digit_of_DIGITS: "d < 3 \<Longrightarrow> digit_of (DIGITS ! d) = d"
proof -
  assume "d < 3"
  then have "d = 0 \<or> d = 1 \<or> d = 2" by arith
  then show ?thesis by (auto simp: DIGITS_def)
qed

lemma decode_digits_length: "length (fst (decode_digits n e)) = n"
  by (induction n arbitrary: e) (auto simp: Let_def split: prod.splits, metis fst_conv)

text \<open>Digits and remainder are the base-3 expansion of the frame.\<close>

lemma decode_digits_value:
  "unat e = frame_value (fst (decode_digits n e)) + 3 ^ n * unat (snd (decode_digits n e))"
proof (induction n arbitrary: e)
  case (Suc n)
  let ?q = "e div 3"
  obtain vs r where vs: "decode_digits n ?q = (vs, r)" by (cases "decode_digits n ?q")
  have d: "digit_of (DIGITS ! unat (e mod 3)) = unat e mod 3"
    by (subst digit_of_DIGITS) (simp_all add: unat_mod)
  have "unat e = unat e mod 3 + 3 * unat ?q"
    by (simp add: unat_div)
  moreover have "unat ?q = frame_value vs + 3 ^ n * unat r"
    using Suc[of ?q] by (simp add: vs)
  ultimately show ?case
    by (simp add: PROBE_V2_RADIX_def vs d algebra_simps)
qed simp

lemma frame_value_unique:
  "length vs = length ws \<Longrightarrow> frame_value vs = frame_value ws \<Longrightarrow> vs = ws"
proof (induction vs ws rule: list_induct2)
  case (Cons v vs w ws)
  have b: "digit_of v < 3" "digit_of w < 3" by (cases v; simp) (cases w; simp)
  have eq: "digit_of v + 3 * frame_value vs = digit_of w + 3 * frame_value ws"
    using Cons.prems by simp
  from eq b have "digit_of v = digit_of w" by presburger
  moreover from this eq have "frame_value vs = frame_value ws" by simp
  ultimately show ?case using Cons.IH by (metis DIGITS_digit_of)
qed simp

lemma frame_value_fits:
  assumes "length vs \<le> 32"
  shows "frame_value vs < 2 ^ 64"
proof -
  have "(3::nat) ^ length vs \<le> 3 ^ 32" using assms by (rule power_increasing) simp
  also have "(3::nat) ^ 32 < 2 ^ 64" by simp
  finally show ?thesis using frame_value_bound[of vs] by simp
qed

lemma decode_digits_rest_zero_iff:
  "snd (decode_digits n e) = 0 \<longleftrightarrow> unat e = frame_value (fst (decode_digits n e))"
  using decode_digits_value[of e n] by (simp add: unat_eq_0)

subsection \<open>The reader accepts exactly the contract's frames\<close>

text \<open>\<open>decode\<close> accepts exactly the frames the contract encodes: it returns a vector just
  when the width is at most 32, the vector has one value per condition and the outcome
  given, and the frame is that vector's base-3 value. So no frame has two readings, no
  high digit is dropped, and a frame with a digit past the width is refused.\<close>

theorem decode_exact:
  "decode n e b = Some v \<longleftrightarrow>
     n \<le> PROBE_V2_JS_MAX_CONDITIONS \<and> length (dv_values v) = n \<and> dv_outcome v = b
     \<and> unat e = frame_value (dv_values v)"
proof -
  obtain vs r where d: "decode_digits n e = (vs, r)" by (cases "decode_digits n e")
  have len: "length vs = n" using decode_digits_length[of n e] by (simp add: d)
  have zero: "r = 0 \<longleftrightarrow> unat e = frame_value vs"
    using decode_digits_rest_zero_iff[of n e] by (simp add: d)
  have bound: "unat e = frame_value vs + 3 ^ n * unat r"
    using decode_digits_value[of e n] by (simp add: d)
  have same: "dv_values v = vs" if "length (dv_values v) = n" "unat e = frame_value (dv_values v)"
  proof -
    have "frame_value (dv_values v) < 3 ^ n" using frame_value_bound[of "dv_values v"] that by simp
    with bound that have "unat r = 0" by (cases "unat r") auto
    with bound that have "frame_value (dv_values v) = frame_value vs" by simp
    with that len show ?thesis by (intro frame_value_unique) simp_all
  qed
  show ?thesis
  proof (cases "n \<le> PROBE_V2_JS_MAX_CONDITIONS \<and> r = 0")
    case True
    then have "decode n e b = Some \<lparr>dv_values = vs, dv_outcome = b\<rparr>"
      by (simp add: decode_def d)
    with True len zero same show ?thesis by (cases v) auto
  next
    case False
    then have "decode n e b = None" by (auto simp: decode_def d)
    with False zero same show ?thesis by auto
  qed
qed

text \<open>Every vector of at most 32 conditions survives the 64-bit transport: its frame value
  fits the word, and decoding the word gives the vector and outcome back.\<close>

theorem decode_frame_roundtrip:
  assumes "length vs \<le> PROBE_V2_JS_MAX_CONDITIONS"
  shows "decode (length vs) (of_nat (frame_value vs)) b
     = Some \<lparr>dv_values = vs, dv_outcome = b\<rparr>"
proof -
  have "frame_value vs < 2 ^ 64"
    using assms by (intro frame_value_fits) (simp add: PROBE_V2_JS_MAX_CONDITIONS_def)
  then have "unat (of_nat (frame_value vs) :: u64) = frame_value vs"
    by (simp add: unat_of_nat)
  then show ?thesis using assms by (simp add: decode_exact)
qed

theorem decode_frame_roundtrip_witness:
  "decode 3 (of_nat (frame_value [ValueFalse, Unreached, ValueTrue])) True
     = Some \<lparr>dv_values = [ValueFalse, Unreached, ValueTrue], dv_outcome = True\<rparr>"
  using decode_frame_roundtrip[of "[ValueFalse, Unreached, ValueTrue]" True]
  by (simp add: PROBE_V2_JS_MAX_CONDITIONS_def eval_nat_numeral del: of_nat_Suc)

end
