(* ===== verification/Mcdc.thy ===== *)
theory Mcdc
  imports Prelude
begin

unbundle bit_operations_syntax

section \<open>Masking MC/DC witnesses over dense bit sets (coverage\_analysis.rs)\<close>

text \<open>
  The search for the pair of observed vectors that shows a condition deciding its decision.
  \<open>is_independence_pair\<close> is the criterion; \<open>find_witnesses_for_conditions\<close> is the engine's
  search, which rejects incompatible candidates with bit sets of 64-bit words;
  \<open>reference_scan\<close> is the nested-order scan its comment names as the reference.
\<close>

record mcdc_vector =
  mv_values :: "bool option list"
  mv_outcome :: bool

record witness_indexes =
  wi_first :: nat
  wi_second :: nat

datatype analysis_error =
    EmptyDecision nat
  | InconsistentVectorWidth nat nat nat

subsection \<open>Bits\<close>

text \<open>
  \<open>Bits(Vec<u64>)\<close>: item \<open>i\<close> is bit \<open>i mod 64\<close> of word \<open>i div 64\<close>. Rust panics on an index
  past the words; HOL's list update leaves the list alone there and \<open>!\<close> is unspecified, so the
  lemmas below carry \<open>i < capacity b\<close>, which every call in the search satisfies.
\<close>

type_synonym bits = "u64 list"

definition bits_empty :: "nat \<Rightarrow> bits" where
  "bits_empty items = replicate ((items + 63) div 64) 0"

definition bits_insert :: "bits \<Rightarrow> nat \<Rightarrow> bits" where
  "bits_insert b index = b[index div 64 := (b ! (index div 64)) OR push_bit (index mod 64) 1]"

fun zip_words :: "(u64 \<Rightarrow> u64 \<Rightarrow> u64) \<Rightarrow> bits \<Rightarrow> bits \<Rightarrow> bits" where
  "zip_words f (w # ws) (m # ms) = f w m # zip_words f ws ms"
| "zip_words f ws _ = ws"

definition and_assign :: "bits \<Rightarrow> bits \<Rightarrow> bits" where
  "and_assign b other = zip_words (\<lambda>word mask. word AND mask) b other"

definition and_not_assign :: "bits \<Rightarrow> bits \<Rightarrow> bits" where
  "and_not_assign b other = zip_words (\<lambda>word mask. word AND NOT mask) b other"

definition remove_through :: "bits \<Rightarrow> nat \<Rightarrow> bits" where
  "remove_through b index =
     (let word = index div 64; bit = index mod 64;
          cleared = replicate (min word (length b)) 0 @ drop word b
      in cleared[word := (cleared ! word) AND
           (if bit = 63 then 0 else push_bit (bit + 1) (NOT 0))])"

text \<open>\<open>u64::trailing_zeros\<close> of a word that is not zero: the place of its lowest set bit.\<close>

fun trailing_zeros_from :: "nat \<Rightarrow> nat \<Rightarrow> u64 \<Rightarrow> nat" where
  "trailing_zeros_from 0 k w = k"
| "trailing_zeros_from (Suc n) k w =
     (if bit w k then k else trailing_zeros_from n (Suc k) w)"

definition trailing_zeros :: "u64 \<Rightarrow> nat" where
  "trailing_zeros w = trailing_zeros_from 64 0 w"

fun first_from :: "nat \<Rightarrow> bits \<Rightarrow> nat option" where
  "first_from word [] = None"
| "first_from word (w # ws) =
     (if w \<noteq> 0 then Some (word * 64 + trailing_zeros w) else first_from (Suc word) ws)"

definition bits_first :: "bits \<Rightarrow> nat option" where
  "bits_first b = first_from 0 b"

subsection \<open>What the bit sets denote\<close>

definition capacity :: "bits \<Rightarrow> nat" where
  "capacity b = 64 * length b"

definition members :: "bits \<Rightarrow> nat set" where
  "members b = {i. i < capacity b \<and> bit (b ! (i div 64)) (i mod 64)}"

lemma div64_less: "i div 64 < length b \<longleftrightarrow> i < capacity b"
  by (auto simp: capacity_def div_less_iff_less_mult mult.commute)

lemma members_less: "i \<in> members b \<Longrightarrow> i < capacity b"
  by (simp add: members_def)

lemma capacity_empty: "n \<le> capacity (bits_empty n)"
  by (simp add: capacity_def bits_empty_def)

lemma members_empty: "members (bits_empty n) = {}"
  by (auto simp: members_def bits_empty_def simp flip: div64_less)

lemma capacity_insert [simp]: "capacity (bits_insert b i) = capacity b"
  by (simp add: capacity_def bits_insert_def)

lemma members_insert:
  assumes "i < capacity b"
  shows "members (bits_insert b i) = insert i (members b)"
proof -
  have "j \<in> members (bits_insert b i) \<longleftrightarrow> j \<in> insert i (members b)" for j
  proof (cases "j < capacity b")
    case True
    have i: "i div 64 < length b" using assms by (simp add: div64_less)
    show ?thesis
    proof (cases "j div 64 = i div 64")
      case same: True
      have "j = i \<longleftrightarrow> j mod 64 = i mod 64"
        using same by (metis div_mod_decomp)
      moreover have "bit (push_bit (i mod 64) (1::u64)) (j mod 64) \<longleftrightarrow> j mod 64 = i mod 64"
        by (auto simp: bit_exp_iff)
      ultimately show ?thesis
        using True i same assms
        by (auto simp: members_def bits_insert_def capacity_def bit_or_iff)
    next
      case False
      then have "j \<noteq> i" by auto
      with False True show ?thesis
        by (simp add: members_def bits_insert_def capacity_def)
    qed
  next
    case False
    then show ?thesis using assms by (auto simp: members_def)
  qed
  then show ?thesis by blast
qed

lemma zip_words_nth:
  "length ms = length ws \<Longrightarrow> i < length ws \<Longrightarrow> zip_words f ws ms ! i = f (ws ! i) (ms ! i)"
proof (induction f ws ms arbitrary: i rule: zip_words.induct)
  case (1 f w ws m ms)
  then show ?case by (cases i) simp_all
qed auto

lemma length_zip_words [simp]: "length (zip_words f ws ms) = length ws"
  by (induction f ws ms rule: zip_words.induct) simp_all

lemma capacity_and [simp]: "capacity (and_assign b c) = capacity b"
  by (simp add: capacity_def and_assign_def)

lemma capacity_and_not [simp]: "capacity (and_not_assign b c) = capacity b"
  by (simp add: capacity_def and_not_assign_def)

lemma members_and:
  "capacity c = capacity b \<Longrightarrow> members (and_assign b c) = members b \<inter> members c"
  by (auto simp: members_def and_assign_def zip_words_nth capacity_def bit_and_iff
      div64_less[unfolded capacity_def])

lemma members_and_not:
  assumes "capacity c = capacity b"
  shows "members (and_not_assign b c) = members b - members c"
proof -
  have "length c = length b" using assms by (simp add: capacity_def)
  then show ?thesis
    by (auto simp: members_def and_not_assign_def zip_words_nth capacity_def bit_and_iff bit_not_iff
        div64_less[unfolded capacity_def])
qed

lemma capacity_remove_through [simp]: "capacity (remove_through b i) = capacity b"
  by (simp add: capacity_def remove_through_def Let_def)

lemma members_remove_through:
  assumes "i < capacity b"
  shows "members (remove_through b i) = {j \<in> members b. i < j}"
proof -
  have i: "i div 64 < length b" using assms by (simp add: div64_less)
  have "j \<in> members (remove_through b i) \<longleftrightarrow> j \<in> members b \<and> i < j"
    if j: "j < capacity b" for j
  proof -
    have jl: "j div 64 < length b" using j by (simp add: div64_less)
    consider "j div 64 < i div 64" | "j div 64 = i div 64" | "i div 64 < j div 64" by linarith
    then show ?thesis
    proof cases
      case 1
      then have "\<not> i < j" by (metis div_le_mono leD less_imp_le)
      with 1 i j show ?thesis
        by (simp add: members_def remove_through_def Let_def nth_append capacity_def)
    next
      case 2
      then have ij: "i < j \<longleftrightarrow> i mod 64 < j mod 64"
        by (metis div_mult_mod_eq nat_add_left_cancel_less)
      have m: "j mod 64 < 64" by simp
      have "bit (if i mod 64 = 63 then 0 else push_bit (i mod 64 + 1) (NOT (0::u64))) (j mod 64)
          \<longleftrightarrow> i mod 64 < j mod 64"
        using m by (auto simp: bit_mask_iff bit_not_iff)
      with 2 ij i j jl show ?thesis
        by (auto simp: members_def remove_through_def Let_def nth_append capacity_def bit_and_iff)
    next
      case 3
      then have "i < j" by (meson div_le_mono linorder_not_le)
      with 3 i j jl show ?thesis
        by (auto simp: members_def remove_through_def Let_def nth_append capacity_def)
    qed
  qed
  then show ?thesis using members_less[of _ b] members_less[of _ "remove_through b i"] by auto
qed

lemma trailing_zeros_from_least:
  assumes "\<exists>j. k \<le> j \<and> j < k + n \<and> bit w j"
  shows "bit w (trailing_zeros_from n k w) \<and> k \<le> trailing_zeros_from n k w
     \<and> trailing_zeros_from n k w < k + n
     \<and> (\<forall>j. k \<le> j \<longrightarrow> j < trailing_zeros_from n k w \<longrightarrow> \<not> bit w j)"
  using assms
proof (induction n k w rule: trailing_zeros_from.induct)
  case (2 n k w)
  show ?case
  proof (cases "bit w k")
    case False
    with "2.prems" have "\<exists>j. Suc k \<le> j \<and> j < Suc k + n \<and> bit w j"
      by (metis add_Suc_right add_Suc_shift le_neq_implies_less Suc_leI)
    note least = "2.IH"[OF False this]
    have "\<not> bit w j" if "k \<le> j" "j < trailing_zeros_from n (Suc k) w" for j
      using that least False by (cases "j = k") auto
    with least False show ?thesis by auto
  qed simp
qed auto

lemma trailing_zeros_least:
  assumes "w \<noteq> (0::u64)"
  shows "bit w (trailing_zeros w)" "trailing_zeros w < 64"
    "\<And>j. j < trailing_zeros w \<Longrightarrow> \<not> bit w j"
proof -
  from assms obtain j where "bit w j" using bit_eqI[of w 0] by auto
  moreover from this have "j < 64" using bit_imp_le_length[of w j] by simp
  ultimately have "\<exists>j. 0 \<le> j \<and> j < 0 + 64 \<and> bit w j" by auto
  note least = trailing_zeros_from_least[OF this]
  show "bit w (trailing_zeros w)" "trailing_zeros w < 64"
    "\<And>j. j < trailing_zeros w \<Longrightarrow> \<not> bit w j"
    using least by (auto simp: trailing_zeros_def)
qed

lemma members_Cons:
  "members (w # ws) = {i. i < 64 \<and> bit w i} \<union> (\<lambda>i. i + 64) ` members ws"
proof -
  have "j \<in> members (w # ws) \<longleftrightarrow> j < 64 \<and> bit w j \<or> (\<exists>i \<in> members ws. j = i + 64)" for j
  proof (cases "j < 64")
    case False
    then have "j = (j - 64) + 64" by simp
    then obtain k where k: "j = k + 64" by blast
    have "(k + 64) div 64 = Suc (k div 64)" by simp
    with k show ?thesis by (auto simp: members_def capacity_def simp del: div_add_self2)
  qed (auto simp: members_def capacity_def)
  then show ?thesis by auto
qed

lemma first_from_spec:
  "first_from k b = (if members b = {} then None else Some (64 * k + (LEAST i. i \<in> members b)))"
proof (induction b arbitrary: k)
  case Nil
  then show ?case by (simp add: members_def capacity_def)
next
  case (Cons w ws)
  show ?case
  proof (cases "w = 0")
    case True
    have empty: "members (w # ws) = {} \<longleftrightarrow> members ws = {}"
      using True by (simp add: members_Cons)
    have "(LEAST i. i \<in> members (w # ws)) = (LEAST i. i \<in> members ws) + 64"
      if ne: "members ws \<noteq> {}"
    proof (rule Least_equality)
      show "(LEAST i. i \<in> members ws) + 64 \<in> members (w # ws)"
        using ne LeastI_ex[of "\<lambda>i. i \<in> members ws"] by (auto simp: members_Cons)
    next
      fix y assume "y \<in> members (w # ws)"
      then obtain i where "i \<in> members ws" "y = i + 64" using True by (auto simp: members_Cons)
      then show "(LEAST i. i \<in> members ws) + 64 \<le> y" by (simp add: Least_le)
    qed
    with True empty Cons[of "Suc k"] show ?thesis by simp
  next
    case False
    note tz = trailing_zeros_least[OF False]
    have "(LEAST i. i \<in> members (w # ws)) = trailing_zeros w"
    proof (rule Least_equality)
      show "trailing_zeros w \<in> members (w # ws)" using tz by (simp add: members_Cons)
    next
      fix y assume "y \<in> members (w # ws)"
      then show "trailing_zeros w \<le> y" using tz by (auto simp: members_Cons) (meson not_le)
    qed
    moreover have "members (w # ws) \<noteq> {}" using tz by (auto simp: members_Cons)
    ultimately show ?thesis using False by simp
  qed
qed

lemma bits_first_spec:
  "bits_first b = (if members b = {} then None else Some (LEAST i. i \<in> members b))"
  by (simp add: bits_first_def first_from_spec)

subsection \<open>The interface the search uses\<close>

text \<open>
  What the witness search needs of its bit sets, and no more: the laws of a set of naturals
  under a fixed capacity, with the least member at hand.
\<close>

locale index_set =
  fixes empty_set :: "nat \<Rightarrow> 'b" and add :: "'b \<Rightarrow> nat \<Rightarrow> 'b"
    and meet :: "'b \<Rightarrow> 'b \<Rightarrow> 'b" and minus_set :: "'b \<Rightarrow> 'b \<Rightarrow> 'b"
    and above :: "'b \<Rightarrow> nat \<Rightarrow> 'b" and least :: "'b \<Rightarrow> nat option"
    and elems :: "'b \<Rightarrow> nat set" and cap :: "'b \<Rightarrow> nat"
  assumes elems_empty: "elems (empty_set n) = {}"
    and elems_add: "i < cap b \<Longrightarrow> elems (add b i) = insert i (elems b)"
    and elems_meet: "cap c = cap b \<Longrightarrow> elems (meet b c) = elems b \<inter> elems c"
    and elems_minus: "cap c = cap b \<Longrightarrow> elems (minus_set b c) = elems b - elems c"
    and elems_above: "i < cap b \<Longrightarrow> elems (above b i) = {j \<in> elems b. i < j}"
    and least_elem: "least b = (if elems b = {} then None else Some (LEAST i. i \<in> elems b))"
    and cap_empty: "n \<le> cap (empty_set n)"
    and cap_add: "cap (add b i) = cap b" and cap_meet: "cap (meet b c) = cap b"
    and cap_minus: "cap (minus_set b c) = cap b" and cap_above: "cap (above b i) = cap b"
begin

lemma cap_minus_all: "cap (fold (\<lambda>m b. minus_set b m) ms b) = cap b"
  by (induction ms arbitrary: b) (simp_all add: cap_minus)

lemma elems_minus_all:
  "(\<And>m. m \<in> set ms \<Longrightarrow> cap m = cap b) \<Longrightarrow>
     elems (fold (\<lambda>m b. minus_set b m) ms b) = elems b - (\<Union>m \<in> set ms. elems m)"
proof (induction ms arbitrary: b)
  case (Cons m ms)
  have "elems (fold (\<lambda>m b. minus_set b m) ms (minus_set b m))
      = elems (minus_set b m) - (\<Union>m \<in> set ms. elems m)"
    using Cons.prems by (intro Cons.IH) (simp add: cap_minus)
  then show ?case using Cons.prems by (simp add: elems_minus) blast
qed simp

lemma elems_candidates:
  assumes "cap c = cap b" and "i < cap b" and "\<And>m. m \<in> set ms \<Longrightarrow> cap m = cap b"
  shows "elems (fold (\<lambda>m b. minus_set b m) ms (above (meet b c) i))
     = {j \<in> elems b \<inter> elems c. i < j} - (\<Union>m \<in> set ms. elems m)"
  using assms by (subst elems_minus_all) (simp_all add: cap_above cap_meet elems_above elems_meet)

lemma least_eq_find:
  assumes "elems b = {j. j < n \<and> P j}"
  shows "least b = find P [0..<n]"
proof (cases "elems b = {}")
  case True
  then have "find P [0..<n] = None" using assms by (auto simp: find_None_iff)
  with True show ?thesis by (simp add: least_elem)
next
  case False
  let ?l = "LEAST i. i \<in> elems b"
  have l: "?l \<in> elems b" "\<And>j. j < ?l \<Longrightarrow> j \<notin> elems b"
    using False LeastI_ex[of "\<lambda>i. i \<in> elems b"] not_less_Least by auto
  have found: "find P [0..<n] = Some l" if "l < n" "P l" "\<And>j. j < l \<Longrightarrow> \<not> P j" for l
    unfolding find_Some_iff using that by (intro exI[of _ l]) auto
  have "?l < n \<and> P ?l" using l(1) assms by blast
  moreover have "\<not> P j" if "j < ?l" for j using l(2)[OF that] that calculation assms by simp
  ultimately have "find P [0..<n] = Some ?l" using found by blast
  with False show ?thesis by (simp add: least_elem)
qed

end

interpretation bs: index_set bits_empty bits_insert and_assign and_not_assign remove_through
    bits_first members capacity
  by unfold_locales
    (simp_all add: members_empty members_insert members_and members_and_not
      members_remove_through bits_first_spec capacity_empty)

subsection \<open>The criterion and the search\<close>

definition is_independence_pair :: "mcdc_vector \<Rightarrow> mcdc_vector \<Rightarrow> nat \<Rightarrow> bool" where
  "is_independence_pair first second condition =
     (if length (mv_values first) \<noteq> length (mv_values second)
         \<or> length (mv_values first) \<le> condition then False
      else case (mv_values first ! condition, mv_values second ! condition) of
        (Some first_target, Some second_target) \<Rightarrow>
          if first_target = second_target \<or> mv_outcome first = mv_outcome second then False
          else list_all (\<lambda>(index, left, right).
                 index = condition \<or> left = None \<or> right = None \<or> left = right)
               (enumerate 0 (zip (mv_values first) (mv_values second)))
      | _ \<Rightarrow> False)"

record witness_tables =
  wt_outcomes :: "bits list"
  wt_false :: "bits list"
  wt_true :: "bits list"

definition empty_tables :: "nat \<Rightarrow> nat \<Rightarrow> witness_tables" where
  "empty_tables items width =
     \<lparr>wt_outcomes = [bits_empty items, bits_empty items],
      wt_false = replicate width (bits_empty items),
      wt_true = replicate width (bits_empty items)\<rparr>"

fun note_value :: "nat \<Rightarrow> nat \<times> bool option \<Rightarrow> witness_tables \<Rightarrow> witness_tables" where
  "note_value index (condition, Some False) t =
     t\<lparr>wt_false := (wt_false t)[condition := bits_insert (wt_false t ! condition) index]\<rparr>"
| "note_value index (condition, Some True) t =
     t\<lparr>wt_true := (wt_true t)[condition := bits_insert (wt_true t ! condition) index]\<rparr>"
| "note_value index (condition, None) t = t"

fun note_vector :: "nat \<times> mcdc_vector \<Rightarrow> witness_tables \<Rightarrow> witness_tables" where
  "note_vector (index, vector) t =
     (let side = of_bool (mv_outcome vector) in
      fold (note_value index) (enumerate 0 (mv_values vector))
        (t\<lparr>wt_outcomes := (wt_outcomes t)[side := bits_insert (wt_outcomes t ! side) index]\<rparr>))"

definition build_tables :: "mcdc_vector list \<Rightarrow> nat \<Rightarrow> witness_tables" where
  "build_tables vectors width =
     fold note_vector (enumerate 0 vectors) (empty_tables (length vectors) width)"

text \<open>The masks taken out of the candidates: of every other condition the left vector evaluated,
  the vectors that evaluated it to the other value.\<close>

fun opposite_mask :: "witness_tables \<Rightarrow> nat \<times> bool option \<Rightarrow> bits option" where
  "opposite_mask t (condition, Some False) = Some (wt_true t ! condition)"
| "opposite_mask t (condition, Some True) = Some (wt_false t ! condition)"
| "opposite_mask t (condition, None) = None"

definition candidates :: "witness_tables \<Rightarrow> nat \<Rightarrow> nat \<Rightarrow> mcdc_vector \<Rightarrow> bool \<Rightarrow> bits" where
  "candidates t target left_index left left_target =
     fold (\<lambda>mask b. and_not_assign b mask)
       (List.map_filter (opposite_mask t)
         (filter (\<lambda>(condition, _). condition \<noteq> target) (enumerate 0 (mv_values left))))
       (remove_through
         (and_assign (wt_outcomes t ! of_bool (\<not> mv_outcome left))
           (if left_target then wt_false t ! target else wt_true t ! target))
         left_index)"

fun search_target ::
  "witness_tables \<Rightarrow> nat \<Rightarrow> (nat \<times> mcdc_vector) list \<Rightarrow> witness_indexes option" where
  "search_target t target [] = None"
| "search_target t target ((left_index, left) # rest) =
     (case mv_values left ! target of
        None \<Rightarrow> search_target t target rest
      | Some left_target \<Rightarrow>
          (case bits_first (candidates t target left_index left left_target) of
             Some second \<Rightarrow> Some \<lparr>wi_first = left_index, wi_second = second\<rparr>
           | None \<Rightarrow> search_target t target rest))"

fun check_widths :: "nat \<Rightarrow> (nat \<times> mcdc_vector) list \<Rightarrow> analysis_error + unit" where
  "check_widths width [] = Inr ()"
| "check_widths width ((index, vector) # rest) =
     (if length (mv_values vector) \<noteq> width
      then Inl (InconsistentVectorWidth index width (length (mv_values vector)))
      else check_widths width rest)"

definition find_witnesses_for_conditions ::
  "mcdc_vector list \<Rightarrow> nat \<Rightarrow> analysis_error + witness_indexes option list" where
  "find_witnesses_for_conditions vectors width =
     rbind (check_widths width (enumerate 0 vectors)) (\<lambda>_.
       let t = build_tables vectors width in
       Inr (map (\<lambda>target. search_target t target (enumerate 0 vectors)) [0..<width]))"

definition find_witnesses :: "mcdc_vector list \<Rightarrow> analysis_error + witness_indexes option list" where
  "find_witnesses vectors =
     (let width = (case vectors of [] \<Rightarrow> 0 | vector # _ \<Rightarrow> length (mv_values vector))
      in find_witnesses_for_conditions vectors width)"

subsection \<open>The reference: a scan of all pairs in nested order\<close>

fun reference_scan_from :: "mcdc_vector list \<Rightarrow> nat \<Rightarrow> nat list \<Rightarrow> witness_indexes option" where
  "reference_scan_from vectors target [] = None"
| "reference_scan_from vectors target (i # is) =
     (case find (\<lambda>j. i < j \<and> is_independence_pair (vectors ! i) (vectors ! j) target)
             [0..<length vectors] of
        Some j \<Rightarrow> Some \<lparr>wi_first = i, wi_second = j\<rparr>
      | None \<Rightarrow> reference_scan_from vectors target is)"

definition reference_scan :: "mcdc_vector list \<Rightarrow> nat \<Rightarrow> witness_indexes option" where
  "reference_scan vectors target = reference_scan_from vectors target [0..<length vectors]"

subsection \<open>What the tables hold\<close>

lemma note_value_frame [simp]:
  "wt_outcomes (note_value i cv t) = wt_outcomes t"
  "length (wt_false (note_value i cv t)) = length (wt_false t)"
  "length (wt_true (note_value i cv t)) = length (wt_true t)"
  by (cases "(i, cv, t)" rule: note_value.cases; simp)+

lemma note_values_frame [simp]:
  "wt_outcomes (fold (note_value i) cvs t) = wt_outcomes t"
  "length (wt_false (fold (note_value i) cvs t)) = length (wt_false t)"
  "length (wt_true (fold (note_value i) cvs t)) = length (wt_true t)"
  by (induction cvs arbitrary: t) simp_all

lemma note_value_at:
  assumes "m < length (wt_false t)" "m < length (wt_true t)"
  shows "wt_false (note_value i (m, v) t) ! c
       = (if c = m \<and> v = Some False then bits_insert (wt_false t ! c) i else wt_false t ! c)"
    and "wt_true (note_value i (m, v) t) ! c
       = (if c = m \<and> v = Some True then bits_insert (wt_true t ! c) i else wt_true t ! c)"
proof -
  consider "v = None" | "v = Some True" | "v = Some False" by (cases v) auto
  then show "wt_false (note_value i (m, v) t) ! c
       = (if c = m \<and> v = Some False then bits_insert (wt_false t ! c) i else wt_false t ! c)"
    and "wt_true (note_value i (m, v) t) ! c
       = (if c = m \<and> v = Some True then bits_insert (wt_true t ! c) i else wt_true t ! c)"
    using assms by (cases; simp)+
qed

lemma note_values_at:
  assumes "m + length vs \<le> length (wt_false t)" "m + length vs \<le> length (wt_true t)"
  shows "wt_false (fold (note_value i) (enumerate m vs) t) ! c
       = (if m \<le> c \<and> c < m + length vs \<and> vs ! (c - m) = Some False
          then bits_insert (wt_false t ! c) i else wt_false t ! c)
     \<and> wt_true (fold (note_value i) (enumerate m vs) t) ! c
       = (if m \<le> c \<and> c < m + length vs \<and> vs ! (c - m) = Some True
          then bits_insert (wt_true t ! c) i else wt_true t ! c)"
  using assms
proof (induction vs arbitrary: m t)
  case (Cons v vs)
  let ?t = "note_value i (m, v) t"
  have m: "m < length (wt_false t)" "m < length (wt_true t)" using Cons.prems by simp_all
  have shift: "m \<le> c \<and> c < m + length (v # vs) \<and> (v # vs) ! (c - m) = w \<longleftrightarrow>
      c = m \<and> v = w \<or> Suc m \<le> c \<and> c < Suc m + length vs \<and> vs ! (c - Suc m) = w" for w
    by (cases "c = m") (auto simp: nth_Cons' not_le Suc_le_eq)
  have "Suc m + length vs \<le> length (wt_false ?t)" "Suc m + length vs \<le> length (wt_true ?t)"
    using Cons.prems by simp_all
  from Cons.IH[OF this] show ?case
    unfolding shift by (auto simp: note_value_at[OF m] simp del: note_value.simps)
qed auto

definition tables_hold :: "nat \<Rightarrow> nat \<Rightarrow> mcdc_vector list \<Rightarrow> witness_tables \<Rightarrow> bool" where
  "tables_hold items width seen t \<longleftrightarrow>
     length (wt_outcomes t) = 2 \<and> length (wt_false t) = width \<and> length (wt_true t) = width \<and>
     (\<forall>b \<in> set (wt_outcomes t) \<union> set (wt_false t) \<union> set (wt_true t).
        capacity b = capacity (bits_empty items)) \<and>
     (\<forall>side. members (wt_outcomes t ! of_bool side)
        = {i. i < length seen \<and> mv_outcome (seen ! i) = side}) \<and>
     (\<forall>c < width. members (wt_false t ! c)
        = {i. i < length seen \<and> mv_values (seen ! i) ! c = Some False}) \<and>
     (\<forall>c < width. members (wt_true t ! c)
        = {i. i < length seen \<and> mv_values (seen ! i) ! c = Some True})"

lemma tables_hold_empty: "tables_hold items width [] (empty_tables items width)"
  by (auto simp: tables_hold_def empty_tables_def members_empty)

lemma index_set_snoc:
  "{i. i < length (xs @ [x]) \<and> P ((xs @ [x]) ! i)}
     = (if P x then insert (length xs) {i. i < length xs \<and> P (xs ! i)}
        else {i. i < length xs \<and> P (xs ! i)})"
  by (auto simp: nth_append less_Suc_eq)

lemma tables_hold_note:
  assumes t: "tables_hold items width seen t"
    and w: "length (mv_values v) = width" and room: "length seen < items"
  shows "tables_hold items width (seen @ [v]) (note_vector (length seen, v) t)"
proof -
  let ?n = "length seen" and ?side = "of_bool (mv_outcome v) :: nat"
  let ?o = "(wt_outcomes t)[?side := bits_insert (wt_outcomes t ! ?side) ?n]"
  let ?u = "note_vector (?n, v) t"
  have len: "length (wt_outcomes t) = 2" "length (wt_false t) = width" "length (wt_true t) = width"
    and cap: "\<And>b. b \<in> set (wt_outcomes t) \<union> set (wt_false t) \<union> set (wt_true t)
        \<Longrightarrow> capacity b = capacity (bits_empty items)"
    and mo: "\<And>s. members (wt_outcomes t ! of_bool s) = {i. i < ?n \<and> mv_outcome (seen ! i) = s}"
    and mf: "\<And>c. c < width \<Longrightarrow>
        members (wt_false t ! c) = {i. i < ?n \<and> mv_values (seen ! i) ! c = Some False}"
    and mt: "\<And>c. c < width \<Longrightarrow>
        members (wt_true t ! c) = {i. i < ?n \<and> mv_values (seen ! i) ! c = Some True}"
    using t unfolding tables_hold_def by blast+
  have fits: "?n < capacity b"
    if "b \<in> set (wt_outcomes t) \<union> set (wt_false t) \<union> set (wt_true t)" for b
    using cap[OF that] capacity_empty[of items] room by simp
  have o: "wt_outcomes ?u = ?o" by (simp add: Let_def)
  have f: "wt_false ?u ! c = (if mv_values v ! c = Some False
      then bits_insert (wt_false t ! c) ?n else wt_false t ! c)" if "c < width" for c
    using that w len note_values_at[of 0 "mv_values v" "t\<lparr>wt_outcomes := ?o\<rparr>" ?n c]
    by (simp add: Let_def)
  have tr: "wt_true ?u ! c = (if mv_values v ! c = Some True
      then bits_insert (wt_true t ! c) ?n else wt_true t ! c)" if "c < width" for c
    using that w len note_values_at[of 0 "mv_values v" "t\<lparr>wt_outcomes := ?o\<rparr>" ?n c]
    by (simp add: Let_def)
  have lens: "length (wt_outcomes ?u) = 2" "length (wt_false ?u) = width"
    "length (wt_true ?u) = width"
    using len by (simp_all add: Let_def)
  have cap_f: "capacity (wt_false ?u ! c) = capacity (bits_empty items)" if "c < width" for c
    using f[OF that] cap[of "wt_false t ! c"] that len by (simp del: note_vector.simps)
  have cap_t: "capacity (wt_true ?u ! c) = capacity (bits_empty items)" if "c < width" for c
    using tr[OF that] cap[of "wt_true t ! c"] that len by (simp del: note_vector.simps)
  have cap_o: "capacity b = capacity (bits_empty items)" if "b \<in> set ?o" for b
    using that cap[of b] cap[of "wt_outcomes t ! ?side"] len
    by (auto dest!: set_update_subset_insert[THEN subsetD])
  have caps: "\<forall>b \<in> set (wt_outcomes ?u) \<union> set (wt_false ?u) \<union> set (wt_true ?u).
      capacity b = capacity (bits_empty items)"
    unfolding o using cap_f cap_t cap_o lens(2,3)
    by (auto simp: in_set_conv_nth simp del: note_vector.simps)
  have outcomes: "members (wt_outcomes ?u ! of_bool s)
      = {i. i < length (seen @ [v]) \<and> mv_outcome ((seen @ [v]) ! i) = s}" for s
  proof (cases "mv_outcome v = s")
    case True
    then show ?thesis
      using o len mo[of s] fits[of "wt_outcomes t ! of_bool s"]
      by (subst index_set_snoc) (simp add: members_insert)
  next
    case False
    then have "?side \<noteq> of_bool s" by (cases s) simp_all
    then have "wt_outcomes ?u ! of_bool s = wt_outcomes t ! of_bool s"
      unfolding o by (rule nth_list_update_neq)
    then show ?thesis using False mo[of s] by (subst index_set_snoc) simp
  qed
  have falses: "members (wt_false ?u ! c)
      = {i. i < length (seen @ [v]) \<and> mv_values ((seen @ [v]) ! i) ! c = Some False}"
    if "c < width" for c
    using that f mf fits[of "wt_false t ! c"] len
    by (subst index_set_snoc) (simp add: members_insert)
  have trues: "members (wt_true ?u ! c)
      = {i. i < length (seen @ [v]) \<and> mv_values ((seen @ [v]) ! i) ! c = Some True}"
    if "c < width" for c
    using that tr mt fits[of "wt_true t ! c"] len
    by (subst index_set_snoc) (simp add: members_insert)
  show ?thesis
    unfolding tables_hold_def using lens caps outcomes falses trues by blast
qed

lemma tables_hold_fold:
  assumes "tables_hold items width seen t" and "length seen + length vs \<le> items"
    and "list_all (\<lambda>v. length (mv_values v) = width) vs"
  shows "tables_hold items width (seen @ vs) (fold note_vector (enumerate (length seen) vs) t)"
  using assms
proof (induction vs arbitrary: seen t)
  case (Cons v vs)
  have "tables_hold items width (seen @ [v]) (note_vector (length seen, v) t)"
    using Cons.prems by (intro tables_hold_note) simp_all
  from Cons.IH[OF this] Cons.prems show ?case by simp
qed simp

lemma tables_hold_build:
  "list_all (\<lambda>v. length (mv_values v) = width) vectors \<Longrightarrow>
     tables_hold (length vectors) width vectors (build_tables vectors width)"
  using tables_hold_fold[OF tables_hold_empty, of vectors "length vectors" width]
  by (simp add: build_tables_def)

subsection \<open>The candidates are the independence pairs\<close>

lemma in_masks:
  "m \<in> set (List.map_filter (opposite_mask t)
        (filter (\<lambda>(c, _). c \<noteq> target) (enumerate 0 vs)))
     \<longleftrightarrow> (\<exists>c < length vs. c \<noteq> target \<and> opposite_mask t (c, vs ! c) = Some m)"
  by (auto simp: List.map_filter_def enumerate_eq_zip set_zip) force

lemma opposite_mask_Some:
  "opposite_mask t (c, v) = Some m \<longleftrightarrow>
     (v = Some False \<and> m = wt_true t ! c) \<or> (v = Some True \<and> m = wt_false t ! c)"
  by (cases "(t, c, v)" rule: opposite_mask.cases) auto

lemma masked_iff:
  assumes t: "tables_hold items width vectors t" and w: "length (mv_values left) = width"
  shows "(\<exists>m \<in> set (List.map_filter (opposite_mask t)
            (filter (\<lambda>(c, _). c \<noteq> target) (enumerate 0 (mv_values left)))). j \<in> members m)
     \<longleftrightarrow> j < length vectors \<and> (\<exists>c < width. c \<noteq> target \<and>
          (\<exists>b. mv_values left ! c = Some b \<and> mv_values (vectors ! j) ! c = Some (\<not> b)))"
    (is "?L \<longleftrightarrow> ?R")
proof -
  have f: "\<And>c. c < width \<Longrightarrow> j \<in> members (wt_false t ! c) \<longleftrightarrow>
        j < length vectors \<and> mv_values (vectors ! j) ! c = Some False"
    and tr: "\<And>c. c < width \<Longrightarrow> j \<in> members (wt_true t ! c) \<longleftrightarrow>
        j < length vectors \<and> mv_values (vectors ! j) ! c = Some True"
    using t by (auto simp: tables_hold_def)
  have "?L \<longleftrightarrow> (\<exists>c < width. c \<noteq> target \<and>
      (mv_values left ! c = Some False \<and> j \<in> members (wt_true t ! c)
       \<or> mv_values left ! c = Some True \<and> j \<in> members (wt_false t ! c)))"
    unfolding Bex_def in_masks opposite_mask_Some w by blast
  also have "\<dots> \<longleftrightarrow> ?R"
    by (intro iffI; elim exE conjE disjE)
       (auto simp: f tr intro: exI[of _ True] exI[of _ False], (metis (full_types) f tr)+)
  finally show ?thesis .
qed

lemma independence_pair_iff:
  assumes "length (mv_values v) = width" "length (mv_values w) = width" "target < width"
  shows "is_independence_pair v w target \<longleftrightarrow>
     mv_outcome v \<noteq> mv_outcome w
     \<and> (\<exists>b. mv_values v ! target = Some b \<and> mv_values w ! target = Some (\<not> b))
     \<and> \<not> (\<exists>c < width. c \<noteq> target \<and>
          (\<exists>b. mv_values v ! c = Some b \<and> mv_values w ! c = Some (\<not> b)))"
proof -
  have all: "list_all (\<lambda>(index, left, right).
          index = target \<or> left = None \<or> right = None \<or> left = right)
        (enumerate 0 (zip (mv_values v) (mv_values w)))
     \<longleftrightarrow> (\<forall>c < width. c = target \<or> mv_values v ! c = None \<or> mv_values w ! c = None
           \<or> mv_values v ! c = mv_values w ! c)"
    using assms by (simp add: list_all_length nth_enumerate_eq)
  have opp: "(x = None \<or> y = None \<or> x = y) \<longleftrightarrow> \<not> (\<exists>b. x = Some b \<and> y = Some (\<not> b))"
    for x y :: "bool option" by (cases x; cases y) auto
  show ?thesis
    unfolding is_independence_pair_def all
    using assms by (cases "mv_values v ! target"; cases "mv_values w ! target") (auto simp: opp)
qed

lemma members_candidates:
  assumes t: "tables_hold (length vectors) width vectors t"
    and ws: "list_all (\<lambda>v. length (mv_values v) = width) vectors"
    and i: "i < length vectors" and target: "target < width"
    and b: "mv_values (vectors ! i) ! target = Some b"
  shows "members (candidates t target i (vectors ! i) b)
     = {j. j < length vectors \<and> i < j \<and> is_independence_pair (vectors ! i) (vectors ! j) target}"
proof -
  let ?left = "vectors ! i"
  let ?o = "wt_outcomes t ! of_bool (\<not> mv_outcome ?left)"
  let ?c = "if b then wt_false t ! target else wt_true t ! target"
  let ?ms = "List.map_filter (opposite_mask t)
      (filter (\<lambda>(c, _). c \<noteq> target) (enumerate 0 (mv_values ?left)))"
  have w: "length (mv_values (vectors ! j)) = width" if "j < length vectors" for j
    using ws that by (simp add: list_all_length)
  have cap: "\<And>x. x \<in> set (wt_outcomes t) \<union> set (wt_false t) \<union> set (wt_true t)
      \<Longrightarrow> capacity x = capacity (bits_empty (length vectors))"
    and len: "length (wt_outcomes t) = 2" "length (wt_false t) = width" "length (wt_true t) = width"
    using t unfolding tables_hold_def by blast+
  have o: "capacity ?o = capacity (bits_empty (length vectors))"
    using len by (intro cap) (simp add: of_bool_def)
  have c: "capacity ?c = capacity (bits_empty (length vectors))"
    using len target by (intro cap) simp
  have ms: "capacity m = capacity (bits_empty (length vectors))" if m: "m \<in> set ?ms" for m
  proof (rule cap)
    from m obtain d where "d < width" "m = wt_true t ! d \<or> m = wt_false t ! d"
      unfolding in_masks opposite_mask_Some using w[OF i] by blast
    then show "m \<in> set (wt_outcomes t) \<union> set (wt_false t) \<union> set (wt_true t)"
      using len by auto
  qed
  have "members (candidates t target i ?left b)
      = {j \<in> members ?o \<inter> members ?c. i < j} - (\<Union>m \<in> set ?ms. members m)"
    unfolding candidates_def
    using o c ms i capacity_empty[of "length vectors"] by (intro bs.elems_candidates) auto
  also have "\<dots> = {j. j < length vectors \<and> i < j \<and>
      is_independence_pair ?left (vectors ! j) target}"
  proof -
    have "j \<in> members ?o \<and> j \<in> members ?c \<and> i < j \<and> \<not> (\<exists>m \<in> set ?ms. j \<in> members m)
        \<longleftrightarrow> j < length vectors \<and> i < j \<and> is_independence_pair ?left (vectors ! j) target" for j
    proof (cases "j < length vectors")
      case True
      have "j \<in> members ?o \<longleftrightarrow> mv_outcome ?left \<noteq> mv_outcome (vectors ! j)"
        using t True unfolding tables_hold_def by auto
      moreover have "j \<in> members ?c \<longleftrightarrow> mv_values (vectors ! j) ! target = Some (\<not> b)"
        using t True target unfolding tables_hold_def by auto
      ultimately show ?thesis
        unfolding masked_iff[OF t w[OF i]] independence_pair_iff[OF w[OF i] w[OF True] target]
        using True b by auto
    next
      case False
      then have "j \<notin> members ?o" using t unfolding tables_hold_def by auto
      with False show ?thesis by blast
    qed
    then show ?thesis by blast
  qed
  finally show ?thesis .
qed

lemma search_target_reference:
  assumes "tables_hold (length (pre @ rest)) width (pre @ rest) t"
    and "list_all (\<lambda>v. length (mv_values v) = width) (pre @ rest)" and "target < width"
  shows "search_target t target (enumerate (length pre) rest)
     = reference_scan_from (pre @ rest) target [length pre..<length (pre @ rest)]"
  using assms
proof (induction rest arbitrary: pre)
  case (Cons v rest)
  let ?vs = "pre @ v # rest" and ?i = "length pre"
  have i: "?i < length ?vs" "?vs ! ?i = v" by simp_all
  have step: "[?i..<length ?vs] = ?i # [Suc ?i..<length ?vs]"
    by (rule upt_conv_Cons) simp
  have rest: "search_target t target (enumerate (Suc ?i) rest)
      = reference_scan_from ?vs target [Suc ?i..<length ?vs]"
    using Cons.IH[of "pre @ [v]"] Cons.prems by simp
  show ?case
  proof (cases "mv_values v ! target")
    case None
    then have "\<not> is_independence_pair v w target" for w
      by (simp add: is_independence_pair_def)
    then have "find (\<lambda>j. ?i < j \<and> is_independence_pair v (?vs ! j) target) [0..<length ?vs] = None"
      by (simp add: find_None_iff)
    then show ?thesis unfolding step using None rest i by simp
  next
    case (Some b)
    have "bits_first (candidates t target ?i v b)
        = find (\<lambda>j. ?i < j \<and> is_independence_pair v (?vs ! j) target) [0..<length ?vs]"
      using members_candidates[OF Cons.prems(1,2) i(1) Cons.prems(3), of b] Some i(2)
      by (intro bs.least_eq_find) simp
    then show ?thesis unfolding step using Some rest i by (simp split: option.split)
  qed
qed simp

lemma check_widths_find:
  "check_widths width ivs = (case find (\<lambda>(i, v). length (mv_values v) \<noteq> width) ivs of
      Some (i, v) \<Rightarrow> Inl (InconsistentVectorWidth i width (length (mv_values v)))
    | None \<Rightarrow> Inr ())"
  by (induction width ivs rule: check_widths.induct) auto

lemma find_width_None:
  "find (\<lambda>(i, v). length (mv_values v) \<noteq> width) (enumerate 0 vs) = None \<longleftrightarrow>
     list_all (\<lambda>v. length (mv_values v) = width) vs"
  by (auto simp: find_None_iff list_all_length enumerate_eq_zip set_zip)

subsection \<open>Correctness of the search\<close>

lemma search_eq_scan:
  "find_witnesses_for_conditions vectors width =
     (case find (\<lambda>(i, v). length (mv_values v) \<noteq> width) (enumerate 0 vectors) of
        Some (i, v) \<Rightarrow> Inl (InconsistentVectorWidth i width (length (mv_values v)))
      | None \<Rightarrow> Inr (map (reference_scan vectors) [0..<width]))"
proof (cases "find (\<lambda>(i, v). length (mv_values v) \<noteq> width) (enumerate 0 vectors)")
  case None
  then have ws: "list_all (\<lambda>v. length (mv_values v) = width) vectors"
    by (simp add: find_width_None)
  have "search_target (build_tables vectors width) c (enumerate 0 vectors)
      = reference_scan vectors c" if "c < width" for c
    using search_target_reference[of "[]" vectors width] tables_hold_build[OF ws] ws that
    by (simp add: reference_scan_def)
  then show ?thesis
    using None by (simp add: find_witnesses_for_conditions_def check_widths_find)
qed (auto simp: find_witnesses_for_conditions_def check_widths_find)

text \<open>C14: The bit-set search equals the reference nested-order scan on every input: it reports the
  first vector whose width is not the decision's, and otherwise returns for every condition
  exactly the pair the scan of all ordered pairs \<open>i < j\<close> finds first.\<close>

theorem find_witnesses_reference:
  "find_witnesses_for_conditions vectors width =
     (case find (\<lambda>(i, v). length (mv_values v) \<noteq> width) (enumerate 0 vectors) of
        Some (i, v) \<Rightarrow> Inl (InconsistentVectorWidth i width (length (mv_values v)))
      | None \<Rightarrow> Inr (map (reference_scan vectors) [0..<width]))"
  by (rule search_eq_scan)

lemma reference_scan_from_None:
  "reference_scan_from vectors c is = None \<longleftrightarrow>
     (\<forall>i \<in> set is. \<forall>j < length vectors. i < j \<longrightarrow> \<not> is_independence_pair (vectors ! i) (vectors ! j) c)"
proof (induction "is")
  case (Cons i "is")
  let ?f = "find (\<lambda>j. i < j \<and> is_independence_pair (vectors ! i) (vectors ! j) c)
      [0..<length vectors]"
  show ?case
  proof (cases ?f)
    case None
    then have "\<forall>j < length vectors. i < j \<longrightarrow> \<not> is_independence_pair (vectors ! i) (vectors ! j) c"
      by (auto simp: find_None_iff)
    with None Cons show ?thesis by simp
  next
    case (Some j)
    then have "j < length vectors \<and> i < j \<and> is_independence_pair (vectors ! i) (vectors ! j) c"
      by (auto simp: find_Some_iff)
    with Some show ?thesis by auto
  qed
qed simp

lemma reference_scan_from_Some:
  "reference_scan_from vectors c is = Some w \<Longrightarrow>
     wi_first w \<in> set is \<and> wi_first w < wi_second w \<and> wi_second w < length vectors
     \<and> is_independence_pair (vectors ! wi_first w) (vectors ! wi_second w) c"
  by (induction "is") (auto split: option.splits simp: find_Some_iff)

definition opposite :: "bool option \<Rightarrow> bool option \<Rightarrow> bool" where
  "opposite x y \<longleftrightarrow> (\<exists>b. x = Some b \<and> y = Some (\<not> b))"

lemma opposite_sym: "opposite x y \<longleftrightarrow> opposite y x"
  by (cases x; cases y) (auto simp: opposite_def)

lemma is_independence_pair_sym:
  "is_independence_pair v w c \<longleftrightarrow> is_independence_pair w v c"
proof (cases "length (mv_values v) = length (mv_values w) \<and> c < length (mv_values v)")
  case True
  then have l: "length (mv_values v) = length (mv_values w)" "c < length (mv_values w)"
    "c < length (mv_values v)" by simp_all
  show ?thesis
    unfolding independence_pair_iff[OF l(1) refl l(2)]
      independence_pair_iff[OF l(1)[symmetric] refl l(3)] l(1) opposite_def[symmetric]
    by (subst (1 2) opposite_sym) (simp only: eq_commute)
qed (auto simp: is_independence_pair_def)

lemma witness_meaning:
  assumes "find_witnesses_for_conditions vectors width = Inr ws" and "c < width"
  shows "case ws ! c of
      None \<Rightarrow> \<not> (\<exists>v \<in> set vectors. \<exists>w \<in> set vectors. is_independence_pair v w c)
    | Some p \<Rightarrow> wi_first p < wi_second p \<and> wi_second p < length vectors
        \<and> is_independence_pair (vectors ! wi_first p) (vectors ! wi_second p) c"
proof -
  have ws: "ws ! c = reference_scan vectors c"
    using assms by (auto simp: search_eq_scan split: option.splits)
  show ?thesis
  proof (cases "ws ! c")
    case None
    then have none: "\<not> is_independence_pair (vectors ! i) (vectors ! j) c"
      if "i < j" "j < length vectors" for i j
      using that ws by (simp add: reference_scan_def reference_scan_from_None)
    have "\<not> is_independence_pair (vectors ! i) (vectors ! j) c"
      if "i < length vectors" "j < length vectors" for i j
      using none[of i j] none[of j i] that is_independence_pair_sym[of "vectors ! i" "vectors ! j"]
      by (cases i j rule: linorder_cases) (auto simp: is_independence_pair_def split: option.split)
    with None show ?thesis by (auto simp: in_set_conv_nth)
  next
    case (Some p)
    with ws have "reference_scan_from vectors c [0..<length vectors] = Some p"
      by (simp add: reference_scan_def)
    from reference_scan_from_Some[OF this] Some show ?thesis by simp
  qed
qed

text \<open>C15: A witness means what MC/DC asks: when the search succeeds, a condition has no witness
  only if no two observed vectors, in either order, are an independence pair for it, and the
  pair reported for a condition is one, of two different observations in order.\<close>

theorem witnesses_sound_complete:
  assumes "find_witnesses_for_conditions vectors width = Inr ws" and "c < width"
  shows "case ws ! c of
      None \<Rightarrow> \<not> (\<exists>v \<in> set vectors. \<exists>w \<in> set vectors. is_independence_pair v w c)
    | Some p \<Rightarrow> wi_first p < wi_second p \<and> wi_second p < length vectors
        \<and> is_independence_pair (vectors ! wi_first p) (vectors ! wi_second p) c"
  using assms by (rule witness_meaning)

definition and_vectors :: "mcdc_vector list" where
  "and_vectors =
     [\<lparr>mv_values = [Some True, Some True], mv_outcome = True\<rparr>,
      \<lparr>mv_values = [Some False, None], mv_outcome = False\<rparr>]"

lemma and_vectors_witnesses:
  "find_witnesses_for_conditions and_vectors 2 = Inr [Some \<lparr>wi_first = 0, wi_second = 1\<rparr>, None]"
  by code_simp

theorem witnesses_sound_complete_witness:
  "is_independence_pair (and_vectors ! 0) (and_vectors ! 1) 0"
  using witnesses_sound_complete[OF and_vectors_witnesses, of 0] by simp

text \<open>The kinds of points, shared with the manifest.\<close>

datatype point_kind = Statement | Function

end
