(* ===== verification/Float64.thy ===== *)
theory Float64
  imports Complex_Main "HOL-Library.Log_Nat"
begin

section \<open>Rust's f64 arithmetic on the values the percentages take\<close>

text \<open>
  A non-negative \<open>f64\<close> is the rational it denotes, and each operation is the exact one
  followed by \<open>f64_round\<close>: to 53 significant bits, ties to the even significand (IEEE 754
  round-to-nearest). The percentages divide counts below \<open>2 ^ 64\<close>, so no value is subnormal,
  infinite or not a number, and those are left out.
\<close>

text \<open>The exponent \<open>e\<close> with \<open>2 ^ e \<le> q < 2 ^ (e + 1)\<close>, read off the sizes of the fraction.\<close>

definition exponent :: "rat \<Rightarrow> int" where
  "exponent q =
     (let (n, d) = quotient_of q; e = bitlen n - bitlen d
      in if 2 powi e \<le> q then e else e - 1)"

definition round_ties_even :: "rat \<Rightarrow> int" where
  "round_ties_even x =
     (let f = \<lfloor>x\<rfloor>; r = x - of_int f
      in if r < 1 / 2 then f else if 1 / 2 < r then f + 1 else if even f then f else f + 1)"

definition f64_round :: "rat \<Rightarrow> rat" where
  "f64_round q =
     (if q \<le> 0 then 0
      else let e = exponent q in of_int (round_ties_even (q * 2 powi (52 - e))) * 2 powi (e - 52))"

text \<open>\<open>f64::round\<close>: to the nearest integer, halves away from zero.\<close>

definition round_half_up :: "rat \<Rightarrow> int" where
  "round_half_up x = \<lfloor>x + 1 / 2\<rfloor>"

subsection \<open>The exponent\<close>

lemma bitlen_int_bounds:
  assumes "0 < n"
  shows "2 powi (bitlen n - 1) \<le> (of_int n :: rat)" "(of_int n :: rat) < 2 powi bitlen n"
proof -
  have b: "0 < bitlen n" using assms by (simp add: bitlen_def) (simp add: floorlog_def)
  have "2 ^ nat (bitlen n - 1) \<le> n \<and> n < 2 ^ nat (bitlen n)" using bitlen_bounds[OF assms] .
  then have "(2::rat) ^ nat (bitlen n - 1) \<le> of_int n \<and> of_int n < (2::rat) ^ nat (bitlen n)"
    by (metis of_int_le_iff of_int_less_iff of_int_numeral of_int_power)
  then show "2 powi (bitlen n - 1) \<le> (of_int n :: rat)" "(of_int n :: rat) < 2 powi bitlen n"
    using b by (simp_all add: power_int_def)
qed

lemma exponent_bounds:
  assumes "0 < q"
  shows "2 powi exponent q \<le> q" "q < 2 powi (exponent q + 1)"
proof -
  obtain n d where nd: "quotient_of q = (n, d)" by (cases "quotient_of q")
  have d: "0 < d" using quotient_of_denom_pos[OF nd] .
  have q: "q = of_int n / of_int d" using quotient_of_div[OF nd] .
  have n: "0 < n" using assms d q by (simp add: zero_less_divide_iff)
  let ?e = "bitlen n - bitlen d"
  have "q < 2 powi bitlen n / 2 powi (bitlen d - 1)"
    unfolding q using bitlen_int_bounds[OF n] bitlen_int_bounds[OF d] d n
    by (intro frac_less) simp_all
  also have "\<dots> = 2 powi (?e + 1)"
    by (simp flip: power_int_diff add: algebra_simps)
  finally have hi: "q < 2 powi (?e + 1)" .
  have "2 powi (?e - 1) = 2 powi (bitlen n - 1) / (2::rat) powi bitlen d"
    by (simp flip: power_int_diff add: algebra_simps)
  also have "\<dots> \<le> q"
    unfolding q using bitlen_int_bounds[OF n] bitlen_int_bounds[OF d] d
    by (intro frac_le) (simp_all add: less_imp_le[OF n])
  finally have lo: "2 powi (?e - 1) \<le> q" .
  have e: "exponent q = (if 2 powi ?e \<le> q then ?e else ?e - 1)"
    by (simp add: exponent_def nd)
  show "2 powi exponent q \<le> q" using lo by (simp add: e)
  show "q < 2 powi (exponent q + 1)" using hi by (simp add: e)
qed

lemma powi2_less_iff: "(2::rat) powi a < 2 powi b \<longleftrightarrow> a < b"
proof
  assume "a < b"
  then show "(2::rat) powi a < 2 powi b" by (intro power_int_strict_increasing) simp_all
next
  assume less: "(2::rat) powi a < 2 powi b"
  show "a < b"
  proof (rule ccontr)
    assume "\<not> a < b"
    then have "(2::rat) powi b \<le> 2 powi a" by (intro power_int_increasing) simp_all
    with less show False by simp
  qed
qed

lemma exponent_mono:
  assumes "0 < p" "p \<le> q"
  shows "exponent p \<le> exponent q"
proof -
  have "2 powi exponent p \<le> p" "q < 2 powi (exponent q + 1)"
    using exponent_bounds assms by simp_all
  then have "(2::rat) powi exponent p < 2 powi (exponent q + 1)" using assms by simp
  then show ?thesis by (simp add: powi2_less_iff)
qed

subsection \<open>Rounding\<close>

lemma round_ties_even_mono:
  assumes "x \<le> y"
  shows "round_ties_even x \<le> round_ties_even y"
proof (cases "\<lfloor>x\<rfloor> = \<lfloor>y\<rfloor>")
  case True
  then show ?thesis using assms by (auto simp: round_ties_even_def Let_def)
next
  case False
  then have "\<lfloor>x\<rfloor> + 1 \<le> \<lfloor>y\<rfloor>" using floor_mono[OF assms] by simp
  moreover have "round_ties_even x \<le> \<lfloor>x\<rfloor> + 1" "\<lfloor>y\<rfloor> \<le> round_ties_even y"
    by (simp_all add: round_ties_even_def Let_def)
  ultimately show ?thesis by simp
qed

lemma round_ties_even_int [simp]: "round_ties_even (of_int k) = k"
  by (simp add: round_ties_even_def)

lemma round_half_up_mono: "x \<le> y \<Longrightarrow> round_half_up x \<le> round_half_up y"
  by (simp add: round_half_up_def floor_mono)

lemma round_half_up_int [simp]: "round_half_up (of_int k) = k"
  by (simp add: round_half_up_def) linarith

lemma f64_round_nonneg: "0 \<le> f64_round q"
proof (cases "q \<le> 0")
  case False
  then have "0 \<le> round_ties_even (q * 2 powi (52 - exponent q))"
    using round_ties_even_mono[of 0 "q * 2 powi (52 - exponent q)"] round_ties_even_int[of 0]
    by (simp del: round_ties_even_int)
  with False show ?thesis by (simp add: f64_round_def Let_def)
qed (simp add: f64_round_def)

text \<open>A value stays inside its binade: between its own power of two and the next.\<close>

lemma f64_round_binade:
  assumes "0 < q"
  shows "2 powi exponent q \<le> f64_round q" "f64_round q \<le> 2 powi (exponent q + 1)"
proof -
  let ?e = "exponent q"
  have pos: "(0::rat) < 2 powi (52 - ?e)" by simp
  have two: "(2::rat) powi a * 2 powi b = 2 powi (a + b)" for a b by (simp add: power_int_add)
  have "2 powi ?e * 2 powi (52 - ?e) \<le> q * 2 powi (52 - ?e)"
    using exponent_bounds(1)[OF assms] pos by simp
  then have "(of_int (2 ^ 52) :: rat) \<le> q * 2 powi (52 - ?e)" by (simp add: two)
  then have lo: "2 ^ 52 \<le> round_ties_even (q * 2 powi (52 - ?e))"
    by (metis round_ties_even_mono round_ties_even_int)
  have "q * 2 powi (52 - ?e) \<le> 2 powi (?e + 1) * 2 powi (52 - ?e)"
    using exponent_bounds(2)[OF assms] pos by simp
  then have "q * 2 powi (52 - ?e) \<le> (of_int (2 ^ 53) :: rat)" by (simp add: two)
  then have hi: "round_ties_even (q * 2 powi (52 - ?e)) \<le> 2 ^ 53"
    by (metis round_ties_even_mono round_ties_even_int)
  have f: "f64_round q = of_int (round_ties_even (q * 2 powi (52 - ?e))) * 2 powi (?e - 52)"
    using assms by (simp add: f64_round_def Let_def)
  have "of_int (2 ^ 52) * 2 powi (?e - 52) \<le> f64_round q"
    unfolding f using lo by (intro mult_right_mono) (simp_all only: of_int_le_iff, simp)
  moreover have "of_int (2 ^ 52) * 2 powi (?e - 52) = (2::rat) powi ?e"
    using two[of 52 "?e - 52"] by simp
  ultimately show "2 powi ?e \<le> f64_round q" by simp
  have "f64_round q \<le> of_int (2 ^ 53) * 2 powi (?e - 52)"
    unfolding f using hi by (intro mult_right_mono) (simp_all only: of_int_le_iff, simp)
  moreover have "of_int (2 ^ 53) * 2 powi (?e - 52) = (2::rat) powi (?e + 1)"
    using two[of 53 "?e - 52"] by (simp add: add.commute)
  ultimately show "f64_round q \<le> 2 powi (?e + 1)" by simp
qed

lemma f64_round_mono:
  assumes "p \<le> q"
  shows "f64_round p \<le> f64_round q"
proof (cases "p \<le> 0")
  case True
  then show ?thesis using f64_round_nonneg by (simp add: f64_round_def)
next
  case False
  with assms have p: "0 < p" and q: "0 < q" by simp_all
  show ?thesis
  proof (cases "exponent p = exponent q")
    case True
    let ?e = "exponent q"
    have "p * 2 powi (52 - ?e) \<le> q * 2 powi (52 - ?e)" using assms by simp
    from round_ties_even_mono[OF this] show ?thesis
      using p q True by (simp add: f64_round_def Let_def)
  next
    case False
    then have "exponent p + 1 \<le> exponent q" using exponent_mono[OF p assms] by simp
    then have "(2::rat) powi (exponent p + 1) \<le> 2 powi exponent q"
      using powi2_less_iff[of "exponent q" "exponent p + 1"] by linarith
    with f64_round_binade[OF p] f64_round_binade[OF q] show ?thesis by linarith
  qed
qed

text \<open>Whole numbers of at most 53 bits are exact.\<close>

lemma f64_round_nat:
  assumes "n < 2 ^ 53"
  shows "f64_round (of_nat n) = of_nat n"
proof (cases "n = 0")
  case False
  let ?q = "of_nat n :: rat" let ?e = "exponent ?q"
  have q: "0 < ?q" using False by simp
  have "(2::rat) powi ?e < 2 powi 53"
    using exponent_bounds(1)[OF q] assms by (metis (mono_tags) le_less_trans of_nat_less_iff
        of_nat_numeral of_nat_power power_int_numeral)
  then have "?e \<le> 52" unfolding powi2_less_iff by simp
  then have w: "(2::rat) powi (52 - ?e) = of_int (2 ^ nat (52 - ?e))"
    by (simp add: power_int_def)
  have scaled: "?q * 2 powi (52 - ?e) = of_int (int n * 2 ^ nat (52 - ?e))"
    unfolding w by simp
  have "f64_round ?q = of_int (round_ties_even (?q * 2 powi (52 - ?e))) * 2 powi (?e - 52)"
    using q by (simp add: f64_round_def Let_def)
  also have "\<dots> = ?q * (2 powi (52 - ?e) * 2 powi (?e - 52))"
    unfolding scaled round_ties_even_int unfolding scaled[symmetric] by simp
  also have "\<dots> = ?q" by (simp flip: power_int_add)
  finally show ?thesis .
qed (simp add: f64_round_def)

end
