(* ===== verification/CoverageCore.thy ===== *)
theory CoverageCore
  imports Mcdc Float64
begin

section \<open>Structural verdicts of a run (coverage\_analysis.rs, analyze\_core)\<close>

text \<open>
  From the obligations a frontend declared and what was observed of them to the summary a
  report carries: counts, percentages and the one verdict \<open>coverage_complete\<close>. Counts are
  \<open>usize\<close> lengths of lists in memory, so they are naturals; percentages are the \<open>f64\<close>
  arithmetic of \<open>Float64\<close>.
\<close>

record point_coverage =
  pc_kind :: point_kind
  pc_covered :: bool

record branch_coverage =
  bc_kind :: string
  bc_alternatives :: "bool list"

record decision_coverage =
  dc_condition_count :: nat
  dc_vectors :: "mcdc_vector list"

record coverage_core_input =
  in_decisions :: "decision_coverage list"
  in_points :: "point_coverage list"
  in_branches :: "branch_coverage list"
  in_lines :: "bool list"

record coverage_count =
  cc_covered :: nat
  cc_total :: nat
  cc_percentage :: rat

record coverage_summary =
  cs_decisions :: nat
  cs_executed_decisions :: nat
  cs_covered_decisions :: nat
  cs_conditions :: nat
  cs_covered_conditions :: nat
  cs_condition_coverage_pct :: rat
  cs_lines :: coverage_count
  cs_statements :: coverage_count
  cs_functions :: coverage_count
  cs_branches :: coverage_count
  cs_decision_outcomes :: coverage_count
  cs_condition_outcomes :: coverage_count
  cs_value_selections :: coverage_count
  cs_coverage_complete :: bool
  cs_completeness_blocked :: "bool option"
  cs_unmeasured_obligations :: "nat option"
  cs_exact_fraction_pct :: "rat option"

record coverage_core_output =
  out_witnesses :: "witness_indexes option list list"
  out_summary :: coverage_summary

text \<open>\<open>covered as f64 / total as f64\<close>, times ten thousand, rounded, over a hundred.\<close>

definition percentage :: "nat \<Rightarrow> nat \<Rightarrow> rat" where
  "percentage covered count_of =
     (if count_of = 0 then 100
      else let ratio = f64_round (f64_round (of_nat covered) / f64_round (of_nat count_of));
               scaled = f64_round (ratio * 10000)
           in f64_round (of_int (round_half_up scaled) / 100))"

definition count :: "nat \<Rightarrow> nat \<Rightarrow> coverage_count" where
  "count covered count_of =
     \<lparr>cc_covered = covered, cc_total = count_of, cc_percentage = percentage covered count_of\<rparr>"

fun decision_witnesses ::
  "nat \<times> decision_coverage \<Rightarrow> analysis_error + witness_indexes option list" where
  "decision_witnesses (decision, coverage) =
     (if dc_condition_count coverage = 0 then Inl (EmptyDecision decision)
      else find_witnesses_for_conditions (dc_vectors coverage) (dc_condition_count coverage))"

definition decision_outcomes_covered :: "decision_coverage \<Rightarrow> nat" where
  "decision_outcomes_covered coverage =
     of_bool (list_ex (\<lambda>v. \<not> mv_outcome v) (dc_vectors coverage))
     + of_bool (list_ex mv_outcome (dc_vectors coverage))"

definition condition_outcomes_covered :: "decision_coverage \<Rightarrow> nat" where
  "condition_outcomes_covered coverage =
     sum_list (map (\<lambda>condition.
         of_bool (list_ex (\<lambda>v. mv_values v ! condition = Some False) (dc_vectors coverage))
         + of_bool (list_ex (\<lambda>v. mv_values v ! condition = Some True) (dc_vectors coverage)))
       [0..<dc_condition_count coverage])"

definition points_of :: "point_kind \<Rightarrow> point_coverage list \<Rightarrow> point_coverage list" where
  "points_of kind points = filter (\<lambda>p. pc_kind p = kind) points"

definition alternatives_of :: "branch_coverage list \<Rightarrow> bool list" where
  "alternatives_of branches = concat (map bc_alternatives branches)"

definition count_true :: "bool list \<Rightarrow> nat" where
  "count_true bs = length (filter (\<lambda>b. b) bs)"

definition analyze_core :: "coverage_core_input \<Rightarrow> analysis_error + coverage_core_output" where
  "analyze_core input =
     rbind (try_map decision_witnesses (enumerate 0 (in_decisions input))) (\<lambda>witnesses.
       let conditions = sum_list (map length witnesses);
           covered_conditions = length (filter (\<lambda>w. w \<noteq> None) (concat witnesses));
           executed_decisions =
             length (filter (\<lambda>coverage. dc_vectors coverage \<noteq> []) (in_decisions input));
           covered_decisions = length (filter (list_all (\<lambda>w. w \<noteq> None)) witnesses);
           decision_outcome_covered =
             sum_list (map decision_outcomes_covered (in_decisions input));
           condition_outcome_covered =
             sum_list (map condition_outcomes_covered (in_decisions input));
           value_branches = filter (\<lambda>branch. bc_kind branch = ''logical-value'') (in_branches input);
           statement_points = points_of Statement (in_points input);
           function_points = points_of Function (in_points input);
           lines = count (count_true (in_lines input)) (length (in_lines input));
           statements = count (length (filter pc_covered statement_points)) (length statement_points);
           functions = count (length (filter pc_covered function_points)) (length function_points);
           branches = count (count_true (alternatives_of (in_branches input)))
             (length (alternatives_of (in_branches input)));
           decision_outcomes = count decision_outcome_covered (length (in_decisions input) * 2);
           condition_outcomes = count condition_outcome_covered (conditions * 2);
           value_selections = count (count_true (alternatives_of value_branches))
             (length (alternatives_of value_branches));
           condition_coverage_pct = percentage covered_conditions conditions;
           coverage_complete =
             (cc_percentage lines = 100 \<and> cc_percentage statements = 100
              \<and> cc_percentage functions = 100 \<and> cc_percentage branches = 100
              \<and> cc_percentage condition_outcomes = 100 \<and> condition_coverage_pct = 100)
       in Inr \<lparr>out_witnesses = witnesses,
          out_summary = \<lparr>cs_decisions = length (in_decisions input),
            cs_executed_decisions = executed_decisions,
            cs_covered_decisions = covered_decisions,
            cs_conditions = conditions,
            cs_covered_conditions = covered_conditions,
            cs_condition_coverage_pct = condition_coverage_pct,
            cs_lines = lines, cs_statements = statements, cs_functions = functions,
            cs_branches = branches, cs_decision_outcomes = decision_outcomes,
            cs_condition_outcomes = condition_outcomes, cs_value_selections = value_selections,
            cs_coverage_complete = coverage_complete,
            cs_completeness_blocked = None, cs_unmeasured_obligations = None,
            cs_exact_fraction_pct = None\<rparr>\<rparr>)"

subsection \<open>Percentages\<close>

lemma f64_round_num: "f64_round (numeral n) = numeral n" if "(numeral n :: nat) < 2 ^ 53"
  using f64_round_nat[OF that] by simp

lemma percentage_mono:
  assumes "a \<le> b"
  shows "percentage a t \<le> percentage b t"
proof (cases "t = 0")
  case False
  have "f64_round (of_nat a) / f64_round (of_nat t) \<le> f64_round (of_nat b) / f64_round (of_nat t)"
    using f64_round_mono[of "of_nat a" "of_nat b"] f64_round_nonneg[of "of_nat t"] assms
    by (intro divide_right_mono) simp_all
  then show ?thesis
    using False unfolding percentage_def Let_def
    by (simp add: f64_round_mono divide_right_mono mult_right_mono round_half_up_mono)
qed (simp add: percentage_def)

lemma f64_round_pos: "0 < q \<Longrightarrow> 0 < f64_round q"
  using f64_round_binade(1)[of q] zero_less_power_int[of "2::rat" "exponent q"] by linarith

lemma percentage_all: "percentage t t = 100"
proof (cases "t = 0")
  case False
  then have "f64_round (of_nat t) \<noteq> 0" using f64_round_pos[of "of_nat t"] by simp
  moreover have "f64_round 1 = 1" using f64_round_nat[of 1] by simp
  moreover have "round_half_up 10000 = 10000" using round_half_up_int[of 10000] by simp
  ultimately show ?thesis
    using False by (simp add: percentage_def f64_round_num)
qed (simp add: percentage_def)

lemma percentage_le_100: "c \<le> t \<Longrightarrow> percentage c t \<le> 100"
  using percentage_mono[of c t t] by (simp add: percentage_all)

text \<open>Of fewer than 20,000 obligations one left uncovered is seen: the largest such ratio already
  rounds below 100.\<close>

lemma ratio_19998: "round_half_up (f64_round (f64_round (19998 / 19999) * 10000)) = 9999"
  by code_simp

lemma round_9999: "f64_round (of_int 9999 / 100) < 100"
  by code_simp

lemma percentage_below_100:
  assumes "c < t" and "t < 20000"
  shows "percentage c t < 100"
proof -
  have "(of_nat c :: rat) / of_nat t \<le> of_nat (t - 1) / of_nat t"
    using assms by (intro divide_right_mono) simp_all
  also have "\<dots> = 1 - 1 / of_nat t" using assms by (simp add: of_nat_diff field_simps)
  also have "\<dots> \<le> 1 - 1 / 19999" using assms by (simp add: field_simps)
  finally have "(of_nat c :: rat) / of_nat t \<le> 19998 / 19999" by simp
  then have "f64_round (of_nat c / of_nat t) \<le> f64_round (19998 / 19999)"
    by (rule f64_round_mono)
  then have "round_half_up (f64_round (f64_round (of_nat c / of_nat t) * 10000)) \<le> 9999"
    unfolding ratio_19998[symmetric] by (intro round_half_up_mono f64_round_mono) simp
  then have "percentage c t \<le> f64_round (of_int 9999 / 100)"
    using assms unfolding percentage_def Let_def
    by (simp add: f64_round_nat f64_round_mono divide_right_mono)
  then show ?thesis using round_9999 by simp
qed

lemma hundred_iff:
  assumes "c \<le> t" and "t < 20000"
  shows "percentage c t = 100 \<longleftrightarrow> c = t"
  using assms percentage_below_100[of c t] percentage_all[of t] by (cases "c = t") auto

text \<open>Below 20,000 obligations the rounded percentage decides completeness exactly: it is 100
  just when every obligation is covered, whatever the floating-point rounding.\<close>

lemma percentage_100_iff:
  assumes "c \<le> t" and "t < 20000"
  shows "percentage c t = 100 \<longleftrightarrow> c = t"
  using assms by (rule hundred_iff)

theorem percentage_100_iff_witness: "percentage 5 6 \<noteq> 100 \<and> percentage 6 6 = 100"
  using percentage_100_iff[of 5 6] percentage_100_iff[of 6 6] by simp

subsection \<open>Counts are bounded by their totals\<close>

lemma decision_outcomes_covered_le: "decision_outcomes_covered d \<le> 2"
  by (simp add: decision_outcomes_covered_def)

lemma condition_outcomes_covered_le: "condition_outcomes_covered d \<le> 2 * dc_condition_count d"
proof -
  have "condition_outcomes_covered d \<le> sum_list (map (\<lambda>_. 2) [0..<dc_condition_count d])"
    unfolding condition_outcomes_covered_def by (intro sum_list_le_pointwise) simp
  then show ?thesis by (simp add: sum_list_triv)
qed

lemma condition_outcomes_covered_full:
  "condition_outcomes_covered d = 2 * dc_condition_count d \<longleftrightarrow>
     (\<forall>c < dc_condition_count d. \<forall>b. \<exists>v \<in> set (dc_vectors d). mv_values v ! c = Some b)"
proof -
  let ?f = "\<lambda>c. of_bool (list_ex (\<lambda>v. mv_values v ! c = Some False) (dc_vectors d))
      + of_bool (list_ex (\<lambda>v. mv_values v ! c = Some True) (dc_vectors d)) :: nat"
  have "condition_outcomes_covered d = sum_list (map (\<lambda>_. 2) [0..<dc_condition_count d]) \<longleftrightarrow>
      list_all (\<lambda>c. ?f c = 2) [0..<dc_condition_count d]"
    unfolding condition_outcomes_covered_def by (intro sum_list_eq_pointwise) simp
  also have "\<dots> \<longleftrightarrow> (\<forall>c < dc_condition_count d. \<forall>b. \<exists>v \<in> set (dc_vectors d).
      mv_values v ! c = Some b)"
    by (auto simp: list_all_iff list_ex_iff of_bool_def all_bool_eq split: if_splits)
  finally show ?thesis by (simp add: sum_list_triv mult.commute)
qed

lemma condition_outcomes_sum:
  "sum_list (map condition_outcomes_covered ds) \<le> 2 * sum_list (map dc_condition_count ds)"
  "sum_list (map condition_outcomes_covered ds) = 2 * sum_list (map dc_condition_count ds) \<longleftrightarrow>
     list_all (\<lambda>d. \<forall>c < dc_condition_count d. \<forall>b. \<exists>v \<in> set (dc_vectors d).
       mv_values v ! c = Some b) ds"
proof -
  have dbl: "2 * sum_list (map dc_condition_count ds)
      = sum_list (map (\<lambda>d. 2 * dc_condition_count d) ds)"
    by (simp add: sum_list_const_mult)
  show "sum_list (map condition_outcomes_covered ds) \<le> 2 * sum_list (map dc_condition_count ds)"
    unfolding dbl by (intro sum_list_le_pointwise condition_outcomes_covered_le)
  show "sum_list (map condition_outcomes_covered ds) = 2 * sum_list (map dc_condition_count ds) \<longleftrightarrow>
     list_all (\<lambda>d. \<forall>c < dc_condition_count d. \<forall>b. \<exists>v \<in> set (dc_vectors d).
       mv_values v ! c = Some b) ds"
    unfolding dbl condition_outcomes_covered_full[symmetric]
    by (intro sum_list_eq_pointwise condition_outcomes_covered_le)
qed

lemma find_witnesses_length:
  "find_witnesses_for_conditions vs n = Inr ws \<Longrightarrow> length ws = n"
  by (auto simp: search_eq_scan split: option.splits)

lemma decision_witnesses_Inr:
  "decision_witnesses (i, d) = Inr ws \<longleftrightarrow> dc_condition_count d \<noteq> 0
     \<and> find_witnesses_for_conditions (dc_vectors d) (dc_condition_count d) = Inr ws"
  by simp

text \<open>What success of the decisions says of their witnesses, one list per decision.\<close>

lemma witnesses_per_decision:
  assumes "try_map decision_witnesses (enumerate 0 ds) = Inr wss"
  shows "list_all2 (\<lambda>d ws. dc_condition_count d \<noteq> 0
      \<and> find_witnesses_for_conditions (dc_vectors d) (dc_condition_count d) = Inr ws) ds wss"
  using assms
  by (auto simp: try_map_Inr_iff list_all2_conv_all_nth nth_enumerate_eq split: if_splits)

lemma widths_per_decision:
  assumes "try_map decision_witnesses (enumerate 0 ds) = Inr wss"
  shows "map length wss = map dc_condition_count ds"
  using witnesses_per_decision[OF assms]
  by (auto simp: list_all2_conv_all_nth list_eq_iff_nth_eq find_witnesses_length)

lemma analyze_core_Inr:
  assumes "analyze_core input = Inr out"
  shows "try_map decision_witnesses (enumerate 0 (in_decisions input)) = Inr (out_witnesses out)"
  using assms by (auto simp: analyze_core_def Let_def result_simps)

lemma analyze_core_counts:
  assumes "analyze_core input = Inr out"
  shows "cs_lines (out_summary out) = count (count_true (in_lines input)) (length (in_lines input))"
    and "cs_statements (out_summary out) =
      count (length (filter pc_covered (points_of Statement (in_points input))))
        (length (points_of Statement (in_points input)))"
    and "cs_functions (out_summary out) =
      count (length (filter pc_covered (points_of Function (in_points input))))
        (length (points_of Function (in_points input)))"
    and "cs_branches (out_summary out) = count (count_true (alternatives_of (in_branches input)))
        (length (alternatives_of (in_branches input)))"
    and "cs_condition_outcomes (out_summary out) =
      count (sum_list (map condition_outcomes_covered (in_decisions input)))
        (2 * sum_list (map dc_condition_count (in_decisions input)))"
    and "cs_decision_outcomes (out_summary out) =
      count (sum_list (map decision_outcomes_covered (in_decisions input)))
        (2 * length (in_decisions input))"
    and "cs_value_selections (out_summary out) =
      (let value_branches = filter (\<lambda>b. bc_kind b = ''logical-value'') (in_branches input)
       in count (count_true (alternatives_of value_branches)) (length (alternatives_of value_branches)))"
    and "cs_conditions (out_summary out) = sum_list (map dc_condition_count (in_decisions input))"
    and "cs_covered_conditions (out_summary out) =
      length (filter (\<lambda>w. w \<noteq> None) (concat (out_witnesses out)))"
    and "cs_condition_coverage_pct (out_summary out) =
      percentage (cs_covered_conditions (out_summary out)) (cs_conditions (out_summary out))"
    and "cs_coverage_complete (out_summary out) \<longleftrightarrow>
      cc_percentage (cs_lines (out_summary out)) = 100
      \<and> cc_percentage (cs_statements (out_summary out)) = 100
      \<and> cc_percentage (cs_functions (out_summary out)) = 100
      \<and> cc_percentage (cs_branches (out_summary out)) = 100
      \<and> cc_percentage (cs_condition_outcomes (out_summary out)) = 100
      \<and> cs_condition_coverage_pct (out_summary out) = 100"
  using assms widths_per_decision[OF analyze_core_Inr[OF assms]]
  by (auto simp: analyze_core_def Let_def result_simps mult.commute)

lemma count_true_le: "count_true bs \<le> length bs"
  by (simp add: count_true_def)

lemma count_fields [simp]:
  "cc_covered (count c t) = c" "cc_total (count c t) = t"
  "cc_percentage (count c t) = percentage c t"
  by (simp_all add: count_def)

subsection \<open>What the verdict means\<close>

text \<open>Every obligation the core counts, observed: each line, statement, function and branch
  alternative covered, each condition seen false and true, each with a witness.\<close>

definition every_obligation_covered :: "coverage_core_input \<Rightarrow> bool" where
  "every_obligation_covered input \<longleftrightarrow>
     list_all (\<lambda>b. b) (in_lines input)
     \<and> list_all pc_covered (in_points input)
     \<and> list_all (\<lambda>b. list_all (\<lambda>a. a) (bc_alternatives b)) (in_branches input)
     \<and> list_all (\<lambda>d. \<forall>c < dc_condition_count d.
          (\<forall>b. \<exists>v \<in> set (dc_vectors d). mv_values v ! c = Some b)
          \<and> (\<exists>v \<in> set (dc_vectors d). \<exists>w \<in> set (dc_vectors d). is_independence_pair v w c))
        (in_decisions input)"

definition obligations_below :: "nat \<Rightarrow> coverage_core_input \<Rightarrow> bool" where
  "obligations_below n input \<longleftrightarrow>
     length (in_lines input) < n \<and> length (in_points input) < n
     \<and> length (alternatives_of (in_branches input)) < n
     \<and> 2 * sum_list (map dc_condition_count (in_decisions input)) < n"

lemma points_all_iff:
  "list_all pc_covered ps \<longleftrightarrow>
     list_all pc_covered (points_of Statement ps) \<and> list_all pc_covered (points_of Function ps)"
proof -
  have "pc_kind p = Statement \<or> pc_kind p = Function" for p :: point_coverage
    by (cases "pc_kind p") simp_all
  then show ?thesis by (auto simp: points_of_def list_all_iff)
qed

lemma all_witnessed_iff:
  assumes "try_map decision_witnesses (enumerate 0 ds) = Inr wss"
  shows "list_all (\<lambda>w. w \<noteq> None) (concat wss) \<longleftrightarrow>
     list_all (\<lambda>d. \<forall>c < dc_condition_count d.
        \<exists>v \<in> set (dc_vectors d). \<exists>w \<in> set (dc_vectors d). is_independence_pair v w c) ds"
proof -
  have one: "list_all (\<lambda>w. w \<noteq> None) ws \<longleftrightarrow> (\<forall>c < dc_condition_count d.
        \<exists>v \<in> set (dc_vectors d). \<exists>w \<in> set (dc_vectors d). is_independence_pair v w c)"
    if ws: "find_witnesses_for_conditions (dc_vectors d) (dc_condition_count d) = Inr ws" for d ws
  proof -
    have "ws ! c \<noteq> None \<longleftrightarrow>
        (\<exists>v \<in> set (dc_vectors d). \<exists>w \<in> set (dc_vectors d). is_independence_pair v w c)"
      if "c < dc_condition_count d" for c
    proof (cases "ws ! c")
      case None
      then show ?thesis using witness_meaning[OF ws that] by simp
    next
      case (Some p)
      then have p: "wi_first p < length (dc_vectors d)" "wi_second p < length (dc_vectors d)"
        "is_independence_pair (dc_vectors d ! wi_first p) (dc_vectors d ! wi_second p) c"
        using witness_meaning[OF ws that] by auto
      from nth_mem[OF p(1)] nth_mem[OF p(2)] p(3) Some show ?thesis by blast
    qed
    then show ?thesis using find_witnesses_length[OF ws] by (simp add: list_all_length)
  qed
  show ?thesis
    using witnesses_per_decision[OF assms]
  proof (induction ds wss rule: list_all2_induct)
    case (Cons d ds ws wss)
    from one[OF conjunct2[OF Cons.hyps(1)]] Cons.IH show ?case
      by (simp add: list_all_append del: not_None_eq)
  qed simp
qed

lemma length_concat_widths: "length (concat wss) = sum_list (map length wss)"
  by (simp add: length_concat)

lemma coverage_complete_exact:
  assumes ok: "analyze_core input = Inr out" and small: "obligations_below 20000 input"
  shows "cs_coverage_complete (out_summary out) \<longleftrightarrow> every_obligation_covered input"
proof -
  let ?ds = "in_decisions input" and ?wss = "out_witnesses out"
  note wss = analyze_core_Inr[OF ok]
  note counts = analyze_core_counts[OF ok]
  have n: "length (points_of k (in_points input)) \<le> length (in_points input)" for k
    by (simp add: points_of_def)
  have lines: "percentage (count_true (in_lines input)) (length (in_lines input)) = 100
      \<longleftrightarrow> list_all (\<lambda>b. b) (in_lines input)"
    using small by (subst hundred_iff)
      (simp_all add: obligations_below_def count_true_le count_true_def length_filter_eq_all)
  have points: "percentage (length (filter pc_covered (points_of k (in_points input))))
        (length (points_of k (in_points input))) = 100
      \<longleftrightarrow> list_all pc_covered (points_of k (in_points input))" for k
    using small n[of k] by (subst hundred_iff)
      (simp_all add: obligations_below_def length_filter_eq_all)
  have alternatives: "percentage (count_true (alternatives_of (in_branches input)))
        (length (alternatives_of (in_branches input))) = 100
      \<longleftrightarrow> list_all (\<lambda>b. list_all (\<lambda>a. a) (bc_alternatives b)) (in_branches input)"
    using small by (subst hundred_iff)
      (auto simp: obligations_below_def count_true_le count_true_def length_filter_eq_all
        alternatives_of_def list_all_iff)
  have outcomes: "percentage (sum_list (map condition_outcomes_covered ?ds))
        (2 * sum_list (map dc_condition_count ?ds)) = 100
      \<longleftrightarrow> list_all (\<lambda>d. \<forall>c < dc_condition_count d. \<forall>b. \<exists>v \<in> set (dc_vectors d).
            mv_values v ! c = Some b) ?ds"
    using small condition_outcomes_sum[of ?ds] by (subst hundred_iff)
      (simp_all add: obligations_below_def)
  have conditions: "sum_list (map dc_condition_count ?ds) = length (concat ?wss)"
    by (simp add: length_concat widths_per_decision[OF wss])
  have witnessed: "percentage (length (filter (\<lambda>w. w \<noteq> None) (concat ?wss)))
        (sum_list (map dc_condition_count ?ds)) = 100
      \<longleftrightarrow> list_all (\<lambda>d. \<forall>c < dc_condition_count d.
            \<exists>v \<in> set (dc_vectors d). \<exists>w \<in> set (dc_vectors d). is_independence_pair v w c) ?ds"
    using small conditions by (subst hundred_iff)
      (simp_all add: obligations_below_def length_filter_eq_all all_witnessed_iff[OF wss]
        del: not_None_eq)
  show ?thesis
    unfolding counts(11) unfolding counts(1-5,8-10) count_fields lines points alternatives
      outcomes witnessed every_obligation_covered_def points_all_iff[of "in_points input"]
    by (auto simp: list_all_iff)
qed

text \<open>C16: The verdict is right on runs below 20,000 obligations of each kind: when the analysis
  succeeds, \<open>coverage_complete\<close> holds exactly when every declared obligation was observed,
  line by line, point by point, alternative by alternative, condition by condition.\<close>

theorem coverage_complete_iff:
  assumes ok: "analyze_core input = Inr out" and small: "obligations_below 20000 input"
  shows "cs_coverage_complete (out_summary out) \<longleftrightarrow> every_obligation_covered input"
  using assms by (rule coverage_complete_exact)

definition tiny_input :: coverage_core_input where
  "tiny_input =
     \<lparr>in_decisions = [\<lparr>dc_condition_count = 2, dc_vectors = and_vectors\<rparr>],
      in_points = [\<lparr>pc_kind = Statement, pc_covered = True\<rparr>],
      in_branches = [\<lparr>bc_kind = ''if'', bc_alternatives = [True, True]\<rparr>],
      in_lines = [True]\<rparr>"

lemma analyze_core_ok:
  "try_map decision_witnesses (enumerate 0 (in_decisions input)) = Inr wss \<Longrightarrow>
     \<exists>out. analyze_core input = Inr out"
  by (simp only: analyze_core_def Let_def rbind.simps) blast

lemma tiny_input_decisions:
  "enumerate 0 (in_decisions tiny_input) =
     [(0, \<lparr>dc_condition_count = 2, dc_vectors = and_vectors\<rparr>)]"
  by (simp add: tiny_input_def)

lemma tiny_input_witnesses:
  "try_map decision_witnesses (enumerate 0 (in_decisions tiny_input)) =
     Inr [[Some \<lparr>wi_first = 0, wi_second = 1\<rparr>, None]]"
  unfolding tiny_input_decisions try_map.simps decision_witnesses.simps
  by (simp add: and_vectors_witnesses)

lemma tiny_input_ok: "\<exists>out. analyze_core tiny_input = Inr out"
  using tiny_input_witnesses by (rule analyze_core_ok)

theorem coverage_complete_iff_witness:
  "\<exists>out. analyze_core tiny_input = Inr out
     \<and> (cs_coverage_complete (out_summary out) \<longleftrightarrow> every_obligation_covered tiny_input)"
proof -
  obtain out where out: "analyze_core tiny_input = Inr out" using tiny_input_ok by blast
  have "obligations_below 20000 tiny_input"
    by (simp add: obligations_below_def tiny_input_def alternatives_of_def)
  with out coverage_complete_iff show ?thesis by blast
qed

subsection \<open>Where the rounded verdict goes wrong\<close>

text \<open>A run of nothing but lines, all covered but the last.\<close>

definition all_lines_but_one :: "nat \<Rightarrow> coverage_core_input" where
  "all_lines_but_one n =
     \<lparr>in_decisions = [], in_points = [], in_branches = [], in_lines = replicate n True @ [False]\<rparr>"

lemma ratio_200000: "round_half_up (f64_round (f64_round (200000 / 200001) * 10000)) = 10000"
  by code_simp

lemma percentage_200000: "percentage 200000 200001 = 100"
  using f64_round_nat[of 200000] f64_round_nat[of 200001] f64_round_nat[of 100] ratio_200000
  by (simp add: percentage_def)

lemma count_true_but_one: "count_true (replicate n True @ [False]) = n"
  by (simp add: count_true_def)

lemma all_lines_but_one_complete:
  assumes "percentage n (Suc n) = 100"
  shows "\<exists>out. analyze_core (all_lines_but_one n) = Inr out \<and> cs_coverage_complete (out_summary out)"
proof -
  obtain out where out: "analyze_core (all_lines_but_one n) = Inr out"
    using analyze_core_ok[of "all_lines_but_one n" "[]"] by (auto simp: all_lines_but_one_def)
  note counts = analyze_core_counts[OF out]
  have "percentage 0 0 = 100" by (simp add: percentage_def)
  moreover have "cs_covered_conditions (out_summary out) = 0"
    using counts(9) analyze_core_Inr[OF out] by (simp add: all_lines_but_one_def)
  ultimately have "cs_coverage_complete (out_summary out)"
    unfolding counts(11) unfolding counts(1-5,10) unfolding counts(8)
    using assms by (simp add: all_lines_but_one_def count_true_but_one points_of_def
        alternatives_of_def count_true_def)
  with out show ?thesis by blast
qed

text \<open>C40: The rounding to hundredths reaches the verdict: a run of 200,001 lines with one never
  executed is reported complete, though not every obligation is covered.\<close>

theorem complete_with_uncovered_line:
  "(\<exists>out. analyze_core (all_lines_but_one 200000) = Inr out
      \<and> cs_coverage_complete (out_summary out))
   \<and> \<not> every_obligation_covered (all_lines_but_one 200000)"
proof
  show "\<exists>out. analyze_core (all_lines_but_one 200000) = Inr out
      \<and> cs_coverage_complete (out_summary out)"
    using percentage_200000 by (intro all_lines_but_one_complete) simp
  show "\<not> every_obligation_covered (all_lines_but_one 200000)"
    by (simp add: every_obligation_covered_def all_lines_but_one_def list_all_append)
qed

text \<open>No count exceeds its total: in every summary the analysis returns, covered never passes
  total and no percentage passes 100.\<close>

lemma summary_counts_bounded:
  assumes "analyze_core input = Inr out"
  shows "list_all (\<lambda>c. cc_covered c \<le> cc_total c \<and> cc_percentage c \<le> 100)
      [cs_lines (out_summary out), cs_statements (out_summary out), cs_functions (out_summary out),
       cs_branches (out_summary out), cs_decision_outcomes (out_summary out),
       cs_condition_outcomes (out_summary out), cs_value_selections (out_summary out)]
    \<and> cs_covered_conditions (out_summary out) \<le> cs_conditions (out_summary out)"
proof -
  note counts = analyze_core_counts[OF assms]
  have "sum_list (map decision_outcomes_covered (in_decisions input))
      \<le> sum_list (map (\<lambda>_. 2) (in_decisions input))"
    by (intro sum_list_le_pointwise decision_outcomes_covered_le)
  then have outcomes: "sum_list (map decision_outcomes_covered (in_decisions input))
      \<le> 2 * length (in_decisions input)"
    by (simp add: sum_list_triv mult.commute)
  have "cs_covered_conditions (out_summary out) \<le> length (concat (out_witnesses out))"
    unfolding counts by (rule length_filter_le)
  then have "cs_covered_conditions (out_summary out) \<le> cs_conditions (out_summary out)"
    unfolding counts(8) using widths_per_decision[OF analyze_core_Inr[OF assms]]
    by (simp add: length_concat)
  then show ?thesis
    using outcomes condition_outcomes_sum(1)[of "in_decisions input"]
    by (simp add: counts(1-7) Let_def percentage_le_100 count_true_le)
qed

theorem summary_counts_bounded_witness:
  "\<exists>out. analyze_core tiny_input = Inr out
     \<and> cs_covered_conditions (out_summary out) \<le> cs_conditions (out_summary out)"
  using summary_counts_bounded[of tiny_input] tiny_input_ok by blast

end
