(* ===== verification/DecisionShape.thy ===== *)
theory DecisionShape
  imports Mcdc
begin

section \<open>A decision's boolean shape and the vectors it can produce (decision\_shape.rs)\<close>

text \<open>
  The source text of a decision and its conditions' texts are read back into a boolean shape,
  and the shape is run on every assignment to list the vectors short-circuit evaluation can
  produce. The parser works on the tokens left, which is \<open>tokens[at..]\<close> of the source's
  \<open>Parser\<close>; its three mutually recursive methods carry a fuel, and \<open>parse_fuel_enough\<close> shows
  that the fuel \<open>parse\<close> gives them never runs out.

  \<open>char::is_alphanumeric\<close> beyond ASCII is a Unicode table; it is the parameter \<open>wide\<close>, which
  says whether the non-ASCII character a text begins with is alphanumeric. Every theorem
  holds for every table.
\<close>

definition MAX_CONDITIONS :: nat where "MAX_CONDITIONS = 16"

datatype shape =
    Condition nat
  | Not shape
  | And shape shape
  | Or shape shape

datatype token =
    TCondition nat
  | TNot
  | TAnd
  | TOr
  | TOpen
  | TClose

subsection \<open>Tokens\<close>

definition word_continues :: "(string \<Rightarrow> bool) \<Rightarrow> string \<Rightarrow> bool" where
  "word_continues wide after = (case after of [] \<Rightarrow> False
    | c # _ \<Rightarrow> if is_ascii c
        then is_ascii_lowercase c \<or> is_ascii_uppercase c \<or> is_ascii_digit c \<or> c = CHR ''_''
        else wide after)"

definition keyword :: "(string \<Rightarrow> bool) \<Rightarrow> string \<Rightarrow> string \<Rightarrow> string option" where
  "keyword wide rest kw = (case strip_prefix kw rest of None \<Rightarrow> None
    | Some after \<Rightarrow> if word_continues wide after then None else Some after)"

definition operator :: "(string \<Rightarrow> bool) \<Rightarrow> string \<Rightarrow> (token \<times> string) option" where
  "operator wide rest =
     (case strip_prefix ''&&'' rest of Some after \<Rightarrow> Some (TAnd, after) | None \<Rightarrow>
      case strip_prefix ''||'' rest of Some after \<Rightarrow> Some (TOr, after) | None \<Rightarrow>
      case keyword wide rest ''and'' of Some after \<Rightarrow> Some (TAnd, after) | None \<Rightarrow>
      case keyword wide rest ''or'' of Some after \<Rightarrow> Some (TOr, after) | None \<Rightarrow>
      case keyword wide rest ''not'' of Some after \<Rightarrow> Some (TNot, after) | None \<Rightarrow>
      case (case strip_prefix ''!'' rest of None \<Rightarrow> None
            | Some after \<Rightarrow> if starts_with ''='' after then None else Some after) of
        Some after \<Rightarrow> Some (TNot, after) | None \<Rightarrow>
      case strip_prefix ''('' rest of Some after \<Rightarrow> Some (TOpen, after) | None \<Rightarrow>
      case strip_prefix '')'' rest of Some after \<Rightarrow> Some (TClose, after) | None \<Rightarrow> None)"

text \<open>The text of the next condition, when it stands at the front of the text left.\<close>

definition condition_at :: "string list \<Rightarrow> nat \<Rightarrow> string \<Rightarrow> string option" where
  "condition_at conditions next rest =
     (if next < length conditions \<and> conditions ! next \<noteq> []
      then strip_prefix (conditions ! next) rest else None)"

lemma operator_shorter: "operator wide rest = Some (t, after) \<Longrightarrow> length after < length rest"
  by (auto simp: operator_def keyword_def strip_prefix_Some split: option.splits if_splits)

lemma condition_at_shorter: "condition_at cs n rest = Some after \<Longrightarrow> length after < length rest"
  by (auto simp: condition_at_def strip_prefix_Some split: if_splits)

function tokens_from ::
  "(string \<Rightarrow> bool) \<Rightarrow> string list \<Rightarrow> token list \<Rightarrow> nat \<Rightarrow> string \<Rightarrow> token list option" where
  "tokens_from wide conditions tokens next rest =
     (let rest = trim_start rest in
      if rest = [] then (if next = length conditions then Some tokens else None)
      else case condition_at conditions next rest of
        Some after \<Rightarrow> tokens_from wide conditions (tokens @ [TCondition next]) (Suc next) after
      | None \<Rightarrow> (case operator wide rest of
          Some (token, after) \<Rightarrow> tokens_from wide conditions (tokens @ [token]) next after
        | None \<Rightarrow> None))"
  by pat_completeness auto
termination
proof (relation "measure (\<lambda>(wide, conditions, tokens, next, rest). length rest)", simp)
  have shrink: "length (trim_start r) \<le> length r" for r
    by (simp add: trim_start_def trim_with_shorter)
  fix wide :: "string \<Rightarrow> bool" and conditions tokens "next" and rest x after :: string
  assume "x = trim_start rest" "condition_at conditions next x = Some after"
  then show "((wide, conditions, tokens @ [TCondition next], Suc next, after),
      wide, conditions, tokens, next, rest)
      \<in> measure (\<lambda>(wide, conditions, tokens, next, rest). length rest)"
    using condition_at_shorter[of conditions "next" x after] shrink[of rest] by simp
next
  have shrink: "length (trim_start r) \<le> length r" for r
    by (simp add: trim_start_def trim_with_shorter)
  fix wide :: "string \<Rightarrow> bool" and conditions tokens "next" and rest x after :: string
    and p :: "token \<times> string" and token
  assume "x = trim_start rest" "operator wide x = Some p" "(token, after) = p"
  then show "((wide, conditions, tokens @ [token], next, after),
      wide, conditions, tokens, next, rest)
      \<in> measure (\<lambda>(wide, conditions, tokens, next, rest). length rest)"
    using operator_shorter[of wide x token after] shrink[of rest] by auto
qed

declare tokens_from.simps [simp del]

definition tokens :: "(string \<Rightarrow> bool) \<Rightarrow> string \<Rightarrow> string list \<Rightarrow> token list option" where
  "tokens wide source conditions = tokens_from wide conditions [] 0 source"

subsection \<open>The parser\<close>

text \<open>\<open>or_loop\<close> and \<open>and_loop\<close> are the \<open>while\<close> loops of \<open>Parser::or\<close> and \<open>Parser::and\<close>.\<close>

function (sequential) parse_or :: "nat \<Rightarrow> token list \<Rightarrow> (shape \<times> token list) option"
and or_loop :: "nat \<Rightarrow> shape \<Rightarrow> token list \<Rightarrow> (shape \<times> token list) option"
and parse_and :: "nat \<Rightarrow> token list \<Rightarrow> (shape \<times> token list) option"
and and_loop :: "nat \<Rightarrow> shape \<Rightarrow> token list \<Rightarrow> (shape \<times> token list) option"
and parse_not :: "nat \<Rightarrow> token list \<Rightarrow> (shape \<times> token list) option"
where
  "parse_or 0 ts = None"
| "parse_or (Suc n) ts =
     (case parse_and n ts of None \<Rightarrow> None | Some (left, ts) \<Rightarrow> or_loop n left ts)"
| "or_loop 0 left ts = None"
| "or_loop (Suc n) left ts =
     (case ts of
        TOr # ts' \<Rightarrow> (case parse_and n ts' of None \<Rightarrow> None
          | Some (right, ts') \<Rightarrow> or_loop n (Or left right) ts')
      | _ \<Rightarrow> Some (left, ts))"
| "parse_and 0 ts = None"
| "parse_and (Suc n) ts =
     (case parse_not n ts of None \<Rightarrow> None | Some (left, ts) \<Rightarrow> and_loop n left ts)"
| "and_loop 0 left ts = None"
| "and_loop (Suc n) left ts =
     (case ts of
        TAnd # ts' \<Rightarrow> (case parse_not n ts' of None \<Rightarrow> None
          | Some (right, ts') \<Rightarrow> and_loop n (And left right) ts')
      | _ \<Rightarrow> Some (left, ts))"
| "parse_not 0 ts = None"
| "parse_not (Suc n) ts =
     (case ts of
        [] \<Rightarrow> None
      | TNot # ts' \<Rightarrow> (case parse_not n ts' of None \<Rightarrow> None
          | Some (inner, ts') \<Rightarrow> Some (Not inner, ts'))
      | TOpen # ts' \<Rightarrow> (case parse_or n ts' of None \<Rightarrow> None
          | Some (inner, ts') \<Rightarrow> (case ts' of TClose # ts'' \<Rightarrow> Some (inner, ts'') | _ \<Rightarrow> None))
      | TCondition index # ts' \<Rightarrow> Some (Condition index, ts')
      | _ \<Rightarrow> None)"

  by pat_completeness auto
termination
  by (relation "measure (\<lambda>x. case x of
      Inl (Inl (n, ts)) \<Rightarrow> n | Inl (Inr (n, l, ts)) \<Rightarrow> n | Inr (Inl (n, ts)) \<Rightarrow> n
    | Inr (Inr (Inl (n, l, ts))) \<Rightarrow> n | Inr (Inr (Inr (n, ts))) \<Rightarrow> n)") simp_all

definition parse_fuel :: "token list \<Rightarrow> nat" where
  "parse_fuel ts = 3 * length ts + 3"

definition parse :: "(string \<Rightarrow> bool) \<Rightarrow> string \<Rightarrow> string list \<Rightarrow> shape option" where
  "parse wide source conditions =
     (case tokens wide source conditions of None \<Rightarrow> None
      | Some ts \<Rightarrow> (case parse_or (parse_fuel ts) ts of
          None \<Rightarrow> None
        | Some (shape, rest) \<Rightarrow> if rest = [] then Some shape else None))"

subsection \<open>Evaluation\<close>

fun evaluate :: "shape \<Rightarrow> bool list \<Rightarrow> bool option list \<Rightarrow> bool \<times> bool option list" where
  "evaluate (Condition index) values seen =
     (values ! index, seen[index := Some (values ! index)])"
| "evaluate (Not inner) values seen =
     (let (value, seen) = evaluate inner values seen in (\<not> value, seen))"
| "evaluate (And left right) values seen =
     (let (value, seen) = evaluate left values seen
      in if value then evaluate right values seen else (False, seen))"
| "evaluate (Or left right) values seen =
     (let (value, seen) = evaluate left values seen
      in if value then (True, seen) else evaluate right values seen)"

definition vector_of :: "shape \<Rightarrow> bool list \<Rightarrow> mcdc_vector" where
  "vector_of shape values =
     (let (outcome, seen) = evaluate shape values (replicate (length values) None)
      in \<lparr>mv_values = seen, mv_outcome = outcome\<rparr>)"

definition assignment_values :: "nat \<Rightarrow> nat \<Rightarrow> bool list" where
  "assignment_values n assignment = map (\<lambda>index. bit assignment index) [0..<n]"

definition push_new :: "'a \<Rightarrow> 'a list \<Rightarrow> 'a list" where
  "push_new x xs = (if x \<in> set xs then xs else xs @ [x])"

definition possible_vectors ::
  "(string \<Rightarrow> bool) \<Rightarrow> string \<Rightarrow> string list \<Rightarrow> mcdc_vector list option" where
  "possible_vectors wide source conditions =
     (if conditions = [] \<or> length conditions > MAX_CONDITIONS then None
      else case parse wide source conditions of None \<Rightarrow> None
      | Some shape \<Rightarrow> Some (fold
          (\<lambda>assignment vectors.
             push_new (vector_of shape (assignment_values (length conditions) assignment)) vectors)
          [0..<2 ^ length conditions] []))"

subsection \<open>The parser reads the code's grammar, and its fuel is enough\<close>

text \<open>The methods of \<open>Parser\<close> as rules, one per return, with no fuel.\<close>

inductive reads_or and reads_or_loop and reads_and and reads_and_loop and reads_not where
  or_start: "reads_and ts l us \<Longrightarrow> reads_or_loop l us s vs \<Longrightarrow> reads_or ts s vs"
| or_more: "reads_and ts r us \<Longrightarrow> reads_or_loop (Or l r) us s vs \<Longrightarrow> reads_or_loop l (TOr # ts) s vs"
| or_stop: "(case ts of TOr # _ \<Rightarrow> False | _ \<Rightarrow> True) \<Longrightarrow> reads_or_loop l ts l ts"
| and_start: "reads_not ts l us \<Longrightarrow> reads_and_loop l us s vs \<Longrightarrow> reads_and ts s vs"
| and_more: "reads_not ts r us \<Longrightarrow> reads_and_loop (And l r) us s vs \<Longrightarrow> reads_and_loop l (TAnd # ts) s vs"
| and_stop: "(case ts of TAnd # _ \<Rightarrow> False | _ \<Rightarrow> True) \<Longrightarrow> reads_and_loop l ts l ts"
| not_not: "reads_not ts s us \<Longrightarrow> reads_not (TNot # ts) (Not s) us"
| not_open: "reads_or ts s (TClose # us) \<Longrightarrow> reads_not (TOpen # ts) s us"
| not_condition: "reads_not (TCondition i # ts) (Condition i) ts"

inductive_cases reads_orE: "reads_or ts s us"
inductive_cases reads_or_loopE: "reads_or_loop l ts s us"
inductive_cases reads_andE: "reads_and ts s us"
inductive_cases reads_and_loopE: "reads_and_loop l ts s us"
inductive_cases reads_notE: "reads_not ts s us"

lemma parser_reads:
  "parse_or n ts = Some (s, us) \<Longrightarrow> reads_or ts s us"
  "or_loop n l ts = Some (s, us) \<Longrightarrow> reads_or_loop l ts s us"
  "parse_and n ts = Some (s, us) \<Longrightarrow> reads_and ts s us"
  "and_loop n l ts = Some (s, us) \<Longrightarrow> reads_and_loop l ts s us"
  "parse_not n ts = Some (s, us) \<Longrightarrow> reads_not ts s us"
proof (induction n ts and n l ts and n ts and n l ts and n ts
    arbitrary: s us and s us and s us and s us and s us
    rule: parse_or_or_loop_parse_and_and_loop_parse_not.induct)
qed (auto split: option.splits list.splits token.splits
    intro: reads_or_reads_or_loop_reads_and_reads_and_loop_reads_not.intros,
  (metis or_more and_more)+)

text \<open>Every rule takes a token off, so the fuel bounds the depth of any reading.\<close>

lemma reads_shorter:
  "reads_or ts s us \<Longrightarrow> length us < length ts"
  "reads_or_loop l ts s us \<Longrightarrow> length us \<le> length ts"
  "reads_and ts s us \<Longrightarrow> length us < length ts"
  "reads_and_loop l ts s us \<Longrightarrow> length us \<le> length ts"
  "reads_not ts s us \<Longrightarrow> length us < length ts"
  by (induction rule: reads_or_reads_or_loop_reads_and_reads_and_loop_reads_not.inducts) auto

lemma reads_parser:
  "reads_or ts s us \<Longrightarrow> 3 * length ts + 1 \<le> n \<Longrightarrow> parse_or n ts = Some (s, us)"
  "reads_or_loop l ts s us \<Longrightarrow> 3 * length ts + 1 \<le> n \<Longrightarrow> or_loop n l ts = Some (s, us)"
  "reads_and ts s us \<Longrightarrow> 3 * length ts \<le> n \<Longrightarrow> parse_and n ts = Some (s, us)"
  "reads_and_loop l ts s us \<Longrightarrow> 3 * length ts + 1 \<le> n \<Longrightarrow> and_loop n l ts = Some (s, us)"
  "reads_not ts s us \<Longrightarrow> 3 * length ts - 1 \<le> n \<Longrightarrow> parse_not n ts = Some (s, us)"
proof (induction arbitrary: n and n and n and n and n
    rule: reads_or_reads_or_loop_reads_and_reads_and_loop_reads_not.inducts)
  case (or_start ts l us s vs)
  from or_start.prems obtain m where n: "n = Suc m" by (cases n) auto
  have "length us < length ts" using reads_shorter(3) or_start.hyps(1) .
  with or_start n show ?case by simp
next
  case (or_more ts r us l s vs)
  from or_more.prems obtain m where n: "n = Suc m" by (cases n) auto
  have "length us < length ts" using reads_shorter(3) or_more.hyps(1) .
  with or_more n show ?case by simp
next
  case (or_stop ts l)
  then show ?case by (cases n) (auto split: list.splits token.splits)
next
  case (and_start ts l us s vs)
  have len: "length us < length ts" using reads_shorter(5) and_start.hyps(1) .
  with and_start.prems obtain m where n: "n = Suc m" by (cases n) auto
  with and_start len show ?case by simp
next
  case (and_more ts r us l s vs)
  from and_more.prems obtain m where n: "n = Suc m" by (cases n) auto
  have "length us < length ts" using reads_shorter(5) and_more.hyps(1) .
  with and_more n show ?case by simp
next
  case (and_stop ts l)
  then show ?case by (cases n) (auto split: list.splits token.splits)
next
  case (not_not ts s us)
  then show ?case by (cases n) auto
next
  case (not_open ts s us)
  then show ?case by (cases n) auto
next
  case (not_condition i ts)
  then show ?case by (cases n) auto
qed

lemma parse_or_reads:
  "parse_or (parse_fuel ts) ts = Some (s, us) \<longleftrightarrow> reads_or ts s us"
  using parser_reads(1) reads_parser(1)[of ts s us "parse_fuel ts"]
  by (auto simp: parse_fuel_def)

subsection \<open>Printing and parsing\<close>

text \<open>A shape printed with the fewest parentheses, at level 0 (a whole decision), 1 (under \<open>or\<close>)
  or 2 (under \<open>and\<close> and \<open>not\<close>).\<close>

definition wrap :: "bool \<Rightarrow> token list \<Rightarrow> token list" where
  "wrap b ts = (if b then TOpen # ts @ [TClose] else ts)"

fun print_shape :: "shape \<Rightarrow> nat \<Rightarrow> token list" where
  "print_shape (Condition i) k = [TCondition i]"
| "print_shape (Not s) k = TNot # print_shape s 2"
| "print_shape (And l r) k = wrap (1 < k) (print_shape l 1 @ TAnd # print_shape r 2)"
| "print_shape (Or l r) k = wrap (0 < k) (print_shape l 0 @ TOr # print_shape r 1)"

lemma reads_and_single: "reads_not ts s us \<Longrightarrow> reads_and_loop s us t vs \<Longrightarrow> reads_and ts t vs"
  by (rule and_start)

lemma reads_print:
  "reads_not (print_shape s 2 @ us) s us"
  "reads_and_loop s us t vs \<Longrightarrow> reads_and (print_shape s 1 @ us) t vs"
  "reads_or_loop s us t vs \<Longrightarrow> (case us of TAnd # _ \<Rightarrow> False | _ \<Rightarrow> True) \<Longrightarrow>
     reads_or (print_shape s 0 @ us) t vs"
proof (induction s arbitrary: us t vs)
  case (Condition i)
  { case 1 show ?case by (simp add: not_condition) }
  { case 2 then show ?case by (auto intro: and_start not_condition) }
  { case 3 then show ?case by (auto intro: or_start and_start and_stop not_condition) }
next
  case (Not s)
  have n: "reads_not (TNot # print_shape s 2 @ us) (Not s) us" for us
    using Not(1) by (rule not_not)
  { case 1 show ?case using n by simp }
  { case 2 then show ?case using n by (auto intro: and_start) }
  { case 3 then show ?case using n by (auto intro: or_start and_start and_stop) }
next
  case (And l r)
  have a: "reads_and (print_shape l 1 @ TAnd # print_shape r 2 @ us) t vs"
    if "reads_and_loop (And l r) us t vs" for us t vs
    using And(2)[of "TAnd # print_shape r 2 @ us"] and_more[OF And(4) that] by simp
  have o: "reads_or (print_shape l 1 @ TAnd # print_shape r 2 @ us) t vs"
    if "reads_or_loop (And l r) us t vs" "case us of TAnd # _ \<Rightarrow> False | _ \<Rightarrow> True" for us t vs
    using or_start[OF a[OF and_stop[OF that(2)]] that(1)] .
  { case 1 show ?case
      using not_open[OF o[OF or_stop, of "TClose # us"]] by (simp add: wrap_def) }
  { case 2 then show ?case using a by (simp add: wrap_def) }
  { case 3 then show ?case using o by (simp add: wrap_def) }
next
  case (Or l r)
  have o: "reads_or (print_shape l 0 @ TOr # print_shape r 1 @ us) t vs"
    if "reads_or_loop (Or l r) us t vs" "case us of TAnd # _ \<Rightarrow> False | _ \<Rightarrow> True" for us t vs
    using Or(3)[OF or_more[OF Or(5)[OF and_stop[OF that(2)]] that(1)]] by simp
  have n: "reads_not (TOpen # print_shape l 0 @ TOr # print_shape r 1 @ TClose # us) (Or l r) us" for us
    using not_open[OF o[OF or_stop, of "TClose # us"]] by simp
  { case 1 show ?case using n by (simp add: wrap_def) }
  { case 2 then show ?case using n by (auto simp: wrap_def intro: and_start) }
  { case 3 then show ?case using o by (simp add: wrap_def) }
qed

text \<open>The parser inverts printing with the fewest parentheses: \<open>or\<close> binds loosest, then
  \<open>and\<close>, then \<open>not\<close>, both joins associate to the left, and the fuel the parser is given is
  enough for every shape.\<close>

theorem parse_print_roundtrip:
  "parse_or (parse_fuel (print_shape s 0)) (print_shape s 0) = Some (s, [])"
  using reads_print(3)[of s "[]" s "[]"] or_stop[of "[]" s] by (simp add: parse_or_reads)

subsection \<open>Each condition stands once in the shape\<close>

fun leaves :: "shape \<Rightarrow> nat list" where
  "leaves (Condition i) = [i]"
| "leaves (Not s) = leaves s"
| "leaves (And l r) = leaves l @ leaves r"
| "leaves (Or l r) = leaves l @ leaves r"

fun token_conditions :: "token list \<Rightarrow> nat list" where
  "token_conditions [] = []"
| "token_conditions (TCondition i # ts) = i # token_conditions ts"
| "token_conditions (t # ts) = token_conditions ts"

lemma token_conditions_append:
  "token_conditions (ts @ us) = token_conditions ts @ token_conditions us"
  by (induction ts rule: token_conditions.induct) auto

lemma operator_no_condition: "operator wide rest = Some (t, after) \<Longrightarrow> token_conditions [t] = []"
  by (auto simp: operator_def split: option.splits)

lemma tokens_from_conditions:
  "tokens_from wide cs ts k rest = Some us \<Longrightarrow> token_conditions ts = [0..<k] \<Longrightarrow>
     token_conditions us = [0..<length cs]"
proof (induction wide cs ts k rest rule: tokens_from.induct)
  case (1 wide cs ts k rest)
  let ?r = "trim_start rest"
  show ?case
  proof (cases "?r = []")
    case True
    with "1.prems" show ?thesis
      by (simp add: tokens_from.simps[of wide cs ts k rest] split: if_splits)
  next
    case ne: False
    show ?thesis
    proof (cases "condition_at cs k ?r")
      case (Some after)
      with "1.prems" ne show ?thesis
        by (intro "1.IH"(2)[OF refl ne Some])
          (simp_all add: tokens_from.simps[of wide cs ts k rest] token_conditions_append)
    next
      case None
      with "1.prems" ne obtain t after where op: "operator wide ?r = Some (t, after)"
        by (auto simp: tokens_from.simps[of wide cs ts k rest] split: option.splits)
      with "1.prems" ne None show ?thesis
        by (intro "1.IH"(1)[OF refl ne None op refl])
          (simp_all add: tokens_from.simps[of wide cs ts k rest] token_conditions_append
            operator_no_condition)
    qed
  qed
qed

lemma reads_leaves:
  "reads_or ts s us \<Longrightarrow> token_conditions ts = leaves s @ token_conditions us"
  "reads_or_loop l ts s us \<Longrightarrow> leaves l @ token_conditions ts = leaves s @ token_conditions us"
  "reads_and ts s us \<Longrightarrow> token_conditions ts = leaves s @ token_conditions us"
  "reads_and_loop l ts s us \<Longrightarrow> leaves l @ token_conditions ts = leaves s @ token_conditions us"
  "reads_not ts s us \<Longrightarrow> token_conditions ts = leaves s @ token_conditions us"
  by (induction rule: reads_or_reads_or_loop_reads_and_reads_and_loop_reads_not.inducts) simp_all

lemma parse_leaves:
  assumes "parse wide source conditions = Some s"
  shows "leaves s = [0..<length conditions]"
proof -
  from assms obtain ts where ts: "tokens wide source conditions = Some ts"
    and "reads_or ts s []"
    by (auto simp: parse_def simp flip: parse_or_reads split: option.splits if_splits)
  then show ?thesis
    using reads_leaves(1) tokens_from_conditions[of wide conditions "[]" 0 source ts]
    by (simp add: tokens_def)
qed

subsection \<open>What short-circuit evaluation sees\<close>

fun holds :: "shape \<Rightarrow> (nat \<Rightarrow> bool) \<Rightarrow> bool" where
  "holds (Condition i) f \<longleftrightarrow> f i"
| "holds (Not s) f \<longleftrightarrow> \<not> holds s f"
| "holds (And l r) f \<longleftrightarrow> holds l f \<and> holds r f"
| "holds (Or l r) f \<longleftrightarrow> holds l f \<or> holds r f"

fun visited :: "shape \<Rightarrow> (nat \<Rightarrow> bool) \<Rightarrow> nat set" where
  "visited (Condition i) f = {i}"
| "visited (Not s) f = visited s f"
| "visited (And l r) f = visited l f \<union> (if holds l f then visited r f else {})"
| "visited (Or l r) f = visited l f \<union> (if holds l f then {} else visited r f)"

definition record_seen :: "bool list \<Rightarrow> nat set \<Rightarrow> bool option list \<Rightarrow> bool option list" where
  "record_seen values V seen =
     map (\<lambda>i. if i \<in> V then Some (values ! i) else seen ! i) [0..<length seen]"

lemma record_seen_length [simp]: "length (record_seen values V seen) = length seen"
  by (simp add: record_seen_def)

lemma record_seen_single: "record_seen values {i} seen = seen[i := Some (values ! i)]"
  by (rule nth_equalityI) (auto simp: record_seen_def nth_list_update)

lemma record_seen_empty [simp]: "record_seen values {} seen = seen"
  by (rule nth_equalityI) (auto simp: record_seen_def)

lemma record_seen_twice:
  "record_seen values W (record_seen values V seen) = record_seen values (V \<union> W) seen"
  by (rule nth_equalityI) (auto simp: record_seen_def)

lemma evaluate_spec:
  "evaluate s values seen =
     (holds s ((!) values), record_seen values (visited s ((!) values)) seen)"
proof (induction s arbitrary: seen)
  case (Condition i)
  then show ?case by (simp add: record_seen_single)
qed (simp_all add: record_seen_twice)

lemma record_seen_none:
  "record_seen values V (replicate n None)
     = map (\<lambda>i. if i \<in> V then Some (values ! i) else None) [0..<n]"
  by (rule nth_equalityI) (auto simp: record_seen_def)

lemma vector_of_spec:
  "vector_of s values = \<lparr>mv_values = map (\<lambda>i. if i \<in> visited s ((!) values)
        then Some (values ! i) else None) [0..<length values], mv_outcome = holds s ((!) values)\<rparr>"
  by (simp only: vector_of_def evaluate_spec record_seen_none Let_def prod.case)

text \<open>Two runs that agree wherever both look are one run.\<close>

lemma agree_where_both_visit:
  assumes "\<And>i. i \<in> visited s f \<Longrightarrow> i \<in> visited s g \<Longrightarrow> f i = g i"
  shows "holds s f = holds s g \<and> visited s f = visited s g"
  using assms
proof (induction s)
  case (And l r)
  have l: "holds l f = holds l g \<and> visited l f = visited l g"
    by (rule And.IH(1)) (rule And.prems, simp_all)
  show ?case
  proof (cases "holds l f")
    case True
    with l have g: "holds l g = True" by simp
    have "holds r f = holds r g \<and> visited r f = visited r g"
      by (rule And.IH(2)) (rule And.prems, simp_all add: True g)
    with l show ?thesis by simp
  qed (use l in simp)
next
  case (Or l r)
  have l: "holds l f = holds l g \<and> visited l f = visited l g"
    by (rule Or.IH(1)) (rule Or.prems, simp_all)
  show ?case
  proof (cases "holds l f")
    case False
    with l have g: "holds l g = False" by simp
    have "holds r f = holds r g \<and> visited r f = visited r g"
      by (rule Or.IH(2)) (rule Or.prems, simp_all add: False g)
    with l show ?thesis by simp
  qed (use l in simp)
qed simp_all

lemma visited_leaves: "visited s f \<subseteq> set (leaves s)"
  by (induction s) auto

lemma holds_cong: "(\<And>i. i \<in> set (leaves s) \<Longrightarrow> f i = g i) \<Longrightarrow> holds s f = holds s g"
  by (induction s) auto

subsection \<open>Every condition can decide its decision\<close>

lemma together:
  assumes "set (leaves l) \<inter> set (leaves r) = {}"
  shows "\<exists>h. holds l h = holds l f \<and> holds r h = holds r g"
proof -
  let ?h = "\<lambda>i. if i \<in> set (leaves l) then f i else g i"
  have "holds l ?h = holds l f" by (rule holds_cong) simp
  moreover have "holds r ?h = holds r g" by (rule holds_cong) (use assms in auto)
  ultimately show ?thesis by blast
qed

lemma both_outcomes:
  "distinct (leaves s) \<Longrightarrow> \<exists>f. holds s f = b"
proof (induction s arbitrary: b)
  case (Condition i)
  then show ?case by (auto intro: exI[of _ "\<lambda>_. b"])
next
  case (Not s)
  then show ?case using Not.IH[of "\<not> b"] by auto
next
  case (And l r)
  then obtain f g where "holds l f = b" "holds r g = b" by fastforce
  with together[of l r f g] And.prems show ?case by auto
next
  case (Or l r)
  then obtain f g where "holds l f = b" "holds r g = b" by fastforce
  with together[of l r f g] Or.prems show ?case by auto
qed

text \<open>A side that decides, beside a side held at a value that leaves it to.\<close>

lemma decides_beside:
  assumes disjoint: "set (leaves s) \<inter> set (leaves t) = {}" and c: "c \<in> set (leaves s)"
    and s: "holds s f \<noteq> holds s (f(c := \<not> f c))" and t: "holds t g = b"
  shows "\<exists>h. holds s h \<noteq> holds s (h(c := \<not> h c)) \<and> holds t h = b
     \<and> holds t (h(c := \<not> h c)) = b"
proof -
  let ?h = "\<lambda>i. if i \<in> set (leaves s) then f i else g i"
  have "holds s ?h = holds s f" by (rule holds_cong) simp
  moreover have "holds s (?h(c := \<not> ?h c)) = holds s (f(c := \<not> f c))"
    by (rule holds_cong) (use c in simp)
  moreover have "holds t ?h = holds t g" by (rule holds_cong) (use disjoint in auto)
  moreover have "holds t (?h(c := \<not> ?h c)) = holds t g"
    by (rule holds_cong) (use disjoint c in auto)
  ultimately show ?thesis using s t by (intro exI[of _ ?h]) simp
qed

lemma condition_decides:
  "distinct (leaves s) \<Longrightarrow> c \<in> set (leaves s) \<Longrightarrow> \<exists>f. holds s f \<noteq> holds s (f(c := \<not> f c))"
proof (induction s)
  case (And l r)
  show ?case
  proof (cases "c \<in> set (leaves l)")
    case True
    have "distinct (leaves l)" using And.prems(1) by simp
    from And.IH(1)[OF this True] obtain f where f: "holds l f \<noteq> holds l (f(c := \<not> f c))" ..
    obtain g where g: "holds r g = True" using both_outcomes[of _ True] And.prems(1) by auto
    obtain h where "holds l h \<noteq> holds l (h(c := \<not> h c))" "holds r h" "holds r (h(c := \<not> h c))"
      using decides_beside[OF _ True f g] And.prems(1) by auto
    then show ?thesis by (intro exI[of _ h]) (simp del: fun_upd_apply)
  next
    case False
    with And.prems have c: "c \<in> set (leaves r)" by simp
    have "distinct (leaves r)" using And.prems(1) by simp
    from And.IH(2)[OF this c] obtain f where f: "holds r f \<noteq> holds r (f(c := \<not> f c))" ..
    obtain g where g: "holds l g = True" using both_outcomes[of _ True] And.prems(1) by auto
    obtain h where "holds r h \<noteq> holds r (h(c := \<not> h c))" "holds l h" "holds l (h(c := \<not> h c))"
      using decides_beside[OF _ c f g] And.prems(1) by auto
    then show ?thesis by (intro exI[of _ h]) (simp del: fun_upd_apply)
  qed
next
  case (Or l r)
  show ?case
  proof (cases "c \<in> set (leaves l)")
    case True
    have "distinct (leaves l)" using Or.prems(1) by simp
    from Or.IH(1)[OF this True] obtain f where f: "holds l f \<noteq> holds l (f(c := \<not> f c))" ..
    obtain g where g: "holds r g = False" using both_outcomes[of _ False] Or.prems(1) by auto
    obtain h where "holds l h \<noteq> holds l (h(c := \<not> h c))" "\<not> holds r h"
      "\<not> holds r (h(c := \<not> h c))"
      using decides_beside[OF _ True f g] Or.prems(1) by auto
    then show ?thesis by (intro exI[of _ h]) (simp del: fun_upd_apply)
  next
    case False
    with Or.prems have c: "c \<in> set (leaves r)" by simp
    have "distinct (leaves r)" using Or.prems(1) by simp
    from Or.IH(2)[OF this c] obtain f where f: "holds r f \<noteq> holds r (f(c := \<not> f c))" ..
    obtain g where g: "holds l g = False" using both_outcomes[of _ False] Or.prems(1) by auto
    obtain h where "holds r h \<noteq> holds r (h(c := \<not> h c))" "\<not> holds l h"
      "\<not> holds l (h(c := \<not> h c))"
      using decides_beside[OF _ c f g] Or.prems(1) by auto
    then show ?thesis by (intro exI[of _ h]) (simp del: fun_upd_apply)
  qed
qed auto

lemma deciding_pair:
  assumes leaves: "leaves s = [0..<n]" and c: "c < n"
  shows "\<exists>v w. length v = n \<and> length w = n
     \<and> is_independence_pair (vector_of s v) (vector_of s w) c"
proof -
  obtain f where f: "holds s f \<noteq> holds s (f(c := \<not> f c))"
    using condition_decides[of s c] leaves c by auto
  let ?g = "f(c := \<not> f c)" and ?v = "map f [0..<n]" and ?w = "map (f(c := \<not> f c)) [0..<n]"
  have v: "holds s ((!) ?v) = holds s f" "holds s ((!) ?w) = holds s ?g"
    using leaves by (auto intro!: holds_cong)
  have seen: "c \<in> visited s ((!) ?v)" "c \<in> visited s ((!) ?w)"
  proof -
    have n: "visited s h \<subseteq> {..<n}" for h using visited_leaves[of s h] leaves by auto
    have "c \<in> visited s ((!) ?v) \<and> c \<in> visited s ((!) ?w)"
    proof (rule ccontr)
      assume "\<not> ?thesis"
      then have "?v ! i = ?w ! i" if "i \<in> visited s ((!) ?v)" "i \<in> visited s ((!) ?w)" for i
        using that n[of "(!) ?v"] by (cases "i = c") auto
      then have "holds s ((!) ?v) = holds s ((!) ?w)" using agree_where_both_visit by blast
      with f v show False by simp
    qed
    then show "c \<in> visited s ((!) ?v)" "c \<in> visited s ((!) ?w)" by simp_all
  qed
  have "is_independence_pair (vector_of s ?v) (vector_of s ?w) c"
    unfolding vector_of_spec using f v c seen
    by (subst independence_pair_iff[where width = n]) auto
  then show ?thesis by (intro exI[of _ ?v] exI[of _ ?w]) simp
qed

subsection \<open>The vectors listed\<close>

lemma set_push_fold:
  "set (fold (\<lambda>a vs. push_new (g a) vs) xs acc) = set acc \<union> g ` set xs"
  by (induction xs arbitrary: acc) (auto simp: push_new_def)

lemma distinct_push_fold:
  "distinct acc \<Longrightarrow> distinct (fold (\<lambda>a vs. push_new (g a) vs) xs acc)"
  by (induction xs arbitrary: acc) (auto simp: push_new_def)

lemma assignments_all:
  "assignment_values n ` {0..<2 ^ n} = {values. length values = n}"
proof (intro equalityI subsetI)
  fix vals :: "bool list" assume "vals \<in> {values. length values = n}"
  then have n: "length vals = n" by simp
  let ?a = "horner_sum of_bool 2 vals :: nat"
  have "assignment_values n ?a = vals"
    by (rule nth_equalityI) (simp_all add: assignment_values_def n bit_horner_sum_bit_iff)
  moreover have "?a < 2 ^ n" using horner_sum_bound[of vals] n by simp
  ultimately show "vals \<in> assignment_values n ` {0..<2 ^ n}"
    by (intro image_eqI[of _ _ ?a]) simp_all
qed (auto simp: assignment_values_def)

lemma possible_vectors_parse:
  assumes "possible_vectors wide source conditions = Some vectors"
  obtains s where "leaves s = [0..<length conditions]" "parse wide source conditions = Some s"
    "set vectors = vector_of s ` {values. length values = length conditions}" "distinct vectors"
proof -
  from assms obtain s where s: "parse wide source conditions = Some s"
    and vectors: "vectors = fold (\<lambda>assignment vectors.
        push_new (vector_of s (assignment_values (length conditions) assignment)) vectors)
      [0..<2 ^ length conditions] []"
    by (auto simp: possible_vectors_def split: if_splits option.splits)
  have "set vectors = vector_of s ` assignment_values (length conditions) ` {0..<2 ^ length conditions}"
    unfolding vectors set_push_fold by (simp add: image_image)
  then have "set vectors = vector_of s ` {values. length values = length conditions}"
    unfolding assignments_all .
  moreover have "distinct vectors" unfolding vectors by (rule distinct_push_fold) simp
  ultimately show thesis using that[of s] s parse_leaves[OF s] by blast
qed

text \<open>\<open>possible_vectors\<close> lists the vectors short-circuit evaluation can produce: for the shape
  its source reads as, in which each condition stands once and in order, the list holds the
  vector of every assignment, nothing else, and nothing twice.\<close>

theorem possible_vectors_exact:
  assumes "possible_vectors wide source conditions = Some vectors"
  shows "\<exists>s. parse wide source conditions = Some s \<and> leaves s = [0..<length conditions]
     \<and> distinct vectors
     \<and> set vectors = vector_of s ` {values. length values = length conditions}"
  using possible_vectors_parse[OF assms] by metis

definition sample_vectors :: "mcdc_vector list" where
  "sample_vectors =
     [\<lparr>mv_values = [Some False, Some False], mv_outcome = False\<rparr>,
      \<lparr>mv_values = [Some True, None], mv_outcome = True\<rparr>,
      \<lparr>mv_values = [Some False, Some True], mv_outcome = True\<rparr>]"

lemma sample_tokens:
  "tokens wide ''a || b'' [''a'', ''b''] = Some [TCondition 0, TOr, TCondition 1]"
  by (simp add: tokens_def tokens_from.simps condition_at_def operator_def keyword_def
      trim_start_stays code_def)

lemma sample_parse:
  "parse wide ''a || b'' [''a'', ''b''] = Some (Or (Condition 0) (Condition 1))"
  by (simp add: parse_def sample_tokens parse_fuel_def numeral_eq_Suc)

lemma sample_possible:
  "possible_vectors wide ''a || b'' [''a'', ''b''] = Some sample_vectors"
proof -
  have "assignment_values 2 0 = [False, False]" "assignment_values 2 1 = [True, False]"
    "assignment_values 2 2 = [False, True]" "assignment_values 2 3 = [True, True]"
    by code_simp+
  then show ?thesis
    by (simp add: possible_vectors_def sample_parse MAX_CONDITIONS_def upt_rec push_new_def
      vector_of_def sample_vectors_def numeral_2_eq_2 numeral_3_eq_3)
qed

theorem possible_vectors_exact_witness:
  "\<exists>s. parse (\<lambda>_. False) ''a || b'' [''a'', ''b''] = Some s \<and> leaves s = [0, 1]"
  using possible_vectors_exact[OF sample_possible[of "\<lambda>_. False"]] by (auto simp: upt_rec)

text \<open>Two different vectors of one decision disagree on a condition both evaluated, so the
  values seen determine the outcome: short-circuiting never makes one observation stand for
  two different runs.\<close>

lemma possible_vectors_differ:
  assumes "possible_vectors wide source conditions = Some vectors"
    and "v \<in> set vectors" and "w \<in> set vectors"
  shows "v = w \<or> (\<exists>c < length conditions. opposite (mv_values v ! c) (mv_values w ! c))"
proof -
  let ?n = "length conditions"
  obtain s where s: "leaves s = [0..<?n]" and
    vs: "set vectors = vector_of s ` {values. length values = ?n}"
    using possible_vectors_parse[OF assms(1)] by metis
  from assms(2,3) vs obtain a b where ab: "v = vector_of s a" "w = vector_of s b"
    "length a = ?n" "length b = ?n" by auto
  have within: "visited s f \<subseteq> {..<?n}" for f using visited_leaves[of s f] s by auto
  show ?thesis
  proof (cases "\<exists>c. c \<in> visited s ((!) a) \<and> c \<in> visited s ((!) b) \<and> a ! c \<noteq> b ! c")
    case True
    then obtain c where c: "c \<in> visited s ((!) a)" "c \<in> visited s ((!) b)" "a ! c \<noteq> b ! c" by blast
    then have "c < ?n" using within by blast
    with c ab have "opposite (mv_values v ! c) (mv_values w ! c)"
      by (simp add: vector_of_spec opposite_def)
    with \<open>c < ?n\<close> show ?thesis by blast
  next
    case False
    then have "holds s ((!) a) = holds s ((!) b) \<and> visited s ((!) a) = visited s ((!) b)"
      by (intro agree_where_both_visit) blast
    with False ab have "v = w" by (auto simp: vector_of_spec)
    then show ?thesis ..
  qed
qed

theorem possible_vectors_differ_witness:
  "sample_vectors ! 0 = sample_vectors ! 2
     \<or> (\<exists>c < 2. opposite (mv_values (sample_vectors ! 0) ! c) (mv_values (sample_vectors ! 2) ! c))"
  using possible_vectors_differ[OF sample_possible[of "\<lambda>_. False"], of "sample_vectors ! 0" "sample_vectors ! 2"]
  by (simp add: sample_vectors_def numeral_2_eq_2)

text \<open>Full MC/DC is within reach of every decision that reads as conditions joined by the
  boolean operators: on its possible vectors the witness search succeeds and finds a witness
  for every condition.\<close>

theorem possible_vectors_witnessed:
  assumes "possible_vectors wide source conditions = Some vectors"
  shows "\<exists>ws. find_witnesses_for_conditions vectors (length conditions) = Inr ws
     \<and> length ws = length conditions \<and> list_all (\<lambda>w. w \<noteq> None) ws"
proof -
  let ?n = "length conditions"
  obtain s where s: "leaves s = [0..<?n]" and
    vs: "set vectors = vector_of s ` {values. length values = ?n}"
    using possible_vectors_parse[OF assms] by metis
  have "list_all (\<lambda>v. length (mv_values v) = ?n) vectors"
    using vs by (auto simp: list_all_iff vector_of_spec)
  then obtain ws where ws: "find_witnesses_for_conditions vectors ?n = Inr ws"
    and len: "length ws = ?n"
    by (auto simp: search_eq_scan find_width_None[symmetric])
  have "ws ! c \<noteq> None" if c: "c < ?n" for c
  proof -
    obtain a b where "length a = ?n" "length b = ?n"
      "is_independence_pair (vector_of s a) (vector_of s b) c"
      using deciding_pair[OF s c] by blast
    then have "\<exists>v \<in> set vectors. \<exists>w \<in> set vectors. is_independence_pair v w c"
      unfolding vs by blast
    then show ?thesis using witness_meaning[OF ws c] by (cases "ws ! c") auto
  qed
  with ws len show ?thesis by (auto simp: list_all_length)
qed

theorem possible_vectors_witnessed_witness:
  "\<exists>ws. find_witnesses_for_conditions sample_vectors 2 = Inr ws \<and> list_all (\<lambda>w. w \<noteq> None) ws"
  using possible_vectors_witnessed[OF sample_possible[of "\<lambda>_. False"]] by (auto simp: numeral_2_eq_2)

end
