(* ===== verification/EvidenceArchive.thy ===== *)
theory EvidenceArchive
  imports Prelude
begin

section \<open>The evidence archive: framing, canonical order, strict reading (evidence\_archive.rs)\<close>

text \<open>
  An archive is a magic line and then one frame per entry: the header's length as a big-endian
  \<open>u32\<close>, the header (canonical JSON and a newline), the payload. The writer sorts the entries
  and frames them; the reader accepts a byte sequence only when it is what the writer would
  have written, and may skip payloads without losing a check.

  A byte is a \<open>char\<close> here too, so \<open>Vec<u8>\<close> is \<open>string\<close>. \<open>serde_json\<close> is not part of the
  repository: \<open>to_vec\<close> and \<open>from_slice\<close> on \<open>EntryHeader\<close> are parameters, and the theorems
  that need it say that reading a written header gives it back (\<open>header_codec\<close>).
\<close>

subsection \<open>Errors and records\<close>

datatype io_kind = NotFound | AlreadyExists | StorageFull | UnexpectedEof | WriteZero | OtherKind

record io_error =
  io_kind :: io_kind
  io_message :: string

datatype archive_error =
    Io io_error
  | Json string
  | InvalidMagic
  | InvalidHeader string
  | InvalidPath string
  | DuplicatePath string
  | UnsortedPath string string
  | MissingManifest
  | MissingFrontend
  | MissingCoverageModel
  | Truncated string
  | TrailingCompressedData
  | UnsupportedSource string

record archive_entry =
  ae_path :: string
  ae_contents :: string

record entry_header =
  eh_path :: string
  eh_bytes :: u64

definition EVIDENCE_ARCHIVE_SCHEMA_VERSION :: u32 where "EVIDENCE_ARCHIVE_SCHEMA_VERSION = 3"

definition EVIDENCE_ARCHIVE_MAGIC :: string where
  "EVIDENCE_ARCHIVE_MAGIC = ''SUPERCOV-EVIDENCE-3'' @ [CHR 0x0A]"

definition MAX_ENTRY_HEADER_BYTES :: nat where "MAX_ENTRY_HEADER_BYTES = 64 * 1024"

definition map_io :: "io_error + 'a \<Rightarrow> archive_error + 'a" where
  "map_io r = (case r of Inl e \<Rightarrow> Inl (Io e) | Inr a \<Rightarrow> Inr a)"

lemma map_io_Inr_iff [result_simps]: "map_io r = Inr a \<longleftrightarrow> r = Inr a"
  by (cases r) (auto simp: map_io_def)

subsection \<open>Paths and the canonical order\<close>

definition validate_archive_path :: "string \<Rightarrow> archive_error + unit" where
  "validate_archive_path path =
     (if path = [] \<or> starts_with ''/'' path \<or> ends_with ''/'' path
         \<or> CHR 0x5C \<in> set path \<or> CHR 0x00 \<in> set path
         \<or> list_ex (\<lambda>part. part = [] \<or> part = ''.'' \<or> part = ''..'') (split_on CHR ''/'' path)
      then Inl (InvalidPath path) else Inr ())"

definition validate_prefix :: "string \<Rightarrow> archive_error + unit" where
  "validate_prefix prefix = validate_archive_path prefix"

fun first_duplicate :: "archive_entry list \<Rightarrow> string option" where
  "first_duplicate (a # b # rest) =
     (if ae_path a = ae_path b then Some (ae_path a) else first_duplicate (b # rest))"
| "first_duplicate _ = None"

definition canonicalize_entries :: "archive_entry list \<Rightarrow> archive_error + archive_entry list" where
  "canonicalize_entries entries =
     rbind (try_fold (\<lambda>entry _. validate_archive_path (ae_path entry)) entries ()) (\<lambda>_.
     let entries = sort_key ae_path entries in
     case first_duplicate entries of
       Some path \<Rightarrow> Inl (DuplicatePath path)
     | None \<Rightarrow>
         if \<not> list_ex (\<lambda>entry. ae_path entry = ''manifest.json'') entries
         then Inl MissingManifest else Inr entries)"

abbreviation valid_path :: "string \<Rightarrow> bool" where
  "valid_path path \<equiv> validate_archive_path path = Inr ()"

definition canonical :: "archive_entry list \<Rightarrow> bool" where
  "canonical entries \<longleftrightarrow> sorted_wrt (<) (map ae_path entries)
     \<and> list_all (\<lambda>entry. valid_path (ae_path entry)) entries"

lemma first_duplicate_sorted:
  "sorted (map ae_path es) \<Longrightarrow> first_duplicate es = None \<longleftrightarrow> distinct (map ae_path es)"
proof (induction es rule: first_duplicate.induct)
  case (1 a b rest)
  have "ae_path a \<notin> ae_path ` set rest" if "ae_path a \<noteq> ae_path b"
    using 1(2) that by force
  with 1 show ?case by auto
qed simp_all

lemma canonicalize_Inr_sort:
  "canonicalize_entries es = Inr cs \<longleftrightarrow>
     cs = sort_key ae_path es \<and> distinct (map ae_path es)
     \<and> list_all (\<lambda>e. valid_path (ae_path e)) es \<and> ''manifest.json'' \<in> ae_path ` set es"
proof -
  have d: "distinct (map ae_path (sort_key ae_path es)) \<longleftrightarrow> distinct (map ae_path es)"
    by (metis mset_eq_imp_distinct_iff mset_map mset_sort)
  have "sorted (map ae_path (sort_key ae_path es))" by simp
  from first_duplicate_sorted[OF this] show ?thesis unfolding d
    by (auto simp: canonicalize_entries_def result_simps try_fold_unit_Inr_iff
        Let_def list_all_iff list_ex_iff image_iff split: option.splits if_splits)
      (metis+)?
qed

lemma sorted_strictly_unique:
  assumes "mset cs = mset es" and "sorted_wrt (<) (map ae_path cs)"
  shows "cs = sort_key ae_path es"
proof -
  have s: "sorted (map ae_path cs)" "distinct (map ae_path cs)"
    using assms(2) by (simp_all add: strict_sorted_iff)
  have "set es = set cs" using assms(1) by (metis set_mset_mset)
  then have "inj_on ae_path (set es)" using s(2) by (simp add: distinct_map)
  then show ?thesis using sort_key_inj_key_eq[of es cs ae_path] assms(1) s(1) by simp
qed

text \<open>\<open>canonicalize_entries\<close> accepts exactly the lists of valid, pairwise different paths that
  name the manifest, and returns the same entries in the one strictly increasing order of
  paths: the result depends on the entries alone, whatever order they came in.\<close>

theorem canonicalize_exact:
  "canonicalize_entries es = Inr cs \<longleftrightarrow>
     mset cs = mset es \<and> canonical cs \<and> ''manifest.json'' \<in> ae_path ` set cs"
proof
  assume "canonicalize_entries es = Inr cs"
  then show "mset cs = mset es \<and> canonical cs \<and> ''manifest.json'' \<in> ae_path ` set cs"
    by (auto simp: canonicalize_Inr_sort canonical_def strict_sorted_iff list_all_iff)
      (metis mset_eq_imp_distinct_iff mset_map mset_sort)
next
  assume r: "mset cs = mset es \<and> canonical cs \<and> ''manifest.json'' \<in> ae_path ` set cs"
  then have "set cs = set es" "distinct (map ae_path es)"
    by (metis set_mset_mset) (use r in \<open>metis canonical_def mset_eq_imp_distinct_iff mset_map strict_sorted_iff\<close>)
  with r show "canonicalize_entries es = Inr cs"
    by (auto simp: canonicalize_Inr_sort canonical_def list_all_iff intro: sorted_strictly_unique)
qed

subsection \<open>Sinks: where bytes are written\<close>

text \<open>\<open>std::io::Write::write_all\<close>: \<open>write\<close> again and again until every byte is taken, an error
  ends it, and a sink that takes nothing is an error too.\<close>

type_synonym 'w write_fn = "'w \<Rightarrow> string \<Rightarrow> (io_error + nat) \<times> 'w"

definition write_zero_error :: io_error where
  "write_zero_error = \<lparr>io_kind = WriteZero, io_message = ''failed to write whole buffer''\<rparr>"

function write_all :: "'w write_fn \<Rightarrow> 'w \<Rightarrow> string \<Rightarrow> (io_error + unit) \<times> 'w" where
  "write_all write w buffer =
     (if buffer = [] then (Inr (), w)
      else case write w buffer of
        (Inl e, w) \<Rightarrow> (Inl e, w)
      | (Inr n, w) \<Rightarrow> if n = 0 then (Inl write_zero_error, w) else write_all write w (drop n buffer))"
  by pat_completeness auto
termination by (relation "measure (\<lambda>(write, w, buffer). length buffer)") auto

declare write_all.simps [simp del]

record 'w counting_writer =
  cw_inner :: 'w
  cw_written :: u64

definition counting_new :: "'w \<Rightarrow> 'w counting_writer" where
  "counting_new inner = \<lparr>cw_inner = inner, cw_written = 0\<rparr>"

definition counting_write :: "'w write_fn \<Rightarrow> 'w counting_writer write_fn" where
  "counting_write write w buffer =
     (case write (cw_inner w) buffer of
        (Inl e, inner) \<Rightarrow> (Inl e, w\<lparr>cw_inner := inner\<rparr>)
      | (Inr written, inner) \<Rightarrow>
          (Inr written, w\<lparr>cw_inner := inner, cw_written := cw_written w + of_nat written\<rparr>))"

datatype archive_write_fault = NoSpaceAfterBytes u64

record 'w faulting_writer =
  fw_inner :: 'w
  fw_fault :: "archive_write_fault option"
  fw_written :: u64

definition faulting_new :: "'w \<Rightarrow> archive_write_fault option \<Rightarrow> 'w faulting_writer" where
  "faulting_new inner fault = \<lparr>fw_inner = inner, fw_fault = fault, fw_written = 0\<rparr>"

definition no_space_error :: io_error where
  "no_space_error = \<lparr>io_kind = StorageFull,
     io_message = ''injected ENOSPC while writing evidence archive''\<rparr>"

definition faulting_write :: "'w write_fn \<Rightarrow> 'w faulting_writer write_fn" where
  "faulting_write write w buffer =
     (case (case fw_fault w of
              Some (NoSpaceAfterBytes limit) \<Rightarrow>
                if fw_written w \<ge> limit then Inl no_space_error
                else Inr (min (unat (limit - fw_written w)) (length buffer))
            | None \<Rightarrow> Inr (length buffer)) of
        Inl e \<Rightarrow> (Inl e, w)
      | Inr allowed \<Rightarrow>
          (case write (fw_inner w) (take allowed buffer) of
             (Inl e, inner) \<Rightarrow> (Inl e, w\<lparr>fw_inner := inner\<rparr>)
           | (Inr written, inner) \<Rightarrow>
               (Inr written, w\<lparr>fw_inner := inner, fw_written := fw_written w + of_nat written\<rparr>)))"

text \<open>\<open>impl Write for Vec<u8>\<close>, and a file written from its start: the bytes are appended.\<close>

definition vec_write :: "string write_fn" where
  "vec_write w buffer = (Inr (length buffer), w @ buffer)"

subsection \<open>The framed writer\<close>

definition u32_to_be_bytes :: "u32 \<Rightarrow> string" where
  "u32_to_be_bytes w = map (\<lambda>k. char_of (unat (drop_bit k w))) [24, 16, 8, 0]"

definition u32_from_be_bytes :: "string \<Rightarrow> u32" where
  "u32_from_be_bytes s = foldl (\<lambda>acc c. acc * 256 + of_nat (code c)) 0 s"

text \<open>A write stops with an error, or with the panic of \<open>u32::try_from(...).expect(...)\<close>.\<close>

datatype write_stop = Panicked | Failed io_error

fun and_write :: "(write_stop + unit) \<times> 'w \<Rightarrow> 'w write_fn \<Rightarrow> string \<Rightarrow> (write_stop + unit) \<times> 'w" where
  "and_write (Inl e, w) write buffer = (Inl e, w)"
| "and_write (Inr _, w) write buffer =
     (case write_all write w buffer of (Inl e, w) \<Rightarrow> (Inl (Failed e), w) | (Inr _, w) \<Rightarrow> (Inr (), w))"

definition encoded_header :: "(entry_header \<Rightarrow> string) \<Rightarrow> archive_entry \<Rightarrow> string" where
  "encoded_header to_vec entry =
     to_vec \<lparr>eh_path = ae_path entry, eh_bytes = of_nat (length (ae_contents entry))\<rparr> @ [CHR 0x0A]"

fun write_entries ::
  "(entry_header \<Rightarrow> string) \<Rightarrow> 'w write_fn \<Rightarrow> archive_entry list \<Rightarrow> (write_stop + unit) \<times> 'w
     \<Rightarrow> (write_stop + unit) \<times> 'w" where
  "write_entries to_vec write [] w = w"
| "write_entries to_vec write (entry # entries) w =
     (case w of (Inl e, w) \<Rightarrow> (Inl e, w)
      | (Inr _, w) \<Rightarrow>
        (let encoded = encoded_header to_vec entry in
         if length encoded \<ge> 2 ^ 32 then (Inl Panicked, w)
         else write_entries to_vec write entries
           (and_write (and_write (and_write (Inr (), w) write
              (u32_to_be_bytes (of_nat (length encoded)))) write encoded) write (ae_contents entry))))"

definition write_framed_with_magic ::
  "(entry_header \<Rightarrow> string) \<Rightarrow> 'w write_fn \<Rightarrow> archive_entry list \<Rightarrow> 'w \<Rightarrow> string
     \<Rightarrow> (write_stop + u64) \<times> 'w" where
  "write_framed_with_magic to_vec write entries out magic =
     (case write_entries to_vec (counting_write write) entries
        (and_write (Inr (), counting_new out) (counting_write write) magic) of
        (Inl e, writer) \<Rightarrow> (Inl e, cw_inner writer)
      | (Inr _, writer) \<Rightarrow> (Inr (cw_written writer), cw_inner writer))"

text \<open>What the frames are, whatever they are written to.\<close>

definition frame :: "(entry_header \<Rightarrow> string) \<Rightarrow> archive_entry \<Rightarrow> string" where
  "frame to_vec entry = u32_to_be_bytes (of_nat (length (encoded_header to_vec entry)))
     @ encoded_header to_vec entry @ ae_contents entry"

definition frames :: "(entry_header \<Rightarrow> string) \<Rightarrow> archive_entry list \<Rightarrow> string" where
  "frames to_vec entries = concat (map (frame to_vec) entries)"

lemma frames_Nil [simp]: "frames to_vec [] = []"
  by (simp add: frames_def)

lemma frames_Cons: "frames to_vec (e # es) = frame to_vec e @ frames to_vec es"
  by (simp add: frames_def)

definition headers_fit :: "nat \<Rightarrow> (entry_header \<Rightarrow> string) \<Rightarrow> archive_entry list \<Rightarrow> bool" where
  "headers_fit n to_vec = list_all (\<lambda>entry. length (encoded_header to_vec entry) < n)"

locale sink =
  fixes put :: "'w write_fn" and contents :: "'w \<Rightarrow> string"
  assumes put_taken: "put w buffer = (Inr n, w') \<Longrightarrow>
      n \<le> length buffer \<and> contents w' = contents w @ take n buffer"
    and put_refused: "put w buffer = (Inl e, w') \<Longrightarrow> contents w' = contents w"
begin

lemma write_all_done:
  "write_all put w buffer = (Inr u, w') \<Longrightarrow> contents w' = contents w @ buffer"
proof (induction buffer arbitrary: w rule: length_induct)
  case (1 buffer)
  show ?case
  proof (cases "buffer = []")
    case False
    with 1(2) obtain n v where p: "put w buffer = (Inr n, v)" "n \<noteq> 0"
      and r: "write_all put v (drop n buffer) = (Inr u, w')"
      by (auto simp: write_all.simps[of put w] split: prod.splits sum.splits if_splits)
    have "contents w' = contents v @ drop n buffer" using 1(1) False p(2) r by simp
    then show ?thesis using put_taken[OF p(1)] by simp
  qed (use 1 in \<open>simp add: write_all.simps\<close>)
qed

lemma write_all_stopped:
  "write_all put w buffer = (Inl e, w') \<Longrightarrow> \<exists>k. contents w' = contents w @ take k buffer"
proof (induction buffer arbitrary: w rule: length_induct)
  case (1 buffer)
  then have "buffer \<noteq> []" by (auto simp: write_all.simps)
  with 1(2) consider "put w buffer = (Inl e, w')" | "put w buffer = (Inr 0, w')"
    | n v where "put w buffer = (Inr n, v)" "n \<noteq> 0" "write_all put v (drop n buffer) = (Inl e, w')"
    by (auto simp: write_all.simps[of put w] split: prod.splits sum.splits if_splits)
  then show ?case
  proof cases
    case 1
    then show ?thesis using put_refused[OF 1] by (intro exI[of _ 0]) simp
  next
    case 2
    then show ?thesis using put_taken[OF 2] by (intro exI[of _ 0]) simp
  next
    case (3 n v)
    then obtain k where "contents w' = contents v @ take k (drop n buffer)"
      using 1(1) \<open>buffer \<noteq> []\<close> by fastforce
    then show ?thesis using put_taken[OF 3(1)] by (intro exI[of _ "n + k"]) (simp add: take_add)
  qed
qed

lemma write_all_keeps:
  "(\<And>w b. g (snd (put w b)) = g w) \<Longrightarrow> g (snd (write_all put w buffer)) = g w"
proof (induction buffer arbitrary: w rule: length_induct)
  case (1 buffer)
  have *: "g v = g w" if "put w buffer = (r, v)" for r v using 1(2)[of w buffer] that by simp
  then show ?case using 1
    by (subst write_all.simps) (auto split: prod.splits sum.splits)
qed

lemma and_write_done:
  "and_write r put buffer = (Inr u, w') \<Longrightarrow>
     \<exists>w. r = (Inr (), w) \<and> contents w' = contents w @ buffer"
  by (cases r; cases "fst r")
    (auto split: prod.splits sum.splits dest: write_all_done)

lemma write_entries_done:
  "write_entries to_vec put es r = (Inr u, w') \<Longrightarrow>
     \<exists>w. r = (Inr (), w) \<and> contents w' = contents w @ frames to_vec es
       \<and> headers_fit (2 ^ 32) to_vec es"
proof (induction es arbitrary: r)
  case Nil
  then show ?case by (simp add: headers_fit_def)
next
  case (Cons e es)
  then obtain w where r: "r = (Inr (), w)" and fits: "length (encoded_header to_vec e) < 2 ^ 32"
    and rest: "write_entries to_vec put es
      (and_write (and_write (and_write (Inr (), w) put
          (u32_to_be_bytes (of_nat (length (encoded_header to_vec e)))))
        put (encoded_header to_vec e)) put (ae_contents e)) = (Inr u, w')"
    by (auto simp: Let_def not_le split: prod.splits sum.splits if_splits)
  from Cons.IH[OF rest] obtain v where v: "and_write (and_write (and_write (Inr (), w) put
          (u32_to_be_bytes (of_nat (length (encoded_header to_vec e)))))
        put (encoded_header to_vec e)) put (ae_contents e) = (Inr (), v)"
    "contents w' = contents v @ frames to_vec es" "headers_fit (2 ^ 32) to_vec es" by blast
  then have "contents v = contents w @ frame to_vec e"
    by (auto simp: frame_def dest!: and_write_done simp del: and_write.simps)
  with r v fits show ?case by (simp add: frames_Cons headers_fit_def)
qed

text \<open>Counting and limiting a sink leaves a sink of the same bytes.\<close>

lemma counting_sink: "sink (counting_write put) (\<lambda>w. contents (cw_inner w))"
  by unfold_locales
    (auto simp: counting_write_def dest: put_taken put_refused split: prod.splits sum.splits)

lemma faulting_sink: "sink (faulting_write put) (\<lambda>w. contents (fw_inner w))"
proof
  fix w buffer n w' assume "faulting_write put w buffer = (Inr n, w')"
  then have "\<exists>k v. put (fw_inner w) (take k buffer) = (Inr n, v) \<and> fw_inner w' = v"
    by (cases "fw_fault w") (auto simp: faulting_write_def split: prod.splits sum.splits option.splits
        archive_write_fault.splits if_splits intro: exI[of _ "length buffer"])
  then obtain k v where k: "put (fw_inner w) (take k buffer) = (Inr n, v)" "fw_inner w' = v"
    by blast
  from k(2) put_taken[OF k(1)]
  show "n \<le> length buffer \<and> contents (fw_inner w') = contents (fw_inner w) @ take n buffer"
    by (auto simp: min_def split: if_splits)
next
  fix w buffer e w' assume "faulting_write put w buffer = (Inl e, w')"
  then show "contents (fw_inner w') = contents (fw_inner w)"
    by (auto simp: faulting_write_def dest: put_refused split: prod.splits sum.splits
        option.splits archive_write_fault.splits if_splits)
qed

end

interpretation vec: sink vec_write id
  by unfold_locales (auto simp: vec_write_def)

interpretation counted: sink "counting_write vec_write" "\<lambda>w. id (cw_inner w)"
  by (rule vec.counting_sink)

interpretation faulty: sink "faulting_write vec_write" "\<lambda>w. id (fw_inner w)"
  by (rule vec.faulting_sink)

subsection \<open>Framing writes the frames, and a full disk cuts the bytes short\<close>

lemma write_all_vec: "write_all vec_write w buffer = (Inr (), w @ buffer)"
  by (simp add: write_all.simps[of vec_write w buffer] vec_write_def write_all.simps[of _ _ "[]"])

lemma write_all_counted:
  "write_all (counting_write vec_write) w buffer
     = (Inr (), w\<lparr>cw_inner := cw_inner w @ buffer, cw_written := cw_written w + of_nat (length buffer)\<rparr>)"
  by (simp add: write_all.simps[of "counting_write vec_write" w buffer] counting_write_def
      vec_write_def write_all.simps[of _ _ "[]"])

definition writable :: "(entry_header \<Rightarrow> string) \<Rightarrow> archive_entry \<Rightarrow> bool" where
  "writable to_vec entry \<longleftrightarrow> length (encoded_header to_vec entry) < 2 ^ 32"

lemma write_entries_counted:
  "write_entries to_vec (counting_write vec_write) es (Inr (), w)
     = (if headers_fit (2 ^ 32) to_vec es then Inr () else Inl Panicked,
        let written = frames to_vec (takeWhile (writable to_vec) es)
        in w\<lparr>cw_inner := cw_inner w @ written, cw_written := cw_written w + of_nat (length written)\<rparr>)"
proof (induction es arbitrary: w)
  case (Cons e es)
  then show ?case
    by (simp add: Let_def writable_def headers_fit_def frames_Cons frame_def write_all_counted
        u32_to_be_bytes_def algebra_simps)
qed (simp add: headers_fit_def)

lemma all_writable: "headers_fit (2 ^ 32) to_vec es \<Longrightarrow> takeWhile (writable to_vec) es = es"
  by (induction es) (simp_all add: headers_fit_def writable_def)

lemma write_framed_bytes:
  "write_framed_with_magic to_vec vec_write es out magic
     = (let written = magic @ frames to_vec (takeWhile (writable to_vec) es)
        in (if headers_fit (2 ^ 32) to_vec es then Inr (of_nat (length written)) else Inl Panicked,
            out @ written))"
  by (simp add: write_framed_with_magic_def counting_new_def write_all_counted
      write_entries_counted Let_def)

text \<open>The framed writer's bytes are the magic and one frame per entry, in order, and the count
  it returns is their number; a header of \<open>2 ^ 32\<close> bytes or more is the one thing that stops
  it, after the frames before it.\<close>

theorem write_framed_exact:
  "write_framed_with_magic to_vec vec_write es out magic
     = (let written = magic @ frames to_vec (takeWhile (writable to_vec) es)
        in (if headers_fit (2 ^ 32) to_vec es then Inr (of_nat (length written)) else Inl Panicked,
            out @ written))"
  by (rule write_framed_bytes)

lemma no_space:
  "write_all (faulting_write vec_write) (faulting_new [] (Some (NoSpaceAfterBytes limit))) bytes
     = (let written = take (unat limit) bytes
        in (if length bytes \<le> unat limit then Inr () else Inl no_space_error,
            (faulting_new [] (Some (NoSpaceAfterBytes limit)))
              \<lparr>fw_inner := written, fw_written := of_nat (length written)\<rparr>))"
proof (cases "bytes = [] \<or> limit = 0")
  case False
  then have pos: "0 < limit" "0 < unat limit" "bytes \<noteq> []"
    by (auto simp: word_neq_0_conv unat_gt_0)
  moreover have "unat limit < 2 ^ LENGTH(64)" by (rule unsigned_less)
  ultimately show ?thesis
    by (simp add: write_all.simps faulting_write_def vec_write_def faulting_new_def Let_def min_def
        not_le word_le_nat_alt unat_of_nat)
qed (auto simp: write_all.simps faulting_write_def faulting_new_def Let_def)

text \<open>A disk that fills after \<open>limit\<close> bytes takes the compressed stream whole when it fits and
  otherwise exactly its first \<open>limit\<close> bytes, and then the write fails as out of space: no
  write is reported done short of its last byte.\<close>

theorem no_space_after_limit:
  "write_all (faulting_write vec_write) (faulting_new [] (Some (NoSpaceAfterBytes limit))) bytes
     = (let written = take (unat limit) bytes
        in (if length bytes \<le> unat limit then Inr () else Inl no_space_error,
            (faulting_new [] (Some (NoSpaceAfterBytes limit)))
              \<lparr>fw_inner := written, fw_written := of_nat (length written)\<rparr>))"
  by (rule no_space)

subsection \<open>The reader\<close>

text \<open>
  What a \<open>Read\<close> gives: the bytes left, then the end of the stream or an error (a corrupt or
  cut compressed stream). \<open>read_exact\<close> and \<open>take(n).read_to_end\<close> are the standard library's.
\<close>

record reader =
  rd_left :: string
  rd_end :: "io_error option"

definition unexpected_eof :: io_error where
  "unexpected_eof = \<lparr>io_kind = UnexpectedEof, io_message = ''failed to fill whole buffer''\<rparr>"

definition read_one :: "reader \<Rightarrow> io_error + string \<times> reader" where
  "read_one r = (case rd_left r of
      c # rest \<Rightarrow> Inr ([c], r\<lparr>rd_left := rest\<rparr>)
    | [] \<Rightarrow> (case rd_end r of Some e \<Rightarrow> Inl e | None \<Rightarrow> Inr ([], r)))"

definition read_exact :: "reader \<Rightarrow> nat \<Rightarrow> io_error + string \<times> reader" where
  "read_exact r n =
     (if n \<le> length (rd_left r) then Inr (take n (rd_left r), r\<lparr>rd_left := drop n (rd_left r)\<rparr>)
      else Inl (case rd_end r of Some e \<Rightarrow> e | None \<Rightarrow> unexpected_eof))"

definition take_read_to_end :: "reader \<Rightarrow> nat \<Rightarrow> io_error + string \<times> reader" where
  "take_read_to_end r n =
     (if length (rd_left r) < n \<and> rd_end r \<noteq> None then Inl (the (rd_end r))
      else Inr (take n (rd_left r), r\<lparr>rd_left := drop n (rd_left r)\<rparr>))"

definition read_exact_or_truncated :: "reader \<Rightarrow> nat \<Rightarrow> string \<Rightarrow> archive_error + string \<times> reader" where
  "read_exact_or_truncated r n part =
     (case read_exact r n of
        Inl e \<Rightarrow> Inl (if io_kind e = UnexpectedEof then Truncated part else Io e)
      | Inr read \<Rightarrow> Inr read)"

definition read_header ::
  "(entry_header \<Rightarrow> string) \<Rightarrow> (string \<Rightarrow> string + entry_header) \<Rightarrow> string \<Rightarrow> reader
     \<Rightarrow> archive_error + entry_header \<times> reader" where
  "read_header to_vec from_slice first r =
     rbind (read_exact_or_truncated r 3 ''header length'') (\<lambda>(rest, r).
     let header_size = unat (u32_from_be_bytes (first @ rest)) in
     rbind (ensure (header_size \<noteq> 0) (InvalidHeader ''empty header'')) (\<lambda>_.
     rbind (ensure (header_size \<le> MAX_ENTRY_HEADER_BYTES) (InvalidHeader ''header is too large'')) (\<lambda>_.
     rbind (read_exact_or_truncated r header_size ''header'') (\<lambda>(encoded_header, r).
     rbind (ensure (encoded_header \<noteq> [] \<and> last encoded_header = CHR 0x0A)
       (InvalidHeader ''header is not newline terminated'')) (\<lambda>_.
     rbind (case from_slice (butlast encoded_header) of Inl e \<Rightarrow> Inl (Json e) | Inr h \<Rightarrow> Inr h) (\<lambda>header.
     rbind (ensure (encoded_header = to_vec header @ [CHR 0x0A])
       (InvalidHeader ''header is not canonical JSON'')) (\<lambda>_.
     Inr (header, r))))))))"

definition check_order :: "string option \<Rightarrow> string \<Rightarrow> archive_error + unit" where
  "check_order previous path =
     (case previous of None \<Rightarrow> Inr ()
      | Some previous \<Rightarrow>
          if previous = path then Inl (DuplicatePath path)
          else if previous > path then Inl (UnsortedPath previous path)
          else Inr ())"

text \<open>A skipped payload goes through the buffer \<open>discarded\<close> piece by piece. The buffer has
  at least \<open>min(payload, 256 KiB)\<close> bytes, so it is never empty while bytes remain.\<close>

function skip_payload :: "nat \<Rightarrow> nat \<Rightarrow> reader \<Rightarrow> archive_error + reader" where
  "skip_payload discarded remaining r =
     (if remaining = 0 \<or> discarded = 0 then Inr r
      else let len = min remaining discarded in
        rbind (read_exact_or_truncated r len ''payload'') (\<lambda>(_, r).
          skip_payload discarded (remaining - len) r))"
  by pat_completeness auto
termination by (relation "measure (\<lambda>(discarded, remaining, r). remaining)") auto

declare skip_payload.simps [simp del]

type_synonym 's visit = "archive_entry \<Rightarrow> 's \<Rightarrow> archive_error + 's"

definition read_payload ::
  "(string \<Rightarrow> bool) \<Rightarrow> 's visit \<Rightarrow> entry_header \<Rightarrow> nat \<Rightarrow> reader \<Rightarrow> 's
     \<Rightarrow> archive_error + nat \<times> reader \<times> 's" where
  "read_payload retain visit header discarded r s =
     (let payload_size = unat (eh_bytes header) in
      if retain (eh_path header)
      then rbind (map_io (take_read_to_end r payload_size)) (\<lambda>(contents, r).
           rbind (ensure (length contents = payload_size) (Truncated ''payload'')) (\<lambda>_.
           rbind (visit \<lparr>ae_path = eh_path header, ae_contents = contents\<rparr> s) (\<lambda>s.
           Inr (discarded, r, s))))
      else let discarded = max discarded (min payload_size (256 * 1024)) in
           rbind (skip_payload discarded payload_size r) (\<lambda>r. Inr (discarded, r, s)))"

lemma read_one_consumes: "read_one r = Inr (c # cs, r') \<Longrightarrow> length (rd_left r') < length (rd_left r)"
  by (auto simp: read_one_def split: list.splits option.splits)

lemma read_exact_or_truncated_Inr [result_simps]:
  "read_exact_or_truncated r n part = Inr (bytes, r') \<longleftrightarrow>
     n \<le> length (rd_left r) \<and> bytes = take n (rd_left r) \<and> r' = r\<lparr>rd_left := drop n (rd_left r)\<rparr>"
  by (auto simp: read_exact_or_truncated_def read_exact_def)

lemma read_header_consumes:
  "read_header to_vec from_slice first r = Inr (h, r') \<Longrightarrow> length (rd_left r') \<le> length (rd_left r)"
  by (auto simp: read_header_def Let_def result_simps)

lemma skip_payload_consumes:
  "skip_payload d n r = Inr r' \<Longrightarrow> length (rd_left r') \<le> length (rd_left r)"
proof (induction d n r rule: skip_payload.induct)
  case (1 d n r)
  show ?case
  proof (cases "n = 0 \<or> d = 0")
    case False
    with 1(2) obtain b r'' where "read_exact_or_truncated r (min n d) ''payload'' = Inr (b, r'')"
      and rest: "skip_payload d (n - min n d) r'' = Inr r'"
      by (auto simp: skip_payload.simps[of d n r] Let_def result_simps)
    with 1(1)[OF False refl this(1) refl rest] show ?thesis by (auto simp: result_simps)
  qed (use 1 in \<open>simp add: skip_payload.simps\<close>)
qed

lemma read_payload_consumes:
  "read_payload retain visit h d r s = Inr (d', r', s') \<Longrightarrow> length (rd_left r') \<le> length (rd_left r)"
  by (auto simp: read_payload_def Let_def result_simps take_read_to_end_def
      dest: skip_payload_consumes split: if_splits)

function read_entries ::
  "(entry_header \<Rightarrow> string) \<Rightarrow> (string \<Rightarrow> string + entry_header) \<Rightarrow> (string \<Rightarrow> bool) \<Rightarrow> 's visit
     \<Rightarrow> string set \<Rightarrow> string option \<Rightarrow> nat \<Rightarrow> reader \<Rightarrow> 's \<Rightarrow> archive_error + string set \<times> reader \<times> 's" where
  "read_entries to_vec from_slice retain visit seen previous discarded r s =
     rbind (map_io (read_one r)) (\<lambda>(first, r1).
     if first = [] then Inr (seen, r1, s)
     else rbind (read_header to_vec from_slice first r1) (\<lambda>(header, r2).
       rbind (validate_archive_path (eh_path header)) (\<lambda>_.
       rbind (check_order previous (eh_path header)) (\<lambda>_.
       rbind (read_payload retain visit header discarded r2 s) (\<lambda>(discarded, r3, s).
       read_entries to_vec from_slice retain visit (insert (eh_path header) seen)
         (Some (eh_path header)) discarded r3 s)))))"
  by pat_completeness auto
termination
  apply (relation "measure (\<lambda>(t, f, re, v, seen, previous, discarded, r, s). length (rd_left r))")
   apply simp
  apply (auto simp: map_io_Inr_iff neq_Nil_conv dest!: read_one_consumes read_header_consumes read_payload_consumes)
  done

declare read_entries.simps [simp del]

subsection \<open>What the reader accepts\<close>

definition base256 :: "nat \<Rightarrow> nat \<Rightarrow> nat" where
  "base256 x y = x * 256 + y"

lemma base256_div: "y < 256 \<Longrightarrow> base256 x y div 256 = x"
  by (simp add: base256_def)

lemma base256_mod: "base256 x y mod 256 = y mod 256"
  by (simp add: base256_def)

lemma base256_split: "base256 (n div 256) (n mod 256) = n"
  by (simp add: base256_def)

lemma base256_less: "x < m \<Longrightarrow> y < 256 \<Longrightarrow> base256 x y < m * 256"
  by (simp add: base256_def)

lemma be_bytes_nat:
  "unat (u32_from_be_bytes [a, b, c, d])
     = base256 (base256 (base256 (code a) (code b)) (code c)) (code d)"
proof -
  let ?n = "base256 (base256 (base256 (code a) (code b)) (code c)) (code d)"
  have "u32_from_be_bytes [a, b, c, d] = of_nat ?n"
    by (simp add: u32_from_be_bytes_def base256_def)
  moreover have "?n < 256 * 256 * 256 * 256" by (intro base256_less code_less)
  ultimately show ?thesis by (simp add: unat_of_nat)
qed

lemma to_be_bytes_nat:
  "u32_to_be_bytes w =
     map char_of [unat w div 256 div 256 div 256, unat w div 256 div 256, unat w div 256, unat w]"
proof -
  have "unat (drop_bit k w) = unat w div 2 ^ k" for k
    by (simp only: unat_drop_bit_eq) (simp only: drop_bit_eq_div)
  from this[of 24] this[of 16] this[of 8] this[of 0]
  have "unat (drop_bit 24 w) = unat w div 256 div 256 div 256"
    "unat (drop_bit 16 w) = unat w div 256 div 256" "unat (drop_bit 8 w) = unat w div 256"
    "unat (drop_bit 0 w) = unat w"
    by (simp_all add: div_mult2_eq [symmetric])
  then show ?thesis by (simp add: u32_to_be_bytes_def)
qed

lemma from_to_be_bytes: "u32_from_be_bytes (u32_to_be_bytes w) = w"
proof -
  let ?n = "unat w"
  have "?n < 2 ^ LENGTH(32)" by (rule unsigned_less)
  then have n: "?n div 256 div 256 div 256 < 256"
    by (simp add: div_mult2_eq [symmetric] less_mult_imp_div_less)
  have "unat (u32_from_be_bytes (u32_to_be_bytes w)) =
      base256 (base256 (base256 (?n div 256 div 256 div 256) (?n div 256 div 256 mod 256))
        (?n div 256 mod 256)) (?n mod 256)"
    using n by (simp add: to_be_bytes_nat be_bytes_nat)
  then have "unat (u32_from_be_bytes (u32_to_be_bytes w)) = unat w"
    by (simp only: base256_split)
  then show ?thesis by (simp only: word_unat_eq_iff)
qed

lemma to_from_be_bytes:
  assumes "length s = 4"
  shows "u32_to_be_bytes (u32_from_be_bytes s) = s"
proof -
  obtain a b c d where s: "s = [a, b, c, d]"
    using assms by (auto simp: length_Suc_conv eval_nat_numeral)
  have "char_of (base256 k (code x)) = x" for k x
    using char_of_cong[of "base256 k (code x)" "code x"] by (simp add: base256_mod)
  then show ?thesis
    by (simp add: s to_be_bytes_nat be_bytes_nat base256_div)
qed

lemma u32_to_be_bytes_length [simp]: "length (u32_to_be_bytes w) = 4"
  by (simp add: u32_to_be_bytes_def)

lemma u32_to_be_bytes_Cons: "\<exists>c rest. u32_to_be_bytes w = c # rest \<and> length rest = 3"
  by (simp add: u32_to_be_bytes_def)

definition header_of :: "archive_entry \<Rightarrow> entry_header" where
  "header_of e = \<lparr>eh_path = ae_path e, eh_bytes = of_nat (length (ae_contents e))\<rparr>"

lemma encoded_header_header_of: "encoded_header to_vec e = to_vec (header_of e) @ [CHR 0x0A]"
  by (simp add: encoded_header_def header_of_def)

lemma read_header_iff:
  "read_header to_vec from_slice [c] r = Inr (h, r') \<longleftrightarrow>
     length (to_vec h) < MAX_ENTRY_HEADER_BYTES \<and> from_slice (to_vec h) = Inr h
     \<and> c # rd_left r = u32_to_be_bytes (of_nat (Suc (length (to_vec h)))) @ to_vec h @ CHR 0x0A # rd_left r'
     \<and> rd_end r' = rd_end r" (is "?L \<longleftrightarrow> ?R")
proof
  assume L: ?L
  let ?left = "drop 3 (rd_left r)" and ?size = "unat (u32_from_be_bytes (c # take 3 (rd_left r)))"
  let ?enc = "take ?size ?left"
  from L have three: "3 \<le> length (rd_left r)" and size: "?size \<le> MAX_ENTRY_HEADER_BYTES"
    and long: "?size \<le> length ?left" and enc: "?enc = to_vec h @ [CHR 0x0A]"
    and parsed: "from_slice (butlast ?enc) = Inr h" and r': "r' = r\<lparr>rd_left := drop ?size ?left\<rparr>"
    by (auto simp: read_header_def Let_def result_simps split: sum.splits)
  have "length ?enc = ?size" using long by simp
  then have len: "?size = Suc (length (to_vec h))" unfolding enc by simp
  have "c # take 3 (rd_left r) = u32_to_be_bytes (of_nat ?size)"
    using to_from_be_bytes[of "c # take 3 (rd_left r)"] three by simp
  moreover have "rd_left r = take 3 (rd_left r) @ ?enc @ drop ?size ?left"
    by (simp only: append_take_drop_id)
  ultimately have "c # rd_left r = u32_to_be_bytes (of_nat ?size) @ ?enc @ drop ?size ?left"
    by (metis append_Cons)
  then show ?R using len enc size r' parsed by simp
next
  assume r: ?R
  let ?n = "Suc (length (to_vec h))"
  have n: "unat (of_nat ?n :: u32) = ?n"
    using r by (simp add: MAX_ENTRY_HEADER_BYTES_def unat_of_nat del: of_nat_Suc)
  obtain rest where rest: "u32_to_be_bytes (of_nat ?n) = c # rest"
    using r u32_to_be_bytes_Cons[of "of_nat ?n"] by fastforce
  have "length rest = 3" using arg_cong[OF rest, of length] by simp
  moreover have "rd_left r = rest @ to_vec h @ CHR 0x0A # rd_left r'" using r rest by simp
  moreover have "unat (u32_from_be_bytes (c # rest)) = ?n"
    using from_to_be_bytes[of "of_nat ?n"] rest n by simp
  moreover have "r' = r\<lparr>rd_left := rd_left r'\<rparr>" using r by simp
  ultimately show ?L using r
    by (auto simp: read_header_def Let_def result_simps butlast_append split: sum.splits)
qed

lemma skip_payload_iff:
  "0 < d \<or> n = 0 \<Longrightarrow> skip_payload d n r = Inr r' \<longleftrightarrow>
     n \<le> length (rd_left r) \<and> r' = r\<lparr>rd_left := drop n (rd_left r)\<rparr>"
proof (induction d n r rule: skip_payload.induct)
  case (1 d n r)
  show ?case
  proof (cases "n = 0")
    case False
    with 1(2) have d: "0 < d" "\<not> (n = 0 \<or> d = 0)" by auto
    let ?l = "min n d"
    show ?thesis
    proof (cases "?l \<le> length (rd_left r)")
      case True
      let ?r = "r\<lparr>rd_left := drop ?l (rd_left r)\<rparr>"
      have read: "read_exact_or_truncated r ?l ''payload'' = Inr (take ?l (rd_left r), ?r)"
        using True by (simp add: result_simps)
      have "skip_payload d (n - ?l) ?r = Inr r' \<longleftrightarrow> n - ?l \<le> length (rd_left ?r)
          \<and> r' = ?r\<lparr>rd_left := drop (n - ?l) (rd_left ?r)\<rparr>"
        using 1(1)[OF d(2) refl read refl] d(1) by simp
      moreover have "skip_payload d n r = skip_payload d (n - ?l) ?r"
        using d(2) read by (simp add: skip_payload.simps[of d n r] Let_def)
      ultimately show ?thesis using True by auto
    next
      case no: False
      then have "\<exists>e. read_exact_or_truncated r ?l ''payload'' = Inl e"
        by (auto simp: read_exact_or_truncated_def read_exact_def)
      then show ?thesis using d(2) no by (auto simp: skip_payload.simps[of d n r] Let_def)
    qed
  qed (subst skip_payload.simps, auto)
qed

lemma read_payload_iff:
  "read_payload retain visit h d r s = Inr (d', r', s') \<longleftrightarrow>
     unat (eh_bytes h) \<le> length (rd_left r)
     \<and> r' = r\<lparr>rd_left := drop (unat (eh_bytes h)) (rd_left r)\<rparr>
     \<and> (if retain (eh_path h)
        then d' = d \<and> visit \<lparr>ae_path = eh_path h, ae_contents = take (unat (eh_bytes h)) (rd_left r)\<rparr> s = Inr s'
        else d' = max d (min (unat (eh_bytes h)) (256 * 1024)) \<and> s' = s)"
proof (cases "retain (eh_path h)")
  case True
  then show ?thesis
    by (auto simp: read_payload_def Let_def result_simps take_read_to_end_def split: if_splits)
next
  case False
  let ?n = "unat (eh_bytes h)"
  have "0 < max d (min ?n (256 * 1024)) \<or> ?n = 0" by (auto simp: less_max_iff_disj)
  from skip_payload_iff[OF this] False show ?thesis
    by (auto simp: read_payload_def Let_def result_simps)
qed

lemma check_order_iff: "check_order previous path = Inr () \<longleftrightarrow>
   (case previous of None \<Rightarrow> True | Some p \<Rightarrow> p < path)"
  by (auto simp: check_order_def split: option.splits)

text \<open>An entry the reader takes: a valid path, a header that fits and reads back, a payload
  whose length a \<open>u64\<close> holds.\<close>

definition readable ::
  "(entry_header \<Rightarrow> string) \<Rightarrow> (string \<Rightarrow> string + entry_header) \<Rightarrow> archive_entry \<Rightarrow> bool" where
  "readable to_vec from_slice e \<longleftrightarrow> valid_path (ae_path e)
     \<and> length (encoded_header to_vec e) \<le> MAX_ENTRY_HEADER_BYTES
     \<and> from_slice (to_vec (header_of e)) = Inr (header_of e)
     \<and> length (ae_contents e) < 2 ^ 64"

fun after :: "string option \<Rightarrow> string list \<Rightarrow> bool" where
  "after None paths \<longleftrightarrow> sorted_wrt (<) paths"
| "after (Some p) paths \<longleftrightarrow> sorted_wrt (<) (p # paths)"

lemma after_Cons: "after previous (p # ps) \<longleftrightarrow> check_order previous p = Inr () \<and> after (Some p) ps"
  by (cases previous) (auto simp: check_order_iff)

lemma frame_nonempty: "\<exists>c rest. frame to_vec e = c # rest"
  by (simp add: frame_def u32_to_be_bytes_def)

text \<open>One turn of the loop takes one frame.\<close>

lemma read_frame_iff:
  assumes left: "rd_left r = c # rest"
  shows "read_header to_vec from_slice [c] (r\<lparr>rd_left := rest\<rparr>) = Inr (h, r2)
      \<and> validate_archive_path (eh_path h) = Inr ()
      \<and> read_payload retain visit h d r2 s = Inr (d', r3, s') \<longleftrightarrow>
    (\<exists>e. h = header_of e \<and> readable to_vec from_slice e \<and> rd_left r = frame to_vec e @ rd_left r3
       \<and> r2 = r\<lparr>rd_left := ae_contents e @ rd_left r3\<rparr> \<and> rd_end r3 = rd_end r
       \<and> (if retain (ae_path e) then d' = d \<and> visit e s = Inr s'
          else d' = max d (min (length (ae_contents e)) (256 * 1024)) \<and> s' = s))"
    (is "?L \<longleftrightarrow> ?R")
proof
  assume L: ?L
  let ?n = "unat (eh_bytes h)"
  let ?e = "\<lparr>ae_path = eh_path h, ae_contents = take ?n (rd_left r2)\<rparr>"
  from L have n: "?n \<le> length (rd_left r2)" by (simp add: read_payload_iff)
  have h: "h = header_of ?e" using n by (cases h) (simp add: header_of_def)
  have small: "?n < 2 ^ LENGTH(64)" by (rule unsigned_less)
  have "rd_left r2 = ae_contents ?e @ rd_left r3" "rd_end r3 = rd_end r2"
    using L by (simp_all add: read_payload_iff)
  moreover have "r2 = r\<lparr>rd_left := rd_left r2\<rparr>" using L by (cases r2) (simp add: read_header_iff)
  moreover have "readable to_vec from_slice ?e"
    using L n small h unfolding readable_def encoded_header_header_of h[symmetric]
    by (simp add: read_header_iff min_def)
  moreover have "rd_left r = frame to_vec ?e @ rd_left r3"
    using L left calculation(1) unfolding frame_def encoded_header_header_of h[symmetric]
    by (simp add: read_header_iff)
  ultimately show ?R using L h
    by (intro exI[of _ ?e]) (auto simp: read_payload_iff min_def read_header_iff)
next
  assume ?R
  then obtain e where e: "h = header_of e" "readable to_vec from_slice e"
    "rd_left r = frame to_vec e @ rd_left r3" "r2 = r\<lparr>rd_left := ae_contents e @ rd_left r3\<rparr>"
    "rd_end r3 = rd_end r"
    and after: "if retain (ae_path e) then d' = d \<and> visit e s = Inr s'
          else d' = max d (min (length (ae_contents e)) (256 * 1024)) \<and> s' = s" by blast
  have n: "unat (eh_bytes h) = length (ae_contents e)"
    using e(1,2) by (simp add: header_of_def readable_def unat_of_nat)
  have "r3 = r2\<lparr>rd_left := drop (unat (eh_bytes h)) (rd_left r2)\<rparr>"
    using e(4,5) n by (cases r3) simp
  with after n have "read_payload retain visit h d r2 s = Inr (d', r3, s')"
    using e(1,4) by (cases e) (auto simp: read_payload_iff header_of_def)
  moreover have "valid_path (eh_path h)" using e(1,2) by (simp add: readable_def header_of_def)
  moreover have "read_header to_vec from_slice [c] (r\<lparr>rd_left := rest\<rparr>) = Inr (h, r2)"
    using e left by (simp add: read_header_iff readable_def frame_def encoded_header_header_of)
  ultimately show ?L by simp
qed

lemma frames_eq_Nil [simp]: "frames to_vec es = [] \<longleftrightarrow> es = []"
  by (cases es) (simp_all add: frames_Cons frame_def u32_to_be_bytes_def)

lemma read_entries_end:
  assumes "rd_left r = []"
  shows "read_entries to_vec from_slice retain visit seen previous d r s = Inr (seen', r', s')
    \<longleftrightarrow> rd_end r = None \<and> r' = r \<and> seen' = seen \<and> s' = s"
  using assms
  by (subst read_entries.simps) (auto simp: read_one_def map_io_def split: option.splits)

lemma read_entries_turn:
  assumes left: "rd_left r = c # rest"
  shows "read_entries to_vec from_slice retain visit seen previous d r s = Inr (seen', r', s') \<longleftrightarrow>
    (\<exists>h d' r2 r3 u. (read_header to_vec from_slice [c] (r\<lparr>rd_left := rest\<rparr>) = Inr (h, r2)
      \<and> validate_archive_path (eh_path h) = Inr ()
      \<and> read_payload retain visit h d r2 s = Inr (d', r3, u))
      \<and> check_order previous (eh_path h) = Inr ()
      \<and> read_entries to_vec from_slice retain visit (insert (eh_path h) seen) (Some (eh_path h)) d' r3 u
          = Inr (seen', r', s'))"
proof -
  have "map_io (read_one r) = Inr ([c], r\<lparr>rd_left := rest\<rparr>)"
    using left by (simp add: read_one_def map_io_def)
  then show ?thesis
    by (subst read_entries.simps) (simp add: result_simps split: prod.splits, blast)
qed

lemma read_entries_iff:
  "read_entries to_vec from_slice retain visit seen previous d r s = Inr (seen', r', s') \<longleftrightarrow>
     rd_end r = None \<and> r' = r\<lparr>rd_left := []\<rparr>
     \<and> (\<exists>es. rd_left r = frames to_vec es \<and> list_all (readable to_vec from_slice) es
          \<and> after previous (map ae_path es) \<and> seen' = seen \<union> ae_path ` set es
          \<and> try_fold visit (filter (\<lambda>e. retain (ae_path e)) es) s = Inr s')"
proof (induction "length (rd_left r)" arbitrary: seen previous d r s rule: less_induct)
  case less
  show ?case
  proof (cases "rd_left r")
    case Nil
    have "rd_left r = frames to_vec es \<longleftrightarrow> es = []" for es
      using Nil by (metis frames_eq_Nil)
    moreover have "after previous []" by (cases previous) simp_all
    moreover have "r\<lparr>rd_left := []\<rparr> = r" using Nil by (cases r) simp
    ultimately show ?thesis by (simp add: read_entries_end[OF Nil]) blast
  next
    case (Cons c rest)
    let ?kept = "filter (\<lambda>e. retain (ae_path e))"
    show ?thesis
    proof
      assume "read_entries to_vec from_slice retain visit seen previous d r s = Inr (seen', r', s')"
      then obtain e d' r3 u where e: "readable to_vec from_slice e"
        "rd_left r = frame to_vec e @ rd_left r3" "rd_end r3 = rd_end r"
        and u: "if retain (ae_path e) then d' = d \<and> visit e s = Inr u
           else d' = max d (min (length (ae_contents e)) (256 * 1024)) \<and> u = s"
        and order: "check_order previous (ae_path e) = Inr ()"
        and rest: "read_entries to_vec from_slice retain visit (insert (ae_path e) seen)
          (Some (ae_path e)) d' r3 u = Inr (seen', r', s')"
        unfolding read_entries_turn[OF Cons] read_frame_iff[OF Cons] by (auto simp: header_of_def)
      have "length (rd_left r3) < length (rd_left r)" using e(2) by (simp add: frame_def)
      from rest[unfolded less[OF this]] obtain es where es: "rd_end r3 = None"
        "r' = r3\<lparr>rd_left := []\<rparr>" "rd_left r3 = frames to_vec es"
        "list_all (readable to_vec from_slice) es" "after (Some (ae_path e)) (map ae_path es)"
        "seen' = insert (ae_path e) seen \<union> ae_path ` set es"
        "try_fold visit (?kept es) u = Inr s'" by blast
      have "try_fold visit (?kept (e # es)) s = Inr s'" using u es(7) by (auto split: if_splits)
      moreover have "after previous (map ae_path (e # es))"
        using order es(5) by (simp only: list.map after_Cons)
      moreover have "r' = r\<lparr>rd_left := []\<rparr>" using es(2) e(3) by simp
      ultimately show "rd_end r = None \<and> r' = r\<lparr>rd_left := []\<rparr>
          \<and> (\<exists>es. rd_left r = frames to_vec es \<and> list_all (readable to_vec from_slice) es
          \<and> after previous (map ae_path es) \<and> seen' = seen \<union> ae_path ` set es
          \<and> try_fold visit (?kept es) s = Inr s')"
        using e es by (intro conjI exI[of _ "e # es"]) (simp_all add: frames_Cons)
    next
      assume "rd_end r = None \<and> r' = r\<lparr>rd_left := []\<rparr>
          \<and> (\<exists>es. rd_left r = frames to_vec es \<and> list_all (readable to_vec from_slice) es
          \<and> after previous (map ae_path es) \<and> seen' = seen \<union> ae_path ` set es
          \<and> try_fold visit (?kept es) s = Inr s')"
      then obtain all where r: "rd_end r = None" "r' = r\<lparr>rd_left := []\<rparr>" "rd_left r = frames to_vec all"
        and all: "list_all (readable to_vec from_slice) all" "after previous (map ae_path all)"
          "seen' = seen \<union> ae_path ` set all" "try_fold visit (?kept all) s = Inr s'" by blast
      obtain e es where es: "all = e # es" using r(3) Cons by (cases all) auto
      let ?r3 = "r\<lparr>rd_left := frames to_vec es\<rparr>"
      define d' where "d' = (if retain (ae_path e) then d
        else max d (min (length (ae_contents e)) (256 * 1024)))"
      obtain u where u: "if retain (ae_path e) then visit e s = Inr u else u = s"
        and rest: "try_fold visit (?kept es) u = Inr s'"
        using all(4) by (auto simp: es result_simps split: if_splits)
      have order: "check_order previous (ae_path e) = Inr ()" "after (Some (ae_path e)) (map ae_path es)"
        using all(2) unfolding es list.map after_Cons by simp_all
      have "length (rd_left ?r3) < length (rd_left r)" using r(3) es by (simp add: frames_Cons frame_def)
      from less[OF this] have "read_entries to_vec from_slice retain visit (insert (ae_path e) seen)
          (Some (ae_path e)) d' ?r3 u = Inr (seen', r', s')"
        using r all es order rest by auto
      moreover have "readable to_vec from_slice e" using all(1) es by simp
      ultimately show "read_entries to_vec from_slice retain visit seen previous d r s = Inr (seen', r', s')"
        unfolding read_entries_turn[OF Cons] read_frame_iff[OF Cons]
        using u r(3) es order(1)
        by (intro exI[of _ "header_of e"] exI[of _ d'] exI[of _ ?r3] exI[of _ u]
            exI[of _ "r\<lparr>rd_left := ae_contents e @ frames to_vec es\<rparr>"] conjI exI[of _ e])
          (auto simp: d'_def frames_Cons header_of_def)
    qed
  qed
qed

definition read_framed_entries ::
  "(entry_header \<Rightarrow> string) \<Rightarrow> (string \<Rightarrow> string + entry_header) \<Rightarrow> (string \<Rightarrow> bool) \<Rightarrow> 's visit
     \<Rightarrow> reader \<Rightarrow> 's \<Rightarrow> archive_error + reader \<times> 's" where
  "read_framed_entries to_vec from_slice retain visit r s =
     rbind (read_entries to_vec from_slice retain visit {} None 0 r s) (\<lambda>(seen, r, s).
     rbind (ensure (''manifest.json'' \<in> seen) MissingManifest) (\<lambda>_.
     rbind (ensure (''frontend.json'' \<in> seen) MissingFrontend) (\<lambda>_.
     rbind (ensure (''coverage-model.json'' \<in> seen) MissingCoverageModel) (\<lambda>_.
     Inr (r, s)))))"

definition schema_version_from_magic :: "string \<Rightarrow> archive_error + u32" where
  "schema_version_from_magic magic =
     (if magic = EVIDENCE_ARCHIVE_MAGIC then Inr EVIDENCE_ARCHIVE_SCHEMA_VERSION
      else Inl InvalidMagic)"

text \<open>\<open>flate2\<close> and \<open>sha2\<close> are not part of the repository. \<open>gunzip\<close> gives what the decoder of
  one gzip member yields of a file's bytes, and the bytes after the member; \<open>sha256\<close> is the
  hash of all of them. \<open>opened\<close> is what opening and reading the file gave.\<close>

record archive_digest =
  ad_sha256 :: string
  ad_bytes :: u64

definition read_archive_each ::
  "(string \<Rightarrow> reader \<times> string) \<Rightarrow> (string \<Rightarrow> string) \<Rightarrow> (entry_header \<Rightarrow> string)
     \<Rightarrow> (string \<Rightarrow> string + entry_header) \<Rightarrow> io_error + string \<Rightarrow> (string \<Rightarrow> bool) \<Rightarrow> 's visit \<Rightarrow> 's
     \<Rightarrow> archive_error + archive_digest \<times> 's" where
  "read_archive_each gunzip sha256 to_vec from_slice opened retain visit s =
     rbind (map_io opened) (\<lambda>file.
     let (decoder, trailing) = gunzip file in
     rbind (read_exact_or_truncated decoder (length EVIDENCE_ARCHIVE_MAGIC) ''magic'') (\<lambda>(magic, r).
     rbind (schema_version_from_magic magic) (\<lambda>_.
     rbind (read_framed_entries to_vec from_slice retain visit r s) (\<lambda>(r, s).
     rbind (ensure (trailing = []) TrailingCompressedData) (\<lambda>_.
     Inr (\<lparr>ad_sha256 = sha256 file, ad_bytes = of_nat (length file)\<rparr>, s))))))"

definition push_entry :: "archive_entry list visit" where
  "push_entry e entries = Inr (entries @ [e])"

definition read_archive_selected ::
  "(string \<Rightarrow> reader \<times> string) \<Rightarrow> (string \<Rightarrow> string) \<Rightarrow> (entry_header \<Rightarrow> string)
     \<Rightarrow> (string \<Rightarrow> string + entry_header) \<Rightarrow> io_error + string \<Rightarrow> (string \<Rightarrow> bool)
     \<Rightarrow> archive_error + archive_entry list" where
  "read_archive_selected gunzip sha256 to_vec from_slice opened retain =
     rbind (read_archive_each gunzip sha256 to_vec from_slice opened retain push_entry [])
       (\<lambda>(_, entries). Inr entries)"

definition read_archive ::
  "(string \<Rightarrow> reader \<times> string) \<Rightarrow> (string \<Rightarrow> string) \<Rightarrow> (entry_header \<Rightarrow> string)
     \<Rightarrow> (string \<Rightarrow> string + entry_header) \<Rightarrow> io_error + string \<Rightarrow> archive_error + archive_entry list" where
  "read_archive gunzip sha256 to_vec from_slice opened =
     read_archive_selected gunzip sha256 to_vec from_slice opened (\<lambda>_. True)"

definition read_archive_schema_version ::
  "(string \<Rightarrow> reader \<times> string) \<Rightarrow> io_error + string \<Rightarrow> archive_error + u32" where
  "read_archive_schema_version gunzip opened =
     rbind (map_io opened) (\<lambda>file.
     rbind (read_exact_or_truncated (fst (gunzip file)) (length EVIDENCE_ARCHIVE_MAGIC) ''magic'')
       (\<lambda>(magic, _). schema_version_from_magic magic))"

definition required_paths :: "string set" where
  "required_paths = {''manifest.json'', ''frontend.json'', ''coverage-model.json''}"

lemma try_fold_push: "try_fold push_entry xs acc = Inr (acc @ xs)"
  by (induction xs arbitrary: acc) (simp_all add: push_entry_def)

lemma readable_valid: "list_all (readable to_vec from_slice) es \<Longrightarrow> list_all (\<lambda>e. valid_path (ae_path e)) es"
  by (auto simp: list_all_iff readable_def)

lemma read_framed_entries_iff:
  "read_framed_entries to_vec from_slice retain visit r s = Inr (r', s') \<longleftrightarrow>
     rd_end r = None \<and> r' = r\<lparr>rd_left := []\<rparr>
     \<and> (\<exists>es. rd_left r = frames to_vec es \<and> list_all (readable to_vec from_slice) es
          \<and> canonical es \<and> required_paths \<subseteq> ae_path ` set es
          \<and> try_fold visit (filter (\<lambda>e. retain (ae_path e)) es) s = Inr s')"
  by (auto simp: read_framed_entries_def result_simps read_entries_iff canonical_def required_paths_def
      readable_valid)

definition accepted ::
  "(string \<Rightarrow> reader \<times> string) \<Rightarrow> (entry_header \<Rightarrow> string) \<Rightarrow> (string \<Rightarrow> string + entry_header)
     \<Rightarrow> string \<Rightarrow> archive_entry list \<Rightarrow> bool" where
  "accepted gunzip to_vec from_slice file es \<longleftrightarrow>
     gunzip file = (\<lparr>rd_left = EVIDENCE_ARCHIVE_MAGIC @ frames to_vec es, rd_end = None\<rparr>, [])
     \<and> list_all (readable to_vec from_slice) es \<and> canonical es \<and> required_paths \<subseteq> ae_path ` set es"

lemma read_archive_each_iff:
  "read_archive_each gunzip sha256 to_vec from_slice opened retain visit s = Inr (digest, s') \<longleftrightarrow>
     (\<exists>file es. opened = Inr file \<and> accepted gunzip to_vec from_slice file es
        \<and> try_fold visit (filter (\<lambda>e. retain (ae_path e)) es) s = Inr s'
        \<and> digest = \<lparr>ad_sha256 = sha256 file, ad_bytes = of_nat (length file)\<rparr>)"
proof -
  have magic: "n = length m \<Longrightarrow> (n \<le> length left \<and> take n left = m \<and> P (drop n left)) \<longleftrightarrow>
      (\<exists>tl. left = m @ tl \<and> P tl)" for n m and left :: string and P
    by (auto simp: append_eq_conv_conj intro: exI[of _ "drop n left"])
      (metis append_take_drop_id)
  show ?thesis
  proof (cases opened)
    case (Inr bytes)
    obtain r trailing where g: "gunzip bytes = (r, trailing)" by fastforce
    let ?P = "\<lambda>tl. rd_end r = None \<and> trailing = [] \<and> (\<exists>es. tl = frames to_vec es
        \<and> list_all (readable to_vec from_slice) es \<and> canonical es
        \<and> required_paths \<subseteq> ae_path ` set es \<and> try_fold visit (filter (\<lambda>e. retain (ae_path e)) es) s = Inr s')
        \<and> digest = \<lparr>ad_sha256 = sha256 bytes, ad_bytes = of_nat (length bytes)\<rparr>"
    have "read_archive_each gunzip sha256 to_vec from_slice opened retain visit s = Inr (digest, s') \<longleftrightarrow>
      length EVIDENCE_ARCHIVE_MAGIC \<le> length (rd_left r)
        \<and> take (length EVIDENCE_ARCHIVE_MAGIC) (rd_left r) = EVIDENCE_ARCHIVE_MAGIC
        \<and> ?P (drop (length EVIDENCE_ARCHIVE_MAGIC) (rd_left r))"
      by (auto simp: read_archive_each_def Inr g map_io_def result_simps
          schema_version_from_magic_def read_framed_entries_iff)
    also have "\<dots> \<longleftrightarrow> (\<exists>es. accepted gunzip to_vec from_slice bytes es
        \<and> try_fold visit (filter (\<lambda>e. retain (ae_path e)) es) s = Inr s'
        \<and> digest = \<lparr>ad_sha256 = sha256 bytes, ad_bytes = of_nat (length bytes)\<rparr>)"
      unfolding magic[OF refl, where P = ?P] unfolding accepted_def g by (cases r) auto
    finally show ?thesis by (simp add: Inr)
  qed (simp add: read_archive_each_def map_io_def)
qed

lemma read_archive_selected_iff:
  "read_archive_selected gunzip sha256 to_vec from_slice opened retain = Inr kept \<longleftrightarrow>
     (\<exists>file es. opened = Inr file \<and> accepted gunzip to_vec from_slice file es
        \<and> kept = filter (\<lambda>e. retain (ae_path e)) es)"
  by (auto simp: read_archive_selected_def result_simps read_archive_each_iff try_fold_push)

text \<open>C18: The reader accepts a file exactly when it decompresses, as one whole gzip member and
  nothing after it, to the magic followed by the frames of the entries it returns, and those
  are valid, strictly sorted by path, small enough in their headers, and name the manifest,
  the frontend and the coverage model. Nothing else is read as an archive, so what is accepted
  is byte for byte what the writer frames.\<close>

theorem read_archive_exact:
  "read_archive gunzip sha256 to_vec from_slice (Inr file) = Inr es \<longleftrightarrow>
     gunzip file = (\<lparr>rd_left = EVIDENCE_ARCHIVE_MAGIC @ frames to_vec es, rd_end = None\<rparr>, [])
     \<and> list_all (readable to_vec from_slice) es \<and> canonical es \<and> required_paths \<subseteq> ae_path ` set es"
  by (auto simp: read_archive_def read_archive_selected_iff accepted_def)

text \<open>Retaining some entries only changes what is returned, never what is checked: a selective
  reading succeeds exactly when a whole reading does, and gives the whole reading's entries of
  the paths retained.\<close>

theorem read_selected_filters:
  "read_archive_selected gunzip sha256 to_vec from_slice opened retain = Inr kept \<longleftrightarrow>
     (\<exists>es. read_archive gunzip sha256 to_vec from_slice opened = Inr es
        \<and> kept = filter (\<lambda>e. retain (ae_path e)) es)"
  by (auto simp: read_archive_def read_archive_selected_iff)

end
