(* ===== verification/ArchivePublish.thy ===== *)
theory ArchivePublish
  imports EvidenceArchive
begin

section \<open>Publishing an archive (evidence\_archive.rs, write\_archive)\<close>

text \<open>
  From entries to a file under its final name: the canonical entries are framed, compressed
  into a new temporary file, synced and renamed. The theorems say that the destination is
  replaced whole or not at all, that the search for a temporary name ends, and that what is
  published reads back.
\<close>

text \<open>
  The files are a map from paths to contents. A call on them may fail for a reason of its own,
  which \<open>fails\<close> says; \<open>put\<close> is how an open file takes bytes. \<open>gzip\<close> is the compressor's
  whole output for an input: it is written out as it grows, but an error in writing any of it
  ends the attempt the same way, so it is written once here.
\<close>

datatype fs_call = CreateDirAll | OpenTemporary | SyncAll | FileMetadata | Rename | RemoveFile

record archive_world =
  aw_files :: "string \<Rightarrow> string option"
  aw_sequence :: u64

record archive_destination =
  dest_parent :: "string option"
  dest_name :: "string option"

record archive_metadata =
  am_schema_version :: u32
  am_format :: string
  am_file :: string
  am_files :: nat
  am_uncompressed_bytes :: u64
  am_compressed_bytes :: u64

definition path_join :: "string \<Rightarrow> string \<Rightarrow> string" where
  "path_join parent name = (if parent = [] \<or> ends_with ''/'' parent then parent @ name
     else parent @ ''/'' @ name)"

definition dest_path :: "archive_destination \<Rightarrow> string" where
  "dest_path d = path_join (case dest_parent d of Some p \<Rightarrow> p | None \<Rightarrow> [])
     (case dest_name d of Some n \<Rightarrow> n | None \<Rightarrow> [])"

definition temporary_path ::
  "nat \<Rightarrow> archive_destination \<Rightarrow> u64 \<Rightarrow> archive_error + string" where
  "temporary_path pid d sequence =
     rbind (ok_or (dest_name d) (InvalidPath (dest_path d))) (\<lambda>name.
     Inr (path_join (case dest_parent d of Some p \<Rightarrow> p | None \<Rightarrow> [])
       (''.'' @ name @ ''.'' @ decimal pid @ ''.'' @ decimal (unat sequence) @ ''.tmp'')))"

text \<open>The loop that looks for a free temporary name, at most \<open>fuel\<close> names long: \<open>None\<close> is a loop
  still looking. \<open>temporary_found\<close> says how much fuel is enough.\<close>

fun open_temporary ::
  "(fs_call \<Rightarrow> io_error option) \<Rightarrow> nat \<Rightarrow> archive_destination \<Rightarrow> nat \<Rightarrow> archive_world
     \<Rightarrow> ((archive_error + string) \<times> archive_world) option" where
  "open_temporary fails pid d 0 world = None"
| "open_temporary fails pid d (Suc fuel) world =
     (let sequence = aw_sequence world;
          world = world\<lparr>aw_sequence := sequence + 1\<rparr>
      in case temporary_path pid d sequence of
        Inl e \<Rightarrow> Some (Inl e, world)
      | Inr temporary \<Rightarrow>
          (case fails OpenTemporary of
             Some e \<Rightarrow> if io_kind e = AlreadyExists then open_temporary fails pid d fuel world
                 else Some (Inl (Io e), world)
           | None \<Rightarrow> if aw_files world temporary \<noteq> None then open_temporary fails pid d fuel world
                 else Some (Inr temporary, world\<lparr>aw_files := (aw_files world)(temporary \<mapsto> [])\<rparr>)))"

definition checked :: "(fs_call \<Rightarrow> io_error option) \<Rightarrow> fs_call \<Rightarrow> archive_error + unit" where
  "checked fails c = (case fails c of Some e \<Rightarrow> Inl (Io e) | None \<Rightarrow> Inr ())"

text \<open>The closure that fills the temporary file and renames it; \<open>None\<close> is its panic.\<close>

definition fill_and_rename ::
  "(fs_call \<Rightarrow> io_error option) \<Rightarrow> string write_fn \<Rightarrow> (string \<Rightarrow> string) \<Rightarrow> (entry_header \<Rightarrow> string)
     \<Rightarrow> archive_entry list \<Rightarrow> string \<Rightarrow> string \<Rightarrow> u32 \<Rightarrow> string \<Rightarrow> archive_write_fault option
     \<Rightarrow> archive_world \<Rightarrow> ((archive_error + archive_metadata) \<times> archive_world) option" where
  "fill_and_rename fails put gzip to_vec entries temporary destination schema_version magic fault world =
     (case write_framed_with_magic to_vec vec_write entries [] magic of
        (Inl Panicked, _) \<Rightarrow> None
      | (Inl (Failed e), _) \<Rightarrow> Some (Inl (Io e), world)
      | (Inr uncompressed_bytes, framed) \<Rightarrow>
          (let (written, faulting) = write_all (faulting_write put) (faulting_new [] fault) (gzip framed);
               contents = fw_inner faulting;
               world = world\<lparr>aw_files := (aw_files world)(temporary \<mapsto> contents)\<rparr>
           in Some
             (case rbind (map_io written) (\<lambda>_. rbind (checked fails SyncAll) (\<lambda>_.
                rbind (checked fails FileMetadata) (\<lambda>_. checked fails Rename))) of
                Inl e \<Rightarrow> (Inl e, world)
              | Inr _ \<Rightarrow>
                 (Inr \<lparr>am_schema_version = schema_version, am_format = ''framed+gzip'',
                     am_file = ''evidence.raw.gz'', am_files = length entries,
                     am_uncompressed_bytes = uncompressed_bytes,
                     am_compressed_bytes = of_nat (length contents)\<rparr>,
                  world\<lparr>aw_files := (aw_files world)(temporary := None, destination \<mapsto> contents)\<rparr>))))"

definition write_archive_version ::
  "(fs_call \<Rightarrow> io_error option) \<Rightarrow> string write_fn \<Rightarrow> (string \<Rightarrow> string) \<Rightarrow> (entry_header \<Rightarrow> string)
     \<Rightarrow> nat \<Rightarrow> nat \<Rightarrow> archive_entry list \<Rightarrow> archive_destination \<Rightarrow> u32 \<Rightarrow> string
     \<Rightarrow> archive_write_fault option \<Rightarrow> archive_world
     \<Rightarrow> ((archive_error + archive_metadata) \<times> archive_world) option" where
  "write_archive_version fails put gzip to_vec pid fuel entries d schema_version magic fault world =
     (case rbind (canonicalize_entries entries) (\<lambda>entries.
           rbind (ok_or (dest_parent d) (InvalidPath (dest_path d))) (\<lambda>parent.
           rbind (checked fails CreateDirAll) (\<lambda>_. Inr entries))) of
        Inl e \<Rightarrow> Some (Inl e, world)
      | Inr entries \<Rightarrow>
          (case open_temporary fails pid d fuel world of
             None \<Rightarrow> None
           | Some (Inl e, world) \<Rightarrow> Some (Inl e, world)
           | Some (Inr temporary, world) \<Rightarrow>
               (case fill_and_rename fails put gzip to_vec entries temporary (dest_path d)
                       schema_version magic fault world of
                  None \<Rightarrow> None
                | Some (Inr metadata, world) \<Rightarrow> Some (Inr metadata, world)
                | Some (Inl e, world) \<Rightarrow>
                    Some (Inl e, if fails RemoveFile \<noteq> None then world
                      else world\<lparr>aw_files := (aw_files world)(temporary := None)\<rparr>))))"

definition write_archive ::
  "(fs_call \<Rightarrow> io_error option) \<Rightarrow> string write_fn \<Rightarrow> (string \<Rightarrow> string) \<Rightarrow> (entry_header \<Rightarrow> string)
     \<Rightarrow> nat \<Rightarrow> nat \<Rightarrow> archive_entry list \<Rightarrow> archive_destination \<Rightarrow> archive_world
     \<Rightarrow> ((archive_error + archive_metadata) \<times> archive_world) option" where
  "write_archive fails put gzip to_vec pid fuel entries d world =
     (let paths = set (map ae_path entries) in
      if ''frontend.json'' \<notin> paths then Some (Inl MissingFrontend, world)
      else if ''coverage-model.json'' \<notin> paths then Some (Inl MissingCoverageModel, world)
      else write_archive_version fails put gzip to_vec pid fuel entries d
        EVIDENCE_ARCHIVE_SCHEMA_VERSION EVIDENCE_ARCHIVE_MAGIC None world)"

lemma temporary_path_Inr:
  "temporary_path pid d q = Inr t \<Longrightarrow> t \<noteq> dest_path d"
  by (auto simp: temporary_path_def dest_path_def path_join_def result_simps)

lemma open_temporary_fresh:
  "open_temporary fails pid d fuel w = Some (Inr t, w') \<Longrightarrow>
     aw_files w t = None \<and> aw_files w' = (aw_files w)(t \<mapsto> []) \<and> t \<noteq> dest_path d"
proof (induction fuel arbitrary: w)
  case (Suc fuel)
  then show ?case
    by (fastforce simp: Let_def dest: temporary_path_Inr split: sum.splits option.splits if_splits)
qed simp

lemma open_temporary_failed:
  "open_temporary fails pid d fuel w = Some (Inl e, w') \<Longrightarrow> aw_files w' = aw_files w"
proof (induction fuel arbitrary: w)
  case (Suc fuel)
  then show ?case
    by (fastforce simp: Let_def split: sum.splits option.splits if_splits)
qed simp

lemma fill_and_rename_cases:
  assumes "sink put id"
    and "fill_and_rename fails put gzip to_vec es t d schema magic fault w = Some (r, w')"
  shows "(\<exists>m. r = Inr m \<and> headers_fit (2 ^ 32) to_vec es \<and> aw_files w' = (aw_files w)(t := None, d \<mapsto> gzip (magic @ frames to_vec es)))
     \<or> (\<exists>e s. r = Inl e \<and> aw_files w' = (aw_files w)(t \<mapsto> s))"
proof -
  have faulting: "contents = bytes"
    if "write_all (faulting_write put) (faulting_new [] fault) bytes = (Inr u, f)"
      "contents = fw_inner f" for bytes contents u f
    using sink.write_all_done[OF sink.faulting_sink[OF assms(1)] that(1)] that(2)
    by (simp add: faulting_new_def)
  from assms(2) show ?thesis
    by (cases "headers_fit (2 ^ 32) to_vec es")
      (auto simp: fill_and_rename_def write_framed_bytes all_writable Let_def map_io_def
        dest!: faulting split: prod.splits sum.splits)
qed

lemma write_archive_version_outcome:
  assumes "sink put id"
    and "write_archive_version fails put gzip to_vec pid fuel es d schema magic fault w = Some (r, w')"
  shows "case r of
      Inr m \<Rightarrow> \<exists>cs. canonicalize_entries es = Inr cs \<and> headers_fit (2 ^ 32) to_vec cs
        \<and> aw_files w' = (aw_files w)(dest_path d \<mapsto> gzip (magic @ frames to_vec cs))
    | Inl e \<Rightarrow> aw_files w' = aw_files w
        \<or> (fails RemoveFile \<noteq> None \<and> (\<exists>t s. t \<noteq> dest_path d \<and> aw_files w t = None
              \<and> aw_files w' = (aw_files w)(t \<mapsto> s)))"
proof (cases "rbind (canonicalize_entries es) (\<lambda>entries.
           rbind (ok_or (dest_parent d) (InvalidPath (dest_path d))) (\<lambda>parent.
           rbind (checked fails CreateDirAll) (\<lambda>_. Inr entries)))")
  case (Inl e)
  with assms(2) show ?thesis by (auto simp: write_archive_version_def)
next
  case (Inr cs)
  then have cs: "canonicalize_entries es = Inr cs" by (auto simp: result_simps)
  from assms(2) obtain opened v where o: "open_temporary fails pid d fuel w = Some (opened, v)"
    by (auto simp: write_archive_version_def Inr split: option.splits)
  show ?thesis
  proof (cases opened)
    case (Inl e)
    with assms(2) Inr o open_temporary_failed[of fails pid d fuel w e v] show ?thesis
      by (auto simp: write_archive_version_def)
  next
    case t: (Inr t)
    have v: "aw_files w t = None" "aw_files v = (aw_files w)(t \<mapsto> [])" "t \<noteq> dest_path d"
      using open_temporary_fresh o t by simp_all
    from assms(2) obtain q u where
      q: "fill_and_rename fails put gzip to_vec cs t (dest_path d) schema magic fault v = Some (q, u)"
      by (auto simp: write_archive_version_def Inr o t split: option.splits)
    have clear: "(aw_files w)(t := None) = aw_files w" using v(1) by (simp add: fun_upd_idem)
    from fill_and_rename_cases[OF assms(1) q] show ?thesis
    proof
      assume "\<exists>m. q = Inr m \<and> headers_fit (2 ^ 32) to_vec cs
        \<and> aw_files u = (aw_files v)(t := None, dest_path d \<mapsto> gzip (magic @ frames to_vec cs))"
      with assms(2) Inr o t q v cs clear show ?thesis
        by (auto simp: write_archive_version_def)
    next
      assume "\<exists>e s. q = Inl e \<and> aw_files u = (aw_files v)(t \<mapsto> s)"
      then obtain e s where es: "q = Inl e" "aw_files u = (aw_files w)(t \<mapsto> s)" using v(2) by auto
      show ?thesis
      proof (cases "fails RemoveFile")
        case None
        with assms(2) Inr o t q clear es show ?thesis by (auto simp: write_archive_version_def)
      next
        case (Some x)
        have "r = Inl e \<and> w' = u" using assms(2) Inr o t q es(1) Some
          by (simp add: write_archive_version_def)
        moreover have "\<exists>t s. t \<noteq> dest_path d \<and> aw_files w t = None \<and> aw_files u = (aw_files w)(t \<mapsto> s)"
          using v(1,3) es(2) by blast
        ultimately show ?thesis using Some by simp
      qed
    qed
  qed
qed

text \<open>C19: Publishing is all or nothing. When \<open>write_archive_version\<close> returns a result, the
  destination is the compressed stream of the canonical entries' frames and every other path
  is as it was; when it returns an error, whatever call failed and however many bytes the disk
  took, the destination and every other path are as they were, but for one temporary file of a
  new name if removing it failed too.\<close>

theorem publish_atomic:
  assumes "sink put id"
    and "write_archive_version fails put gzip to_vec pid fuel es d schema magic fault w = Some (r, w')"
  shows "case r of
      Inr m \<Rightarrow> \<exists>cs. canonicalize_entries es = Inr cs \<and> headers_fit (2 ^ 32) to_vec cs
        \<and> aw_files w' = (aw_files w)(dest_path d \<mapsto> gzip (magic @ frames to_vec cs))
    | Inl e \<Rightarrow> aw_files w' = aw_files w
        \<or> (fails RemoveFile \<noteq> None \<and> (\<exists>t s. t \<noteq> dest_path d \<and> aw_files w t = None
              \<and> aw_files w' = (aw_files w)(t \<mapsto> s)))"
  using assms by (rule write_archive_version_outcome)

definition header_codec :: "(entry_header \<Rightarrow> string) \<Rightarrow> (string \<Rightarrow> string + entry_header) \<Rightarrow> bool" where
  "header_codec to_vec from_slice \<longleftrightarrow> (\<forall>h. from_slice (to_vec h) = Inr h)"

definition gzip_codec :: "(string \<Rightarrow> string) \<Rightarrow> (string \<Rightarrow> reader \<times> string) \<Rightarrow> bool" where
  "gzip_codec gzip gunzip \<longleftrightarrow> (\<forall>b. gunzip (gzip b) = (\<lparr>rd_left = b, rd_end = None\<rparr>, []))"

definition within_limits :: "(entry_header \<Rightarrow> string) \<Rightarrow> archive_entry list \<Rightarrow> bool" where
  "within_limits to_vec = list_all (\<lambda>e.
     length (encoded_header to_vec e) \<le> MAX_ENTRY_HEADER_BYTES \<and> length (ae_contents e) < 2 ^ 64)"

lemma published_accepted:
  assumes "header_codec to_vec from_slice" and "gzip_codec gzip gunzip" and "sink put id"
    and "within_limits to_vec es"
    and "write_archive fails put gzip to_vec pid fuel es d w = Some (Inr m, w')"
  obtains published cs where "aw_files w' (dest_path d) = Some published" "canonicalize_entries es = Inr cs"
    "accepted gunzip to_vec from_slice published cs"
proof -
  from assms(5) have paths: "''frontend.json'' \<in> ae_path ` set es" "''coverage-model.json'' \<in> ae_path ` set es"
    and version: "write_archive_version fails put gzip to_vec pid fuel es d
        EVIDENCE_ARCHIVE_SCHEMA_VERSION EVIDENCE_ARCHIVE_MAGIC None w = Some (Inr m, w')"
    by (auto simp: write_archive_def Let_def split: if_splits)
  from write_archive_version_outcome[OF assms(3) version] obtain cs where
    cs: "canonicalize_entries es = Inr cs"
    and files: "aw_files w' = (aw_files w)(dest_path d \<mapsto> gzip (EVIDENCE_ARCHIVE_MAGIC @ frames to_vec cs))"
    by auto
  have same: "set cs = set es" using cs by (simp add: canonicalize_Inr_sort)
  have "canonical cs" using cs
    by (auto simp: canonicalize_Inr_sort canonical_def strict_sorted_iff list_all_iff)
      (metis mset_eq_imp_distinct_iff mset_map mset_sort)
  moreover have "list_all (readable to_vec from_slice) cs"
    using assms(1,4) cs unfolding list_all_iff same readable_def within_limits_def header_codec_def
    by (auto simp: canonicalize_Inr_sort list_all_iff)
  moreover have "required_paths \<subseteq> ae_path ` set cs"
    using cs paths unfolding same required_paths_def by (auto simp: canonicalize_Inr_sort)
  ultimately have "accepted gunzip to_vec from_slice (gzip (EVIDENCE_ARCHIVE_MAGIC @ frames to_vec cs)) cs"
    using assms(2) by (simp add: accepted_def gzip_codec_def)
  then show thesis using files cs that by simp
qed

text \<open>C17: What \<open>write_archive\<close> publishes, \<open>read_archive\<close> gives back: the same entries, no more and no fewer,
  in the strict order of their paths, provided no entry's header is longer than the reader's 64 KiB.\<close>

theorem archive_roundtrip:
  assumes "header_codec to_vec from_slice" and "gzip_codec gzip gunzip" and "sink put id"
    and "within_limits to_vec es"
    and "write_archive fails put gzip to_vec pid fuel es d w = Some (Inr m, w')"
  shows "\<exists>published cs. aw_files w' (dest_path d) = Some published
     \<and> read_archive gunzip sha256 to_vec from_slice (Inr published) = Inr cs
     \<and> mset cs = mset es \<and> sorted_wrt (<) (map ae_path cs)"
proof -
  obtain published cs where published: "aw_files w' (dest_path d) = Some published" "canonicalize_entries es = Inr cs"
    "accepted gunzip to_vec from_slice published cs"
    using published_accepted[OF assms] by blast
  then have "read_archive gunzip sha256 to_vec from_slice (Inr published) = Inr cs"
    by (auto simp: read_archive_def read_archive_selected_iff)
  moreover have "mset cs = mset es" "sorted_wrt (<) (map ae_path cs)"
    using published(2,3) by (auto simp: canonicalize_Inr_sort accepted_def canonical_def)
  ultimately show ?thesis using published(1) by blast
qed

lemma open_temporary_taken:
  "open_temporary fails pid d fuel w = None \<Longrightarrow> fails OpenTemporary = None \<Longrightarrow> k < fuel \<Longrightarrow>
     \<exists>t. temporary_path pid d (aw_sequence w + of_nat k) = Inr t \<and> aw_files w t \<noteq> None"
proof (induction fuel arbitrary: w k)
  case (Suc fuel)
  let ?w = "w\<lparr>aw_sequence := aw_sequence w + 1\<rparr>"
  from Suc.prems obtain t where t: "temporary_path pid d (aw_sequence w) = Inr t" "aw_files w t \<noteq> None"
    and rest: "open_temporary fails pid d fuel ?w = None"
    by (auto simp: Let_def split: sum.splits if_splits)
  show ?case
  proof (cases k)
    case (Suc j)
    with Suc.IH[OF rest Suc.prems(2), of j] Suc.prems(3) show ?thesis
      by (simp add: algebra_simps)
  qed (use t in simp)
qed simp

lemma temporary_path_inject:
  "temporary_path pid d p = Inr t \<Longrightarrow> temporary_path pid d q = Inr t \<Longrightarrow> p = q"
  by (auto simp: temporary_path_def path_join_def result_simps word_unat_eq_iff split: if_splits)

lemma open_temporary_returns:
  assumes "finite (dom (aw_files w))" and "card (dom (aw_files w)) < fuel" and "fuel \<le> 2 ^ 64"
    and "fails OpenTemporary = None"
  shows "open_temporary fails pid d fuel w \<noteq> None"
proof
  assume none: "open_temporary fails pid d fuel w = None"
  then have "\<forall>k \<in> {..<fuel}. \<exists>t. temporary_path pid d (aw_sequence w + of_nat k) = Inr t \<and> t \<in> dom (aw_files w)"
    using open_temporary_taken[OF none assms(4)] by (auto simp: dom_def)
  then obtain name where name: "\<And>k. k < fuel \<Longrightarrow> temporary_path pid d (aw_sequence w + of_nat k) = Inr (name k)"
    "\<And>k. k < fuel \<Longrightarrow> name k \<in> dom (aw_files w)" by (metis lessThan_iff)
  have "inj_on name {..<fuel}"
  proof (rule inj_onI)
    fix j k assume jk: "j \<in> {..<fuel}" "k \<in> {..<fuel}" "name j = name k"
    then have "aw_sequence w + of_nat j = aw_sequence w + of_nat k"
      using name(1)[of j] name(1)[of k] by (intro temporary_path_inject[of pid d _ "name j"]) simp_all
    then have "(of_nat j :: u64) = of_nat k" by simp
    then have "unat (of_nat j :: u64) = unat (of_nat k :: u64)" by simp
    moreover have "unat (of_nat j :: u64) = j" "unat (of_nat k :: u64) = k"
      using jk assms(3) by (simp_all add: unat_of_nat)
    ultimately show "j = k" by simp
  qed
  moreover have "name ` {..<fuel} \<subseteq> dom (aw_files w)" using name(2) by auto
  ultimately have "fuel \<le> card (dom (aw_files w))"
    using card_inj_on_le[of name "{..<fuel}"] assms(1) by simp
  with assms(2) show False by simp
qed

text \<open>The search for a free temporary name ends: it tries at most one name more than there are
  files, since no two sequence numbers give the same name.\<close>

theorem temporary_found:
  assumes "finite (dom (aw_files w))" and "card (dom (aw_files w)) < fuel" and "fuel \<le> 2 ^ 64"
    and "fails OpenTemporary = None"
  shows "open_temporary fails pid d fuel w \<noteq> None"
  using assms by (rule open_temporary_returns)

theorem temporary_found_witness:
  "open_temporary (\<lambda>_. None) 7 \<lparr>dest_parent = Some ''runs'', dest_name = Some ''evidence.raw.gz''\<rparr> 2
     \<lparr>aw_files = [''runs/.evidence.raw.gz.7.0.tmp'' \<mapsto> []], aw_sequence = 0\<rparr> \<noteq> None"
  by (rule temporary_found) simp_all

subsection \<open>A run's archive, published and read back\<close>

definition sample_to_vec :: "entry_header \<Rightarrow> string" where
  "sample_to_vec h = decimal (unat (eh_bytes h)) @ CHR '':'' # eh_path h"

definition sample_from_slice :: "string \<Rightarrow> string + entry_header" where
  "sample_from_slice s = (case dropWhile (\<lambda>c. c \<noteq> CHR '':'') s of
      [] \<Rightarrow> Inl ''no colon''
    | _ # path \<Rightarrow> Inr \<lparr>eh_path = path,
        eh_bytes = of_nat (digits_value (takeWhile (\<lambda>c. c \<noteq> CHR '':'') s))\<rparr>)"

definition sample_gunzip :: "string \<Rightarrow> reader \<times> string" where
  "sample_gunzip b = (\<lparr>rd_left = b, rd_end = None\<rparr>, [])"

lemma sample_codec: "header_codec sample_to_vec sample_from_slice"
proof -
  have digits: "list_all (\<lambda>c. c \<noteq> CHR '':'') (decimal n)" for n
    using decimal_digits[of "CHR '':''" n] by (auto simp: list_all_iff is_ascii_digit_def code_def)
  then have "takeWhile (\<lambda>c. c \<noteq> CHR '':'') (decimal n @ CHR '':'' # p) = decimal n"
    "dropWhile (\<lambda>c. c \<noteq> CHR '':'') (decimal n @ CHR '':'' # p) = CHR '':'' # p" for n p
    by (auto simp: list_all_iff takeWhile_tail dropWhile_append3 takeWhile_append dropWhile_append)
  then show ?thesis
    by (simp add: header_codec_def sample_to_vec_def sample_from_slice_def)
qed

lemma sample_gzip_codec: "gzip_codec id sample_gunzip"
  by (simp add: gzip_codec_def sample_gunzip_def)

definition sample_entries :: "archive_entry list" where
  "sample_entries = [\<lparr>ae_path = ''manifest.json'', ae_contents = ''{}''\<rparr>,
     \<lparr>ae_path = ''frontend.json'', ae_contents = ''[]''\<rparr>,
     \<lparr>ae_path = ''coverage-model.json'', ae_contents = ''{}''\<rparr>]"

definition sample_destination :: archive_destination where
  "sample_destination = \<lparr>dest_parent = Some ''runs'', dest_name = Some ''evidence.raw.gz''\<rparr>"

definition sample_world :: archive_world where
  "sample_world = \<lparr>aw_files = Map.empty, aw_sequence = 0\<rparr>"

lemma sample_canonical: "canonicalize_entries sample_entries = Inr (rev sample_entries)"
proof -
  have "list_all (\<lambda>e. valid_path (ae_path e)) sample_entries"
    by (simp add: sample_entries_def validate_archive_path_def starts_with_def ends_with_def
        strip_suffix_def)
  moreover have "sort_key ae_path sample_entries = rev sample_entries"
    by (simp add: sample_entries_def less_list_code less_eq_list_code less_char_def)
  ultimately show ?thesis
    unfolding canonicalize_Inr_sort by (simp add: sample_entries_def)
qed

lemma sample_limits: "within_limits sample_to_vec sample_entries" "headers_fit (2 ^ 32) sample_to_vec (rev sample_entries)"
  by (simp_all add: within_limits_def headers_fit_def sample_entries_def encoded_header_def
      sample_to_vec_def decimal.simps MAX_ENTRY_HEADER_BYTES_def)

lemma write_all_no_fault:
  "write_all (faulting_write vec_write) (faulting_new [] None) bytes
     = (Inr (), (faulting_new [] None)\<lparr>fw_inner := bytes, fw_written := of_nat (length bytes)\<rparr>)"
  by (simp add: write_all.simps faulting_write_def vec_write_def faulting_new_def)

lemma sample_open:
  "\<exists>t v. open_temporary fails 7 sample_destination (Suc 0) sample_world = Some (Inr t, v)"
  if "fails OpenTemporary = None"
  using that
  by (simp add: sample_world_def sample_destination_def temporary_path_def ok_or_def Let_def)

lemma sample_written:
  "\<exists>m w'. write_archive (\<lambda>_. None) vec_write id sample_to_vec 7 (Suc 0) sample_entries
     sample_destination sample_world = Some (Inr m, w')"
proof -
  obtain t v where o: "open_temporary (\<lambda>_. None) 7 sample_destination (Suc 0) sample_world = Some (Inr t, v)"
    using sample_open[of "\<lambda>_. None"] by blast
  obtain m w' where f: "fill_and_rename (\<lambda>_. None) vec_write id sample_to_vec (rev sample_entries) t
      (dest_path sample_destination) EVIDENCE_ARCHIVE_SCHEMA_VERSION EVIDENCE_ARCHIVE_MAGIC None v = Some (Inr m, w')"
    using sample_limits(2)
    by (simp add: fill_and_rename_def write_framed_bytes Let_def write_all_no_fault map_io_def checked_def)
  have "''frontend.json'' \<in> set (map ae_path sample_entries)"
    "''coverage-model.json'' \<in> set (map ae_path sample_entries)"
    by (simp_all add: sample_entries_def)
  moreover have "ok_or (dest_parent sample_destination) e = Inr ''runs''" for e :: archive_error
    by (simp add: sample_destination_def ok_or_def)
  ultimately show ?thesis
    by (auto simp: write_archive_def write_archive_version_def sample_canonical checked_def o f
        simp del: open_temporary.simps split: option.splits)
qed

theorem archive_roundtrip_witness:
  "\<exists>published (w' :: archive_world) cs. aw_files w' (dest_path sample_destination) = Some published
     \<and> read_archive sample_gunzip id sample_to_vec sample_from_slice (Inr published) = Inr cs
     \<and> mset cs = mset sample_entries \<and> sorted_wrt (<) (map ae_path cs)"
proof -
  obtain m w' where "write_archive (\<lambda>_. None) vec_write id sample_to_vec 7 (Suc 0) sample_entries
     sample_destination sample_world = Some (Inr m, w')" using sample_written by blast
  from archive_roundtrip[OF sample_codec sample_gzip_codec vec.sink_axioms sample_limits(1) this, of id]
  show ?thesis by blast
qed

lemma sample_full:
  "\<exists>e w'. write_archive_version (\<lambda>_. None) vec_write id sample_to_vec 7 (Suc 0) sample_entries
     sample_destination 3 [] (Some (NoSpaceAfterBytes 5)) sample_world = Some (Inl e, w')"
proof -
  obtain t v where o: "open_temporary (\<lambda>_. None) 7 sample_destination (Suc 0) sample_world = Some (Inr t, v)"
    using sample_open[of "\<lambda>_. None"] by blast
  have "5 < length (frames sample_to_vec (rev sample_entries))"
    by (simp add: sample_entries_def frames_def frame_def encoded_header_def)
  then obtain e f where "write_all (faulting_write vec_write) (faulting_new [] (Some (NoSpaceAfterBytes 5)))
      (frames sample_to_vec (rev sample_entries)) = (Inl e, f)"
    by (simp add: no_space)
  then obtain e' w' where "fill_and_rename (\<lambda>_. None) vec_write id sample_to_vec (rev sample_entries) t
      (dest_path sample_destination) 3 [] (Some (NoSpaceAfterBytes 5)) v = Some (Inl e', w')"
    using sample_limits(2)
    by (simp add: fill_and_rename_def write_framed_bytes Let_def map_io_def all_writable[OF sample_limits(2)])
  moreover have "ok_or (dest_parent sample_destination) e = Inr ''runs''" for e :: archive_error
    by (simp add: sample_destination_def ok_or_def)
  ultimately show ?thesis
    by (auto simp: write_archive_version_def sample_canonical checked_def o
        simp del: open_temporary.simps split: option.splits)
qed

theorem publish_atomic_witness:
  "\<exists>e (w' :: archive_world). write_archive_version (\<lambda>_. None) vec_write id sample_to_vec 7 (Suc 0) sample_entries
     sample_destination 3 [] (Some (NoSpaceAfterBytes 5)) sample_world = Some (Inl e, w')
     \<and> aw_files w' = aw_files sample_world"
proof -
  obtain e w' where "write_archive_version (\<lambda>_. None) vec_write id sample_to_vec 7 (Suc 0) sample_entries
     sample_destination 3 [] (Some (NoSpaceAfterBytes 5)) sample_world = Some (Inl e, w')"
    using sample_full by blast
  with publish_atomic[OF vec.sink_axioms this] show ?thesis by auto
qed

end
