(* ===== verification/Evidence.thy ===== *)
theory Evidence
  imports Mcdc
begin

section \<open>The manifest and a run's evidence (coverage\_report.rs, data)\<close>

text \<open>
  The records a frontend hands the engine: the manifest's obligations, and per attempt of a
  test what its runtime, the browser and the server observed. \<open>'v\<close> is \<open>serde_json::Value\<close>,
  which the engine keeps as it came. Times are milliseconds (\<open>i64\<close>).
\<close>

record decision_meta =
  dm_id :: string
  dm_file :: string
  dm_line :: nat
  dm_column :: nat
  dm_source :: string
  dm_conditions :: "string list"
  dm_kind :: string

record point_meta =
  pm_id :: string
  pm_kind :: point_kind
  pm_file :: string
  pm_line :: nat
  pm_column :: nat
  pm_source :: string
  pm_label :: "string option"

record branch_alternative_meta =
  ba_id :: string
  ba_label :: string

record branch_meta =
  bm_id :: string
  bm_kind :: string
  bm_file :: string
  bm_line :: nat
  bm_column :: nat
  bm_source :: string
  bm_alternatives :: "branch_alternative_meta list"

record 'v coverage_manifest =
  cm_decisions :: "decision_meta list"
  cm_points :: "point_meta list"
  cm_branches :: "branch_meta list"
  cm_limitations :: "'v list"
  cm_unmeasured :: "string list"
  cm_scope :: "'v option"
  cm_assertion_sites :: "point_meta list"

record decision_snapshot =
  ds_id :: string
  ds_vectors :: "mcdc_vector list"

record runtime_event =
  re_event_type :: string
  re_id :: string
  re_vector :: "mcdc_vector option"
  re_timestamp_ms :: int
  re_phase_id :: "string option"
  re_environment :: string

record logical_vector =
  lv_right :: bool
  lv_truthy :: bool

record logical_snapshot =
  ls_id :: string
  ls_vectors :: "logical_vector list"

record runtime_snapshot =
  rs_decisions :: "decision_snapshot list"
  rs_hits :: "string list"
  rs_events :: "runtime_event list"
  rs_logicals :: "logical_snapshot list"
  rs_phase_id :: "string option"

record execution_scope =
  es_version :: nat
  es_run_id :: string
  es_worker_id :: string
  es_test_id :: string
  es_test_key :: string
  es_retry :: nat
  es_attempt_id :: string

record server_record =
  sr_record_type :: string
  sr_vector :: "mcdc_vector option"
  sr_id :: "string option"
  sr_timestamp_ms :: "int option"
  sr_phase_id :: "string option"
  sr_scope :: "execution_scope option"
  sr_request :: "u64 option"

record coverage_phase =
  cp_id :: string
  cp_kind :: string
  cp_operation :: string
  cp_source :: "string option"
  cp_caused_by_phase_id :: "string option"
  cp_started_at_ms :: int
  cp_ended_at_ms :: "int option"
  cp_status :: "string option"
  cp_error :: "string option"

record test_provenance =
  tp_runner :: string
  tp_kind :: string
  tp_project :: "string option"
  tp_source :: string
  tp_tags :: "string list"

record raw_test_result =
  rt_test_id :: "string option"
  rt_scope :: "execution_scope option"
  rt_test :: string
  rt_test_file :: "string option"
  rt_title :: "string option"
  rt_retry :: "nat option"
  rt_status :: "string option"
  rt_expected_status :: "string option"
  rt_flaky :: bool
  rt_provenance :: test_provenance
  rt_role :: string
  rt_attribution :: string
  rt_phases :: "coverage_phase list"
  rt_runtime :: "runtime_snapshot list"
  rt_browser :: "runtime_snapshot list"
  rt_server :: "server_record list"
  rt_span :: "(int \<times> int) option"

record coverage_model_declaration =
  md_language :: string
  md_variant :: string
  md_name :: string
  md_completeness_meaning :: string
  md_measured :: "string list"
  md_not_measured :: "string list"

datatype exit_code_input = Missing | Present "int option"

record 'v coverage_report_request =
  rq_run_id :: string
  rq_manifest :: "'v coverage_manifest"
  rq_raw_results :: "raw_test_result list"
  rq_generated_at :: string
  rq_coverage_model :: "coverage_model_declaration option"
  rq_integrity :: "'v option"
  rq_test_exit_code :: exit_code_input

datatype report_error =
    Analysis analysis_error
  | DecisionAnalysis string analysis_error
  | InvalidEvent string
  | InvalidServerRecord string
  | InvalidArchive string
  | InvalidJson string string
  | ScopeMismatch string string
  | NoEvidence string
  | NoTestMatches string

definition ATTRIBUTION_EXACT :: string where "ATTRIBUTION_EXACT = ''exact''"

definition ATTRIBUTION_RUN_WIDE :: string where "ATTRIBUTION_RUN_WIDE = ''run-wide''"

definition ATTRIBUTION_PARTIAL :: string where "ATTRIBUTION_PARTIAL = ''partial''"

definition ATTRIBUTION_BY_TIME :: string where "ATTRIBUTION_BY_TIME = ''by-time''"

end
