(* ===== verification/FrontendDeclaration.thy ===== *)
theory FrontendDeclaration
  imports Prelude
begin

section \<open>What a frontend declares of a run (supercov-contracts, lib.rs)\<close>

text \<open>
  A frontend says which runners it drives, how each executes tests, how precisely each axis of
  identity is attributed, and which limitation explains each axis that is not exact. The
  engine accepts a declaration only when those claims fit together; \<open>declaration_ok\<close> states
  what fitting together means, with no order of checks, and \<open>validate_run_declaration_exact\<close>
  shows that the validator accepts just those.
\<close>

definition LANGUAGE_FRONTEND_PROTOCOL_VERSION :: u32 where "LANGUAGE_FRONTEND_PROTOCOL_VERSION = 2"

datatype structural_source = OwnedProbes | NativeImport | MixedSource

datatype execution_model =
  ProcessPerTest | SerialInProcess | ParallelContextPropagated | ParallelUnattributed

datatype precision = Exact | Aggregate | Unavailable

datatype limitation_scope =
  WorkerScope | TestScope | RetryScope | PhaseScope | ActionScope | AssertionScope

record frontend_attribution =
  fa_run :: precision
  fa_worker :: precision
  fa_test :: precision
  fa_retry :: precision
  fa_phase :: precision
  fa_action :: precision
  fa_assertion :: precision

record frontend_limitation =
  fl_id :: string
  fl_scopes :: "limitation_scope list"
  fl_reason :: string

record frontend_runner =
  fr_runner :: string
  fr_execution_model :: execution_model
  fr_attribution :: frontend_attribution
  fr_limitations :: "frontend_limitation list"

record frontend_declaration =
  fd_protocol_version :: u32
  fd_frontend_id :: string
  fd_frontend_version :: string
  fd_language :: string
  fd_structural_source :: structural_source
  fd_runners :: "frontend_runner list"
  fd_structural_limitations :: "string list"

datatype declaration_error =
    UnsupportedProtocolVersion u32
  | InvalidToken string
  | NoRunners
  | DuplicateRunner string
  | RunIdentityNotExact
  | DuplicateLimitation string
  | DuplicateLimitationScope string
  | EmptyLimitationScopes string
  | InvalidLimitationReason string
  | DuplicateStructuralLimitation string
  | MissingDowngradeLimitation limitation_scope
  | ExactRetryRequiresExactTest
  | ExactPhaseRequiresExactTest
  | ExactAssertionRequiresExactTestAndPhase
  | ExactActionRequiresExactTestAndPhase
  | ParallelUnattributedCannotClaimExactCausality

subsection \<open>What an error says\<close>

fun scope_debug :: "limitation_scope \<Rightarrow> string" where
  "scope_debug WorkerScope = ''Worker''"
| "scope_debug TestScope = ''Test''"
| "scope_debug RetryScope = ''Retry''"
| "scope_debug PhaseScope = ''Phase''"
| "scope_debug ActionScope = ''Action''"
| "scope_debug AssertionScope = ''Assertion''"

fun display_declaration_error :: "declaration_error \<Rightarrow> string" where
  "display_declaration_error (UnsupportedProtocolVersion version) =
     ''unsupported language-frontend protocol version: '' @ decimal (unat version)"
| "display_declaration_error (InvalidToken field) = ''invalid frontend '' @ field"
| "display_declaration_error NoRunners = ''frontend declaration has no runners''"
| "display_declaration_error (DuplicateRunner runner) = ''duplicate frontend runner: '' @ runner"
| "display_declaration_error RunIdentityNotExact = ''frontend run identity must be exact''"
| "display_declaration_error (DuplicateLimitation i) = ''duplicate frontend limitation: '' @ i"
| "display_declaration_error (EmptyLimitationScopes i) = ''frontend limitation has no scopes: '' @ i"
| "display_declaration_error (DuplicateLimitationScope i) =
     ''frontend limitation has duplicate scopes: '' @ i"
| "display_declaration_error (InvalidLimitationReason i) =
     ''frontend limitation has an invalid reason: '' @ i"
| "display_declaration_error (DuplicateStructuralLimitation i) =
     ''duplicate structural limitation reference: '' @ i"
| "display_declaration_error (MissingDowngradeLimitation scope) =
     ''non-exact '' @ scope_debug scope @ '' attribution has no matching limitation''"
| "display_declaration_error ExactRetryRequiresExactTest =
     ''exact retry attribution requires exact test identity''"
| "display_declaration_error ExactPhaseRequiresExactTest =
     ''exact phase attribution requires exact test identity''"
| "display_declaration_error ExactAssertionRequiresExactTestAndPhase =
     ''exact assertion attribution requires exact test and phase identity''"
| "display_declaration_error ExactActionRequiresExactTestAndPhase =
     ''exact action attribution requires exact test and phase identity''"
| "display_declaration_error ParallelUnattributedCannotClaimExactCausality =
     ''parallel-unattributed execution cannot claim exact test, retry, phase, action, or assertion causality''"

subsection \<open>Tokens\<close>

definition valid_frontend_token :: "string \<Rightarrow> bool" where
  "valid_frontend_token value \<longleftrightarrow> 1 \<le> length value \<and> length value \<le> 64
     \<and> is_ascii_lowercase (value ! 0)
     \<and> list_all (\<lambda>c. is_ascii_lowercase c \<or> is_ascii_digit c \<or> c \<in> set ''.+-'') value"

definition valid_frontend_runner_token :: "string \<Rightarrow> bool" where
  "valid_frontend_runner_token value \<longleftrightarrow> 1 \<le> length value \<and> length value \<le> 64
     \<and> is_ascii_lowercase (value ! 0)
     \<and> list_all (\<lambda>c. is_ascii_lowercase c \<or> is_ascii_digit c \<or> c \<in> set ''.+-:'') value"

definition valid_structural_limitation_reference :: "string \<Rightarrow> bool" where
  "valid_structural_limitation_reference value \<longleftrightarrow> 1 \<le> length value \<and> length value \<le> 512
     \<and> length (trim value) = length value \<and> \<not> has_control value"

subsection \<open>The validator\<close>

text \<open>\<open>BTreeSet::insert\<close> says whether the element is new.\<close>

definition insert_new :: "'a \<Rightarrow> 'a set \<Rightarrow> 'e \<Rightarrow> 'e + 'a set" where
  "insert_new x seen e = (if x \<in> seen then Inl e else Inr (insert x seen))"

definition validate_frontend_limitation ::
  "frontend_limitation \<Rightarrow> string set \<times> limitation_scope set
     \<Rightarrow> declaration_error + string set \<times> limitation_scope set" where
  "validate_frontend_limitation limitation = (\<lambda>(limitation_ids, limited_scopes).
     rbind (ensure (valid_frontend_token (fl_id limitation)) (InvalidToken ''limitation ID'')) (\<lambda>_.
     rbind (insert_new (fl_id limitation) limitation_ids (DuplicateLimitation (fl_id limitation))) (\<lambda>limitation_ids.
     rbind (ensure (fl_scopes limitation \<noteq> []) (EmptyLimitationScopes (fl_id limitation))) (\<lambda>_.
     let unique_scopes = set (fl_scopes limitation) in
     rbind (ensure (card unique_scopes = length (fl_scopes limitation))
       (DuplicateLimitationScope (fl_id limitation))) (\<lambda>_.
     rbind (ensure (\<not> (trim (fl_reason limitation) = []
           \<or> length (trim (fl_reason limitation)) \<noteq> length (fl_reason limitation)
           \<or> list_ex (\<lambda>c. c = CHR 0x0A \<or> c = CHR 0x0D \<or> c = CHR 0x00) (fl_reason limitation)))
       (InvalidLimitationReason (fl_id limitation))) (\<lambda>_.
     Inr (limitation_ids, limited_scopes \<union> unique_scopes)))))))"

definition validate_frontend_limitations ::
  "frontend_limitation list \<Rightarrow> string set \<Rightarrow> declaration_error + string set \<times> limitation_scope set" where
  "validate_frontend_limitations limitations limitation_ids =
     try_fold validate_frontend_limitation limitations (limitation_ids, {})"

definition validate_frontend_runner ::
  "frontend_runner \<Rightarrow> string set \<Rightarrow> declaration_error + string set" where
  "validate_frontend_runner runner limitation_ids =
     (let a = fr_attribution runner in
      rbind (ensure (valid_frontend_runner_token (fr_runner runner)) (InvalidToken ''runner'')) (\<lambda>_.
      rbind (ensure (fa_run a = Exact) RunIdentityNotExact) (\<lambda>_.
      rbind (validate_frontend_limitations (fr_limitations runner) limitation_ids) (\<lambda>(limitation_ids, limited_scopes).
      rbind (ensure (\<not> (fa_retry a = Exact \<and> fa_test a \<noteq> Exact)) ExactRetryRequiresExactTest) (\<lambda>_.
      rbind (ensure (\<not> (fa_phase a = Exact \<and> fa_test a \<noteq> Exact)) ExactPhaseRequiresExactTest) (\<lambda>_.
      rbind (try_fold (\<lambda>(precision, scope) _.
          ensure (\<not> (precision \<noteq> Exact \<and> scope \<notin> limited_scopes)) (MissingDowngradeLimitation scope))
        [(fa_worker a, WorkerScope), (fa_test a, TestScope), (fa_retry a, RetryScope),
         (fa_phase a, PhaseScope), (fa_action a, ActionScope), (fa_assertion a, AssertionScope)] ()) (\<lambda>_.
      rbind (ensure (\<not> (fa_assertion a = Exact \<and> (fa_test a \<noteq> Exact \<or> fa_phase a \<noteq> Exact)))
        ExactAssertionRequiresExactTestAndPhase) (\<lambda>_.
      rbind (ensure (\<not> (fa_action a = Exact \<and> (fa_test a \<noteq> Exact \<or> fa_phase a \<noteq> Exact)))
        ExactActionRequiresExactTestAndPhase) (\<lambda>_.
      rbind (ensure (\<not> (fr_execution_model runner = ParallelUnattributed
          \<and> Exact \<in> set [fa_test a, fa_retry a, fa_phase a, fa_action a, fa_assertion a]))
        ParallelUnattributedCannotClaimExactCausality) (\<lambda>_.
      Inr limitation_ids))))))))))"

definition validate_frontend_run_declaration :: "frontend_declaration \<Rightarrow> declaration_error + unit" where
  "validate_frontend_run_declaration d =
     rbind (ensure (fd_protocol_version d = LANGUAGE_FRONTEND_PROTOCOL_VERSION)
       (UnsupportedProtocolVersion (fd_protocol_version d))) (\<lambda>_.
     rbind (try_fold (\<lambda>(field, value) _. ensure (valid_frontend_token value) (InvalidToken field))
       [(''ID'', fd_frontend_id d), (''version'', fd_frontend_version d), (''language'', fd_language d)] ()) (\<lambda>_.
     rbind (ensure (fd_runners d \<noteq> []) NoRunners) (\<lambda>_.
     rbind (try_fold (\<lambda>limitation limitation_ids.
         rbind (ensure (valid_structural_limitation_reference limitation)
           (InvalidToken ''structural limitation ID'')) (\<lambda>_.
         insert_new limitation limitation_ids (DuplicateStructuralLimitation limitation)))
       (fd_structural_limitations d) {}) (\<lambda>limitation_ids.
     rbind (try_fold (\<lambda>runner (runners, limitation_ids).
         rbind (insert_new (fr_runner runner) runners (DuplicateRunner (fr_runner runner))) (\<lambda>runners.
         rbind (validate_frontend_runner runner limitation_ids) (\<lambda>limitation_ids.
         Inr (runners, limitation_ids))))
       (fd_runners d) ({}, limitation_ids)) (\<lambda>_.
     Inr ())))))"

subsection \<open>Which declarations fit together\<close>

definition limitation_ok :: "frontend_limitation \<Rightarrow> bool" where
  "limitation_ok l \<longleftrightarrow> valid_frontend_token (fl_id l) \<and> fl_scopes l \<noteq> [] \<and> distinct (fl_scopes l)
     \<and> trim (fl_reason l) \<noteq> [] \<and> length (trim (fl_reason l)) = length (fl_reason l)
     \<and> set (fl_reason l) \<inter> {CHR 0x0A, CHR 0x0D, CHR 0x00} = {}"

definition limited_scopes :: "frontend_limitation list \<Rightarrow> limitation_scope set" where
  "limited_scopes ls = (\<Union>l \<in> set ls. set (fl_scopes l))"

fun axis :: "frontend_attribution \<Rightarrow> limitation_scope \<Rightarrow> precision" where
  "axis a WorkerScope = fa_worker a"
| "axis a TestScope = fa_test a"
| "axis a RetryScope = fa_retry a"
| "axis a PhaseScope = fa_phase a"
| "axis a ActionScope = fa_action a"
| "axis a AssertionScope = fa_assertion a"

definition exact_axes :: "frontend_attribution \<Rightarrow> limitation_scope set" where
  "exact_axes a = {scope. axis a scope = Exact}"

text \<open>What a runner may claim: its run; retry and phase only with the test, actions and assertions
  only with the phase; nothing causal of tests that run side by side unattributed; and a
  limitation for every axis it does not attribute exactly.\<close>

definition claims_ok :: "frontend_runner \<Rightarrow> bool" where
  "claims_ok r = (let a = fr_attribution r; exact = exact_axes a in
     fa_run a = Exact
     \<and> (exact \<inter> {RetryScope, PhaseScope} = {} \<or> TestScope \<in> exact)
     \<and> (exact \<inter> {ActionScope, AssertionScope} = {} \<or> {TestScope, PhaseScope} \<subseteq> exact)
     \<and> (fr_execution_model r \<noteq> ParallelUnattributed \<or> exact \<subseteq> {WorkerScope})
     \<and> exact \<union> limited_scopes (fr_limitations r) = UNIV)"

definition runner_ok :: "frontend_runner \<Rightarrow> bool" where
  "runner_ok r \<longleftrightarrow> valid_frontend_runner_token (fr_runner r)
     \<and> list_all limitation_ok (fr_limitations r) \<and> claims_ok r"

definition limitation_ids :: "frontend_declaration \<Rightarrow> string list" where
  "limitation_ids d = fd_structural_limitations d
     @ concat (map (\<lambda>r. map fl_id (fr_limitations r)) (fd_runners d))"

definition declaration_ok :: "frontend_declaration \<Rightarrow> bool" where
  "declaration_ok d \<longleftrightarrow> fd_protocol_version d = 2
     \<and> list_all valid_frontend_token [fd_frontend_id d, fd_frontend_version d, fd_language d]
     \<and> fd_runners d \<noteq> [] \<and> distinct (map fr_runner (fd_runners d))
     \<and> list_all valid_structural_limitation_reference (fd_structural_limitations d)
     \<and> distinct (limitation_ids d) \<and> list_all runner_ok (fd_runners d)"

lemma insert_new_Inr_iff [result_simps]:
  "insert_new x seen e = Inr seen' \<longleftrightarrow> x \<notin> seen \<and> seen' = insert x seen"
  by (auto simp: insert_new_def)

lemma control_free:
  "list_ex (\<lambda>c. c = x \<or> c = y \<or> c = z) s \<longleftrightarrow> set s \<inter> {x, y, z} \<noteq> {}"
  by (auto simp: list_ex_iff)

lemma card_set_length: "card (set xs) = length xs \<longleftrightarrow> distinct xs"
  using card_distinct distinct_card by blast

lemma validate_limitation_iff:
  "validate_frontend_limitation l (ids, scopes) = Inr r \<longleftrightarrow>
     limitation_ok l \<and> fl_id l \<notin> ids \<and> r = (insert (fl_id l) ids, scopes \<union> set (fl_scopes l))"
  apply (simp only: validate_frontend_limitation_def Let_def prod.case rbind_ensure)
  apply (simp only: insert_new_def limitation_ok_def control_free card_set_length de_Morgan_disj not_not)
  apply (cases "valid_frontend_token (fl_id l)"; cases "fl_id l \<in> ids"; cases "fl_scopes l = []";
      cases "distinct (fl_scopes l)")
                 apply (simp_all only: if_True if_False rbind.simps simp_thms not_False_eq_True)
                 apply auto
  done

lemma validate_limitations_iff:
  "try_fold validate_frontend_limitation ls (ids, scopes) = Inr r \<longleftrightarrow>
     list_all limitation_ok ls \<and> distinct (map fl_id ls) \<and> fl_id ` set ls \<inter> ids = {}
     \<and> r = (fl_id ` set ls \<union> ids, scopes \<union> limited_scopes ls)"
proof (induction ls arbitrary: ids scopes)
  case Nil
  then show ?case by (auto simp: limited_scopes_def)
next
  case (Cons l ls)
  have "try_fold validate_frontend_limitation (l # ls) (ids, scopes) = Inr r \<longleftrightarrow>
      limitation_ok l \<and> fl_id l \<notin> ids
      \<and> try_fold validate_frontend_limitation ls (insert (fl_id l) ids, scopes \<union> set (fl_scopes l)) = Inr r"
    by (simp add: rbind_Inr_iff validate_limitation_iff)
  also have "\<dots> \<longleftrightarrow> limitation_ok l \<and> fl_id l \<notin> ids \<and> list_all limitation_ok ls \<and> distinct (map fl_id ls)
      \<and> fl_id ` set ls \<inter> insert (fl_id l) ids = {}
      \<and> r = (fl_id ` set ls \<union> insert (fl_id l) ids, (scopes \<union> set (fl_scopes l)) \<union> limited_scopes ls)"
    unfolding Cons.IH ..
  also have "\<dots> \<longleftrightarrow> list_all limitation_ok (l # ls) \<and> distinct (map fl_id (l # ls))
      \<and> fl_id ` set (l # ls) \<inter> ids = {}
      \<and> r = (fl_id ` set (l # ls) \<union> ids, scopes \<union> limited_scopes (l # ls))"
    by (simp add: limited_scopes_def Un_assoc) blast
  finally show ?case .
qed

lemma every_scope: "(\<forall>s. P s) \<longleftrightarrow> P WorkerScope \<and> P TestScope \<and> P RetryScope \<and> P PhaseScope
    \<and> P ActionScope \<and> P AssertionScope"
  by (rule iffI, blast, rule allI, case_tac s) simp_all

lemma all_scopes: "X = UNIV \<longleftrightarrow> WorkerScope \<in> X \<and> TestScope \<in> X \<and> RetryScope \<in> X \<and> PhaseScope \<in> X
    \<and> ActionScope \<in> X \<and> AssertionScope \<in> X"
  unfolding set_eq_iff every_scope by simp

lemma only_worker: "X \<subseteq> {WorkerScope} \<longleftrightarrow> TestScope \<notin> X \<and> RetryScope \<notin> X \<and> PhaseScope \<notin> X
    \<and> ActionScope \<notin> X \<and> AssertionScope \<notin> X"
  unfolding subset_iff every_scope by simp

lemma exact_axes_iff: "scope \<in> exact_axes a \<longleftrightarrow> axis a scope = Exact"
  by (simp add: exact_axes_def)

lemma claims_iff: "claims_ok r \<longleftrightarrow> (let a = fr_attribution r; L = limited_scopes (fr_limitations r) in
     fa_run a = Exact \<and> (fa_retry a = Exact \<longrightarrow> fa_test a = Exact)
     \<and> (fa_phase a = Exact \<longrightarrow> fa_test a = Exact)
     \<and> (fa_worker a = Exact \<or> WorkerScope \<in> L) \<and> (fa_test a = Exact \<or> TestScope \<in> L)
     \<and> (fa_retry a = Exact \<or> RetryScope \<in> L) \<and> (fa_phase a = Exact \<or> PhaseScope \<in> L)
     \<and> (fa_action a = Exact \<or> ActionScope \<in> L) \<and> (fa_assertion a = Exact \<or> AssertionScope \<in> L)
     \<and> (fa_assertion a = Exact \<longrightarrow> fa_test a = Exact \<and> fa_phase a = Exact)
     \<and> (fa_action a = Exact \<longrightarrow> fa_test a = Exact \<and> fa_phase a = Exact)
     \<and> (fr_execution_model r \<noteq> ParallelUnattributed \<or> fa_test a \<noteq> Exact \<and> fa_retry a \<noteq> Exact \<and> fa_phase a \<noteq> Exact
        \<and> fa_action a \<noteq> Exact \<and> fa_assertion a \<noteq> Exact))"
  unfolding claims_ok_def Let_def all_scopes only_worker Int_insert_right Int_empty_right
      insert_subset exact_axes_iff axis.simps Un_iff
  apply (simp only: empty_not_insert insert_not_empty if_split[where P = "\<lambda>x. x = {}"])
  apply (simp only: exact_axes_iff axis.simps empty_subsetI simp_thms insert_not_empty)
  apply argo
  done
lemma validate_runner_iff:
  "validate_frontend_runner r ids = Inr ids' \<longleftrightarrow>
     runner_ok r \<and> distinct (map fl_id (fr_limitations r)) \<and> fl_id ` set (fr_limitations r) \<inter> ids = {}
     \<and> ids' = fl_id ` set (fr_limitations r) \<union> ids"
proof -
  have scopes: "try_fold (\<lambda>(precision, scope) _.
      ensure (\<not> (precision \<noteq> Exact \<and> scope \<notin> L)) (MissingDowngradeLimitation scope)) ps () = Inr u
    \<longleftrightarrow> list_all (\<lambda>(precision, scope). precision = Exact \<or> scope \<in> L) ps" for ps L u
    by (induction ps) (auto simp: result_simps)
  show ?thesis
    unfolding validate_frontend_runner_def Let_def runner_ok_def claims_iff
      validate_frontend_limitations_def
    apply (simp only: rbind_Inr_iff ensure_Inr_iff validate_limitations_iff scopes)
    apply (simp add: rbind_Inr_iff ensure_Inr_iff scopes)
    apply argo
    done
qed


lemma structural_iff:
  "try_fold (\<lambda>limitation limitation_ids.
         rbind (ensure (valid_structural_limitation_reference limitation)
           (InvalidToken ''structural limitation ID'')) (\<lambda>_.
         insert_new limitation limitation_ids (DuplicateStructuralLimitation limitation))) ls ids = Inr ids'
   \<longleftrightarrow> list_all valid_structural_limitation_reference ls \<and> distinct ls \<and> set ls \<inter> ids = {}
     \<and> ids' = set ls \<union> ids"
  by (induction ls arbitrary: ids) (auto simp: result_simps)

definition runner_ids :: "frontend_runner list \<Rightarrow> string list" where
  "runner_ids rs = concat (map (\<lambda>r. map fl_id (fr_limitations r)) rs)"

lemma runner_ids_Cons: "runner_ids (r # rs) = map fl_id (fr_limitations r) @ runner_ids rs"
  by (simp add: runner_ids_def)

lemma runners_iff:
  "try_fold (\<lambda>runner (runners, limitation_ids).
         rbind (insert_new (fr_runner runner) runners (DuplicateRunner (fr_runner runner))) (\<lambda>runners.
         rbind (validate_frontend_runner runner limitation_ids) (\<lambda>limitation_ids.
         Inr (runners, limitation_ids)))) rs (names, ids) = Inr out
   \<longleftrightarrow> list_all runner_ok rs \<and> distinct (map fr_runner rs) \<and> fr_runner ` set rs \<inter> names = {}
     \<and> distinct (runner_ids rs) \<and> set (runner_ids rs) \<inter> ids = {}
     \<and> out = (fr_runner ` set rs \<union> names, set (runner_ids rs) \<union> ids)"
    (is "try_fold ?f _ _ = _ \<longleftrightarrow> _")
proof (induction rs arbitrary: names ids)
  case Nil
  then show ?case by (auto simp: runner_ids_def)
next
  case (Cons r rs)
  have "try_fold ?f (r # rs) (names, ids) = Inr out \<longleftrightarrow> fr_runner r \<notin> names \<and> runner_ok r
      \<and> distinct (map fl_id (fr_limitations r)) \<and> fl_id ` set (fr_limitations r) \<inter> ids = {}
      \<and> try_fold ?f rs (insert (fr_runner r) names, fl_id ` set (fr_limitations r) \<union> ids) = Inr out"
    by (simp add: rbind_Inr_iff insert_new_Inr_iff validate_runner_iff)
  also have "\<dots> \<longleftrightarrow> fr_runner r \<notin> names \<and> runner_ok r
      \<and> distinct (map fl_id (fr_limitations r)) \<and> fl_id ` set (fr_limitations r) \<inter> ids = {}
      \<and> list_all runner_ok rs \<and> distinct (map fr_runner rs)
      \<and> fr_runner ` set rs \<inter> insert (fr_runner r) names = {}
      \<and> distinct (runner_ids rs) \<and> set (runner_ids rs) \<inter> (fl_id ` set (fr_limitations r) \<union> ids) = {}
      \<and> out = (fr_runner ` set rs \<union> insert (fr_runner r) names,
          set (runner_ids rs) \<union> (fl_id ` set (fr_limitations r) \<union> ids))"
    unfolding Cons.IH ..
  also have "\<dots> \<longleftrightarrow> list_all runner_ok (r # rs) \<and> distinct (map fr_runner (r # rs))
      \<and> fr_runner ` set (r # rs) \<inter> names = {}
      \<and> distinct (runner_ids (r # rs)) \<and> set (runner_ids (r # rs)) \<inter> ids = {}
      \<and> out = (fr_runner ` set (r # rs) \<union> names, set (runner_ids (r # rs)) \<union> ids)"
    by (simp add: runner_ids_Cons Un_ac Int_Un_distrib Int_Un_distrib2) blast
  finally show ?case .
qed

lemma run_declaration_iff:
  "validate_frontend_run_declaration d = Inr () \<longleftrightarrow> declaration_ok d"
proof -
  have tokens: "try_fold (\<lambda>(field, value) _. ensure (valid_frontend_token value) (InvalidToken field)) vs () = Inr u
     \<longleftrightarrow> list_all (\<lambda>(field, value). valid_frontend_token value) vs" for vs u
    by (induction vs) (auto simp: result_simps)
  have ids: "limitation_ids d = fd_structural_limitations d @ runner_ids (fd_runners d)"
    by (simp add: limitation_ids_def runner_ids_def)
  show ?thesis
    unfolding validate_frontend_run_declaration_def declaration_ok_def ids LANGUAGE_FRONTEND_PROTOCOL_VERSION_def
    apply (simp only: rbind_Inr_iff ensure_Inr_iff tokens structural_iff runners_iff)
    apply (simp add: Int_commute)
    apply argo
    done
qed

text \<open>C37: The validator accepts exactly the declarations whose claims fit together: the protocol
  version and tokens, at least one runner and no runner twice, limitation names used once in
  the whole declaration, and for every runner an exact run identity, no causal precision
  without the precision it rests on, none at all for tests that run side by side unattributed,
  and a limitation for every axis that is not exact.\<close>

theorem validate_run_declaration_exact:
  "validate_frontend_run_declaration d = Inr () \<longleftrightarrow> declaration_ok d"
  by (rule run_declaration_iff)

end
