(* ===== verification/FrontendProtocol.thy ===== *)
theory FrontendProtocol
  imports Evidence FrontendDeclaration
begin

section \<open>Evidence against its declaration (frontend\_protocol.rs)\<close>

text \<open>
  Before evidence is analysed it is held to what its frontend declared: the limitations are
  the manifest's, every attempt is of a declared runner, carries the identity that runner
  claims exactly, and refers only to phases it recorded, whose causes do not go in a circle.

  \<open>limitation_id\<close> stands for \<open>value.get("id").and_then(Value::as_str)\<close> of \<open>serde_json\<close>, and
  \<open>injected\<close> says whether the test fault \<open>report-request\<close> fires.
\<close>

datatype protocol_error =
    Declaration declaration_error
  | InvalidManifestLimitation
  | DuplicateManifestLimitation string
  | StructuralLimitationMismatch "string list" "string list"
  | UndeclaredRunner string
  | UnobservedRunner string
  | MissingExactIdentity string string
  | ScopeRunMismatch string string
  | RetryMismatch string nat nat
  | InvalidUnstartedResult string
  | InvalidPhaseKind string
  | DuplicatePhase string
  | UnknownPhaseReference string
  | CyclicPhaseReference string
  | AnalysisFailed report_error

subsection \<open>The checks\<close>

definition manifest_limitation_ids ::
  "('v \<Rightarrow> string option) \<Rightarrow> 'v coverage_report_request \<Rightarrow> protocol_error + string set" where
  "manifest_limitation_ids limitation_id request =
     try_fold (\<lambda>limitation ids.
       rbind (case limitation_id limitation of
           Some i \<Rightarrow> if i \<noteq> [] then Inr i else Inl InvalidManifestLimitation
         | None \<Rightarrow> Inl InvalidManifestLimitation) (\<lambda>i.
       insert_new i ids (DuplicateManifestLimitation i)))
     (cm_limitations (rq_manifest request)) {}"

definition present :: "string \<Rightarrow> bool" where
  "present value \<longleftrightarrow> trim value \<noteq> [] \<and> \<not> has_control value"

definition has_attributable_observations :: "raw_test_result \<Rightarrow> bool" where
  "has_attributable_observations raw \<longleftrightarrow> rt_phases raw \<noteq> [] \<or> rt_server raw \<noteq> []
     \<or> list_ex (\<lambda>snapshot. rs_decisions snapshot \<noteq> [] \<or> rs_hits snapshot \<noteq> [] \<or> rs_events snapshot \<noteq> [])
         (rt_runtime raw @ rt_browser raw)"

definition phase_kinds :: "string list" where
  "phase_kinds = [''setup'', ''test'', ''action'', ''assertion'', ''teardown'', ''background'']"

text \<open>The identity of one attempt, up to its phases.\<close>

definition unstarted :: "raw_test_result \<Rightarrow> bool" where
  "unstarted raw \<longleftrightarrow> rt_status raw = Some ''unstarted''"

definition unstarted_reason :: string where
  "unstarted_reason =
     ''it must be a test with no scope, retry, flaky verdict, phase, or observation''"

definition require_scope ::
  "frontend_runner \<Rightarrow> raw_test_result \<Rightarrow> string \<Rightarrow> protocol_error + unit" where
  "require_scope runner raw run_id =
     (let a = fr_attribution runner; missing = MissingExactIdentity (fr_runner runner) in
      case rt_scope raw of
        Some scope \<Rightarrow>
          rbind (ensure (es_run_id scope = run_id) (ScopeRunMismatch run_id (es_run_id scope))) (\<lambda>_.
          rbind (ensure (\<not> (fa_worker a = Exact \<and> \<not> present (es_worker_id scope))) (missing ''worker'')) (\<lambda>_.
          rbind (ensure (\<not> (fa_test a = Exact
              \<and> (\<not> present (es_test_id scope) \<or> rt_test_id raw \<noteq> Some (es_test_id scope)))) (missing ''test'')) (\<lambda>_.
          if fa_retry a = Exact
          then rbind (ok_or (rt_retry raw) (missing ''retry'')) (\<lambda>result_retry.
               ensure (result_retry = es_retry scope) (RetryMismatch (fr_runner runner) result_retry (es_retry scope)))
          else Inr ())))
      | None \<Rightarrow>
          if fa_worker a = Exact \<and> has_attributable_observations raw then Inl (missing ''worker'')
          else if fa_retry a = Exact \<and> rt_retry raw = None \<and> \<not> unstarted raw then Inl (missing ''retry'')
          else Inr ())"

definition phase_reference :: "string set \<Rightarrow> string \<Rightarrow> protocol_error + unit" where
  "phase_reference phase_ids i = ensure (present i \<and> i \<in> phase_ids) (UnknownPhaseReference i)"

definition optional_reference :: "string set \<Rightarrow> string option \<Rightarrow> protocol_error + unit" where
  "optional_reference phase_ids reference =
     (case reference of Some i \<Rightarrow> phase_reference phase_ids i | None \<Rightarrow> Inr ())"

definition require_phase ::
  "frontend_runner \<Rightarrow> coverage_phase \<Rightarrow> string set \<times> string set \<Rightarrow> protocol_error + string set \<times> string set" where
  "require_phase runner phase = (\<lambda>(phase_ids, global_phase_ids).
     rbind (ensure (cp_kind phase \<in> set phase_kinds) (InvalidPhaseKind (cp_kind phase))) (\<lambda>_.
     rbind (ensure (\<not> (fa_phase (fr_attribution runner) = Exact \<and> \<not> present (cp_id phase)))
       (MissingExactIdentity (fr_runner runner) ''phase'')) (\<lambda>_.
     rbind (insert_new (cp_id phase) phase_ids (DuplicatePhase (cp_id phase))) (\<lambda>phase_ids.
     rbind (insert_new (cp_id phase) global_phase_ids (DuplicatePhase (cp_id phase))) (\<lambda>global_phase_ids.
     Inr (phase_ids, global_phase_ids))))))"

text \<open>The pairs of a phase and its cause, and the walk from one phase, cause by cause, until one
  has no cause (true) or one repeats (false).\<close>

definition cause_pairs :: "coverage_phase list \<Rightarrow> (string \<times> string) list" where
  "cause_pairs phases = List.map_filter
     (\<lambda>phase. map_option (\<lambda>cause. (cp_id phase, cause)) (cp_caused_by_phase_id phase)) phases"

function follow_causes :: "('k \<times> 'k) list \<Rightarrow> 'k set \<Rightarrow> 'k \<Rightarrow> bool" where
  "follow_causes causes visited current =
     (if current \<in> visited then False
      else case btree_map causes current of
        None \<Rightarrow> True
      | Some cause \<Rightarrow> follow_causes causes (insert current visited) cause)"
  by pat_completeness auto
termination
proof (relation "measure (\<lambda>(causes, visited, current). card (fst ` set causes - visited))", simp)
  fix causes :: "('k \<times> 'k) list" and visited current cause
  assume "current \<notin> visited" "btree_map causes current = Some cause"
  then have "current \<in> fst ` set causes - visited" using dom_btree_map[of causes] by blast
  moreover have "finite (fst ` set causes - visited)" by simp
  ultimately have "card (fst ` set causes - visited - {current}) < card (fst ` set causes - visited)"
    by (intro card_Diff1_less)
  then show "((causes, insert current visited, cause), causes, visited, current)
      \<in> measure (\<lambda>(causes, visited, current). card (fst ` set causes - visited))"
    by (simp add: Diff_insert [symmetric] insert_commute)
qed

declare follow_causes.simps [simp del]

definition require_acyclic :: "(string \<times> string) list \<Rightarrow> protocol_error + unit" where
  "require_acyclic causes =
     try_fold (\<lambda>start _. ensure (follow_causes causes {} start) (CyclicPhaseReference start))
       (btree_keys causes) ()"

definition require_snapshot :: "string set \<Rightarrow> runtime_snapshot \<Rightarrow> protocol_error + unit" where
  "require_snapshot phase_ids snapshot =
     rbind (try_fold (\<lambda>event _. optional_reference phase_ids (re_phase_id event)) (rs_events snapshot) ()) (\<lambda>_.
     optional_reference phase_ids (rs_phase_id snapshot))"

definition require_exact_identities ::
  "frontend_runner \<Rightarrow> raw_test_result \<Rightarrow> string \<Rightarrow> string set \<Rightarrow> protocol_error + string set" where
  "require_exact_identities runner raw run_id global_phase_ids =
     rbind (ensure (\<not> (fa_test (fr_attribution runner) = Exact
         \<and> \<not> (case rt_test_id raw of Some i \<Rightarrow> present i | None \<Rightarrow> False)))
       (MissingExactIdentity (fr_runner runner) ''test'')) (\<lambda>_.
     rbind (ensure (\<not> (unstarted raw \<and> (rt_role raw \<noteq> ''test'' \<or> rt_scope raw \<noteq> None
         \<or> rt_retry raw \<noteq> None \<or> rt_flaky raw \<or> has_attributable_observations raw)))
       (InvalidUnstartedResult unstarted_reason)) (\<lambda>_.
     rbind (require_scope runner raw run_id) (\<lambda>_.
     rbind (try_fold (require_phase runner) (rt_phases raw) ({}, global_phase_ids)) (\<lambda>(phase_ids, global_phase_ids).
     rbind (try_fold (\<lambda>phase _. optional_reference phase_ids (cp_caused_by_phase_id phase)) (rt_phases raw) ()) (\<lambda>_.
     rbind (require_acyclic (cause_pairs (rt_phases raw))) (\<lambda>_.
     rbind (try_fold (\<lambda>snapshot _. require_snapshot phase_ids snapshot) (rt_runtime raw @ rt_browser raw) ()) (\<lambda>_.
     rbind (try_fold (\<lambda>record _. optional_reference phase_ids (sr_phase_id record)) (rt_server raw) ()) (\<lambda>_.
     Inr global_phase_ids))))))))"

definition validate_frontend_report_request ::
  "('v \<Rightarrow> string option) \<Rightarrow> bool \<Rightarrow> frontend_declaration \<Rightarrow> 'v coverage_report_request
     \<Rightarrow> protocol_error + unit" where
  "validate_frontend_report_request limitation_id injected declaration request =
     rbind (ensure (\<not> injected) InvalidManifestLimitation) (\<lambda>_.
     rbind (case validate_frontend_run_declaration declaration of
         Inl e \<Rightarrow> Inl (Declaration e) | Inr u \<Rightarrow> Inr u) (\<lambda>_.
     rbind (manifest_limitation_ids limitation_id request) (\<lambda>manifest.
     let declared = set (fd_structural_limitations declaration) in
     rbind (ensure (declared = manifest)
       (StructuralLimitationMismatch (sorted_list_of_set declared) (sorted_list_of_set manifest))) (\<lambda>_.
     let runners = map (\<lambda>runner. (fr_runner runner, runner)) (fd_runners declaration) in
     rbind (try_fold (\<lambda>raw (observed, phase_ids).
         let name = tp_runner (rt_provenance raw) in
         rbind (ok_or (btree_map runners name) (UndeclaredRunner name)) (\<lambda>runner.
         rbind (require_exact_identities runner raw (rq_run_id request) phase_ids) (\<lambda>phase_ids.
         Inr (insert name observed, phase_ids))))
       (rq_raw_results request) ({}, {})) (\<lambda>(observed, _).
     case find (\<lambda>runner. runner \<notin> observed \<and> rq_raw_results request \<noteq> []) (btree_keys runners) of
       Some runner \<Rightarrow> Inl (UnobservedRunner runner)
     | None \<Rightarrow> Inr ())))))"

subsection \<open>Following causes finds the circles\<close>

definition cause_of :: "('k \<times> 'k) list \<Rightarrow> ('k \<times> 'k) set" where
  "cause_of causes = {(a, b). btree_map causes a = Some b}"

inductive ends :: "('k \<times> 'k) list \<Rightarrow> 'k \<Rightarrow> bool" for causes where
  ends_here: "btree_map causes a = None \<Longrightarrow> ends causes a"
| ends_later: "btree_map causes a = Some b \<Longrightarrow> ends causes b \<Longrightarrow> ends causes a"

inductive_cases endsE: "ends causes a"

lemma follow_causes_ends: "follow_causes causes visited a \<Longrightarrow> ends causes a"
proof (induction causes visited a rule: follow_causes.induct)
  case (1 causes visited a)
  then show ?case
    by (auto simp: follow_causes.simps[of causes visited a] intro: ends.intros
        split: if_splits option.splits)
qed

lemma ends_no_circle: "ends causes a \<Longrightarrow> (a, a) \<notin> (cause_of causes)\<^sup>+"
proof (induction rule: ends.induct)
  case (ends_here a)
  then show ?case by (auto simp: cause_of_def dest: tranclD)
next
  case (ends_later a b)
  show ?case
  proof
    assume "(a, a) \<in> (cause_of causes)\<^sup>+"
    then obtain c where c: "(a, c) \<in> cause_of causes" "(c, a) \<in> (cause_of causes)\<^sup>*"
      by (auto dest: tranclD)
    then have "c = b" using ends_later.hyps(1) by (simp add: cause_of_def)
    then have "(b, b) \<in> (cause_of causes)\<^sup>+" using c by (auto intro: rtrancl_into_trancl1)
    with ends_later.IH show False by simp
  qed
qed

lemma acyclic_follows:
  "acyclic (cause_of causes) \<Longrightarrow> (\<And>v. v \<in> visited \<Longrightarrow> (v, a) \<in> (cause_of causes)\<^sup>+) \<Longrightarrow>
     follow_causes causes visited a"
proof (induction causes visited a rule: follow_causes.induct)
  case (1 causes visited a)
  have new: "a \<notin> visited" using 1(2,3) by (auto simp: acyclic_def)
  show ?case
  proof (cases "btree_map causes a")
    case None
    with new show ?thesis by (simp add: follow_causes.simps[of causes visited a])
  next
    case (Some b)
    then have step: "(a, b) \<in> cause_of causes" by (simp add: cause_of_def)
    have "follow_causes causes (insert a visited) b"
    proof (rule 1(1)[OF new Some 1(2)])
      fix v assume "v \<in> insert a visited"
      then show "(v, b) \<in> (cause_of causes)\<^sup>+"
        using 1(3)[of v] step by (auto intro: trancl_into_trancl)
    qed
    with new Some show ?thesis by (simp add: follow_causes.simps[of causes visited a])
  qed
qed

lemma require_acyclic_iff: "require_acyclic causes = Inr () \<longleftrightarrow> acyclic (cause_of causes)"
proof -
  have "require_acyclic causes = Inr () \<longleftrightarrow> (\<forall>a \<in> fst ` set causes. follow_causes causes {} a)"
    unfolding require_acyclic_def try_fold_unit_Inr_iff ensure_Inr_iff list_all_iff set_btree_keys ..
  also have "\<dots> \<longleftrightarrow> acyclic (cause_of causes)"
  proof
    assume all: "\<forall>a \<in> fst ` set causes. follow_causes causes {} a"
    have "(a, a) \<notin> (cause_of causes)\<^sup>+" for a
    proof (cases "a \<in> fst ` set causes")
      case True
      then have "follow_causes causes {} a" using all by blast
      then show ?thesis by (rule ends_no_circle[OF follow_causes_ends])
    next
      case False
      then have "btree_map causes a = None" using dom_btree_map[of causes] by blast
      then show ?thesis by (intro ends_no_circle ends_here)
    qed
    then show "acyclic (cause_of causes)" by (simp add: acyclic_def)
  qed (auto intro!: acyclic_follows)
  finally show ?thesis .
qed

subsection \<open>Evidence that keeps its declaration\<close>

text \<open>A name identifies when something but white space is in it and no control character.\<close>

definition identifies :: "string \<Rightarrow> bool" where
  "identifies name \<longleftrightarrow> trim name \<noteq> [] \<and> \<not> has_control name"

definition refers_to :: "string set \<Rightarrow> string option \<Rightarrow> bool" where
  "refers_to phases reference \<longleftrightarrow> reference = None \<or> (\<exists>i \<in> phases. identifies i \<and> reference = Some i)"

definition references :: "raw_test_result \<Rightarrow> string option list" where
  "references raw = map cp_caused_by_phase_id (rt_phases raw)
     @ concat (map (\<lambda>snapshot. map re_phase_id (rs_events snapshot) @ [rs_phase_id snapshot])
         (rt_runtime raw @ rt_browser raw))
     @ map sr_phase_id (rt_server raw)"

text \<open>An attempt that ran in a scope is of this run and carries there each identity its runner claims to
  know exactly; one without a scope observed nothing that would need a worker's identity, and its own retry
  is known unless it never started. A test that never started has nothing of an attempt's.\<close>

definition observed_something :: "raw_test_result \<Rightarrow> bool" where
  "observed_something raw \<longleftrightarrow> rt_phases raw \<noteq> [] \<or> rt_server raw \<noteq> []
     \<or> (\<exists>snapshot \<in> set (rt_runtime raw) \<union> set (rt_browser raw).
          rs_decisions snapshot \<noteq> [] \<or> rs_hits snapshot \<noteq> [] \<or> rs_events snapshot \<noteq> [])"

definition never_started :: "raw_test_result \<Rightarrow> bool" where
  "never_started raw \<longleftrightarrow> rt_status raw = Some ''unstarted''"

definition scope_ok :: "frontend_attribution \<Rightarrow> raw_test_result \<Rightarrow> string \<Rightarrow> execution_scope \<Rightarrow> bool" where
  "scope_ok claims raw run_id scope \<longleftrightarrow> es_run_id scope = run_id
     \<and> (fa_worker claims = Exact \<longrightarrow> identifies (es_worker_id scope))
     \<and> (fa_test claims = Exact \<longrightarrow> identifies (es_test_id scope) \<and> rt_test_id raw = Some (es_test_id scope))
     \<and> (fa_retry claims = Exact \<longrightarrow> rt_retry raw = Some (es_retry scope))"

definition unscoped_ok :: "frontend_attribution \<Rightarrow> raw_test_result \<Rightarrow> bool" where
  "unscoped_ok claims raw \<longleftrightarrow> (fa_worker claims = Exact \<longrightarrow> \<not> observed_something raw)
     \<and> (fa_retry claims = Exact \<longrightarrow> rt_retry raw \<noteq> None \<or> never_started raw)"

definition identity_ok :: "frontend_runner \<Rightarrow> raw_test_result \<Rightarrow> string \<Rightarrow> bool" where
  "identity_ok runner raw run_id \<longleftrightarrow>
     (fa_test (fr_attribution runner) = Exact \<longrightarrow> (\<exists>i. rt_test_id raw = Some i \<and> identifies i))
     \<and> (never_started raw \<longrightarrow> rt_role raw = ''test'' \<and> rt_scope raw = None \<and> rt_retry raw = None
          \<and> \<not> rt_flaky raw \<and> \<not> observed_something raw)
     \<and> (case rt_scope raw of
          Some scope \<Rightarrow> scope_ok (fr_attribution runner) raw run_id scope
        | None \<Rightarrow> unscoped_ok (fr_attribution runner) raw)"

definition phase_ok :: "frontend_runner \<Rightarrow> coverage_phase \<Rightarrow> bool" where
  "phase_ok runner phase \<longleftrightarrow>
     cp_kind phase \<in> {''setup'', ''test'', ''action'', ''assertion'', ''teardown'', ''background''}
     \<and> (fa_phase (fr_attribution runner) = Exact \<longrightarrow> identifies (cp_id phase))"

definition phases_ok :: "frontend_runner \<Rightarrow> raw_test_result \<Rightarrow> bool" where
  "phases_ok runner raw \<longleftrightarrow> list_all (phase_ok runner) (rt_phases raw)
     \<and> list_all (refers_to (cp_id ` set (rt_phases raw))) (references raw)
     \<and> acyclic {(cp_id p, c) |p c. p \<in> set (rt_phases raw) \<and> cp_caused_by_phase_id p = Some c}"

lemma spelled_out:
  "present = identifies" "unstarted = never_started" "has_attributable_observations = observed_something"
  by (auto simp: fun_eq_iff present_def identifies_def unstarted_def never_started_def has_attributable_observations_def
      observed_something_def list_ex_iff)

lemma require_scope_iff:
  "require_scope runner raw run_id = Inr () \<longleftrightarrow> (case rt_scope raw of
     Some scope \<Rightarrow> scope_ok (fr_attribution runner) raw run_id scope
   | None \<Rightarrow> unscoped_ok (fr_attribution runner) raw)"
  by (auto simp: require_scope_def scope_ok_def unscoped_ok_def spelled_out Let_def ensure_def ok_or_def split: option.splits)

lemma optional_reference_iff: "optional_reference ids r = Inr () \<longleftrightarrow> refers_to ids r"
  by (auto simp: optional_reference_def phase_reference_def refers_to_def spelled_out result_simps split: option.splits)

lemma require_phases_iff:
  "try_fold (require_phase runner) ps (seen, global) = Inr r \<longleftrightarrow>
     list_all (phase_ok runner) ps \<and> distinct (map cp_id ps) \<and> cp_id ` set ps \<inter> (seen \<union> global) = {}
     \<and> r = (cp_id ` set ps \<union> seen, cp_id ` set ps \<union> global)"
proof (induction ps arbitrary: seen global)
  case Nil
  then show ?case by auto
next
  case (Cons p ps)
  have one: "require_phase runner p (seen, global) = Inr q \<longleftrightarrow>
      phase_ok runner p
      \<and> cp_id p \<notin> seen \<and> cp_id p \<notin> global \<and> q = (insert (cp_id p) seen, insert (cp_id p) global)" for q
    by (auto simp: require_phase_def phase_ok_def phase_kinds_def spelled_out result_simps)
  have "try_fold (require_phase runner) (p # ps) (seen, global) = Inr r \<longleftrightarrow>
      phase_ok runner p
      \<and> cp_id p \<notin> seen \<and> cp_id p \<notin> global
      \<and> try_fold (require_phase runner) ps (insert (cp_id p) seen, insert (cp_id p) global) = Inr r"
    unfolding try_fold.simps rbind_Inr_iff one by blast
  then show ?case unfolding Cons.IH by auto
qed

lemma fold_unit_iff: "try_fold (\<lambda>x _. f x) xs () = Inr u \<longleftrightarrow> list_all (\<lambda>x. f x = Inr ()) xs"
  using try_fold_unit_Inr_iff[of f xs] by (cases u) simp

lemma cause_pairs_of:
  "distinct (map cp_id ps) \<Longrightarrow> cause_of (cause_pairs ps)
     = {(cp_id p, c) |p c. p \<in> set ps \<and> cp_caused_by_phase_id p = Some c}"
proof -
  assume d: "distinct (map cp_id ps)"
  have keys: "fst ` set (cause_pairs ps) \<subseteq> cp_id ` set ps" for ps
    by (induction ps) (auto simp: cause_pairs_def List.map_filter_simps split: option.splits)
  have "distinct (map fst (cause_pairs ps))"
    using d
  proof (induction ps)
    case (Cons p ps)
    then show ?case using keys[of ps]
      by (auto simp: cause_pairs_def List.map_filter_simps split: option.splits)
  qed (simp add: cause_pairs_def List.map_filter_simps)
  moreover have "(a, c) \<in> set (cause_pairs ps) \<longleftrightarrow> (\<exists>p \<in> set ps. cp_id p = a \<and> cp_caused_by_phase_id p = Some c)" for a c
    by (induction ps) (auto simp: cause_pairs_def List.map_filter_simps split: option.splits)
  ultimately show ?thesis by (auto simp: cause_of_def btree_map_distinct)
qed

lemma require_identities_iff:
  "require_exact_identities runner raw run_id global = Inr global' \<longleftrightarrow>
     identity_ok runner raw run_id \<and> phases_ok runner raw
     \<and> distinct (map cp_id (rt_phases raw)) \<and> cp_id ` set (rt_phases raw) \<inter> global = {}
     \<and> global' = cp_id ` set (rt_phases raw) \<union> global"
proof -
  let ?ids = "cp_id ` set (rt_phases raw)"
  have refs: "list_all (refers_to ids) (references raw) \<longleftrightarrow>
      list_all (\<lambda>p. refers_to ids (cp_caused_by_phase_id p)) (rt_phases raw)
      \<and> list_all (\<lambda>s. list_all (\<lambda>e. refers_to ids (re_phase_id e)) (rs_events s) \<and> refers_to ids (rs_phase_id s))
          (rt_runtime raw @ rt_browser raw)
      \<and> list_all (\<lambda>r. refers_to ids (sr_phase_id r)) (rt_server raw)" for ids
    unfolding references_def by (simp add: list_all_iff) blast
  have snapshot: "require_snapshot ids s = Inr () \<longleftrightarrow>
      list_all (\<lambda>e. refers_to ids (re_phase_id e)) (rs_events s) \<and> refers_to ids (rs_phase_id s)" for ids s
    unfolding require_snapshot_def by (simp add: rbind_Inr_iff fold_unit_iff optional_reference_iff)
  have identity: "identity_ok runner raw run_id \<longleftrightarrow>
      \<not> (fa_test (fr_attribution runner) = Exact \<and> \<not> (case rt_test_id raw of Some i \<Rightarrow> present i | None \<Rightarrow> False))
      \<and> \<not> (unstarted raw \<and> (rt_role raw \<noteq> ''test'' \<or> rt_scope raw \<noteq> None
         \<or> rt_retry raw \<noteq> None \<or> rt_flaky raw \<or> has_attributable_observations raw))
      \<and> require_scope runner raw run_id = Inr ()"
    unfolding identity_ok_def require_scope_iff spelled_out by (cases "rt_test_id raw") auto
  have unit: "(\<exists>u. m = Inr u \<and> P) \<longleftrightarrow> m = Inr () \<and> P" for m :: "protocol_error + unit" and P by auto
  have "require_exact_identities runner raw run_id global = Inr global' \<longleftrightarrow>
     identity_ok runner raw run_id
     \<and> (\<exists>q. try_fold (require_phase runner) (rt_phases raw) ({}, global) = Inr q
        \<and> list_all (\<lambda>p. refers_to (fst q) (cp_caused_by_phase_id p)) (rt_phases raw)
        \<and> acyclic (cause_of (cause_pairs (rt_phases raw)))
        \<and> list_all (\<lambda>s. list_all (\<lambda>e. refers_to (fst q) (re_phase_id e)) (rs_events s) \<and> refers_to (fst q) (rs_phase_id s))
          (rt_runtime raw @ rt_browser raw)
        \<and> list_all (\<lambda>r. refers_to (fst q) (sr_phase_id r)) (rt_server raw) \<and> global' = snd q)"
    unfolding require_exact_identities_def identity
    by (simp only: rbind_Inr_iff ensure_Inr_iff unit fold_unit_iff optional_reference_iff
        require_acyclic_iff snapshot case_prod_beta sum.inject eq_commute[of "snd _"] ex_simps simp_thms) blast
  also have "\<dots> \<longleftrightarrow> identity_ok runner raw run_id \<and> phases_ok runner raw
     \<and> distinct (map cp_id (rt_phases raw)) \<and> ?ids \<inter> global = {} \<and> global' = ?ids \<union> global"
    unfolding require_phases_iff phases_ok_def refs using cause_pairs_of[of "rt_phases raw"] by auto
  finally show ?thesis .
qed

definition limitation_names :: "('v \<Rightarrow> string option) \<Rightarrow> 'v coverage_report_request \<Rightarrow> string list" where
  "limitation_names limitation_id request =
     map (\<lambda>l. the (limitation_id l)) (cm_limitations (rq_manifest request))"

definition limitations_ok ::
  "('v \<Rightarrow> string option) \<Rightarrow> frontend_declaration \<Rightarrow> 'v coverage_report_request \<Rightarrow> bool" where
  "limitations_ok limitation_id d request \<longleftrightarrow>
     list_all (\<lambda>l. limitation_id l \<notin> {None, Some []}) (cm_limitations (rq_manifest request))
     \<and> distinct (limitation_names limitation_id request)
     \<and> set (fd_structural_limitations d) = set (limitation_names limitation_id request)"

definition attempt_ok :: "frontend_declaration \<Rightarrow> string \<Rightarrow> raw_test_result \<Rightarrow> bool" where
  "attempt_ok d run_id raw \<longleftrightarrow> (\<exists>runner \<in> set (fd_runners d).
     fr_runner runner = tp_runner (rt_provenance raw) \<and> identity_ok runner raw run_id \<and> phases_ok runner raw)"

definition request_ok ::
  "('v \<Rightarrow> string option) \<Rightarrow> frontend_declaration \<Rightarrow> 'v coverage_report_request \<Rightarrow> bool" where
  "request_ok limitation_id d request \<longleftrightarrow> declaration_ok d \<and> limitations_ok limitation_id d request
     \<and> list_all (attempt_ok d (rq_run_id request)) (rq_raw_results request)
     \<and> distinct (concat (map (\<lambda>raw. map cp_id (rt_phases raw)) (rq_raw_results request)))
     \<and> (rq_raw_results request = []
        \<or> fr_runner ` set (fd_runners d) \<subseteq> (\<lambda>raw. tp_runner (rt_provenance raw)) ` set (rq_raw_results request))"

lemma manifest_limitations_iff:
  "try_fold (\<lambda>limitation ids.
       rbind (case limitation_id limitation of
           Some i \<Rightarrow> if i \<noteq> [] then Inr i else Inl InvalidManifestLimitation
         | None \<Rightarrow> Inl InvalidManifestLimitation) (\<lambda>i.
       insert_new i ids (DuplicateManifestLimitation i))) ls ids = Inr r
   \<longleftrightarrow> list_all (\<lambda>l. limitation_id l \<notin> {None, Some []}) ls
     \<and> distinct (map (\<lambda>l. the (limitation_id l)) ls)
     \<and> set (map (\<lambda>l. the (limitation_id l)) ls) \<inter> ids = {}
     \<and> r = set (map (\<lambda>l. the (limitation_id l)) ls) \<union> ids" (is "try_fold ?f _ _ = _ \<longleftrightarrow> _")
proof (induction ls arbitrary: ids)
  case Nil
  then show ?case by auto
next
  case (Cons l ls)
  have one: "?f l ids = Inr q \<longleftrightarrow> limitation_id l \<notin> {None, Some []} \<and> the (limitation_id l) \<notin> ids
      \<and> q = insert (the (limitation_id l)) ids" for q
    by (auto simp: result_simps split: option.splits if_splits)
  have "try_fold ?f (l # ls) ids = Inr r \<longleftrightarrow> limitation_id l \<notin> {None, Some []}
      \<and> the (limitation_id l) \<notin> ids \<and> try_fold ?f ls (insert (the (limitation_id l)) ids) = Inr r"
    unfolding try_fold_Cons_Inr one by blast
  then show ?case unfolding Cons.IH by auto
qed

lemma attempts_iff:
  assumes runners: "distinct (map fr_runner (fd_runners d))"
  shows "try_fold (\<lambda>raw (observed, phase_ids).
         let name = tp_runner (rt_provenance raw) in
         rbind (ok_or (btree_map (map (\<lambda>runner. (fr_runner runner, runner)) (fd_runners d)) name) (UndeclaredRunner name)) (\<lambda>runner.
         rbind (require_exact_identities runner raw run_id phase_ids) (\<lambda>phase_ids.
         Inr (insert name observed, phase_ids)))) raws (observed, ids) = Inr r
   \<longleftrightarrow> list_all (attempt_ok d run_id) raws
     \<and> distinct (concat (map (\<lambda>raw. map cp_id (rt_phases raw)) raws))
     \<and> set (concat (map (\<lambda>raw. map cp_id (rt_phases raw)) raws)) \<inter> ids = {}
     \<and> r = ((\<lambda>raw. tp_runner (rt_provenance raw)) ` set raws \<union> observed,
          set (concat (map (\<lambda>raw. map cp_id (rt_phases raw)) raws)) \<union> ids)"
    (is "try_fold ?f _ _ = _ \<longleftrightarrow> _")
proof (induction raws arbitrary: observed ids)
  case Nil
  then show ?case by auto
next
  case (Cons raw raws)
  let ?name = "tp_runner (rt_provenance raw)" and ?phases = "map cp_id (rt_phases raw)"
  have declared: "btree_map (map (\<lambda>runner. (fr_runner runner, runner)) (fd_runners d)) n = Some runner
      \<longleftrightarrow> runner \<in> set (fd_runners d) \<and> fr_runner runner = n" for n runner
    using runners by (subst btree_map_distinct) (auto simp: comp_def)
  have one: "?f raw (observed, ids) = Inr q \<longleftrightarrow> attempt_ok d run_id raw \<and> distinct ?phases
      \<and> set ?phases \<inter> ids = {} \<and> q = (insert ?name observed, set ?phases \<union> ids)" for q
    unfolding prod.case Let_def rbind_Inr_iff ok_or_Inr_iff declared require_identities_iff attempt_ok_def
    by auto
  let ?C = "concat (map (\<lambda>raw. map cp_id (rt_phases raw)) raws)"
  let ?N = "(\<lambda>raw. tp_runner (rt_provenance raw)) ` set raws"
  have "try_fold ?f (raw # raws) (observed, ids) = Inr r \<longleftrightarrow> attempt_ok d run_id raw \<and> distinct ?phases
      \<and> set ?phases \<inter> ids = {} \<and> try_fold ?f raws (insert ?name observed, set ?phases \<union> ids) = Inr r"
    unfolding try_fold_Cons_Inr one by blast
  also have "\<dots> \<longleftrightarrow> (attempt_ok d run_id raw \<and> list_all (attempt_ok d run_id) raws)
      \<and> (distinct ?phases \<and> set ?phases \<inter> ids = {} \<and> distinct ?C \<and> set ?C \<inter> (set ?phases \<union> ids) = {})
      \<and> r = (?N \<union> insert ?name observed, set ?C \<union> (set ?phases \<union> ids))"
    unfolding Cons.IH by (rule iffI; elim conjE; intro conjI; assumption)
  also have "(distinct ?phases \<and> set ?phases \<inter> ids = {} \<and> distinct ?C \<and> set ?C \<inter> (set ?phases \<union> ids) = {})
      \<longleftrightarrow> distinct (?phases @ ?C) \<and> set (?phases @ ?C) \<inter> ids = {}"
    unfolding distinct_append set_append by blast
  also have "set ?C \<union> (set ?phases \<union> ids) = set (?phases @ ?C) \<union> ids" by auto
  also have "?N \<union> insert ?name observed
      = (\<lambda>raw. tp_runner (rt_provenance raw)) ` set (raw # raws) \<union> observed" by auto
  finally show ?case by (simp only: list.map concat.simps list.pred_inject simp_thms conj_assoc)
qed

lemma validate_request_iff:
  "validate_frontend_report_request limitation_id injected d request = Inr ()
     \<longleftrightarrow> \<not> injected \<and> request_ok limitation_id d request"
proof (cases "declaration_ok d")
  case False
  then have "validate_frontend_run_declaration d \<noteq> Inr ()" using run_declaration_iff by blast
  then have "\<exists>e. validate_frontend_run_declaration d = Inl e"
    by (cases "validate_frontend_run_declaration d") auto
  with False show ?thesis
    by (auto simp: validate_frontend_report_request_def request_ok_def result_simps)
next
  case True
  then have v: "validate_frontend_run_declaration d = Inr ()" by (simp add: run_declaration_iff)
  have d: "distinct (map fr_runner (fd_runners d))" using True by (simp add: declaration_ok_def)
  let ?raws = "rq_raw_results request"
  let ?named = "(\<lambda>raw. tp_runner (rt_provenance raw)) ` set ?raws"
  let ?keys = "btree_keys (map (\<lambda>runner. (fr_runner runner, runner)) (fd_runners d))"
  have keys: "set ?keys = fr_runner ` set (fd_runners d)" by (simp add: image_image)
  have found: "(case find (\<lambda>runner. runner \<notin> seen \<and> ?raws \<noteq> []) ?keys of
      Some runner \<Rightarrow> Inl (UnobservedRunner runner) | None \<Rightarrow> Inr ()) = Inr () \<longleftrightarrow>
      ?raws = [] \<or> fr_runner ` set (fd_runners d) \<subseteq> seen" for seen
    unfolding find_case_Inr keys[symmetric] by blast
  have split_pair: "(case p of (observed, _) \<Rightarrow> f observed) = f (fst p)" for p :: "string set \<times> string set" and f
    by (simp add: case_prod_beta)
  show ?thesis
    unfolding validate_frontend_report_request_def v Let_def manifest_limitation_ids_def sum.case
      rbind.simps rbind_Inr_iff ensure_Inr_iff manifest_limitations_iff attempts_iff[OF d, unfolded Let_def]
      split_pair found request_ok_def limitations_ok_def limitation_names_def
    using True by auto
qed


text \<open>C36: The walk along causes that the code makes from every phase finds a circle exactly when
  there is one: it always ends, and passes just when the cause relation is acyclic.\<close>

theorem causality_acyclic:
  "require_acyclic causes = Inr () \<longleftrightarrow> acyclic {(a, b). btree_map causes a = Some b}"
  unfolding require_acyclic_iff cause_of_def ..

end
