(* ===== verification/CreditByTime.thy ===== *)
theory CreditByTime
  imports Evidence
begin

section \<open>Server work no request named (coverage\_report.rs, credit\_by\_time)\<close>

text \<open>
  Work an app server did for a request that named no test is credited to the one test that was
  running when it was done, if one and only one was. \<open>encode\<close> stands for \<open>serde_json::to_vec\<close>
  of a record, by which work that stays no test's is counted once.
\<close>

definition attribution_rank :: "string \<Rightarrow> nat" where
  "attribution_rank attribution =
     (if attribution = ATTRIBUTION_RUN_WIDE then 3 else if attribution = ATTRIBUTION_PARTIAL then 2
      else if attribution = ATTRIBUTION_BY_TIME then 1 else 0)"

definition least_exact :: "string \<Rightarrow> string \<Rightarrow> string" where
  "least_exact left right = (if attribution_rank right > attribution_rank left then right else left)"

record test_window =
  tw_index :: nat
  tw_start :: int
  tw_end :: int
  tw_attempt :: "string option"

fun window_of :: "nat \<times> raw_test_result \<Rightarrow> test_window option" where
  "window_of (index, raw) =
     (if rt_role raw = ''background'' \<or> rt_phases raw = [] then None
      else Some \<lparr>tw_index = index, tw_start = Min (set (map cp_started_at_ms (rt_phases raw))),
        tw_end = Max (set (map (\<lambda>phase. case cp_ended_at_ms phase of Some t \<Rightarrow> t
            | None \<Rightarrow> cp_started_at_ms phase) (rt_phases raw))),
        tw_attempt = map_option es_attempt_id (rt_scope raw)\<rparr>)"

declare window_of.simps [simp del]

definition windows :: "raw_test_result list \<Rightarrow> test_window list" where
  "windows raw_results = List.map_filter window_of (enumerate 0 raw_results)"

text \<open>The attempts a process served a request naming, and the windows its work is judged by.\<close>

definition served_attempts :: "server_record list \<Rightarrow> string set" where
  "served_attempts records = set (List.map_filter sr_id
     (filter (\<lambda>record. sr_record_type record = ''served'') records))"

definition candidate_windows :: "raw_test_result list \<Rightarrow> server_record list \<Rightarrow> test_window list" where
  "candidate_windows raw_results records = (let served = served_attempts records in
     filter (\<lambda>w. served = {} \<or> (case tw_attempt w of Some i \<Rightarrow> i \<in> served | None \<Rightarrow> False))
       (windows raw_results))"

definition owner :: "test_window list \<Rightarrow> server_record \<Rightarrow> nat option" where
  "owner among record =
     (case (sr_request record, sr_timestamp_ms record) of
        (Some _, Some at) \<Rightarrow>
          (case filter (\<lambda>w. tw_start w \<le> at \<and> at \<le> tw_end w) among of
             [only] \<Rightarrow> Some (tw_index only) | _ \<Rightarrow> None)
      | _ \<Rightarrow> None)"

definition process_work :: "raw_test_result list \<Rightarrow> server_record list \<Rightarrow> (nat option \<times> server_record) list" where
  "process_work raw_results records = (let among = candidate_windows raw_results records in
     map (\<lambda>record. (owner among record, record))
       (filter (\<lambda>record. sr_record_type record \<noteq> ''served'') records))"

definition all_work :: "raw_test_result list \<Rightarrow> server_record list list \<Rightarrow> (nat option \<times> server_record) list" where
  "all_work raw_results processes = concat (map (process_work raw_results) processes)"

record credit_state =
  ct_results :: "raw_test_result list"
  ct_kept :: "string set"
  ct_unattributed :: "server_record list"

fun credit :: "(server_record \<Rightarrow> string) \<Rightarrow> nat option \<times> server_record \<Rightarrow> credit_state \<Rightarrow> credit_state" where
  "credit encode (Some index, record) st =
     (let raw = ct_results st ! index in
      st\<lparr>ct_results := (ct_results st)[index :=
          raw\<lparr>rt_attribution := least_exact (rt_attribution raw) ATTRIBUTION_BY_TIME,
              rt_server := rt_server raw @ [record]\<rparr>]\<rparr>)"
| "credit encode (None, record) st =
     (let record = record\<lparr>sr_request := None\<rparr> in
      if encode record \<in> ct_kept st then st
      else st\<lparr>ct_kept := insert (encode record) (ct_kept st),
              ct_unattributed := ct_unattributed st @ [record]\<rparr>)"

definition credit_by_time ::
  "(server_record \<Rightarrow> string) \<Rightarrow> raw_test_result list \<Rightarrow> server_record list list
     \<Rightarrow> raw_test_result list \<times> server_record list" where
  "credit_by_time encode raw_results processes =
     (let st = fold (credit encode) (all_work raw_results processes)
        \<lparr>ct_results = raw_results, ct_kept = {}, ct_unattributed = []\<rparr>
      in (ct_results st, ct_unattributed st))"

subsection \<open>Who is credited, and with what\<close>

definition running_at :: "raw_test_result list \<Rightarrow> server_record list \<Rightarrow> int \<Rightarrow> nat set" where
  "running_at raw_results records at = {i. \<exists>w. i < length raw_results
     \<and> window_of (i, raw_results ! i) = Some w \<and> tw_start w \<le> at \<and> at \<le> tw_end w
     \<and> (served_attempts records = {} \<or> (\<exists>a. tw_attempt w = Some a \<and> a \<in> served_attempts records))}"

definition credited :: "raw_test_result \<Rightarrow> server_record list \<Rightarrow> raw_test_result" where
  "credited raw records = (if records = [] then raw
     else raw\<lparr>rt_attribution := least_exact (rt_attribution raw) ATTRIBUTION_BY_TIME,
              rt_server := rt_server raw @ records\<rparr>)"

definition owned_by :: "nat \<Rightarrow> (nat option \<times> server_record) list \<Rightarrow> server_record list" where
  "owned_by i work = map snd (filter (\<lambda>w. fst w = Some i) work)"

definition unowned :: "(nat option \<times> server_record) list \<Rightarrow> server_record list" where
  "unowned work = map (\<lambda>w. (snd w)\<lparr>sr_request := None\<rparr>) (filter (\<lambda>w. fst w = None) work)"

lemma window_index: "window_of (i, raw) = Some w \<Longrightarrow> tw_index w = i"
  by (auto simp: window_of.simps split: if_splits)

lemma in_windows:
  "w \<in> set (windows raws) \<longleftrightarrow> (\<exists>i < length raws. window_of (i, raws ! i) = Some w)"
  by (auto simp: windows_def set_map_filter_Some in_set_enumerate_eq)

lemma windows_distinct: "distinct (map tw_index (windows raws))"
proof -
  have "map tw_index (List.map_filter window_of ps) = map fst (filter (\<lambda>p. window_of p \<noteq> None) ps)" for ps
    by (induction ps) (auto simp: List.map_filter_simps window_index split: option.splits
       )
  then show ?thesis unfolding windows_def by (simp add: distinct_map_filter)
qed

lemma least_exact_twice [simp]:
  "least_exact (least_exact a b) b = least_exact a b"
  by (simp add: least_exact_def)

lemma credited_more: "credited (credited raw xs) [r] = credited raw (xs @ [r])"
  by (simp add: credited_def)


lemma single_filter:
  assumes "distinct (map f xs)"
  shows "(\<exists>x. filter P xs = [x] \<and> f x = i) \<longleftrightarrow> f ` {x \<in> set xs. P x} = {i}"
proof
  assume "\<exists>x. filter P xs = [x] \<and> f x = i"
  then obtain x where "filter P xs = [x]" "f x = i" by blast
  then have "{x \<in> set xs. P x} = {x}" by (metis list.set(1) list.set(2) set_filter)
  with \<open>f x = i\<close> show "f ` {x \<in> set xs. P x} = {i}" by simp
next
  assume im: "f ` {x \<in> set xs. P x} = {i}"
  then obtain x where x: "x \<in> set xs" "P x" "f x = i" by blast
  have "{y \<in> set xs. P y} \<subseteq> {x}"
    using im x assms by (auto simp: distinct_map dest: inj_onD)
  then have "set (filter P xs) = {x}" using x by auto
  moreover have "distinct (filter P xs)" using assms by (simp add: distinct_map)
  ultimately have "filter P xs = [x]" by (intro singleton_list)
  with x show "\<exists>x. filter P xs = [x] \<and> f x = i" by blast
qed

lemma owner_Some:
  "owner (candidate_windows raws records) r = Some i \<longleftrightarrow>
     sr_request r \<noteq> None \<and> (\<exists>at. sr_timestamp_ms r = Some at \<and> running_at raws records at = {i})"
proof -
  let ?ws = "candidate_windows raws records"
  have "distinct (map tw_index ?ws)"
    unfolding candidate_windows_def Let_def by (rule distinct_map_filter) (rule windows_distinct)
  note single = single_filter[OF this]
  have im: "tw_index ` {w \<in> set ?ws. tw_start w \<le> at \<and> at \<le> tw_end w} = running_at raws records at" for at
  proof -
    have in_ws: "w \<in> set ?ws \<longleftrightarrow> (\<exists>i < length raws. window_of (i, raws ! i) = Some w)
        \<and> (served_attempts records = {} \<or> (\<exists>a. tw_attempt w = Some a \<and> a \<in> served_attempts records))" for w
      by (auto simp: candidate_windows_def Let_def in_windows split: option.splits)
    show ?thesis
    proof (intro set_eqI iffI)
      fix i assume "i \<in> tw_index ` {w \<in> set ?ws. tw_start w \<le> at \<and> at \<le> tw_end w}"
      then obtain w j where "i = tw_index w" "j < length raws" "window_of (j, raws ! j) = Some w"
        "tw_start w \<le> at" "at \<le> tw_end w"
        "served_attempts records = {} \<or> (\<exists>a. tw_attempt w = Some a \<and> a \<in> served_attempts records)"
        using in_ws by blast
      moreover from this(3) have "tw_index w = j" by (rule window_index)
      ultimately show "i \<in> running_at raws records at" unfolding running_at_def by blast
    next
      fix i assume "i \<in> running_at raws records at"
      then obtain w where w: "i < length raws" "window_of (i, raws ! i) = Some w"
        "tw_start w \<le> at" "at \<le> tw_end w"
        "served_attempts records = {} \<or> (\<exists>a. tw_attempt w = Some a \<and> a \<in> served_attempts records)"
        unfolding running_at_def by blast
      then have "w \<in> set ?ws" using in_ws by blast
      with w window_index[OF w(2)] show "i \<in> tw_index ` {w \<in> set ?ws. tw_start w \<le> at \<and> at \<le> tw_end w}"
        by blast
    qed
  qed
  have only: "(case ys of [only] \<Rightarrow> Some (tw_index only) | _ \<Rightarrow> None) = Some i
      \<longleftrightarrow> (\<exists>x. ys = [x] \<and> tw_index x = i)" for ys
    by (auto split: list.splits)
  show ?thesis
    by (cases "sr_request r"; cases "sr_timestamp_ms r") (simp_all add: owner_def only single im)
qed

lemma owner_in_range: "(Some i, r) \<in> set (all_work raws processes) \<Longrightarrow> i < length raws"
proof -
  assume "(Some i, r) \<in> set (all_work raws processes)"
  then obtain records where "owner (candidate_windows raws records) r = Some i"
    by (auto simp: all_work_def process_work_def Let_def)
  then have "i \<in> running_at raws records (the (sr_timestamp_ms r))" by (auto simp: owner_Some)
  then show ?thesis by (auto simp: running_at_def)
qed

lemma credit_results:
  "(\<And>i r. (Some i, r) \<in> set work \<Longrightarrow> i < length (ct_results st)) \<Longrightarrow>
     ct_results (fold (credit encode) work st)
       = map (\<lambda>i. credited (ct_results st ! i) (owned_by i work)) [0..<length (ct_results st)]"
proof (induction work rule: rev_induct)
  case Nil
  show ?case by (rule nth_equalityI) (simp_all add: owned_by_def credited_def)
next
  case (snoc w work)
  let ?st = "fold (credit encode) work st" and ?n = "length (ct_results st)"
  have IH: "ct_results ?st = map (\<lambda>i. credited (ct_results st ! i) (owned_by i work)) [0..<?n]"
    using snoc.IH snoc.prems by fastforce
  obtain o' r where w: "w = (o', r)" by fastforce
  show ?case
  proof (cases o')
    case None
    then show ?thesis using IH w by (simp add: owned_by_def Let_def)
  next
    case (Some i)
    have i: "i < ?n" using snoc.prems[of i r] w Some by simp
    have one: "raw\<lparr>rt_attribution := least_exact (rt_attribution raw) ATTRIBUTION_BY_TIME,
        rt_server := rt_server raw @ [r]\<rparr> = credited raw [r]" for raw
      by (simp add: credited_def)
    show ?thesis
      unfolding fold_append comp_apply fold.simps id_apply w Some credit.simps Let_def one
      by (rule nth_equalityI)
        (use IH i in \<open>simp_all add: nth_list_update owned_by_def credited_more\<close>)
  qed
qed

lemma unowned_snoc:
  "unowned (work @ [(Some i, r)]) = unowned work"
  "unowned (work @ [(None, r)]) = unowned work @ [r\<lparr>sr_request := None\<rparr>]"
  by (simp_all add: unowned_def)

lemma credit_unattributed:
  assumes "st' = fold (credit encode) work
    \<lparr>ct_results = raws, ct_kept = {}, ct_unattributed = []\<rparr>"
  shows "ct_kept st' = encode ` set (unowned work) \<and> distinct (map encode (ct_unattributed st'))
    \<and> encode ` set (ct_unattributed st') = encode ` set (unowned work)
    \<and> set (ct_unattributed st') \<subseteq> set (unowned work)"
  using assms
proof (induction work arbitrary: st' rule: rev_induct)
  case Nil
  then show ?case by (simp add: unowned_def)
next
  case (snoc w work)
  let ?st = "fold (credit encode) work \<lparr>ct_results = raws, ct_kept = {}, ct_unattributed = []\<rparr>"
  have IH: "ct_kept ?st = encode ` set (unowned work)" "distinct (map encode (ct_unattributed ?st))"
    "encode ` set (ct_unattributed ?st) = encode ` set (unowned work)"
    "set (ct_unattributed ?st) \<subseteq> set (unowned work)"
    using snoc.IH[OF refl] by blast+
  obtain o' r where w: "w = (o', r)" by fastforce
  have st': "st' = credit encode w ?st" using snoc.prems by simp
  show ?case
  proof (cases o')
    case None
    let ?r = "r\<lparr>sr_request := None\<rparr>"
    have "encode ?r \<in> ct_kept ?st \<Longrightarrow> st' = ?st"
      "encode ?r \<notin> ct_kept ?st \<Longrightarrow> st' = ?st\<lparr>ct_kept := insert (encode ?r) (ct_kept ?st),
              ct_unattributed := ct_unattributed ?st @ [?r]\<rparr>"
      unfolding st' w None by (simp_all add: Let_def)
    then show ?thesis unfolding w None unowned_snoc
      by (cases "encode ?r \<in> ct_kept ?st") (use IH in \<open>simp_all add: insert_absorb, blast+\<close>)
  next
    case (Some i)
    then show ?thesis using IH unfolding st' w Some unowned_snoc by (simp add: Let_def)
  qed
qed

subsection \<open>Nothing lost, nothing made up\<close>

text \<open>What the comment on \<open>credit_by_time\<close> promises, written over the records: a test runs from the start
  of its first phase to the end of its last; a process may have served any test, or, once it named the
  attempts it served, only those; and work was done by the one test that was running, if one was.\<close>

definition runs_at :: "int \<Rightarrow> raw_test_result \<Rightarrow> bool" where
  "runs_at at raw \<longleftrightarrow> rt_role raw \<noteq> ''background''
     \<and> (\<exists>phase \<in> set (rt_phases raw). cp_started_at_ms phase \<le> at)
     \<and> (\<exists>phase \<in> set (rt_phases raw). at \<le> (case cp_ended_at_ms phase of Some t \<Rightarrow> t | None \<Rightarrow> cp_started_at_ms phase))"

definition names_attempt :: "server_record \<Rightarrow> string \<Rightarrow> bool" where
  "names_attempt record attempt \<longleftrightarrow> sr_record_type record = ''served'' \<and> sr_id record = Some attempt"

definition may_serve :: "server_record list \<Rightarrow> raw_test_result \<Rightarrow> bool" where
  "may_serve records raw \<longleftrightarrow> (\<forall>record \<in> set records. \<forall>attempt. \<not> names_attempt record attempt)
     \<or> (\<exists>scope. rt_scope raw = Some scope \<and> (\<exists>record \<in> set records. names_attempt record (es_attempt_id scope)))"

definition done_by :: "raw_test_result list \<Rightarrow> server_record list \<Rightarrow> server_record \<Rightarrow> nat \<Rightarrow> bool" where
  "done_by raws records record i \<longleftrightarrow> sr_request record \<noteq> None
     \<and> (\<exists>at. sr_timestamp_ms record = Some at
          \<and> {k. k < length raws \<and> runs_at at (raws ! k) \<and> may_serve records (raws ! k)} = {i})"

definition work_of :: "raw_test_result list \<Rightarrow> server_record list list \<Rightarrow> nat \<Rightarrow> server_record list" where
  "work_of raws processes i = concat (map (\<lambda>records.
     filter (\<lambda>record. sr_record_type record \<noteq> ''served'' \<and> done_by raws records record i) records) processes)"

definition work_of_none :: "raw_test_result list \<Rightarrow> server_record list list \<Rightarrow> server_record list" where
  "work_of_none raws processes = concat (map (\<lambda>records. map (\<lambda>record. record\<lparr>sr_request := None\<rparr>)
     (filter (\<lambda>record. sr_record_type record \<noteq> ''served'' \<and> \<not> (\<exists>i. done_by raws records record i)) records)) processes)"

definition credited_with :: "raw_test_result \<Rightarrow> server_record list \<Rightarrow> raw_test_result" where
  "credited_with raw records = (if records = [] then raw
     else raw\<lparr>rt_attribution := (if rt_attribution raw \<in> {''run-wide'', ''partial''} then rt_attribution raw else ''by-time''),
              rt_server := rt_server raw @ records\<rparr>)"

lemma credited_with: "credited raw records = credited_with raw records"
  by (simp add: credited_def credited_with_def least_exact_def attribution_rank_def ATTRIBUTION_RUN_WIDE_def
      ATTRIBUTION_PARTIAL_def ATTRIBUTION_BY_TIME_def)

lemma window_runs:
  "(\<exists>w. window_of (i, raw) = Some w \<and> tw_start w \<le> at \<and> at \<le> tw_end w \<and> Q (tw_attempt w))
     \<longleftrightarrow> runs_at at raw \<and> Q (map_option es_attempt_id (rt_scope raw))"
proof (cases "rt_phases raw = []")
  case False
  let ?ends = "map (\<lambda>phase. case cp_ended_at_ms phase of Some t \<Rightarrow> t | None \<Rightarrow> cp_started_at_ms phase) (rt_phases raw)"
  have "Min (set (map cp_started_at_ms (rt_phases raw))) \<le> at \<longleftrightarrow> (\<exists>phase \<in> set (rt_phases raw). cp_started_at_ms phase \<le> at)"
    using False by (subst Min_le_iff) auto
  moreover have "at \<le> Max (set ?ends) \<longleftrightarrow> (\<exists>phase \<in> set (rt_phases raw). at \<le> (case cp_ended_at_ms phase of Some t \<Rightarrow> t
      | None \<Rightarrow> cp_started_at_ms phase))"
    using False by (subst Max_ge_iff) auto
  ultimately show ?thesis using False by (simp add: window_of.simps runs_at_def)
qed (simp add: window_of.simps runs_at_def)

lemma may_serve_iff:
  "(served_attempts records = {} \<or> (\<exists>a. map_option es_attempt_id (rt_scope raw) = Some a \<and> a \<in> served_attempts records))
     \<longleftrightarrow> may_serve records raw"
proof -
  have "a \<in> served_attempts records \<longleftrightarrow> (\<exists>record \<in> set records. names_attempt record a)" for a
    by (auto simp: served_attempts_def names_attempt_def set_map_filter_Some)
  then show ?thesis by (auto simp: may_serve_def)
qed

lemma running_iff:
  "running_at raws records at = {k. k < length raws \<and> runs_at at (raws ! k) \<and> may_serve records (raws ! k)}"
proof -
  let ?Q = "\<lambda>a. served_attempts records = {} \<or> (\<exists>b. a = Some b \<and> b \<in> served_attempts records)"
  have "running_at raws records at = {k. k < length raws \<and> (\<exists>w. window_of (k, raws ! k) = Some w
      \<and> tw_start w \<le> at \<and> at \<le> tw_end w \<and> ?Q (tw_attempt w))}"
    unfolding running_at_def by blast
  then show ?thesis unfolding window_runs[where Q = ?Q] may_serve_iff .
qed

lemma owner_done: "owner (candidate_windows raws records) record = Some i \<longleftrightarrow> done_by raws records record i"
  by (simp add: owner_Some done_by_def running_iff)

lemma owned_work: "owned_by i (all_work raws processes) = work_of raws processes i"
proof (induction processes)
  case (Cons records processes)
  have "owned_by i (process_work raws records @ work) = filter (\<lambda>record. sr_record_type record \<noteq> ''served''
      \<and> done_by raws records record i) records @ owned_by i work" for work
    by (simp add: owned_by_def process_work_def Let_def filter_map comp_def owner_done conj_commute)
  then show ?case using Cons by (simp add: all_work_def work_of_def)
qed (simp add: all_work_def work_of_def owned_by_def)

lemma unowned_work: "unowned (all_work raws processes) = work_of_none raws processes"
proof (induction processes)
  case (Cons records processes)
  have "owner (candidate_windows raws records) r = None \<longleftrightarrow> \<not> (\<exists>i. done_by raws records r i)" for r
    unfolding owner_done[symmetric] by auto
  then have "unowned (process_work raws records @ work) = map (\<lambda>record. record\<lparr>sr_request := None\<rparr>)
      (filter (\<lambda>record. sr_record_type record \<noteq> ''served'' \<and> \<not> (\<exists>i. done_by raws records record i)) records) @ unowned work" for work
    by (simp add: unowned_def process_work_def Let_def filter_map comp_def conj_commute)
  then show ?case using Cons by (simp add: all_work_def work_of_none_def)
qed (simp add: all_work_def work_of_none_def unowned_def)

text \<open>C39: Crediting loses no work and makes none up. Of every record that is not a process's own note of a
  request it served: the test that was running when the work was done, if only one that its process may
  have served was and the work was done for a request, has it after its own server records, in order, and
  is weakened to credited by time; all other work is returned without its request, each distinct record
  once.\<close>

theorem credit_by_time_exact:
  "let (results, unattributed) = credit_by_time encode raws processes
   in results = map (\<lambda>i. credited_with (raws ! i) (work_of raws processes i)) [0..<length raws]
     \<and> distinct (map encode unattributed)
     \<and> encode ` set unattributed = encode ` set (work_of_none raws processes)
     \<and> set unattributed \<subseteq> set (work_of_none raws processes)"
  using credit_results[of "all_work raws processes"
      "\<lparr>ct_results = raws, ct_kept = {}, ct_unattributed = []\<rparr>" encode, OF owner_in_range]
    credit_unattributed[OF refl, of encode "all_work raws processes" raws]
  by (simp add: credit_by_time_def Let_def credited_with owned_work unowned_work)

text \<open>Work is credited to a test only when that test, and no other its process could have
  served, was running at the moment the work was done, and the work was done for a request.\<close>

theorem credited_to_the_only_one_running:
  "owner (candidate_windows raws records) r = Some i \<longleftrightarrow>
     sr_request r \<noteq> None \<and> (\<exists>at. sr_timestamp_ms r = Some at \<and> running_at raws records at = {i})"
  by (rule owner_Some)

end
