(* ===== verification/RustTestContext.thy ===== *)
theory RustTestContext
  imports Prelude
begin

section \<open>Test contexts of a Rust run (rust\_test\_context.rs)\<close>

text \<open>
  Every selected Rust test gets a 64-bit context: the FNV-1a hash of its name under a domain,
  with the two reserved values remapped. Before a run the supervisor derives them all and
  refuses the run when two tests would share one.
\<close>

definition DOMAIN :: string where
  "DOMAIN = ''supercov-rust-test-v1'' @ [CHR 0x00]"

definition OFFSET_BASIS :: u64 where "OFFSET_BASIS = 0xcbf29ce484222325"

definition PRIME :: u64 where "PRIME = 0x00000100000001b3"

definition RESERVED_REMAP :: u64 where "RESERVED_REMAP = 0xa5a5a5a5a5a5a5a5"

datatype test_context_error =
    InvalidTestName
  | DuplicateTest string
  | Collision u64 string string

text \<open>\<open>{:016x}\<close>\<close>

definition hex_digit :: "nat \<Rightarrow> char" where
  "hex_digit d = (if d < 10 then char_of (48 + d) else char_of (87 + d))"

definition hex16 :: "u64 \<Rightarrow> string" where
  "hex16 w = map (\<lambda>k. hex_digit (unat (drop_bit (4 * k) w) mod 16)) (rev [0..<16])"

fun display_test_context_error :: "test_context_error \<Rightarrow> string" where
  "display_test_context_error InvalidTestName = ''Rust test name is empty or contains NUL''"
| "display_test_context_error (DuplicateTest test) = ''duplicate Rust test identity '' @ test"
| "display_test_context_error (Collision context_id first second) =
     ''Rust test context '' @ hex16 context_id @ '' collides between '' @ first @ '' and '' @ second"

definition unreserved :: "u64 \<Rightarrow> u64" where
  "unreserved value = (if value = 0 \<or> value = - 1 then xor value RESERVED_REMAP else value)"

definition fnv_step :: "char \<Rightarrow> u64 \<Rightarrow> u64" where
  "fnv_step c value = xor value (of_nat (code c)) * PRIME"

definition rust_test_context_id :: "string \<Rightarrow> test_context_error + u64" where
  "rust_test_context_id test =
     (if test = [] \<or> CHR 0x00 \<in> set test then Inl InvalidTestName
      else Inr (unreserved (fold fnv_step (DOMAIN @ test) OFFSET_BASIS)))"

record preflight_state =
  pf_names :: "string set"
  pf_owners :: "u64 \<Rightarrow> string option"
  pf_contexts :: "string \<Rightarrow> u64 option"

definition preflight_step ::
  "(string \<Rightarrow> test_context_error + u64) \<Rightarrow> string \<Rightarrow> preflight_state \<Rightarrow> test_context_error + preflight_state" where
  "preflight_step derive test st =
     (if test \<in> pf_names st then Inl (DuplicateTest test)
      else rbind (derive test) (\<lambda>context_id.
        case pf_owners st context_id of
          Some first \<Rightarrow> Inl (Collision context_id first test)
        | None \<Rightarrow> Inr \<lparr>pf_names = insert test (pf_names st),
              pf_owners = (pf_owners st)(context_id \<mapsto> test),
              pf_contexts = (pf_contexts st)(test \<mapsto> context_id)\<rparr>))"

definition preflight_with ::
  "string list \<Rightarrow> (string \<Rightarrow> test_context_error + u64) \<Rightarrow> test_context_error + (string \<Rightarrow> u64 option)" where
  "preflight_with tests derive =
     rbind (try_fold (preflight_step derive) tests
         \<lparr>pf_names = {}, pf_owners = Map.empty, pf_contexts = Map.empty\<rparr>)
       (\<lambda>st. Inr (pf_contexts st))"

definition preflight_rust_test_contexts ::
  "string list \<Rightarrow> test_context_error + (string \<Rightarrow> u64 option)" where
  "preflight_rust_test_contexts tests = preflight_with tests rust_test_context_id"

subsection \<open>Contexts are told apart\<close>

lemma unreserved_free: "unreserved value \<noteq> 0 \<and> unreserved value \<noteq> - 1"
proof -
  have "xor (0 :: u64) RESERVED_REMAP \<noteq> 0" "xor (0 :: u64) RESERVED_REMAP \<noteq> - 1"
    "xor (- 1 :: u64) RESERVED_REMAP \<noteq> 0" "xor (- 1 :: u64) RESERVED_REMAP \<noteq> - 1"
    by (simp_all add: RESERVED_REMAP_def)
  then show ?thesis by (auto simp: unreserved_def)
qed

definition derives :: "(string \<Rightarrow> test_context_error + u64) \<Rightarrow> string \<Rightarrow> u64 option" where
  "derives derive test = (case derive test of Inr i \<Rightarrow> Some i | Inl _ \<Rightarrow> None)"

definition preflight_inv ::
  "(string \<Rightarrow> test_context_error + u64) \<Rightarrow> string list \<Rightarrow> preflight_state \<Rightarrow> bool" where
  "preflight_inv derive done_tests st \<longleftrightarrow> distinct done_tests \<and> pf_names st = set done_tests
     \<and> list_all (\<lambda>t. derives derive t \<noteq> None) done_tests
     \<and> inj_on (derives derive) (set done_tests)
     \<and> pf_contexts st = (\<lambda>t. if t \<in> set done_tests then derives derive t else None)
     \<and> (\<forall>i t. pf_owners st i = Some t \<longleftrightarrow> t \<in> set done_tests \<and> derives derive t = Some i)"

lemma preflight_step_inv:
  assumes inv: "preflight_inv derive ts st"
  shows "preflight_step derive t st = Inr st' \<longleftrightarrow> (t \<notin> set ts \<and> derives derive t \<noteq> None
      \<and> derives derive t \<notin> derives derive ` set ts \<and> st' = \<lparr>pf_names = insert t (pf_names st),
              pf_owners = (pf_owners st)(the (derives derive t) \<mapsto> t),
              pf_contexts = (pf_contexts st)(t \<mapsto> the (derives derive t))\<rparr>)"
proof -
  have owner: "pf_owners st i = None \<longleftrightarrow> Some i \<notin> derives derive ` set ts" for i
    using inv unfolding preflight_inv_def by (metis (no_types, lifting) imageE imageI not_None_eq)
  show ?thesis
  proof (cases "derive t")
    case (Inl e)
    then have "derives derive t = None" by (simp add: derives_def)
    with Inl show ?thesis by (simp add: preflight_step_def)
  next
    case (Inr b)
    then have d: "derives derive t = Some b" by (simp add: derives_def)
    have names: "pf_names st = set ts" using inv by (simp add: preflight_inv_def)
    show ?thesis using owner[of b]
      by (cases "pf_owners st b") (auto simp: preflight_step_def Inr d names)
  qed
qed

lemma preflight_inv_step:
  assumes inv: "preflight_inv derive ts st" and step: "preflight_step derive t st = Inr st'"
  shows "preflight_inv derive (ts @ [t]) st'"
proof -
  from step have t: "t \<notin> set ts" "derives derive t \<noteq> None" "derives derive t \<notin> derives derive ` set ts"
    and st': "st' = \<lparr>pf_names = insert t (pf_names st),
              pf_owners = (pf_owners st)(the (derives derive t) \<mapsto> t),
              pf_contexts = (pf_contexts st)(t \<mapsto> the (derives derive t))\<rparr>"
    unfolding preflight_step_inv[OF inv] by blast+
  from t(2) obtain i where i: "derives derive t = Some i" by blast
  have "\<forall>j u. pf_owners st' j = Some u \<longleftrightarrow> u \<in> set (ts @ [t]) \<and> derives derive u = Some j"
  proof (intro allI)
    fix j u
    have "pf_owners st j = Some u \<longleftrightarrow> u \<in> set ts \<and> derives derive u = Some j"
      using inv by (simp add: preflight_inv_def)
    then show "pf_owners st' j = Some u \<longleftrightarrow> u \<in> set (ts @ [t]) \<and> derives derive u = Some j"
      using t(1,3) i st' by (auto simp: image_iff)
  qed
  moreover have "inj_on (derives derive) (set (ts @ [t]))"
    using inv t by (simp add: preflight_inv_def)
  ultimately show ?thesis using inv t i st'
    by (auto simp: preflight_inv_def)
qed

lemma preflight_steps:
  "preflight_inv derive ts st \<Longrightarrow>
     (\<exists>st'. try_fold (preflight_step derive) us st = Inr st') \<longleftrightarrow>
       distinct (ts @ us) \<and> list_all (\<lambda>t. derives derive t \<noteq> None) us \<and> inj_on (derives derive) (set (ts @ us))"
  "preflight_inv derive ts st \<Longrightarrow> try_fold (preflight_step derive) us st = Inr st' \<Longrightarrow>
     preflight_inv derive (ts @ us) st'"
proof (induction us arbitrary: ts st)
  case Nil
  { case 1 then show ?case by (simp add: preflight_inv_def) }
  { case 2 then show ?case by simp }
next
  case (Cons u us)
  { case 1
    show ?case
    proof (cases "\<exists>w. preflight_step derive u st = Inr w")
      case True
      then obtain w where w: "preflight_step derive u st = Inr w" by blast
      have "(\<exists>st'. try_fold (preflight_step derive) (u # us) st = Inr st')
          \<longleftrightarrow> (\<exists>st'. try_fold (preflight_step derive) us w = Inr st')" using w by simp
      then show ?thesis using Cons.IH(1)[OF preflight_inv_step[OF 1 w]] w
        unfolding preflight_step_inv[OF 1] by simp
    next
      case False
      then have bad: "u \<in> set ts \<or> derives derive u = None \<or> derives derive u \<in> derives derive ` set ts"
        unfolding preflight_step_inv[OF 1] by blast
      have "\<nexists>st'. try_fold (preflight_step derive) (u # us) st = Inr st'"
        using False by (simp add: try_fold_Cons_Inr del: try_fold.simps)
      with bad show ?thesis by (auto simp: inj_on_def image_iff)
    qed }
  { case 2
    then obtain w where w: "preflight_step derive u st = Inr w" "try_fold (preflight_step derive) us w = Inr st'"
      by (auto simp: result_simps)
    show ?case using Cons.IH(2)[OF preflight_inv_step[OF 2(1) w(1)] w(2)] by simp }
qed

definition valid_test_name :: "string \<Rightarrow> bool" where
  "valid_test_name test \<longleftrightarrow> test \<noteq> [] \<and> CHR 0x00 \<notin> set test"

definition context_of :: "string \<Rightarrow> u64" where
  "context_of test = unreserved (fold fnv_step (DOMAIN @ test) OFFSET_BASIS)"

lemma derives_context: "derives rust_test_context_id t = (if valid_test_name t then Some (context_of t) else None)"
  by (simp add: derives_def rust_test_context_id_def valid_test_name_def context_of_def)

text \<open>A run passes preflight exactly when its tests are told apart: every name is valid and
  appears once, and no two share a context. The map it returns has just those tests, each with
  its own context, which is neither of the reserved values.\<close>

theorem preflight_exact:
  "preflight_rust_test_contexts tests = Inr contexts \<longleftrightarrow>
     distinct tests \<and> list_all valid_test_name tests \<and> inj_on context_of (set tests)
     \<and> contexts = (\<lambda>t. if t \<in> set tests then Some (context_of t) else None)
     \<and> ran contexts \<inter> {0, - 1} = {}"
proof -
  let ?d = rust_test_context_id
  let ?st = "\<lparr>pf_names = {}, pf_owners = Map.empty, pf_contexts = Map.empty\<rparr>"
  have init: "preflight_inv ?d [] ?st" by (simp add: preflight_inv_def fun_eq_iff)
  have named: "list_all (\<lambda>t. derives ?d t \<noteq> None) tests \<longleftrightarrow> list_all valid_test_name tests"
    by (auto simp: list_all_iff derives_context)
  have inj: "inj_on (derives ?d) (set tests) \<longleftrightarrow> inj_on context_of (set tests)"
    if "list_all valid_test_name tests"
    using that by (auto simp: inj_on_def list_all_iff derives_context)
  have passes: "(\<exists>st'. try_fold (preflight_step ?d) tests ?st = Inr st') \<longleftrightarrow>
      distinct tests \<and> list_all valid_test_name tests \<and> inj_on context_of (set tests)"
    using preflight_steps(1)[OF init, of tests] inj unfolding named by auto
  have map: "pf_contexts st' = (\<lambda>t. if t \<in> set tests then Some (context_of t) else None)"
    if "try_fold (preflight_step ?d) tests ?st = Inr st'" "list_all valid_test_name tests" for st'
    using preflight_steps(2)[OF init that(1)] that(2)
    by (auto simp: preflight_inv_def derives_context list_all_iff fun_eq_iff)
  have free: "ran (\<lambda>t. if t \<in> set tests then Some (context_of t) else None) \<inter> {0, - 1} = {}"
    using unreserved_free by (auto simp: ran_def context_of_def split: if_splits)
  have result: "preflight_rust_test_contexts tests = Inr contexts \<longleftrightarrow>
      (\<exists>st'. try_fold (preflight_step ?d) tests ?st = Inr st' \<and> contexts = pf_contexts st')"
    unfolding preflight_rust_test_contexts_def preflight_with_def rbind_Inr_iff sum.inject by metis
  show ?thesis
  proof
    assume "preflight_rust_test_contexts tests = Inr contexts"
    then obtain st' where st': "try_fold (preflight_step ?d) tests ?st = Inr st'" "contexts = pf_contexts st'"
      unfolding result by blast
    then have ok: "distinct tests \<and> list_all valid_test_name tests \<and> inj_on context_of (set tests)"
      using passes by simp
    then show "distinct tests \<and> list_all valid_test_name tests \<and> inj_on context_of (set tests)
     \<and> contexts = (\<lambda>t. if t \<in> set tests then Some (context_of t) else None)
     \<and> ran contexts \<inter> {0, - 1} = {}"
      using map[OF st'(1)] free st'(2) by simp
  next
    assume ok: "distinct tests \<and> list_all valid_test_name tests \<and> inj_on context_of (set tests)
     \<and> contexts = (\<lambda>t. if t \<in> set tests then Some (context_of t) else None)
     \<and> ran contexts \<inter> {0, - 1} = {}"
    then obtain st' where "try_fold (preflight_step ?d) tests ?st = Inr st'" using passes by blast
    with map[OF this] ok show "preflight_rust_test_contexts tests = Inr contexts"
      unfolding result by auto
  qed
qed

end
