(* ===== verification/Interned.thy ===== *)
theory Interned
  imports Prelude
begin

section \<open>The hash of a report's ids (interned.rs)\<close>

text \<open>
  The Fx hash of an id's text: eight bytes at a time, then what is left over in one word with
  its length in the top byte. \<open>hash_str\<close> is what \<open>Hash for str\<close> feeds the hasher: the bytes
  and a closing \<open>0xff\<close>.
\<close>

record fx_hasher =
  fx_hash :: u64

definition FX_SEED :: u64 where "FX_SEED = 0x517cc1b727220a95"

definition fx_add :: "u64 \<Rightarrow> fx_hasher \<Rightarrow> fx_hasher" where
  "fx_add w h = \<lparr>fx_hash = xor (word_rotl 5 (fx_hash h)) w * FX_SEED\<rparr>"

text \<open>\<open>u64::from_le_bytes\<close>\<close>

definition from_le_bytes :: "string \<Rightarrow> u64" where
  "from_le_bytes bytes = foldr (\<lambda>c w. of_nat (code c) + 256 * w) bytes 0"

text \<open>\<open>chunks_exact(8)\<close> and its remainder.\<close>

function chunks_exact8 :: "string \<Rightarrow> string list \<times> string" where
  "chunks_exact8 bytes =
     (if length bytes < 8 then ([], bytes)
      else let (chunks, rest) = chunks_exact8 (drop 8 bytes) in (take 8 bytes # chunks, rest))"
  by pat_completeness auto
termination by (relation "measure length") auto

declare chunks_exact8.simps [simp del]

definition fx_write :: "string \<Rightarrow> fx_hasher \<Rightarrow> fx_hasher" where
  "fx_write bytes h =
     (let (chunks, rest) = chunks_exact8 bytes;
          h = fold (\<lambda>chunk. fx_add (from_le_bytes chunk)) chunks h
      in if rest = [] then h
         else let word = rest @ replicate (8 - length rest) (CHR 0x00)
              in fx_add (xor (from_le_bytes word) (push_bit 56 (of_nat (length rest)))) h)"

definition fx_write_u8 :: "u8 \<Rightarrow> fx_hasher \<Rightarrow> fx_hasher" where
  "fx_write_u8 value h = fx_add (ucast value) h"

definition fx_write_usize :: "u64 \<Rightarrow> fx_hasher \<Rightarrow> fx_hasher" where
  "fx_write_usize value h = fx_add value h"

definition fx_finish :: "fx_hasher \<Rightarrow> u64" where
  "fx_finish h = fx_hash h"

definition hash_str :: "string \<Rightarrow> fx_hasher \<Rightarrow> fx_hasher" where
  "hash_str text h = fx_write_u8 0xff (fx_write text h)"

subsection \<open>Short ids never collide\<close>

lemma seed_inverse: "\<exists>v. FX_SEED * v = 1"
proof
  show "FX_SEED * 0x2040003d780970bd = 1" by (simp add: FX_SEED_def)
qed

lemma seed_inject: "a * FX_SEED = b * FX_SEED \<longleftrightarrow> a = b"
proof -
  obtain v where "FX_SEED * v = 1" using seed_inverse by blast
  then have "x * FX_SEED * v = x" for x by (simp add: mult.assoc)
  then show ?thesis by metis
qed

lemma xor_inject_left: "xor a b = xor a c \<longleftrightarrow> b = (c :: u64)"
proof
  assume eq: "xor a b = xor a c"
  have cancel: "xor a (xor a x) = x" for x :: u64 by (simp flip: xor.assoc)
  show "b = c" using arg_cong[OF eq, of "xor a"] unfolding cancel .
qed simp

lemma xor_inject_right: "xor b a = xor c a \<longleftrightarrow> b = (c :: u64)"
  by (simp only: xor.commute[of _ a] xor_inject_left)

lemma rotl_inject: "word_rotl n a = word_rotl n b \<longleftrightarrow> a = (b :: u64)"
  by (metis word_rot_gal)

lemma fx_add_word: "fx_add v h = fx_add w h \<longleftrightarrow> v = w"
  by (simp add: fx_add_def seed_inject xor_inject_left)

lemma fx_add_state: "fx_add w g = fx_add w h \<longleftrightarrow> fx_hash g = fx_hash h"
  by (simp add: fx_add_def seed_inject xor_inject_right rotl_inject)

definition le_value :: "string \<Rightarrow> nat" where
  "le_value bytes = foldr (\<lambda>c n. code c + 256 * n) bytes 0"

lemma from_le_bytes_value: "from_le_bytes bytes = of_nat (le_value bytes)"
  by (induction bytes) (simp_all add: from_le_bytes_def le_value_def)

lemma le_value_bound: "le_value bytes < 256 ^ length bytes"
proof (induction bytes)
  case (Cons c bytes)
  then have "Suc (le_value bytes) \<le> 256 ^ length bytes" by simp
  then have "256 * Suc (le_value bytes) \<le> 256 * 256 ^ length bytes" by (rule mult_le_mono2)
  moreover have "le_value (c # bytes) = code c + 256 * le_value bytes" by (simp add: le_value_def)
  moreover have "code c + 256 * le_value bytes < 256 * Suc (le_value bytes)"
    using code_less[of c] by (simp del: code_less)
  ultimately show ?case unfolding length_Cons power_Suc by (metis less_le_trans)
qed (simp add: le_value_def)

lemma le_value_inject:
  "length a = length b \<Longrightarrow> le_value a = le_value b \<Longrightarrow> a = b"
proof (induction a b rule: list_induct2)
  case (Cons c a d b)
  have v: "le_value (x # xs) = code x + 256 * le_value xs" for x xs by (simp add: le_value_def)
  have e: "code c + 256 * le_value a = code d + 256 * le_value b" using Cons.prems by (simp only: v)
  have "(code c + 256 * le_value a) mod 256 = (code d + 256 * le_value b) mod 256"
    unfolding e ..
  then have "code c = code d" using code_less[of c] code_less[of d] by simp
  moreover from this e have "le_value a = le_value b" by simp
  ultimately show ?case using Cons.IH by (metis char_of_code)
qed simp

lemma le_value_padded: "le_value (bytes @ replicate n (CHR 0x00)) = le_value bytes"
proof -
  have "le_value (replicate n (CHR 0x00)) = 0" by (induction n) (simp_all add: le_value_def code_def)
  then show ?thesis by (simp add: le_value_def)
qed

definition rest_word :: "string \<Rightarrow> u64" where
  "rest_word rest = xor (from_le_bytes (rest @ replicate (8 - length rest) (CHR 0x00)))
     (push_bit 56 (of_nat (length rest)))"

lemma rest_word_inject:
  assumes "length a < 8" "length b < 8" and eq: "rest_word a = rest_word b"
  shows "a = b"
proof -
  have small: "le_value x < 2 ^ 56" if "length x < 8" for x
  proof -
    have "(256 :: nat) ^ length x \<le> 256 ^ 7" using that by (intro power_increasing) auto
    then show ?thesis using le_value_bound[of x] by simp
  qed
  have w: "rest_word x = xor (of_nat (le_value x)) (push_bit 56 (of_nat (length x)))" for x
    by (simp add: rest_word_def from_le_bytes_value le_value_padded)
  have low: "take_bit 56 (rest_word x) = of_nat (le_value x)" if "length x < 8" for x
  proof -
    have "take_bit 56 (of_nat (le_value x) :: u64) = of_nat (take_bit 56 (le_value x))"
      by (simp add: of_nat_take_bit)
    also have "take_bit 56 (le_value x) = le_value x"
      using small[OF that] by (simp add: take_bit_nat_eq_self)
    finally show ?thesis by (simp add: w take_bit_xor take_bit_push_bit)
  qed
  have "(of_nat (le_value a) :: u64) = of_nat (le_value b)"
    using low[OF assms(1)] low[OF assms(2)] eq by simp
  then have "unat (of_nat (le_value a) :: u64) = unat (of_nat (le_value b) :: u64)" by simp
  then have v: "le_value a = le_value b"
    using small[OF assms(1)] small[OF assms(2)] by (simp add: unat_of_nat)
  have "push_bit 56 (of_nat (length a) :: u64) = push_bit 56 (of_nat (length b))"
    using eq unfolding w v xor_inject_left .
  then have "(of_nat (length a * 2 ^ 56) :: u64) = of_nat (length b * 2 ^ 56)"
    by (simp add: push_bit_eq_mult)
  then have "unat (of_nat (length a * 2 ^ 56) :: u64) = unat (of_nat (length b * 2 ^ 56) :: u64)" by simp
  then have "length a = length b" using assms(1,2) by (simp only: unat_of_nat) simp
  with v show ?thesis by (rule le_value_inject[rotated])
qed

lemma fx_write_short:
  "length x < 8 \<Longrightarrow> fx_write x h = (if x = [] then h else fx_add (rest_word x) h)"
  by (simp add: fx_write_def chunks_exact8.simps rest_word_def Let_def)

lemma hash_short_inject:
  assumes "length a < 8" "length b < 8"
    and eq: "fx_finish (hash_str a \<lparr>fx_hash = 0\<rparr>) = fx_finish (hash_str b \<lparr>fx_hash = 0\<rparr>)"
  shows "a = b"
proof -
  have "fx_add 0xff (fx_write a \<lparr>fx_hash = 0\<rparr>) = fx_add 0xff (fx_write b \<lparr>fx_hash = 0\<rparr>)"
    using eq by (simp add: hash_str_def fx_write_u8_def fx_finish_def)
  then have same: "fx_write a \<lparr>fx_hash = 0\<rparr> = fx_write b \<lparr>fx_hash = 0\<rparr>"
    unfolding fx_add_state by simp
  have "le_value (replicate 8 (CHR 0x00)) = 0"
    using le_value_padded[of "[]" 8] by (simp only: append_Nil) (simp add: le_value_def)
  then have nil: "rest_word [] = 0" by (simp add: rest_word_def from_le_bytes_value)
  have "fx_write x \<lparr>fx_hash = 0\<rparr> = fx_add (rest_word x) \<lparr>fx_hash = 0\<rparr>" if "length x < 8" for x
    using that nil by (simp add: fx_write_short fx_add_def)
  then have "rest_word a = rest_word b" using same assms(1,2) by (simp add: fx_add_word)
  then show ?thesis using rest_word_inject[OF assms(1,2)] by blast
qed

text \<open>No two ids of fewer than eight bytes hash alike: what is left over goes in with its
  length, the closing byte and the multiplication by an odd seed lose nothing.\<close>

lemma short_ids_hash_apart:
  "inj_on (\<lambda>text. fx_finish (hash_str text \<lparr>fx_hash = 0\<rparr>)) {text. length text < 8}"
  by (rule inj_onI) (simp add: hash_short_inject)

end
