(* ===== verification/TestKind.thy ===== *)
theory TestKind
  imports Prelude
begin

section \<open>A test's kind, from its tags and its path (test\_kind.rs)\<close>

definition KINDS :: "(string \<times> string list) list" where
  "KINDS = [(''unit'', [''unit'']), (''component'', [''component'', ''components'', ''ct'']),
     (''integration'', [''integration'', ''int'', ''requests'']),
     (''e2e'', [''e2e'', ''end-to-end'', ''offline'', ''online''])]"

definition DIRECTORIES :: "(string \<times> string) list" where
  "DIRECTORIES = [(''system'', ''e2e''), (''features'', ''e2e'')]"

text \<open>\<open>str::replace\<close> of one text by another, from the left, without overlaps.\<close>

fun replace_text :: "nat \<Rightarrow> string \<Rightarrow> string \<Rightarrow> string \<Rightarrow> string" where
  "replace_text (Suc skip) pat rep (c # s) = replace_text skip pat rep s"
| "replace_text 0 pat rep (c # s) =
     (if pat \<noteq> [] \<and> starts_with pat (c # s) then rep @ replace_text (length pat - 1) pat rep s
      else c # replace_text 0 pat rep s)"
| "replace_text skip pat rep [] = []"

fun spaced_words :: "char option \<Rightarrow> string \<Rightarrow> string" where
  "spaced_words previous [] = []"
| "spaced_words previous (c # s) =
     (if is_ascii_uppercase c
         \<and> (case previous of Some b \<Rightarrow> is_ascii_lowercase b \<or> is_ascii_digit b | None \<Rightarrow> False)
      then '' '' else [])
     @ (if c = CHR ''_'' \<or> c = CHR ''.'' then CHR '' '' else to_ascii_lowercase c)
     # spaced_words (Some c) s"

definition word_kind :: "string \<Rightarrow> string option" where
  "word_kind word = map_option fst (find (\<lambda>(_, words). word \<in> set words) KINDS)"

fun last_kind :: "string option \<Rightarrow> string list \<Rightarrow> string option" where
  "last_kind best [] = best"
| "last_kind best (word # words) =
     (let word = map (\<lambda>c. if c = CHR ''~'' then CHR ''-'' else c) word in
      case word_kind word of Some kind \<Rightarrow> last_kind (Some kind) words | None \<Rightarrow> last_kind best words)"

definition segment_kind :: "string \<Rightarrow> string option" where
  "segment_kind segment =
     (let spaced = replace_text 0 ''end-to-end'' ''end~to~end'' (spaced_words None segment);
          spaced = map (\<lambda>c. if c = CHR ''-'' then CHR '' '' else c) spaced
      in last_kind None (split_on CHR '' '' spaced))"

definition tag_kind :: "string \<Rightarrow> string option" where
  "tag_kind tag =
     (let name = map to_ascii_lowercase (dropWhile (\<lambda>c. c = CHR ''@'') tag)
      in if name \<in> {''unit'', ''component'', ''integration'', ''e2e''} then Some name else None)"

fun find_map :: "('a \<Rightarrow> 'b option) \<Rightarrow> 'a list \<Rightarrow> 'b option" where
  "find_map f [] = None"
| "find_map f (x # xs) = (case f x of Some y \<Rightarrow> Some y | None \<Rightarrow> find_map f xs)"

definition from_tags :: "string list \<Rightarrow> string option" where
  "from_tags tags = find_map tag_kind tags"

definition directory_kind :: "string \<Rightarrow> string option" where
  "directory_kind directory =
     (case find (\<lambda>(name, _). map to_ascii_lowercase directory = map to_ascii_lowercase name) DIRECTORIES of
        Some (_, kind) \<Rightarrow> Some kind
      | None \<Rightarrow> segment_kind directory)"

text \<open>A path's segments: split on either slash.\<close>

definition segments_of :: "string \<Rightarrow> string list" where
  "segments_of f = split_on CHR ''/'' (map (\<lambda>c. if c = CHR 0x5C then CHR ''/'' else c) f)"

definition from_path :: "string option \<Rightarrow> string" where
  "from_path source_file = (case source_file of None \<Rightarrow> ''unit''
    | Some f \<Rightarrow>
        (let segments = segments_of f; name = last segments; directories = butlast segments in
         case find_map directory_kind (rev directories) of Some kind \<Rightarrow> kind
         | None \<Rightarrow> (case segment_kind name of Some kind \<Rightarrow> kind | None \<Rightarrow> ''unit'')))"

definition with_tags :: "string option \<Rightarrow> string list \<Rightarrow> string" where
  "with_tags source_file tags = (case from_tags tags of Some kind \<Rightarrow> kind | None \<Rightarrow> from_path source_file)"

subsection \<open>One of four kinds, the nearest statement first\<close>

definition kind_names :: "string set" where
  "kind_names = {''unit'', ''component'', ''integration'', ''e2e''}"

lemma word_kind_names: "word_kind w = Some k \<Longrightarrow> k \<in> kind_names"
  by (auto simp: word_kind_def KINDS_def kind_names_def split: if_splits)

lemma last_kind_names: "last_kind best ws = Some k \<Longrightarrow> (best = Some k \<longrightarrow> k \<in> kind_names) \<Longrightarrow> k \<in> kind_names"
  by (induction best ws rule: last_kind.induct) (auto simp: Let_def dest: word_kind_names split: option.splits)

lemma segment_kind_names: "segment_kind s = Some k \<Longrightarrow> k \<in> kind_names"
  by (auto simp: segment_kind_def Let_def intro: last_kind_names)

lemma directory_kind_names: "directory_kind d = Some k \<Longrightarrow> k \<in> kind_names"
  by (auto simp: directory_kind_def DIRECTORIES_def kind_names_def segment_kind_names[unfolded kind_names_def]
      dest: segment_kind_names split: option.splits if_splits)

lemma find_map_Some:
  "find_map f xs = Some y \<longleftrightarrow> (\<exists>us x vs. xs = us @ x # vs \<and> f x = Some y \<and> list_all (\<lambda>u. f u = None) us)"
proof (induction xs)
  case (Cons x xs)
  show ?case
  proof (cases "f x")
    case None
    then have "find_map f (x # xs) = Some y \<longleftrightarrow> find_map f xs = Some y" by simp
    also have "\<dots> \<longleftrightarrow> (\<exists>us x' vs. x # xs = us @ x' # vs \<and> f x' = Some y \<and> list_all (\<lambda>u. f u = None) us)"
      (is "_ \<longleftrightarrow> ?R")
    proof
      assume "find_map f xs = Some y"
      then obtain us x' vs where "xs = us @ x' # vs" "f x' = Some y" "list_all (\<lambda>u. f u = None) us"
        unfolding Cons.IH by blast
      with None show ?R by (intro exI[of _ "x # us"] exI[of _ x'] exI[of _ vs]) simp
    next
      assume ?R
      then obtain us x' vs where "x # xs = us @ x' # vs" "f x' = Some y" "list_all (\<lambda>u. f u = None) us" by blast
      with None show "find_map f xs = Some y" unfolding Cons.IH by (cases us) auto
    qed
    finally show ?thesis .
  next
    case (Some z)
    have "y = z" if "\<exists>us x' vs. x # xs = us @ x' # vs \<and> f x' = Some y \<and> list_all (\<lambda>u. f u = None) us"
    proof -
      from that obtain us x' vs where "x # xs = us @ x' # vs" "f x' = Some y" "list_all (\<lambda>u. f u = None) us"
        by blast
      with Some show ?thesis by (cases us) auto
    qed
    moreover have "\<exists>us x' vs. x # xs = us @ x' # vs \<and> f x' = Some z \<and> list_all (\<lambda>u. f u = None) us"
      using Some by (intro exI[of _ "[]"] exI[of _ x] exI[of _ xs]) simp
    ultimately show ?thesis using Some by auto
  qed
qed simp

text \<open>A test's kind is one of the four, and the nearest statement of it wins: a tag's over the
  path's, and of the path's the one of the last directory that names one.\<close>

theorem kind_of_nearest:
  assumes "from_tags tags = None" and "segments_of f = outer @ directory # inner @ [name]"
    and "directory_kind directory = Some kind" and "list_all (\<lambda>d. directory_kind d = None) inner"
  shows "with_tags (Some f) tags = kind \<and> kind \<in> kind_names"
proof -
  have "find_map directory_kind (rev (outer @ directory # inner)) = Some kind"
    unfolding find_map_Some using assms(3,4)
    by (intro exI[of _ "rev inner"] exI[of _ directory] exI[of _ "rev outer"]) (simp add: list_all_iff)
  moreover have "butlast (segments_of f) = outer @ directory # inner"
    unfolding assms(2) by (simp add: butlast_append)
  ultimately have "with_tags (Some f) tags = kind"
    using assms(1) by (simp add: with_tags_def from_path_def Let_def)
  with assms(3) show ?thesis by (simp add: directory_kind_names)
qed

theorem kind_of_nearest_witness:
  "with_tags (Some ''spec/unit/checkoutE2e/home.ts'') [''@slow''] = ''e2e''"
proof -
  have tags: "from_tags [''@slow''] = None" by code_simp
  have segments: "segments_of ''spec/unit/checkoutE2e/home.ts''
      = [''spec'', ''unit''] @ ''checkoutE2e'' # [] @ [''home.ts'']" by code_simp
  have kind: "directory_kind ''checkoutE2e'' = Some ''e2e''" by code_simp
  from kind_of_nearest[OF tags segments kind] show ?thesis by simp
qed

end
