(* ===== verification/AgentJson.thy ===== *)
theory AgentJson
  imports Prelude
begin

section \<open>Replies to an agent: pages and envelopes (agent\_json.rs)\<close>

text \<open>
  \<open>serde_json\<close> is not part of the repository: \<open>encode\<close> and \<open>encode_failure\<close> are
  \<open>serde_json::to_string\<close> of an envelope. A \<open>usize\<close> is a natural below \<open>2 ^ 64\<close>, and adding
  two of them saturates.
\<close>

definition AGENT_JSON_SCHEMA_VERSION :: u32 where "AGENT_JSON_SCHEMA_VERSION = 1"

definition AGENT_JSON_MAX_BYTES :: nat where "AGENT_JSON_MAX_BYTES = 65536"

definition USIZE_MAX :: nat where "USIZE_MAX = 2 ^ 64 - 1"

datatype error_code =
    AmbiguousSelector | DecisionNotFound | FilterUnavailable | InternalError | InvalidArgument
  | MinimizationComplexityLimit | NoRuns | ResponseTooLargeCode | RunNotFound | ScopeUnavailable
  | SourceNotFound | TargetUnreachable | TestFilterEmpty | TestNotFound | UnattributedEvidence
  | UnknownCommand

record 'v agent_error =
  ge_code :: error_code
  ge_message :: string
  ge_retryable :: bool
  ge_details :: "'v option"

record response_too_large =
  rl_actual_bytes :: nat
  rl_max_bytes :: nat

record agent_pagination =
  ap_offset :: nat
  ap_limit :: nat
  ap_returned :: nat
  ap_total :: nat
  ap_has_more :: bool
  ap_next_offset :: "nat option"

record 'd success_envelope =
  se_schema_version :: u32
  se_ok :: bool
  se_command :: string
  se_data :: 'd
  se_pagination :: "agent_pagination option"

record 'v failure_envelope =
  fe_schema_version :: u32
  fe_ok :: bool
  fe_command :: "string option"
  fe_error :: "'v agent_error"

definition newline_json :: "('a \<Rightarrow> string) \<Rightarrow> 'a \<Rightarrow> string" where
  "newline_json encode value = encode value @ [CHR 0x0A]"

definition saturating_add :: "nat \<Rightarrow> nat \<Rightarrow> nat" where
  "saturating_add a b = min (a + b) USIZE_MAX"

definition pagination :: "nat \<Rightarrow> nat \<Rightarrow> nat \<Rightarrow> nat \<Rightarrow> agent_pagination" where
  "pagination offset limit returned count_of =
     (let next_offset = saturating_add offset returned;
          has_more = (returned > 0 \<and> next_offset < count_of)
      in \<lparr>ap_offset = offset, ap_limit = limit, ap_returned = returned, ap_total = count_of,
          ap_has_more = has_more, ap_next_offset = (if has_more then Some next_offset else None)\<rparr>)"

text \<open>\<open>starved\<close> says whether the test fault \<open>reply-too-large\<close> fires.\<close>

definition success ::
  "('d success_envelope \<Rightarrow> string) \<Rightarrow> bool \<Rightarrow> string \<Rightarrow> 'd \<Rightarrow> agent_pagination option
     \<Rightarrow> response_too_large + string" where
  "success encode starved command data page =
     (let page = (case page of
            Some page \<Rightarrow> if ap_limit page = USIZE_MAX then Some (page\<lparr>ap_limit := ap_total page\<rparr>) else Some page
          | None \<Rightarrow> None);
          json = newline_json encode \<lparr>se_schema_version = AGENT_JSON_SCHEMA_VERSION, se_ok = True,
            se_command = command, se_data = data, se_pagination = page\<rparr>;
          max_bytes = (if starved then 0 else AGENT_JSON_MAX_BYTES)
      in if length json > max_bytes
         then Inl \<lparr>rl_actual_bytes = length json, rl_max_bytes = max_bytes\<rparr>
         else Inr json)"

text \<open>\<open>chars().take(n)\<close> of UTF-8 text: the bytes before the \<open>n\<close>-th character that follows; a
  continuation byte is \<open>10xxxxxx\<close>.\<close>

definition continuation :: "char \<Rightarrow> bool" where
  "continuation c \<longleftrightarrow> 128 \<le> code c \<and> code c < 192"

fun take_chars :: "nat \<Rightarrow> string \<Rightarrow> string" where
  "take_chars n [] = []"
| "take_chars n (c # s) = (if continuation c then c # take_chars n s
     else case n of 0 \<Rightarrow> [] | Suc n \<Rightarrow> c # take_chars n s)"

definition failure :: "('v failure_envelope \<Rightarrow> string) \<Rightarrow> string option \<Rightarrow> 'v agent_error \<Rightarrow> string" where
  "failure encode_failure command error =
     (let envelope = \<lparr>fe_schema_version = AGENT_JSON_SCHEMA_VERSION, fe_ok = False,
          fe_command = command, fe_error = error\<rparr>;
          json = newline_json encode_failure envelope
      in if length json \<le> AGENT_JSON_MAX_BYTES then json
         else let truncated = error\<lparr>ge_message := take_chars 1000 (ge_message error), ge_details := None\<rparr>
              in newline_json encode_failure (envelope\<lparr>fe_error := truncated\<rparr>))"

subsection \<open>Following the pages\<close>

text \<open>A query answers a page with \<open>skip(offset).take(limit)\<close> of its list. A client that asks for
  the next page while there is one further on:\<close>

definition query_page :: "'a list \<Rightarrow> nat \<Rightarrow> nat \<Rightarrow> 'a list \<times> agent_pagination" where
  "query_page xs offset limit =
     (let page = take limit (drop offset xs) in (page, pagination offset limit (length page) (length xs)))"

function follow_pages :: "'a list \<Rightarrow> nat \<Rightarrow> nat \<Rightarrow> 'a list list" where
  "follow_pages xs offset limit =
     (let (page, info) = query_page xs offset limit in
      page # (case ap_next_offset info of None \<Rightarrow> [] | Some next_offset \<Rightarrow>
        if offset < next_offset then follow_pages xs next_offset limit else []))"
  by pat_completeness auto
termination
proof (relation "measure (\<lambda>(xs, offset, limit). Suc (length xs) - offset)", simp)
  fix xs :: "'a list" and offset limit x page info next_offset
  assume "x = query_page xs offset limit" "(page, info) = x" "ap_next_offset info = Some next_offset"
    "offset < next_offset"
  then have "offset < next_offset" "next_offset < length xs"
    by (auto simp: query_page_def Let_def pagination_def split: if_splits)
  then show "((xs, next_offset, limit), xs, offset, limit) \<in> measure (\<lambda>(xs, offset, limit). Suc (length xs) - offset)"
    by simp
qed

declare follow_pages.simps [simp del]

lemma follow_pages_rest:
  assumes "0 < limit" and "length xs \<le> USIZE_MAX"
  shows "concat (follow_pages xs offset limit) = drop offset xs"
  using assms
proof (induction xs offset limit rule: follow_pages.induct)
  case (1 xs offset limit)
  let ?page = "take limit (drop offset xs)"
  let ?info = "pagination offset limit (length ?page) (length xs)"
  have unfold: "concat (follow_pages xs offset limit) = ?page @ (case ap_next_offset ?info of None \<Rightarrow> []
      | Some next_offset \<Rightarrow> if offset < next_offset then concat (follow_pages xs next_offset limit) else [])"
    by (subst follow_pages.simps) (simp add: query_page_def Let_def split: option.splits)
  show ?case
  proof (cases "ap_next_offset ?info")
    case None
    then have "length ?page = 0 \<or> length xs \<le> offset + length ?page"
      using 1(3) by (auto simp: pagination_def Let_def saturating_add_def split: if_splits)
    then have "length xs \<le> offset + limit" using 1(2) by (auto simp: min_def split: if_splits)
    then have "?page = drop offset xs" by simp
    then show ?thesis unfolding unfold None by simp
  next
    case (Some next_offset)
    then have n: "next_offset = offset + length ?page" "next_offset < length xs"
      using 1(3) by (auto simp: pagination_def Let_def saturating_add_def min_def split: if_splits)
    then have on: "offset < next_offset"
      using Some by (auto simp: pagination_def Let_def split: if_splits)
    from n have "length ?page = limit" by (auto simp: min_def split: if_splits)
    moreover have "concat (follow_pages xs next_offset limit) = drop next_offset xs"
      by (rule 1(1)) (use Some 1(2,3) on in \<open>simp_all add: query_page_def Let_def\<close>)
    ultimately show ?thesis using on n(1) unfolding unfold Some
      by (simp add: drop_drop [symmetric] del: drop_drop take_drop) (metis add.commute append_take_drop_id drop_drop)
  qed
qed

text \<open>A client that follows the next offsets from the first page sees every entry once, in
  order, and then no next offset: the pages it is given, put together, are the whole list.\<close>

theorem pages_cover:
  assumes "0 < limit" and "length xs \<le> USIZE_MAX"
  shows "concat (follow_pages xs 0 limit) = xs"
  using follow_pages_rest[OF assms, of 0] by simp

theorem pages_cover_witness: "concat (follow_pages [1, 2, 3, 4, 5 :: nat] 0 2) = [1, 2, 3, 4, 5]"
  by (rule pages_cover) (simp_all add: USIZE_MAX_def)

end
