(* ===== verification/RunnerAttempt.thy ===== *)
theory RunnerAttempt
  imports Prelude
begin

section \<open>The attempt a Rust runner was started for (rust\_runner\_attempt.rs)\<close>

text \<open>
  A target runner learns from its environment which test and attempt it runs. The environment
  is a map of bytes; \<open>utf8\<close> says which of them are UTF-8 (a table of encodings; every theorem
  holds for every such set). Version numbers are \<open>u64\<close> and \<open>usize\<close>, below \<open>2 ^ 64\<close>.
\<close>

definition MINIMUM_NEXTEST_ATTEMPT_VERSION :: "nat \<times> nat \<times> nat" where
  "MINIMUM_NEXTEST_ATTEMPT_VERSION = (0, 9, 138)"

definition NEWEST_CHECKED_NEXTEST_VERSION :: "nat \<times> nat \<times> nat" where
  "NEWEST_CHECKED_NEXTEST_VERSION = (0, 9, 148)"

definition ATTEMPT_KEYS :: "string list" where
  "ATTEMPT_KEYS = [''NEXTEST_TEST_NAME'', ''NEXTEST_ATTEMPT'', ''NEXTEST_TOTAL_ATTEMPTS'',
     ''NEXTEST_ATTEMPT_ID'', ''NEXTEST_STRESS_CURRENT'', ''NEXTEST_STRESS_TOTAL'']"

definition EXECUTION_IDENTITY_KEYS :: "string list" where
  "EXECUTION_IDENTITY_KEYS = [''NEXTEST_RUN_ID'', ''NEXTEST_VERSION'', ''NEXTEST_EXECUTION_MODE'',
     ''NEXTEST_BINARY_ID'', ''NEXTEST_TEST_NAME'', ''NEXTEST_ATTEMPT'', ''NEXTEST_TOTAL_ATTEMPTS'',
     ''NEXTEST_ATTEMPT_ID'', ''NEXTEST_STRESS_CURRENT'', ''NEXTEST_STRESS_TOTAL'']"

record nextest_invocation =
  ni_run_id :: string
  ni_version :: string
  ni_binary_id :: string

record nextest_attempt =
  na_invocation :: nextest_invocation
  na_test_name :: string
  na_retry :: nat
  na_total_attempts :: nat
  na_runner_attempt_id :: string

datatype runner_invocation =
    CargoSingleAttempt
  | NextestList nextest_invocation
  | NextestAttempt nextest_attempt

datatype attempt_error = AttemptError string

type_synonym environment = "string \<Rightarrow> string option"

definition value_of :: "(string \<Rightarrow> bool) \<Rightarrow> environment \<Rightarrow> string \<Rightarrow> attempt_error + string option" where
  "value_of utf8 environment key =
     (case environment key of None \<Rightarrow> Inr None
      | Some v \<Rightarrow> if utf8 v then Inr (Some v)
          else Inl (AttemptError (key @ '' contains non-UTF-8 runner identity'')))"

definition required :: "(string \<Rightarrow> bool) \<Rightarrow> environment \<Rightarrow> string \<Rightarrow> attempt_error + string" where
  "required utf8 environment key =
     rbind (value_of utf8 environment key) (\<lambda>v.
     rbind (ok_or v (AttemptError (''nextest attempt identity lacks '' @ key))) (\<lambda>v.
     rbind (ensure (\<not> (v = [] \<or> length v > 4096 \<or> set v \<inter> {CHR 0x0D, CHR 0x0A, CHR 0x00} \<noteq> {}))
       (AttemptError (key @ '' is empty, oversized, or not a single-line identity''))) (\<lambda>_.
     Inr v)))"

definition U64_MAX :: nat where "U64_MAX = 2 ^ 64 - 1"

definition parse_part :: "string \<Rightarrow> string list \<Rightarrow> attempt_error + nat \<times> string list" where
  "parse_part name parts =
     (case parts of
        [] \<Rightarrow> Inl (AttemptError (''nextest version lacks '' @ name))
      | part # parts \<Rightarrow>
          rbind (ok_or (parse_unsigned U64_MAX part) (AttemptError (''nextest version has invalid '' @ name)))
            (\<lambda>n. Inr (n, parts)))"

definition parse_version :: "string \<Rightarrow> attempt_error + nat \<times> nat \<times> nat" where
  "parse_version v =
     rbind (parse_part ''major'' (split_on CHR ''.'' v)) (\<lambda>(major, parts).
     rbind (parse_part ''minor'' parts) (\<lambda>(minor, parts).
     rbind (parse_part ''patch'' parts) (\<lambda>(patch, parts).
     rbind (ensure (parts = []) (AttemptError ''nextest version must have exactly three numeric components'')) (\<lambda>_.
     Inr (major, minor, patch)))))"

definition version_less :: "nat \<times> nat \<times> nat \<Rightarrow> nat \<times> nat \<times> nat \<Rightarrow> bool" where
  "version_less = (\<lambda>(a, b, c) (d, e, f). a < d \<or> (a = d \<and> (b < e \<or> (b = e \<and> c < f))))"

definition newer_than_checked :: "string \<Rightarrow> bool" where
  "newer_than_checked v = (case parse_version v of Inr version \<Rightarrow>
     version_less NEWEST_CHECKED_NEXTEST_VERSION version | Inl _ \<Rightarrow> False)"

definition validate_nextest_version :: "string \<Rightarrow> attempt_error + unit" where
  "validate_nextest_version v =
     rbind (parse_version v) (\<lambda>version.
     ensure (\<not> version_less version MINIMUM_NEXTEST_ATTEMPT_VERSION) (AttemptError (''nextest '' @ v @
       '' is older than 0.9.138, the first release that tells a target runner which test and attempt it runs'')))"

text \<open>\<open>split_ascii_whitespace\<close> and \<open>trim_end_matches('\n')\<close>.\<close>

definition ascii_space :: "char \<Rightarrow> bool" where
  "ascii_space c \<longleftrightarrow> code c \<in> {9, 10, 12, 13, 32}"

definition split_ascii_whitespace :: "string \<Rightarrow> string list" where
  "split_ascii_whitespace s =
     filter (\<lambda>w. w \<noteq> []) (split_on CHR '' '' (map (\<lambda>c. if ascii_space c then CHR '' '' else c) s))"

definition trim_newlines :: "string \<Rightarrow> string" where
  "trim_newlines s = rev (dropWhile (\<lambda>c. c = CHR 0x0A) (rev s))"

definition lower_hex :: "char \<Rightarrow> bool" where
  "lower_hex c \<longleftrightarrow> is_ascii_hexdigit c \<and> \<not> is_ascii_uppercase c"

definition filtered :: "('a \<Rightarrow> bool) \<Rightarrow> 'a option \<Rightarrow> 'a option" where
  "filtered P x = (case x of Some a \<Rightarrow> if P a then Some a else None | None \<Rightarrow> None)"

definition check_commit :: "string list \<Rightarrow> string \<Rightarrow> string \<Rightarrow> attempt_error + unit" where
  "check_commit metadata hash_line date_line =
     rbind (ok_or (filtered (\<lambda>hash. 9 \<le> length hash \<and> length hash \<le> 64 \<and> list_all lower_hex hash)
         (strip_prefix ''commit-hash: '' hash_line))
       (AttemptError ''nextest --version output has an invalid commit hash'')) (\<lambda>hash.
     rbind (ok_or (filtered (\<lambda>date. length date = 10 \<and> list_all (\<lambda>(index, c).
           if index = 4 \<or> index = 7 then c = CHR ''-'' else is_ascii_digit c) (enumerate 0 date))
         (strip_prefix ''commit-date: '' date_line))
       (AttemptError ''nextest --version output has an invalid commit date'')) (\<lambda>date.
     ensure (metadata = [CHR ''('' # take 9 hash, date @ '')''])
       (AttemptError ''nextest --version short build identity disagrees with its metadata'')))"

definition parse_nextest_version_output :: "(string \<Rightarrow> bool) \<Rightarrow> string \<Rightarrow> attempt_error + string" where
  "parse_nextest_version_output utf8 out =
     rbind (ensure (utf8 out) (AttemptError ''nextest --version output is not UTF-8'')) (\<lambda>_.
     rbind (ensure (CHR 0x0D \<notin> set out) (AttemptError ''nextest --version output contains a carriage return'')) (\<lambda>_.
     let all_lines = split_on CHR 0x0A (trim_newlines out); fields = split_ascii_whitespace (hd all_lines) in
     rbind (ensure (fields \<noteq> [] \<and> hd fields = ''cargo-nextest'')
       (AttemptError ''nextest --version output lacks the cargo-nextest product identity'')) (\<lambda>_.
     rbind (ensure (tl fields \<noteq> []) (AttemptError ''nextest --version output lacks a version'')) (\<lambda>_.
     let version = fields ! 1; metadata = drop 2 fields in
     rbind (validate_nextest_version version) (\<lambda>_.
     rbind (ensure (tl all_lines \<noteq> []) (AttemptError ''nextest --version output lacks release metadata'')) (\<lambda>_.
     rbind (ensure (all_lines ! 1 = ''release: '' @ version)
       (AttemptError ''nextest --version release metadata disagrees with its product version'')) (\<lambda>_.
     rbind (case drop 2 all_lines of
         [host] \<Rightarrow> Inr (None, host)
       | [commit_hash, commit_date, host] \<Rightarrow> Inr (Some (commit_hash, commit_date), host)
       | _ \<Rightarrow> Inl (AttemptError ''nextest --version output has an unknown metadata layout'')) (\<lambda>(commit, host).
     rbind (ok_or (filtered (\<lambda>h. h \<noteq> []) (strip_prefix ''host: '' host))
       (AttemptError ''nextest --version output lacks a build host'')) (\<lambda>host.
     rbind (ensure (\<not> (length host > 255 \<or> \<not> list_all is_ascii host))
       (AttemptError ''nextest --version build host is oversized or non-ASCII'')) (\<lambda>_.
     rbind (case commit of
         Some (commit_hash, commit_date) \<Rightarrow> check_commit metadata commit_hash commit_date
       | None \<Rightarrow> ensure (metadata = [])
           (AttemptError ''nextest --version build identity is only partially present'')) (\<lambda>_.
     Inr version)))))))))))"

definition canonical_uuid :: "string \<Rightarrow> bool" where
  "canonical_uuid v \<longleftrightarrow> length v = 36 \<and> list_all (\<lambda>(index, c).
     if index \<in> {8, 13, 18, 23} then c = CHR ''-'' else lower_hex c) (enumerate 0 v)"

definition parse_positive_usize :: "string \<Rightarrow> string \<Rightarrow> attempt_error + nat" where
  "parse_positive_usize key v =
     ok_or (filtered (\<lambda>n. n > 0) (parse_unsigned U64_MAX v)) (AttemptError (key @ '' must be a positive integer''))"

definition invocation_identity :: "(string \<Rightarrow> bool) \<Rightarrow> environment \<Rightarrow> attempt_error + nextest_invocation" where
  "invocation_identity utf8 environment =
     rbind (required utf8 environment ''NEXTEST_RUN_ID'') (\<lambda>run_id.
     rbind (ensure (canonical_uuid run_id) (AttemptError ''NEXTEST_RUN_ID is not a canonical lowercase UUID'')) (\<lambda>_.
     rbind (required utf8 environment ''NEXTEST_VERSION'') (\<lambda>version.
     rbind (validate_nextest_version version) (\<lambda>_.
     rbind (required utf8 environment ''NEXTEST_EXECUTION_MODE'') (\<lambda>execution_mode.
     rbind (ensure (execution_mode = ''process-per-test'')
       (AttemptError (''unsupported nextest execution mode: '' @ execution_mode))) (\<lambda>_.
     rbind (required utf8 environment ''NEXTEST_BINARY_ID'') (\<lambda>binary_id.
     Inr \<lparr>ni_run_id = run_id, ni_version = version, ni_binary_id = binary_id\<rparr>)))))))"

definition attempt_identity ::
  "(string \<Rightarrow> bool) \<Rightarrow> environment \<Rightarrow> nextest_invocation \<Rightarrow> attempt_error + nextest_attempt" where
  "attempt_identity utf8 environment invocation =
     rbind (required utf8 environment ''NEXTEST_TEST_NAME'') (\<lambda>test_name.
     rbind (required utf8 environment ''NEXTEST_ATTEMPT'') (\<lambda>v.
     rbind (parse_positive_usize ''NEXTEST_ATTEMPT'' v) (\<lambda>attempt.
     rbind (required utf8 environment ''NEXTEST_TOTAL_ATTEMPTS'') (\<lambda>v.
     rbind (parse_positive_usize ''NEXTEST_TOTAL_ATTEMPTS'' v) (\<lambda>total_attempts.
     rbind (ensure (attempt \<le> total_attempts)
       (AttemptError ''NEXTEST_ATTEMPT exceeds NEXTEST_TOTAL_ATTEMPTS'')) (\<lambda>_.
     rbind (required utf8 environment ''NEXTEST_ATTEMPT_ID'') (\<lambda>runner_attempt_id.
     rbind (ensure (starts_with (ni_run_id invocation @ '':'') runner_attempt_id)
       (AttemptError ''NEXTEST_ATTEMPT_ID does not belong to NEXTEST_RUN_ID'')) (\<lambda>_.
     rbind (required utf8 environment ''NEXTEST_STRESS_CURRENT'') (\<lambda>stress_current.
     rbind (required utf8 environment ''NEXTEST_STRESS_TOTAL'') (\<lambda>stress_total.
     rbind (ensure (stress_current = ''none'' \<and> stress_total = ''none'')
       (AttemptError ''nextest stress iterations require a distinct identity axis and are not yet supported'')) (\<lambda>_.
     Inr \<lparr>na_invocation = invocation, na_test_name = test_name, na_retry = attempt - 1,
        na_total_attempts = total_attempts, na_runner_attempt_id = runner_attempt_id\<rparr>)))))))))))"

definition classify_rust_runner_environment_from ::
  "(string \<Rightarrow> bool) \<Rightarrow> (string \<times> string) list \<Rightarrow> attempt_error + runner_invocation" where
  "classify_rust_runner_environment_from utf8 pairs =
     (let environment = btree_map pairs in
      rbind (value_of utf8 environment ''NEXTEST'') (\<lambda>nextest.
      case nextest of
        None \<Rightarrow>
          (case find (\<lambda>key. environment key \<noteq> None) EXECUTION_IDENTITY_KEYS of
             Some key \<Rightarrow> Inl (AttemptError (''runner environment contains '' @ key @ '' without NEXTEST=1''))
           | None \<Rightarrow> Inr CargoSingleAttempt)
      | Some v \<Rightarrow>
          rbind (ensure (v = ''1'') (AttemptError ''NEXTEST must equal 1 when nextest identity is present'')) (\<lambda>_.
          rbind (invocation_identity utf8 environment) (\<lambda>invocation.
          let present_keys = length (filter (\<lambda>key. environment key \<noteq> None) ATTEMPT_KEYS) in
          if present_keys = 0 then Inr (NextestList invocation)
          else rbind (ensure (present_keys = length ATTEMPT_KEYS)
              (AttemptError ''nextest supplied only part of the frozen attempt identity'')) (\<lambda>_.
            rbind (attempt_identity utf8 environment invocation) (\<lambda>attempt.
            Inr (NextestAttempt attempt)))))))"

end
