(* ===== verification/ReportModel.thy ===== *)
theory ReportModel
  imports CoverageCore Evidence
begin

section \<open>What a report holds, and the model and filter it is asked with (coverage\_report.rs)\<close>

text \<open>
  The records of a coverage view as \<open>coverage_report.rs\<close> declares them, the coverage model a
  run stores beside its evidence (\<open>PersistedCoverageModel\<close>), and the test filter. \<open>'v\<close> is
  \<open>serde_json::Value\<close>. An \<open>Id\<close> is its text: \<open>Interner\<close> only shares allocations.
\<close>

subsection \<open>Attributions\<close>

definition coverage_is_its_own :: "string \<Rightarrow> bool" where
  "coverage_is_its_own attribution \<longleftrightarrow> attribution \<noteq> ATTRIBUTION_RUN_WIDE"

definition coverage_is_complete :: "string \<Rightarrow> bool" where
  "coverage_is_complete attribution \<longleftrightarrow>
     attribution = ATTRIBUTION_EXACT \<or> attribution = ATTRIBUTION_BY_TIME \<or> attribution = []"

subsection \<open>The records of a view\<close>

record test_attempt =
  ta_retry :: nat
  ta_status :: string
  ta_expected_status :: "string option"

record coverage_confidence =
  cf_level :: string
  cf_setup_only :: bool
  cf_background_only :: bool
  cf_tests :: "string list"
  cf_runners :: "string list"
  cf_kinds :: "string list"
  cf_e2e :: bool

record vector_observation =
  vo_vector :: mcdc_vector
  vo_tests :: "string list"
  vo_phases :: "string list"
  vo_explicit_phases :: "string list"
  vo_confidence :: coverage_confidence

record condition_result =
  cr_index :: nat
  cr_source :: string
  cr_covered :: bool
  cr_witness :: "(mcdc_vector \<times> mcdc_vector) option"
  cr_witness_tests :: "(string list \<times> string list) option"

record decision_result =
  dr_meta :: decision_meta
  dr_executed :: bool
  dr_covered :: bool
  dr_vectors :: "mcdc_vector list"
  dr_vector_observations :: "vector_observation list"
  dr_conditions :: "condition_result list"
  dr_tests :: "string list"
  dr_confidence :: coverage_confidence

record point_result =
  pr_meta :: point_meta
  pr_covered :: bool
  pr_measured :: bool
  pr_tests :: "string list"
  pr_phases :: "string list"
  pr_confidence :: coverage_confidence

record alternative_result =
  ar_id :: string
  ar_label :: string
  ar_covered :: bool
  ar_tests :: "string list"
  ar_phases :: "string list"
  ar_confidence :: coverage_confidence

record branch_result =
  br_meta :: branch_meta
  br_covered :: bool
  br_alternatives :: "alternative_result list"

text \<open>\<open>SourceLine\<close> with its derived order: the file, then the line. \<open>LineAggregate\<close> holds the
  numbers of tests and phases as they arrive.\<close>

type_synonym source_line = "string \<times> nat"

record line_aggregate =
  la_covered :: bool
  la_measured :: bool
  la_tests :: "nat list"
  la_phases :: "nat list"
  la_explicit_phases :: "nat list"

record line_result =
  lr_file :: string
  lr_line :: nat
  lr_covered :: bool
  lr_measured :: bool
  lr_tests :: "string list"
  lr_runners :: "string list"
  lr_kinds :: "string list"
  lr_exclusive_kind :: "string option"
  lr_phases :: "string list"
  lr_confidence :: coverage_confidence

record test_decision_result =
  td_id :: string
  td_vectors :: "mcdc_vector list"

record test_coverage_result =
  tc_id :: string
  tc_name :: string
  tc_file :: "string option"
  tc_title :: "string option"
  tc_retries :: "nat list"
  tc_attempts :: "test_attempt list"
  tc_outcome :: string
  tc_provenance :: test_provenance
  tc_role :: string
  tc_attribution :: string
  tc_hits :: "string list"
  tc_decisions :: "test_decision_result list"
  tc_lines :: "source_line list"

record test_file_result =
  tf_file :: string
  tf_tests :: "string list"
  tf_runners :: "string list"
  tf_kinds :: "string list"
  tf_lines :: "source_line list"

record phase_result =
  ph_phase :: coverage_phase
  ph_test :: string
  ph_hits :: "string list"
  ph_decisions :: "test_decision_result list"
  ph_lines :: "source_line list"
  ph_browser_events :: nat
  ph_server_events :: nat
  ph_explicit_events :: nat
  ph_inferred_events :: nat
  ph_explicit_browser_events :: nat
  ph_inferred_browser_events :: nat
  ph_explicit_server_events :: nat
  ph_inferred_server_events :: nat

record dimension_coverage =
  di_kind :: "string option"
  di_runner :: "string option"
  di_tests :: nat
  di_setups :: nat
  di_attributed :: nat
  di_summary :: coverage_summary

record coverage_model =
  mo_language :: string
  mo_name :: string
  mo_completeness_meaning :: string
  mo_measured :: "string list"
  mo_not_measured :: "string list"

record transport_stats =
  tr_processes :: nat
  tr_child_launches :: nat
  tr_remote_launches :: nat
  tr_workspace_capabilities :: nat
  tr_guest_processes :: nat
  tr_scoped_server_records :: nat
  tr_background_server_records :: nat
  tr_corrupt_records :: nat
  tr_corrupt_files :: nat

definition transport_none :: transport_stats where
  "transport_none = \<lparr>tr_processes = 0, tr_child_launches = 0, tr_remote_launches = 0,
     tr_workspace_capabilities = 0, tr_guest_processes = 0, tr_scoped_server_records = 0,
     tr_background_server_records = 0, tr_corrupt_records = 0, tr_corrupt_files = 0\<rparr>"

record 'v coverage_view =
  cv_generated_at :: string
  cv_variant :: string
  cv_scope :: "'v option"
  cv_model :: coverage_model
  cv_integrity :: "'v option"
  cv_limitations :: "'v list"
  cv_transport :: "transport_stats option"
  cv_summary :: coverage_summary
  cv_coverage_by_kind :: "dimension_coverage list"
  cv_coverage_by_runner :: "dimension_coverage list"
  cv_decisions :: "decision_result list"
  cv_points :: "point_result list"
  cv_branches :: "branch_result list"
  cv_tests :: "test_coverage_result list"
  cv_test_files :: "test_file_result list"
  cv_phases :: "phase_result list"
  cv_lines :: "line_result list"

record execution_result =
  ex_test_exit_code :: "int option"
  ex_valid :: bool

record 'v coverage_filters =
  fi_passed :: "'v coverage_view"
  fi_failed :: "'v coverage_view"

record 'v coverage_report =
  rp_view :: "'v coverage_view"
  rp_execution :: "execution_result option"
  rp_filters :: "'v coverage_filters"

end
