(* ===== verification/CoverageModel.thy ===== *)
theory CoverageModel
  imports ReportModel
begin

section \<open>The coverage model a run stores (coverage\_report.rs, PersistedCoverageModel)\<close>

text \<open>
  A run's archive carries the model its coverage is of. It is written from a declaration and read
  back into one; both ways it passes the same validation: identifiers and descriptions of bounded
  size, and the measured and unmeasured surfaces a partition with nothing named twice.
\<close>

definition COVERAGE_MODEL_SCHEMA_VERSION :: u32 where "COVERAGE_MODEL_SCHEMA_VERSION = 1"

definition COVERAGE_MODEL_MAX_IDENTIFIER_BYTES :: nat where "COVERAGE_MODEL_MAX_IDENTIFIER_BYTES = 64"

definition COVERAGE_MODEL_MAX_DESCRIPTION_BYTES :: nat where
  "COVERAGE_MODEL_MAX_DESCRIPTION_BYTES = 4096"

definition COVERAGE_MODEL_MAX_SURFACES_PER_LIST :: nat where
  "COVERAGE_MODEL_MAX_SURFACES_PER_LIST = 256"

record persisted_coverage_model =
  pcm_schema_version :: u32
  pcm_language :: string
  pcm_variant :: string
  pcm_name :: string
  pcm_completeness_meaning :: string
  pcm_measured :: "string list"
  pcm_not_measured :: "string list"

definition valid_identifier :: "string \<Rightarrow> bool" where
  "valid_identifier value \<longleftrightarrow>
     1 \<le> length value \<and> length value \<le> COVERAGE_MODEL_MAX_IDENTIFIER_BYTES
     \<and> is_ascii_lowercase (hd value)
     \<and> list_all (\<lambda>c. is_ascii_lowercase c \<or> is_ascii_digit c \<or> c \<in> {CHR ''.'', CHR ''+'', CHR ''-''}) value"

definition valid_description :: "string \<Rightarrow> bool" where
  "valid_description value \<longleftrightarrow>
     value \<noteq> [] \<and> length (trim value) = length value
     \<and> length value \<le> COVERAGE_MODEL_MAX_DESCRIPTION_BYTES \<and> \<not> has_control value"

definition into_declaration :: "persisted_coverage_model \<Rightarrow> string + coverage_model_declaration" where
  "into_declaration m =
     (if pcm_schema_version m \<noteq> COVERAGE_MODEL_SCHEMA_VERSION then Inl ''unsupported coverage model schema''
      else if \<not> valid_identifier (pcm_language m) \<or> \<not> valid_identifier (pcm_variant m)
        \<or> \<not> valid_description (pcm_name m) \<or> \<not> valid_description (pcm_completeness_meaning m)
        \<or> pcm_measured m = []
        \<or> COVERAGE_MODEL_MAX_SURFACES_PER_LIST < length (pcm_measured m)
        \<or> COVERAGE_MODEL_MAX_SURFACES_PER_LIST < length (pcm_not_measured m)
        \<or> list_ex (\<lambda>item. \<not> valid_description item) (pcm_measured m @ pcm_not_measured m)
      then Inl ''invalid coverage model declaration''
      else if card (set (pcm_measured m)) \<noteq> length (pcm_measured m)
        \<or> card (set (pcm_not_measured m)) \<noteq> length (pcm_not_measured m)
        \<or> set (pcm_measured m) \<inter> set (pcm_not_measured m) \<noteq> {}
      then Inl ''invalid coverage model surface partition''
      else Inr \<lparr>md_language = pcm_language m, md_variant = pcm_variant m, md_name = pcm_name m,
        md_completeness_meaning = pcm_completeness_meaning m, md_measured = pcm_measured m,
        md_not_measured = pcm_not_measured m\<rparr>)"

definition persist :: "coverage_model_declaration \<Rightarrow> persisted_coverage_model" where
  "persist value = \<lparr>pcm_schema_version = COVERAGE_MODEL_SCHEMA_VERSION,
     pcm_language = md_language value, pcm_variant = md_variant value, pcm_name = md_name value,
     pcm_completeness_meaning = md_completeness_meaning value, pcm_measured = md_measured value,
     pcm_not_measured = md_not_measured value\<rparr>"

definition from_declaration :: "coverage_model_declaration \<Rightarrow> string + persisted_coverage_model" where
  "from_declaration value =
     (let persisted = persist value in rbind (into_declaration persisted) (\<lambda>_. Inr persisted))"

definition javascript_coverage_model :: coverage_model_declaration where
  "javascript_coverage_model = \<lparr>md_language = ''javascript'', md_variant = ''masking-short-circuit'',
     md_name = ''coverage-completeness-v2'',
     md_completeness_meaning = ''Every obligation in the measured model was observed by at least one existing test; test assertions and product correctness are separate assumptions.'',
     md_measured = [
       ''executable source lines'',
       ''executable statements'',
       ''function entries'',
       ''true and false outcomes of if, ternary, while, do/while, and classic for decisions'',
       ''true and false outcomes of every atomic condition in those decisions'',
       ''masking MC/DC independence for every atomic condition in those decisions'',
       ''short-circuit and right-evaluated selections for &&, ||, and ?? value expressions, including JSX'',
       ''short-circuit and evaluated alternatives for logical assignments and optional chains'',
       ''provided and default-evaluated parameter and destructuring values'',
       ''try success and catch entry'',
       ''zero and entered for-in/for-of loops'',
       ''entered switch cases, defaults, and implicit no-match alternatives''],
     md_not_measured = [
       ''all input values or semantic input partitions'',
       ''all execution paths or ordering/concurrency interleavings'',
       ''destructuring defaults in classic for initializers (reported as blockers when discovered)'',
       ''the internal statements and decisions of runtime-generated eval/Function source'',
       ''mutation score or assertion fault-detection strength'']\<rparr>"

subsection \<open>Which models are stored, and that they come back\<close>

definition model_ok :: "coverage_model_declaration \<Rightarrow> bool" where
  "model_ok d \<longleftrightarrow> valid_identifier (md_language d) \<and> valid_identifier (md_variant d)
     \<and> valid_description (md_name d) \<and> valid_description (md_completeness_meaning d)
     \<and> md_measured d \<noteq> [] \<and> length (md_measured d) \<le> 256 \<and> length (md_not_measured d) \<le> 256
     \<and> list_all valid_description (md_measured d @ md_not_measured d)
     \<and> distinct (md_measured d @ md_not_measured d)"

lemma into_declaration_persist:
  "into_declaration (persist d) = Inr d' \<longleftrightarrow> model_ok d \<and> d' = d"
  by (cases d) (auto simp: into_declaration_def persist_def model_ok_def
      COVERAGE_MODEL_MAX_SURFACES_PER_LIST_def list_ex_iff list_all_iff card_distinct distinct_card)

lemma from_declaration_iff:
  "from_declaration d = Inr p \<longleftrightarrow> model_ok d \<and> p = persist d"
  by (auto simp: from_declaration_def Let_def rbind_Inr_iff into_declaration_persist)

lemma from_declaration_Inl:
  "\<not> model_ok d \<Longrightarrow> \<exists>e. from_declaration d = Inl e"
  by (cases "from_declaration d") (auto simp: from_declaration_iff)

lemma into_declaration_version:
  "into_declaration m = Inr d \<longleftrightarrow> pcm_schema_version m = COVERAGE_MODEL_SCHEMA_VERSION \<and> m = persist d \<and> model_ok d"
proof
  assume i: "into_declaration m = Inr d"
  then have v: "pcm_schema_version m = COVERAGE_MODEL_SCHEMA_VERSION"
    by (auto simp: into_declaration_def split: if_splits)
  have d: "d = \<lparr>md_language = pcm_language m, md_variant = pcm_variant m, md_name = pcm_name m,
        md_completeness_meaning = pcm_completeness_meaning m, md_measured = pcm_measured m,
        md_not_measured = pcm_not_measured m\<rparr>"
    using i by (auto simp: into_declaration_def split: if_splits)
  then have "m = persist d" using v by (cases m) (simp add: persist_def)
  with i v show "pcm_schema_version m = COVERAGE_MODEL_SCHEMA_VERSION \<and> m = persist d \<and> model_ok d"
    using into_declaration_persist by metis
next
  assume "pcm_schema_version m = COVERAGE_MODEL_SCHEMA_VERSION \<and> m = persist d \<and> model_ok d"
  then show "into_declaration m = Inr d" by (simp add: into_declaration_persist)
qed

text \<open>A model is stored exactly when its identifiers and descriptions are within bounds and
  its surfaces are named once each, and what is stored reads back as the model it was made of; a
  stored model reads back only if it is what some valid declaration is stored as.\<close>

theorem persisted_model_roundtrip:
  "(from_declaration d = Inr p \<longleftrightarrow> model_ok d \<and> p = persist d)
   \<and> (into_declaration p' = Inr d' \<longleftrightarrow> from_declaration d' = Inr p')"
  using from_declaration_iff into_declaration_version by (auto simp: persist_def)

end
