(* ===== verification/TestFilter.thy ===== *)
theory TestFilter
  imports ReportModel
begin

section \<open>Picking the tests a report is about (coverage\_report.rs, TestFilter)\<close>

text \<open>
  \<open>str::to_lowercase\<close> maps every character of Unicode; the model takes it as the parameter
  \<open>lower\<close> of the operations that use it. The theorems hold for any \<open>lower\<close>.
\<close>

record test_filter =
  fl_tags :: "string list"
  fl_titles :: "string list"
  fl_files :: "string list"
  fl_kind :: "string option"
  fl_runner :: "string option"

text \<open>\<open>str::contains\<close>, \<open>trim_start_matches\<close> of a text and \<open>trim_end_matches\<close> of a character.\<close>

fun contains_text :: "string \<Rightarrow> string \<Rightarrow> bool" where
  "contains_text s wanted \<longleftrightarrow> starts_with wanted s \<or> (case s of [] \<Rightarrow> False | _ # t \<Rightarrow> contains_text t wanted)"

declare contains_text.simps [simp del]

definition trim_start_text :: "string \<Rightarrow> string \<Rightarrow> string" where
  "trim_start_text text = trim_with [text]"

definition trim_end_char :: "char \<Rightarrow> string \<Rightarrow> string" where
  "trim_end_char c s = rev (dropWhile (\<lambda>d. d = c) (rev s))"

definition picks :: "string list \<Rightarrow> (string \<Rightarrow> bool) \<Rightarrow> bool" where
  "picks values matches =
     (let excluded = filter (starts_with ''!'') values;
          wanted = filter (\<lambda>value. \<not> starts_with ''!'' value) values
      in (wanted = [] \<or> list_ex matches wanted)
         \<and> \<not> list_ex (\<lambda>value. matches (drop 1 value)) excluded)"

definition filter_is_empty :: "test_filter \<Rightarrow> bool" where
  "filter_is_empty f \<longleftrightarrow>
     fl_tags f = [] \<and> fl_titles f = [] \<and> fl_files f = [] \<and> fl_kind f = None \<and> fl_runner f = None"

definition tag_name :: "(string \<Rightarrow> string) \<Rightarrow> string \<Rightarrow> string" where
  "tag_name lower value = lower (dropWhile (\<lambda>c. c = CHR ''@'') value)"

definition file_picked :: "string option \<Rightarrow> string \<Rightarrow> bool" where
  "file_picked path wanted =
     (let wanted = trim_end_char CHR ''/'' (trim_start_text ''./'' wanted) in
      case path of None \<Rightarrow> False
      | Some path \<Rightarrow> path = wanted
          \<or> (case strip_prefix wanted path of Some rest \<Rightarrow> starts_with ''/'' rest | None \<Rightarrow> False))"

definition filter_matches ::
  "(string \<Rightarrow> string) \<Rightarrow> test_filter \<Rightarrow> string \<Rightarrow> string option \<Rightarrow> string option \<Rightarrow> test_provenance \<Rightarrow> bool" where
  "filter_matches lower f test_name title source_file provenance =
     (let kinded = (case fl_kind f of None \<Rightarrow> True | Some kind \<Rightarrow> tp_kind provenance = kind)
            \<and> (case fl_runner f of None \<Rightarrow> True | Some runner \<Rightarrow> tp_runner provenance = runner);
          tagged = picks (fl_tags f) (\<lambda>wanted.
            list_ex (\<lambda>carried. tag_name lower carried = tag_name lower wanted) (tp_tags provenance));
          test_name = lower test_name;
          title = (case title of None \<Rightarrow> [] | Some t \<Rightarrow> lower t);
          titled = picks (fl_titles f) (\<lambda>wanted.
            contains_text test_name (lower wanted) \<or> contains_text title (lower wanted));
          path = map_option (trim_start_text ''./'') source_file;
          filed = picks (fl_files f) (file_picked path)
      in kinded \<and> tagged \<and> titled \<and> filed)"

definition describe :: "test_filter \<Rightarrow> string" where
  "describe f =
     (let one = (\<lambda>flag value. case value of None \<Rightarrow> [] | Some v \<Rightarrow> [flag @ '' '' @ v]);
          many = (\<lambda>flag values. map (\<lambda>v. flag @ '' '' @ v) values)
      in join '' '' (one ''--kind'' (fl_kind f) @ one ''--runner'' (fl_runner f)
           @ many ''--tag'' (fl_tags f) @ many ''--title'' (fl_titles f)
           @ many ''--test-file'' (fl_files f)))"

definition picked :: "(string \<Rightarrow> string) \<Rightarrow> test_filter \<Rightarrow> raw_test_result \<Rightarrow> bool" where
  "picked lower f raw \<longleftrightarrow> rt_role raw = ''test''
     \<and> filter_matches lower f (rt_test raw) (rt_title raw) (rt_test_file raw) (rt_provenance raw)"

definition select ::
  "(string \<Rightarrow> string) \<Rightarrow> test_filter \<Rightarrow> raw_test_result list \<Rightarrow> report_error + raw_test_result list" where
  "select lower f raw_results =
     (let files = set (List.map_filter rt_test_file (filter (picked lower f) raw_results)) in
      if \<not> list_ex (picked lower f) raw_results then Inl (NoTestMatches (describe f))
      else Inr (filter (\<lambda>raw. picked lower f raw
             \<or> (rt_role raw = ''setup''
                \<and> (case rt_test_file raw of None \<Rightarrow> False | Some source_file \<Rightarrow> source_file \<in> files)))
           raw_results))"

subsection \<open>What a filter selects\<close>

definition setup_of :: "(string \<Rightarrow> string) \<Rightarrow> test_filter \<Rightarrow> raw_test_result list \<Rightarrow> raw_test_result \<Rightarrow> bool" where
  "setup_of lower f raws raw \<longleftrightarrow> rt_role raw = ''setup'' \<and> rt_test_file raw \<noteq> None
     \<and> (\<exists>other \<in> set raws. picked lower f other \<and> rt_test_file other = rt_test_file raw)"

lemma select_iff:
  "select lower f raws = Inr out \<longleftrightarrow> (\<exists>raw \<in> set raws. picked lower f raw)
     \<and> out = filter (\<lambda>raw. picked lower f raw \<or> setup_of lower f raws raw) raws"
proof -
  have "(rt_role raw = ''setup'' \<and> (case rt_test_file raw of None \<Rightarrow> False
       | Some source_file \<Rightarrow> source_file \<in> set (List.map_filter rt_test_file (filter (picked lower f) raws))))
     \<longleftrightarrow> setup_of lower f raws raw" for raw
    by (auto simp: setup_of_def set_map_filter_Some split: option.splits)
  then show ?thesis by (auto simp: select_def Let_def list_ex_iff)
qed

lemma setup_of_selected:
  "setup_of lower f (filter (\<lambda>raw. picked lower f raw \<or> setup_of lower f raws raw) raws) raw
     \<longleftrightarrow> setup_of lower f raws raw"
  by (auto simp: setup_of_def)

text \<open>A filter selects, in order, the tests it picks and the setup of their files and nothing
  else; it refuses a run none of whose tests it picks; and selecting again from what it selected
  changes nothing.\<close>

theorem select_exact:
  "select lower f raws =
     (if list_ex (picked lower f) raws
      then Inr (filter (\<lambda>raw. picked lower f raw \<or> setup_of lower f raws raw) raws)
      else Inl (NoTestMatches (describe f)))
   \<and> rbind (select lower f raws) (select lower f) = select lower f raws"
proof
  show eq: "select lower f raws =
     (if list_ex (picked lower f) raws
      then Inr (filter (\<lambda>raw. picked lower f raw \<or> setup_of lower f raws raw) raws)
      else Inl (NoTestMatches (describe f)))"
    using select_iff[of lower f raws] by (auto simp: select_def Let_def list_ex_iff)
  show "rbind (select lower f raws) (select lower f) = select lower f raws"
  proof (cases "list_ex (picked lower f) raws")
    case True
    let ?out = "filter (\<lambda>raw. picked lower f raw \<or> setup_of lower f raws raw) raws"
    have "filter (\<lambda>raw. picked lower f raw \<or> setup_of lower f ?out raw) ?out = ?out"
      by (simp add: setup_of_selected cong: conj_cong)
    moreover have "\<exists>raw \<in> set ?out. picked lower f raw" using True by (auto simp: list_ex_iff)
    ultimately have "select lower f ?out = Inr ?out" by (simp add: select_iff)
    then show ?thesis using True by (simp add: eq)
  qed (simp add: eq)
qed

end
