(* ===== verification/TestResults.thy ===== *)
theory TestResults
  imports ReportModel "HOL-Library.Product_Lexorder"
begin

section \<open>Attempts, outcomes and which results count (coverage\_report.rs)\<close>

text \<open>
  What a run's records say of one test: its attempts, folded record by record, its outcome, and
  which records the passing and the failing view are made of.
\<close>

subsection \<open>Vectors in the order they arrive, each once\<close>

definition vector_key :: "mcdc_vector \<Rightarrow> string" where
  "vector_key vector =
     map (\<lambda>value. case value of None \<Rightarrow> CHR ''-'' | Some False \<Rightarrow> CHR ''F'' | Some True \<Rightarrow> CHR ''T'')
       (mv_values vector)
     @ [CHR '':'', if mv_outcome vector then CHR ''T'' else CHR ''F'']"

record ordered_vectors =
  ov_values :: "mcdc_vector list"
  ov_indexes :: "string \<Rightarrow> nat option"

definition no_vectors :: ordered_vectors where
  "no_vectors = \<lparr>ov_values = [], ov_indexes = Map.empty\<rparr>"

definition vectors_insert :: "mcdc_vector \<Rightarrow> ordered_vectors \<Rightarrow> nat \<times> ordered_vectors" where
  "vectors_insert vector ov =
     (let key = vector_key vector in
      case ov_indexes ov key of
        Some index \<Rightarrow> (index, ov)
      | None \<Rightarrow>
          let index = length (ov_values ov) in
          (index, \<lparr>ov_values = ov_values ov @ [vector], ov_indexes = (ov_indexes ov)(key \<mapsto> index)\<rparr>))"

subsection \<open>The tests and phases a view is built from\<close>

record mutable_observation =
  mb_vector :: mcdc_vector
  mb_tests :: "nat list"
  mb_phases :: "nat list"
  mb_explicit_phases :: "nat list"

record mutable_test =
  mt_id :: string
  mt_name :: string
  mt_file :: "string option"
  mt_title :: "string option"
  mt_retries :: "nat set"
  mt_attempts :: "(nat \<times> test_attempt) list"
  mt_unstarted :: bool
  mt_runner_reported_flaky :: bool
  mt_provenance :: test_provenance
  mt_role :: string
  mt_attribution :: string
  mt_hits :: "nat list"
  mt_decisions :: "(string \<times> ordered_vectors) list"

record mutable_phase =
  mh_phase :: coverage_phase
  mh_test :: string
  mh_hits :: "nat list"
  mh_decisions :: "(string \<times> ordered_vectors) list"
  mh_browser_events :: nat
  mh_server_events :: nat
  mh_explicit_events :: nat
  mh_inferred_events :: nat
  mh_explicit_browser_events :: nat
  mh_inferred_browser_events :: nat
  mh_explicit_server_events :: nat
  mh_inferred_server_events :: nat

subsection \<open>Attempts and outcomes\<close>

definition record_attempt :: "raw_test_result \<Rightarrow> mutable_test \<Rightarrow> mutable_test" where
  "record_attempt raw test =
     (case (rt_retry raw, rt_status raw) of
        (Some retry, Some raw_status) \<Rightarrow>
          let previous = map_of (mt_attempts test) retry;
              status =
                (if raw_status = ''unknown''
                    \<or> (case previous of Some attempt \<Rightarrow> ta_status attempt = ''failed'' | None \<Rightarrow> False)
                 then (case previous of None \<Rightarrow> raw_status | Some attempt \<Rightarrow> ta_status attempt)
                 else raw_status);
              expected_status = (case rt_expected_status raw of Some e \<Rightarrow> Some e
                | None \<Rightarrow> (case previous of None \<Rightarrow> None | Some attempt \<Rightarrow> ta_expected_status attempt))
          in test\<lparr>mt_attempts := tree_insert retry
               \<lparr>ta_retry = retry, ta_status = status, ta_expected_status = expected_status\<rparr>
               (mt_attempts test)\<rparr>
      | _ \<Rightarrow> test)"

definition effective_attempt_status :: "test_attempt \<Rightarrow> string" where
  "effective_attempt_status attempt =
     (if ta_expected_status attempt = Some ''failed'' then
        (if ta_status attempt = ''failed'' then ''passed''
         else if ta_status attempt = ''passed'' then ''failed'' else ta_status attempt)
      else ta_status attempt)"

definition test_outcome :: "mutable_test \<Rightarrow> string" where
  "test_outcome test =
     (let attempts = map snd (mt_attempts test) in
      if attempts = [] then (if mt_unstarted test then ''unstarted'' else ''unknown'')
      else
        let terminal_status = effective_attempt_status (last attempts) in
        if terminal_status = ''passed''
           \<and> (mt_runner_reported_flaky test
              \<or> list_ex (\<lambda>attempt. effective_attempt_status attempt \<noteq> ''passed'')
                  (take (length attempts - 1) attempts))
        then ''flaky'' else terminal_status)"

definition raw_test_id :: "raw_test_result \<Rightarrow> string" where
  "raw_test_id raw = (case rt_test_id raw of Some i \<Rightarrow> i | None \<Rightarrow> rt_test raw)"

subsection \<open>The results a passing and a failing view count\<close>

definition note_attempt ::
  "raw_test_result \<Rightarrow> ((string \<times> nat) \<times> (string set \<times> bool)) list \<Rightarrow> ((string \<times> nat) \<times> (string set \<times> bool)) list" where
  "note_attempt raw attempts =
     (case rt_retry raw of None \<Rightarrow> attempts
      | Some retry \<Rightarrow> tree_entry (raw_test_id raw, retry) ({}, False)
          (\<lambda>(statuses, expected).
            (case rt_status raw of Some status \<Rightarrow> insert status statuses | None \<Rightarrow> statuses,
             expected \<or> rt_expected_status raw = Some ''failed''))
          attempts)"

definition terminal_retries :: "((string \<times> nat) \<times> 'a) list \<Rightarrow> (string \<times> nat) list" where
  "terminal_retries attempts =
     fold (\<lambda>((test, retry), _). tree_entry test retry (\<lambda>known. max known retry)) attempts []"

definition passing_coverage_results :: "raw_test_result list \<Rightarrow> raw_test_result list" where
  "passing_coverage_results raw_results =
     (let attempts = fold note_attempt raw_results [];
          accepted = set (filter (\<lambda>(test, retry).
            case map_of attempts (test, retry) of
              Some (statuses, expected_failure) \<Rightarrow> ''passed'' \<in> statuses \<and> \<not> expected_failure
            | None \<Rightarrow> False) (terminal_retries attempts))
      in filter (\<lambda>raw. case rt_retry raw of None \<Rightarrow> False
           | Some retry \<Rightarrow> (raw_test_id raw, retry) \<in> accepted) raw_results)"

definition collect_attempt ::
  "raw_test_result \<Rightarrow> ((string \<times> nat) \<times> raw_test_result list) list \<Rightarrow> ((string \<times> nat) \<times> raw_test_result list) list" where
  "collect_attempt raw attempts =
     (case rt_retry raw of None \<Rightarrow> attempts
      | Some retry \<Rightarrow> tree_entry (raw_test_id raw, retry) [] (\<lambda>records. records @ [raw]) attempts)"

definition attempt_failed :: "raw_test_result list \<Rightarrow> bool" where
  "attempt_failed records =
     (let authoritative = filter (\<lambda>raw. rt_expected_status raw \<noteq> None) records;
          authoritative = (if authoritative = [] then records else authoritative)
      in list_ex (\<lambda>raw.
           if rt_status raw = Some ''failed'' \<and> rt_expected_status raw = Some ''failed'' then False
           else if rt_status raw = Some ''passed'' \<and> rt_expected_status raw = Some ''failed'' then True
           else rt_status raw = Some ''failed'') authoritative)"

definition failed_coverage_results :: "raw_test_result list \<Rightarrow> raw_test_result list" where
  "failed_coverage_results raw_results =
     (let attempts = fold collect_attempt raw_results [];
          failed = set (map fst (filter (\<lambda>(_, records). attempt_failed records) attempts))
      in filter (\<lambda>raw. case rt_retry raw of None \<Rightarrow> False
           | Some retry \<Rightarrow> (raw_test_id raw, retry) \<in> failed) raw_results)"

subsection \<open>One key, one vector\<close>

lemma value_letter_inject:
  "(case a of None \<Rightarrow> CHR ''-'' | Some False \<Rightarrow> CHR ''F'' | Some True \<Rightarrow> CHR ''T'')
     = (case b of None \<Rightarrow> CHR ''-'' | Some False \<Rightarrow> CHR ''F'' | Some True \<Rightarrow> CHR ''T'') \<longleftrightarrow> a = b"
  by (auto split: option.splits bool.splits)

lemma vector_key_inject [simp]: "vector_key v = vector_key w \<longleftrightarrow> v = w"
proof
  assume k: "vector_key v = vector_key w"
  let ?letter = "\<lambda>value. case value of None \<Rightarrow> CHR ''-'' | Some False \<Rightarrow> CHR ''F'' | Some True \<Rightarrow> CHR ''T''"
  have "inj ?letter" by (rule injI) (simp add: value_letter_inject)
  moreover have "map ?letter (mv_values v) = map ?letter (mv_values w)" "mv_outcome v = mv_outcome w"
    using k by (auto simp: vector_key_def split: if_splits)
  ultimately show "v = w" by (cases v; cases w) (auto dest: map_injective)
qed simp

definition vectors_inv :: "ordered_vectors \<Rightarrow> bool" where
  "vectors_inv ov \<longleftrightarrow> distinct (ov_values ov)
     \<and> (\<forall>v. ov_indexes ov (vector_key v) \<noteq> None \<longleftrightarrow> v \<in> set (ov_values ov))"

lemma no_vectors_inv [simp]: "vectors_inv no_vectors" "ov_values no_vectors = []"
  by (simp_all add: vectors_inv_def no_vectors_def)

lemma vectors_insert_set [simp]:
  "vectors_inv ov \<Longrightarrow> set (ov_values (snd (vectors_insert v ov))) = insert v (set (ov_values ov))"
  by (cases "ov_indexes ov (vector_key v)") (auto simp: vectors_insert_def vectors_inv_def Let_def)

lemma vectors_insert_inv [simp]: "vectors_inv ov \<Longrightarrow> vectors_inv (snd (vectors_insert v ov))"
  by (cases "ov_indexes ov (vector_key v)") (auto simp: vectors_insert_def vectors_inv_def Let_def, metis option.distinct(1))

subsection \<open>The records of one attempt\<close>

definition of_attempt :: "string \<Rightarrow> nat \<Rightarrow> raw_test_result \<Rightarrow> bool" where
  "of_attempt test retry raw \<longleftrightarrow> raw_test_id raw = test \<and> rt_retry raw = Some retry"

definition terminal_attempt :: "raw_test_result list \<Rightarrow> string \<Rightarrow> nat \<Rightarrow> bool" where
  "terminal_attempt raws test retry \<longleftrightarrow> (\<exists>raw \<in> set raws. of_attempt test retry raw)
     \<and> (\<forall>raw \<in> set raws. \<forall>other. of_attempt test other raw \<longrightarrow> other \<le> retry)"

definition attempt_passed :: "raw_test_result list \<Rightarrow> string \<Rightarrow> nat \<Rightarrow> bool" where
  "attempt_passed raws test retry \<longleftrightarrow>
     (\<exists>raw \<in> set raws. of_attempt test retry raw \<and> rt_status raw = Some ''passed'')
     \<and> \<not> (\<exists>raw \<in> set raws. of_attempt test retry raw \<and> rt_expected_status raw = Some ''failed'')"

lemma note_attempts:
  "map_of (fold note_attempt raws []) (test, retry) =
     (if \<exists>raw \<in> set raws. of_attempt test retry raw
      then Some ({status. \<exists>raw \<in> set raws. of_attempt test retry raw \<and> rt_status raw = Some status},
             \<exists>raw \<in> set raws. of_attempt test retry raw \<and> rt_expected_status raw = Some ''failed'')
      else None)"
proof (induction raws rule: rev_induct)
  case (snoc raw raws)
  show ?case
  proof (cases "of_attempt test retry raw")
    case True
    then show ?thesis using snoc
      by (auto simp: note_attempt_def of_attempt_def split: option.splits)
  next
    case False
    then have "map_of (fold note_attempt (raws @ [raw]) []) (test, retry) = map_of (fold note_attempt raws []) (test, retry)"
      by (auto simp: note_attempt_def of_attempt_def split: option.splits)
    then show ?thesis using snoc False by auto
  qed
qed simp

lemma tree_map_note_attempts: "tree_map (fold note_attempt raws [])"
  by (induction raws rule: rev_induct) (auto simp: note_attempt_def split: option.splits)

lemma terminal_retries_map:
  "map_of (terminal_retries attempts) test = Some retry \<longleftrightarrow>
     (test, retry) \<in> fst ` set attempts \<and> (\<forall>other. (test, other) \<in> fst ` set attempts \<longrightarrow> other \<le> retry)"
proof (induction attempts arbitrary: retry rule: rev_induct)
  case Nil
  show ?case by (simp add: terminal_retries_def)
next
  case (snoc x attempts)
  obtain t r v where x: "x = ((t, r), v)" by (metis prod.exhaust)
  let ?m = "terminal_retries attempts"
  have step: "terminal_retries (attempts @ [x]) = tree_entry t r (\<lambda>known. max known r) ?m"
    by (simp add: terminal_retries_def x)
  show ?case
  proof (cases "t = test")
    case False
    then show ?thesis using snoc unfolding step by (auto simp: x)
  next
    case True
    show ?thesis
    proof (cases "map_of ?m test")
      case None
      have "(test, other) \<notin> fst ` set attempts" for other
      proof
        assume "(test, other) \<in> fst ` set attempts"
        then have ne: "{r. (test, r) \<in> fst ` set attempts} \<noteq> {}" by blast
        have fin: "finite {r. (test, r) \<in> fst ` set attempts}"
          by (rule finite_subset[of _ "snd ` fst ` set attempts"]) force+
        have "map_of ?m test = Some (Max {r. (test, r) \<in> fst ` set attempts})"
          using snoc[of "Max {r. (test, r) \<in> fst ` set attempts}"] Max_in[OF fin ne] Max_ge[OF fin] by auto
        with None show False by simp
      qed
      then show ?thesis using None True unfolding step by (auto simp: x)
    next
      case (Some known)
      with snoc[of known] have k: "(test, known) \<in> fst ` set attempts"
        "\<And>other. (test, other) \<in> fst ` set attempts \<Longrightarrow> other \<le> known" by auto
      have new: "map_of (terminal_retries (attempts @ [x])) test = Some (max known r)"
        using Some True by (simp add: step)
      have keys: "(test, other) \<in> fst ` set (attempts @ [x]) \<longleftrightarrow> (test, other) \<in> fst ` set attempts \<or> other = r" for other
        using True by (auto simp: x)
      have top: "((test, retry) \<in> fst ` set attempts \<or> retry = r)
          \<and> (\<forall>other. (test, other) \<in> fst ` set attempts \<or> other = r \<longrightarrow> other \<le> retry) \<longleftrightarrow> max known r = retry"
        (is "?l \<longleftrightarrow> _")
      proof
        assume l: ?l
        then have "known \<le> retry" "r \<le> retry" using k(1) by blast+
        moreover have "retry \<le> known \<or> retry = r" using l k(2) by blast
        ultimately show "max known r = retry" by auto
      next
        assume "max known r = retry"
        then show ?l using k by (force simp: max_def split: if_splits)
      qed
      show ?thesis unfolding keys top new by simp
    qed
  qed
qed

lemma tree_map_terminal_retries: "tree_map (terminal_retries attempts)"
proof (induction attempts rule: rev_induct)
  case (snoc x attempts)
  then show ?case by (cases x; cases "fst x") (simp add: terminal_retries_def)
qed (simp add: terminal_retries_def)

lemma attempt_keys:
  "(test, retry) \<in> fst ` set (fold note_attempt raws []) \<longleftrightarrow> (\<exists>raw \<in> set raws. of_attempt test retry raw)"
proof -
  have "(test, retry) \<in> fst ` set (fold note_attempt raws []) \<longleftrightarrow> map_of (fold note_attempt raws []) (test, retry) \<noteq> None"
    by (simp only: map_of_eq_None_iff) simp
  then show ?thesis unfolding note_attempts by (simp split: if_splits)
qed

lemma collect_attempts:
  "map_of (fold collect_attempt raws []) (test, retry) =
     (if \<exists>raw \<in> set raws. of_attempt test retry raw then Some (filter (of_attempt test retry) raws) else None)"
proof (induction raws rule: rev_induct)
  case (snoc raw raws)
  show ?case
  proof (cases "of_attempt test retry raw")
    case True
    then show ?thesis using snoc
      by (auto simp: collect_attempt_def of_attempt_def filter_empty_conv split: option.splits)
  next
    case False
    then have "map_of (fold collect_attempt (raws @ [raw]) []) (test, retry) = map_of (fold collect_attempt raws []) (test, retry)"
      by (auto simp: collect_attempt_def of_attempt_def split: option.splits)
    then show ?thesis using snoc False by auto
  qed
qed simp

lemma tree_map_collect_attempts: "tree_map (fold collect_attempt raws [])"
  by (induction raws rule: rev_induct) (auto simp: collect_attempt_def split: option.splits)

lemma passing_records:
  "passing_coverage_results raws =
     filter (\<lambda>raw. \<exists>retry. rt_retry raw = Some retry \<and> terminal_attempt raws (raw_test_id raw) retry
        \<and> attempt_passed raws (raw_test_id raw) retry) raws"
proof -
  let ?attempts = "fold note_attempt raws []"
  have "(test, retry) \<in> set (terminal_retries ?attempts) \<longleftrightarrow> terminal_attempt raws test retry" for test retry
    using terminal_retries_map[of ?attempts test retry]
    by (simp add: tree_map_in[OF tree_map_terminal_retries] attempt_keys terminal_attempt_def) blast
  moreover have "(case map_of ?attempts (test, retry) of
        Some (statuses, expected_failure) \<Rightarrow> ''passed'' \<in> statuses \<and> \<not> expected_failure
      | None \<Rightarrow> False) \<longleftrightarrow> attempt_passed raws test retry" for test retry
    by (auto simp: note_attempts attempt_passed_def)
  ultimately show ?thesis
    by (auto simp: passing_coverage_results_def Let_def intro!: filter_cong split: option.splits)
qed

lemma failed_records:
  "failed_coverage_results raws =
     filter (\<lambda>raw. \<exists>retry. rt_retry raw = Some retry
        \<and> attempt_failed (filter (of_attempt (raw_test_id raw) retry) raws)) raws"
proof -
  let ?attempts = "fold collect_attempt raws []"
  have "(test, retry) \<in> set (map fst (filter (\<lambda>(_, records). attempt_failed records) ?attempts)) \<longleftrightarrow>
      (\<exists>records. map_of ?attempts (test, retry) = Some records \<and> attempt_failed records)" for test retry
    unfolding tree_map_in[OF tree_map_collect_attempts, symmetric] by force
  moreover have "\<exists>r \<in> set raws. of_attempt (raw_test_id raw) retry r"
    if "raw \<in> set raws" "rt_retry raw = Some retry" for raw retry
    using that by (auto simp: of_attempt_def)
  ultimately show ?thesis
    by (auto simp: failed_coverage_results_def Let_def collect_attempts intro!: filter_cong
        split: option.splits if_splits) blast+
qed

text \<open>A record decides its attempt when it states what it expected, or when no record of the attempt
  does; the attempt went wrong when one that decides ended in a failure it did not expect, or passed
  where a failure was expected.\<close>

definition decides :: "raw_test_result list \<Rightarrow> raw_test_result \<Rightarrow> bool" where
  "decides records raw \<longleftrightarrow>
     rt_expected_status raw \<noteq> None \<or> list_all (\<lambda>other. rt_expected_status other = None) records"

definition attempt_went_wrong :: "raw_test_result list \<Rightarrow> string \<Rightarrow> nat \<Rightarrow> bool" where
  "attempt_went_wrong raws test retry \<longleftrightarrow>
     (let records = filter (of_attempt test retry) raws in
      list_ex (\<lambda>raw. decides records raw \<and> rt_status raw \<in> {Some ''passed'', Some ''failed''}
        \<and> (rt_status raw = Some ''failed'') \<noteq> (rt_expected_status raw = Some ''failed'')) records)"

lemma attempt_failed_iff:
  "attempt_failed (filter (of_attempt test retry) raws) \<longleftrightarrow> attempt_went_wrong raws test retry"
  by (auto simp: attempt_failed_def attempt_went_wrong_def decides_def Let_def list_ex_iff list_all_iff filter_empty_conv)

text \<open>The passing view is made of exactly the records of each test's last attempt, when some
  record of that attempt passed and none expected a failure; the failing view of exactly the records
  of the attempts that went wrong. Both keep the records' order, and take the
  records of one attempt all or none.\<close>

theorem passing_and_failing_exact:
  "passing_coverage_results raws =
     filter (\<lambda>raw. \<exists>retry. rt_retry raw = Some retry \<and> terminal_attempt raws (raw_test_id raw) retry
        \<and> attempt_passed raws (raw_test_id raw) retry) raws
   \<and> failed_coverage_results raws =
     filter (\<lambda>raw. \<exists>retry. rt_retry raw = Some retry
        \<and> attempt_went_wrong raws (raw_test_id raw) retry) raws"
  using passing_records failed_records[unfolded attempt_failed_iff] by blast

subsection \<open>A failed attempt stays failed\<close>

lemma record_attempt_keeps_failed:
  "map_of (mt_attempts test) retry = Some a \<Longrightarrow> ta_status a = ''failed'' \<Longrightarrow>
     \<exists>b. map_of (mt_attempts (record_attempt raw test)) retry = Some b \<and> ta_status b = ''failed''"
  by (auto simp: record_attempt_def Let_def split: option.splits)

lemma record_attempts_keep_failed:
  "map_of (mt_attempts test) retry = Some a \<Longrightarrow> ta_status a = ''failed'' \<Longrightarrow>
     \<exists>b. map_of (mt_attempts (fold record_attempt raws test)) retry = Some b \<and> ta_status b = ''failed''"
proof (induction raws arbitrary: test a)
  case (Cons raw raws)
  from record_attempt_keeps_failed[OF Cons.prems, of raw] Cons.IH show ?case by auto
qed simp

subsection \<open>An attempt that both passed and failed\<close>

lemma record_attempt_key:
  "tree_map (mt_attempts test) \<Longrightarrow> tree_map (mt_attempts (record_attempt raw test))
     \<and> fst ` set (mt_attempts (record_attempt raw test)) = fst ` set (mt_attempts test)
         \<union> (if rt_status raw = None then {} else set_option (rt_retry raw))"
  by (auto simp: record_attempt_def Let_def split: option.splits)

lemma recorded_attempts:
  assumes "mt_attempts fresh = []"
  shows "tree_map (mt_attempts (fold record_attempt raws fresh))
    \<and> fst ` set (mt_attempts (fold record_attempt raws fresh)) = {retry. \<exists>raw \<in> set raws. rt_status raw \<noteq> None \<and> rt_retry raw = Some retry}"
proof (induction raws rule: rev_induct)
  case (snoc raw raws)
  then show ?case using record_attempt_key[of "fold record_attempt raws fresh" raw] by (auto simp: elem_set)
qed (simp add: assms)

lemma recorded_failure:
  assumes "f \<in> set raws" "rt_retry f = Some retry" "rt_status f = Some ''failed''"
  shows "\<exists>a. map_of (mt_attempts (fold record_attempt raws fresh)) retry = Some a \<and> ta_status a = ''failed''"
proof -
  obtain before after where raws: "raws = before @ f # after" using assms(1) by (meson split_list)
  have "\<exists>a. map_of (mt_attempts (record_attempt f test)) retry = Some a \<and> ta_status a = ''failed''" for test
    using assms(2,3) by (auto simp: record_attempt_def Let_def split: option.splits)
  then show ?thesis using record_attempts_keep_failed unfolding raws by fastforce
qed

lemma record_attempt_expectation:
  assumes "\<And>b. map_of (mt_attempts test) retry = Some b \<Longrightarrow> ta_expected_status b = None"
    and "rt_retry raw = Some retry \<Longrightarrow> rt_expected_status raw = None"
  shows "map_of (mt_attempts (record_attempt raw test)) retry = Some a \<Longrightarrow> ta_expected_status a = None"
  using assms by (auto simp: record_attempt_def Let_def split: option.splits if_splits)

lemma recorded_expectation:
  assumes "mt_attempts fresh = []" "\<And>raw. raw \<in> set raws \<Longrightarrow> rt_retry raw = Some retry \<Longrightarrow> rt_expected_status raw = None"
  shows "map_of (mt_attempts (fold record_attempt raws fresh)) retry = Some a \<Longrightarrow> ta_expected_status a = None"
  using assms(2)
proof (induction raws arbitrary: a rule: rev_induct)
  case (snoc raw raws)
  let ?test = "fold record_attempt raws fresh"
  have IH: "map_of (mt_attempts ?test) retry = Some b \<Longrightarrow> ta_expected_status b = None" for b
    using snoc.IH snoc.prems(2) by simp
  show ?case
    by (rule record_attempt_expectation[of ?test retry raw]) (use IH snoc.prems in simp_all)
qed (simp add: assms(1))

lemma last_is_greatest:
  assumes "tree_map m" "map_of m k = Some v" "\<And>k'. k' \<in> fst ` set m \<Longrightarrow> k' \<le> k"
  shows "last m = (k, v)"
proof -
  have mem: "(k, v) \<in> set m" using assms(2) by (rule map_of_SomeD)
  then obtain before final where m: "m = before @ [final]" by (cases m rule: rev_cases) auto
  have "fst final \<le> k" using assms(3) by (simp add: m)
  moreover have "\<forall>entry \<in> set before. fst entry < fst final" using assms(1) by (simp add: m tree_map_def sorted_wrt_append)
  ultimately show ?thesis using mem by (auto simp: m)
qed

text \<open>C25: Where the last attempt of a test has a record that passed and one that failed, none stating what it
  expected -- the same tests run twice under one identity -- the attempt is counted twice over: every record
  of it is in the passing view and in the failing view, while the test itself is reported failed.\<close>

theorem mixed_attempt_counted_twice:
  assumes "raw \<in> set raws" and "of_attempt test retry raw" and "terminal_attempt raws test retry"
    and "passed \<in> set raws" and "of_attempt test retry passed" and "rt_status passed = Some ''passed''"
    and "failed \<in> set raws" and "of_attempt test retry failed" and "rt_status failed = Some ''failed''"
    and "list_all (\<lambda>other. rt_expected_status other = None) (filter (of_attempt test retry) raws)"
    and "mt_attempts fresh = []"
  shows "raw \<in> set (passing_coverage_results raws) \<and> raw \<in> set (failed_coverage_results raws)
    \<and> test_outcome (fold record_attempt (filter (\<lambda>other. raw_test_id other = test) raws) fresh) = ''failed''"
proof (intro conjI)
  have id: "raw_test_id raw = test" "rt_retry raw = Some retry" using assms(2) by (auto simp: of_attempt_def)
  have plain: "\<not> (\<exists>other \<in> set raws. of_attempt test retry other \<and> rt_expected_status other = Some ''failed'')"
    using assms(10) by (auto simp: list_all_iff)
  have "attempt_passed raws test retry" unfolding attempt_passed_def using assms(4-6) plain by blast
  then show "raw \<in> set (passing_coverage_results raws)" using assms(1,3) id by (simp add: passing_records)
  have "attempt_failed (filter (of_attempt test retry) raws)"
    unfolding attempt_failed_iff attempt_went_wrong_def decides_def Let_def list_ex_iff
    using assms(7-10) by (intro bexI[of _ failed]) (auto simp: list_all_iff)
  then show "raw \<in> set (failed_coverage_results raws)" using assms(1) id by (simp add: failed_records)
  let ?raws = "filter (\<lambda>other. raw_test_id other = test) raws"
  let ?attempts = "mt_attempts (fold record_attempt ?raws fresh)"
  have failed: "failed \<in> set ?raws" "rt_retry failed = Some retry" using assms(7,8) by (auto simp: of_attempt_def)
  obtain a where a: "map_of ?attempts retry = Some a" "ta_status a = ''failed''"
    using recorded_failure[OF failed assms(9)] by blast
  have "rt_expected_status other = None" if "other \<in> set ?raws" "rt_retry other = Some retry" for other
    using that assms(10) by (auto simp: list_all_iff of_attempt_def)
  note expectation = recorded_expectation[OF assms(11) this a(1)]
  have last: "last ?attempts = (retry, a)"
    by (rule last_is_greatest[OF conjunct1[OF recorded_attempts[OF assms(11)]] a(1)])
      (use assms(3) recorded_attempts[OF assms(11), of ?raws] in \<open>auto simp: terminal_attempt_def of_attempt_def\<close>)
  have "?attempts \<noteq> []" using a(1) by auto
  then show "test_outcome (fold record_attempt ?raws fresh) = ''failed''"
    using last a(2) expectation by (simp add: test_outcome_def Let_def last_map effective_attempt_status_def)
qed

end
