(* ===== verification/ReachedBy.thy ===== *)
theory ReachedBy
  imports TestResults
begin

section \<open>Which tests and phases reached each obligation (coverage\_report.rs)\<close>

text \<open>
  While evidence is read, hits, tests and phases are numbered in the order they are first named
  (\<open>HitIds\<close>, \<open>References\<close>) and a reference is a pair of numbers. \<open>References::into_relation\<close>
  restores names: for each obligation the ids that reached it, in order and once each. Numbers are
  list positions (\<open>usize\<close>, and \<open>u32\<close> for tests and phases): naturals, for runs that name fewer
  than \<open>2 ^ 32\<close> of them.
\<close>

subsection \<open>The phase an event falls in\<close>

definition phase_at :: "coverage_phase list \<Rightarrow> int \<Rightarrow> string option" where
  "phase_at ordered_phases timestamp_ms =
     (let started = length (takeWhile (\<lambda>phase. cp_started_at_ms phase \<le> timestamp_ms) ordered_phases) in
      if started = 0 then None
      else
        let latest = ordered_phases ! (started - 1);
            handed_over = cp_started_at_ms latest = timestamp_ms \<and> 2 \<le> started
              \<and> cp_ended_at_ms (ordered_phases ! (started - 2)) = Some timestamp_ms
              \<and> cp_started_at_ms (ordered_phases ! (started - 2)) < timestamp_ms
        in Some (cp_id (if handed_over then ordered_phases ! (started - 2) else latest)))"

definition correlate_event :: "runtime_event \<Rightarrow> coverage_phase list \<Rightarrow> string option" where
  "correlate_event event ordered_phases =
     (case re_phase_id event of Some phase_id \<Rightarrow> Some phase_id
      | None \<Rightarrow> phase_at ordered_phases (re_timestamp_ms event))"

subsection \<open>Numbers for hits\<close>

record hit_ids =
  hi_names :: "string list"
  hi_numbers :: "string \<Rightarrow> nat option"

definition no_hits :: hit_ids where
  "no_hits = \<lparr>hi_names = [], hi_numbers = Map.empty\<rparr>"

definition hit_number :: "string \<Rightarrow> hit_ids \<Rightarrow> nat \<times> hit_ids" where
  "hit_number hit ids =
     (case hi_numbers ids hit of Some number \<Rightarrow> (number, ids)
      | None \<Rightarrow>
          let number = length (hi_names ids) in
          (number, \<lparr>hi_names = hi_names ids @ [hit], hi_numbers = (hi_numbers ids)(hit \<mapsto> number)\<rparr>))"

text \<open>Each number's position in the order of the names: \<open>HitIds::ranks\<close> and the first half of
  \<open>References::into_relation\<close>. The names are distinct, so sorting them is stable.\<close>

definition ranks :: "string list \<Rightarrow> nat list" where
  "ranks names =
     (let order = sort_key (\<lambda>number. names ! number) [0..<length names] in
      fold (\<lambda>(position, number) rank. rank[number := position]) (enumerate 0 order)
        (replicate (length names) 0))"

definition sorted_by :: "string list \<Rightarrow> nat list \<Rightarrow> nat list \<Rightarrow> string list" where
  "sorted_by names numbers rank =
     map (\<lambda>number. names ! number) (remdups_adj (sort_key (\<lambda>number. rank ! number) numbers))"

subsection \<open>References\<close>

record references =
  rf_names :: "string list"
  rf_numbers :: "string \<Rightarrow> nat option"
  rf_last :: "nat option"
  rf_by_obligation :: "nat list list"

definition no_references :: references where
  "no_references = \<lparr>rf_names = [], rf_numbers = Map.empty, rf_last = None, rf_by_obligation = []\<rparr>"

definition ref_number :: "string \<Rightarrow> references \<Rightarrow> nat \<times> references" where
  "ref_number reached r =
     (let known = (case rf_last r of Some number \<Rightarrow> if rf_names r ! number = reached then Some number else None
            | None \<Rightarrow> None) in
      case known of Some number \<Rightarrow> (number, r)
      | None \<Rightarrow>
          (case rf_numbers r reached of
             Some number \<Rightarrow> (number, r\<lparr>rf_last := Some number\<rparr>)
           | None \<Rightarrow>
               let number = length (rf_names r) in
               (number, r\<lparr>rf_names := rf_names r @ [reached],
                  rf_numbers := (rf_numbers r)(reached \<mapsto> number), rf_last := Some number\<rparr>)))"

definition ref_add :: "nat \<Rightarrow> string \<Rightarrow> references \<Rightarrow> references" where
  "ref_add obligation reached r =
     (let (number, r) = ref_number reached r;
          rows = rf_by_obligation r @ replicate (obligation + 1 - length (rf_by_obligation r)) [];
          row = rows ! obligation
      in r\<lparr>rf_by_obligation :=
           (if row \<noteq> [] \<and> last row = number then rows else rows[obligation := row @ [number]])\<rparr>)"

subsection \<open>Relations\<close>

record reached_ids =
  rd_names :: "string list"
  rd_numbers :: "nat list"

record relation =
  rl_names :: "string list"
  rl_rank :: "nat list"
  rl_by_hit :: "string \<Rightarrow> reached_ids option"

definition relation_reached :: "relation \<Rightarrow> nat list \<Rightarrow> reached_ids" where
  "relation_reached rl numbers =
     (let numbers = remdups_adj (sort_key (\<lambda>number. rl_rank rl ! number) numbers) in
      \<lparr>rd_names = map (\<lambda>number. rl_names rl ! number) numbers, rd_numbers = numbers\<rparr>)"

definition into_relation :: "references \<Rightarrow> hit_ids \<Rightarrow> relation" where
  "into_relation r hits =
     fold (\<lambda>(obligation, row) rl.
         if row \<noteq> [] then rl\<lparr>rl_by_hit := (rl_by_hit rl)(hi_names hits ! obligation \<mapsto> relation_reached rl row)\<rparr>
         else rl)
       (enumerate 0 (rf_by_obligation r))
       \<lparr>rl_names = rf_names r, rl_rank = ranks (rf_names r), rl_by_hit = Map.empty\<rparr>"

definition relation_of :: "relation \<Rightarrow> string \<Rightarrow> reached_ids" where
  "relation_of rl i = (case rl_by_hit rl i of Some reached \<Rightarrow> reached
     | None \<Rightarrow> \<lparr>rd_names = [], rd_numbers = []\<rparr>)"

subsection \<open>Confidence\<close>

record test_traits =
  tt_setup :: bool
  tt_background :: bool
  tt_runner :: string
  tt_kind :: string

definition traits_of :: "mutable_test \<Rightarrow> test_traits" where
  "traits_of test = \<lparr>tt_setup = (mt_role test = ''setup''), tt_background = (mt_role test = ''background''),
     tt_runner = tp_runner (mt_provenance test), tt_kind = tp_kind (mt_provenance test)\<rparr>"

text \<open>A \<open>BTreeSet\<close> collected from a list, as the list its iterator gives.\<close>

definition tree_set :: "'a :: linorder list \<Rightarrow> 'a list" where
  "tree_set xs = sort (remdups xs)"

definition confidence_from ::
  "reached_ids \<Rightarrow> reached_ids \<Rightarrow> reached_ids \<Rightarrow> test_traits list \<Rightarrow> string list \<Rightarrow> string list \<Rightarrow> coverage_confidence" where
  "confidence_from tests phases explicit traits phase_kinds explicit_kinds =
     (let has_test = rd_numbers tests \<noteq> [];
          reaching = map (\<lambda>number. traits ! number) (rd_numbers tests);
          setup_roles = list_all tt_setup reaching;
          background_roles = list_all tt_background reaching;
          runners = tree_set (map tt_runner reaching);
          kinds = tree_set (map tt_kind reaching);
          has_phase = rd_numbers phases \<noteq> [];
          setup_phases = list_all (\<lambda>number. phase_kinds ! number = ''setup'') (rd_numbers phases);
          background_phases = list_all (\<lambda>number. phase_kinds ! number = ''background'') (rd_numbers phases);
          has_action = list_ex (\<lambda>number. explicit_kinds ! number = ''action'') (rd_numbers explicit);
          level = (if rd_names tests = [] then ''unexecuted''
            else if has_action then ''action'' else ''executed'')
      in \<lparr>cf_level = level,
          cf_setup_only = (if has_phase then setup_phases else has_test \<and> setup_roles),
          cf_background_only = (if has_phase then background_phases else has_test \<and> background_roles),
          cf_tests = rd_names tests, cf_runners = runners, cf_kinds = kinds,
          cf_e2e = (''e2e'' \<in> set kinds)\<rparr>)"

subsection \<open>Numbers stand for the names they were given\<close>

definition numbers :: "string list \<Rightarrow> (string \<Rightarrow> nat option) \<Rightarrow> bool" where
  "numbers names number_of \<longleftrightarrow> distinct names
     \<and> (\<forall>text number. number_of text = Some number \<longleftrightarrow> number < length names \<and> names ! number = text)"

lemma numbers_Some: "numbers names number_of \<Longrightarrow> number_of text = Some number \<Longrightarrow> number < length names \<and> names ! number = text"
  by (simp add: numbers_def)

lemma numbers_distinct: "numbers names number_of \<Longrightarrow> distinct names"
  by (simp add: numbers_def)

lemma numbers_Nil [simp]: "numbers [] Map.empty"
  by (simp add: numbers_def)

lemma numbers_None: "numbers names number_of \<Longrightarrow> number_of text = None \<longleftrightarrow> text \<notin> set names"
  unfolding numbers_def in_set_conv_nth by (metis option.distinct(1) not_Some_eq)

lemma numbers_snoc:
  "numbers names number_of \<Longrightarrow> number_of text = None \<Longrightarrow> numbers (names @ [text]) (number_of(text \<mapsto> length names))"
proof -
  assume n: "numbers names number_of" and "number_of text = None"
  then have new: "text \<notin> set names" by (simp add: numbers_None)
  then have "names ! i \<noteq> text" if "i < length names" for i using that nth_mem by metis
  with n new show ?thesis
    unfolding numbers_def by (auto simp: nth_append less_Suc_eq)
qed

definition hits_inv :: "hit_ids \<Rightarrow> bool" where
  "hits_inv ids \<longleftrightarrow> numbers (hi_names ids) (hi_numbers ids)"

lemma no_hits_inv [simp]: "hits_inv no_hits"
  by (simp add: hits_inv_def no_hits_def)

lemma hit_numberE:
  assumes "hits_inv ids" and "hit_number hit ids = (number, ids')"
  obtains extra where "hits_inv ids'" "hi_names ids' = hi_names ids @ extra"
    "number < length (hi_names ids')" "hi_names ids' ! number = hit"
proof (cases "hi_numbers ids hit")
  case None
  let ?ids = "\<lparr>hi_names = hi_names ids @ [hit], hi_numbers = (hi_numbers ids)(hit \<mapsto> length (hi_names ids))\<rparr>"
  have ids': "ids' = ?ids" "number = length (hi_names ids)"
    using assms(2) None by (auto simp: hit_number_def Let_def)
  have "hits_inv ?ids" using numbers_snoc assms(1) None by (simp add: hits_inv_def)
  then show ?thesis using that[of "[hit]"] by (simp add: ids')
next
  case (Some n)
  then have "ids' = ids" "number = n" using assms(2) by (simp_all add: hit_number_def)
  moreover have "n < length (hi_names ids) \<and> hi_names ids ! n = hit"
    using assms(1) Some numbers_Some by (simp add: hits_inv_def)
  ultimately show ?thesis using assms(1) that[of "[]"] by simp
qed

definition references_inv :: "references \<Rightarrow> bool" where
  "references_inv r \<longleftrightarrow> numbers (rf_names r) (rf_numbers r)
     \<and> (\<forall>number. rf_last r = Some number \<longrightarrow> number < length (rf_names r))
     \<and> (\<forall>row \<in> set (rf_by_obligation r). \<forall>number \<in> set row. number < length (rf_names r))"

definition reach_pairs :: "references \<Rightarrow> (nat \<times> string) set" where
  "reach_pairs r = {(obligation, rf_names r ! number) |obligation number.
     obligation < length (rf_by_obligation r) \<and> number \<in> set (rf_by_obligation r ! obligation)}"

lemma no_references_inv [simp]: "references_inv no_references" "reach_pairs no_references = {}"
  by (simp_all add: references_inv_def reach_pairs_def no_references_def)

lemma references_row:
  "references_inv r \<Longrightarrow> obligation < length (rf_by_obligation r) \<Longrightarrow> number \<in> set (rf_by_obligation r ! obligation)
     \<Longrightarrow> number < length (rf_names r)"
  using nth_mem by (fastforce simp: references_inv_def)

lemma ref_numberE:
  assumes "references_inv r" and "ref_number reached r = (number, r')"
  obtains extra where "references_inv r'" "rf_names r' = rf_names r @ extra"
    "number < length (rf_names r')" "rf_names r' ! number = reached"
    "rf_by_obligation r' = rf_by_obligation r" "set extra \<subseteq> {reached}"
proof (cases "\<exists>n. rf_last r = Some n \<and> rf_names r ! n = reached")
  case True
  then obtain n where n: "rf_last r = Some n" "rf_names r ! n = reached" by blast
  then have "number = n" "r' = r" using assms(2) by (simp_all add: ref_number_def)
  moreover have "n < length (rf_names r)" using assms(1) n(1) by (simp add: references_inv_def)
  ultimately show ?thesis using assms(1) n(2) that[of "[]"] by simp
next
  case False
  then have known: "(case rf_last r of Some n \<Rightarrow> if rf_names r ! n = reached then Some n else None | None \<Rightarrow> None) = None"
    by (auto split: option.splits)
  have n: "numbers (rf_names r) (rf_numbers r)" using assms(1) by (simp add: references_inv_def)
  show ?thesis
  proof (cases "rf_numbers r reached")
    case None
    let ?r = "r\<lparr>rf_names := rf_names r @ [reached],
        rf_numbers := (rf_numbers r)(reached \<mapsto> length (rf_names r)), rf_last := Some (length (rf_names r))\<rparr>"
    have r': "r' = ?r" "number = length (rf_names r)"
      using assms(2) None known by (auto simp: ref_number_def Let_def)
    have "references_inv ?r"
      using assms(1) numbers_snoc[OF n None] unfolding references_inv_def by fastforce
    with r' show ?thesis using that[of "[reached]"] by simp
  next
    case (Some m)
    have r': "r' = r\<lparr>rf_last := Some m\<rparr>" "number = m"
      using assms(2) Some known by (auto simp: ref_number_def Let_def)
    show ?thesis using assms(1) that[of "[]"] numbers_Some[OF n Some] unfolding r'
      by (simp add: references_inv_def)
  qed
qed

lemma reach_pairs_names:
  assumes "references_inv r" "rf_names r' = rf_names r @ extra" "rf_by_obligation r' = rf_by_obligation r"
  shows "reach_pairs r' = reach_pairs r"
proof -
  have "rf_names r' ! number = rf_names r ! number"
    if "obligation < length (rf_by_obligation r)" "number \<in> set (rf_by_obligation r ! obligation)" for obligation number
    using assms(2) references_row[OF assms(1) that] by (simp add: nth_append)
  then show ?thesis unfolding reach_pairs_def assms(3) by (metis (no_types, lifting))
qed

lemma ref_number_pairs:
  "references_inv r \<Longrightarrow> reach_pairs (snd (ref_number reached r)) = reach_pairs r"
  by (metis ref_numberE reach_pairs_names prod.collapse)

lemma ref_add_correct:
  assumes "references_inv r"
  shows "references_inv (ref_add obligation reached r)"
    and "reach_pairs (ref_add obligation reached r) = insert (obligation, reached) (reach_pairs r)"
    and "\<exists>extra. rf_names (ref_add obligation reached r) = rf_names r @ extra"
proof -
  obtain number r1 where r1: "ref_number reached r = (number, r1)" by fastforce
  obtain extra where *: "references_inv r1" "rf_names r1 = rf_names r @ extra"
    "number < length (rf_names r1)" "rf_names r1 ! number = reached"
    "rf_by_obligation r1 = rf_by_obligation r"
    using ref_numberE[OF assms r1] .
  let ?rows = "rf_by_obligation r1 @ replicate (obligation + 1 - length (rf_by_obligation r1)) []"
  let ?row = "?rows ! obligation"
  let ?new = "if ?row \<noteq> [] \<and> last ?row = number then ?rows else ?rows[obligation := ?row @ [number]]"
  have add: "ref_add obligation reached r = r1\<lparr>rf_by_obligation := ?new\<rparr>"
    by (simp add: ref_add_def r1 Let_def)
  have len: "obligation < length ?rows" by simp
  have rows: "set (?rows ! i) = (if i < length (rf_by_obligation r1) then set (rf_by_obligation r1 ! i) else {})"
    if "i < length ?rows" for i using that by (auto simp: nth_append)
  have new: "set (?new ! i) = (if i < length (rf_by_obligation r1) then set (rf_by_obligation r1 ! i) else {})
      \<union> (if i = obligation then {number} else {})" if "i < length ?rows" for i
  proof (cases "?row \<noteq> [] \<and> last ?row = number")
    case True
    then have "number \<in> set ?row" using last_in_set by blast
    then have "i = obligation \<Longrightarrow> number \<in> set (?rows ! i)" by blast
    then show ?thesis using True rows[OF that] by (auto simp del: set_append split: if_splits)
  next
    case False
    then show ?thesis using rows[OF that] that by (auto simp: nth_list_update)
  qed
  have length_new: "length ?new = length ?rows" by simp
  have in_new: "row \<in> set ?new \<Longrightarrow> x \<in> set row \<Longrightarrow> x < length (rf_names r1)" for row x
  proof -
    assume "row \<in> set ?new" "x \<in> set row"
    then obtain i where i: "i < length ?rows" "x \<in> set (?new ! i)" by (metis in_set_conv_nth length_new)
    then show "x < length (rf_names r1)" using new[OF i(1)] references_row[OF *(1)] *(3)
      by (auto split: if_splits)
  qed
  show "references_inv (ref_add obligation reached r)"
    using *(1) in_new unfolding add references_inv_def by simp
  have "reach_pairs (ref_add obligation reached r) =
      {(i, rf_names r1 ! n) |i n. i < length ?rows \<and> n \<in> set (?new ! i)}"
    unfolding add reach_pairs_def by (simp add: length_new)
  also have "\<dots> = {(i, rf_names r1 ! n) |i n. i < length ?rows \<and>
      (i < length (rf_by_obligation r1) \<and> n \<in> set (rf_by_obligation r1 ! i) \<or> i = obligation \<and> n = number)}"
    using new by (auto split: if_splits)
  also have "\<dots> = insert (obligation, reached) (reach_pairs r1)"
    using *(4) len by (auto simp: reach_pairs_def)
  finally show "reach_pairs (ref_add obligation reached r) = insert (obligation, reached) (reach_pairs r)"
    using reach_pairs_names[OF assms *(2) *(5)] by simp
  show "\<exists>extra. rf_names (ref_add obligation reached r) = rf_names r @ extra"
    by (simp add: add *(2))
qed


subsection \<open>Ranks restore the order of the names\<close>

lemma fold_set_at:
  "distinct order \<Longrightarrow> \<forall>number \<in> set order. number < length rank \<Longrightarrow> p < length order \<Longrightarrow>
     fold (\<lambda>(position, number) rank. rank[number := position]) (enumerate k order) rank ! (order ! p) = k + p"
proof (induction order arbitrary: k rank p rule: list.induct)
  case (Cons x order)
  have frame: "fold (\<lambda>(position, number) rank. rank[number := position]) (enumerate k' ns) r ! x = r ! x"
    if "x \<notin> set ns" for ns k' and r :: "nat list"
    using that by (induction ns arbitrary: k' r) auto
  show ?case
  proof (cases p)
    case 0
    then show ?thesis using Cons.prems by (simp add: frame)
  next
    case (Suc q)
    then show ?thesis using Cons.IH[where p = q and k = "Suc k" and rank = "rank[x := k]"] Cons.prems by simp
  qed
qed simp

lemma length_fold_set [simp]:
  "length (fold (\<lambda>(position, number) rank. rank[number := position]) ps rank) = length rank"
  by (induction ps arbitrary: rank) (auto split: prod.splits)

lemma ranks_less:
  assumes "distinct names" "i < length names" "j < length names"
  shows "ranks names ! i < ranks names ! j \<longleftrightarrow> names ! i < names ! j"
proof -
  define order where "order = sort_key (\<lambda>number. names ! number) [0..<length names]"
  have order: "distinct order" "set order = {0..<length names}" "length order = length names"
    by (simp_all add: order_def)
  have at: "ranks names ! (order ! p) = p" if "p < length order" for p
    using fold_set_at[of order "replicate (length names) 0" p 0] that order
    by (simp add: ranks_def order_def [symmetric] Let_def)
  obtain p q where p: "p < length order" "order ! p = i" and q: "q < length order" "order ! q = j"
    using assms(2,3) order(2) by (metis atLeastLessThan_iff in_set_conv_nth le0)
  have "mset (map ((!) names) order) = image_mset ((!) names) (mset [0..<length names])"
    by (simp only: mset_map order_def mset_sort)
  also have "\<dots> = mset names" by (simp only: mset_map [symmetric] map_nth)
  finally have "mset names = mset (map ((!) names) order)" by (rule sym)
  moreover have "sorted (map ((!) names) order)" by (simp add: order_def)
  ultimately have "map (\<lambda>number. names ! number) order = sort names"
    by (metis properties_for_sort)
  then have "sorted_wrt (<) (map (\<lambda>number. names ! number) order)"
    using assms(1) by (simp add: strict_sorted_iff)
  then have "p' < q' \<Longrightarrow> q' < length order \<Longrightarrow> names ! (order ! p') < names ! (order ! q')" for p' q'
    by (simp add: sorted_wrt_iff_nth_less)
  then have "p < q \<longleftrightarrow> names ! i < names ! j"
    using p q by (metis linorder_neqE_nat order.asym)
  then show ?thesis using at p q by metis
qed

lemma remdups_adj_map_inj_on:
  "inj_on f (set xs) \<Longrightarrow> remdups_adj (map f xs) = map f (remdups_adj xs)"
  by (induction xs rule: remdups_adj.induct) (auto simp: inj_on_def)

lemma sorted_remdups_adj_strict: "sorted xs \<Longrightarrow> sorted_wrt (<) (remdups_adj xs)"
  by (induction xs rule: remdups_adj.induct) (auto simp: order_le_less)

lemma sorted_by_ranks:
  assumes "distinct names" "\<forall>n \<in> set ns. n < length names"
  shows "map (\<lambda>number. names ! number) (remdups_adj (sort_key (\<lambda>number. ranks names ! number) ns))
    = sorted_list_of_set ((!) names ` set ns)"
proof -
  let ?ns = "sort_key (\<lambda>number. ranks names ! number) ns"
  have less: "names ! a \<le> names ! b" if "a \<in> set ns" "b \<in> set ns" "ranks names ! a \<le> ranks names ! b" for a b
    using ranks_less[OF assms(1), of b a] assms(2) that by (simp add: linorder_not_less [symmetric])
  have "sorted_wrt (\<lambda>a b. ranks names ! a \<le> ranks names ! b) ?ns"
    using sorted_sort_key[of "\<lambda>number. ranks names ! number" ns] by (simp only: sorted_map)
  then have "sorted_wrt (\<lambda>a b. names ! a \<le> names ! b) ?ns"
    by (rule sorted_wrt_mono_rel [rotated]) (simp add: less)
  then have "sorted (map ((!) names) ?ns)" by (simp only: sorted_map)
  then have "sorted_wrt (<) (remdups_adj (map ((!) names) ?ns))" by (rule sorted_remdups_adj_strict)
  moreover have "inj_on ((!) names) (set ?ns)" using assms by (auto simp: inj_on_def nth_eq_iff_index_eq)
  ultimately have "sorted_wrt (<) (map ((!) names) (remdups_adj ?ns))"
    by (simp add: remdups_adj_map_inj_on)
  moreover have "set (map ((!) names) (remdups_adj ?ns)) = (!) names ` set ns" by simp
  ultimately show ?thesis
    by (metis finite_set sorted_list_of_set.idem_if_sorted_distinct strict_sorted_iff)
qed

subsection \<open>What a relation holds\<close>

definition relation_inv :: "relation \<Rightarrow> bool" where
  "relation_inv rl \<longleftrightarrow> distinct (rl_names rl) \<and> rl_rank rl = ranks (rl_names rl)"

lemma relation_reached_names:
  assumes "relation_inv rl" "\<forall>n \<in> set ns. n < length (rl_names rl)"
  shows "rd_names (relation_reached rl ns) = sorted_list_of_set ((!) (rl_names rl) ` set ns)"
    and "set (rd_numbers (relation_reached rl ns)) = set ns"
    and "rd_names (relation_reached rl ns) = map ((!) (rl_names rl)) (rd_numbers (relation_reached rl ns))"
  using assms sorted_by_ranks[of "rl_names rl" ns]
  by (simp_all add: relation_reached_def relation_inv_def Let_def)

lemma into_relation_fields [simp]:
  "rl_names (into_relation r hits) = rf_names r" "rl_rank (into_relation r hits) = ranks (rf_names r)"
proof -
  have "rl_names (fold (\<lambda>(obligation, row) rl.
         if row \<noteq> [] then rl\<lparr>rl_by_hit := (rl_by_hit rl)(hi_names hits ! obligation \<mapsto> relation_reached rl row)\<rparr>
         else rl) ps rl) = rl_names rl
     \<and> rl_rank (fold (\<lambda>(obligation, row) rl.
         if row \<noteq> [] then rl\<lparr>rl_by_hit := (rl_by_hit rl)(hi_names hits ! obligation \<mapsto> relation_reached rl row)\<rparr>
         else rl) ps rl) = rl_rank rl" for ps and rl :: relation
    by (induction ps arbitrary: rl) (auto split: prod.splits)
  then show "rl_names (into_relation r hits) = rf_names r" "rl_rank (into_relation r hits) = ranks (rf_names r)"
    by (simp_all add: into_relation_def)
qed

definition insert_row :: "hit_ids \<Rightarrow> nat \<times> nat list \<Rightarrow> relation \<Rightarrow> relation" where
  "insert_row hits = (\<lambda>(obligation, row) rl.
     if row \<noteq> [] then rl\<lparr>rl_by_hit := (rl_by_hit rl)(hi_names hits ! obligation \<mapsto> relation_reached rl row)\<rparr>
     else rl)"

lemma relation_reached_cong:
  "rl_names rl = rl_names rl' \<Longrightarrow> rl_rank rl = rl_rank rl' \<Longrightarrow> relation_reached rl ns = relation_reached rl' ns"
  by (simp add: relation_reached_def)

lemma insert_rows:
  assumes "distinct (hi_names hits)" "length rows \<le> length (hi_names hits)" "rl_by_hit base = Map.empty"
  shows "rl_names (fold (insert_row hits) (enumerate 0 rows) base) = rl_names base
    \<and> rl_rank (fold (insert_row hits) (enumerate 0 rows) base) = rl_rank base
    \<and> (\<forall>i < length (hi_names hits). rl_by_hit (fold (insert_row hits) (enumerate 0 rows) base) (hi_names hits ! i)
       = (if i < length rows \<and> rows ! i \<noteq> [] then Some (relation_reached base (rows ! i)) else None))
    \<and> (\<forall>hit. hit \<notin> set (hi_names hits) \<longrightarrow> rl_by_hit (fold (insert_row hits) (enumerate 0 rows) base) hit = None)"
  using assms(2)
proof (induction rows rule: rev_induct)
  case Nil
  then show ?case using assms(3) by simp
next
  case (snoc row rows)
  let ?rl = "fold (insert_row hits) (enumerate 0 rows) base"
  have step: "fold (insert_row hits) (enumerate 0 (rows @ [row])) base = insert_row hits (length rows, row) ?rl"
    by (simp add: enumerate_append_eq)
  have ih: "rl_names ?rl = rl_names base" "rl_rank ?rl = rl_rank base"
    "\<And>i. i < length (hi_names hits) \<Longrightarrow> rl_by_hit ?rl (hi_names hits ! i)
       = (if i < length rows \<and> rows ! i \<noteq> [] then Some (relation_reached base (rows ! i)) else None)"
    "\<And>hit. hit \<notin> set (hi_names hits) \<Longrightarrow> rl_by_hit ?rl hit = None"
    using snoc by auto
  have here: "length rows < length (hi_names hits)" using snoc.prems by simp
  have same: "relation_reached ?rl row = relation_reached base row"
    by (rule relation_reached_cong[OF ih(1,2)])
  have other: "hi_names hits ! i = hi_names hits ! length rows \<longleftrightarrow> i = length rows"
    if "i < length (hi_names hits)" for i using assms(1) here that by (simp add: nth_eq_iff_index_eq)
  have "hi_names hits ! length rows \<in> set (hi_names hits)" using here by simp
  then have "hit \<notin> set (hi_names hits) \<Longrightarrow> hit \<noteq> hi_names hits ! length rows" for hit by metis
  then show ?case unfolding step
    using ih same by (auto simp: insert_row_def other nth_append less_Suc_eq)
qed

lemma into_relation_row:
  "into_relation r hits = fold (insert_row hits) (enumerate 0 (rf_by_obligation r))
     \<lparr>rl_names = rf_names r, rl_rank = ranks (rf_names r), rl_by_hit = Map.empty\<rparr>"
  unfolding into_relation_def insert_row_def ..

text \<open>What reached what, by name.\<close>

definition reached_by :: "references \<Rightarrow> hit_ids \<Rightarrow> (string \<times> string) set" where
  "reached_by r hits = {(hi_names hits ! obligation, reached) |obligation reached.
     (obligation, reached) \<in> reach_pairs r}"

definition relation_ok :: "references \<Rightarrow> hit_ids \<Rightarrow> bool" where
  "relation_ok r hits \<longleftrightarrow> references_inv r \<and> hits_inv hits \<and> length (rf_by_obligation r) \<le> length (hi_names hits)"

lemma relation_ok_init [simp]: "relation_ok no_references no_hits" "reached_by no_references no_hits = {}"
  by (simp_all add: relation_ok_def reached_by_def no_references_def no_hits_def reach_pairs_def)
    (simp add: references_inv_def hits_inv_def)

lemma into_relation_inv: "relation_ok r hits \<Longrightarrow> relation_inv (into_relation r hits)"
  by (auto simp: relation_ok_def relation_inv_def references_inv_def dest: numbers_distinct)

lemma relation_of_names:
  assumes "relation_ok r hits"
  shows "rd_names (relation_of (into_relation r hits) hit) = sorted_list_of_set {reached. (hit, reached) \<in> reached_by r hits}"
    and "rl_by_hit (into_relation r hits) hit \<noteq> None \<longleftrightarrow> (\<exists>reached. (hit, reached) \<in> reached_by r hits)"
    and "n \<in> set (rd_numbers (relation_of (into_relation r hits) hit)) \<Longrightarrow> n < length (rf_names r)"
    and "rd_names (relation_of (into_relation r hits) hit)
      = map ((!) (rf_names r)) (rd_numbers (relation_of (into_relation r hits) hit))"
proof -
  let ?rows = "rf_by_obligation r"
  let ?base = "\<lparr>rl_names = rf_names r, rl_rank = ranks (rf_names r), rl_by_hit = Map.empty\<rparr> :: relation"
  have distinct_hits: "distinct (hi_names hits)" and distinct_names: "distinct (rf_names r)"
    and len: "length ?rows \<le> length (hi_names hits)" and inv: "references_inv r"
    using assms by (auto simp: relation_ok_def hits_inv_def references_inv_def numbers_distinct)
  have rows: "\<And>i. i < length (hi_names hits) \<Longrightarrow> rl_by_hit (into_relation r hits) (hi_names hits ! i)
       = (if i < length ?rows \<and> ?rows ! i \<noteq> [] then Some (relation_reached ?base (?rows ! i)) else None)"
    "\<And>hit. hit \<notin> set (hi_names hits) \<Longrightarrow> rl_by_hit (into_relation r hits) hit = None"
    using insert_rows[OF distinct_hits len, of ?base] unfolding into_relation_row by simp_all
  have base: "relation_inv ?base" using distinct_names by (simp add: relation_inv_def)
  have pairs: "(hi_names hits ! i, reached) \<in> reached_by r hits \<longleftrightarrow>
      i < length ?rows \<and> reached \<in> (!) (rf_names r) ` set (?rows ! i)" if "i < length (hi_names hits)" for i reached
    using that distinct_hits len unfolding reached_by_def reach_pairs_def
    by (auto simp: nth_eq_iff_index_eq)
  have none: "hit \<notin> set (hi_names hits) \<Longrightarrow> (hit, reached) \<notin> reached_by r hits" for reached
    using len unfolding reached_by_def reach_pairs_def by auto
  have all: "rd_names (relation_of (into_relation r hits) hit) = sorted_list_of_set {reached. (hit, reached) \<in> reached_by r hits}
    \<and> (rl_by_hit (into_relation r hits) hit \<noteq> None \<longleftrightarrow> (\<exists>reached. (hit, reached) \<in> reached_by r hits))
    \<and> (\<forall>n \<in> set (rd_numbers (relation_of (into_relation r hits) hit)). n < length (rf_names r))
    \<and> rd_names (relation_of (into_relation r hits) hit)
      = map ((!) (rf_names r)) (rd_numbers (relation_of (into_relation r hits) hit))"
  proof (cases "hit \<in> set (hi_names hits)")
    case False
    then show ?thesis using rows(2) none by (simp add: relation_of_def)
  next
    case True
    then obtain i where i: "i < length (hi_names hits)" "hit = hi_names hits ! i" by (auto simp: in_set_conv_nth)
    show ?thesis
    proof (cases "i < length ?rows \<and> ?rows ! i \<noteq> []")
      case True
      have small: "\<forall>n \<in> set (?rows ! i). n < length (rl_names ?base)"
        using True references_row[OF inv] by auto
      have "{reached. (hit, reached) \<in> reached_by r hits} = (!) (rf_names r) ` set (?rows ! i)"
        using True pairs[OF i(1)] i(2) by auto
      moreover have "(hit, rf_names r ! hd (?rows ! i)) \<in> reached_by r hits"
        using True pairs[OF i(1)] i(2) by simp
      ultimately show ?thesis
        using True i(2) rows(1)[OF i(1)] relation_reached_names[OF base small] small
        by (auto simp: relation_of_def)
    next
      case False
      then have "(hit, reached) \<notin> reached_by r hits" for reached
        using pairs[OF i(1)] i(2) by auto
      then show ?thesis using False i(2) rows(1)[OF i(1)] by (simp add: relation_of_def)
    qed
  qed
  show "rd_names (relation_of (into_relation r hits) hit) = sorted_list_of_set {reached. (hit, reached) \<in> reached_by r hits}"
    "rl_by_hit (into_relation r hits) hit \<noteq> None \<longleftrightarrow> (\<exists>reached. (hit, reached) \<in> reached_by r hits)"
    "n \<in> set (rd_numbers (relation_of (into_relation r hits) hit)) \<Longrightarrow> n < length (rf_names r)"
    "rd_names (relation_of (into_relation r hits) hit)
      = map ((!) (rf_names r)) (rd_numbers (relation_of (into_relation r hits) hit))"
    using all by blast+
qed

subsection \<open>A store of references, and the one the report keeps\<close>

text \<open>What the reader of evidence asks of a store: adding a reference adds that pair and no other.\<close>

locale reach_store =
  fixes add :: "'k \<Rightarrow> string \<Rightarrow> 's \<Rightarrow> 's" and ok :: "'s \<Rightarrow> bool" and pairs :: "'s \<Rightarrow> ('k \<times> string) set"
  assumes add_ok: "ok s \<Longrightarrow> ok (add k reached s)"
    and add_pairs: "ok s \<Longrightarrow> pairs (add k reached s) = insert (k, reached) (pairs s)"
begin

lemma fold_add:
  assumes "ok s"
  shows "ok (fold (\<lambda>(k, reached). add k reached) refs s)
    \<and> pairs (fold (\<lambda>(k, reached). add k reached) refs s) = set refs \<union> pairs s"
  using assms
proof (induction refs arbitrary: s)
  case (Cons x refs)
  obtain k reached where "x = (k, reached)" by fastforce
  then show ?case using Cons.IH[OF add_ok[OF Cons.prems, of k reached]] add_pairs[OF Cons.prems, of k reached]
    by simp
qed simp

lemma add_each:
  assumes "ok s"
  shows "ok (fold (\<lambda>k. add k reached) ks s) \<and> pairs (fold (\<lambda>k. add k reached) ks s) = (\<lambda>k. (k, reached)) ` set ks \<union> pairs s"
proof -
  have "fold (\<lambda>k. add k reached) ks s = fold (\<lambda>(k, reached). add k reached) (map (\<lambda>k. (k, reached)) ks) s"
    by (induction ks arbitrary: s) simp_all
  then show ?thesis using fold_add[OF assms, of "map (\<lambda>k. (k, reached)) ks"] by simp
qed

end

interpretation numbered: reach_store ref_add references_inv reach_pairs
  by unfold_locales (simp_all add: ref_add_correct)

text \<open>By name: the hit is numbered, then the reference added under its number.\<close>

definition add_hit :: "string \<Rightarrow> string \<Rightarrow> references \<times> hit_ids \<Rightarrow> references \<times> hit_ids" where
  "add_hit hit reached = (\<lambda>(r, hits). let (number, hits) = hit_number hit hits in (ref_add number reached r, hits))"

lemma reached_by_extend:
  assumes "relation_ok r hits" "hits_inv hits'" "hi_names hits' = hi_names hits @ extra"
  shows "relation_ok r hits'" and "reached_by r hits' = reached_by r hits"
proof -
  show "relation_ok r hits'" using assms by (simp add: relation_ok_def)
  have "hi_names hits' ! obligation = hi_names hits ! obligation" if "(obligation, reached) \<in> reach_pairs r"
    for obligation reached
    using that assms(1,3) by (auto simp: relation_ok_def reach_pairs_def nth_append)
  then show "reached_by r hits' = reached_by r hits" unfolding reached_by_def by (metis (no_types, lifting))
qed

lemma length_ref_add:
  assumes "references_inv r"
  shows "length (rf_by_obligation (ref_add obligation reached r)) = max (length (rf_by_obligation r)) (obligation + 1)"
proof -
  obtain number r1 where r1: "ref_number reached r = (number, r1)" by fastforce
  obtain extra where "rf_by_obligation r1 = rf_by_obligation r" using ref_numberE[OF assms r1] by metis
  then show ?thesis by (simp add: ref_add_def r1 Let_def max_def)
qed

lemma ref_add_reached:
  assumes "relation_ok r hits" "obligation < length (hi_names hits)"
  shows "relation_ok (ref_add obligation reached r) hits"
    and "reached_by (ref_add obligation reached r) hits = insert (hi_names hits ! obligation, reached) (reached_by r hits)"
proof -
  have inv: "references_inv r" using assms(1) by (simp add: relation_ok_def)
  show "relation_ok (ref_add obligation reached r) hits"
    using assms ref_add_correct(1)[OF inv, of obligation reached] length_ref_add[OF inv, of obligation reached]
    by (simp add: relation_ok_def)
  show "reached_by (ref_add obligation reached r) hits = insert (hi_names hits ! obligation, reached) (reached_by r hits)"
    unfolding reached_by_def ref_add_correct(2)[OF inv] by auto
qed

lemma add_hit_correct:
  assumes "relation_ok r hits" "add_hit hit reached (r, hits) = (r', hits')"
  shows "relation_ok r' hits'" and "reached_by r' hits' = insert (hit, reached) (reached_by r hits)"
proof -
  obtain number hits1 where h: "hit_number hit hits = (number, hits1)" by fastforce
  obtain extra where *: "hits_inv hits1" "hi_names hits1 = hi_names hits @ extra"
    "number < length (hi_names hits1)" "hi_names hits1 ! number = hit"
    using hit_numberE[OF _ h] assms(1) by (auto simp: relation_ok_def)
  have new: "r' = ref_add number reached r" "hits' = hits1" using assms(2) h by (auto simp: add_hit_def)
  show "relation_ok r' hits'" "reached_by r' hits' = insert (hit, reached) (reached_by r hits)"
    using ref_add_reached[OF reached_by_extend(1)[OF assms(1) *(1,2)] *(3), of reached]
      reached_by_extend(2)[OF assms(1) *(1,2)] *(4) new by simp_all
qed

lemma ref_number_names:
  assumes "references_inv r" "ref_number reached r = (number, r')"
  shows "set (rf_names r') = insert reached (set (rf_names r))"
proof -
  obtain extra where *: "rf_names r' = rf_names r @ extra" "number < length (rf_names r')"
    "rf_names r' ! number = reached" "set extra \<subseteq> {reached}"
    using ref_numberE[OF assms] by metis
  then have "reached \<in> set (rf_names r')" by (metis nth_mem)
  with *(1,4) show ?thesis by auto
qed

lemma ref_number_ok:
  assumes "relation_ok r hits" "ref_number reached r = (number, r')"
  shows "relation_ok r' hits" and "reached_by r' hits = reached_by r hits"
    and "length (rf_names r) \<le> length (rf_names r')" and "number < length (rf_names r')"
    and "rf_names r' ! number = reached" and "set (rf_names r') = insert reached (set (rf_names r))"
    and "k < length (rf_names r) \<Longrightarrow> rf_names r' ! k = rf_names r ! k"
proof -
  have inv: "references_inv r" using assms(1) by (simp add: relation_ok_def)
  obtain extra where *: "references_inv r'" "rf_names r' = rf_names r @ extra"
    "number < length (rf_names r')" "rf_names r' ! number = reached" "rf_by_obligation r' = rf_by_obligation r"
    using ref_numberE[OF inv assms(2)] .
  show "relation_ok r' hits" using assms(1) *(1,5) by (simp add: relation_ok_def)
  show "reached_by r' hits = reached_by r hits"
    unfolding reached_by_def reach_pairs_names[OF inv *(2,5)] ..
  show "length (rf_names r) \<le> length (rf_names r')" "number < length (rf_names r')"
    "rf_names r' ! number = reached" "k < length (rf_names r) \<Longrightarrow> rf_names r' ! k = rf_names r ! k"
    using * by (simp_all add: nth_append)
  show "set (rf_names r') = insert reached (set (rf_names r))" by (rule ref_number_names[OF inv assms(2)])
qed

lemma ref_add_names:
  assumes "relation_ok r hits"
  shows "length (rf_names r) \<le> length (rf_names (ref_add obligation reached r))"
    and "set (rf_names (ref_add obligation reached r)) = insert reached (set (rf_names r))"
    and "k < length (rf_names r) \<Longrightarrow> rf_names (ref_add obligation reached r) ! k = rf_names r ! k"
proof -
  obtain number r1 where r1: "ref_number reached r = (number, r1)" by fastforce
  have "rf_names (ref_add obligation reached r) = rf_names r1" by (simp add: ref_add_def r1 Let_def)
  then show "length (rf_names r) \<le> length (rf_names (ref_add obligation reached r))"
    "set (rf_names (ref_add obligation reached r)) = insert reached (set (rf_names r))"
    "k < length (rf_names r) \<Longrightarrow> rf_names (ref_add obligation reached r) ! k = rf_names r ! k"
    using ref_number_ok[OF assms r1] by simp_all
qed

lemma hit_number_ok:
  assumes "relation_ok r hits" "hit_number hit hits = (number, hits')"
  shows "relation_ok r hits'" and "reached_by r hits' = reached_by r hits"
    and "length (hi_names hits) \<le> length (hi_names hits')" and "number < length (hi_names hits')"
    and "hi_names hits' ! number = hit"
proof -
  obtain extra where *: "hits_inv hits'" "hi_names hits' = hi_names hits @ extra"
    "number < length (hi_names hits')" "hi_names hits' ! number = hit"
    using hit_numberE[OF _ assms(2)] assms(1) by (auto simp: relation_ok_def)
  then show "relation_ok r hits'" "reached_by r hits' = reached_by r hits"
    "length (hi_names hits) \<le> length (hi_names hits')" "number < length (hi_names hits')"
    "hi_names hits' ! number = hit"
    using reached_by_extend[OF assms(1) *(1,2)] by simp_all
qed

interpretation named: reach_store add_hit "\<lambda>(r, hits). relation_ok r hits" "\<lambda>(r, hits). reached_by r hits"
  by unfold_locales (auto dest: add_hit_correct split: prod.splits)

text \<open>C24: The numbered store refines the set of references: whatever references were added, in
  whatever order and however often, the relation restored from it names for every obligation exactly
  the ids added for it, in order and once each.\<close>

theorem relation_refines_references:
  "(let (r, hits) = fold (\<lambda>(hit, reached). add_hit hit reached) added (no_references, no_hits) in
     rd_names (relation_of (into_relation r hits) hit)) = sorted_list_of_set {reached. (hit, reached) \<in> set added}"
proof -
  obtain r hits where f: "fold (\<lambda>(hit, reached). add_hit hit reached) added (no_references, no_hits) = (r, hits)"
    by fastforce
  then have "relation_ok r hits" "reached_by r hits = set added"
    using named.fold_add[of "(no_references, no_hits)" added] by simp_all
  then show ?thesis using f relation_of_names(1) by simp
qed

end
