(* ===== verification/Ingest.thy ===== *)
theory Ingest
  imports ReachedBy CreditByTime "HOL-Library.AList"
begin

section \<open>Reading a run's evidence into a view's state (coverage\_report.rs, create\_coverage\_view\_with\_model)\<close>

text \<open>
  The first half of \<open>create_coverage_view_with_model\<close>: one pass over the results that collects the
  tests, the phases, the vectors observed of every decision and the references of every hit. The
  code's hash maps are only looked up, so they are partial functions; \<open>phases_by_id\<close>, whose values
  are listed at the end, is an association list. The loop holds one entry of \<open>tests_by_id\<close>, that of
  the record it reads: here the component \<open>vs_test\<close>, put back when the record is done. The
  \<open>expect\<close>s of the code that a value's absence would turn into a panic are the outcome
  \<open>Panicked\<close>; the others are of that one held entry. Vectors are indexed by numbers the loop gave out, with
  no branch for a panic: \<open>indices_in_range\<close> (IngestExact) says that every such number is in range.
\<close>

datatype stop = Returned report_error | Panicked

definition expect :: "'a option \<Rightarrow> stop + 'a" where
  "expect x = ok_or x Panicked"

record view_state =
  vs_vectors :: "string \<Rightarrow> mutable_observation list option"
  vs_indexes :: "string \<Rightarrow> (string \<Rightarrow> nat option) option"
  vs_tests_by_decision :: "string \<Rightarrow> nat list option"
  vs_tests_by_hit :: references
  vs_hit_ids :: hit_ids
  vs_tests :: "string \<Rightarrow> mutable_test option"
  vs_test :: mutable_test
  vs_test_order :: "string list"
  vs_phases :: "(string \<times> mutable_phase) list"
  vs_phases_by_hit :: references
  vs_explicit_phases_by_hit :: references

subsection \<open>Registering a test and its phases\<close>

definition new_test :: "raw_test_result \<Rightarrow> mutable_test" where
  "new_test raw = \<lparr>mt_id = raw_test_id raw, mt_name = rt_test raw, mt_file = rt_test_file raw,
     mt_title = rt_title raw, mt_retries = set_option (rt_retry raw), mt_attempts = [],
     mt_unstarted = (rt_status raw = Some ''unstarted''), mt_runner_reported_flaky = rt_flaky raw,
     mt_provenance = rt_provenance raw, mt_role = rt_role raw, mt_attribution = rt_attribution raw,
     mt_hits = [], mt_decisions = []\<rparr>"

definition enter_test :: "raw_test_result \<Rightarrow> view_state \<Rightarrow> view_state" where
  "enter_test raw st =
     (let i = raw_test_id raw in
      case vs_tests st i of
        Some test \<Rightarrow> st\<lparr>vs_test := test\<rparr>
      | None \<Rightarrow> st\<lparr>vs_test_order := vs_test_order st @ [i], vs_tests := (vs_tests st)(i \<mapsto> new_test raw),
          vs_test := new_test raw\<rparr>)"

definition fold_record :: "raw_test_result \<Rightarrow> mutable_test \<Rightarrow> mutable_test" where
  "fold_record raw test =
     record_attempt raw
       (test\<lparr>mt_attribution := least_exact (mt_attribution test) (rt_attribution raw),
          mt_unstarted := mt_unstarted test \<or> rt_status raw = Some ''unstarted'',
          mt_retries := (case rt_retry raw of Some retry \<Rightarrow> insert retry (mt_retries test) | None \<Rightarrow> mt_retries test),
          mt_runner_reported_flaky := mt_runner_reported_flaky test \<or> rt_flaky raw\<rparr>)"

definition leave_test :: "string \<Rightarrow> view_state \<Rightarrow> view_state" where
  "leave_test i st = st\<lparr>vs_tests := (vs_tests st)(i \<mapsto> vs_test st)\<rparr>"

definition new_phase :: "string \<Rightarrow> coverage_phase \<Rightarrow> mutable_phase" where
  "new_phase i phase = \<lparr>mh_phase = phase, mh_test = i, mh_hits = [], mh_decisions = [],
     mh_browser_events = 0, mh_server_events = 0, mh_explicit_events = 0, mh_inferred_events = 0,
     mh_explicit_browser_events = 0, mh_inferred_browser_events = 0,
     mh_explicit_server_events = 0, mh_inferred_server_events = 0\<rparr>"

definition register_phases :: "string \<Rightarrow> coverage_phase list \<Rightarrow> view_state \<Rightarrow> view_state" where
  "register_phases i ordered_phases st =
     st\<lparr>vs_phases := fold (\<lambda>phase. AList.update (cp_id phase) (new_phase i phase)) ordered_phases (vs_phases st)\<rparr>"

subsection \<open>What a test observed\<close>

definition observe_vector :: "string \<Rightarrow> string \<Rightarrow> mcdc_vector \<Rightarrow> view_state \<Rightarrow> view_state" where
  "observe_vector i decision vector st =
     (let key = vector_key vector;
          indexes = (case vs_indexes st decision of Some m \<Rightarrow> m | None \<Rightarrow> Map.empty);
          observations = (case vs_vectors st decision of Some os \<Rightarrow> os | None \<Rightarrow> []);
          fresh = \<lparr>mb_vector = vector, mb_tests = [], mb_phases = [], mb_explicit_phases = []\<rparr>;
          (index, indexes, observations) = (case indexes key of
             Some index \<Rightarrow> (index, indexes, observations)
           | None \<Rightarrow> (length observations, indexes(key \<mapsto> length observations), observations @ [fresh]));
          (number, tests_by_hit) = ref_number i (vs_tests_by_hit st);
          observation = observations ! index;
          test = vs_test st
      in st\<lparr>vs_indexes := (vs_indexes st)(decision \<mapsto> indexes),
            vs_vectors := (vs_vectors st)(decision \<mapsto>
              observations[index := observation\<lparr>mb_tests := mb_tests observation @ [number]\<rparr>]),
            vs_tests_by_hit := tests_by_hit,
            vs_test := test\<lparr>mt_decisions := tree_entry decision no_vectors
              (\<lambda>ov. snd (vectors_insert vector ov)) (mt_decisions test)\<rparr>\<rparr>)"

definition decision_test :: "string \<Rightarrow> string \<Rightarrow> view_state \<Rightarrow> view_state" where
  "decision_test i decision st =
     (let (number, tests_by_hit) = ref_number i (vs_tests_by_hit st);
          tests = (case vs_tests_by_decision st decision of Some ns \<Rightarrow> ns | None \<Rightarrow> [])
      in st\<lparr>vs_tests_by_hit := tests_by_hit,
            vs_tests_by_decision := (vs_tests_by_decision st)(decision \<mapsto> tests @ [number])\<rparr>)"

definition ingest_decision :: "string \<Rightarrow> string set \<Rightarrow> decision_snapshot \<Rightarrow> view_state \<Rightarrow> view_state" where
  "ingest_decision i decisions decision st =
     (if ds_id decision \<notin> decisions then st
      else
        let st = fold (observe_vector i (ds_id decision)) (ds_vectors decision) st in
        if ds_vectors decision \<noteq> [] then decision_test i (ds_id decision) st else st)"

definition ingest_hit :: "string \<Rightarrow> string \<Rightarrow> view_state \<Rightarrow> view_state" where
  "ingest_hit i hit st =
     (let (number, hit_ids) = hit_number hit (vs_hit_ids st); test = vs_test st
      in st\<lparr>vs_hit_ids := hit_ids, vs_tests_by_hit := ref_add number i (vs_tests_by_hit st),
            vs_test := test\<lparr>mt_hits := mt_hits test @ [number]\<rparr>\<rparr>)"

subsection \<open>What a phase observed\<close>

text \<open>\<open>n\<close> more events of a phase, in the browser or on the server, explicit or inferred.\<close>

definition count_events :: "bool \<Rightarrow> bool \<Rightarrow> nat \<Rightarrow> mutable_phase \<Rightarrow> mutable_phase" where
  "count_events browser explicit n phase =
     phase\<lparr>mh_browser_events := mh_browser_events phase + (if browser then n else 0),
       mh_explicit_browser_events := mh_explicit_browser_events phase + (if browser \<and> explicit then n else 0),
       mh_inferred_browser_events := mh_inferred_browser_events phase + (if browser \<and> \<not> explicit then n else 0),
       mh_server_events := mh_server_events phase + (if \<not> browser then n else 0),
       mh_explicit_server_events := mh_explicit_server_events phase + (if \<not> browser \<and> explicit then n else 0),
       mh_inferred_server_events := mh_inferred_server_events phase + (if \<not> browser \<and> \<not> explicit then n else 0),
       mh_explicit_events := mh_explicit_events phase + (if explicit then n else 0),
       mh_inferred_events := mh_inferred_events phase + (if \<not> explicit then n else 0)\<rparr>"

definition modify_phase :: "string \<Rightarrow> (mutable_phase \<Rightarrow> mutable_phase) \<Rightarrow> view_state \<Rightarrow> view_state" where
  "modify_phase phase_id f st = st\<lparr>vs_phases := AList.map_entry phase_id f (vs_phases st)\<rparr>"

definition phase_hit :: "string \<Rightarrow> bool \<Rightarrow> string \<Rightarrow> view_state \<Rightarrow> view_state" where
  "phase_hit phase_id explicit hit st =
     (let (number, hit_ids) = hit_number hit (vs_hit_ids st);
          st = modify_phase phase_id (\<lambda>phase. phase\<lparr>mh_hits := mh_hits phase @ [number]\<rparr>) (st\<lparr>vs_hit_ids := hit_ids\<rparr>);
          st = st\<lparr>vs_phases_by_hit := ref_add number phase_id (vs_phases_by_hit st)\<rparr>
      in if explicit then st\<lparr>vs_explicit_phases_by_hit := ref_add number phase_id (vs_explicit_phases_by_hit st)\<rparr>
         else st)"

definition observation_of :: "string \<Rightarrow> mcdc_vector \<Rightarrow> view_state \<Rightarrow> stop + nat option" where
  "observation_of i vector st =
     (case vs_indexes st i of None \<Rightarrow> Inr None
      | Some indexes \<Rightarrow> (case indexes (vector_key vector) of None \<Rightarrow> Inr None
         | Some index \<Rightarrow> rbind (expect (vs_vectors st i)) (\<lambda>observations.
             Inr (if index < length observations then Some index else None))))"

definition relate_observation :: "string \<Rightarrow> bool \<Rightarrow> string \<Rightarrow> nat \<Rightarrow> view_state \<Rightarrow> view_state" where
  "relate_observation phase_id explicit i index st =
     (let observations = (case vs_vectors st i of Some os \<Rightarrow> os | None \<Rightarrow> []);
          (number, phases_by_hit) = ref_number phase_id (vs_phases_by_hit st);
          observation = (observations ! index)\<lparr>mb_phases := mb_phases (observations ! index) @ [number]\<rparr>;
          st = st\<lparr>vs_phases_by_hit := phases_by_hit\<rparr>
      in if explicit
         then let (number, explicit_phases) = ref_number phase_id (vs_explicit_phases_by_hit st)
           in st\<lparr>vs_explicit_phases_by_hit := explicit_phases,
                vs_vectors := (vs_vectors st)(i \<mapsto> observations[index :=
                  observation\<lparr>mb_explicit_phases := mb_explicit_phases observation @ [number]\<rparr>])\<rparr>
         else st\<lparr>vs_vectors := (vs_vectors st)(i \<mapsto> observations[index := observation])\<rparr>)"

definition insert_phase_vector :: "string \<Rightarrow> string \<Rightarrow> mcdc_vector \<Rightarrow> view_state \<Rightarrow> view_state" where
  "insert_phase_vector phase_id i vector =
     modify_phase phase_id (\<lambda>phase. phase\<lparr>mh_decisions :=
       tree_entry i no_vectors (\<lambda>ov. snd (vectors_insert vector ov)) (mh_decisions phase)\<rparr>)"

definition phase_vector :: "string \<Rightarrow> bool \<Rightarrow> string \<Rightarrow> mcdc_vector \<Rightarrow> view_state \<Rightarrow> stop + view_state" where
  "phase_vector phase_id explicit i vector st =
     (let st = insert_phase_vector phase_id i vector st in
      rbind (observation_of i vector st) (\<lambda>observed.
        Inr (case observed of Some index \<Rightarrow> relate_observation phase_id explicit i index st | None \<Rightarrow> st)))"

definition ingest_event :: "coverage_phase list \<Rightarrow> runtime_event \<Rightarrow> view_state \<Rightarrow> stop + view_state" where
  "ingest_event ordered_phases event st =
     (let explicit = (re_phase_id event \<noteq> None) in
      case correlate_event event ordered_phases of None \<Rightarrow> Inr st
      | Some phase_id \<Rightarrow>
          if map_of (vs_phases st) phase_id = None then Inr st
          else
            let st = modify_phase phase_id (count_events (re_environment event = ''browser'') explicit 1) st in
            if re_event_type event = ''hit'' then Inr (phase_hit phase_id explicit (re_id event) st)
            else if re_event_type event = ''decision'' then
              (case re_vector event of None \<Rightarrow> Inl (Returned (InvalidEvent (re_id event)))
               | Some vector \<Rightarrow> phase_vector phase_id explicit (re_id event) vector st)
            else Inl (Returned (InvalidEvent (re_event_type event))))"

definition snapshot_phase :: "runtime_snapshot \<Rightarrow> bool \<Rightarrow> view_state \<Rightarrow> stop + view_state" where
  "snapshot_phase snapshot browser st =
     (case rs_phase_id snapshot of None \<Rightarrow> Inr st
      | Some phase_id \<Rightarrow>
          if map_of (vs_phases st) phase_id = None then Inr st
          else
            let observed = length (rs_hits snapshot)
                  + sum_list (map (\<lambda>decision. length (ds_vectors decision)) (rs_decisions snapshot));
                st = modify_phase phase_id (count_events browser True observed) st;
                st = fold (phase_hit phase_id True) (rs_hits snapshot) st
            in try_fold (\<lambda>decision. try_fold (phase_vector phase_id True (ds_id decision)) (ds_vectors decision))
                 (rs_decisions snapshot) st)"

subsection \<open>Snapshots and server records\<close>

definition ingest_snapshot ::
  "string \<Rightarrow> string set \<Rightarrow> coverage_phase list \<Rightarrow> runtime_snapshot \<times> bool \<Rightarrow> view_state \<Rightarrow> stop + view_state" where
  "ingest_snapshot i decisions ordered_phases = (\<lambda>(snapshot, browser) st.
     let st = fold (ingest_decision i decisions) (rs_decisions snapshot) st;
         st = fold (ingest_hit i) (rs_hits snapshot) st
     in rbind (try_fold (ingest_event ordered_phases) (rs_events snapshot) st) (snapshot_phase snapshot browser))"

definition server_event ::
  "coverage_phase list \<Rightarrow> server_record \<Rightarrow> string \<Rightarrow> mcdc_vector option \<Rightarrow> view_state \<Rightarrow> stop + view_state" where
  "server_event ordered_phases record record_id decision st =
     (case sr_timestamp_ms record of None \<Rightarrow> Inr st
      | Some timestamp_ms \<Rightarrow>
          let event = \<lparr>re_event_type = sr_record_type record, re_id = record_id, re_vector = decision,
                re_timestamp_ms = timestamp_ms, re_phase_id = sr_phase_id record, re_environment = ''server''\<rparr>;
              explicit = (re_phase_id event \<noteq> None)
          in case correlate_event event ordered_phases of None \<Rightarrow> Inr st
             | Some phase_id \<Rightarrow>
                 if map_of (vs_phases st) phase_id = None then Inr st
                 else
                   let st = modify_phase phase_id (count_events False explicit 1) st in
                   (case re_vector event of
                      None \<Rightarrow> Inr (phase_hit phase_id explicit (re_id event) st)
                    | Some vector \<Rightarrow>
                        let st = insert_phase_vector phase_id (re_id event) vector st in
                        rbind (observation_of (re_id event) vector st) (\<lambda>observed.
                          rbind (expect observed) (\<lambda>index.
                            Inr (relate_observation phase_id explicit (re_id event) index st)))))"

definition ingest_server ::
  "string \<Rightarrow> string set \<Rightarrow> coverage_phase list \<Rightarrow> server_record \<Rightarrow> view_state \<Rightarrow> stop + view_state" where
  "ingest_server i decisions ordered_phases record st =
     (if sr_record_type record = ''decision'' then
        rbind (ok_or (sr_id record) (Returned (InvalidServerRecord ''missing decision id''))) (\<lambda>decision.
        rbind (ok_or (sr_vector record) (Returned (InvalidServerRecord ''missing vector''))) (\<lambda>vector.
          if decision \<notin> decisions then Inr st
          else server_event ordered_phases record decision (Some vector)
                 (decision_test i decision (observe_vector i decision vector st))))
      else if sr_record_type record = ''hit'' then
        rbind (ok_or (sr_id record) (Returned (InvalidServerRecord ''missing hit id''))) (\<lambda>hit.
          server_event ordered_phases record hit None (ingest_hit i hit st))
      else Inl (Returned (InvalidServerRecord (sr_record_type record))))"

subsection \<open>One record, then all of them\<close>

definition snapshots_of :: "raw_test_result \<Rightarrow> (runtime_snapshot \<times> bool) list" where
  "snapshots_of raw = map (\<lambda>snapshot. (snapshot, False)) (rt_runtime raw)
     @ map (\<lambda>snapshot. (snapshot, True)) (rt_browser raw)"

definition ingest_raw :: "string set \<Rightarrow> raw_test_result \<Rightarrow> view_state \<Rightarrow> stop + view_state" where
  "ingest_raw decisions raw st =
     (let i = raw_test_id raw;
          st = enter_test raw st;
          st = st\<lparr>vs_test := fold_record raw (vs_test st)\<rparr>;
          ordered_phases = sort_key cp_started_at_ms (rt_phases raw);
          st = register_phases i ordered_phases st
      in rbind (try_fold (ingest_snapshot i decisions ordered_phases) (snapshots_of raw) st) (\<lambda>st.
         rbind (try_fold (ingest_server i decisions ordered_phases) (rt_server raw) st) (\<lambda>st.
           Inr (leave_test i st))))"

definition blank_test :: mutable_test where
  "blank_test = \<lparr>mt_id = [], mt_name = [], mt_file = None, mt_title = None, mt_retries = {},
     mt_attempts = [], mt_unstarted = False, mt_runner_reported_flaky = False,
     mt_provenance = \<lparr>tp_runner = ''unknown'', tp_kind = ''unknown'', tp_project = None,
       tp_source = ''unknown'', tp_tags = []\<rparr>,
     mt_role = [], mt_attribution = [], mt_hits = [], mt_decisions = []\<rparr>"

definition empty_state :: view_state where
  "empty_state = \<lparr>vs_vectors = Map.empty, vs_indexes = Map.empty, vs_tests_by_decision = Map.empty,
     vs_tests_by_hit = no_references, vs_hit_ids = no_hits, vs_tests = Map.empty, vs_test = blank_test,
     vs_test_order = [], vs_phases = [], vs_phases_by_hit = no_references,
     vs_explicit_phases_by_hit = no_references\<rparr>"

definition ingest :: "string set \<Rightarrow> raw_test_result list \<Rightarrow> stop + view_state" where
  "ingest decisions raw_results = try_fold (ingest_raw decisions) raw_results empty_state"

end
