(* ===== verification/WholeFiles.thy ===== *)
theory WholeFiles
  imports ReportModel "HOL-Library.AList" "HOL-Library.Product_Lexorder"
begin

section \<open>Files a frontend could not measure at all (coverage\_report.rs, whole\_files\_unmeasured)\<close>

text \<open>
  Limitations and the scope are \<open>serde_json::Value\<close>s, which the engine reads through a few of
  serde's operations; the record \<open>json\<close> names those, and every definition that uses them takes it
  as its first argument.
\<close>

record 'v json =
  js_bool :: "'v \<Rightarrow> string \<Rightarrow> bool option"
  js_str :: "'v \<Rightarrow> string \<Rightarrow> string option"
  js_array :: "'v \<Rightarrow> string \<Rightarrow> 'v list option"
  js_is_object :: "'v \<Rightarrow> bool"
  js_insert :: "string \<Rightarrow> 'v \<Rightarrow> 'v \<Rightarrow> 'v"
  js_of_bool :: "bool \<Rightarrow> 'v"
  js_of_str :: "string \<Rightarrow> 'v"
  js_of_array :: "'v list \<Rightarrow> 'v"
  js_object :: "(string \<times> 'v) list \<Rightarrow> 'v"

definition blocking_limitation :: "'v json \<Rightarrow> 'v \<Rightarrow> bool" where
  "blocking_limitation j limitation =
     (case js_bool j limitation ''blocking'' of Some blocking \<Rightarrow> blocking | None \<Rightarrow> True)"

definition whole_file :: "'v json \<Rightarrow> 'v \<Rightarrow> bool" where
  "whole_file j limitation \<longleftrightarrow> js_bool j limitation ''wholeFile'' = Some True"

definition whole_file_reason :: "'v json \<Rightarrow> 'v \<Rightarrow> (string \<times> string) option" where
  "whole_file_reason j limitation =
     (if \<not> whole_file j limitation then None
      else case (js_str j limitation ''file'', js_str j limitation ''reason'') of
        (Some source_file, Some reason) \<Rightarrow> Some (source_file, reason)
      | _ \<Rightarrow> None)"

definition whole_file_reasons :: "'v json \<Rightarrow> 'v list \<Rightarrow> (string \<times> string) list" where
  "whole_file_reasons j limitations =
     fold (\<lambda>(source_file, reason). tree_insert source_file reason)
       (List.map_filter (whole_file_reason j) limitations) []"

definition decision_obligations :: "decision_meta \<Rightarrow> string list" where
  "decision_obligations decision =
     (let outcome = dm_id decision @ '':outcome''
      in [dm_id decision, outcome @ '':true'', outcome @ '':false'', outcome])"

definition branch_obligations :: "branch_meta \<Rightarrow> string list" where
  "branch_obligations branch = bm_id branch # map ba_id (bm_alternatives branch)"

definition unmeasured_of :: "(string \<times> string) list \<Rightarrow> 'v coverage_manifest \<Rightarrow> string list" where
  "unmeasured_of reasons manifest =
     (let listed = (\<lambda>source_file. map_of reasons source_file \<noteq> None)
      in sort (remdups (cm_unmeasured manifest
        @ map pm_id (filter (\<lambda>point. listed (pm_file point)) (cm_points manifest))
        @ concat (map decision_obligations (filter (\<lambda>decision. listed (dm_file decision)) (cm_decisions manifest)))
        @ concat (map branch_obligations (filter (\<lambda>branch. listed (bm_file branch)) (cm_branches manifest))))))"

definition retained_limitation :: "'v json \<Rightarrow> (string \<times> string) list \<Rightarrow> 'v \<Rightarrow> 'v option" where
  "retained_limitation j reasons limitation =
     (let whole = whole_file j limitation;
          limitation = (if whole then js_insert j ''blocking'' (js_of_bool j True) limitation else limitation)
      in if whole \<or> (case js_str j limitation ''file'' of None \<Rightarrow> True
              | Some source_file \<Rightarrow> map_of reasons source_file = None)
         then Some limitation else None)"

fun exclude_entries :: "'v json \<Rightarrow> 'v list \<Rightarrow> (string \<times> string) list \<Rightarrow> 'v list \<times> (string \<times> string) list" where
  "exclude_entries j [] unlisted = ([], unlisted)"
| "exclude_entries j (entry # entries) unlisted =
     (let reason = (if js_is_object j entry then
              (case js_str j entry ''file'' of None \<Rightarrow> None
               | Some source_file \<Rightarrow> map_option (\<lambda>reason. (source_file, reason)) (map_of unlisted source_file))
            else None);
          (entry, unlisted) = (case reason of None \<Rightarrow> (entry, unlisted)
            | Some (source_file, reason) \<Rightarrow>
                (js_insert j ''reason'' (js_of_str j reason)
                   (js_insert j ''status'' (js_of_str j ''excluded'') entry),
                 AList.delete source_file unlisted));
          (entries, unlisted) = exclude_entries j entries unlisted
      in (entry # entries, unlisted))"

definition excluded_scope :: "'v json \<Rightarrow> (string \<times> string) list \<Rightarrow> 'v \<Rightarrow> 'v" where
  "excluded_scope j reasons scope =
     (case js_array j scope ''entries'' of None \<Rightarrow> scope
      | Some entries \<Rightarrow>
          let (entries, unlisted) = exclude_entries j entries reasons
          in js_insert j ''entries'' (js_of_array j (entries
               @ map (\<lambda>(source_file, reason). js_object j [(''file'', js_of_str j source_file),
                   (''status'', js_of_str j ''excluded''), (''reason'', js_of_str j reason)]) unlisted)) scope)"

definition whole_files_unmeasured :: "'v json \<Rightarrow> 'v coverage_manifest \<Rightarrow> 'v coverage_manifest option" where
  "whole_files_unmeasured j manifest =
     (let reasons = whole_file_reasons j (cm_limitations manifest) in
      if reasons = [] then None
      else Some (manifest\<lparr>cm_unmeasured := unmeasured_of reasons manifest,
        cm_limitations := List.map_filter (retained_limitation j reasons) (cm_limitations manifest),
        cm_scope := map_option (excluded_scope j reasons) (cm_scope manifest)\<rparr>))"

definition settled_manifest :: "'v json \<Rightarrow> 'v coverage_manifest \<Rightarrow> 'v coverage_manifest" where
  "settled_manifest j manifest =
     (case whole_files_unmeasured j manifest of Some applied \<Rightarrow> applied | None \<Rightarrow> manifest)"

lemma settled_fields [simp]:
  "cm_points (settled_manifest j m) = cm_points m"
  "cm_decisions (settled_manifest j m) = cm_decisions m"
  "cm_branches (settled_manifest j m) = cm_branches m"
  by (simp_all add: settled_manifest_def whole_files_unmeasured_def Let_def)

lemma map_of_whole_file_reasons:
  "map_of (whole_file_reasons j ls) f \<noteq> None \<longleftrightarrow> (\<exists>l \<in> set ls. \<exists>r. whole_file_reason j l = Some (f, r))"
proof -
  have "map_of (fold (\<lambda>(source_file, reason). tree_insert source_file reason) rs m) f \<noteq> None
    \<longleftrightarrow> f \<in> fst ` set rs \<or> map_of m f \<noteq> None" for rs and m :: "(string \<times> string) list"
    by (induction rs arbitrary: m) (auto split: prod.splits)
  then show ?thesis unfolding whole_file_reasons_def
    by (auto simp: set_map_filter_Some image_iff)
qed

end
