(* ===== verification/CoverageView.thy ===== *)
theory CoverageView
  imports Ingest WholeFiles
begin

section \<open>The view of a run (coverage\_report.rs, create\_coverage\_view\_with\_model)\<close>

text \<open>
  The second half of \<open>create_coverage_view_with_model\<close>: from the collected state to the results
  of every decision, point, branch, line, test, test file and phase, and the summaries over them.
\<close>

subsection \<open>Summaries over results\<close>

definition included :: "string set option \<Rightarrow> string list \<Rightarrow> bool \<Rightarrow> bool" where
  "included test_ids tests covered =
     (case test_ids of None \<Rightarrow> covered | Some selected \<Rightarrow> list_ex (\<lambda>test. test \<in> selected) tests)"

definition summary_input ::
  "decision_result list \<Rightarrow> point_result list \<Rightarrow> branch_result list \<Rightarrow> line_result list \<Rightarrow> string set option
     \<Rightarrow> coverage_core_input" where
  "summary_input decisions points branches lines test_ids =
     \<lparr>in_decisions = map (\<lambda>decision.
          \<lparr>dc_condition_count = length (dm_conditions (dr_meta decision)),
            dc_vectors = map vo_vector (filter (\<lambda>observation. included test_ids (vo_tests observation) True)
              (dr_vector_observations decision))\<rparr>) decisions,
       in_points = map (\<lambda>point. \<lparr>pc_kind = pm_kind (pr_meta point),
          pc_covered = included test_ids (pr_tests point) (pr_covered point)\<rparr>) points,
       in_branches = map (\<lambda>branch. \<lparr>bc_kind = bm_kind (br_meta branch),
          bc_alternatives = map (\<lambda>alternative. included test_ids (ar_tests alternative) (ar_covered alternative))
            (br_alternatives branch)\<rparr>) branches,
       in_lines = map (\<lambda>line. included test_ids (lr_tests line) (lr_covered line)) (filter lr_measured lines)\<rparr>"

definition summary_for_results ::
  "decision_result list \<Rightarrow> point_result list \<Rightarrow> branch_result list \<Rightarrow> line_result list \<Rightarrow> string set option
     \<Rightarrow> report_error + coverage_summary" where
  "summary_for_results decisions points branches lines test_ids =
     (case analyze_core (summary_input decisions points branches lines test_ids) of
        Inl e \<Rightarrow> Inl (Analysis e)
      | Inr output \<Rightarrow> Inr (out_summary output))"

definition coverage_summary_for_file :: "'v coverage_view \<Rightarrow> string \<Rightarrow> report_error + coverage_summary" where
  "coverage_summary_for_file view source_file =
     summary_for_results
       (filter (\<lambda>decision. dm_file (dr_meta decision) = source_file) (cv_decisions view))
       (filter (\<lambda>point. pm_file (pr_meta point) = source_file) (cv_points view))
       (filter (\<lambda>branch. bm_file (br_meta branch) = source_file) (cv_branches view))
       (filter (\<lambda>line. lr_file line = source_file) (cv_lines view)) None"

definition entries_in_kind_rows :: "'v coverage_view \<Rightarrow> string set" where
  "entries_in_kind_rows view =
     (let with_tests = set (map (\<lambda>test. tp_kind (tc_provenance test))
            (filter (\<lambda>test. tc_role test = ''test'') (cv_tests view)))
      in set (map tc_id (filter (\<lambda>test. coverage_is_its_own (tc_attribution test)
           \<and> (tc_role test = ''test''
              \<or> (tc_role test = ''setup'' \<and> tp_kind (tc_provenance test) \<in> with_tests))) (cv_tests view))))"

definition coverage_summary_for_tests :: "'v coverage_view \<Rightarrow> string set \<Rightarrow> report_error + coverage_summary" where
  "coverage_summary_for_tests view test_ids =
     summary_for_results (cv_decisions view) (cv_points view) (cv_branches view) (cv_lines view) (Some test_ids)"

definition summary_for_tests :: "'v coverage_view \<Rightarrow> report_error + coverage_summary" where
  "summary_for_tests view =
     summary_for_results (cv_decisions view) (cv_points view) (cv_branches view) (cv_lines view)
       (Some (entries_in_kind_rows view))"

subsection \<open>Declined obligations and the tables confidence reads\<close>

definition decline_branch :: "branch_meta \<Rightarrow> string set \<Rightarrow> string set" where
  "decline_branch branch declined =
     (if bm_alternatives branch \<noteq> [] \<and> list_all (\<lambda>alternative. ba_id alternative \<in> declined) (bm_alternatives branch)
      then insert (bm_id branch) declined else declined)"

definition declined_of :: "'v coverage_manifest \<Rightarrow> string set" where
  "declined_of manifest = fold decline_branch (cm_branches manifest) (set (cm_unmeasured manifest))"

record view_tables =
  vt_tests :: relation
  vt_phases :: relation
  vt_explicit :: relation
  vt_traits :: "test_traits list"
  vt_phase_kinds :: "string list"
  vt_explicit_kinds :: "string list"

definition phase_kinds_of :: "view_state \<Rightarrow> relation \<Rightarrow> stop + string list" where
  "phase_kinds_of st rl =
     try_map (\<lambda>phase. rbind (expect (map_of (vs_phases st) phase)) (\<lambda>p. Inr (cp_kind (mh_phase p)))) (rl_names rl)"

definition view_tables_of :: "view_state \<Rightarrow> stop + view_tables" where
  "view_tables_of st =
     (let tests = into_relation (vs_tests_by_hit st) (vs_hit_ids st);
          phases = into_relation (vs_phases_by_hit st) (vs_hit_ids st);
          explicit = into_relation (vs_explicit_phases_by_hit st) (vs_hit_ids st)
      in rbind (try_map (\<lambda>test. rbind (expect (vs_tests st test)) (\<lambda>t. Inr (traits_of t))) (rl_names tests)) (\<lambda>traits.
         rbind (phase_kinds_of st phases) (\<lambda>phase_kinds.
         rbind (phase_kinds_of st explicit) (\<lambda>explicit_kinds.
           Inr \<lparr>vt_tests = tests, vt_phases = phases, vt_explicit = explicit, vt_traits = traits,
             vt_phase_kinds = phase_kinds, vt_explicit_kinds = explicit_kinds\<rparr>))))"

definition confidence :: "view_tables \<Rightarrow> reached_ids \<Rightarrow> reached_ids \<Rightarrow> reached_ids \<Rightarrow> coverage_confidence" where
  "confidence vt tests phases explicit =
     confidence_from tests phases explicit (vt_traits vt) (vt_phase_kinds vt) (vt_explicit_kinds vt)"

subsection \<open>Decisions\<close>

definition outcome_text :: "bool \<Rightarrow> string" where
  "outcome_text outcome = (if outcome then ''true'' else ''false'')"

definition outcome_alternative :: "view_tables \<Rightarrow> mutable_observation list \<Rightarrow> string \<Rightarrow> bool \<Rightarrow> alternative_result" where
  "outcome_alternative vt mutable outcome_id outcome =
     (let observed = filter (\<lambda>observation. mv_outcome (mb_vector observation) = outcome) mutable;
          tests = relation_reached (vt_tests vt) (concat (map mb_tests observed));
          phases = relation_reached (vt_phases vt) (concat (map mb_phases observed));
          explicit = relation_reached (vt_explicit vt) (concat (map mb_explicit_phases observed))
      in \<lparr>ar_id = outcome_id @ '':'' @ outcome_text outcome, ar_label = outcome_text outcome,
          ar_covered = (rd_names tests \<noteq> []), ar_tests = rd_names tests, ar_phases = rd_names phases,
          ar_confidence = confidence vt tests phases explicit\<rparr>)"

definition outcome_branch :: "view_tables \<Rightarrow> mutable_observation list \<Rightarrow> decision_meta \<Rightarrow> branch_result" where
  "outcome_branch vt mutable meta =
     (let outcome_id = dm_id meta @ '':outcome'';
          alternatives = map (outcome_alternative vt mutable outcome_id) [True, False]
      in \<lparr>br_meta = \<lparr>bm_id = outcome_id, bm_kind = dm_kind meta, bm_file = dm_file meta, bm_line = dm_line meta,
            bm_column = dm_column meta, bm_source = dm_source meta,
            bm_alternatives = map (\<lambda>alternative. \<lparr>ba_id = ar_id alternative, ba_label = ar_label alternative\<rparr>) alternatives\<rparr>,
          br_covered = list_all ar_covered alternatives, br_alternatives = alternatives\<rparr>)"

definition vector_observation_of :: "view_tables \<Rightarrow> mutable_observation \<Rightarrow> vector_observation" where
  "vector_observation_of vt observation =
     (let tests = relation_reached (vt_tests vt) (mb_tests observation);
          phases = relation_reached (vt_phases vt) (mb_phases observation);
          explicit = relation_reached (vt_explicit vt) (mb_explicit_phases observation)
      in \<lparr>vo_vector = mb_vector observation, vo_tests = rd_names tests, vo_phases = rd_names phases,
          vo_explicit_phases = rd_names explicit, vo_confidence = confidence vt tests phases explicit\<rparr>)"

definition condition_result_of ::
  "vector_observation list \<Rightarrow> witness_indexes option list \<Rightarrow> nat \<times> string \<Rightarrow> condition_result" where
  "condition_result_of observations witnesses = (\<lambda>(index, source).
     let witness = map_option (\<lambda>w. (vo_vector (observations ! wi_first w), vo_vector (observations ! wi_second w)))
           (witnesses ! index);
         witness_tests = map_option (\<lambda>w. (vo_tests (observations ! wi_first w), vo_tests (observations ! wi_second w)))
           (witnesses ! index)
     in \<lparr>cr_index = index, cr_source = source, cr_covered = (witness \<noteq> None), cr_witness = witness,
         cr_witness_tests = witness_tests\<rparr>)"

definition decision_result_of ::
  "view_tables \<Rightarrow> mutable_observation list \<Rightarrow> nat list \<Rightarrow> decision_meta \<Rightarrow> stop + decision_result" where
  "decision_result_of vt mutable tests_of meta =
     (let observations = map (vector_observation_of vt) mutable;
          observed_phases = concat (map (\<lambda>o'. rd_numbers (relation_reached (vt_phases vt) (mb_phases o'))) mutable);
          observed_explicit = concat (map (\<lambda>o'. rd_numbers (relation_reached (vt_explicit vt) (mb_explicit_phases o'))) mutable);
          vectors = map vo_vector observations
      in case find_witnesses_for_conditions vectors (length (dm_conditions meta)) of
           Inl e \<Rightarrow> Inl (Returned (DecisionAnalysis (dm_id meta) e))
         | Inr witnesses \<Rightarrow>
             let conditions = map (condition_result_of observations witnesses) (enumerate 0 (dm_conditions meta));
                 decision_tests = relation_reached (vt_tests vt) tests_of
             in Inr \<lparr>dr_meta = meta, dr_executed = (vectors \<noteq> []), dr_covered = list_all cr_covered conditions,
                  dr_vectors = vectors, dr_vector_observations = observations, dr_conditions = conditions,
                  dr_tests = rd_names decision_tests,
                  dr_confidence = confidence vt decision_tests (relation_reached (vt_phases vt) observed_phases)
                    (relation_reached (vt_explicit vt) observed_explicit)\<rparr>)"

text \<open>The loop over the decisions takes each one's observations out of the maps.\<close>

record decision_loop =
  dl_vectors :: "string \<Rightarrow> mutable_observation list option"
  dl_tests :: "string \<Rightarrow> nat list option"
  dl_outcome_branches :: "branch_result list"
  dl_decisions :: "decision_result list"

definition decision_step :: "view_tables \<Rightarrow> string set \<Rightarrow> decision_meta \<Rightarrow> decision_loop \<Rightarrow> stop + decision_loop" where
  "decision_step vt declared_branches meta dl =
     (let mutable = (case dl_vectors dl (dm_id meta) of Some os \<Rightarrow> os | None \<Rightarrow> []);
          tests_of = (case dl_tests dl (dm_id meta) of Some ns \<Rightarrow> ns | None \<Rightarrow> []);
          outcomes = (if dm_id meta @ '':outcome'' \<in> declared_branches then [] else [outcome_branch vt mutable meta])
      in rbind (decision_result_of vt mutable tests_of meta) (\<lambda>result.
           Inr \<lparr>dl_vectors = (dl_vectors dl)(dm_id meta := None), dl_tests = (dl_tests dl)(dm_id meta := None),
             dl_outcome_branches = dl_outcome_branches dl @ outcomes, dl_decisions = dl_decisions dl @ [result]\<rparr>))"

definition decision_results ::
  "view_tables \<Rightarrow> 'v coverage_manifest \<Rightarrow> view_state \<Rightarrow> stop + decision_loop" where
  "decision_results vt manifest st =
     try_fold (decision_step vt (set (map bm_id (cm_branches manifest))))
       (sort_key (\<lambda>meta. (dm_file meta, dm_line meta, dm_column meta)) (cm_decisions manifest))
       \<lparr>dl_vectors = vs_vectors st, dl_tests = vs_tests_by_decision st, dl_outcome_branches = [], dl_decisions = []\<rparr>"

subsection \<open>Points, branches and lines\<close>

definition point_result_of :: "view_tables \<Rightarrow> string set \<Rightarrow> point_meta \<Rightarrow> point_result" where
  "point_result_of vt declined meta =
     (let tests = relation_of (vt_tests vt) (pm_id meta);
          phases = relation_of (vt_phases vt) (pm_id meta);
          explicit = relation_of (vt_explicit vt) (pm_id meta)
      in \<lparr>pr_meta = meta, pr_covered = (rl_by_hit (vt_tests vt) (pm_id meta) \<noteq> None),
          pr_measured = (pm_id meta \<notin> declined), pr_tests = rd_names tests, pr_phases = rd_names phases,
          pr_confidence = confidence vt tests phases explicit\<rparr>)"

definition alternative_result_of :: "view_tables \<Rightarrow> branch_alternative_meta \<Rightarrow> alternative_result" where
  "alternative_result_of vt alternative =
     (let tests = relation_of (vt_tests vt) (ba_id alternative);
          phases = relation_of (vt_phases vt) (ba_id alternative);
          explicit = relation_of (vt_explicit vt) (ba_id alternative)
      in \<lparr>ar_id = ba_id alternative, ar_label = ba_label alternative,
          ar_covered = (rl_by_hit (vt_tests vt) (ba_id alternative) \<noteq> None),
          ar_tests = rd_names tests, ar_phases = rd_names phases,
          ar_confidence = confidence vt tests phases explicit\<rparr>)"

definition branch_result_of :: "view_tables \<Rightarrow> string set \<Rightarrow> branch_meta \<Rightarrow> branch_result" where
  "branch_result_of vt declined meta =
     (let meta = meta\<lparr>bm_alternatives := filter (\<lambda>alternative. ba_id alternative \<notin> declined) (bm_alternatives meta)\<rparr>;
          alternatives = map (alternative_result_of vt) (bm_alternatives meta)
      in \<lparr>br_meta = meta, br_covered = list_all ar_covered alternatives, br_alternatives = alternatives\<rparr>)"

definition no_aggregate :: line_aggregate where
  "no_aggregate = \<lparr>la_covered = False, la_measured = False, la_tests = [], la_phases = [], la_explicit_phases = []\<rparr>"

definition line_step ::
  "view_tables \<Rightarrow> string set \<Rightarrow> point_result \<Rightarrow> (source_line \<times> line_aggregate) list \<Rightarrow> (source_line \<times> line_aggregate) list" where
  "line_step vt declined point =
     tree_entry (pm_file (pr_meta point), pm_line (pr_meta point)) no_aggregate (\<lambda>aggregate.
       if pm_id (pr_meta point) \<in> declined then aggregate
       else \<lparr>la_covered = la_covered aggregate \<or> pr_covered point, la_measured = True,
         la_tests = la_tests aggregate @ rd_numbers (relation_of (vt_tests vt) (pm_id (pr_meta point))),
         la_phases = la_phases aggregate @ rd_numbers (relation_of (vt_phases vt) (pm_id (pr_meta point))),
         la_explicit_phases = la_explicit_phases aggregate
           @ rd_numbers (relation_of (vt_explicit vt) (pm_id (pr_meta point)))\<rparr>)"

definition line_result_of :: "view_tables \<Rightarrow> source_line \<times> line_aggregate \<Rightarrow> line_result" where
  "line_result_of vt = (\<lambda>((source_file, line), aggregate).
     let tests = relation_reached (vt_tests vt) (la_tests aggregate);
         phases = relation_reached (vt_phases vt) (la_phases aggregate);
         explicit = relation_reached (vt_explicit vt) (la_explicit_phases aggregate);
         traits = map (\<lambda>number. vt_traits vt ! number) (rd_numbers tests);
         runners = tree_set (map tt_runner traits);
         kinds = tree_set (map tt_kind traits)
     in \<lparr>lr_file = source_file, lr_line = line, lr_covered = la_covered aggregate, lr_measured = la_measured aggregate,
         lr_tests = rd_names tests, lr_runners = runners, lr_kinds = kinds,
         lr_exclusive_kind = (if length kinds = 1 then Some (hd kinds) else None),
         lr_phases = rd_names phases, lr_confidence = confidence vt tests phases explicit\<rparr>)"

definition line_results :: "view_tables \<Rightarrow> string set \<Rightarrow> point_result list \<Rightarrow> line_result list" where
  "line_results vt declined points = map (line_result_of vt) (fold (line_step vt declined) points [])"

subsection \<open>Tests, test files and phases\<close>

fun position_of :: "'a \<Rightarrow> 'a list \<Rightarrow> nat option" where
  "position_of x [] = None"
| "position_of x (y # ys) = (if x = y then Some 0 else map_option Suc (position_of x ys))"

definition locate_point ::
  "hit_ids \<Rightarrow> string list \<Rightarrow> point_meta \<Rightarrow> (nat \<times> nat) option list \<Rightarrow> stop + (nat \<times> nat) option list" where
  "locate_point hits point_files point hit_locations =
     (case hi_numbers hits (pm_id point) of None \<Rightarrow> Inr hit_locations
      | Some number \<Rightarrow> rbind (expect (position_of (pm_file point) point_files)) (\<lambda>source_file.
          Inr (hit_locations[number := Some (source_file, pm_line point)])))"

definition point_files_of :: "point_meta list \<Rightarrow> string list" where
  "point_files_of points = remdups_adj (sort (map pm_file points))"

definition hit_locations_of :: "hit_ids \<Rightarrow> point_meta list \<Rightarrow> stop + (nat \<times> nat) option list" where
  "hit_locations_of hits points =
     try_fold (locate_point hits (point_files_of points)) points (replicate (length (hi_names hits)) None)"

definition lines_of :: "string list \<Rightarrow> (nat \<times> nat) option list \<Rightarrow> nat list \<Rightarrow> source_line list" where
  "lines_of point_files hit_locations hits =
     map (\<lambda>(source_file, line). (point_files ! source_file, line))
       (remdups_adj (sort (List.map_filter (\<lambda>hit. hit_locations ! hit) hits)))"

definition test_decisions :: "(string \<times> ordered_vectors) list \<Rightarrow> test_decision_result list" where
  "test_decisions decisions = map (\<lambda>(i, vectors). \<lparr>td_id = i, td_vectors = ov_values vectors\<rparr>) decisions"

definition test_result_of ::
  "hit_ids \<Rightarrow> string list \<Rightarrow> (nat \<times> nat) option list \<Rightarrow> mutable_test \<Rightarrow> test_coverage_result" where
  "test_result_of hits point_files hit_locations test =
     \<lparr>tc_id = mt_id test, tc_name = mt_name test, tc_file = mt_file test, tc_title = mt_title test,
       tc_retries = sorted_list_of_set (mt_retries test), tc_attempts = map snd (mt_attempts test),
       tc_outcome = test_outcome test, tc_provenance = mt_provenance test, tc_role = mt_role test,
       tc_attribution = mt_attribution test,
       tc_hits = sorted_by (hi_names hits) (mt_hits test) (ranks (hi_names hits)),
       tc_decisions = test_decisions (mt_decisions test),
       tc_lines = lines_of point_files hit_locations (mt_hits test)\<rparr>"

text \<open>The tests in the order they were first met, sorted by name; each is taken out of
  \<open>tests_by_id\<close> once, since the order names no test twice.\<close>

definition test_results ::
  "view_state \<Rightarrow> string list \<Rightarrow> (nat \<times> nat) option list \<Rightarrow> stop + test_coverage_result list" where
  "test_results st point_files hit_locations =
     rbind (try_map (\<lambda>i. expect (vs_tests st i)) (vs_test_order st)) (\<lambda>tests.
       Inr (map (test_result_of (vs_hit_ids st) point_files hit_locations) (sort_key mt_name tests)))"

record file_aggregate =
  fa_tests :: "string set"
  fa_runners :: "string set"
  fa_kinds :: "string set"
  fa_lines :: "source_line set"

definition file_step :: "test_coverage_result \<Rightarrow> (string \<times> file_aggregate) list \<Rightarrow> (string \<times> file_aggregate) list" where
  "file_step test =
     tree_entry (case tc_file test of Some f \<Rightarrow> f | None \<Rightarrow> ''(unknown test file)'')
       \<lparr>fa_tests = {}, fa_runners = {}, fa_kinds = {}, fa_lines = {}\<rparr>
       (\<lambda>aggregate. \<lparr>fa_tests = insert (tc_id test) (fa_tests aggregate),
          fa_runners = insert (tp_runner (tc_provenance test)) (fa_runners aggregate),
          fa_kinds = insert (tp_kind (tc_provenance test)) (fa_kinds aggregate),
          fa_lines = fa_lines aggregate \<union> set (tc_lines test)\<rparr>)"

definition file_results :: "test_coverage_result list \<Rightarrow> test_file_result list" where
  "file_results tests =
     map (\<lambda>(source_file, aggregate). \<lparr>tf_file = source_file, tf_tests = sorted_list_of_set (fa_tests aggregate),
          tf_runners = sorted_list_of_set (fa_runners aggregate), tf_kinds = sorted_list_of_set (fa_kinds aggregate),
          tf_lines = sorted_list_of_set (fa_lines aggregate)\<rparr>)
       (fold file_step tests [])"

definition phase_result_of ::
  "hit_ids \<Rightarrow> string list \<Rightarrow> (nat \<times> nat) option list \<Rightarrow> mutable_phase \<Rightarrow> phase_result" where
  "phase_result_of hits point_files hit_locations phase =
     \<lparr>ph_phase = mh_phase phase, ph_test = mh_test phase,
       ph_hits = sorted_by (hi_names hits) (mh_hits phase) (ranks (hi_names hits)),
       ph_decisions = test_decisions (mh_decisions phase),
       ph_lines = lines_of point_files hit_locations (mh_hits phase),
       ph_browser_events = mh_browser_events phase, ph_server_events = mh_server_events phase,
       ph_explicit_events = mh_explicit_events phase, ph_inferred_events = mh_inferred_events phase,
       ph_explicit_browser_events = mh_explicit_browser_events phase,
       ph_inferred_browser_events = mh_inferred_browser_events phase,
       ph_explicit_server_events = mh_explicit_server_events phase,
       ph_inferred_server_events = mh_inferred_server_events phase\<rparr>"

definition phase_results :: "view_state \<Rightarrow> string list \<Rightarrow> (nat \<times> nat) option list \<Rightarrow> phase_result list" where
  "phase_results st point_files hit_locations =
     map (phase_result_of (vs_hit_ids st) point_files hit_locations)
       (sort_key (\<lambda>phase. (cp_started_at_ms (mh_phase phase), cp_id (mh_phase phase))) (map snd (vs_phases st)))"

subsection \<open>The summary and the dimensions\<close>

definition exact_fraction :: "nat \<Rightarrow> nat \<Rightarrow> rat" where
  "exact_fraction measured all_obligations =
     f64_round (f64_round (f64_round (of_nat measured) * 100) / f64_round (of_nat all_obligations))"

definition settle_summary :: "nat \<Rightarrow> nat \<Rightarrow> bool \<Rightarrow> coverage_summary \<Rightarrow> coverage_summary" where
  "settle_summary all_obligations measured blocked summary =
     (let summary = (if measured < all_obligations
            then summary\<lparr>cs_unmeasured_obligations := Some (all_obligations - measured),
              cs_exact_fraction_pct := Some (exact_fraction measured all_obligations)\<rparr>
            else summary)
      in if blocked then summary\<lparr>cs_coverage_complete := False, cs_completeness_blocked := Some True\<rparr> else summary)"

definition unwrap :: "'e + 'a \<Rightarrow> stop + 'a" where
  "unwrap result = (case result of Inl _ \<Rightarrow> Inl Panicked | Inr x \<Rightarrow> Inr x)"

datatype dimension = KindDimension | RunnerDimension

fun dimension_value :: "dimension \<Rightarrow> test_coverage_result \<Rightarrow> string" where
  "dimension_value KindDimension test = tp_kind (tc_provenance test)"
| "dimension_value RunnerDimension test = tp_runner (tc_provenance test)"

definition dimension_row ::
  "decision_result list \<Rightarrow> point_result list \<Rightarrow> branch_result list \<Rightarrow> line_result list \<Rightarrow> test_coverage_result list
     \<Rightarrow> dimension \<Rightarrow> string \<Rightarrow> stop + dimension_coverage" where
  "dimension_row decisions points branches lines tests field value =
     (let inside = filter (\<lambda>test. dimension_value field test = value) tests;
          selected = set (map tc_id (filter (\<lambda>test. coverage_is_its_own (tc_attribution test)) inside));
          counted = set (map tc_id inside)
      in rbind (unwrap (summary_for_results decisions points branches lines (Some selected))) (\<lambda>summary.
           Inr \<lparr>di_kind = (if field = KindDimension then Some value else None),
             di_runner = (if field = RunnerDimension then Some value else None),
             di_tests = length (filter (\<lambda>test. tc_id test \<in> counted \<and> tc_role test = ''test'') tests),
             di_setups = length (filter (\<lambda>test. tc_id test \<in> counted \<and> tc_role test = ''setup'') tests),
             di_attributed = length (filter (\<lambda>test. tc_id test \<in> selected \<and> tc_role test = ''test'') tests),
             di_summary = summary\<rparr>))"

definition dimension_coverage_of ::
  "decision_result list \<Rightarrow> point_result list \<Rightarrow> branch_result list \<Rightarrow> line_result list \<Rightarrow> test_coverage_result list
     \<Rightarrow> dimension \<Rightarrow> stop + dimension_coverage list" where
  "dimension_coverage_of decisions points branches lines tests field =
     try_map (dimension_row decisions points branches lines tests field) (tree_set (map (dimension_value field) tests))"

subsection \<open>The view\<close>

definition stop_report :: "report_error + 'a \<Rightarrow> stop + 'a" where
  "stop_report result = (case result of Inl e \<Rightarrow> Inl (Returned e) | Inr x \<Rightarrow> Inr x)"

record view_results =
  vr_decisions :: "decision_result list"
  vr_points :: "point_result list"
  vr_branches :: "branch_result list"
  vr_lines :: "line_result list"
  vr_tests :: "test_coverage_result list"
  vr_phases :: "phase_result list"

text \<open>Every result, before the declined ones are taken out.\<close>

definition all_results :: "'v coverage_manifest \<Rightarrow> view_state \<Rightarrow> stop + view_results" where
  "all_results manifest st =
     (let declined = declined_of manifest in
      rbind (view_tables_of st) (\<lambda>vt.
      rbind (decision_results vt manifest st) (\<lambda>dl.
        let points = map (point_result_of vt declined) (cm_points manifest);
            branches = map (branch_result_of vt declined) (cm_branches manifest) @ dl_outcome_branches dl;
            lines = line_results vt declined points;
            point_files = point_files_of (cm_points manifest)
        in rbind (hit_locations_of (vs_hit_ids st) (cm_points manifest)) (\<lambda>hit_locations.
           rbind (test_results st point_files hit_locations) (\<lambda>tests.
             Inr \<lparr>vr_decisions = dl_decisions dl, vr_points = points, vr_branches = branches, vr_lines = lines,
               vr_tests = tests, vr_phases = phase_results st point_files hit_locations\<rparr>)))))"

definition view_of_results ::
  "'v json \<Rightarrow> 'v coverage_manifest \<Rightarrow> string \<Rightarrow> coverage_model_declaration \<Rightarrow> view_results \<Rightarrow> stop + 'v coverage_view" where
  "view_of_results j manifest generated_at model results =
     (let declined = declined_of manifest;
          total_obligations = length (vr_decisions results) + length (vr_points results) + length (vr_branches results);
          decisions = filter (\<lambda>result. dm_id (dr_meta result) \<notin> declined) (vr_decisions results);
          points = filter (\<lambda>result. pm_id (pr_meta result) \<notin> declined) (vr_points results);
          branches = filter (\<lambda>result. bm_id (br_meta result) \<notin> declined) (vr_branches results);
          measured = length decisions + length points + length branches
      in rbind (stop_report (summary_for_results decisions points branches (vr_lines results) None)) (\<lambda>summary.
         rbind (dimension_coverage_of decisions points branches (vr_lines results) (vr_tests results) KindDimension) (\<lambda>kinds.
         rbind (dimension_coverage_of decisions points branches (vr_lines results) (vr_tests results) RunnerDimension) (\<lambda>runners.
           Inr \<lparr>cv_generated_at = generated_at, cv_variant = md_variant model, cv_scope = cm_scope manifest,
             cv_model = \<lparr>mo_language = md_language model, mo_name = md_name model,
               mo_completeness_meaning = md_completeness_meaning model, mo_measured = md_measured model,
               mo_not_measured = md_not_measured model\<rparr>,
             cv_integrity = None, cv_limitations = cm_limitations manifest, cv_transport = None,
             cv_summary = settle_summary total_obligations measured
               (list_ex (blocking_limitation j) (cm_limitations manifest)) summary,
             cv_coverage_by_kind = kinds, cv_coverage_by_runner = runners, cv_decisions = decisions,
             cv_points = points, cv_branches = branches, cv_tests = vr_tests results,
             cv_test_files = file_results (vr_tests results), cv_phases = vr_phases results,
             cv_lines = vr_lines results\<rparr>))))"

definition create_coverage_view_with_model ::
  "'v json \<Rightarrow> 'v coverage_manifest \<Rightarrow> raw_test_result list \<Rightarrow> string \<Rightarrow> coverage_model_declaration
     \<Rightarrow> stop + 'v coverage_view" where
  "create_coverage_view_with_model j manifest raw_results generated_at model =
     (let manifest = settled_manifest j manifest in
      rbind (ingest (set (map dm_id (cm_decisions manifest))) raw_results) (\<lambda>st.
      rbind (all_results manifest st) (view_of_results j manifest generated_at model)))"

end
