(* ===== verification/IngestFacts.thy ===== *)
theory IngestFacts
  imports Ingest
begin

section \<open>What reading the evidence establishes\<close>

text \<open>
  The invariant of the collected state, what every step of the loop does to the references by
  name and to the vectors seen, and that no \<open>expect\<close> of the loop fails.
\<close>

subsection \<open>Numbers within their tables\<close>

definition below :: "nat \<Rightarrow> nat list \<Rightarrow> bool" where
  "below n xs \<longleftrightarrow> list_all (\<lambda>x. x < n) xs"

lemma below_simps [simp]:
  "below n []" "below n (xs @ ys) \<longleftrightarrow> below n xs \<and> below n ys" "below n (x # xs) \<longleftrightarrow> x < n \<and> below n xs"
  by (simp_all add: below_def)

lemma below_mono: "below m xs \<Longrightarrow> m \<le> n \<Longrightarrow> below n xs"
  by (auto simp: below_def list_all_iff)

definition observation_below :: "nat \<Rightarrow> nat \<Rightarrow> nat \<Rightarrow> mutable_observation \<Rightarrow> bool" where
  "observation_below t p x observation \<longleftrightarrow>
     below t (mb_tests observation) \<and> below p (mb_phases observation) \<and> below x (mb_explicit_phases observation)"

lemma observation_below_mono:
  "observation_below t p x o' \<Longrightarrow> t \<le> t' \<Longrightarrow> p \<le> p' \<Longrightarrow> x \<le> x' \<Longrightarrow> observation_below t' p' x' o'"
  by (auto simp: observation_below_def intro: below_mono)

definition listed :: "(string \<Rightarrow> 'a list option) \<Rightarrow> string \<Rightarrow> 'a list" where
  "listed m d = (case m d of Some xs \<Rightarrow> xs | None \<Rightarrow> [])"

lemma listed_upd [simp]: "listed (m(d \<mapsto> xs)) e = (if e = d then xs else listed m e)"
  by (simp add: listed_def)

definition indexes_ok ::
  "(string \<Rightarrow> (string \<Rightarrow> nat option) option) \<Rightarrow> (string \<Rightarrow> mutable_observation list option) \<Rightarrow> bool" where
  "indexes_ok indexes vectors \<longleftrightarrow> (\<forall>d. indexes d = None \<longleftrightarrow> vectors d = None)
     \<and> (\<forall>d m v n. indexes d = Some m \<longrightarrow>
          (m (vector_key v) = Some n \<longleftrightarrow> n < length (listed vectors d) \<and> mb_vector (listed vectors d ! n) = v))"

definition numbers_ok ::
  "nat \<Rightarrow> nat \<Rightarrow> nat \<Rightarrow> (string \<Rightarrow> mutable_observation list option) \<Rightarrow> (string \<Rightarrow> nat list option) \<Rightarrow> bool" where
  "numbers_ok t p x vectors decision_tests \<longleftrightarrow>
     (\<forall>d. list_all (observation_below t p x) (listed vectors d)) \<and> (\<forall>d. below t (listed decision_tests d))"

definition names_ok ::
  "string list \<Rightarrow> string list \<Rightarrow> string list \<Rightarrow> (string \<Rightarrow> mutable_test option) \<Rightarrow> string list
     \<Rightarrow> string list \<Rightarrow> bool" where
  "names_ok t p x tests order phases \<longleftrightarrow> set t \<subseteq> dom tests
     \<and> set p \<subseteq> set phases \<and> set x \<subseteq> set phases
     \<and> distinct order \<and> set order = dom tests \<and> distinct phases"

definition hits_ok ::
  "nat \<Rightarrow> mutable_test \<Rightarrow> (string \<Rightarrow> mutable_test option) \<Rightarrow> mutable_phase set \<Rightarrow> bool" where
  "hits_ok n test tests phases \<longleftrightarrow> below n (mt_hits test) \<and> (\<forall>i t. tests i = Some t \<longrightarrow> below n (mt_hits t))
     \<and> (\<forall>p \<in> phases. below n (mh_hits p))"

lemma numbers_ok_mono:
  "numbers_ok t p x vectors decision_tests \<Longrightarrow> t \<le> t' \<Longrightarrow> p \<le> p' \<Longrightarrow> x \<le> x' \<Longrightarrow> numbers_ok t' p' x' vectors decision_tests"
  unfolding numbers_ok_def list_all_iff by (blast intro: below_mono observation_below_mono)

lemma hits_ok_mono: "hits_ok m test tests phases \<Longrightarrow> m \<le> n \<Longrightarrow> hits_ok n test tests phases"
  unfolding hits_ok_def by (blast intro: below_mono)

lemma hits_ok_phases:
  "hits_ok n test tests ps \<Longrightarrow> ps' \<subseteq> ps \<union> qs \<Longrightarrow> (\<And>q. q \<in> qs \<Longrightarrow> below n (mh_hits q)) \<Longrightarrow> hits_ok n test tests ps'"
  unfolding hits_ok_def by blast

lemma names_ok_phases:
  "names_ok t p x tests order ps \<Longrightarrow> set ps \<subseteq> set qs \<Longrightarrow> distinct qs \<Longrightarrow> names_ok t p x tests order qs"
  unfolding names_ok_def by blast

definition view_inv :: "view_state \<Rightarrow> bool" where
  "view_inv st \<longleftrightarrow> relation_ok (vs_tests_by_hit st) (vs_hit_ids st)
     \<and> relation_ok (vs_phases_by_hit st) (vs_hit_ids st)
     \<and> relation_ok (vs_explicit_phases_by_hit st) (vs_hit_ids st)
     \<and> indexes_ok (vs_indexes st) (vs_vectors st)
     \<and> numbers_ok (length (rf_names (vs_tests_by_hit st))) (length (rf_names (vs_phases_by_hit st)))
         (length (rf_names (vs_explicit_phases_by_hit st))) (vs_vectors st) (vs_tests_by_decision st)
     \<and> names_ok (rf_names (vs_tests_by_hit st)) (rf_names (vs_phases_by_hit st))
         (rf_names (vs_explicit_phases_by_hit st)) (vs_tests st) (vs_test_order st) (map fst (vs_phases st))
     \<and> hits_ok (length (hi_names (vs_hit_ids st))) (vs_test st) (vs_tests st) (snd ` set (vs_phases st))"

lemma empty_state_inv: "view_inv empty_state"
  by (simp add: view_inv_def indexes_ok_def numbers_ok_def names_ok_def hits_ok_def listed_def
      empty_state_def blank_test_def) (simp add: no_references_def)

subsection \<open>What the references and the vectors say, by name\<close>

definition hit_tests :: "view_state \<Rightarrow> (string \<times> string) set" where
  "hit_tests st = reached_by (vs_tests_by_hit st) (vs_hit_ids st)"

definition seen :: "view_state \<Rightarrow> string \<Rightarrow> mcdc_vector list" where
  "seen st d = map mb_vector (listed (vs_vectors st) d)"

definition vector_tests :: "string list \<Rightarrow> mutable_observation list \<Rightarrow> (mcdc_vector \<times> string) set" where
  "vector_tests names os = (\<Union>o' \<in> set os. (\<lambda>n. (mb_vector o', names ! n)) ` set (mb_tests o'))"

definition seen_by :: "view_state \<Rightarrow> string \<Rightarrow> (mcdc_vector \<times> string) set" where
  "seen_by st d = vector_tests (rf_names (vs_tests_by_hit st)) (listed (vs_vectors st) d)"

lemma vector_tests_cong:
  "(\<And>o' n. o' \<in> set os \<Longrightarrow> n \<in> set (mb_tests o') \<Longrightarrow> names' ! n = names ! n) \<Longrightarrow> vector_tests names' os = vector_tests names os"
  unfolding vector_tests_def by (intro SUP_cong image_cong) auto

subsection \<open>Steps that touch the tests only\<close>

lemma enter_test_fields [simp]:
  "vs_vectors (enter_test raw st) = vs_vectors st" "vs_indexes (enter_test raw st) = vs_indexes st"
  "vs_tests_by_decision (enter_test raw st) = vs_tests_by_decision st"
  "vs_tests_by_hit (enter_test raw st) = vs_tests_by_hit st" "vs_hit_ids (enter_test raw st) = vs_hit_ids st"
  "vs_phases (enter_test raw st) = vs_phases st" "vs_phases_by_hit (enter_test raw st) = vs_phases_by_hit st"
  "vs_explicit_phases_by_hit (enter_test raw st) = vs_explicit_phases_by_hit st"
  by (simp_all add: enter_test_def Let_def split: option.splits)

lemma fold_record_hits [simp]: "mt_hits (fold_record raw test) = mt_hits test"
  by (simp add: fold_record_def record_attempt_def Let_def split: option.splits)

lemma enter_test_inv:
  "view_inv st \<Longrightarrow> view_inv (enter_test raw st) \<and> raw_test_id raw \<in> dom (vs_tests (enter_test raw st))"
  by (cases "vs_tests st (raw_test_id raw)")
    (auto simp: view_inv_def names_ok_def hits_ok_def enter_test_def Let_def new_test_def)

lemma leave_test_inv:
  "view_inv st \<Longrightarrow> i \<in> dom (vs_tests st) \<Longrightarrow> view_inv (leave_test i st)"
  by (auto simp: view_inv_def names_ok_def hits_ok_def leave_test_def split: if_splits)

lemma fold_record_inv: "view_inv st \<Longrightarrow> view_inv (st\<lparr>vs_test := fold_record raw (vs_test st)\<rparr>)"
  by (simp add: view_inv_def hits_ok_def)

subsection \<open>Steps that touch the phases only\<close>

lemma keys_update_all:
  "fst ` set (fold (\<lambda>phase. AList.update (cp_id phase) (new_phase i phase)) phases ps)
     = cp_id ` set phases \<union> fst ` set ps"
  by (induction phases arbitrary: ps) (auto simp: dom_update)

lemma distinct_update_all:
  "distinct (map fst ps) \<Longrightarrow>
     distinct (map fst (fold (\<lambda>phase. AList.update (cp_id phase) (new_phase i phase)) phases ps))"
  by (induction phases arbitrary: ps) (auto simp: distinct_update)

lemma values_update_all:
  "snd ` set (fold (\<lambda>phase. AList.update (cp_id phase) (new_phase i phase)) phases ps)
     \<subseteq> new_phase i ` set phases \<union> snd ` set ps"
proof (induction phases arbitrary: ps)
  case (Cons phase phases)
  have "snd ` set (AList.update k (new_phase i phase) ps) \<subseteq> insert (new_phase i phase) (snd ` set ps)"
    for k and ps :: "(string \<times> mutable_phase) list"
    by (induction ps) auto
  then have "snd ` set (AList.update (cp_id phase) (new_phase i phase) ps) \<subseteq> insert (new_phase i phase) (snd ` set ps)" .
  with Cons[of "AList.update (cp_id phase) (new_phase i phase) ps"]
  have "snd ` set (fold (\<lambda>phase. AList.update (cp_id phase) (new_phase i phase)) phases
      (AList.update (cp_id phase) (new_phase i phase) ps)) \<subseteq> new_phase i ` set phases \<union> insert (new_phase i phase) (snd ` set ps)"
    by (meson Un_mono order_refl order_trans)
  then show ?case by (simp add: Un_commute)
qed simp

lemma register_phases_inv:
  assumes "view_inv st"
  shows "view_inv (register_phases i phases st)"
proof -
  let ?ps = "fold (\<lambda>phase. AList.update (cp_id phase) (new_phase i phase)) phases (vs_phases st)"
  let ?n = "length (hi_names (vs_hit_ids st))"
  have "hits_ok ?n (vs_test st) (vs_tests st) (snd ` set (vs_phases st))"
    using assms by (simp add: view_inv_def)
  then have "hits_ok ?n (vs_test st) (vs_tests st) (snd ` set ?ps)"
    by (rule hits_ok_phases[where qs = "new_phase i ` set phases"])
      (use values_update_all[of i phases "vs_phases st"] in \<open>auto simp: new_phase_def\<close>)
  moreover have "names_ok (rf_names (vs_tests_by_hit st)) (rf_names (vs_phases_by_hit st))
      (rf_names (vs_explicit_phases_by_hit st)) (vs_tests st) (vs_test_order st) (map fst ?ps)"
  proof (rule names_ok_phases)
    show "names_ok (rf_names (vs_tests_by_hit st)) (rf_names (vs_phases_by_hit st))
      (rf_names (vs_explicit_phases_by_hit st)) (vs_tests st) (vs_test_order st) (map fst (vs_phases st))"
      and "distinct (map fst ?ps)"
      using assms by (auto simp: view_inv_def names_ok_def intro!: distinct_update_all)
    show "set (map fst (vs_phases st)) \<subseteq> set (map fst ?ps)"
      using keys_update_all[of i phases "vs_phases st"] by simp
  qed
  ultimately show ?thesis using assms by (simp add: view_inv_def register_phases_def)
qed

lemma keys_map_entry [simp]: "fst ` set (AList.map_entry k f ps) = fst ` set ps"
  by (induction ps) auto

lemma fst_map_entry [simp]: "map fst (AList.map_entry k f ps) = map fst ps"
  by (induction ps) auto

lemma values_map_entry: "snd ` set (AList.map_entry k f ps) \<subseteq> snd ` set ps \<union> f ` snd ` set ps"
  by (induction ps) auto

lemma modify_phase_fields [simp]:
  "vs_vectors (modify_phase k f st) = vs_vectors st" "vs_indexes (modify_phase k f st) = vs_indexes st"
  "vs_tests_by_decision (modify_phase k f st) = vs_tests_by_decision st"
  "vs_tests_by_hit (modify_phase k f st) = vs_tests_by_hit st" "vs_hit_ids (modify_phase k f st) = vs_hit_ids st"
  "vs_tests (modify_phase k f st) = vs_tests st" "vs_test (modify_phase k f st) = vs_test st"
  "vs_test_order (modify_phase k f st) = vs_test_order st"
  "vs_phases_by_hit (modify_phase k f st) = vs_phases_by_hit st"
  "vs_explicit_phases_by_hit (modify_phase k f st) = vs_explicit_phases_by_hit st"
  "fst ` set (vs_phases (modify_phase k f st)) = fst ` set (vs_phases st)"
  "map fst (vs_phases (modify_phase k f st)) = map fst (vs_phases st)"
  by (simp_all add: modify_phase_def)

lemma modify_phase_inv:
  assumes "view_inv st" and "\<And>p. below (length (hi_names (vs_hit_ids st))) (mh_hits p)
      \<Longrightarrow> below (length (hi_names (vs_hit_ids st))) (mh_hits (f p))"
  shows "view_inv (modify_phase k f st)"
proof -
  let ?n = "length (hi_names (vs_hit_ids st))"
  have h: "hits_ok ?n (vs_test st) (vs_tests st) (snd ` set (vs_phases st))"
    using assms(1) by (simp add: view_inv_def)
  then have "\<And>q. q \<in> f ` snd ` set (vs_phases st) \<Longrightarrow> below ?n (mh_hits q)"
    using assms(2) unfolding hits_ok_def by blast
  then have "hits_ok ?n (vs_test st) (vs_tests st) (snd ` set (AList.map_entry k f (vs_phases st)))"
    by (rule hits_ok_phases[OF h values_map_entry])
  then show ?thesis using assms(1) by (simp add: view_inv_def modify_phase_def)
qed


subsection \<open>Hits\<close>

lemma hits_ok_test: "hits_ok n test tests ps \<Longrightarrow> below n (mt_hits test') \<Longrightarrow> hits_ok n test' tests ps"
  by (simp add: hits_ok_def)

lemma view_invD:
  assumes "view_inv st"
  shows "relation_ok (vs_tests_by_hit st) (vs_hit_ids st)" "relation_ok (vs_phases_by_hit st) (vs_hit_ids st)"
    "relation_ok (vs_explicit_phases_by_hit st) (vs_hit_ids st)" "indexes_ok (vs_indexes st) (vs_vectors st)"
    "numbers_ok (length (rf_names (vs_tests_by_hit st))) (length (rf_names (vs_phases_by_hit st)))
         (length (rf_names (vs_explicit_phases_by_hit st))) (vs_vectors st) (vs_tests_by_decision st)"
    "names_ok (rf_names (vs_tests_by_hit st)) (rf_names (vs_phases_by_hit st))
         (rf_names (vs_explicit_phases_by_hit st)) (vs_tests st) (vs_test_order st) (map fst (vs_phases st))"
    "hits_ok (length (hi_names (vs_hit_ids st))) (vs_test st) (vs_tests st) (snd ` set (vs_phases st))"
  using assms by (simp_all add: view_inv_def)

lemma test_numbers_below:
  "view_inv st \<Longrightarrow> o' \<in> set (listed (vs_vectors st) d) \<Longrightarrow> n \<in> set (mb_tests o') \<Longrightarrow> n < length (rf_names (vs_tests_by_hit st))"
  using view_invD(5)[of st] by (auto simp: numbers_ok_def observation_below_def below_def list_all_iff)

lemma names_ok_tests: "names_ok t p x tests order ps \<Longrightarrow> set t' = insert i (set t) \<Longrightarrow> i \<in> dom tests \<Longrightarrow> names_ok t' p x tests order ps"
  by (auto simp: names_ok_def)

lemma names_ok_related:
  "names_ok t p x tests order ps \<Longrightarrow> set p' \<subseteq> insert k (set p) \<Longrightarrow> set x' \<subseteq> insert k (set x) \<Longrightarrow> k \<in> set ps
     \<Longrightarrow> names_ok t p' x' tests order ps"
  by (auto simp: names_ok_def)

lemma ingest_hit_ok:
  assumes "view_inv st" "i \<in> dom (vs_tests st)"
  shows "view_inv (ingest_hit i hit st)" and "hit_tests (ingest_hit i hit st) = insert (hit, i) (hit_tests st)"
    and "vs_tests (ingest_hit i hit st) = vs_tests st" and "vs_phases (ingest_hit i hit st) = vs_phases st"
    and "seen (ingest_hit i hit st) d = seen st d" and "seen_by (ingest_hit i hit st) d = seen_by st d"
proof -
  obtain number hits where h: "hit_number hit (vs_hit_ids st) = (number, hits)" by fastforce
  let ?T = "vs_tests_by_hit st" let ?T' = "ref_add number i ?T"
  have ok: "relation_ok ?T (vs_hit_ids st)" "relation_ok (vs_phases_by_hit st) (vs_hit_ids st)"
    "relation_ok (vs_explicit_phases_by_hit st) (vs_hit_ids st)"
    using assms(1) by (simp_all add: view_inv_def)
  note T = hit_number_ok[OF ok(1) h]
  note add = ref_add_reached[OF T(1,4), of i] ref_add_names[OF T(1), where obligation = number and reached = i]
  have st': "ingest_hit i hit st = st\<lparr>vs_hit_ids := hits, vs_tests_by_hit := ?T',
      vs_test := (vs_test st)\<lparr>mt_hits := mt_hits (vs_test st) @ [number]\<rparr>\<rparr>"
    by (simp add: ingest_hit_def h Let_def)
  have "hits_ok (length (hi_names hits)) ((vs_test st)\<lparr>mt_hits := mt_hits (vs_test st) @ [number]\<rparr>) (vs_tests st)
      (snd ` set (vs_phases st))"
  proof (rule hits_ok_test)
    show "hits_ok (length (hi_names hits)) (vs_test st) (vs_tests st) (snd ` set (vs_phases st))"
      by (rule hits_ok_mono[OF view_invD(7)[OF assms(1)] T(3)])
    then show "below (length (hi_names hits)) (mt_hits ((vs_test st)\<lparr>mt_hits := mt_hits (vs_test st) @ [number]\<rparr>))"
      using T(4) by (simp add: hits_ok_def)
  qed
  moreover have "numbers_ok (length (rf_names ?T')) (length (rf_names (vs_phases_by_hit st)))
      (length (rf_names (vs_explicit_phases_by_hit st))) (vs_vectors st) (vs_tests_by_decision st)"
    by (rule numbers_ok_mono[OF view_invD(5)[OF assms(1)] add(3) order_refl order_refl])
  moreover have "names_ok (rf_names ?T') (rf_names (vs_phases_by_hit st)) (rf_names (vs_explicit_phases_by_hit st))
      (vs_tests st) (vs_test_order st) (map fst (vs_phases st))"
    by (rule names_ok_tests[OF view_invD(6)[OF assms(1)] add(4) assms(2)])
  ultimately show "view_inv (ingest_hit i hit st)"
    using view_invD(4)[OF assms(1)] add(1) hit_number_ok(1)[OF ok(2) h] hit_number_ok(1)[OF ok(3) h]
    unfolding st' view_inv_def by simp
  show "hit_tests (ingest_hit i hit st) = insert (hit, i) (hit_tests st)"
    unfolding st' hit_tests_def using add(2) T(2,5) by simp
  show "vs_tests (ingest_hit i hit st) = vs_tests st" "vs_phases (ingest_hit i hit st) = vs_phases st"
    "seen (ingest_hit i hit st) d = seen st d" by (simp_all add: st' seen_def)
  have "rf_names ?T' ! n = rf_names ?T ! n" if "o' \<in> set (listed (vs_vectors st) d)" "n \<in> set (mb_tests o')" for o' n
    using add(5) test_numbers_below[OF assms(1) that] by simp
  then have "vector_tests (rf_names ?T') (listed (vs_vectors st) d) = vector_tests (rf_names ?T) (listed (vs_vectors st) d)"
    by (rule vector_tests_cong)
  then show "seen_by (ingest_hit i hit st) d = seen_by st d" by (simp add: seen_by_def st')
qed

subsection \<open>Vectors\<close>

lemma indexes_okD:
  assumes "indexes_ok indexes vectors" "indexes d = Some m"
  shows "m (vector_key v) = Some n \<longleftrightarrow> n < length (listed vectors d) \<and> mb_vector (listed vectors d ! n) = v"
    and "m (vector_key v) = None \<longleftrightarrow> v \<notin> mb_vector ` set (listed vectors d)"
proof -
  show *: "m (vector_key v) = Some n \<longleftrightarrow> n < length (listed vectors d) \<and> mb_vector (listed vectors d ! n) = v" for n v
    using assms by (simp add: indexes_ok_def)
  show "m (vector_key v) = None \<longleftrightarrow> v \<notin> mb_vector ` set (listed vectors d)"
  proof
    assume none: "m (vector_key v) = None"
    show "v \<notin> mb_vector ` set (listed vectors d)"
    proof
      assume "v \<in> mb_vector ` set (listed vectors d)"
      then obtain k where "k < length (listed vectors d)" "mb_vector (listed vectors d ! k) = v"
        by (auto simp: in_set_conv_nth)
      with * none show False by (metis option.distinct(1))
    qed
  next
    assume "v \<notin> mb_vector ` set (listed vectors d)"
    then show "m (vector_key v) = None" using * by (cases "m (vector_key v)") (force intro: nth_mem)+
  qed
qed

lemma indexes_ok_distinct: "indexes_ok indexes vectors \<Longrightarrow> distinct (map mb_vector (listed vectors d))"
proof -
  assume ok: "indexes_ok indexes vectors"
  show ?thesis
  proof (cases "indexes d")
    case None
    then show ?thesis using ok by (simp add: indexes_ok_def listed_def)
  next
    case (Some m)
    show ?thesis unfolding distinct_conv_nth
    proof (intro allI impI)
      fix a b assume "a < length (map mb_vector (listed vectors d))" "b < length (map mb_vector (listed vectors d))" "a \<noteq> b"
      then show "map mb_vector (listed vectors d) ! a \<noteq> map mb_vector (listed vectors d) ! b"
        using indexes_okD(1)[OF ok Some] by (metis length_map nth_map option.inject)
    qed
  qed
qed

text \<open>The observation a vector has, made when it has none.\<close>

lemma observe_vector_eq:
  assumes "view_inv st" "ref_number i (vs_tests_by_hit st) = (number, tests_by_hit)"
  obtains os index m where
    "observe_vector i d v st = st\<lparr>vs_indexes := (vs_indexes st)(d \<mapsto> m),
       vs_vectors := (vs_vectors st)(d \<mapsto> os[index := (os ! index)\<lparr>mb_tests := mb_tests (os ! index) @ [number]\<rparr>]),
       vs_tests_by_hit := tests_by_hit,
       vs_test := (vs_test st)\<lparr>mt_decisions := tree_entry d no_vectors
              (\<lambda>ov. snd (vectors_insert v ov)) (mt_decisions (vs_test st))\<rparr>\<rparr>"
    "index < length os" "mb_vector (os ! index) = v"
    "os = listed (vs_vectors st) d @ (if v \<in> set (seen st d) then []
       else [\<lparr>mb_vector = v, mb_tests = [], mb_phases = [], mb_explicit_phases = []\<rparr>])"
    "\<forall>w n. m (vector_key w) = Some n \<longleftrightarrow> n < length os \<and> mb_vector (os ! n) = w"
proof -
  let ?m = "case vs_indexes st d of Some m \<Rightarrow> m | None \<Rightarrow> Map.empty"
  let ?os = "listed (vs_vectors st) d"
  let ?fresh = "\<lparr>mb_vector = v, mb_tests = [], mb_phases = [], mb_explicit_phases = []\<rparr>"
  have ok: "?m (vector_key w) = Some n \<longleftrightarrow> n < length ?os \<and> mb_vector (?os ! n) = w"
    "?m (vector_key w) = None \<longleftrightarrow> w \<notin> mb_vector ` set ?os" for w n
    using view_invD(4)[OF assms(1)] indexes_okD[OF view_invD(4)[OF assms(1)]]
    by (auto simp: indexes_ok_def listed_def split: option.splits)
  have seen: "set (seen st d) = mb_vector ` set ?os" by (simp add: seen_def)
  show ?thesis
  proof (cases "?m (vector_key v)")
    case (Some index)
    have "observe_vector i d v st = st\<lparr>vs_indexes := (vs_indexes st)(d \<mapsto> ?m),
       vs_vectors := (vs_vectors st)(d \<mapsto> ?os[index := (?os ! index)\<lparr>mb_tests := mb_tests (?os ! index) @ [number]\<rparr>]),
       vs_tests_by_hit := tests_by_hit,
       vs_test := (vs_test st)\<lparr>mt_decisions := tree_entry d no_vectors
              (\<lambda>ov. snd (vectors_insert v ov)) (mt_decisions (vs_test st))\<rparr>\<rparr>"
      unfolding observe_vector_def Let_def assms(2) Some by (simp add: listed_def)
    moreover have "v \<in> set (seen st d)" using ok(2)[of v] Some unfolding seen by force
    ultimately show ?thesis using ok Some that[where m = ?m and os = ?os and index = index] by simp
  next
    case None
    let ?m' = "?m(vector_key v \<mapsto> length ?os)"
    have new: "v \<notin> set (seen st d)" using ok(2)[of v] None unfolding seen by blast
    have eq: "observe_vector i d v st = st\<lparr>vs_indexes := (vs_indexes st)(d \<mapsto> ?m'),
       vs_vectors := (vs_vectors st)(d \<mapsto> (?os @ [?fresh])[length ?os := ((?os @ [?fresh]) ! length ?os)\<lparr>mb_tests := mb_tests ((?os @ [?fresh]) ! length ?os) @ [number]\<rparr>]),
       vs_tests_by_hit := tests_by_hit,
       vs_test := (vs_test st)\<lparr>mt_decisions := tree_entry d no_vectors
              (\<lambda>ov. snd (vectors_insert v ov)) (mt_decisions (vs_test st))\<rparr>\<rparr>"
      unfolding observe_vector_def Let_def assms(2) None by (simp add: listed_def)
    have keys: "?m' (vector_key w) = Some n \<longleftrightarrow> n < length (?os @ [?fresh]) \<and> mb_vector ((?os @ [?fresh]) ! n) = w" for w n
    proof (cases "w = v")
      case True
      have "n < length ?os \<Longrightarrow> mb_vector (?os ! n) \<noteq> v" using new unfolding seen by (metis image_eqI nth_mem)
      then show ?thesis using True by (auto simp: nth_append less_Suc_eq)
    next
      case False
      then show ?thesis using ok(1)[of w n] by (auto simp: nth_append less_Suc_eq)
    qed
    show ?thesis
      by (rule that[where m = ?m' and os = "?os @ [?fresh]" and index = "length ?os"],
          rule eq, simp, simp, simp add: new, use keys in blast)
  qed
qed

lemma list_all_list_update: "list_all P xs \<Longrightarrow> P x \<Longrightarrow> list_all P (xs[k := x])"
  using set_update_subset_insert[of xs k x] by (auto simp: list_all_iff)

lemma vector_tests_upd:
  assumes "index < length os"
  shows "vector_tests names (os[index := (os ! index)\<lparr>mb_tests := mb_tests (os ! index) @ [number]\<rparr>])
    = insert (mb_vector (os ! index), names ! number) (vector_tests names os)"
proof -
  let ?f = "\<lambda>o'. (\<lambda>n. (mb_vector o', names ! n)) ` set (mb_tests o')"
  let ?new = "(os ! index)\<lparr>mb_tests := mb_tests (os ! index) @ [number]\<rparr>"
  have "vector_tests names xs = (\<Union>k < length xs. ?f (xs ! k))" for xs
  proof -
    have "set xs = (!) xs ` {..<length xs}" by (auto simp: in_set_conv_nth)
    then show ?thesis by (simp add: vector_tests_def)
  qed
  moreover have "?f (os[index := ?new] ! k)
      = ?f (os ! k) \<union> (if k = index then {(mb_vector (os ! index), names ! number)} else {})" if "k < length os" for k
    using that assms by (auto simp: nth_list_update)
  ultimately show ?thesis using assms by (auto split: if_splits)
qed

lemma observe_vector_ok:
  assumes "view_inv st" "i \<in> dom (vs_tests st)"
  shows "view_inv (observe_vector i d v st)"
    and "hit_tests (observe_vector i d v st) = hit_tests st"
    and "vs_tests (observe_vector i d v st) = vs_tests st" and "vs_phases (observe_vector i d v st) = vs_phases st"
    and "seen (observe_vector i d v st) d' = (if d' = d \<and> v \<notin> set (seen st d) then seen st d @ [v] else seen st d')"
    and "seen_by (observe_vector i d v st) d' = (if d' = d then insert (v, i) (seen_by st d) else seen_by st d')"
    and "\<exists>m index. vs_indexes (observe_vector i d v st) d = Some m \<and> m (vector_key v) = Some index"
proof -
  obtain number T' where r: "ref_number i (vs_tests_by_hit st) = (number, T')" by fastforce
  note inv = view_invD[OF assms(1)]
  note T = ref_number_ok[OF inv(1) r]
  obtain os index m where eq: "observe_vector i d v st = st\<lparr>vs_indexes := (vs_indexes st)(d \<mapsto> m),
       vs_vectors := (vs_vectors st)(d \<mapsto> os[index := (os ! index)\<lparr>mb_tests := mb_tests (os ! index) @ [number]\<rparr>]),
       vs_tests_by_hit := T',
       vs_test := (vs_test st)\<lparr>mt_decisions := tree_entry d no_vectors
              (\<lambda>ov. snd (vectors_insert v ov)) (mt_decisions (vs_test st))\<rparr>\<rparr>"
    and index: "index < length os" "mb_vector (os ! index) = v"
    and os: "os = listed (vs_vectors st) d @ (if v \<in> set (seen st d) then []
       else [\<lparr>mb_vector = v, mb_tests = [], mb_phases = [], mb_explicit_phases = []\<rparr>])"
    and m: "\<forall>w n. m (vector_key w) = Some n \<longleftrightarrow> n < length os \<and> mb_vector (os ! n) = w"
    using observe_vector_eq[OF assms(1) r, of d v] .
  let ?st = "observe_vector i d v st"
  let ?new = "(os ! index)\<lparr>mb_tests := mb_tests (os ! index) @ [number]\<rparr>"
  have vectors: "map mb_vector (os[index := ?new]) = map mb_vector os"
    using index list_update_id[of "map mb_vector os" index] by (simp add: map_update)
  have same: "mb_vector (os[index := ?new] ! n) = mb_vector (os ! n)" if "n < length os" for n
    using that index(1) by (cases "n = index") simp_all
  have "indexes_ok (vs_indexes ?st) (vs_vectors ?st)"
    using inv(4) m same unfolding eq by (auto simp: indexes_ok_def)
  moreover have "numbers_ok (length (rf_names T')) (length (rf_names (vs_phases_by_hit st)))
      (length (rf_names (vs_explicit_phases_by_hit st))) (vs_vectors ?st) (vs_tests_by_decision st)"
  proof -
    have old: "numbers_ok (length (rf_names T')) (length (rf_names (vs_phases_by_hit st)))
      (length (rf_names (vs_explicit_phases_by_hit st))) (vs_vectors st) (vs_tests_by_decision st)"
      by (rule numbers_ok_mono[OF inv(5) T(3) order_refl order_refl])
    then have all: "list_all (observation_below (length (rf_names T')) (length (rf_names (vs_phases_by_hit st)))
        (length (rf_names (vs_explicit_phases_by_hit st)))) os"
      unfolding os by (auto simp: numbers_ok_def observation_below_def)
    then have "observation_below (length (rf_names T')) (length (rf_names (vs_phases_by_hit st)))
        (length (rf_names (vs_explicit_phases_by_hit st))) ?new"
      using index(1) T(4) by (auto simp: list_all_length observation_below_def)
    then have "list_all (observation_below (length (rf_names T')) (length (rf_names (vs_phases_by_hit st)))
        (length (rf_names (vs_explicit_phases_by_hit st)))) (os[index := ?new])"
      by (rule list_all_list_update[OF all])
    then show ?thesis using old unfolding eq by (simp add: numbers_ok_def)
  qed
  moreover have "names_ok (rf_names T') (rf_names (vs_phases_by_hit st)) (rf_names (vs_explicit_phases_by_hit st))
      (vs_tests st) (vs_test_order st) (map fst (vs_phases st))"
    by (rule names_ok_tests[OF inv(6) T(6) assms(2)])
  moreover have "hits_ok (length (hi_names (vs_hit_ids st))) (vs_test ?st) (vs_tests st) (snd ` set (vs_phases st))"
    using inv(7) by (simp add: hits_ok_def eq)
  ultimately show "view_inv ?st" using inv(2,3) T(1) by (simp add: view_inv_def eq)
  show "hit_tests ?st = hit_tests st" "vs_tests ?st = vs_tests st" "vs_phases ?st = vs_phases st"
    using T(2) by (simp_all add: hit_tests_def eq)
  show "seen ?st d' = (if d' = d \<and> v \<notin> set (seen st d) then seen st d @ [v] else seen st d')"
  proof (cases "d' = d")
    case True
    then have "seen ?st d' = map mb_vector os" using vectors by (simp add: seen_def eq)
    then show ?thesis using True by (simp add: os seen_def)
  qed (simp add: seen_def eq)
  have cong: "vector_tests (rf_names T') (listed (vs_vectors st) e)
      = vector_tests (rf_names (vs_tests_by_hit st)) (listed (vs_vectors st) e)" for e
    by (rule vector_tests_cong) (rule T(7), rule test_numbers_below[OF assms(1)])
  have "vector_tests (rf_names T') os = vector_tests (rf_names T') (listed (vs_vectors st) d)"
    unfolding os by (simp add: vector_tests_def)
  then have "vector_tests (rf_names T') (os[index := ?new]) = insert (v, i) (seen_by st d)"
    using vector_tests_upd[OF index(1)] index(2) T(5) cong[of d] by (simp add: seen_by_def)
  then show "seen_by ?st d' = (if d' = d then insert (v, i) (seen_by st d) else seen_by st d')"
    using cong by (simp add: seen_by_def eq)
  show "\<exists>m index. vs_indexes ?st d = Some m \<and> m (vector_key v) = Some index"
    using m index by (auto simp: eq)
qed

lemma decision_test_ok:
  assumes "view_inv st" "i \<in> dom (vs_tests st)"
  shows "view_inv (decision_test i d st)"
    and "hit_tests (decision_test i d st) = hit_tests st"
    and "vs_tests (decision_test i d st) = vs_tests st" and "vs_phases (decision_test i d st) = vs_phases st"
    and "seen (decision_test i d st) d' = seen st d'" and "seen_by (decision_test i d st) d' = seen_by st d'"
    and "vs_indexes (decision_test i d st) = vs_indexes st"
proof -
  obtain number T' where r: "ref_number i (vs_tests_by_hit st) = (number, T')" by fastforce
  note inv = view_invD[OF assms(1)]
  note T = ref_number_ok[OF inv(1) r]
  let ?ns = "listed (vs_tests_by_decision st) d @ [number]"
  have eq: "decision_test i d st = st\<lparr>vs_tests_by_hit := T',
      vs_tests_by_decision := (vs_tests_by_decision st)(d \<mapsto> ?ns)\<rparr>"
    by (simp add: decision_test_def r Let_def listed_def)
  have "numbers_ok (length (rf_names T')) (length (rf_names (vs_phases_by_hit st)))
      (length (rf_names (vs_explicit_phases_by_hit st))) (vs_vectors st) (vs_tests_by_decision (decision_test i d st))"
    using numbers_ok_mono[OF inv(5) T(3) order_refl order_refl] T(4) by (simp add: numbers_ok_def eq)
  then show "view_inv (decision_test i d st)"
    using inv T(1) names_ok_tests[OF inv(6) T(6) assms(2)] by (simp add: view_inv_def eq)
  show "hit_tests (decision_test i d st) = hit_tests st" "vs_tests (decision_test i d st) = vs_tests st"
    "vs_phases (decision_test i d st) = vs_phases st" "seen (decision_test i d st) d' = seen st d'"
    "vs_indexes (decision_test i d st) = vs_indexes st"
    using T(2) by (simp_all add: hit_tests_def seen_def eq)
  have "vector_tests (rf_names T') (listed (vs_vectors st) d')
      = vector_tests (rf_names (vs_tests_by_hit st)) (listed (vs_vectors st) d')"
    by (rule vector_tests_cong) (rule T(7), rule test_numbers_below[OF assms(1)])
  then show "seen_by (decision_test i d st) d' = seen_by st d'" by (simp add: seen_by_def eq)
qed

subsection \<open>What a phase step keeps\<close>

text \<open>Steps on a phase read and extend the tables of phases; tests, their references and the
  vectors seen are as before.\<close>

definition keeps :: "view_state \<Rightarrow> view_state \<Rightarrow> bool" where
  "keeps st st' \<longleftrightarrow> view_inv st' \<and> hit_tests st' = hit_tests st \<and> vs_tests st' = vs_tests st
     \<and> fst ` set (vs_phases st') = fst ` set (vs_phases st)
     \<and> (\<forall>d. seen st' d = seen st d \<and> seen_by st' d = seen_by st d) \<and> vs_indexes st' = vs_indexes st"

lemma keeps_refl: "view_inv st \<Longrightarrow> keeps st st"
  by (simp add: keeps_def)

lemma keeps_trans [trans]: "keeps st st' \<Longrightarrow> keeps st' st'' \<Longrightarrow> keeps st st''"
  by (simp add: keeps_def)

lemma keeps_inv: "keeps st st' \<Longrightarrow> view_inv st'"
  by (simp add: keeps_def)

lemma keeps_modify_phase:
  assumes "view_inv st" "\<And>p. mh_hits (f p) = mh_hits p"
  shows "keeps st (modify_phase k f st)"
  using modify_phase_inv[OF assms(1), of f k] assms(2)
  by (simp add: keeps_def hit_tests_def seen_def seen_by_def)

lemma keeps_count_events: "view_inv st \<Longrightarrow> keeps st (modify_phase k (count_events browser explicit n) st)"
  by (rule keeps_modify_phase) (simp_all add: count_events_def)

lemma keeps_insert_phase_vector: "view_inv st \<Longrightarrow> keeps st (insert_phase_vector k i v st)"
  unfolding insert_phase_vector_def by (rule keeps_modify_phase) simp_all

lemma keeps_phase_hit:
  assumes "view_inv st" "phase_id \<in> fst ` set (vs_phases st)"
  shows "keeps st (phase_hit phase_id explicit hit st)"
proof -
  note inv = view_invD[OF assms(1)]
  obtain number hits where h: "hit_number hit (vs_hit_ids st) = (number, hits)" by fastforce
  note T = hit_number_ok[OF inv(1) h] and P = hit_number_ok[OF inv(2) h] and X = hit_number_ok[OF inv(3) h]
  let ?P' = "ref_add number phase_id (vs_phases_by_hit st)"
  let ?X' = "if explicit then ref_add number phase_id (vs_explicit_phases_by_hit st) else vs_explicit_phases_by_hit st"
  let ?f = "\<lambda>phase. phase\<lparr>mh_hits := mh_hits phase @ [number]\<rparr>"
  let ?st = "phase_hit phase_id explicit hit st"
  have eq: "?st = st\<lparr>vs_hit_ids := hits, vs_phases := AList.map_entry phase_id ?f (vs_phases st),
      vs_phases_by_hit := ?P', vs_explicit_phases_by_hit := ?X'\<rparr>"
    by (simp add: phase_hit_def h Let_def modify_phase_def)
  have P': "relation_ok ?P' hits" "length (rf_names (vs_phases_by_hit st)) \<le> length (rf_names ?P')"
    "set (rf_names ?P') \<subseteq> insert phase_id (set (rf_names (vs_phases_by_hit st)))"
    using ref_add_reached(1)[OF P(1,4)] ref_add_names[OF P(1)] by simp_all
  have X': "relation_ok ?X' hits" "length (rf_names (vs_explicit_phases_by_hit st)) \<le> length (rf_names ?X')"
    "set (rf_names ?X') \<subseteq> insert phase_id (set (rf_names (vs_explicit_phases_by_hit st)))"
    using ref_add_reached(1)[OF X(1,4)] ref_add_names[OF X(1)] X(1) by auto
  have old: "hits_ok (length (hi_names hits)) (vs_test st) (vs_tests st) (snd ` set (vs_phases st))"
    by (rule hits_ok_mono[OF inv(7) T(3)])
  have "hits_ok (length (hi_names hits)) (vs_test st) (vs_tests st)
      (snd ` set (AList.map_entry phase_id ?f (vs_phases st)))"
  proof (rule hits_ok_phases[OF old values_map_entry])
    fix q assume "q \<in> ?f ` snd ` set (vs_phases st)"
    then show "below (length (hi_names hits)) (mh_hits q)" using old T(4) by (auto simp: hits_ok_def)
  qed
  moreover have "names_ok (rf_names (vs_tests_by_hit st)) (rf_names ?P') (rf_names ?X') (vs_tests st)
      (vs_test_order st) (map fst (AList.map_entry phase_id ?f (vs_phases st)))"
    using names_ok_related[OF inv(6) P'(3) X'(3)] assms(2) by simp
  moreover have "numbers_ok (length (rf_names (vs_tests_by_hit st))) (length (rf_names ?P'))
      (length (rf_names ?X')) (vs_vectors st) (vs_tests_by_decision st)"
    by (rule numbers_ok_mono[OF inv(5) order_refl P'(2) X'(2)])
  ultimately have "view_inv ?st"
    using inv(4) T(1) P'(1) X'(1) unfolding eq view_inv_def by simp
  then show ?thesis using T(2) by (simp add: keeps_def eq hit_tests_def seen_def seen_by_def)
qed

lemma keeps_relate_observation:
  assumes "view_inv st" "phase_id \<in> fst ` set (vs_phases st)" "index < length (listed (vs_vectors st) i)"
    and "vs_vectors st i \<noteq> None"
  shows "keeps st (relate_observation phase_id explicit i index st)"
proof -
  note inv = view_invD[OF assms(1)]
  obtain number P' where r: "ref_number phase_id (vs_phases_by_hit st) = (number, P')" by fastforce
  obtain number' X1 where r': "ref_number phase_id (vs_explicit_phases_by_hit st) = (number', X1)" by fastforce
  note P = ref_number_ok[OF inv(2) r] and X = ref_number_ok[OF inv(3) r']
  let ?os = "listed (vs_vectors st) i"
  define X' where "X' = (if explicit then X1 else vs_explicit_phases_by_hit st)"
  define new where "new = (?os ! index)\<lparr>mb_phases := mb_phases (?os ! index) @ [number],
      mb_explicit_phases := mb_explicit_phases (?os ! index) @ (if explicit then [number'] else [])\<rparr>"
  let ?st = "relate_observation phase_id explicit i index st"
  have eq: "?st = st\<lparr>vs_vectors := (vs_vectors st)(i \<mapsto> ?os[index := new]), vs_phases_by_hit := P',
      vs_explicit_phases_by_hit := X'\<rparr>"
    by (simp add: relate_observation_def r r' Let_def listed_def [symmetric] X'_def new_def)
  have X': "relation_ok X' (vs_hit_ids st)" "length (rf_names (vs_explicit_phases_by_hit st)) \<le> length (rf_names X')"
    "set (rf_names X') \<subseteq> insert phase_id (set (rf_names (vs_explicit_phases_by_hit st)))"
    using X inv(3) by (auto simp: X'_def)
  have n: "numbers_ok (length (rf_names (vs_tests_by_hit st))) (length (rf_names P'))
      (length (rf_names X')) (vs_vectors st) (vs_tests_by_decision st)"
    by (rule numbers_ok_mono[OF inv(5) order_refl P(3) X'(2)])
  then have all: "list_all (observation_below (length (rf_names (vs_tests_by_hit st))) (length (rf_names P'))
      (length (rf_names X'))) ?os" by (simp add: numbers_ok_def)
  then have "observation_below (length (rf_names (vs_tests_by_hit st))) (length (rf_names P')) (length (rf_names X')) new"
    using assms(3) P(4) X(4) by (auto simp: list_all_length observation_below_def new_def X'_def)
  then have "numbers_ok (length (rf_names (vs_tests_by_hit st))) (length (rf_names P'))
      (length (rf_names X')) ((vs_vectors st)(i \<mapsto> ?os[index := new])) (vs_tests_by_decision st)"
    using n list_all_list_update[OF all] by (simp add: numbers_ok_def)
  moreover have same: "mb_vector (?os[index := new] ! n) = mb_vector (?os ! n)" if "n < length ?os" for n
    using that assms(3) by (cases "n = index") (simp_all add: new_def)
  then have "indexes_ok (vs_indexes st) ((vs_vectors st)(i \<mapsto> ?os[index := new]))"
    using inv(4) assms(4) unfolding indexes_ok_def by (auto simp: same)
  moreover have "names_ok (rf_names (vs_tests_by_hit st)) (rf_names P') (rf_names X') (vs_tests st)
      (vs_test_order st) (map fst (vs_phases st))"
    by (rule names_ok_related[OF inv(6) _ X'(3)]) (use P(6) assms(2) in auto)
  ultimately have "view_inv ?st" using inv(1,7) P(1) X'(1) unfolding eq view_inv_def by simp
  moreover have "map mb_vector (?os[index := new]) = map mb_vector ?os"
    using assms(3) list_update_id[of "map mb_vector ?os" index] by (simp add: map_update new_def)
  moreover have "vector_tests names (?os[index := new]) = vector_tests names ?os" for names
  proof -
    have "mb_tests (?os[index := new] ! n) = mb_tests (?os ! n)" if "n < length ?os" for n
      using that assms(3) by (cases "n = index") (simp_all add: new_def)
    moreover have "set xs = (!) xs ` {..<length xs}" for xs :: "mutable_observation list"
      by (auto simp: in_set_conv_nth)
    ultimately show ?thesis using same by (simp add: vector_tests_def)
  qed
  ultimately show ?thesis by (auto simp: keeps_def eq hit_tests_def seen_def seen_by_def)
qed

end
