(* ===== verification/IngestExact.thy ===== *)
theory IngestExact
  imports IngestFacts
begin

section \<open>What a run's evidence says, exactly\<close>

text \<open>
  Every record adds its hits and its vectors under its test's name, nothing is lost between the
  steps, and the only ways the loop stops are the report errors of malformed records.
\<close>

subsection \<open>Outcomes that do not panic\<close>

definition safe :: "stop + 'a \<Rightarrow> ('a \<Rightarrow> bool) \<Rightarrow> bool" where
  "safe m Q \<longleftrightarrow> (case m of Inl e \<Rightarrow> e \<noteq> Panicked | Inr x \<Rightarrow> Q x)"

lemma safe_simps [simp]: "safe (Inr x) Q \<longleftrightarrow> Q x" "safe (Inl (Returned e)) Q" "\<not> safe (Inl Panicked) Q"
  by (simp_all add: safe_def)

lemma safe_rbind: "safe m Q \<Longrightarrow> (\<And>x. m = Inr x \<Longrightarrow> Q x \<Longrightarrow> safe (f x) R) \<Longrightarrow> safe (rbind m f) R"
  by (cases m) (auto simp: safe_def)

lemma safe_mono: "safe m Q \<Longrightarrow> (\<And>x. m = Inr x \<Longrightarrow> Q x \<Longrightarrow> R x) \<Longrightarrow> safe m R"
  by (auto simp: safe_def split: sum.splits)

lemma safe_ok_or: "(\<And>x. y = Some x \<Longrightarrow> safe (f x) R) \<Longrightarrow> safe (rbind (ok_or y (Returned e)) f) R"
  by (cases y) (auto simp: ok_or_def)

subsection \<open>What a step adds\<close>

definition note_vector :: "mcdc_vector \<Rightarrow> mcdc_vector list \<Rightarrow> mcdc_vector list" where
  "note_vector v vs = (if v \<in> set vs then vs else vs @ [v])"

lemma set_note_vectors [simp]: "set (fold note_vector vs ws) = set vs \<union> set ws"
  by (induction vs arbitrary: ws) (auto simp: note_vector_def)

lemma distinct_note_vectors: "distinct ws \<Longrightarrow> distinct (fold note_vector vs ws)"
  by (induction vs arbitrary: ws) (auto simp: note_vector_def)

definition observes ::
  "string \<Rightarrow> string list \<Rightarrow> (string \<Rightarrow> mcdc_vector list) \<Rightarrow> view_state \<Rightarrow> view_state \<Rightarrow> bool" where
  "observes i hs vs st st' \<longleftrightarrow> view_inv st' \<and> hit_tests st' = (\<lambda>h. (h, i)) ` set hs \<union> hit_tests st
     \<and> vs_tests st' = vs_tests st \<and> fst ` set (vs_phases st') = fst ` set (vs_phases st)
     \<and> (\<forall>d. seen st' d = fold note_vector (vs d) (seen st d)
          \<and> seen_by st' d = (\<lambda>v. (v, i)) ` set (vs d) \<union> seen_by st d)"

definition ready :: "string \<Rightarrow> view_state \<Rightarrow> bool" where
  "ready i st \<longleftrightarrow> view_inv st \<and> i \<in> dom (vs_tests st)"

lemma observes_ready: "ready i st \<Longrightarrow> observes i hs vs st st' \<Longrightarrow> ready i st'"
  by (simp add: ready_def observes_def)

lemma observes_refl: "view_inv st \<Longrightarrow> observes i [] (\<lambda>_. []) st st"
  by (simp add: observes_def)

lemma observes_keeps: "keeps st st' \<Longrightarrow> observes i [] (\<lambda>_. []) st st'"
  by (simp add: observes_def keeps_def)

lemma observes_trans:
  "observes i hs vs st st1 \<Longrightarrow> observes i hs' vs' st1 st2 \<Longrightarrow> observes i (hs @ hs') (\<lambda>d. vs d @ vs' d) st st2"
  by (auto simp: observes_def)

lemma observes_then_keeps: "observes i hs vs st st1 \<Longrightarrow> keeps st1 st2 \<Longrightarrow> observes i hs vs st st2"
  using observes_trans[of i hs vs st st1 "[]" "\<lambda>_. []" st2] observes_keeps by simp

lemma observes_fold:
  assumes "ready i st" and "\<And>x s. x \<in> set xs \<Longrightarrow> ready i s \<Longrightarrow> observes i (h x) (v x) s (f x s)"
  shows "observes i (concat (map h xs)) (\<lambda>d. concat (map (\<lambda>x. v x d) xs)) st (fold f xs st)"
  using assms
proof (induction xs arbitrary: st)
  case Nil
  then show ?case by (simp add: observes_refl ready_def)
next
  case (Cons x xs)
  have one: "observes i (h x) (v x) st (f x st)" using Cons.prems by simp
  then have "observes i (concat (map h xs)) (\<lambda>d. concat (map (\<lambda>x. v x d) xs)) (f x st) (fold f xs (f x st))"
    using Cons.IH[of "f x st"] observes_ready[OF Cons.prems(1) one] Cons.prems(2) by simp
  from observes_trans[OF one this] show ?case by simp
qed

lemma observes_try_fold:
  assumes "ready i st" and "\<And>x s. x \<in> set xs \<Longrightarrow> ready i s \<Longrightarrow> safe (f x s) (observes i (h x) (v x) s)"
  shows "safe (try_fold f xs st) (observes i (concat (map h xs)) (\<lambda>d. concat (map (\<lambda>x. v x d) xs)) st)"
  using assms
proof (induction xs arbitrary: st)
  case Nil
  then show ?case by (simp add: observes_refl ready_def)
next
  case (Cons x xs)
  have one: "safe (f x st) (observes i (h x) (v x) st)" using Cons.prems by simp
  show ?case unfolding try_fold.simps
  proof (rule safe_rbind[OF one])
    fix s assume "observes i (h x) (v x) st s"
    then have "ready i s" using observes_ready Cons.prems(1) by blast
    then have "safe (try_fold f xs s) (observes i (concat (map h xs)) (\<lambda>d. concat (map (\<lambda>x. v x d) xs)) s)"
      using Cons.IH Cons.prems(2) by simp
    then show "safe (try_fold f xs s) (observes i (concat (map h (x # xs))) (\<lambda>d. concat (map (\<lambda>x. v x d) (x # xs))) st)"
      by (rule safe_mono) (use observes_trans[OF \<open>observes i (h x) (v x) st s\<close>] in auto)
  qed
qed

lemma keeps_try_fold:
  assumes "view_inv st" and "\<And>x s. x \<in> set xs \<Longrightarrow> keeps st s \<Longrightarrow> safe (f x s) (keeps s)"
  shows "safe (try_fold f xs st) (keeps st)"
proof -
  have "safe (try_fold f xs s) (keeps st)" if "keeps st s" for s
    using that assms(2)
  proof (induction xs arbitrary: s)
    case (Cons x xs)
    have "safe (f x s) (keeps s)" using Cons.prems by simp
    then show ?case unfolding try_fold.simps
      by (rule safe_rbind) (use Cons keeps_trans in \<open>metis list.set_intros(2)\<close>)
  qed simp
  then show ?thesis using keeps_refl[OF assms(1)] by blast
qed

lemma keeps_fold:
  assumes "view_inv st" and "\<And>x s. x \<in> set xs \<Longrightarrow> keeps st s \<Longrightarrow> keeps s (f x s)"
  shows "keeps st (fold f xs st)"
proof -
  have "keeps st (fold f xs s)" if "keeps st s" for s
    using that assms(2)
  proof (induction xs arbitrary: s)
    case (Cons x xs)
    then have "keeps st (f x s)" using keeps_trans by (metis list.set_intros(1))
    then show ?case using Cons by simp
  qed simp
  then show ?thesis using keeps_refl[OF assms(1)] by blast
qed

subsection \<open>The steps of a snapshot\<close>

lemma observe_vector_observes:
  "ready i st \<Longrightarrow> observes i [] (\<lambda>d'. if d' = d then [v] else []) st (observe_vector i d v st)"
  using observe_vector_ok[of st i d v] by (auto simp: ready_def observes_def note_vector_def)

lemma decision_test_observes: "ready i st \<Longrightarrow> observes i [] (\<lambda>_. []) st (decision_test i d st)"
  using decision_test_ok[of st i d] by (auto simp: ready_def observes_def)

lemma ingest_hit_observes: "ready i st \<Longrightarrow> observes i [hit] (\<lambda>_. []) st (ingest_hit i hit st)"
  using ingest_hit_ok[of st i hit] by (auto simp: ready_def observes_def)

definition snapshot_vectors :: "string set \<Rightarrow> decision_snapshot list \<Rightarrow> string \<Rightarrow> mcdc_vector list" where
  "snapshot_vectors decisions ds d =
     (if d \<in> decisions then concat (map ds_vectors (filter (\<lambda>x. ds_id x = d) ds)) else [])"

lemma concat_filter: "concat (map f (filter P xs)) = concat (map (\<lambda>x. if P x then f x else []) xs)"
  by (induction xs) auto

lemma ingest_decision_observes:
  assumes "ready i st"
  shows "observes i [] (\<lambda>d'. if d' = ds_id d \<and> ds_id d \<in> decisions then ds_vectors d else []) st
    (ingest_decision i decisions d st)"
proof (cases "ds_id d \<in> decisions")
  case False
  then show ?thesis using assms by (simp add: ingest_decision_def ready_def observes_refl)
next
  case True
  let ?st = "fold (observe_vector i (ds_id d)) (ds_vectors d) st"
  have *: "observes i (concat (map (\<lambda>_. []) (ds_vectors d)))
      (\<lambda>d'. concat (map (\<lambda>v. if d' = ds_id d then [v] else []) (ds_vectors d))) st ?st"
    by (rule observes_fold[OF assms]) (rule observe_vector_observes)
  have "concat (map (\<lambda>v. if d' = ds_id d then [v] else []) (ds_vectors d)) = (if d' = ds_id d then ds_vectors d else [])" for d'
    by (induction "ds_vectors d") auto
  with * have **: "observes i [] (\<lambda>d'. if d' = ds_id d then ds_vectors d else []) st ?st"
    by (simp add: concat_eq_Nil_conv [THEN iffD2])
  show ?thesis
  proof (cases "ds_vectors d = []")
    case True
    then show ?thesis using ** \<open>ds_id d \<in> decisions\<close> by (simp add: ingest_decision_def)
  next
    case False
    then show ?thesis
      using observes_trans[OF ** decision_test_observes[OF observes_ready[OF assms **]]] True
      by (simp add: ingest_decision_def Let_def)
  qed
qed

lemma observation_of_safe:
  assumes "view_inv st"
  shows "safe (observation_of d v st) (\<lambda>r. case r of None \<Rightarrow> True
    | Some index \<Rightarrow> index < length (listed (vs_vectors st) d) \<and> vs_vectors st d \<noteq> None)"
proof (cases "vs_indexes st d")
  case None
  then show ?thesis by (simp add: observation_of_def)
next
  case (Some m)
  then obtain os where "vs_vectors st d = Some os"
    using view_invD(4)[OF assms] unfolding indexes_ok_def by (metis option.distinct(1) option.exhaust)
  then show ?thesis using Some
    by (auto simp: observation_of_def expect_def ok_or_def listed_def split: option.splits)
qed

lemma phase_vector_keeps:
  assumes "view_inv st" "phase_id \<in> fst ` set (vs_phases st)"
  shows "safe (phase_vector phase_id explicit d v st) (keeps st)"
proof -
  let ?st = "insert_phase_vector phase_id d v st"
  have k: "keeps st ?st" by (rule keeps_insert_phase_vector[OF assms(1)])
  then have "view_inv ?st" "phase_id \<in> fst ` set (vs_phases ?st)" using assms(2) by (simp_all add: keeps_def)
  note rel = keeps_relate_observation[OF this]
  show ?thesis unfolding phase_vector_def Let_def
  proof (rule safe_rbind[OF observation_of_safe[OF \<open>view_inv ?st\<close>]])
    fix r assume "case r of None \<Rightarrow> True | Some index \<Rightarrow> index < length (listed (vs_vectors ?st) d) \<and> vs_vectors ?st d \<noteq> None"
    then show "safe (Inr (case r of Some index \<Rightarrow> relate_observation phase_id explicit d index ?st | None \<Rightarrow> ?st)) (keeps st)"
      using k keeps_trans[OF k rel] by (cases r) simp_all
  qed
qed

lemma ingest_event_keeps:
  assumes "view_inv st"
  shows "safe (ingest_event ordered event st) (keeps st)"
proof (cases "correlate_event event ordered")
  case (Some phase_id)
  let ?explicit = "re_phase_id event \<noteq> None"
  let ?st = "modify_phase phase_id (count_events (re_environment event = ''browser'') ?explicit 1) st"
  show ?thesis
  proof (cases "map_of (vs_phases st) phase_id = None")
    case False
    then obtain p where p: "map_of (vs_phases st) phase_id = Some p" by blast
    have "phase_id \<in> fst ` set (vs_phases st)" using False by (simp add: map_of_eq_None_iff)
    moreover have k: "keeps st ?st" by (rule keeps_count_events[OF assms])
    ultimately have *: "view_inv ?st" "phase_id \<in> fst ` set (vs_phases ?st)" by (simp_all add: keeps_def)
    have "safe (phase_vector phase_id ?explicit (re_id event) v ?st) (keeps st)" for v
      by (rule safe_mono[OF phase_vector_keeps[OF *]]) (rule keeps_trans[OF k])
    moreover have "keeps st (phase_hit phase_id ?explicit (re_id event) ?st)"
      by (rule keeps_trans[OF k keeps_phase_hit[OF *]])
    ultimately show ?thesis
      by (simp add: ingest_event_def Let_def Some p split: option.splits)
  qed (simp add: ingest_event_def Some assms keeps_refl)
qed (simp add: ingest_event_def assms keeps_refl)

lemma snapshot_phase_keeps:
  assumes "view_inv st"
  shows "safe (snapshot_phase snapshot browser st) (keeps st)"
proof (cases "rs_phase_id snapshot")
  case (Some phase_id)
  show ?thesis
  proof (cases "map_of (vs_phases st) phase_id = None")
    case False
    then obtain p where p: "map_of (vs_phases st) phase_id = Some p" by blast
    have key: "phase_id \<in> fst ` set (vs_phases st)" using False by (simp add: map_of_eq_None_iff)
    let ?n = "length (rs_hits snapshot) + sum_list (map (\<lambda>decision. length (ds_vectors decision)) (rs_decisions snapshot))"
    let ?st = "modify_phase phase_id (count_events browser True ?n) st"
    have k: "keeps st ?st" by (rule keeps_count_events[OF assms])
    have k': "keeps ?st (fold (phase_hit phase_id True) (rs_hits snapshot) ?st)"
      by (rule keeps_fold[OF keeps_inv[OF k]], rule keeps_phase_hit) (use key k in \<open>auto simp: keeps_def\<close>)
    let ?st' = "fold (phase_hit phase_id True) (rs_hits snapshot) ?st"
    have st': "keeps st ?st'" by (rule keeps_trans[OF k k'])
    have one: "safe (phase_vector phase_id True d v s) (keeps s)" if "keeps ?st' s" for d v s
      by (rule phase_vector_keeps) (use that st' key in \<open>auto simp: keeps_def\<close>)
    have "safe (try_fold (\<lambda>decision. try_fold (phase_vector phase_id True (ds_id decision)) (ds_vectors decision))
        (rs_decisions snapshot) ?st') (keeps ?st')"
      by (rule keeps_try_fold[OF keeps_inv[OF st']], rule keeps_try_fold)
        (use one keeps_trans keeps_inv in blast)+
    then have "safe (try_fold (\<lambda>decision. try_fold (phase_vector phase_id True (ds_id decision)) (ds_vectors decision))
        (rs_decisions snapshot) ?st') (keeps st)"
      by (rule safe_mono) (rule keeps_trans[OF st'])
    then show ?thesis by (simp add: snapshot_phase_def Let_def Some p)
  qed (simp add: snapshot_phase_def Some assms keeps_refl)
qed (simp add: snapshot_phase_def assms keeps_refl)

lemma ingest_snapshot_observes:
  assumes "ready i st"
  shows "safe (ingest_snapshot i decisions ordered (snapshot, browser) st)
    (observes i (rs_hits snapshot) (snapshot_vectors decisions (rs_decisions snapshot)) st)"
proof -
  let ?st1 = "fold (ingest_decision i decisions) (rs_decisions snapshot) st"
  have "observes i (concat (map (\<lambda>_. []) (rs_decisions snapshot)))
     (\<lambda>d. concat (map (\<lambda>x. if d = ds_id x \<and> ds_id x \<in> decisions then ds_vectors x else []) (rs_decisions snapshot))) st ?st1"
    by (rule observes_fold[OF assms]) (rule ingest_decision_observes)
  moreover have "(\<lambda>d. concat (map (\<lambda>x. if d = ds_id x \<and> ds_id x \<in> decisions then ds_vectors x else []) (rs_decisions snapshot)))
      = snapshot_vectors decisions (rs_decisions snapshot)"
    by (rule ext) (auto simp: snapshot_vectors_def concat_filter intro!: arg_cong[where f = concat])
  moreover have "concat (map (\<lambda>_. []) (rs_decisions snapshot)) = ([] :: string list)" by simp
  ultimately have 1: "observes i [] (snapshot_vectors decisions (rs_decisions snapshot)) st ?st1" by metis
  let ?st2 = "fold (ingest_hit i) (rs_hits snapshot) ?st1"
  have "observes i (concat (map (\<lambda>h. [h]) (rs_hits snapshot))) (\<lambda>d. concat (map (\<lambda>_. []) (rs_hits snapshot))) ?st1 ?st2"
    by (rule observes_fold[OF observes_ready[OF assms 1]]) (rule ingest_hit_observes)
  moreover have "concat (map (\<lambda>_. []) (rs_hits snapshot)) = ([] :: mcdc_vector list)" by simp
  ultimately have "observes i (rs_hits snapshot) (\<lambda>_. []) ?st1 ?st2" by simp
  from observes_trans[OF 1 this]
  have 2: "observes i (rs_hits snapshot) (snapshot_vectors decisions (rs_decisions snapshot)) st ?st2" by simp
  have "view_inv ?st2" using 2 by (simp add: observes_def)
  then have "safe (try_fold (ingest_event ordered) (rs_events snapshot) ?st2) (keeps ?st2)"
    by (rule keeps_try_fold) (rule ingest_event_keeps[OF keeps_inv])
  then have "safe (rbind (try_fold (ingest_event ordered) (rs_events snapshot) ?st2) (snapshot_phase snapshot browser))
      (keeps ?st2)"
    by (rule safe_rbind) (rule safe_mono[OF snapshot_phase_keeps], auto intro: keeps_inv keeps_trans)
  then show ?thesis unfolding ingest_snapshot_def
    by (simp add: Let_def, elim safe_mono) (rule observes_then_keeps[OF 2])
qed

subsection \<open>The steps of a server record\<close>

lemma server_event_keeps:
  assumes "view_inv st"
    and "\<And>v. decision = Some v \<Longrightarrow> \<exists>m index. vs_indexes st i = Some m \<and> m (vector_key v) = Some index"
  shows "safe (server_event ordered record i decision st) (keeps st)"
proof (cases "sr_timestamp_ms record")
  case None
  then show ?thesis by (simp add: server_event_def assms(1) keeps_refl)
next
  case (Some t)
  let ?event = "\<lparr>re_event_type = sr_record_type record, re_id = i, re_vector = decision,
      re_timestamp_ms = t, re_phase_id = sr_phase_id record, re_environment = ''server''\<rparr>"
  let ?explicit = "sr_phase_id record \<noteq> None"
  show ?thesis
  proof (cases "correlate_event ?event ordered")
    case None
    then show ?thesis using Some by (simp add: server_event_def assms(1) keeps_refl)
  next
    case (Some phase_id)
    show ?thesis
    proof (cases "map_of (vs_phases st) phase_id")
      case None
      then show ?thesis using \<open>sr_timestamp_ms record = Some t\<close> Some
        by (simp add: server_event_def assms(1) keeps_refl)
    next
      case (Some p)
      then have key: "phase_id \<in> fst ` set (vs_phases st)" by (metis map_of_eq_None_iff option.distinct(1))
      let ?st = "modify_phase phase_id (count_events False ?explicit 1) st"
      have k: "keeps st ?st" by (rule keeps_count_events[OF assms(1)])
      have unfold: "server_event ordered record i decision st = (case decision of
          None \<Rightarrow> Inr (phase_hit phase_id ?explicit i ?st)
        | Some vector \<Rightarrow>
            rbind (observation_of i vector (insert_phase_vector phase_id i vector ?st)) (\<lambda>observed.
            rbind (expect observed) (\<lambda>index.
              Inr (relate_observation phase_id ?explicit i index (insert_phase_vector phase_id i vector ?st)))))"
        using \<open>sr_timestamp_ms record = Some t\<close> \<open>correlate_event ?event ordered = Some phase_id\<close> Some
        by (cases decision) (simp_all add: server_event_def Let_def)
      show ?thesis
      proof (cases decision)
        case None
        have "keeps ?st (phase_hit phase_id ?explicit i ?st)"
          by (rule keeps_phase_hit[OF keeps_inv[OF k]]) (use key in simp)
        then show ?thesis using keeps_trans[OF k] None unfolding unfold by simp
      next
        case (Some v)
        let ?st' = "insert_phase_vector phase_id i v ?st"
        have k': "keeps st ?st'" by (rule keeps_trans[OF k keeps_insert_phase_vector[OF keeps_inv[OF k]]])
        then have inv: "view_inv ?st'" and key': "phase_id \<in> fst ` set (vs_phases ?st')"
          using key by (simp_all add: keeps_def)
        obtain m index where m: "vs_indexes ?st' i = Some m" "m (vector_key v) = Some index"
          using assms(2)[OF Some] k' by (auto simp: keeps_def)
        have index: "index < length (listed (vs_vectors ?st') i)"
          using indexes_okD(1)[OF view_invD(4)[OF inv] m(1)] m(2) by blast
        obtain os where os: "vs_vectors ?st' i = Some os"
          using view_invD(4)[OF inv] m(1) unfolding indexes_ok_def by (metis option.distinct(1) option.exhaust)
        have "observation_of i v ?st' = Inr (Some index)"
          using m index os by (simp add: observation_of_def expect_def ok_or_def listed_def)
        then show ?thesis
          using keeps_trans[OF k' keeps_relate_observation[OF inv key' index, of ?explicit]] os
          using unfold unfolding Some by (simp add: expect_def ok_or_def)
      qed
    qed
  qed
qed

definition record_hits :: "server_record \<Rightarrow> string list" where
  "record_hits record = (if sr_record_type record = ''hit'' then
     (case sr_id record of Some hit \<Rightarrow> [hit] | None \<Rightarrow> []) else [])"

definition record_vectors :: "string set \<Rightarrow> server_record \<Rightarrow> string \<Rightarrow> mcdc_vector list" where
  "record_vectors decisions record d =
     (if sr_record_type record = ''decision'' \<and> sr_id record = Some d \<and> d \<in> decisions
      then (case sr_vector record of Some v \<Rightarrow> [v] | None \<Rightarrow> []) else [])"

lemma ingest_server_observes:
  assumes "ready i st"
  shows "safe (ingest_server i decisions ordered record st) (observes i (record_hits record) (record_vectors decisions record) st)"
proof (cases "sr_record_type record = ''decision''")
  case True
  then have "record_hits record = []" by (simp add: record_hits_def)
  show ?thesis unfolding ingest_server_def using True
  proof (simp, intro safe_ok_or)
    fix d v assume d: "sr_id record = Some d" and v: "sr_vector record = Some v"
    let ?st1 = "observe_vector i d v st" let ?st2 = "decision_test i d ?st1"
    show "safe (if d \<notin> decisions then Inr st else server_event ordered record d (Some v) ?st2)
      (observes i (record_hits record) (record_vectors decisions record) st)"
    proof (cases "d \<in> decisions")
      case False
      then have "record_vectors decisions record = (\<lambda>_. [])" using d by (auto simp: record_vectors_def)
      then show ?thesis using False assms \<open>record_hits record = []\<close> by (simp add: ready_def observes_refl)
    next
      case True
      have vs: "record_vectors decisions record = (\<lambda>d'. if d' = d then [v] else [])"
        using True d v \<open>sr_record_type record = ''decision''\<close> by (auto simp: record_vectors_def)
      note o1 = observe_vector_observes[OF assms, of d v]
      have o2: "observes i [] (\<lambda>d'. if d' = d then [v] else []) st ?st2"
        using observes_trans[OF o1 decision_test_observes[OF observes_ready[OF assms o1]]] by simp
      have "\<exists>m index. vs_indexes ?st2 d = Some m \<and> m (vector_key v) = Some index"
        using observe_vector_ok(7)[of st i d v] decision_test_ok(7)[of ?st1 i d] observes_ready[OF assms o1] assms
        by (simp add: ready_def)
      then have "safe (server_event ordered record d (Some v) ?st2) (keeps ?st2)"
        by (intro server_event_keeps) (use o2 in \<open>auto simp: observes_def\<close>)
      then show ?thesis using True \<open>record_hits record = []\<close> vs
        by simp (elim safe_mono, rule observes_then_keeps[OF o2])
    qed
  qed
next
  case False
  then have vs: "record_vectors decisions record = (\<lambda>_. [])" by (auto simp: record_vectors_def)
  show ?thesis
  proof (cases "sr_record_type record = ''hit''")
    case True
    show ?thesis unfolding ingest_server_def using True False
    proof (simp, intro safe_ok_or)
      fix hit assume hit: "sr_id record = Some hit"
      note o1 = ingest_hit_observes[OF assms, of hit]
      have "safe (server_event ordered record hit None (ingest_hit i hit st)) (keeps (ingest_hit i hit st))"
        by (rule server_event_keeps) (use o1 in \<open>auto simp: observes_def\<close>)
      then show "safe (server_event ordered record hit None (ingest_hit i hit st))
          (observes i (record_hits record) (record_vectors decisions record) st)"
        using True hit vs by (simp add: record_hits_def, elim safe_mono) (rule observes_then_keeps[OF o1])
    qed
  qed (simp add: ingest_server_def False)
qed

subsection \<open>A record, then all of them\<close>

definition hits_of :: "raw_test_result \<Rightarrow> string list" where
  "hits_of raw = concat (map (\<lambda>(snapshot, _). rs_hits snapshot) (snapshots_of raw))
     @ concat (map record_hits (rt_server raw))"

definition vectors_of :: "string set \<Rightarrow> raw_test_result \<Rightarrow> string \<Rightarrow> mcdc_vector list" where
  "vectors_of decisions raw d =
     concat (map (\<lambda>(snapshot, _). snapshot_vectors decisions (rs_decisions snapshot) d) (snapshots_of raw))
     @ concat (map (\<lambda>record. record_vectors decisions record d) (rt_server raw))"

definition adds_record :: "string set \<Rightarrow> raw_test_result \<Rightarrow> view_state \<Rightarrow> view_state \<Rightarrow> bool" where
  "adds_record decisions raw st st' \<longleftrightarrow> view_inv st'
     \<and> hit_tests st' = (\<lambda>h. (h, raw_test_id raw)) ` set (hits_of raw) \<union> hit_tests st
     \<and> dom (vs_tests st') = insert (raw_test_id raw) (dom (vs_tests st))
     \<and> fst ` set (vs_phases st') = cp_id ` set (rt_phases raw) \<union> fst ` set (vs_phases st)
     \<and> (\<forall>d. seen st' d = fold note_vector (vectors_of decisions raw d) (seen st d)
          \<and> seen_by st' d = (\<lambda>v. (v, raw_test_id raw)) ` set (vectors_of decisions raw d) \<union> seen_by st d)"

lemma ingest_raw_adds:
  assumes "view_inv st"
  shows "safe (ingest_raw decisions raw st) (adds_record decisions raw st)"
proof -
  let ?i = "raw_test_id raw"
  let ?ordered = "sort_key cp_started_at_ms (rt_phases raw)"
  let ?st1 = "enter_test raw st"
  let ?st2 = "?st1\<lparr>vs_test := fold_record raw (vs_test ?st1)\<rparr>"
  let ?st3 = "register_phases ?i ?ordered ?st2"
  have e: "view_inv ?st1" "?i \<in> dom (vs_tests ?st1)" using enter_test_inv[OF assms] by blast+
  have dom: "dom (vs_tests ?st3) = insert ?i (dom (vs_tests st))"
    by (auto simp: register_phases_def enter_test_def Let_def split: option.splits)
  have keys: "fst ` set (vs_phases ?st3) = cp_id ` set (rt_phases raw) \<union> fst ` set (vs_phases st)"
    by (simp add: register_phases_def keys_update_all)
  have same: "hit_tests ?st3 = hit_tests st" "seen ?st3 d = seen st d" "seen_by ?st3 d = seen_by st d" for d
    by (simp_all add: register_phases_def hit_tests_def seen_def seen_by_def)
  have ready: "ready ?i ?st3"
    using register_phases_inv[OF fold_record_inv[OF e(1)]] dom by (simp add: ready_def)
  have 1: "safe (try_fold (ingest_snapshot ?i decisions ?ordered) (snapshots_of raw) ?st3)
      (observes ?i (concat (map (\<lambda>(snapshot, _). rs_hits snapshot) (snapshots_of raw)))
        (\<lambda>d. concat (map (\<lambda>x. (\<lambda>(snapshot, _). snapshot_vectors decisions (rs_decisions snapshot)) x d) (snapshots_of raw))) ?st3)"
    by (rule observes_try_fold[OF ready]) (auto intro: ingest_snapshot_observes)
  show ?thesis unfolding ingest_raw_def Let_def
  proof (rule safe_rbind[OF 1], rule safe_rbind)
    fix st4 assume o4: "observes ?i (concat (map (\<lambda>(snapshot, _). rs_hits snapshot) (snapshots_of raw)))
        (\<lambda>d. concat (map (\<lambda>x. (\<lambda>(snapshot, _). snapshot_vectors decisions (rs_decisions snapshot)) x d) (snapshots_of raw))) ?st3 st4"
    show "safe (try_fold (ingest_server ?i decisions ?ordered) (rt_server raw) st4)
        (observes ?i (concat (map record_hits (rt_server raw)))
          (\<lambda>d. concat (map (\<lambda>record. record_vectors decisions record d) (rt_server raw))) st4)"
      by (rule observes_try_fold[OF observes_ready[OF ready o4]]) (rule ingest_server_observes)
    fix st5 assume "observes ?i (concat (map record_hits (rt_server raw)))
          (\<lambda>d. concat (map (\<lambda>record. record_vectors decisions record d) (rt_server raw))) st4 st5"
    from observes_trans[OF o4 this]
    have o5: "observes ?i (hits_of raw) (vectors_of decisions raw) ?st3 st5"
      unfolding hits_of_def vectors_of_def by (simp add: case_prod_unfold)
    then have "view_inv (leave_test ?i st5)" using ready
      by (intro leave_test_inv) (auto simp: observes_def ready_def)
    moreover have "hit_tests (leave_test ?i st5) = hit_tests st5" "seen (leave_test ?i st5) d = seen st5 d"
      "seen_by (leave_test ?i st5) d = seen_by st5 d" "vs_phases (leave_test ?i st5) = vs_phases st5"
      "dom (vs_tests (leave_test ?i st5)) = insert ?i (dom (vs_tests st5))" for d
      by (simp_all add: leave_test_def hit_tests_def seen_def seen_by_def)
    ultimately show "safe (Inr (leave_test ?i st5)) (adds_record decisions raw st)"
      using o5 same dom keys by (simp add: adds_record_def observes_def)
  qed
qed

definition reads_run :: "string set \<Rightarrow> raw_test_result list \<Rightarrow> view_state \<Rightarrow> bool" where
  "reads_run decisions raws st \<longleftrightarrow> view_inv st
     \<and> hit_tests st = {(h, raw_test_id raw) |h raw. raw \<in> set raws \<and> h \<in> set (hits_of raw)}
     \<and> dom (vs_tests st) = raw_test_id ` set raws
     \<and> fst ` set (vs_phases st) = {cp_id phase |phase raw. raw \<in> set raws \<and> phase \<in> set (rt_phases raw)}
     \<and> (\<forall>d. seen st d = fold note_vector (concat (map (\<lambda>raw. vectors_of decisions raw d) raws)) []
          \<and> seen_by st d = {(v, raw_test_id raw) |v raw. raw \<in> set raws \<and> v \<in> set (vectors_of decisions raw d)})"

lemma ingest_reads: "safe (ingest decisions raws) (reads_run decisions raws)"
proof (induction raws rule: rev_induct)
  case Nil
  show ?case using empty_state_inv
    by (simp add: ingest_def reads_run_def hit_tests_def seen_def seen_by_def vector_tests_def listed_def)
      (simp add: empty_state_def)
next
  case (snoc raw raws)
  have "safe (rbind (ingest decisions raws) (try_fold (ingest_raw decisions) [raw])) (reads_run decisions (raws @ [raw]))"
  proof (rule safe_rbind[OF snoc])
    fix st assume st: "reads_run decisions raws st"
    then have "view_inv st" by (simp add: reads_run_def)
    then have "safe (ingest_raw decisions raw st) (adds_record decisions raw st)" by (rule ingest_raw_adds)
    then have "safe (ingest_raw decisions raw st) (reads_run decisions (raws @ [raw]))"
      by (rule safe_mono) (use st in \<open>auto simp: reads_run_def adds_record_def\<close>)
    then show "safe (try_fold (ingest_raw decisions) [raw] st) (reads_run decisions (raws @ [raw]))"
      by (cases "ingest_raw decisions raw st") (auto simp: safe_def)
  qed
  then show ?case by (simp only: ingest_def try_fold_append)
qed

text \<open>The vectors the code indexes, and that the definitions here index with no branch for a panic: every
  number a table of references, a test, a phase or an observation holds is within the list it indexes, and
  every test and phase a relation numbers is registered. This holds of the state after every record, a
  prefix of the run being a run; between the steps of a record it is the invariant each step keeps.\<close>

lemma indices_in_range:
  assumes "ingest decisions raws = Inr st"
  shows "r \<in> {vs_tests_by_hit st, vs_phases_by_hit st, vs_explicit_phases_by_hit st} \<Longrightarrow>
      length (rf_by_obligation r) \<le> length (hi_names (vs_hit_ids st))
      \<and> (\<forall>number. rf_last r = Some number \<longrightarrow> number < length (rf_names r))
      \<and> (\<forall>reached \<in> set (rf_by_obligation r). \<forall>number \<in> set reached. number < length (rf_names r))"
    and "hi_numbers (vs_hit_ids st) hit = Some number \<Longrightarrow> number < length (hi_names (vs_hit_ids st))"
    and "vs_tests st i = Some test \<Longrightarrow> hit_index \<in> set (mt_hits test) \<Longrightarrow> hit_index < length (hi_names (vs_hit_ids st))"
    and "(i, phase) \<in> set (vs_phases st) \<Longrightarrow> hit_index \<in> set (mh_hits phase) \<Longrightarrow> hit_index < length (hi_names (vs_hit_ids st))"
    and "vs_indexes st d = Some indexes \<Longrightarrow> indexes (vector_key v) = Some index \<Longrightarrow> index < length (listed (vs_vectors st) d)"
    and "observation \<in> set (listed (vs_vectors st) d) \<Longrightarrow>
      list_all (\<lambda>number. number < length (rf_names (vs_tests_by_hit st))) (mb_tests observation)
      \<and> list_all (\<lambda>number. number < length (rf_names (vs_phases_by_hit st))) (mb_phases observation)
      \<and> list_all (\<lambda>number. number < length (rf_names (vs_explicit_phases_by_hit st))) (mb_explicit_phases observation)"
    and "list_all (\<lambda>number. number < length (rf_names (vs_tests_by_hit st))) (listed (vs_tests_by_decision st) d)"
    and "set (rf_names (vs_tests_by_hit st)) \<subseteq> dom (vs_tests st) \<and> set (vs_test_order st) = dom (vs_tests st)
      \<and> set (rf_names (vs_phases_by_hit st)) \<union> set (rf_names (vs_explicit_phases_by_hit st)) \<subseteq> fst ` set (vs_phases st)"
proof -
  have inv: "view_inv st" using ingest_reads[of decisions raws] assms by (simp add: safe_def reads_run_def)
  note parts = view_invD[OF inv]
  show "length (rf_by_obligation r) \<le> length (hi_names (vs_hit_ids st))
      \<and> (\<forall>number. rf_last r = Some number \<longrightarrow> number < length (rf_names r))
      \<and> (\<forall>reached \<in> set (rf_by_obligation r). \<forall>number \<in> set reached. number < length (rf_names r))"
    if "r \<in> {vs_tests_by_hit st, vs_phases_by_hit st, vs_explicit_phases_by_hit st}"
  proof -
    have "relation_ok r (vs_hit_ids st)" using that parts(1-3) by auto
    then show ?thesis by (simp add: relation_ok_def references_inv_def)
  qed
  show "number < length (hi_names (vs_hit_ids st))" if "hi_numbers (vs_hit_ids st) hit = Some number"
    using parts(1) that by (auto simp: relation_ok_def hits_inv_def dest: numbers_Some)
  show "hit_index < length (hi_names (vs_hit_ids st))" if "vs_tests st i = Some test" "hit_index \<in> set (mt_hits test)"
    using parts(7) that by (auto simp: hits_ok_def below_def list_all_iff)
  show "hit_index < length (hi_names (vs_hit_ids st))" if "(i, phase) \<in> set (vs_phases st)" "hit_index \<in> set (mh_hits phase)"
    using parts(7) that by (force simp: hits_ok_def below_def list_all_iff)
  show "index < length (listed (vs_vectors st) d)" if "vs_indexes st d = Some indexes" "indexes (vector_key v) = Some index"
    using parts(4) that by (simp add: indexes_ok_def)
  show "list_all (\<lambda>number. number < length (rf_names (vs_tests_by_hit st))) (mb_tests observation)
      \<and> list_all (\<lambda>number. number < length (rf_names (vs_phases_by_hit st))) (mb_phases observation)
      \<and> list_all (\<lambda>number. number < length (rf_names (vs_explicit_phases_by_hit st))) (mb_explicit_phases observation)"
    if "observation \<in> set (listed (vs_vectors st) d)"
    using parts(5) that by (simp add: numbers_ok_def observation_below_def below_def list_all_iff)
  show "list_all (\<lambda>number. number < length (rf_names (vs_tests_by_hit st))) (listed (vs_tests_by_decision st) d)"
    using parts(5) by (simp add: numbers_ok_def below_def)
  show "set (rf_names (vs_tests_by_hit st)) \<subseteq> dom (vs_tests st) \<and> set (vs_test_order st) = dom (vs_tests st)
      \<and> set (rf_names (vs_phases_by_hit st)) \<union> set (rf_names (vs_explicit_phases_by_hit st)) \<subseteq> fst ` set (vs_phases st)"
    using parts(6) by (simp add: names_ok_def)
qed

subsection \<open>When reading succeeds\<close>

definition succeeds :: "'e + 'a \<Rightarrow> bool" where
  "succeeds m \<longleftrightarrow> (\<exists>x. m = Inr x)"

lemma succeeds_simps [simp]: "succeeds (Inr x)" "\<not> succeeds (Inl e)"
  by (simp_all add: succeeds_def)

lemma succeeds_rbind: "succeeds (rbind m f) \<longleftrightarrow> (\<exists>x. m = Inr x \<and> succeeds (f x))"
  by (cases m) auto

lemma succeeds_try_fold:
  assumes "J s" and "\<And>x s. x \<in> set xs \<Longrightarrow> J s \<Longrightarrow> safe (f x s) J \<and> (succeeds (f x s) \<longleftrightarrow> ok x)"
  shows "succeeds (try_fold f xs s) \<longleftrightarrow> (\<forall>x \<in> set xs. ok x)"
  using assms
proof (induction xs arbitrary: s)
  case (Cons x xs)
  have x: "safe (f x s) J" "succeeds (f x s) \<longleftrightarrow> ok x" using Cons.prems by simp_all
  show ?case
  proof (cases "f x s")
    case (Inr t)
    then have "J t" using x(1) by simp
    then have "succeeds (try_fold f xs t) \<longleftrightarrow> (\<forall>x \<in> set xs. ok x)" using Cons.IH Cons.prems(2) by simp
    then show ?thesis using Inr x(2) by simp
  qed (use x(2) in simp)
qed simp

definition with_phases :: "string set \<Rightarrow> view_state \<Rightarrow> bool" where
  "with_phases ps st \<longleftrightarrow> view_inv st \<and> fst ` set (vs_phases st) = ps"

lemma keeps_with_phases: "with_phases ps st \<Longrightarrow> safe m (keeps st) \<Longrightarrow> safe m (with_phases ps)"
  by (rule safe_mono) (auto simp: with_phases_def keeps_def)

lemma phase_vector_succeeds:
  assumes "view_inv st"
  shows "succeeds (phase_vector phase_id explicit d v st)"
proof -
  have "view_inv (insert_phase_vector phase_id d v st)" by (rule keeps_inv[OF keeps_insert_phase_vector[OF assms]])
  from observation_of_safe[OF this, of d v]
  show ?thesis
    by (cases "observation_of d v (insert_phase_vector phase_id d v st)")
      (auto simp: phase_vector_def Let_def observation_of_def expect_def ok_or_def split: option.splits)
qed

definition event_ok :: "string set \<Rightarrow> coverage_phase list \<Rightarrow> runtime_event \<Rightarrow> bool" where
  "event_ok ps ordered event \<longleftrightarrow> (case correlate_event event ordered of None \<Rightarrow> True
     | Some phase_id \<Rightarrow> phase_id \<in> ps \<longrightarrow> re_event_type event = ''hit''
         \<or> (re_event_type event = ''decision'' \<and> re_vector event \<noteq> None))"

lemma ingest_event_succeeds:
  assumes "with_phases ps st"
  shows "succeeds (ingest_event ordered event st) \<longleftrightarrow> event_ok ps ordered event"
proof (cases "correlate_event event ordered")
  case (Some phase_id)
  have inv: "view_inv st" "map_of (vs_phases st) phase_id = None \<longleftrightarrow> phase_id \<notin> ps"
    using assms by (simp_all add: with_phases_def map_of_eq_None_iff)
  have "view_inv (modify_phase phase_id (count_events b x n) st)" for b x n
    by (rule keeps_inv[OF keeps_count_events[OF inv(1)]])
  then have "succeeds (phase_vector phase_id y d v (modify_phase phase_id (count_events b x n) st))" for y d v b x n
    by (rule phase_vector_succeeds)
  then show ?thesis using Some inv(2)
    by (auto simp: ingest_event_def event_ok_def Let_def split: option.splits)
qed (simp add: ingest_event_def event_ok_def)

lemma snapshot_phase_succeeds:
  assumes "view_inv st"
  shows "succeeds (snapshot_phase snapshot browser st)"
proof -
  have "safe (snapshot_phase snapshot browser st) (keeps st)" by (rule snapshot_phase_keeps[OF assms])
  moreover have "snapshot_phase snapshot browser st \<noteq> Inl (Returned e)" for e
  proof -
    have pv: "phase_vector p x d v s \<noteq> Inl (Returned e)" for p x d v s
      by (auto simp: phase_vector_def Let_def observation_of_def expect_def ok_or_def split: option.splits)
    have tf: "try_fold f xs s \<noteq> Inl (Returned e)" if "\<And>x s. f x s \<noteq> Inl (Returned e)"
      for f and xs :: "'b list" and s :: view_state
      using that by (induction xs arbitrary: s) (auto simp: rbind_Inl_iff)
    have "try_fold (phase_vector p x d) vs s \<noteq> Inl (Returned e)" for p x d vs s by (rule tf) (rule pv)
    then have "try_fold (\<lambda>decision. try_fold (phase_vector p True (ds_id decision)) (ds_vectors decision)) ds s
        \<noteq> Inl (Returned e)" for p ds s
      by (induction ds arbitrary: s) (auto simp: rbind_Inl_iff)
    then show ?thesis by (auto simp: snapshot_phase_def Let_def split: option.splits)
  qed
  ultimately show ?thesis by (cases "snapshot_phase snapshot browser st"; cases "projl (snapshot_phase snapshot browser st)") auto
qed

lemma ingest_snapshot_succeeds:
  assumes "ready i st" "fst ` set (vs_phases st) = ps"
  shows "succeeds (ingest_snapshot i decisions ordered (snapshot, browser) st)
     \<longleftrightarrow> (\<forall>event \<in> set (rs_events snapshot). event_ok ps ordered event)"
proof -
  let ?st1 = "fold (ingest_decision i decisions) (rs_decisions snapshot) st"
  let ?st2 = "fold (ingest_hit i) (rs_hits snapshot) ?st1"
  have o1: "observes i (concat (map (\<lambda>_. []) (rs_decisions snapshot)))
     (\<lambda>d. concat (map (\<lambda>x. if d = ds_id x \<and> ds_id x \<in> decisions then ds_vectors x else []) (rs_decisions snapshot))) st ?st1"
    by (rule observes_fold[OF assms(1)]) (rule ingest_decision_observes)
  have "observes i (concat (map (\<lambda>h. [h]) (rs_hits snapshot))) (\<lambda>d. concat (map (\<lambda>_. []) (rs_hits snapshot))) ?st1 ?st2"
    by (rule observes_fold[OF observes_ready[OF assms(1) o1]]) (rule ingest_hit_observes)
  then have J: "with_phases ps ?st2" using assms(2) o1 by (simp add: with_phases_def observes_def)
  have event: "safe (ingest_event ordered e s) (with_phases ps)" if "with_phases ps s" for e s
    by (rule keeps_with_phases[OF that ingest_event_keeps]) (use that in \<open>simp add: with_phases_def\<close>)
  have "succeeds (try_fold (ingest_event ordered) (rs_events snapshot) ?st2)
      \<longleftrightarrow> (\<forall>event \<in> set (rs_events snapshot). event_ok ps ordered event)"
    by (rule succeeds_try_fold[where J = "with_phases ps", OF J]) (use event ingest_event_succeeds in blast)
  moreover have "safe (try_fold (ingest_event ordered) (rs_events snapshot) ?st2) (keeps ?st2)"
    by (rule keeps_try_fold) (use J ingest_event_keeps keeps_inv in \<open>auto simp: with_phases_def\<close>)
  then have "succeeds (snapshot_phase snapshot browser s)"
    if "try_fold (ingest_event ordered) (rs_events snapshot) ?st2 = Inr s" for s
    using that snapshot_phase_succeeds keeps_inv by fastforce
  ultimately show ?thesis unfolding ingest_snapshot_def by (auto simp: Let_def succeeds_rbind) (auto simp: succeeds_def)
qed

definition record_ok :: "server_record \<Rightarrow> bool" where
  "record_ok record \<longleftrightarrow> (sr_record_type record = ''decision'' \<and> sr_id record \<noteq> None \<and> sr_vector record \<noteq> None)
     \<or> (sr_record_type record = ''hit'' \<and> sr_id record \<noteq> None)"

lemma server_event_no_error: "server_event ordered record d decision st \<noteq> Inl (Returned e)"
  by (auto simp: server_event_def Let_def observation_of_def expect_def ok_or_def rbind_Inl_iff
      split: option.splits)

lemma ingest_server_succeeds:
  assumes "ready i st"
  shows "succeeds (ingest_server i decisions ordered record st) \<longleftrightarrow> record_ok record"
proof
  assume "succeeds (ingest_server i decisions ordered record st)"
  then show "record_ok record"
    by (auto simp: ingest_server_def record_ok_def succeeds_rbind ok_or_Inr_iff split: if_splits)
next
  assume ok: "record_ok record"
  have "ingest_server i decisions ordered record st \<noteq> Inl (Returned e)" for e
    using ok server_event_no_error
    by (auto simp: ingest_server_def record_ok_def rbind_Inl_iff ok_or_Inl_iff)
  moreover have "ingest_server i decisions ordered record st \<noteq> Inl Panicked"
    using ingest_server_observes[OF assms, of decisions ordered "record"] by auto
  ultimately show "succeeds (ingest_server i decisions ordered record st)"
    by (metis stop.exhaust succeeds_def sum.exhaust)
qed

definition raw_ok :: "string set \<Rightarrow> raw_test_result \<Rightarrow> bool" where
  "raw_ok ps raw \<longleftrightarrow>
     (\<forall>(snapshot, browser) \<in> set (snapshots_of raw). \<forall>event \<in> set (rs_events snapshot).
        event_ok ps (sort_key cp_started_at_ms (rt_phases raw)) event)
     \<and> (\<forall>record \<in> set (rt_server raw). record_ok record)"

fun raws_ok :: "string set \<Rightarrow> raw_test_result list \<Rightarrow> bool" where
  "raws_ok ps [] \<longleftrightarrow> True"
| "raws_ok ps (raw # raws) \<longleftrightarrow>
     raw_ok (cp_id ` set (rt_phases raw) \<union> ps) raw \<and> raws_ok (cp_id ` set (rt_phases raw) \<union> ps) raws"

lemma observes_stays:
  "ready i st \<and> fst ` set (vs_phases st) = ps \<Longrightarrow> safe m (observes i hs vs st)
     \<Longrightarrow> safe m (\<lambda>st. ready i st \<and> fst ` set (vs_phases st) = ps)"
  by (rule safe_mono) (auto simp: observes_def ready_def)

lemma ingest_raw_succeeds:
  assumes "with_phases ps st"
  shows "succeeds (ingest_raw decisions raw st) \<longleftrightarrow> raw_ok (cp_id ` set (rt_phases raw) \<union> ps) raw"
proof -
  let ?i = "raw_test_id raw"
  let ?ordered = "sort_key cp_started_at_ms (rt_phases raw)"
  let ?st1 = "enter_test raw st"
  let ?st3 = "register_phases ?i ?ordered (?st1\<lparr>vs_test := fold_record raw (vs_test ?st1)\<rparr>)"
  let ?ps = "cp_id ` set (rt_phases raw) \<union> ps"
  let ?J = "\<lambda>st. ready ?i st \<and> fst ` set (vs_phases st) = ?ps"
  have inv: "view_inv st" "fst ` set (vs_phases st) = ps" using assms by (simp_all add: with_phases_def)
  have e: "view_inv ?st1" "?i \<in> dom (vs_tests ?st1)" using enter_test_inv[OF inv(1)] by blast+
  have J: "?J ?st3"
    using register_phases_inv[OF fold_record_inv[OF e(1)]] e(2) inv(2)
    by (simp add: ready_def register_phases_def keys_update_all)
  have snapshots: "safe (ingest_snapshot ?i decisions ?ordered x s) ?J
      \<and> (succeeds (ingest_snapshot ?i decisions ?ordered x s) \<longleftrightarrow>
          (\<forall>event \<in> set (rs_events (fst x)). event_ok ?ps ?ordered event))" if "?J s" for x s
    using observes_stays[OF that ingest_snapshot_observes] ingest_snapshot_succeeds[of ?i s ?ps] that
    by (cases x) auto
  have 1: "succeeds (try_fold (ingest_snapshot ?i decisions ?ordered) (snapshots_of raw) ?st3) \<longleftrightarrow>
      (\<forall>x \<in> set (snapshots_of raw). \<forall>event \<in> set (rs_events (fst x)). event_ok ?ps ?ordered event)"
    by (rule succeeds_try_fold[where J = ?J, OF J]) (rule snapshots)
  have J': "?J s" if "try_fold (ingest_snapshot ?i decisions ?ordered) (snapshots_of raw) ?st3 = Inr s" for s
  proof (rule try_fold_invariant[where P = ?J, OF that J])
    fix x s t assume "?J s" "ingest_snapshot ?i decisions ?ordered x s = Inr t"
    then show "?J t" using snapshots[of s x] by simp
  qed
  have 2: "succeeds (try_fold (ingest_server ?i decisions ?ordered) (rt_server raw) s) \<longleftrightarrow>
      (\<forall>x \<in> set (rt_server raw). record_ok x)" if "?J s" for s
  proof (rule succeeds_try_fold[where J = ?J, OF that])
    fix x s assume "?J s"
    then have J: "ready ?i s" by simp
    show "safe (ingest_server ?i decisions ?ordered x s) ?J
        \<and> (succeeds (ingest_server ?i decisions ?ordered x s) \<longleftrightarrow> record_ok x)"
      by (rule conjI[OF observes_stays[OF \<open>?J s\<close> ingest_server_observes[OF J]] ingest_server_succeeds[OF J]])
  qed
  show ?thesis unfolding ingest_raw_def Let_def raw_ok_def
    using 1 2 J' by (auto simp: succeeds_rbind case_prod_unfold) (auto simp: succeeds_def)
qed

lemma ingest_succeeds: "succeeds (ingest decisions raws) \<longleftrightarrow> raws_ok {} raws"
proof -
  have "succeeds (try_fold (ingest_raw decisions) raws st) \<longleftrightarrow> raws_ok ps raws" if "with_phases ps st" for st ps
    using that
  proof (induction raws arbitrary: st ps)
    case (Cons raw raws)
    let ?ps = "cp_id ` set (rt_phases raw) \<union> ps"
    have "safe (ingest_raw decisions raw st) (with_phases ?ps)"
      by (rule safe_mono[OF ingest_raw_adds]) (use Cons.prems in \<open>auto simp: with_phases_def adds_record_def\<close>)
    then have "ingest_raw decisions raw st = Inr s \<Longrightarrow> with_phases ?ps s" for s by simp
    then show ?case using ingest_raw_succeeds[OF Cons.prems, of decisions raw] Cons.IH[of ?ps]
      by (auto simp: succeeds_rbind) (auto simp: succeeds_def)
  qed simp
  moreover have "with_phases {} empty_state" using empty_state_inv by (simp add: with_phases_def) (simp add: empty_state_def)
  ultimately show ?thesis by (simp add: ingest_def)
qed

text \<open>Fewer records and fewer phases give fewer reasons to stop.\<close>

lemma raw_ok_fewer: "raw_ok ps raw \<Longrightarrow> qs \<subseteq> ps \<Longrightarrow> raw_ok qs raw"
  unfolding raw_ok_def event_ok_def by (fastforce split: option.splits)

lemma raws_ok_fewer: "raws_ok ps raws \<Longrightarrow> qs \<subseteq> ps \<Longrightarrow> raws_ok qs (filter keep raws)"
proof (induction raws arbitrary: ps qs)
  case (Cons raw raws)
  let ?own = "cp_id ` set (rt_phases raw)"
  have "raws_ok (?own \<union> qs) (filter keep raws)" "raws_ok qs (filter keep raws)"
    by (rule Cons.IH[of "?own \<union> ps"]; use Cons.prems in auto)+
  moreover have "raw_ok (?own \<union> qs) raw"
    using raw_ok_fewer[of "?own \<union> ps" raw "?own \<union> qs"] Cons.prems by auto
  ultimately show ?case by simp
qed simp

lemma ingest_fewer: "succeeds (ingest decisions raws) \<Longrightarrow> succeeds (ingest decisions (filter keep raws))"
  using raws_ok_fewer by (simp add: ingest_succeeds)

end
