(* ===== verification/OwnedTransport.thy ===== *)
theory OwnedTransport
  imports Mcdc
begin

section \<open>What a Supercov-owned runtime wrote (owned\_evidence.rs, read\_evidence)\<close>

text \<open>
  Go, Java and Kotlin runtimes write one transport: numbers of eight bytes, least first, and texts
  after their lengths. Reading it is a parser over a cursor; a file that ends early is an error, never a
  shorter run. \<open>usize\<close> is 64 bits. A capacity reserved ahead of a loop changes no value and is left out.
\<close>

subsection \<open>UTF-8\<close>

text \<open>\<open>String::from_utf8\<close>: the well-formed byte sequences of the Unicode standard.\<close>

definition continuation :: "char \<Rightarrow> bool" where
  "continuation c \<longleftrightarrow> 128 \<le> code c \<and> code c < 192"

fun valid_utf8 :: "string \<Rightarrow> bool" where
  "valid_utf8 [] \<longleftrightarrow> True"
| "valid_utf8 (a # s) \<longleftrightarrow>
     (if code a < 128 then valid_utf8 s
      else case s of
        [] \<Rightarrow> False
      | b # s \<Rightarrow>
          if 194 \<le> code a \<and> code a < 224 then continuation b \<and> valid_utf8 s
          else (case s of
              [] \<Rightarrow> False
            | c # s \<Rightarrow>
                if 224 \<le> code a \<and> code a < 240
                then continuation b \<and> continuation c \<and> (code a = 224 \<longrightarrow> 160 \<le> code b)
                  \<and> (code a = 237 \<longrightarrow> code b < 160) \<and> valid_utf8 s
                else (case s of
                    [] \<Rightarrow> False
                  | d # s \<Rightarrow>
                      240 \<le> code a \<and> code a < 245 \<and> continuation b \<and> continuation c \<and> continuation d
                      \<and> (code a = 240 \<longrightarrow> 144 \<le> code b) \<and> (code a = 244 \<longrightarrow> code b < 144) \<and> valid_utf8 s)))"

subsection \<open>The cursor\<close>

datatype owned_error = TruncatedEvidence string

fun display_owned_error :: "owned_error \<Rightarrow> string" where
  "display_owned_error (TruncatedEvidence part) = ''Coverage evidence ended in the middle of its '' @ part"

record cursor =
  cu_bytes :: string
  cu_offset :: nat

type_synonym 'a cursor_fn = "cursor \<Rightarrow> owned_error + 'a \<times> cursor"

text \<open>\<open>let a = f(&mut cursor)?; g(a)\<close>, \<open>Ok(a)\<close>, and a counted loop.\<close>

definition and_then :: "'a cursor_fn \<Rightarrow> ('a \<Rightarrow> 'b cursor_fn) \<Rightarrow> 'b cursor_fn" where
  "and_then f g = (\<lambda>cursor. rbind (f cursor) (\<lambda>(a, cursor). g a cursor))"

definition finished :: "'a \<Rightarrow> 'a cursor_fn" where
  "finished a = (\<lambda>cursor. Inr (a, cursor))"

primrec read_times :: "nat \<Rightarrow> 'a cursor_fn \<Rightarrow> 'a list cursor_fn" where
  "read_times 0 f = finished []"
| "read_times (Suc n) f = and_then f (\<lambda>a. and_then (read_times n f) (\<lambda>as. finished (a # as)))"

definition u64_from_le_bytes :: "string \<Rightarrow> u64" where
  "u64_from_le_bytes bytes = of_nat (foldr (\<lambda>byte n. code byte + 256 * n) bytes 0)"

definition read_u64 :: "string \<Rightarrow> u64 cursor_fn" where
  "read_u64 part = (\<lambda>cursor.
     let end = cu_offset cursor + 8 in
     if end \<le> length (cu_bytes cursor)
     then Inr (u64_from_le_bytes (take 8 (drop (cu_offset cursor) (cu_bytes cursor))), cursor\<lparr>cu_offset := end\<rparr>)
     else Inl (TruncatedEvidence part))"

definition read_text :: "nat \<Rightarrow> string \<Rightarrow> string cursor_fn" where
  "read_text len part = (\<lambda>cursor.
     let end = cu_offset cursor + len in
     if 2 ^ 64 \<le> end then Inl (TruncatedEvidence part)
     else if end \<le> length (cu_bytes cursor)
     then let slice = take len (drop (cu_offset cursor) (cu_bytes cursor))
       in if valid_utf8 slice then Inr (slice, cursor\<lparr>cu_offset := end\<rparr>) else Inl (TruncatedEvidence part)
     else Inl (TruncatedEvidence part))"

subsection \<open>The evidence\<close>

record packed_vector =
  pv_decision :: u32
  pv_key :: u64

record owned_test_evidence =
  ot_name :: string
  ot_status :: string
  ot_runner :: string
  ot_tags :: "string list"
  ot_unattributed :: bool
  ot_probes :: "(u32 \<times> u32) list"
  ot_vectors :: "packed_vector list"

record owned_evidence =
  oe_global :: "u32 list"
  oe_tests :: "owned_test_evidence list"
  oe_widths :: "u8 list"
  oe_decision_vectors :: "u64 list list"

text \<open>A length, then as many bytes of text.\<close>

definition read_sized_text :: "string \<Rightarrow> string cursor_fn" where
  "read_sized_text part = and_then (read_u64 part) (\<lambda>len. read_text (unat len) part)"

definition push_tag :: "string \<Rightarrow> string list \<Rightarrow> string list" where
  "push_tag tag tags = (if tag \<in> set tags then tags else tags @ [tag])"

definition read_probe :: "(u32 \<times> u32) cursor_fn" where
  "read_probe = and_then (read_u64 ''test probes'') (\<lambda>index. and_then (read_u64 ''test probes'') (\<lambda>observed.
     finished (ucast index, ucast observed)))"

definition read_vector :: "packed_vector cursor_fn" where
  "read_vector = and_then (read_u64 ''test vectors'') (\<lambda>decision. and_then (read_u64 ''test vectors'') (\<lambda>key.
     finished \<lparr>pv_decision = ucast decision, pv_key = key\<rparr>))"

definition read_test :: "owned_test_evidence cursor_fn" where
  "read_test =
     and_then (read_sized_text ''test name'') (\<lambda>name.
     and_then (read_sized_text ''test status'') (\<lambda>status.
     and_then (read_u64 ''test attribution'') (\<lambda>unattributed.
     and_then (read_sized_text ''test runner'') (\<lambda>runner.
     and_then (read_u64 ''test tags'') (\<lambda>tag_count.
     and_then (read_times (unat tag_count) (read_sized_text ''test tags'')) (\<lambda>tags.
     and_then (read_u64 ''test probes'') (\<lambda>hits.
     and_then (read_times (unat hits) read_probe) (\<lambda>probes.
     and_then (read_u64 ''test vectors'') (\<lambda>vector_count.
     and_then (read_times (unat vector_count) read_vector) (\<lambda>vectors.
     finished \<lparr>ot_name = name, ot_status = status, ot_runner = runner, ot_tags = fold push_tag tags [],
       ot_unattributed = (unattributed \<noteq> 0), ot_probes = fold (\<lambda>(index, observed). tree_insert index observed) probes [],
       ot_vectors = vectors\<rparr>))))))))))"

definition read_decision :: "(u8 \<times> u64 list) cursor_fn" where
  "read_decision = and_then (read_u64 ''decision table'') (\<lambda>width. and_then (read_u64 ''decision table'') (\<lambda>keys.
     and_then (read_times (unat keys) (read_u64 ''decision table'')) (\<lambda>seen. finished (ucast width, seen))))"

definition read_all :: "owned_evidence cursor_fn" where
  "read_all =
     and_then (read_u64 ''probe totals'') (\<lambda>probe_count.
     and_then (read_times (unat probe_count) (read_u64 ''probe totals'')) (\<lambda>totals.
     and_then (read_u64 ''test count'') (\<lambda>test_count.
     and_then (read_times (unat test_count) read_test) (\<lambda>tests.
     and_then (read_u64 ''decision table'') (\<lambda>decision_count.
     and_then (read_times (unat decision_count) read_decision) (\<lambda>decisions.
     finished \<lparr>oe_global = map ucast totals, oe_tests = tests, oe_widths = map fst decisions,
       oe_decision_vectors = map snd decisions\<rparr>))))))"

definition read_owned_evidence :: "string \<Rightarrow> owned_error + owned_evidence" where
  "read_owned_evidence bytes = rbind (read_all \<lparr>cu_bytes = bytes, cu_offset = 0\<rparr>) (\<lambda>(evidence, _). Inr evidence)"

subsection \<open>What a runtime writes\<close>

definition le_bytes :: "nat \<Rightarrow> string" where
  "le_bytes n = map (\<lambda>i. char_of (n div 256 ^ i)) [0..<8]"

definition write_text :: "string \<Rightarrow> string" where
  "write_text s = le_bytes (length s) @ s"

definition write_list :: "('a \<Rightarrow> string) \<Rightarrow> 'a list \<Rightarrow> string" where
  "write_list f xs = le_bytes (length xs) @ concat (map f xs)"

definition write_test :: "owned_test_evidence \<Rightarrow> string" where
  "write_test t = write_text (ot_name t) @ write_text (ot_status t) @ le_bytes (if ot_unattributed t then 1 else 0)
     @ write_text (ot_runner t) @ write_list write_text (ot_tags t)
     @ write_list (\<lambda>(index, observed). le_bytes (unat index) @ le_bytes (unat observed)) (ot_probes t)
     @ write_list (\<lambda>v. le_bytes (unat (pv_decision v)) @ le_bytes (unat (pv_key v))) (ot_vectors t)"

definition write_evidence :: "owned_evidence \<Rightarrow> string" where
  "write_evidence e = write_list (\<lambda>total. le_bytes (unat total)) (oe_global e)
     @ write_list write_test (oe_tests e)
     @ write_list (\<lambda>(width, keys). le_bytes (unat width) @ write_list (\<lambda>key. le_bytes (unat key)) keys)
         (zip (oe_widths e) (oe_decision_vectors e))"

definition text_ok :: "string \<Rightarrow> bool" where
  "text_ok s \<longleftrightarrow> valid_utf8 s \<and> length s < 2 ^ 64"

definition test_ok :: "owned_test_evidence \<Rightarrow> bool" where
  "test_ok t \<longleftrightarrow> text_ok (ot_name t) \<and> text_ok (ot_status t) \<and> text_ok (ot_runner t)
     \<and> list_all text_ok (ot_tags t) \<and> distinct (ot_tags t) \<and> length (ot_tags t) < 2 ^ 64
     \<and> tree_map (ot_probes t) \<and> length (ot_probes t) < 2 ^ 64 \<and> length (ot_vectors t) < 2 ^ 64"

definition evidence_ok :: "owned_evidence \<Rightarrow> bool" where
  "evidence_ok e \<longleftrightarrow> length (oe_global e) < 2 ^ 64 \<and> length (oe_tests e) < 2 ^ 64 \<and> length (oe_widths e) < 2 ^ 64
     \<and> list_all test_ok (oe_tests e) \<and> length (oe_decision_vectors e) = length (oe_widths e)
     \<and> list_all (\<lambda>keys. length keys < 2 ^ 64) (oe_decision_vectors e)"

subsection \<open>Reading what was written\<close>

definition reads :: "'a cursor_fn \<Rightarrow> string \<Rightarrow> 'a \<Rightarrow> bool" where
  "reads f bytes a \<longleftrightarrow> (\<forall>pre rest. length pre + length bytes < 2 ^ 64 \<longrightarrow>
     f \<lparr>cu_bytes = pre @ bytes @ rest, cu_offset = length pre\<rparr>
       = Inr (a, \<lparr>cu_bytes = pre @ bytes @ rest, cu_offset = length pre + length bytes\<rparr>))"

lemma reads_done: "reads (finished a) [] a"
  by (simp add: reads_def finished_def)

lemma reads_then:
  assumes "reads f bytes a" "reads (g a) later b"
  shows "reads (and_then f g) (bytes @ later) b"
  unfolding reads_def
proof (intro allI impI)
  fix pre rest :: string
  assume len: "length pre + length (bytes @ later) < 2 ^ 64"
  have "f \<lparr>cu_bytes = pre @ bytes @ later @ rest, cu_offset = length pre\<rparr>
      = Inr (a, \<lparr>cu_bytes = pre @ bytes @ later @ rest, cu_offset = length pre + length bytes\<rparr>)"
    using assms(1) len unfolding reads_def by simp
  moreover have "g a \<lparr>cu_bytes = (pre @ bytes) @ later @ rest, cu_offset = length (pre @ bytes)\<rparr>
      = Inr (b, \<lparr>cu_bytes = (pre @ bytes) @ later @ rest, cu_offset = length (pre @ bytes) + length later\<rparr>)"
    using assms(2) len unfolding reads_def by (metis add.assoc length_append)
  ultimately show "and_then f g \<lparr>cu_bytes = pre @ (bytes @ later) @ rest, cu_offset = length pre\<rparr>
      = Inr (b, \<lparr>cu_bytes = pre @ (bytes @ later) @ rest, cu_offset = length pre + length (bytes @ later)\<rparr>)"
    by (simp add: and_then_def)
qed

lemma le_bytes_fold: "foldr (\<lambda>byte n. code byte + 256 * n) (map (\<lambda>i. char_of (n div 256 ^ i)) [0..<k]) 0 = n mod 256 ^ k"
proof (induction k arbitrary: n)
  case (Suc k)
  have "map (\<lambda>i. char_of (n div 256 ^ i)) [0..<Suc k]
      = char_of n # map (\<lambda>i. char_of ((n div 256) div 256 ^ i)) [0..<k]"
    by (simp add: upt_conv_Cons map_Suc_upt[symmetric] comp_def div_mult2_eq del: upt_Suc)
  then show ?case using Suc[of "n div 256"] by (simp add: mod_mult2_eq)
qed simp

lemma u64_le_bytes: "u64_from_le_bytes (le_bytes n) = of_nat n"
proof -
  have "u64_from_le_bytes (le_bytes n) = of_nat (n mod 256 ^ 8)"
    unfolding u64_from_le_bytes_def le_bytes_def le_bytes_fold ..
  also have "\<dots> = of_nat n" by (rule word_of_nat_eq_iff[THEN iffD2]) (simp add: take_bit_eq_mod)
  finally show ?thesis .
qed

lemma reads_u64: "reads (read_u64 part) (le_bytes n) (of_nat n)"
proof -
  have "length (le_bytes n) = 8" by (simp add: le_bytes_def)
  then show ?thesis by (simp add: reads_def read_u64_def Let_def u64_le_bytes)
qed

lemma unat_of_count: "n < 2 ^ 64 \<Longrightarrow> unat (of_nat n :: u64) = n"
  by (simp add: unsigned_of_nat take_bit_nat_eq_self)

lemma reads_text: "valid_utf8 s \<Longrightarrow> reads (read_text (length s) part) s s"
  by (simp add: reads_def read_text_def Let_def)

lemma reads_sized_text: "text_ok s \<Longrightarrow> reads (read_sized_text part) (write_text s) s"
  unfolding read_sized_text_def write_text_def
  by (rule reads_then[OF reads_u64]) (simp add: text_ok_def reads_text unat_of_count)

lemma reads_times:
  "(\<And>x. x \<in> set xs \<Longrightarrow> reads f (w x) (v x)) \<Longrightarrow> reads (read_times (length xs) f) (concat (map w xs)) (map v xs)"
proof (induction xs)
  case Nil
  show ?case by (simp add: reads_done)
next
  case (Cons x xs)
  have "reads (and_then (read_times (length xs) f) (\<lambda>as. finished (v x # as))) (concat (map w xs) @ []) (v x # map v xs)"
    by (rule reads_then[OF _ reads_done]) (use Cons in auto)
  then show ?case using reads_then[of f "w x" "v x"] Cons.prems by simp
qed

lemma reads_list:
  assumes "length xs < 2 ^ 64" "\<And>x. x \<in> set xs \<Longrightarrow> reads f (w x) (v x)" "reads (k (map v xs)) bytes r"
  shows "reads (and_then (read_u64 part) (\<lambda>n. and_then (read_times (unat n) f) k)) (write_list w xs @ bytes) r"
proof -
  have "reads (read_times (length xs) f) (concat (map w xs)) (map v xs)" using assms(2) by (rule reads_times)
  from reads_then[where g = k, OF this assms(3)]
  have "reads (and_then (read_times (unat (of_nat (length xs) :: u64)) f) k) (concat (map w xs) @ bytes) r"
    unfolding unat_of_count[OF assms(1)] .
  from reads_then[where g = "\<lambda>n. and_then (read_times (unat n) f) k", OF reads_u64 this]
  show ?thesis by (simp add: write_list_def)
qed

lemma narrowed [simp]: "(ucast (ucast w :: u64) :: u32) = w" "(ucast (ucast v :: u64) :: u8) = v"
  by (rule bit_word_eqI; auto simp: bit_simps dest: bit_imp_le_length)+

lemma reads_probe: "reads read_probe (le_bytes (unat i) @ le_bytes (unat m)) (i, m)"
proof -
  have "reads read_probe (le_bytes (unat i) @ le_bytes (unat m) @ []) (i, m)"
    unfolding read_probe_def
    by (rule reads_then[OF reads_u64], rule reads_then[OF reads_u64]) (use reads_done[of "(i, m)"] in simp)
  then show ?thesis by simp
qed

lemma reads_probe_pair: "reads read_probe (case p of (index, observed) \<Rightarrow> le_bytes (unat index) @ le_bytes (unat observed)) p"
  by (cases p) (simp add: reads_probe)

lemma reads_vector: "reads read_vector (le_bytes (unat (pv_decision v)) @ le_bytes (unat (pv_key v))) v"
proof -
  have "reads read_vector (le_bytes (unat (pv_decision v)) @ le_bytes (unat (pv_key v)) @ []) v"
    unfolding read_vector_def
    by (rule reads_then[OF reads_u64], rule reads_then[OF reads_u64]) (use reads_done[of v] in \<open>cases v; simp\<close>)
  then show ?thesis by simp
qed

lemma tree_of_tree_map: "tree_map m \<Longrightarrow> fold (\<lambda>(k, v). tree_insert k v) m [] = m"
proof (induction m rule: rev_induct)
  case (snoc kv m)
  obtain k v where kv: "kv = (k, v)" by fastforce
  have "tree_map m" "list_all (\<lambda>(k', _). k' < k) m"
    using snoc.prems by (auto simp: tree_map_def sorted_wrt_append list_all_iff kv)
  moreover have "list_all (\<lambda>(k', _). k' < k) m \<Longrightarrow> tree_insert k v m = m @ [(k, v)]" for m
    by (induction m) auto
  ultimately show ?case using snoc.IH kv by simp
qed simp

lemma push_tags: "distinct (acc @ tags) \<Longrightarrow> fold push_tag tags acc = acc @ tags"
  by (induction tags arbitrary: acc) (auto simp: push_tag_def)

lemma reads_test:
  assumes "test_ok t"
  shows "reads read_test (write_test t) t"
proof -
  have texts: "text_ok (ot_name t)" "text_ok (ot_status t)" "text_ok (ot_runner t)"
    "\<And>tag. tag \<in> set (ot_tags t) \<Longrightarrow> text_ok tag"
    and lengths: "length (ot_tags t) < 2 ^ 64" "length (ot_probes t) < 2 ^ 64" "length (ot_vectors t) < 2 ^ 64"
    and tags: "fold push_tag (ot_tags t) [] = ot_tags t"
    and probes: "fold (\<lambda>(index, observed). tree_insert index observed) (ot_probes t) [] = ot_probes t"
    using assms push_tags[of "[]" "ot_tags t"] tree_of_tree_map[of "ot_probes t"]
    by (auto simp: test_ok_def list_all_iff)
  have flag: "(of_nat (if ot_unattributed t then 1 else 0) :: u64) \<noteq> 0 \<longleftrightarrow> ot_unattributed t" by simp
  have "reads read_test (write_text (ot_name t) @ write_text (ot_status t) @ le_bytes (if ot_unattributed t then 1 else 0)
     @ write_text (ot_runner t) @ write_list write_text (ot_tags t)
     @ write_list (\<lambda>(index, observed). le_bytes (unat index) @ le_bytes (unat observed)) (ot_probes t)
     @ write_list (\<lambda>v. le_bytes (unat (pv_decision v)) @ le_bytes (unat (pv_key v))) (ot_vectors t) @ []) t"
    unfolding read_test_def
    apply (rule reads_then[OF reads_sized_text[OF texts(1)]])
    apply (rule reads_then[OF reads_sized_text[OF texts(2)]])
    apply (rule reads_then[OF reads_u64])
    apply (rule reads_then[OF reads_sized_text[OF texts(3)]])
    apply (rule reads_list[where v = "\<lambda>tag. tag"], rule lengths, rule reads_sized_text, erule texts)
    apply (rule reads_list[where v = "\<lambda>probe. probe" and w = "\<lambda>(index, observed). le_bytes (unat index) @ le_bytes (unat observed)"])
      apply (rule lengths)
     apply (rule reads_probe_pair)
    apply (rule reads_list[where v = "\<lambda>v. v"], rule lengths, rule reads_vector)
    using reads_done[of t] by (simp only: list.map_ident tags probes flag) (cases t; simp)
  then show ?thesis by (simp add: write_test_def)
qed

lemma reads_decision:
  assumes "length keys < 2 ^ 64"
  shows "reads read_decision (le_bytes (unat width) @ write_list (\<lambda>key. le_bytes (unat key)) keys) (width, keys)"
proof -
  have "reads read_decision (le_bytes (unat width) @ write_list (\<lambda>key. le_bytes (unat key)) keys @ []) (width, keys)"
    unfolding read_decision_def
    apply (rule reads_then[OF reads_u64])
    apply (rule reads_list[where v = "\<lambda>key. of_nat (unat key)"], rule assms, rule reads_u64)
    using reads_done[of "(width, keys)"] by simp
  then show ?thesis by simp
qed

lemma reads_decision_pair:
  "length (snd d) < 2 ^ 64 \<Longrightarrow> reads read_decision
     (case d of (width, keys) \<Rightarrow> le_bytes (unat width) @ write_list (\<lambda>key. le_bytes (unat key)) keys) d"
  by (cases d) (simp add: reads_decision)

lemma reads_all:
  assumes "evidence_ok e"
  shows "reads read_all (write_evidence e) e"
proof -
  have lengths: "length (oe_global e) < 2 ^ 64" "length (oe_tests e) < 2 ^ 64"
      "length (zip (oe_widths e) (oe_decision_vectors e)) < 2 ^ 64"
    and tests: "\<And>t. t \<in> set (oe_tests e) \<Longrightarrow> test_ok t"
    and keys: "\<And>d. d \<in> set (zip (oe_widths e) (oe_decision_vectors e)) \<Longrightarrow> length (snd d) < 2 ^ 64"
    and same: "length (oe_decision_vectors e) = length (oe_widths e)"
    using assms by (auto simp: evidence_ok_def list_all_iff dest: set_zip_rightD)
  have "reads read_all (write_list (\<lambda>total. le_bytes (unat total)) (oe_global e) @ write_list write_test (oe_tests e)
     @ write_list (\<lambda>(width, keys). le_bytes (unat width) @ write_list (\<lambda>key. le_bytes (unat key)) keys)
         (zip (oe_widths e) (oe_decision_vectors e)) @ []) e"
    unfolding read_all_def
    apply (rule reads_list[where v = "\<lambda>total. of_nat (unat total)"], rule lengths, rule reads_u64)
    apply (rule reads_list[where v = "\<lambda>t. t"], rule lengths, rule reads_test, erule tests)
    apply (rule reads_list[where v = "\<lambda>d. d" and w = "\<lambda>(width, keys). le_bytes (unat width) @ write_list (\<lambda>key. le_bytes (unat key)) keys"])
      apply (rule lengths)
     apply (rule reads_decision_pair, erule keys)
    using reads_done[of e] by (cases e) (use same in \<open>simp add: comp_def\<close>)
  then show ?thesis by (simp add: write_evidence_def)
qed

subsection \<open>More bytes change nothing that was read\<close>

named_theorems extends_intros \<open>parsers whose reading more bytes do not change\<close>

definition extends :: "'a cursor_fn \<Rightarrow> bool" where
  "extends f \<longleftrightarrow> (\<forall>bytes offset a cursor tail. offset \<le> length bytes
     \<longrightarrow> f \<lparr>cu_bytes = bytes, cu_offset = offset\<rparr> = Inr (a, cursor)
     \<longrightarrow> cu_bytes cursor = bytes \<and> cu_offset cursor \<le> length bytes
       \<and> f \<lparr>cu_bytes = bytes @ tail, cu_offset = offset\<rparr>
           = Inr (a, \<lparr>cu_bytes = bytes @ tail, cu_offset = cu_offset cursor\<rparr>))"

lemma extends_done [extends_intros]: "extends (finished a)"
  by (auto simp: extends_def finished_def)

lemma extends_then [extends_intros]:
  assumes f: "extends f" and g: "\<And>a. extends (g a)"
  shows "extends (and_then f g)"
  unfolding extends_def
proof (intro allI impI)
  fix bytes tail :: string and offset b cursor
  assume offset: "offset \<le> length bytes" and "and_then f g \<lparr>cu_bytes = bytes, cu_offset = offset\<rparr> = Inr (b, cursor)"
  then obtain a between where one: "f \<lparr>cu_bytes = bytes, cu_offset = offset\<rparr> = Inr (a, between)"
    and two: "g a between = Inr (b, cursor)"
    by (auto simp: and_then_def rbind_Inr_iff)
  have middle: "cu_bytes between = bytes" "cu_offset between \<le> length bytes"
    "f \<lparr>cu_bytes = bytes @ tail, cu_offset = offset\<rparr>
      = Inr (a, \<lparr>cu_bytes = bytes @ tail, cu_offset = cu_offset between\<rparr>)" for tail
    using f offset one unfolding extends_def by blast+
  have "between = \<lparr>cu_bytes = bytes, cu_offset = cu_offset between\<rparr>" using middle(1) by (cases between) simp
  then have two': "g a \<lparr>cu_bytes = bytes, cu_offset = cu_offset between\<rparr> = Inr (b, cursor)" using two by simp
  have "cu_bytes cursor = bytes \<and> cu_offset cursor \<le> length bytes
      \<and> g a \<lparr>cu_bytes = bytes @ tail, cu_offset = cu_offset between\<rparr>
          = Inr (b, \<lparr>cu_bytes = bytes @ tail, cu_offset = cu_offset cursor\<rparr>)"
    using g[of a] middle(2) two' unfolding extends_def by blast
  then show "cu_bytes cursor = bytes \<and> cu_offset cursor \<le> length bytes
      \<and> and_then f g \<lparr>cu_bytes = bytes @ tail, cu_offset = offset\<rparr>
          = Inr (b, \<lparr>cu_bytes = bytes @ tail, cu_offset = cu_offset cursor\<rparr>)"
    by (simp add: and_then_def middle(3))
qed

lemma extends_u64 [extends_intros]: "extends (read_u64 part)"
  by (auto simp: extends_def read_u64_def Let_def split: if_splits)

lemma extends_text [extends_intros]: "extends (read_text len part)"
  by (auto simp: extends_def read_text_def Let_def split: if_splits)

lemma extends_times [extends_intros]: "extends f \<Longrightarrow> extends (read_times n f)"
  by (induction n) (auto intro!: extends_intros)

lemma extends_all: "extends read_all"
  unfolding read_all_def read_test_def read_decision_def read_probe_def read_vector_def read_sized_text_def
  by (intro extends_intros)

lemma owned_transport:
  assumes "evidence_ok e" "length (write_evidence e) < 2 ^ 64"
  shows "read_owned_evidence (write_evidence e) = Inr e"
    "bytes @ lost = write_evidence e \<Longrightarrow> lost \<noteq> [] \<Longrightarrow> \<exists>part. read_owned_evidence bytes = Inl (TruncatedEvidence part)"
proof -
  have whole: "read_all \<lparr>cu_bytes = write_evidence e, cu_offset = 0\<rparr>
      = Inr (e, \<lparr>cu_bytes = write_evidence e, cu_offset = length (write_evidence e)\<rparr>)"
    using reads_all[OF assms(1)] assms(2) unfolding reads_def
    by (metis add_0 append.right_neutral append_Nil list.size(3))
  then show "read_owned_evidence (write_evidence e) = Inr e" by (simp add: read_owned_evidence_def)
  assume cut: "bytes @ lost = write_evidence e" "lost \<noteq> []"
  show "\<exists>part. read_owned_evidence bytes = Inl (TruncatedEvidence part)"
  proof (cases "read_all \<lparr>cu_bytes = bytes, cu_offset = 0\<rparr>")
    case (Inl error)
    then show ?thesis by (cases error) (simp add: read_owned_evidence_def)
  next
    case (Inr r)
    obtain a cursor where r: "r = (a, cursor)" by fastforce
    have "cu_offset cursor \<le> length bytes \<and> read_all \<lparr>cu_bytes = bytes @ lost, cu_offset = 0\<rparr>
        = Inr (a, \<lparr>cu_bytes = bytes @ lost, cu_offset = cu_offset cursor\<rparr>)"
      using extends_all Inr unfolding extends_def r by blast
    then have "cu_offset cursor \<le> length bytes" "length (write_evidence e) = cu_offset cursor"
      using whole unfolding cut(1) by (metis, metis Inr_inject cursor.ext_inject prod.inject)
    then have "length (write_evidence e) \<le> length bytes" by (metis)
    moreover have "length (write_evidence e) = length bytes + length lost" using cut(1) by (metis length_append)
    ultimately show ?thesis using cut(2) by simp
  qed
qed

text \<open>C34: What a runtime writes is read back as it was, and nothing less is ever read: of a file cut
  anywhere short, by a killed run or a full disk, the reader says it ended early.\<close>

theorem transport_whole_or_refused:
  assumes "evidence_ok e" and "length (write_evidence e) < 2 ^ 64"
  shows "read_owned_evidence (write_evidence e) = Inr e
    \<and> list_all (\<lambda>n. \<exists>part. read_owned_evidence (take n (write_evidence e)) = Inl (TruncatedEvidence part))
        [0..<length (write_evidence e)]"
proof -
  have "\<exists>part. read_owned_evidence (take n (write_evidence e)) = Inl (TruncatedEvidence part)"
    if "n < length (write_evidence e)" for n
    by (rule owned_transport(2)[OF assms, of _ "drop n (write_evidence e)"]) (use that in auto)
  then show ?thesis using owned_transport(1)[OF assms] by (simp add: list_all_iff)
qed

end
