(* ===== verification/ErrorText.thy ===== *)
theory ErrorText
  imports FrontendProtocol EvidenceArchive
begin

section \<open>What a reader is told (Display of evidence\_archive.rs and frontend\_protocol.rs)\<close>

text \<open>
  \<open>debug\<close> is \<open>{:?}\<close> of a string, whose escapes follow the Unicode tables of the standard library,
  and \<open>debug_report_error\<close> is \<open>{:?}\<close> of a report error; both are parameters.
\<close>

fun display_archive_error :: "(string \<Rightarrow> string) \<Rightarrow> archive_error \<Rightarrow> string" where
  "display_archive_error debug (Io error) = io_message error"
| "display_archive_error debug (Json error) = error"
| "display_archive_error debug InvalidMagic = ''unsupported Supercov evidence archive''"
| "display_archive_error debug (InvalidHeader reason) = ''invalid Supercov evidence archive header: '' @ reason"
| "display_archive_error debug (InvalidPath path) = ''invalid Supercov evidence archive path: '' @ debug path"
| "display_archive_error debug (DuplicatePath path) = ''duplicate Supercov evidence archive path: '' @ path"
| "display_archive_error debug (UnsortedPath previous current) =
     ''unsorted Supercov evidence archive paths: '' @ previous @ '' before '' @ current"
| "display_archive_error debug MissingManifest = ''Supercov evidence archive is missing manifest.json''"
| "display_archive_error debug MissingFrontend = ''Supercov evidence archive is missing frontend.json''"
| "display_archive_error debug MissingCoverageModel =
     ''Supercov evidence archive is missing coverage-model.json''"
| "display_archive_error debug (Truncated part) = ''truncated Supercov evidence archive '' @ part"
| "display_archive_error debug TrailingCompressedData =
     ''Supercov evidence archive contains trailing compressed data''"
| "display_archive_error debug (UnsupportedSource path) = ''unsupported raw evidence entry: '' @ path"

definition debug_strings :: "(string \<Rightarrow> string) \<Rightarrow> string list \<Rightarrow> string" where
  "debug_strings debug items = ''['' @ join '', '' (map debug items) @ '']''"

fun display_protocol_error ::
  "(string \<Rightarrow> string) \<Rightarrow> (report_error \<Rightarrow> string) \<Rightarrow> protocol_error \<Rightarrow> string" where
  "display_protocol_error debug debug_report_error (Declaration error) = display_declaration_error error"
| "display_protocol_error debug debug_report_error InvalidManifestLimitation =
     ''frontend manifest contains a limitation without an ID''"
| "display_protocol_error debug debug_report_error (DuplicateManifestLimitation i) =
     ''duplicate frontend manifest limitation: '' @ i"
| "display_protocol_error debug debug_report_error (StructuralLimitationMismatch declared manifest) =
     ''frontend structural limitation references differ: declared='' @ debug_strings debug declared
       @ '' manifest='' @ debug_strings debug manifest"
| "display_protocol_error debug debug_report_error (UndeclaredRunner runner) =
     ''frontend evidence uses undeclared runner: '' @ runner"
| "display_protocol_error debug debug_report_error (UnobservedRunner runner) =
     ''frontend declares an unobserved runner: '' @ runner"
| "display_protocol_error debug debug_report_error (MissingExactIdentity runner side) =
     ''frontend runner '' @ runner @ '' is missing exact '' @ side @ '' identity''"
| "display_protocol_error debug debug_report_error (ScopeRunMismatch expected actual) =
     ''frontend evidence run identity differs: expected='' @ expected @ '' actual='' @ actual"
| "display_protocol_error debug debug_report_error (RetryMismatch runner result scope) =
     ''frontend runner '' @ runner @ '' retry identity differs: result='' @ decimal result
       @ '' scope='' @ decimal scope"
| "display_protocol_error debug debug_report_error (InvalidUnstartedResult reason) =
     ''invalid selected-but-unstarted test record: '' @ reason"
| "display_protocol_error debug debug_report_error (InvalidPhaseKind kind) =
     ''unsupported frontend phase kind: '' @ kind"
| "display_protocol_error debug debug_report_error (DuplicatePhase i) = ''duplicate frontend phase ID: '' @ i"
| "display_protocol_error debug debug_report_error (UnknownPhaseReference i) =
     ''unknown frontend phase reference: '' @ i"
| "display_protocol_error debug debug_report_error (CyclicPhaseReference i) =
     ''cyclic frontend phase causality at: '' @ i"
| "display_protocol_error debug debug_report_error (AnalysisFailed error) = debug_report_error error"

end
