(* ===== verification/ArchiveReading.thy ===== *)
theory ArchiveReading
  imports Evidence EvidenceArchive
begin

section \<open>Parsing an archive's entries (coverage\_report.rs)\<close>

text \<open>
  Every test's record is a JSON document of its own, in an entry of its own or on a line of a
  journal. They are parsed as the archive is read, a batch at a time, each batch a share on each
  core. \<open>serde_json::from_slice\<close> into a record is a parameter \<open>from_slice\<close> that gives the record or
  what its error says.
\<close>

subsection \<open>One entry\<close>

definition parse_entry :: "(string \<Rightarrow> string + 'a) \<Rightarrow> archive_entry \<Rightarrow> report_error + 'a" where
  "parse_entry from_slice entry =
     (case from_slice (ae_contents entry) of
        Inl reason \<Rightarrow> Inl (InvalidJson (ae_path entry) reason) | Inr parsed \<Rightarrow> Inr parsed)"

text \<open>The lines of one journal: \<open>enumerate\<close> numbers them from 0, the messages from 1.\<close>

definition parse_json_line ::
  "(string \<Rightarrow> string + 'a) \<Rightarrow> archive_entry \<Rightarrow> nat \<times> string \<Rightarrow> 'a list \<Rightarrow> report_error + 'a list" where
  "parse_json_line from_slice entry = (\<lambda>(index, line) records.
     if line = [] then Inl (InvalidJson (ae_path entry) (''blank JSONL record at line '' @ decimal (index + 1)))
     else case from_slice line of
       Inl error \<Rightarrow> Inl (InvalidJson (ae_path entry)
         (''invalid JSONL record at line '' @ decimal (index + 1) @ '': '' @ error))
     | Inr parsed \<Rightarrow> Inr (records @ [parsed]))"

definition NEWLINE :: char where "NEWLINE = CHR 0x0A"

definition parse_json_lines :: "(string \<Rightarrow> string + 'a) \<Rightarrow> archive_entry list \<Rightarrow> report_error + 'a list" where
  "parse_json_lines from_slice entries =
     try_fold (\<lambda>entry records.
       case strip_suffix [NEWLINE] (ae_contents entry) of
         None \<Rightarrow> Inl (InvalidJson (ae_path entry) ''recognized JSONL evidence must end with a newline'')
       | Some contents \<Rightarrow>
           if contents = []
           then Inl (InvalidJson (ae_path entry) ''recognized JSONL evidence must contain at least one record'')
           else try_fold (parse_json_line from_slice entry) (enumerate 0 (split_on NEWLINE contents)) records)
     entries []"

subsection \<open>Lines that may be torn\<close>

record 'a tolerant_json_lines =
  tl_records :: "'a list"
  tl_corrupt_records :: nat
  tl_corrupt_files :: nat

definition no_lines :: "'a tolerant_json_lines" where
  "no_lines = \<lparr>tl_records = [], tl_corrupt_records = 0, tl_corrupt_files = 0\<rparr>"

definition parse_server_line ::
  "(string \<Rightarrow> string + 'a) \<Rightarrow> string \<Rightarrow> 'a list \<times> nat \<Rightarrow> 'a list \<times> nat" where
  "parse_server_line from_slice line = (\<lambda>(records, corrupt_here).
     if line = [] then (records, corrupt_here)
     else case from_slice line of
       Inr parsed \<Rightarrow> (records @ [parsed], corrupt_here) | Inl _ \<Rightarrow> (records, corrupt_here + 1))"

definition parse_server_entry ::
  "(string \<Rightarrow> string + 'a) \<Rightarrow> archive_entry \<Rightarrow> 'a tolerant_json_lines \<Rightarrow> 'a tolerant_json_lines" where
  "parse_server_entry from_slice entry parsed =
     (let (records, corrupt_here) =
            fold (parse_server_line from_slice) (split_on NEWLINE (ae_contents entry)) (tl_records parsed, 0)
      in parsed\<lparr>tl_records := records,
           tl_corrupt_records := tl_corrupt_records parsed + corrupt_here,
           tl_corrupt_files := tl_corrupt_files parsed + (if 0 < corrupt_here then 1 else 0)\<rparr>)"

definition parse_server_json_lines ::
  "(string \<Rightarrow> string + 'a) \<Rightarrow> archive_entry list \<Rightarrow> 'a tolerant_json_lines" where
  "parse_server_json_lines from_slice entries = fold (parse_server_entry from_slice) entries no_lines"

subsection \<open>A share on each core\<close>

text \<open>\<open>slice::chunks\<close>, which panics for a size of 0; no caller here asks for that (\<open>chunk_positive\<close>).\<close>

function chunks :: "nat \<Rightarrow> 'a list \<Rightarrow> 'a list list" where
  "chunks n xs = (if n = 0 \<or> xs = [] then [] else take n xs # chunks n (drop n xs))"
  by pat_completeness auto
termination
  by (relation "measure (\<lambda>(n, xs). length xs)") auto

declare chunks.simps [simp del]

definition div_ceil :: "nat \<Rightarrow> nat \<Rightarrow> nat" where
  "div_ceil a b = (a + b - 1) div b"

definition parse_share :: "('e \<Rightarrow> report_error + 'a list) \<Rightarrow> 'e list \<Rightarrow> report_error + 'a list" where
  "parse_share parse entries =
     try_fold (\<lambda>entry parsed. rbind (parse entry) (\<lambda>more. Inr (parsed @ more))) entries []"

definition parse_threads :: "nat option \<Rightarrow> nat \<Rightarrow> nat" where
  "parse_threads available_parallelism n =
     max (min (case available_parallelism of None \<Rightarrow> 1 | Some cores \<Rightarrow> cores) (div_ceil n 64)) 1"

definition parse_in_parallel ::
  "nat option \<Rightarrow> ('e \<Rightarrow> report_error + 'a list) \<Rightarrow> 'e list \<Rightarrow> report_error + 'a list" where
  "parse_in_parallel available_parallelism parse entries =
     (let threads = parse_threads available_parallelism (length entries)
      in if threads = 1 then parse_share parse entries
         else let parts = map (parse_share parse) (chunks (div_ceil (length entries) threads) entries)
           in try_fold (\<lambda>part parsed. rbind part (\<lambda>more. Inr (parsed @ more))) parts [])"

subsection \<open>A batch at a time\<close>

definition is_mcdc_result :: "string \<Rightarrow> bool" where
  "is_mcdc_result path \<longleftrightarrow> path = ''mcdc.json'' \<or> ends_with ''/mcdc.json'' path"

definition is_mcdc_journal :: "string \<Rightarrow> bool" where
  "is_mcdc_journal path \<longleftrightarrow> path = ''mcdc.jsonl'' \<or> ends_with ''.mcdc.jsonl'' path"

definition BATCH :: nat where "BATCH = 256"

record batch_state =
  bs_entries :: "archive_entry list"
  bs_raw_results :: "raw_test_result list"
  bs_journal_results :: "raw_test_result list"
  bs_results :: "archive_entry list"
  bs_journals :: "archive_entry list"
  bs_failure :: "report_error option"

definition no_batch :: batch_state where
  "no_batch = \<lparr>bs_entries = [], bs_raw_results = [], bs_journal_results = [], bs_results = [], bs_journals = [],
     bs_failure = None\<rparr>"

text \<open>The results of a batch are kept even when one of its journals does not parse.\<close>

definition flush_batch :: "nat option \<Rightarrow> (string \<Rightarrow> string + raw_test_result) \<Rightarrow> batch_state \<Rightarrow> batch_state" where
  "flush_batch available_parallelism from_slice st =
     (let emptied = st\<lparr>bs_results := [], bs_journals := []\<rparr> in
      if bs_failure st \<noteq> None then emptied
      else case parse_in_parallel available_parallelism
              (\<lambda>entry. rbind (parse_entry from_slice entry) (\<lambda>parsed. Inr [parsed])) (bs_results st) of
          Inl error \<Rightarrow> emptied\<lparr>bs_failure := Some error\<rparr>
        | Inr parsed \<Rightarrow>
            let extended = emptied\<lparr>bs_raw_results := bs_raw_results st @ parsed\<rparr> in
            (case parse_in_parallel available_parallelism (\<lambda>entry. parse_json_lines from_slice [entry])
                (bs_journals st) of
              Inl error \<Rightarrow> extended\<lparr>bs_failure := Some error\<rparr>
            | Inr journals \<Rightarrow> extended\<lparr>bs_journal_results := bs_journal_results st @ journals\<rparr>))"

definition sort_entry :: "archive_entry \<Rightarrow> batch_state \<Rightarrow> batch_state" where
  "sort_entry entry st =
     (if is_mcdc_result (ae_path entry) then st\<lparr>bs_results := bs_results st @ [entry]\<rparr>
      else if is_mcdc_journal (ae_path entry) then st\<lparr>bs_journals := bs_journals st @ [entry]\<rparr>
      else st\<lparr>bs_entries := bs_entries st @ [entry]\<rparr>)"

definition visit_entry ::
  "nat option \<Rightarrow> (string \<Rightarrow> string + raw_test_result) \<Rightarrow> batch_state visit" where
  "visit_entry available_parallelism from_slice entry st =
     (let st = sort_entry entry st in
      Inr (if BATCH \<le> length (bs_results st) + length (bs_journals st)
        then flush_batch available_parallelism from_slice st else st))"

subsection \<open>Cores make no difference\<close>

lemma gather: "try_fold (\<lambda>entry parsed. rbind (parse entry) (\<lambda>more. Inr (parsed @ more))) entries acc
    = rbind (parse_share parse entries) (\<lambda>parsed. Inr (acc @ parsed))"
proof (induction entries arbitrary: acc)
  case Nil
  show ?case by (simp add: parse_share_def)
next
  case (Cons entry entries)
  show ?case
  proof (cases "parse entry")
    case (Inr more)
    have "parse_share parse (entry # entries) = rbind (parse_share parse entries) (\<lambda>parsed. Inr (more @ parsed))"
      using Cons[of more] by (simp add: parse_share_def[of _ "entry # entries"] Inr)
    then show ?thesis using Cons[of "acc @ more"] by (cases "parse_share parse entries") (simp_all add: Inr)
  qed (simp add: parse_share_def)
qed

lemma parse_share_Nil [simp]: "parse_share parse [] = Inr []"
  by (simp add: parse_share_def)

lemma parse_share_Cons [simp]:
  "parse_share parse (entry # entries) =
     rbind (parse entry) (\<lambda>more. rbind (parse_share parse entries) (\<lambda>parsed. Inr (more @ parsed)))"
proof (cases "parse entry")
  case (Inr more)
  have "parse_share parse (entry # entries)
      = try_fold (\<lambda>entry parsed. rbind (parse entry) (\<lambda>more. Inr (parsed @ more))) entries more"
    unfolding parse_share_def by (simp add: Inr)
  then show ?thesis unfolding gather by (simp add: Inr)
qed (simp add: parse_share_def)

lemma parse_share_append:
  "parse_share parse (xs @ ys) =
     rbind (parse_share parse xs) (\<lambda>a. rbind (parse_share parse ys) (\<lambda>b. Inr (a @ b)))"
proof (induction xs)
  case Nil
  show ?case by (cases "parse_share parse ys") simp_all
next
  case (Cons x xs)
  then show ?case
    by (cases "parse x"; cases "parse_share parse xs"; cases "parse_share parse ys") simp_all
qed

lemma parse_share_chunks:
  "try_fold (\<lambda>part parsed. rbind part (\<lambda>more. Inr (parsed @ more))) (map (parse_share parse) parts) []
     = parse_share parse (concat parts)"
proof -
  have "try_fold (\<lambda>part parsed. rbind part (\<lambda>more. Inr (parsed @ more))) (map (parse_share parse) parts) acc
     = rbind (parse_share parse (concat parts)) (\<lambda>parsed. Inr (acc @ parsed))" for acc
  proof (induction parts arbitrary: acc)
    case (Cons part parts)
    then show ?case
      by (cases "parse_share parse part"; cases "parse_share parse (concat parts)") (simp_all add: parse_share_append)
  qed simp
  then show ?thesis by (cases "parse_share parse (concat parts)") simp_all
qed

lemma concat_chunks: "0 < n \<Longrightarrow> concat (chunks n xs) = xs"
proof (induction n xs rule: chunks.induct)
  case (1 n xs)
  then show ?case by (subst chunks.simps) simp
qed

lemma chunk_positive: "parse_threads cores n \<noteq> 1 \<Longrightarrow> 0 < div_ceil n (parse_threads cores n)"
  by (auto simp: parse_threads_def div_ceil_def max_def split: if_splits option.splits)
    (auto simp: min_def div_greater_zero_iff split: if_splits)

lemma parallel_is_sequential: "parse_in_parallel cores parse entries = parse_share parse entries"
  using chunk_positive[of cores "length entries"]
  by (simp add: parse_in_parallel_def Let_def parse_share_chunks concat_chunks)

subsection \<open>Batches make no difference\<close>

definition parse_result :: "(string \<Rightarrow> string + 'a) \<Rightarrow> archive_entry \<Rightarrow> report_error + 'a list" where
  "parse_result from_slice entry = rbind (parse_entry from_slice entry) (\<lambda>parsed. Inr [parsed])"

definition parse_journal :: "(string \<Rightarrow> string + 'a) \<Rightarrow> archive_entry \<Rightarrow> report_error + 'a list" where
  "parse_journal from_slice entry = parse_json_lines from_slice [entry]"

definition result_entries :: "archive_entry list \<Rightarrow> archive_entry list" where
  "result_entries = filter (\<lambda>entry. is_mcdc_result (ae_path entry))"

definition journal_entries :: "archive_entry list \<Rightarrow> archive_entry list" where
  "journal_entries = filter (\<lambda>entry. \<not> is_mcdc_result (ae_path entry) \<and> is_mcdc_journal (ae_path entry))"

definition other_entries :: "archive_entry list \<Rightarrow> archive_entry list" where
  "other_entries = filter (\<lambda>entry. \<not> is_mcdc_result (ae_path entry) \<and> \<not> is_mcdc_journal (ae_path entry))"

text \<open>The whole archive read at once, one entry after another.\<close>

definition read_at_once ::
  "(string \<Rightarrow> string + raw_test_result) \<Rightarrow> archive_entry list
     \<Rightarrow> report_error + archive_entry list \<times> raw_test_result list" where
  "read_at_once from_slice entries =
     rbind (parse_share (parse_result from_slice) (result_entries entries)) (\<lambda>results.
     rbind (parse_share (parse_journal from_slice) (journal_entries entries)) (\<lambda>journals.
     Inr (other_entries entries, results @ journals)))"

definition entry_error :: "(string \<Rightarrow> string + raw_test_result) \<Rightarrow> archive_entry \<Rightarrow> report_error option" where
  "entry_error from_slice entry =
     (if is_mcdc_result (ae_path entry)
      then (case parse_result from_slice entry of Inl e \<Rightarrow> Some e | Inr _ \<Rightarrow> None)
      else if is_mcdc_journal (ae_path entry)
      then (case parse_journal from_slice entry of Inl e \<Rightarrow> Some e | Inr _ \<Rightarrow> None)
      else None)"

lemma parse_share_Inl: "parse_share parse entries = Inl e \<Longrightarrow> \<exists>entry \<in> set entries. parse entry = Inl e"
  by (induction entries) (auto simp: rbind_Inl_iff)

lemma parse_share_Inr: "parse_share parse entries = Inr parsed \<Longrightarrow> entry \<in> set entries \<Longrightarrow> \<exists>more. parse entry = Inr more"
  by (induction entries arbitrary: parsed) (auto simp: rbind_Inr_iff)

lemma read_at_once_error:
  assumes "entry \<in> set entries" "entry_error from_slice entry = Some e"
  shows "\<exists>e'. read_at_once from_slice entries = Inl e'"
proof (cases "read_at_once from_slice entries")
  case (Inr r)
  then obtain results journals where
    "parse_share (parse_result from_slice) (result_entries entries) = Inr results"
    "parse_share (parse_journal from_slice) (journal_entries entries) = Inr journals"
    by (auto simp: read_at_once_def rbind_Inr_iff)
  then show ?thesis using assms parse_share_Inr[of _ _ _ entry]
    by (fastforce simp: entry_error_def result_entries_def journal_entries_def split: if_splits sum.splits)
qed simp

text \<open>What is in a batch state after some entries: those of the finished batches are parsed, those of
  the open one wait.\<close>

definition batched :: "(string \<Rightarrow> string + raw_test_result) \<Rightarrow> archive_entry list \<Rightarrow> batch_state \<Rightarrow> bool" where
  "batched from_slice entries st \<longleftrightarrow> bs_entries st = other_entries entries
     \<and> (case bs_failure st of
          None \<Rightarrow> \<exists>results journals. result_entries entries = results @ bs_results st
            \<and> journal_entries entries = journals @ bs_journals st
            \<and> parse_share (parse_result from_slice) results = Inr (bs_raw_results st)
            \<and> parse_share (parse_journal from_slice) journals = Inr (bs_journal_results st)
        | Some e \<Rightarrow> \<exists>entry \<in> set entries. entry_error from_slice entry = Some e)"

lemma batched_sort_entry: "batched from_slice entries st \<Longrightarrow> batched from_slice (entries @ [entry]) (sort_entry entry st)"
  by (auto simp: batched_def sort_entry_def result_entries_def journal_entries_def other_entries_def
      split: option.splits)

lemma in_result_entries: "entry \<in> set (result_entries entries) \<longleftrightarrow> entry \<in> set entries \<and> is_mcdc_result (ae_path entry)"
  by (auto simp: result_entries_def)

lemma in_journal_entries: "entry \<in> set (journal_entries entries) \<longleftrightarrow>
    entry \<in> set entries \<and> \<not> is_mcdc_result (ae_path entry) \<and> is_mcdc_journal (ae_path entry)"
  by (auto simp: journal_entries_def)

lemma batched_flush:
  assumes batched: "batched from_slice entries st"
  shows "batched from_slice entries (flush_batch cores from_slice st)"
    and "bs_results (flush_batch cores from_slice st) = [] \<and> bs_journals (flush_batch cores from_slice st) = []"
proof -
  have flush: "flush_batch cores from_slice st = (let emptied = st\<lparr>bs_results := [], bs_journals := []\<rparr> in
      if bs_failure st \<noteq> None then emptied
      else case parse_share (parse_result from_slice) (bs_results st) of
          Inl error \<Rightarrow> emptied\<lparr>bs_failure := Some error\<rparr>
        | Inr parsed \<Rightarrow> let extended = emptied\<lparr>bs_raw_results := bs_raw_results st @ parsed\<rparr> in
            (case parse_share (parse_journal from_slice) (bs_journals st) of
              Inl error \<Rightarrow> extended\<lparr>bs_failure := Some error\<rparr>
            | Inr journals \<Rightarrow> extended\<lparr>bs_journal_results := bs_journal_results st @ journals\<rparr>))"
  proof -
    have parsers: "(\<lambda>entry. rbind (parse_entry from_slice entry) (\<lambda>parsed. Inr [parsed])) = parse_result from_slice"
      "(\<lambda>entry. parse_json_lines from_slice [entry]) = parse_journal from_slice"
      by (simp_all add: parse_result_def parse_journal_def fun_eq_iff)
    show ?thesis by (simp only: flush_batch_def parallel_is_sequential parsers)
  qed
  show "bs_results (flush_batch cores from_slice st) = [] \<and> bs_journals (flush_batch cores from_slice st) = []"
    unfolding flush by (simp add: Let_def split: sum.splits)
  show "batched from_slice entries (flush_batch cores from_slice st)"
  proof (cases "bs_failure st")
    case None
    then obtain results journals where r: "result_entries entries = results @ bs_results st"
        "journal_entries entries = journals @ bs_journals st"
        "parse_share (parse_result from_slice) results = Inr (bs_raw_results st)"
        "parse_share (parse_journal from_slice) journals = Inr (bs_journal_results st)"
        and entries: "bs_entries st = other_entries entries"
      using batched by (auto simp: batched_def)
    have result: "\<exists>entry \<in> set entries. entry_error from_slice entry = Some e"
      if part: "parse_share (parse_result from_slice) (bs_results st) = Inl e" for e
    proof -
      obtain entry where "entry \<in> set (bs_results st)" "parse_result from_slice entry = Inl e"
        using parse_share_Inl[OF part] by blast
      moreover have "entry \<in> set (result_entries entries)" using calculation r(1) by simp
      ultimately show ?thesis unfolding in_result_entries
        by (intro bexI[of _ entry]) (simp_all add: entry_error_def)
    qed
    have journal: "\<exists>entry \<in> set entries. entry_error from_slice entry = Some e"
      if part: "parse_share (parse_journal from_slice) (bs_journals st) = Inl e" for e
    proof -
      obtain entry where "entry \<in> set (bs_journals st)" "parse_journal from_slice entry = Inl e"
        using parse_share_Inl[OF part] by blast
      moreover have "entry \<in> set (journal_entries entries)" using calculation r(2) by simp
      ultimately show ?thesis unfolding in_journal_entries
        by (intro bexI[of _ entry]) (simp_all add: entry_error_def)
    qed
    show ?thesis
    proof (cases "parse_share (parse_result from_slice) (bs_results st)")
      case (Inl e)
      then show ?thesis using result[OF Inl] entries by (simp add: flush None batched_def Let_def)
    next
      case results: (Inr parsed)
      show ?thesis
      proof (cases "parse_share (parse_journal from_slice) (bs_journals st)")
        case (Inl e)
        then show ?thesis using journal[OF Inl] entries by (simp add: flush None batched_def Let_def results)
      next
        case (Inr more)
        then show ?thesis using r entries
          by (simp add: flush None batched_def Let_def results parse_share_append)
      qed
    qed
  qed (use batched in \<open>auto simp: flush batched_def\<close>)
qed

lemma read_batches:
  "\<exists>st. try_fold (visit_entry cores from_slice) entries no_batch = Inr st \<and> batched from_slice entries st"
proof (induction entries rule: rev_induct)
  case Nil
  show ?case by (simp add: batched_def no_batch_def result_entries_def journal_entries_def other_entries_def)
next
  case (snoc entry entries)
  then obtain st where st: "try_fold (visit_entry cores from_slice) entries no_batch = Inr st"
    "batched from_slice entries st" by blast
  then show ?case using batched_flush(1)[OF batched_sort_entry[OF st(2)]] batched_sort_entry[OF st(2)]
    by (simp add: try_fold_append visit_entry_def[of _ _ entry] Let_def)
qed

definition read_in_batches ::
  "nat option \<Rightarrow> (string \<Rightarrow> string + raw_test_result) \<Rightarrow> archive_entry list \<Rightarrow> archive_error + batch_state" where
  "read_in_batches cores from_slice entries =
     rbind (try_fold (visit_entry cores from_slice) entries no_batch) (\<lambda>st.
     Inr (flush_batch cores from_slice st))"

lemma read_in_batches_outcome:
  "\<exists>st. read_in_batches cores from_slice entries = Inr st
     \<and> (case bs_failure st of
          None \<Rightarrow> read_at_once from_slice entries = Inr (bs_entries st, bs_raw_results st @ bs_journal_results st)
        | Some e \<Rightarrow> (\<exists>e'. read_at_once from_slice entries = Inl e')
            \<and> list_ex (\<lambda>entry. entry_error from_slice entry = Some e) entries)"
proof -
  obtain st where st: "try_fold (visit_entry cores from_slice) entries no_batch = Inr st" "batched from_slice entries st"
    using read_batches by blast
  let ?st = "flush_batch cores from_slice st"
  have final: "batched from_slice entries ?st" "bs_results ?st = []" "bs_journals ?st = []"
    using batched_flush[OF st(2)] by auto
  show ?thesis
    by (rule exI[of _ ?st]) (use final read_at_once_error in \<open>auto simp: st(1) batched_def read_at_once_def list_ex_iff
        read_in_batches_def split: option.splits\<close>)
qed

text \<open>C22: Neither the batches an archive is read in nor the cores that share a batch change what is read:
  the results and journals are those of reading every entry one after another, in their order, and
  when one does not parse the reading fails, with the error of an entry that does not.\<close>

theorem batches_read_at_once:
  "\<exists>st. read_in_batches cores from_slice entries = Inr st
     \<and> (case bs_failure st of
          None \<Rightarrow> read_at_once from_slice entries = Inr (bs_entries st, bs_raw_results st @ bs_journal_results st)
        | Some e \<Rightarrow> (\<exists>e'. read_at_once from_slice entries = Inl e')
            \<and> list_ex (\<lambda>entry. entry_error from_slice entry = Some e) entries)"
  by (rule read_in_batches_outcome)

end
