(* ===== verification/ServerRecords.thy ===== *)
theory ServerRecords
  imports ArchiveReading CreditByTime ReportModel
begin

section \<open>Server work and launches an archive holds (coverage\_report.rs, archive\_request)\<close>

text \<open>
  Application processes append what they saw to shards of their own. A record with a scope joins the
  first result of that scope, once; records without one are grouped by the process that wrote them
  and credited by time. The launch observer's traces are only counted.
\<close>

subsection \<open>Execution traces\<close>

record argument_digest =
  dg_bytes :: nat
  dg_sha256 :: string

datatype safe_argument = TextArgument string | DigestArgument argument_digest

record command_summary =
  cd_executable :: "safe_argument option"
  cd_arguments :: "safe_argument list"
  cd_argument_count :: nat

datatype trace_event =
    Process string u32 u32 string command_summary "string option"
  | ChildLaunch string u32 u32 string safe_argument
  | ChildExit string u32 u32 "u32 option" "string option" "int option" safe_argument u64
  | RemoteLaunch string u32 u32 command_summary string
  | WorkspaceCapability string u32 u32 string string "string list"
  | GuestProcess string u32 u32 string

fun event_kind :: "trace_event \<Rightarrow> string" where
  "event_kind (Process _ _ _ _ _ _) = ''process''"
| "event_kind (ChildLaunch _ _ _ _ _) = ''child-launch''"
| "event_kind (ChildExit _ _ _ _ _ _ _ _) = ''child-exit''"
| "event_kind (RemoteLaunch _ _ _ _ _) = ''remote-launch''"
| "event_kind (WorkspaceCapability _ _ _ _ _ _) = ''workspace-capability''"
| "event_kind (GuestProcess _ _ _ _) = ''guest-process''"

definition count_event :: "trace_event list \<Rightarrow> string \<Rightarrow> nat" where
  "count_event events name = length (filter (\<lambda>event. event_kind event = name) events)"

definition is_execution_trace :: "string \<Rightarrow> bool" where
  "is_execution_trace path \<longleftrightarrow> starts_with ''execution.'' path \<and> ends_with ''.jsonl'' path"

subsection \<open>Records with a scope\<close>

definition is_scoped_shard :: "string \<Rightarrow> bool" where
  "is_scoped_shard path \<longleftrightarrow> starts_with ''server/'' path \<and> \<not> starts_with ''server/background/'' path
     \<and> ends_with ''.jsonl'' path"

text \<open>\<open>entry(scope).or_insert(index)\<close>: the first result of a scope.\<close>

definition note_scope ::
  "nat \<times> raw_test_result \<Rightarrow> (execution_scope \<Rightarrow> nat option) \<Rightarrow> execution_scope \<Rightarrow> nat option" where
  "note_scope = (\<lambda>(index, raw) by_scope.
     case rt_scope raw of None \<Rightarrow> by_scope
     | Some scope \<Rightarrow> (case by_scope scope of None \<Rightarrow> by_scope(scope \<mapsto> index) | Some _ \<Rightarrow> by_scope))"

definition scope_index :: "raw_test_result list \<Rightarrow> execution_scope \<Rightarrow> nat option" where
  "scope_index raw_results = fold note_scope (enumerate 0 raw_results) Map.empty"

text \<open>\<open>seen\<close> holds, per result already joined, the serialized records it has.\<close>

definition join_record ::
  "(server_record \<Rightarrow> string) \<Rightarrow> (execution_scope \<Rightarrow> nat option) \<Rightarrow> server_record
     \<Rightarrow> raw_test_result list \<times> (nat \<Rightarrow> string set option) \<Rightarrow> raw_test_result list \<times> (nat \<Rightarrow> string set option)" where
  "join_record to_vec by_scope server = (\<lambda>(raw_results, seen).
     case sr_scope server of None \<Rightarrow> (raw_results, seen)
     | Some scope \<Rightarrow>
         (case by_scope scope of None \<Rightarrow> (raw_results, seen)
          | Some index \<Rightarrow>
              let raw = raw_results ! index;
                  known = (case seen index of Some known \<Rightarrow> known | None \<Rightarrow> to_vec ` set (rt_server raw));
                  key = to_vec server
              in (if key \<notin> known then raw_results[index := raw\<lparr>rt_server := rt_server raw @ [server]\<rparr>] else raw_results,
                  seen(index \<mapsto> insert key known))))"

definition join_scoped ::
  "(server_record \<Rightarrow> string) \<Rightarrow> raw_test_result list \<Rightarrow> server_record list \<Rightarrow> raw_test_result list" where
  "join_scoped to_vec raw_results scoped_records =
     fst (fold (join_record to_vec (scope_index raw_results)) scoped_records (raw_results, Map.empty))"

subsection \<open>Records without one\<close>

definition is_background_shard :: "string \<Rightarrow> bool" where
  "is_background_shard path \<longleftrightarrow> starts_with ''server/background/'' path \<and> ends_with ''.jsonl'' path"

text \<open>\<open>str::rsplit_once\<close>: around the last separator.\<close>

definition rsplit_once :: "char \<Rightarrow> string \<Rightarrow> (string \<times> string) option" where
  "rsplit_once sep s =
     (if sep \<in> set s
      then Some (rev (tl (dropWhile (\<lambda>c. c \<noteq> sep) (rev s))), rev (takeWhile (\<lambda>c. c \<noteq> sep) (rev s)))
      else None)"

text \<open>The process that wrote a shard: \<open><writer>-<n>.jsonl\<close>.\<close>

definition writer_of :: "string \<Rightarrow> string" where
  "writer_of path =
     (let name = drop (length ''server/background/'') (take (length path - length ''.jsonl'') path) in
      case rsplit_once CHR ''-'' name of
        Some (writer, sequence) \<Rightarrow> if list_all is_ascii_digit sequence then writer else name
      | None \<Rightarrow> name)"

definition shards_by_writer :: "archive_entry list \<Rightarrow> (string \<times> archive_entry list) list" where
  "shards_by_writer entries =
     fold (\<lambda>entry. tree_entry (writer_of (ae_path entry)) [] (\<lambda>files. files @ [entry]))
       (filter (\<lambda>entry. is_background_shard (ae_path entry)) entries) []"

text \<open>What each process recorded, in the order of the writers, and what of it was torn.\<close>

definition read_background ::
  "(string \<Rightarrow> string + server_record) \<Rightarrow> archive_entry list \<Rightarrow> server_record list list \<times> nat \<times> nat" where
  "read_background from_slice entries =
     fold (\<lambda>(_, files) (processes, corrupt_records, corrupt_files).
         let parsed = parse_server_json_lines from_slice files
         in (processes @ [tl_records parsed], corrupt_records + tl_corrupt_records parsed,
             corrupt_files + tl_corrupt_files parsed))
       (shards_by_writer entries) ([], 0, 0)"

definition background_result :: "string \<Rightarrow> server_record list \<Rightarrow> raw_test_result" where
  "background_result run_id background_records =
     \<lparr>rt_test_id = Some (''background:'' @ run_id), rt_scope = None, rt_test = ''Background / unattributed'',
       rt_test_file = None, rt_title = Some ''Background / unattributed'', rt_retry = None,
       rt_status = Some ''unknown'', rt_expected_status = None, rt_flaky = False,
       rt_provenance = \<lparr>tp_runner = ''background'', tp_kind = ''background'', tp_project = None,
         tp_source = ''explicit'', tp_tags = []\<rparr>,
       rt_role = ''background'', rt_attribution = ATTRIBUTION_EXACT, rt_phases = [], rt_runtime = [],
       rt_browser = [], rt_server = background_records, rt_span = None\<rparr>"

text \<open>The results with all their server work, and what the archive says of its transport.\<close>

definition attach_server_work ::
  "(string \<Rightarrow> string + server_record) \<Rightarrow> (string \<Rightarrow> string + trace_event) \<Rightarrow> (server_record \<Rightarrow> string)
     \<Rightarrow> string \<Rightarrow> archive_entry list \<Rightarrow> raw_test_result list \<Rightarrow> raw_test_result list \<times> transport_stats" where
  "attach_server_work server_from event_from to_vec run_id entries raw_results =
     (let scoped = parse_server_json_lines server_from (filter (\<lambda>entry. is_scoped_shard (ae_path entry)) entries);
          raw_results = join_scoped to_vec raw_results (tl_records scoped);
          (processes, corrupt_records, corrupt_files) = read_background server_from entries;
          had_background = (processes \<noteq> []);
          (raw_results, background_records) = credit_by_time to_vec raw_results processes;
          raw_results = (if had_background then raw_results @ [background_result run_id background_records] else raw_results);
          execution = parse_server_json_lines event_from (filter (\<lambda>entry. is_execution_trace (ae_path entry)) entries)
      in (raw_results,
          \<lparr>tr_processes = count_event (tl_records execution) ''process'',
            tr_child_launches = count_event (tl_records execution) ''child-launch'',
            tr_remote_launches = count_event (tl_records execution) ''remote-launch'',
            tr_workspace_capabilities = count_event (tl_records execution) ''workspace-capability'',
            tr_guest_processes = count_event (tl_records execution) ''guest-process'',
            tr_scoped_server_records = length (tl_records scoped),
            tr_background_server_records = length background_records,
            tr_corrupt_records = tl_corrupt_records scoped + corrupt_records + tl_corrupt_records execution,
            tr_corrupt_files = tl_corrupt_files scoped + corrupt_files + tl_corrupt_files execution\<rparr>))"

subsection \<open>Joining by search\<close>

text \<open>The join the hash maps replace: for every record a search for the first result of its scope, and
  a comparison with everything that result already has.\<close>

definition first_of_scope :: "raw_test_result list \<Rightarrow> execution_scope \<Rightarrow> nat option" where
  "first_of_scope raw_results scope =
     find (\<lambda>index. rt_scope (raw_results ! index) = Some scope) [0..<length raw_results]"

definition join_by_search :: "(server_record \<Rightarrow> string) \<Rightarrow> server_record \<Rightarrow> raw_test_result list \<Rightarrow> raw_test_result list" where
  "join_by_search to_vec server raw_results =
     (case sr_scope server of None \<Rightarrow> raw_results
      | Some scope \<Rightarrow>
          (case first_of_scope raw_results scope of None \<Rightarrow> raw_results
           | Some index \<Rightarrow>
               let raw = raw_results ! index
               in if list_ex (\<lambda>existing. to_vec existing = to_vec server) (rt_server raw) then raw_results
                  else raw_results[index := raw\<lparr>rt_server := rt_server raw @ [server]\<rparr>]))"

lemma scope_index_first: "scope_index raw_results scope = first_of_scope raw_results scope"
proof (induction raw_results rule: rev_induct)
  case (snoc raw raw_results)
  have "first_of_scope (raw_results @ [raw]) scope =
      (case first_of_scope raw_results scope of Some index \<Rightarrow> Some index
       | None \<Rightarrow> if rt_scope raw = Some scope then Some (length raw_results) else None)"
  proof -
    have "find P (xs @ [x]) = (case find P xs of Some y \<Rightarrow> Some y | None \<Rightarrow> if P x then Some x else None)" for P and xs :: "nat list" and x
      by (induction xs) auto
    moreover have "find (\<lambda>index. rt_scope ((raw_results @ [raw]) ! index) = Some scope) [0..<length raw_results]
        = find (\<lambda>index. rt_scope (raw_results ! index) = Some scope) [0..<length raw_results]"
      by (rule find_cong) (auto simp: nth_append)
    ultimately show ?thesis by (simp add: first_of_scope_def)
  qed
  moreover have "scope_index (raw_results @ [raw]) scope =
      (case scope_index raw_results scope of Some index \<Rightarrow> Some index
       | None \<Rightarrow> if rt_scope raw = Some scope then Some (length raw_results) else None)"
    by (auto simp: scope_index_def enumerate_append_eq note_scope_def split: option.splits)
  ultimately show ?case using snoc by simp
qed (simp add: scope_index_def first_of_scope_def)

lemma first_of_scope_cong:
  assumes "map rt_scope raws = map rt_scope raws'"
  shows "first_of_scope raws scope = first_of_scope raws' scope"
proof -
  have lengths: "length raws = length raws'" using assms by (rule map_eq_imp_length_eq)
  have "rt_scope (raws ! i) = rt_scope (raws' ! i)" if less: "i < length raws" for i
    using arg_cong[OF assms, of "\<lambda>scopes. scopes ! i"] less lengths by simp
  then show ?thesis unfolding first_of_scope_def lengths[symmetric] by (intro find_cong) auto
qed

lemma first_of_scope_less: "first_of_scope raws scope = Some index \<Longrightarrow> index < length raws"
  by (auto simp: first_of_scope_def find_Some_iff)

lemma join_scoped_step:
  assumes seen: "\<forall>index known. seen index = Some known \<longrightarrow> known = to_vec ` set (rt_server (raws ! index))"
    and scopes: "map rt_scope raws = map rt_scope raws0"
    and step: "join_record to_vec (scope_index raws0) server (raws, seen) = (raws', seen')"
  shows "raws' = join_by_search to_vec server raws \<and> map rt_scope raws' = map rt_scope raws0
    \<and> (\<forall>index known. seen' index = Some known \<longrightarrow> known = to_vec ` set (rt_server (raws' ! index)))"
proof -
  have index: "scope_index raws0 scope = first_of_scope raws scope" for scope
    using first_of_scope_cong[OF scopes] by (simp add: scope_index_first)
  show ?thesis
  proof (cases "sr_scope server")
    case None
    then show ?thesis using step seen scopes by (simp add: join_record_def join_by_search_def)
  next
    case scope: (Some scope)
    show ?thesis
    proof (cases "first_of_scope raws scope")
      case None
      then show ?thesis using step seen scopes scope by (simp add: join_record_def join_by_search_def index)
    next
      case (Some i)
      have i: "i < length raws" using first_of_scope_less[OF Some] .
      have known: "(case seen i of None \<Rightarrow> to_vec ` set (rt_server (raws ! i)) | Some known \<Rightarrow> known)
          = to_vec ` set (rt_server (raws ! i))"
        using seen by (auto split: option.splits)
      have dup: "list_ex (\<lambda>existing. to_vec existing = to_vec server) (rt_server (raws ! i))
          \<longleftrightarrow> to_vec server \<in> to_vec ` set (rt_server (raws ! i))"
        by (simp add: list_ex_iff image_iff eq_commute[of "to_vec server"] cong: conj_cong)
      have out: "raws' = join_by_search to_vec server raws"
          "seen' = seen(i \<mapsto> insert (to_vec server) (to_vec ` set (rt_server (raws ! i))))"
        using step scope Some by (auto simp: join_record_def join_by_search_def index Let_def known dup)
      show ?thesis
      proof (cases "to_vec server \<in> to_vec ` set (rt_server (raws ! i))")
        case True
        then have "raws' = raws" using out scope Some dup by (simp add: join_by_search_def Let_def)
        then show ?thesis using out seen scopes True by (auto simp: insert_absorb)
      next
        case False
        then have raws': "raws' = raws[i := (raws ! i)\<lparr>rt_server := rt_server (raws ! i) @ [server]\<rparr>]"
          using out scope Some dup by (simp add: join_by_search_def Let_def)
        have "map rt_scope raws' = (map rt_scope raws)[i := rt_scope (raws ! i)]"
          unfolding raws' by (simp add: map_update)
        then have "map rt_scope raws' = map rt_scope raws" using i by (simp add: list_update_same_conv)
        moreover have "known = to_vec ` set (rt_server (raws' ! index))" if known: "seen' index = Some known" for index known
          using known seen i unfolding raws' out(2)
          by (cases "index = i") (auto simp: image_Un)
        ultimately show ?thesis using out(1) scopes by simp
      qed
    qed
  qed
qed

lemma join_is_search: "join_scoped to_vec raw_results records = fold (join_by_search to_vec) records raw_results"
proof -
  have "fst (fold (join_record to_vec (scope_index raws0)) records (raws, seen)) = fold (join_by_search to_vec) records raws"
    if "\<forall>index known. seen index = Some known \<longrightarrow> known = to_vec ` set (rt_server (raws ! index))"
      "map rt_scope raws = map rt_scope raws0" for raws0 raws seen
    using that
  proof (induction records arbitrary: raws seen)
    case (Cons server records)
    obtain raws' seen' where step: "join_record to_vec (scope_index raws0) server (raws, seen) = (raws', seen')"
      by fastforce
    note facts = join_scoped_step[OF Cons.prems step]
    have "fst (fold (join_record to_vec (scope_index raws0)) records (raws', seen')) = fold (join_by_search to_vec) records raws'"
      by (rule Cons.IH) (use facts in blast)+
    then show ?case using facts by (simp add: step)
  qed simp
  then show ?thesis by (simp add: join_scoped_def)
qed

text \<open>C23: The indexed join of server records is the search it replaces: each record with a scope joins
  the first result of that scope unless that result already has it, in the order the records were
  read, and everything else stays as it was.\<close>

theorem join_scoped_is_search:
  "join_scoped to_vec raw_results records = fold (join_by_search to_vec) records raw_results"
  by (rule join_is_search)

end
