(* ===== verification/PhaseIdentity.thy ===== *)
theory PhaseIdentity
  imports Evidence
begin

section \<open>Phases that are a record's own (coverage\_report.rs)\<close>

text \<open>
  Two repairs an archive's results pass before they are validated. A record that declares a phase an
  earlier record declared is another execution of the same attempt: its phases and its references to
  them are renamed apart (\<open>separate_repeated_executions\<close>). A reference to a phase of another record is
  work that finished after its test: the reference is dropped (\<open>release_leaked_phases\<close>).
\<close>

subsection \<open>References to phases\<close>

text \<open>A record with every reference of its evidence to a phase put through \<open>f\<close>.\<close>

definition map_references :: "(string option \<Rightarrow> string option) \<Rightarrow> raw_test_result \<Rightarrow> raw_test_result" where
  "map_references f raw =
     (let snapshot = (\<lambda>s. s\<lparr>rs_phase_id := f (rs_phase_id s),
            rs_events := map (\<lambda>event. event\<lparr>re_phase_id := f (re_phase_id event)\<rparr>) (rs_events s)\<rparr>)
      in raw\<lparr>rt_runtime := map snapshot (rt_runtime raw), rt_browser := map snapshot (rt_browser raw),
           rt_server := map (\<lambda>record. record\<lparr>sr_phase_id := f (sr_phase_id record)\<rparr>) (rt_server raw)\<rparr>)"

definition phase_ids :: "raw_test_result \<Rightarrow> string list" where
  "phase_ids raw = map cp_id (rt_phases raw)"

subsection \<open>Repeated executions\<close>

lemma finite_candidates: "finite {n. i @ ''~'' @ decimal n \<in> set declared}"
proof -
  have "inj (\<lambda>n. i @ ''~'' @ decimal n)" by (simp add: inj_def)
  then have "finite ((\<lambda>n. i @ ''~'' @ decimal n) -` set declared)" by (intro finite_vimageI) simp
  then show ?thesis by (simp add: vimage_def)
qed

function fresh_phase :: "string list \<Rightarrow> string \<Rightarrow> nat \<Rightarrow> nat \<times> string" where
  "fresh_phase declared i number =
     (let number = number + 1; candidate = i @ ''~'' @ decimal number
      in if candidate \<notin> set declared then (number, candidate) else fresh_phase declared i number)"
  by pat_completeness auto
termination
proof (relation "measure (\<lambda>(declared, i, number). card {n. number < n \<and> i @ ''~'' @ decimal n \<in> set declared})", simp)
  fix declared i number c candidate
  assume c: "c = number + 1" "candidate = i @ ''~'' @ decimal c" "\<not> candidate \<notin> set declared"
  have "finite {n. number < n \<and> i @ ''~'' @ decimal n \<in> set declared}"
    by (rule finite_subset[OF _ finite_candidates[of i declared]]) auto
  moreover have "{n. c < n \<and> i @ ''~'' @ decimal n \<in> set declared} \<subset> {n. number < n \<and> i @ ''~'' @ decimal n \<in> set declared}"
    using c by auto
  ultimately have "card {n. c < n \<and> i @ ''~'' @ decimal n \<in> set declared}
      < card {n. number < n \<and> i @ ''~'' @ decimal n \<in> set declared}" by (rule psubset_card_mono)
  then show "((declared, i, c), declared, i, number)
      \<in> measure (\<lambda>(declared, i, number). card {n. number < n \<and> i @ ''~'' @ decimal n \<in> set declared})" by simp
qed

declare fresh_phase.simps [simp del]

text \<open>The new names of a record's phases, and how often each has been declared again so far.\<close>

definition rename_phase ::
  "string list \<Rightarrow> coverage_phase \<Rightarrow> (string \<times> string) list \<times> (string \<Rightarrow> nat option)
     \<Rightarrow> (string \<times> string) list \<times> (string \<Rightarrow> nat option)" where
  "rename_phase declared phase = (\<lambda>(renamed, executions).
     let (number, fresh) = fresh_phase declared (cp_id phase)
           (case executions (cp_id phase) of Some n \<Rightarrow> n | None \<Rightarrow> 1)
     in (tree_insert (cp_id phase) fresh renamed, executions(cp_id phase \<mapsto> number)))"

definition renamed_reference :: "(string \<times> string) list \<Rightarrow> string option \<Rightarrow> string option" where
  "renamed_reference renamed phase =
     (case phase of None \<Rightarrow> None
      | Some i \<Rightarrow> (case map_of renamed i of Some fresh \<Rightarrow> Some fresh | None \<Rightarrow> Some i))"

text \<open>\<open>renamed[&phase.id]\<close> panics on a phase that was given no name.\<close>

datatype phase_panic = NoNewName

definition renamed_phase :: "(string \<times> string) list \<Rightarrow> coverage_phase \<Rightarrow> phase_panic + coverage_phase" where
  "renamed_phase renamed phase =
     rbind (ok_or (map_of renamed (cp_id phase)) NoNewName) (\<lambda>fresh.
       Inr (phase\<lparr>cp_id := fresh, cp_caused_by_phase_id := renamed_reference renamed (cp_caused_by_phase_id phase)\<rparr>))"

definition rename_record :: "(string \<times> string) list \<Rightarrow> raw_test_result \<Rightarrow> phase_panic + raw_test_result" where
  "rename_record renamed raw =
     rbind (try_map (renamed_phase renamed) (rt_phases raw)) (\<lambda>phases.
       Inr (map_references (renamed_reference renamed) (raw\<lparr>rt_phases := phases\<rparr>)))"

type_synonym separation = "raw_test_result list \<times> string list \<times> (string \<Rightarrow> nat option)"

definition separate_step :: "raw_test_result \<Rightarrow> separation \<Rightarrow> phase_panic + separation" where
  "separate_step raw = (\<lambda>(raws, declared, executions).
     if \<not> list_ex (\<lambda>phase. cp_id phase \<in> set declared) (rt_phases raw)
     then Inr (raws @ [raw], declared @ phase_ids raw, executions)
     else
       let (renamed, executions) = fold (rename_phase declared) (rt_phases raw) ([], executions)
       in rbind (rename_record renamed raw) (\<lambda>raw. Inr (raws @ [raw], declared @ map snd renamed, executions)))"

definition separate_repeated_executions :: "raw_test_result list \<Rightarrow> phase_panic + raw_test_result list" where
  "separate_repeated_executions raw_results =
     rbind (try_fold separate_step raw_results ([], [], Map.empty)) (\<lambda>(raws, _, _). Inr raws)"

subsection \<open>Leaked phases\<close>

definition release_leaked :: "string set \<Rightarrow> string set \<Rightarrow> string option \<Rightarrow> string option" where
  "release_leaked declared own phase =
     (case phase of None \<Rightarrow> None | Some i \<Rightarrow> if i \<notin> own \<and> i \<in> declared then None else Some i)"

definition release_leaked_phases :: "raw_test_result list \<Rightarrow> raw_test_result list" where
  "release_leaked_phases raw_results =
     (let declared = set (concat (map phase_ids raw_results)) in
      map (\<lambda>raw. map_references (release_leaked declared (set (phase_ids raw))) raw) raw_results)"

subsection \<open>The new names are new\<close>

lemma fresh_phase_new:
  "\<exists>n. snd (fresh_phase declared i number) = i @ ''~'' @ decimal n \<and> fst (fresh_phase declared i number) = n"
  "snd (fresh_phase declared i number) \<notin> set declared"
proof -
  have "\<exists>n. snd (fresh_phase declared i number) = i @ ''~'' @ decimal n \<and> fst (fresh_phase declared i number) = n
      \<and> i @ ''~'' @ decimal n \<notin> set declared"
  proof (induction declared i number rule: fresh_phase.induct)
    case (1 declared i number)
    show ?case
      by (subst (1 2) fresh_phase.simps) (use "1.IH"[OF refl refl] in \<open>auto simp: Let_def\<close>)
  qed
  then show "\<exists>n. snd (fresh_phase declared i number) = i @ ''~'' @ decimal n \<and> fst (fresh_phase declared i number) = n"
    "snd (fresh_phase declared i number) \<notin> set declared" by auto
qed

lemma tilde_not_digit: "CHR ''~'' \<notin> set (decimal n)"
  using decimal_digits[of "CHR ''~''" n] by (auto simp: is_ascii_digit_def code_def)

lemma candidates_apart:
  assumes "i @ ''~'' @ decimal m = k @ ''~'' @ decimal n"
  shows "i = k"
proof -
  have "takeWhile (\<lambda>c. c \<noteq> CHR ''~'') (rev (i @ ''~'' @ decimal m)) = rev (decimal m)"
    "dropWhile (\<lambda>c. c \<noteq> CHR ''~'') (rev (i @ ''~'' @ decimal m)) = CHR ''~'' # rev i" for i m
    using tilde_not_digit[of m] by (simp_all add: takeWhile_append dropWhile_append)
  then have "CHR ''~'' # rev i = CHR ''~'' # rev k" using assms by metis
  then show ?thesis by simp
qed

definition new_names :: "string list \<Rightarrow> (string \<times> string) list \<Rightarrow> bool" where
  "new_names declared renamed \<longleftrightarrow> tree_map renamed
     \<and> (\<forall>i fresh. map_of renamed i = Some fresh \<longrightarrow> (\<exists>n. fresh = i @ ''~'' @ decimal n) \<and> fresh \<notin> set declared)"

lemma rename_phase_new:
  assumes "rename_phase declared phase (renamed, e) = (renamed', e')" "new_names declared renamed"
  shows "new_names declared renamed' \<and> fst ` set renamed' = insert (cp_id phase) (fst ` set renamed)"
proof -
  obtain number fresh where f: "fresh_phase declared (cp_id phase)
      (case e (cp_id phase) of Some n \<Rightarrow> n | None \<Rightarrow> 1) = (number, fresh)" by fastforce
  have new: "\<exists>n. fresh = cp_id phase @ ''~'' @ decimal n" "fresh \<notin> set declared"
    using fresh_phase_new[of declared "cp_id phase" "case e (cp_id phase) of Some n \<Rightarrow> n | None \<Rightarrow> 1"] f by auto
  have "renamed' = tree_insert (cp_id phase) fresh renamed" using assms(1) by (simp add: rename_phase_def f)
  then show ?thesis using assms(2) new by (simp add: new_names_def)
qed

lemma renamings:
  assumes "fold (rename_phase declared) phases (r0, e) = (renamed, e')" "new_names declared r0"
  shows "new_names declared renamed \<and> fst ` set renamed = cp_id ` set phases \<union> fst ` set r0"
  using assms
proof (induction phases arbitrary: r0 e)
  case (Cons phase phases)
  obtain r1 e1 where step: "rename_phase declared phase (r0, e) = (r1, e1)" by fastforce
  then have "fold (rename_phase declared) phases (r1, e1) = (renamed, e')" using Cons.prems(1) by simp
  from Cons.IH[OF this] rename_phase_new[OF step Cons.prems(2)] show ?case by auto
qed simp

lemma new_names_inj: "new_names declared renamed \<Longrightarrow> map_of renamed i = Some f \<Longrightarrow> map_of renamed k = Some f \<Longrightarrow> i = k"
  unfolding new_names_def using candidates_apart by metis

subsection \<open>No phase is declared twice\<close>

lemma map_references_fields [simp]:
  "rt_phases (map_references f raw) = rt_phases raw" "raw_test_result.rt_test (map_references f raw) = rt_test raw"
  by (simp_all add: map_references_def Let_def)

definition new_name :: "(string \<times> string) list \<Rightarrow> string \<Rightarrow> string" where
  "new_name renamed i = (case map_of renamed i of Some fresh \<Rightarrow> fresh | None \<Rightarrow> i)"

text \<open>A record with the phases it declares, the causes among them and every reference of its evidence
  renamed by \<open>f\<close>; and what becomes of a record when earlier ones declare \<open>earlier\<close>.\<close>

definition renamed_by :: "(string \<Rightarrow> string) \<Rightarrow> raw_test_result \<Rightarrow> raw_test_result" where
  "renamed_by f raw =
     (let snapshot = (\<lambda>s. s\<lparr>rs_phase_id := map_option f (rs_phase_id s),
            rs_events := map (\<lambda>event. event\<lparr>re_phase_id := map_option f (re_phase_id event)\<rparr>) (rs_events s)\<rparr>)
      in raw\<lparr>rt_phases := map (\<lambda>phase. phase\<lparr>cp_id := f (cp_id phase),
             cp_caused_by_phase_id := map_option f (cp_caused_by_phase_id phase)\<rparr>) (rt_phases raw),
           rt_runtime := map snapshot (rt_runtime raw), rt_browser := map snapshot (rt_browser raw),
           rt_server := map (\<lambda>entry. entry\<lparr>sr_phase_id := map_option f (sr_phase_id entry)\<rparr>) (rt_server raw)\<rparr>)"

definition new_names_for :: "string set \<Rightarrow> string set \<Rightarrow> (string \<Rightarrow> string) \<Rightarrow> bool" where
  "new_names_for own earlier f \<longleftrightarrow> inj_on f own \<and> (\<forall>i \<in> own. \<exists>n. f i = i @ ''~'' @ decimal n)
     \<and> f ` own \<inter> earlier = {} \<and> (\<forall>i. i \<notin> own \<longrightarrow> f i = i)"

definition set_apart :: "string set \<Rightarrow> raw_test_result \<Rightarrow> raw_test_result \<Rightarrow> bool" where
  "set_apart earlier raw raw' \<longleftrightarrow> set (phase_ids raw') \<inter> earlier = {}
     \<and> (if set (phase_ids raw) \<inter> earlier = {} then raw' = raw
        else \<exists>f. new_names_for (set (phase_ids raw)) earlier f \<and> raw' = renamed_by f raw)"

lemma renamed_phases:
  assumes "\<And>phase. phase \<in> set phases \<Longrightarrow> map_of renamed (cp_id phase) \<noteq> None"
  shows "try_map (renamed_phase renamed) phases = Inr (map (\<lambda>phase. phase\<lparr>cp_id := new_name renamed (cp_id phase),
    cp_caused_by_phase_id := map_option (new_name renamed) (cp_caused_by_phase_id phase)\<rparr>) phases)"
proof -
  have "renamed_reference renamed reference = map_option (new_name renamed) reference" for reference
    by (cases reference) (auto simp: renamed_reference_def new_name_def split: option.splits)
  then have "renamed_phase renamed phase = Inr (phase\<lparr>cp_id := new_name renamed (cp_id phase),
      cp_caused_by_phase_id := map_option (new_name renamed) (cp_caused_by_phase_id phase)\<rparr>)" if "phase \<in> set phases" for phase
    using assms[OF that] by (auto simp: renamed_phase_def new_name_def ok_or_def)
  then show ?thesis by (induction phases) auto
qed

lemma renamed_record:
  assumes "\<And>phase. phase \<in> set (rt_phases raw) \<Longrightarrow> map_of renamed (cp_id phase) \<noteq> None"
  shows "rename_record renamed raw = Inr (renamed_by (new_name renamed) raw)"
proof -
  have reference: "renamed_reference renamed = map_option (new_name renamed)"
    by (rule ext) (auto simp: renamed_reference_def new_name_def split: option.splits)
  show ?thesis
    by (simp add: rename_record_def renamed_phases[OF assms] renamed_by_def map_references_def reference Let_def)
qed

lemma renamed_ids: "phase_ids (renamed_by f raw) = map f (phase_ids raw)"
  by (simp add: phase_ids_def renamed_by_def Let_def comp_def)

lemma names_for:
  assumes "new_names declared renamed" "fst ` set renamed = own"
  shows "new_names_for own (set declared) (new_name renamed)" "new_name renamed ` own = snd ` set renamed"
proof -
  have key: "\<exists>fresh. map_of renamed i = Some fresh" if "i \<in> own" for i
    using that assms(2) by (metis map_of_eq_None_iff not_None_eq)
  have other: "map_of renamed i = None" if "i \<notin> own" for i using that assms(2) by (metis map_of_eq_None_iff)
  have "inj_on (new_name renamed) own"
  proof (rule inj_onI)
    fix i k assume "i \<in> own" "k \<in> own" "new_name renamed i = new_name renamed k"
    moreover from this obtain a b where "map_of renamed i = Some a" "map_of renamed k = Some b" using key by metis
    ultimately show "i = k" using new_names_inj[of declared renamed i a k] assms(1) by (simp add: new_name_def)
  qed
  moreover have "(\<exists>n. new_name renamed i = i @ ''~'' @ decimal n) \<and> new_name renamed i \<notin> set declared" if "i \<in> own" for i
    using key[OF that] assms(1) by (auto simp: new_name_def new_names_def)
  moreover have "new_name renamed i = i" if "i \<notin> own" for i using other[OF that] by (simp add: new_name_def)
  ultimately show "new_names_for own (set declared) (new_name renamed)" unfolding new_names_for_def by blast
  have "distinct (map fst renamed)" using assms(1) tree_map_distinct by (auto simp: new_names_def)
  then have "new_name renamed (fst x) = snd x" if "x \<in> set renamed" for x
    using that by (cases x) (simp add: new_name_def)
  then show "new_name renamed ` own = snd ` set renamed" unfolding assms(2)[symmetric] by (force simp: image_image intro!: image_cong)
qed

lemma separate_step_exact:
  assumes "set declared = set (concat (map phase_ids raws))"
  shows "\<exists>raw' declared' e'. separate_step raw (raws, declared, e) = Inr (raws @ [raw'], declared', e')
    \<and> set declared' = set (concat (map phase_ids (raws @ [raw']))) \<and> set_apart (set declared) raw raw'"
proof (cases "list_ex (\<lambda>phase. cp_id phase \<in> set declared) (rt_phases raw)")
  case False
  then have "set (phase_ids raw) \<inter> set declared = {}" by (auto simp: phase_ids_def list_ex_iff)
  then show ?thesis using False assms by (auto simp: separate_step_def set_apart_def)
next
  case True
  obtain renamed f where r: "fold (rename_phase declared) (rt_phases raw) ([], e) = (renamed, f)" by fastforce
  have "new_names declared []" by (simp add: new_names_def)
  note names = renamings[OF r this]
  then have keys: "fst ` set renamed = set (phase_ids raw)" by (simp add: phase_ids_def)
  note names_for = names_for[OF conjunct1[OF names] keys]
  have "map_of renamed (cp_id phase) \<noteq> None" if "phase \<in> set (rt_phases raw)" for phase
    using that keys by (simp add: map_of_eq_None_iff phase_ids_def)
  then have "separate_step raw (raws, declared, e)
      = Inr (raws @ [renamed_by (new_name renamed) raw], declared @ map snd renamed, f)"
    using True r by (simp add: separate_step_def renamed_record)
  moreover have "set (phase_ids (renamed_by (new_name renamed) raw)) = snd ` set renamed"
    using names_for(2) by (simp add: renamed_ids)
  moreover have "set_apart (set declared) raw (renamed_by (new_name renamed) raw)"
  proof -
    have "set (phase_ids raw) \<inter> set declared \<noteq> {}" using True by (auto simp: phase_ids_def list_ex_iff)
    moreover have "set (phase_ids (renamed_by (new_name renamed) raw)) \<inter> set declared = {}"
      using names_for(1) by (simp add: renamed_ids new_names_for_def)
    ultimately show ?thesis unfolding set_apart_def using names_for(1) by auto
  qed
  ultimately show ?thesis using assms by auto
qed

definition all_apart :: "raw_test_result list \<Rightarrow> raw_test_result list \<Rightarrow> bool" where
  "all_apart raws result \<longleftrightarrow> length result = length raws
     \<and> list_all (\<lambda>i. set_apart (set (concat (map phase_ids (take i result)))) (raws ! i) (result ! i)) [0..<length raws]"

lemma all_apart_snoc:
  "all_apart raws result \<Longrightarrow> set_apart (set (concat (map phase_ids result))) raw raw' \<Longrightarrow> all_apart (raws @ [raw]) (result @ [raw'])"
  by (auto simp: all_apart_def list_all_iff nth_append)

lemma separate_fold:
  "\<exists>result declared e. try_fold separate_step raws ([], [], Map.empty) = Inr (result, declared, e)
     \<and> set declared = set (concat (map phase_ids result)) \<and> all_apart raws result"
proof (induction raws rule: rev_induct)
  case Nil
  show ?case by (simp add: all_apart_def)
next
  case (snoc raw raws)
  then obtain result declared e where IH: "try_fold separate_step raws ([], [], Map.empty) = Inr (result, declared, e)"
    "set declared = set (concat (map phase_ids result))" "all_apart raws result" by blast
  obtain raw' declared' e' where "separate_step raw (result, declared, e) = Inr (result @ [raw'], declared', e')"
    "set declared' = set (concat (map phase_ids (result @ [raw'])))" "set_apart (set declared) raw raw'"
    using separate_step_exact[OF IH(2)] by blast
  then show ?case using IH all_apart_snoc[OF IH(3)] by (simp add: try_fold_append Un_commute)
qed

lemma separation_succeeds: "\<exists>result. separate_repeated_executions raws = Inr result"
  using separate_fold[of raws] by (auto simp: separate_repeated_executions_def)

text \<open>C38: Separating executions never panics and keeps every record in its place: a record none of whose
  phases an earlier one declares is left as it was; any other has every phase it declares, and with it
  every cause and every reference of its evidence to that phase, renamed to the phase's name, a tilde and a
  number, two phases never to one name; and no record is left declaring a phase that an earlier one
  declares. A phase that one record declares twice stays declared twice.\<close>

theorem separated_executions:
  "\<exists>result. separate_repeated_executions raws = Inr result \<and> all_apart raws result
     \<and> map (\<lambda>raw. distinct (phase_ids raw)) result = map (\<lambda>raw. distinct (phase_ids raw)) raws"
proof -
  obtain result declared e where r: "try_fold separate_step raws ([], [], Map.empty) = Inr (result, declared, e)"
    "all_apart raws result" using separate_fold by blast
  have same: "distinct (phase_ids raw') = distinct (phase_ids raw)" if "set_apart earlier raw raw'" for earlier raw raw'
    using that by (auto simp: set_apart_def new_names_for_def renamed_ids distinct_map split: if_splits)
  have len: "length result = length raws" using r(2) by (simp add: all_apart_def)
  have "map (\<lambda>raw. distinct (phase_ids raw)) result = map (\<lambda>raw. distinct (phase_ids raw)) raws"
  proof (rule nth_equalityI)
    fix i assume "i < length (map (\<lambda>raw. distinct (phase_ids raw)) result)"
    then have i: "i < length raws" using len by simp
    then have "set_apart (set (concat (map phase_ids (take i result)))) (raws ! i) (result ! i)"
      using r(2) by (simp add: all_apart_def list_all_length)
    from same[OF this] show "map (\<lambda>raw. distinct (phase_ids raw)) result ! i = map (\<lambda>raw. distinct (phase_ids raw)) raws ! i"
      using i len by simp
  qed (simp add: len)
  then show ?thesis using r by (auto simp: separate_repeated_executions_def)
qed

subsection \<open>No reference leaks\<close>

definition references_of :: "raw_test_result \<Rightarrow> string set" where
  "references_of raw = (\<Union>s \<in> set (rt_runtime raw @ rt_browser raw).
       set_option (rs_phase_id s) \<union> (\<Union>event \<in> set (rs_events s). set_option (re_phase_id event)))
     \<union> (\<Union>record \<in> set (rt_server raw). set_option (sr_phase_id record))"

lemma references_mapped: "references_of (map_references f raw) \<subseteq> {k. \<exists>i. f i = Some k}"
  by (auto simp: references_of_def map_references_def Let_def elem_set)

lemma map_references_same:
  "(\<And>i. i \<in> references_of raw \<Longrightarrow> f (Some i) = Some i) \<Longrightarrow> f None = None \<Longrightarrow> map_references f raw = raw"
proof -
  assume same: "\<And>i. i \<in> references_of raw \<Longrightarrow> f (Some i) = Some i" and none: "f None = None"
  have f: "f x = x" if "set_option x \<subseteq> references_of raw" for x
    using same none that by (cases x) auto
  have event: "event\<lparr>re_phase_id := f (re_phase_id event)\<rparr> = event"
    if "s \<in> set (rt_runtime raw @ rt_browser raw)" "event \<in> set (rs_events s)" for s event
  proof -
    have "f (re_phase_id event) = re_phase_id event"
      by (rule f) (use that in \<open>auto simp: references_of_def\<close>)
    then show ?thesis by simp
  qed
  have "s\<lparr>rs_phase_id := f (rs_phase_id s), rs_events := map (\<lambda>event. event\<lparr>re_phase_id := f (re_phase_id event)\<rparr>) (rs_events s)\<rparr> = s"
    if "s \<in> set (rt_runtime raw @ rt_browser raw)" for s
  proof -
    have "map (\<lambda>event. event\<lparr>re_phase_id := f (re_phase_id event)\<rparr>) (rs_events s) = rs_events s"
      by (rule map_idI) (rule event[OF that])
    moreover have "f (rs_phase_id s) = rs_phase_id s"
      by (rule f) (use that in \<open>auto simp: references_of_def\<close>)
    ultimately show ?thesis by simp
  qed
  moreover have "r\<lparr>sr_phase_id := f (sr_phase_id r)\<rparr> = r" if "r \<in> set (rt_server raw)" for r
  proof -
    have "f (sr_phase_id r) = sr_phase_id r"
      by (rule f) (use that in \<open>auto simp: references_of_def\<close>)
    then show ?thesis by simp
  qed
  ultimately show ?thesis by (simp add: map_references_def Let_def map_idI)
qed

text \<open>After leaked phases are released, every reference left in a record is to a phase of its own or
  to one no record declares (which validation then refuses); a record whose references were its own
  or undeclared is left as it was, and what a record declares is never touched.\<close>

theorem released_references:
  "list_all2 (\<lambda>raw raw'. rt_phases raw' = rt_phases raw
      \<and> references_of raw' \<inter> set (concat (map phase_ids raws)) \<subseteq> set (phase_ids raw')
      \<and> (if references_of raw \<inter> set (concat (map phase_ids raws)) \<subseteq> set (phase_ids raw) then raw' = raw else True))
     raws (release_leaked_phases raws)"
proof -
  let ?declared = "set (concat (map phase_ids raws))"
  let ?f = "\<lambda>raw. release_leaked ?declared (set (phase_ids raw))"
  have ids: "phase_ids (map_references f raw) = phase_ids raw" for f raw by (simp add: phase_ids_def)
  have kept: "references_of (map_references (?f raw) raw) \<inter> ?declared \<subseteq> set (phase_ids raw)" for raw
  proof
    fix k assume k: "k \<in> references_of (map_references (?f raw) raw) \<inter> ?declared"
    then obtain i where "?f raw i = Some k" using references_mapped[of "?f raw" raw] by blast
    then show "k \<in> set (phase_ids raw)" using k by (auto simp: release_leaked_def split: option.splits if_splits)
  qed
  have same: "map_references (?f raw) raw = raw" if "references_of raw \<inter> ?declared \<subseteq> set (phase_ids raw)" for raw
    by (rule map_references_same) (use that in \<open>auto simp: release_leaked_def\<close>)
  have "rt_phases (map_references (?f raw) raw) = rt_phases raw
      \<and> references_of (map_references (?f raw) raw) \<inter> ?declared \<subseteq> set (phase_ids (map_references (?f raw) raw))
      \<and> (if references_of raw \<inter> ?declared \<subseteq> set (phase_ids raw) then map_references (?f raw) raw = raw else True)" for raw
    unfolding ids using kept[of raw] same[of raw] by simp
  then show ?thesis unfolding release_leaked_phases_def Let_def list_all2_map2 list_all2_same by blast
qed

end
