(* ===== verification/SummaryFacts.thy ===== *)
theory SummaryFacts
  imports CoverageView IngestExact
begin

section \<open>What a summary depends on\<close>

text \<open>
  The core reads of a decision only how many conditions it has and which vectors were seen of it, in
  any order and however often; it fails on a decision without conditions or with a vector of another
  width, and on nothing else.
\<close>

definition decision_ok :: "decision_coverage \<Rightarrow> bool" where
  "decision_ok d \<longleftrightarrow> dc_condition_count d \<noteq> 0
     \<and> list_all (\<lambda>v. length (mv_values v) = dc_condition_count d) (dc_vectors d)"

lemma find_witnesses_succeeds:
  "(\<exists>ws. find_witnesses_for_conditions vs n = Inr ws) \<longleftrightarrow> list_all (\<lambda>v. length (mv_values v) = n) vs"
  by (auto simp: search_eq_scan simp flip: find_width_None split: option.splits)

lemma decision_witnesses_succeeds: "(\<exists>ws. decision_witnesses (i, d) = Inr ws) \<longleftrightarrow> decision_ok d"
  using find_witnesses_succeeds[of "dc_vectors d" "dc_condition_count d"]
  by (simp add: decision_ok_def)

lemma try_map_succeeds: "(\<exists>ys. try_map f xs = Inr ys) \<longleftrightarrow> list_all (\<lambda>x. \<exists>y. f x = Inr y) xs"
proof (induction xs)
  case (Cons x xs)
  then show ?case by (auto simp: rbind_Inr_iff)
qed simp

lemma analyze_core_succeeds:
  "(\<exists>out. analyze_core input = Inr out) \<longleftrightarrow> list_all decision_ok (in_decisions input)"
proof -
  have "(\<exists>out. analyze_core input = Inr out)
      \<longleftrightarrow> (\<exists>wss. try_map decision_witnesses (enumerate 0 (in_decisions input)) = Inr wss)"
    using analyze_core_ok[of input] analyze_core_Inr[of input] by blast
  also have "\<dots> \<longleftrightarrow> list_all (\<lambda>x. \<exists>ws. decision_witnesses x = Inr ws) (enumerate 0 (in_decisions input))"
    by (rule try_map_succeeds)
  also have "\<dots> \<longleftrightarrow> list_all decision_ok (in_decisions input)"
  proof -
    have "(\<exists>ws. decision_witnesses x = Inr ws) \<longleftrightarrow> decision_ok (snd x)" for x
      using decision_witnesses_succeeds[of "fst x" "snd x"] by simp
    then show ?thesis
      using list.pred_map[of decision_ok snd "enumerate 0 (in_decisions input)"] by (simp add: comp_def)
  qed
  finally show ?thesis .
qed

subsection \<open>The same decisions, points, branches and lines give the same summary\<close>

definition same_decision :: "decision_coverage \<Rightarrow> decision_coverage \<Rightarrow> bool" where
  "same_decision d d' \<longleftrightarrow> dc_condition_count d = dc_condition_count d' \<and> set (dc_vectors d) = set (dc_vectors d')"

lemma same_decision_covered:
  assumes "same_decision d d'"
  shows "decision_outcomes_covered d = decision_outcomes_covered d'"
    "condition_outcomes_covered d = condition_outcomes_covered d'"
    "dc_vectors d = [] \<longleftrightarrow> dc_vectors d' = []" "decision_ok d \<longleftrightarrow> decision_ok d'"
proof -
  note same = assms[unfolded same_decision_def]
  show "decision_outcomes_covered d = decision_outcomes_covered d'"
    "condition_outcomes_covered d = condition_outcomes_covered d'" "decision_ok d \<longleftrightarrow> decision_ok d'"
    using same by (simp_all add: decision_outcomes_covered_def condition_outcomes_covered_def list_ex_iff
        decision_ok_def list_all_iff)
  show "dc_vectors d = [] \<longleftrightarrow> dc_vectors d' = []" using same by (metis set_empty)
qed

lemma witnessed_iff:
  assumes "find_witnesses_for_conditions vs n = Inr ws" "c < n"
  shows "ws ! c \<noteq> None \<longleftrightarrow> (\<exists>v \<in> set vs. \<exists>w \<in> set vs. is_independence_pair v w c)"
proof (cases "ws ! c")
  case None
  then show ?thesis using witness_meaning[OF assms] by simp
next
  case (Some p)
  then have "vs ! wi_first p \<in> set vs" "vs ! wi_second p \<in> set vs"
    "is_independence_pair (vs ! wi_first p) (vs ! wi_second p) c"
    using witness_meaning[OF assms] by auto
  then show ?thesis using Some by blast
qed

lemma same_witnessed:
  assumes "find_witnesses_for_conditions vs n = Inr ws" "find_witnesses_for_conditions vs' n = Inr ws'"
    "set vs = set vs'"
  shows "map (\<lambda>w. w \<noteq> None) ws = map (\<lambda>w. w \<noteq> None) ws'"
proof (rule nth_equalityI)
  show "length (map (\<lambda>w. w \<noteq> None) ws) = length (map (\<lambda>w. w \<noteq> None) ws')"
    using find_witnesses_length assms(1,2) by auto
next
  fix c assume "c < length (map (\<lambda>w. w \<noteq> None) ws)"
  then have c: "c < n" "c < length ws" "c < length ws'" using find_witnesses_length assms(1,2) by auto
  have "(ws ! c \<noteq> None) = (ws' ! c \<noteq> None)"
    unfolding witnessed_iff[OF assms(1) c(1)] witnessed_iff[OF assms(2) c(1)] assms(3) ..
  then show "map (\<lambda>w. w \<noteq> None) ws ! c = map (\<lambda>w. w \<noteq> None) ws' ! c" using c by (simp del: not_None_eq)
qed

lemma same_witnesses:
  assumes "list_all2 same_decision ds ds'"
    "try_map decision_witnesses (enumerate 0 ds) = Inr wss" "try_map decision_witnesses (enumerate 0 ds') = Inr wss'"
  shows "map (map (\<lambda>w. w \<noteq> None)) wss = map (map (\<lambda>w. w \<noteq> None)) wss'"
proof -
  note w = witnesses_per_decision[OF assms(2)] witnesses_per_decision[OF assms(3)]
  have len: "length wss = length ds" "length wss' = length ds'" "length ds = length ds'"
    using w assms(1) by (auto dest: list_all2_lengthD)
  show ?thesis
  proof (rule nth_equalityI)
    fix i assume "i < length (map (map (\<lambda>w. w \<noteq> None)) wss)"
    then have i: "i < length ds" "i < length ds'" "i < length wss" "i < length wss'" using len by simp_all
    have "same_decision (ds ! i) (ds' ! i)" using assms(1) i by (simp add: list_all2_nthD)
    then have same: "dc_condition_count (ds' ! i) = dc_condition_count (ds ! i)"
      "set (dc_vectors (ds ! i)) = set (dc_vectors (ds' ! i))" by (simp_all add: same_decision_def)
    have f: "find_witnesses_for_conditions (dc_vectors (ds ! i)) (dc_condition_count (ds ! i)) = Inr (wss ! i)"
      "find_witnesses_for_conditions (dc_vectors (ds' ! i)) (dc_condition_count (ds' ! i)) = Inr (wss' ! i)"
      using list_all2_nthD[OF w(1) i(1)] list_all2_nthD[OF w(2) i(2)] by blast+
    show "map (map (\<lambda>w. w \<noteq> None)) wss ! i = map (map (\<lambda>w. w \<noteq> None)) wss' ! i"
      using same_witnessed[OF f(1) f(2)[unfolded same(1)] same(2)] i(3,4) by (simp del: not_None_eq)
  qed (use len in simp)
qed

lemma witness_counts:
  "length (filter (\<lambda>w. w \<noteq> None) (concat wss)) = length (filter id (concat (map (map (\<lambda>w. w \<noteq> None)) wss)))"
  "length (filter (list_all (\<lambda>w. w \<noteq> None)) wss) = length (filter (list_all id) (map (map (\<lambda>w. w \<noteq> None)) wss))"
proof -
  show "length (filter (list_all (\<lambda>w. w \<noteq> None)) wss) = length (filter (list_all id) (map (map (\<lambda>w. w \<noteq> None)) wss))"
    by (simp add: filter_map list.pred_map comp_def del: not_None_eq)
  have "length (filter (\<lambda>w. w \<noteq> None) ws) = length (filter id (map (\<lambda>w. w \<noteq> None) ws))" for ws :: "'a option list"
    by (simp add: filter_map comp_def del: not_None_eq)
  then show "length (filter (\<lambda>w. w \<noteq> None) (concat wss)) = length (filter id (concat (map (map (\<lambda>w. w \<noteq> None)) wss)))"
    by (simp add: map_concat [symmetric] del: not_None_eq)
qed

text \<open>The fields \<open>analyze_core_counts\<close> does not give.\<close>

lemma analyze_core_rest:
  assumes "analyze_core input = Inr out"
  shows "cs_decisions (out_summary out) = length (in_decisions input)"
    "cs_executed_decisions (out_summary out) = length (filter id (map (\<lambda>d. dc_vectors d \<noteq> []) (in_decisions input)))"
    "cs_covered_decisions (out_summary out) = length (filter (list_all (\<lambda>w. w \<noteq> None)) (out_witnesses out))"
    "cs_completeness_blocked (out_summary out) = None" "cs_unmeasured_obligations (out_summary out) = None"
    "cs_exact_fraction_pct (out_summary out) = None"
  using assms by (auto simp: analyze_core_def Let_def rbind_Inr_iff filter_map comp_def simp del: not_None_eq)

lemma same_input_summary:
  assumes "list_all2 same_decision (in_decisions a) (in_decisions b)"
    "in_points a = in_points b" "in_branches a = in_branches b" "in_lines a = in_lines b"
    "analyze_core a = Inr out" "analyze_core b = Inr out'"
  shows "out_summary out = out_summary out'"
proof -
  note w = same_witnesses[OF assms(1) analyze_core_Inr[OF assms(5)] analyze_core_Inr[OF assms(6)]]
  have len: "length (in_decisions a) = length (in_decisions b)" using assms(1) by (rule list_all2_lengthD)
  have outcomes: "map decision_outcomes_covered (in_decisions a) = map decision_outcomes_covered (in_decisions b)"
    "map condition_outcomes_covered (in_decisions a) = map condition_outcomes_covered (in_decisions b)"
    "map (\<lambda>d. dc_vectors d \<noteq> []) (in_decisions a) = map (\<lambda>d. dc_vectors d \<noteq> []) (in_decisions b)"
    using assms(1) by (induction rule: list_all2_induct) (auto simp: same_decision_covered)
  note A = analyze_core_counts[OF assms(5)] analyze_core_rest[OF assms(5)]
  note B = analyze_core_counts[OF assms(6)] analyze_core_rest[OF assms(6)]
  have conditions: "map dc_condition_count (in_decisions a) = map dc_condition_count (in_decisions b)"
    using assms(1) by (induction rule: list_all2_induct) (auto simp: same_decision_def)
  have basic: "cs_lines (out_summary out) = cs_lines (out_summary out')"
    "cs_statements (out_summary out) = cs_statements (out_summary out')"
    "cs_functions (out_summary out) = cs_functions (out_summary out')"
    "cs_branches (out_summary out) = cs_branches (out_summary out')"
    "cs_value_selections (out_summary out) = cs_value_selections (out_summary out')"
    "cs_conditions (out_summary out) = cs_conditions (out_summary out')"
    "cs_decision_outcomes (out_summary out) = cs_decision_outcomes (out_summary out')"
    "cs_condition_outcomes (out_summary out) = cs_condition_outcomes (out_summary out')"
    unfolding A(1-8) B(1-8) assms(2-4) conditions outcomes len by (rule refl)+
  have covered: "cs_covered_conditions (out_summary out) = cs_covered_conditions (out_summary out')"
    unfolding A(9) B(9) witness_counts(1) w ..
  then have pct: "cs_condition_coverage_pct (out_summary out) = cs_condition_coverage_pct (out_summary out')"
    unfolding A(10) B(10) basic by simp
  then have complete: "cs_coverage_complete (out_summary out) = cs_coverage_complete (out_summary out')"
    unfolding A(11) B(11) basic by simp
  have rest: "cs_decisions (out_summary out) = cs_decisions (out_summary out')"
    "cs_executed_decisions (out_summary out) = cs_executed_decisions (out_summary out')"
    "cs_covered_decisions (out_summary out) = cs_covered_decisions (out_summary out')"
    unfolding A(12-14) B(12-14) witness_counts(2) w len outcomes by (rule refl)+
  show ?thesis
    by (rule coverage_summary.equality) (simp_all add: basic covered pct complete rest A(15-17) B(15-17))
qed

end
