(* ===== verification/ViewFacts.thy ===== *)
theory ViewFacts
  imports SummaryFacts
begin

section \<open>What the results of a view say of the state they are made from\<close>

text \<open>
  The tables always exist; the loop over the decisions gives every declared decision the vectors
  seen of it, once; each result names exactly the tests the references name.
\<close>

subsection \<open>The tables\<close>

lemma try_map_expect:
  assumes "\<And>x. x \<in> set xs \<Longrightarrow> f x \<noteq> None"
  shows "\<exists>ys. try_map (\<lambda>x. rbind (expect (f x)) (\<lambda>y. Inr (g y))) xs = Inr ys"
proof -
  have "\<exists>y. rbind (expect (f x)) (\<lambda>y. Inr (g y)) = Inr y" if "x \<in> set xs" for x
    using assms[OF that] by (auto simp: expect_def ok_or_def)
  then show ?thesis unfolding try_map_succeeds list_all_iff by blast
qed

lemma view_tables_exist:
  assumes "view_inv st"
  obtains vt where "view_tables_of st = Inr vt" "vt_tests vt = into_relation (vs_tests_by_hit st) (vs_hit_ids st)"
    "vt_phases vt = into_relation (vs_phases_by_hit st) (vs_hit_ids st)"
    "vt_explicit vt = into_relation (vs_explicit_phases_by_hit st) (vs_hit_ids st)"
proof -
  note names = view_invD(6)[OF assms, unfolded names_ok_def]
  have 1: "\<exists>ys. try_map (\<lambda>x. rbind (expect (vs_tests st x)) (\<lambda>y. Inr (traits_of y)))
      (rl_names (into_relation (vs_tests_by_hit st) (vs_hit_ids st))) = Inr ys"
    by (rule try_map_expect) (use names in \<open>simp; blast\<close>)
  have phases: "\<exists>ys. phase_kinds_of st rl = Inr ys" if "set (rl_names rl) \<subseteq> set (map fst (vs_phases st))" for rl
    unfolding phase_kinds_of_def
    by (rule try_map_expect) (use that in \<open>auto simp: map_of_eq_None_iff\<close>)
  have 2: "\<exists>ys. phase_kinds_of st (into_relation (vs_phases_by_hit st) (vs_hit_ids st)) = Inr ys"
    "\<exists>ys. phase_kinds_of st (into_relation (vs_explicit_phases_by_hit st) (vs_hit_ids st)) = Inr ys"
    by (rule phases, use names in simp)+
  show thesis using 1 2 that by (auto simp: view_tables_of_def Let_def)
qed

subsection \<open>The loop over the decisions\<close>

text \<open>What a list of decisions is given, each name once: the first decision of a name takes what
  the map holds for it.\<close>

fun taken :: "decision_meta list \<Rightarrow> (string \<Rightarrow> 'a list) \<Rightarrow> 'a list list" where
  "taken [] f = []"
| "taken (meta # metas) f = f (dm_id meta) # taken metas (f(dm_id meta := []))"

lemma length_taken [simp]: "length (taken metas f) = length metas"
  by (induction metas arbitrary: f) simp_all

lemma taken_distinct: "distinct (map dm_id metas) \<Longrightarrow> taken metas f = map (\<lambda>meta. f (dm_id meta)) metas"
  by (induction metas arbitrary: f) (auto simp: image_iff intro!: map_cong)

lemma taken_rel:
  "R [] [] \<Longrightarrow> (\<And>d. R (f d) (g d)) \<Longrightarrow> list_all2 R (taken metas f) (taken metas g)"
  by (induction metas arbitrary: f g) simp_all

lemma taken_map: "taken metas (\<lambda>d. map h (f d)) = map (map h) (taken metas f)"
proof (induction metas arbitrary: f)
  case (Cons meta metas)
  have "(\<lambda>d. map h (f d))(dm_id meta := []) = (\<lambda>d. map h ((f(dm_id meta := [])) d))" by auto
  then show ?case by (simp only: taken.simps list.map Cons)
qed simp

lemma taken_all: "P [] \<Longrightarrow> (\<And>d. P (f d)) \<Longrightarrow> list_all P (taken metas f)"
  by (induction metas arbitrary: f) simp_all

lemma listed_removed: "listed (m(d := None)) = (listed m)(d := [])"
  by (auto simp: listed_def)

definition vectors_fit :: "decision_meta \<Rightarrow> mcdc_vector list \<Rightarrow> bool" where
  "vectors_fit meta vectors \<longleftrightarrow> list_all (\<lambda>v. length (mv_values v) = length (dm_conditions meta)) vectors"

lemma observed_vector [simp]: "vo_vector (vector_observation_of vt os) = mb_vector os"
  by (simp add: vector_observation_of_def Let_def)

lemma observed_vectors [simp]: "map (vo_vector \<circ> vector_observation_of vt) os = map mb_vector os"
  by (induction os) simp_all

lemma decision_result_of_fields:
  assumes "decision_result_of vt os ns meta = Inr result"
  shows "dr_meta result = meta" "dr_vectors result = map mb_vector os" "dr_executed result \<longleftrightarrow> os \<noteq> []"
    "dr_vector_observations result = map (vector_observation_of vt) os"
    "dr_tests result = rd_names (relation_reached (vt_tests vt) ns)"
    "dr_covered result \<longleftrightarrow> list_all cr_covered (dr_conditions result)"
    "\<exists>ws. find_witnesses_for_conditions (map mb_vector os) (length (dm_conditions meta)) = Inr ws
       \<and> dr_conditions result = map (condition_result_of (map (vector_observation_of vt) os) ws) (enumerate 0 (dm_conditions meta))"
  using assms by (auto simp: decision_result_of_def Let_def split: sum.splits)

lemma decision_result_of_succeeds:
  "succeeds (decision_result_of vt os ns meta) \<longleftrightarrow> vectors_fit meta (map mb_vector os)"
  using find_witnesses_succeeds[of "map mb_vector os" "length (dm_conditions meta)"]
  by (auto simp: decision_result_of_def Let_def vectors_fit_def succeeds_def split: sum.splits)

lemma decision_result_of_no_panic: "decision_result_of vt os ns meta \<noteq> Inl Panicked"
  by (simp add: decision_result_of_def Let_def split: sum.split)

lemma decision_loop:
  "case try_fold (decision_step vt B) metas dl of
     Inl e \<Rightarrow> e \<noteq> Panicked \<and> \<not> list_all2 vectors_fit metas (taken metas (\<lambda>d. map mb_vector (listed (dl_vectors dl) d)))
   | Inr dl' \<Rightarrow> list_all2 vectors_fit metas (taken metas (\<lambda>d. map mb_vector (listed (dl_vectors dl) d)))
       \<and> (\<exists>results. dl_decisions dl' = dl_decisions dl @ results
          \<and> list_all2 (\<lambda>(meta, os, ns) result. decision_result_of vt os ns meta = Inr result)
              (zip metas (zip (taken metas (listed (dl_vectors dl))) (taken metas (listed (dl_tests dl))))) results)
       \<and> dl_outcome_branches dl' = dl_outcome_branches dl
           @ map (\<lambda>(meta, os). outcome_branch vt os meta)
               (filter (\<lambda>(meta, _). dm_id meta @ '':outcome'' \<notin> B) (zip metas (taken metas (listed (dl_vectors dl)))))"
proof (induction metas arbitrary: dl)
  case (Cons meta metas)
  let ?os = "listed (dl_vectors dl) (dm_id meta)" and ?ns = "listed (dl_tests dl) (dm_id meta)"
  let ?dl = "\<lambda>result. \<lparr>dl_vectors = (dl_vectors dl)(dm_id meta := None), dl_tests = (dl_tests dl)(dm_id meta := None),
      dl_outcome_branches = dl_outcome_branches dl
        @ (if dm_id meta @ '':outcome'' \<in> B then [] else [outcome_branch vt ?os meta]),
      dl_decisions = dl_decisions dl @ [result]\<rparr>"
  have step: "decision_step vt B meta dl = rbind (decision_result_of vt ?os ?ns meta) (\<lambda>result. Inr (?dl result))"
    by (simp add: decision_step_def Let_def listed_def)
  have fit: "taken (meta # metas) (\<lambda>d. map mb_vector (listed (dl_vectors dl) d))
      = map mb_vector ?os # taken metas (\<lambda>d. map mb_vector (listed (dl_vectors (?dl r)) d))" for r
  proof -
    have "(\<lambda>d. map mb_vector (listed (dl_vectors dl) d))(dm_id meta := [])
        = (\<lambda>d. map mb_vector (listed (dl_vectors (?dl r)) d))" by (auto simp: listed_removed)
    then show ?thesis by simp
  qed
  show ?case
  proof (cases "decision_result_of vt ?os ?ns meta")
    case (Inl e)
    then have "\<not> vectors_fit meta (map mb_vector ?os)" using decision_result_of_succeeds[of vt ?os ?ns meta] by simp
    moreover have "e \<noteq> Panicked" using Inl decision_result_of_no_panic[of vt ?os ?ns meta] by auto
    ultimately show ?thesis using Inl by (simp add: step)
  next
    case (Inr result)
    then have ok: "vectors_fit meta (map mb_vector ?os)" using decision_result_of_succeeds[of vt ?os ?ns meta] by simp
    have run: "try_fold (decision_step vt B) (meta # metas) dl = try_fold (decision_step vt B) metas (?dl result)"
      by (simp add: step Inr)
    show ?thesis
    proof (cases "try_fold (decision_step vt B) metas (?dl result)")
      case (Inl e)
      then show ?thesis using Cons.IH[of "?dl result"] unfolding run fit[of result] by simp
    next
      case (Inr dl')
      then obtain results where "dl_decisions dl' = dl_decisions (?dl result) @ results"
        "list_all2 (\<lambda>(meta, os, ns) result. decision_result_of vt os ns meta = Inr result)
          (zip metas (zip (taken metas ((listed (dl_vectors dl))(dm_id meta := [])))
            (taken metas ((listed (dl_tests dl))(dm_id meta := []))))) results"
        using Cons.IH[of "?dl result"] by (auto simp: listed_removed)
      then have "dl_decisions dl' = dl_decisions dl @ (result # results)"
        "list_all2 (\<lambda>(meta, os, ns) result. decision_result_of vt os ns meta = Inr result)
          (zip (meta # metas) (zip (taken (meta # metas) (listed (dl_vectors dl)))
            (taken (meta # metas) (listed (dl_tests dl))))) (result # results)"
        using \<open>decision_result_of vt ?os ?ns meta = Inr result\<close> by simp_all
      moreover have "list_all2 vectors_fit metas (taken metas (\<lambda>d. map mb_vector (listed (dl_vectors (?dl result)) d)))"
        "dl_outcome_branches dl' = dl_outcome_branches (?dl result)
           @ map (\<lambda>(meta, os). outcome_branch vt os meta) (filter (\<lambda>(meta, _). dm_id meta @ '':outcome'' \<notin> B)
              (zip metas (taken metas ((listed (dl_vectors dl))(dm_id meta := [])))))"
        using Cons.IH[of "?dl result"] Inr by (auto simp: listed_removed)
      ultimately show ?thesis using Inr ok unfolding run fit[of result] by auto
    qed
  qed
qed simp

subsection \<open>The other results never fail\<close>

lemma position_of_in: "x \<in> set xs \<Longrightarrow> \<exists>n. position_of x xs = Some n"
  by (induction xs) auto

lemma hit_locations_exist: "\<exists>locations. hit_locations_of hits points = Inr locations"
proof -
  have "\<exists>locations. try_fold (locate_point hits (point_files_of points)) ps l = Inr locations"
    if "set ps \<subseteq> set points" for ps l
    using that
  proof (induction ps arbitrary: l)
    case (Cons p ps)
    obtain n where n: "position_of (pm_file p) (point_files_of points) = Some n"
      using position_of_in[of "pm_file p" "point_files_of points"] Cons.prems by (auto simp: point_files_of_def)
    have "\<exists>l'. locate_point hits (point_files_of points) p l = Inr l'"
      by (simp add: locate_point_def n expect_def ok_or_def split: option.split)
    then show ?case using Cons by auto
  qed simp
  then show ?thesis by (simp add: hit_locations_of_def)
qed

lemma test_results_exist:
  assumes "view_inv st"
  shows "\<exists>tests. test_results st files locations = Inr tests"
proof -
  have "\<exists>y. expect (vs_tests st i) = Inr y" if "i \<in> set (vs_test_order st)" for i
    using view_invD(6)[OF assms] that by (auto simp: names_ok_def expect_def ok_or_def)
  then have "\<exists>ys. try_map (\<lambda>i. expect (vs_tests st i)) (vs_test_order st) = Inr ys"
    unfolding try_map_succeeds list_all_iff by blast
  then show ?thesis by (auto simp: test_results_def)
qed

subsection \<open>Every result of a state\<close>

definition ordered_decisions :: "'v coverage_manifest \<Rightarrow> decision_meta list" where
  "ordered_decisions manifest = sort_key (\<lambda>meta. (dm_file meta, dm_line meta, dm_column meta)) (cm_decisions manifest)"

definition declares_outcome :: "'v coverage_manifest \<Rightarrow> decision_meta \<Rightarrow> bool" where
  "declares_outcome manifest meta \<longleftrightarrow> dm_id meta @ '':outcome'' \<in> set (map bm_id (cm_branches manifest))"

definition results_from :: "view_tables \<Rightarrow> 'v coverage_manifest \<Rightarrow> view_state \<Rightarrow> view_results \<Rightarrow> bool" where
  "results_from vt manifest st r \<longleftrightarrow>
     (let metas = ordered_decisions manifest; declined = declined_of manifest in
      list_all2 (\<lambda>(meta, os, ns) result. decision_result_of vt os ns meta = Inr result)
        (zip metas (zip (taken metas (listed (vs_vectors st))) (taken metas (listed (vs_tests_by_decision st))))) (vr_decisions r)
      \<and> vr_points r = map (point_result_of vt declined) (cm_points manifest)
      \<and> vr_branches r = map (branch_result_of vt declined) (cm_branches manifest)
          @ map (\<lambda>(meta, os). outcome_branch vt os meta)
              (filter (\<lambda>(meta, _). \<not> declares_outcome manifest meta) (zip metas (taken metas (listed (vs_vectors st)))))
      \<and> vr_lines r = line_results vt declined (vr_points r)
      \<and> set (map tc_id (vr_tests r)) = mt_id ` ran (vs_tests st))"

lemma test_results_ids:
  assumes "view_inv st" "test_results st files locations = Inr tests"
  shows "set (map tc_id tests) = mt_id ` ran (vs_tests st)"
proof -
  obtain ys where ys: "try_map (\<lambda>i. expect (vs_tests st i)) (vs_test_order st) = Inr ys"
    "tests = map (test_result_of (vs_hit_ids st) files locations) (sort_key mt_name ys)"
    using assms(2) by (auto simp: test_results_def rbind_Inr_iff)
  have "list_all2 (\<lambda>i y. vs_tests st i = Some y) (vs_test_order st) ys"
    using ys(1) by (simp add: try_map_Inr_iff expect_def ok_or_Inr_iff)
  then have "Some ` set ys = vs_tests st ` set (vs_test_order st)"
    by (induction rule: list_all2_induct) auto
  moreover have "set (vs_test_order st) = dom (vs_tests st)" using view_invD(6)[OF assms(1)] by (simp add: names_ok_def)
  ultimately have "Some ` set ys = vs_tests st ` dom (vs_tests st)" by simp
  then have "set ys = ran (vs_tests st)"
    by (auto simp: ran_def dom_def image_iff set_eq_iff) (metis option.inject, metis option.inject)
  then show ?thesis using ys(2) by (simp add: test_result_of_def image_image)
qed

lemma all_results_exact:
  assumes "view_inv st"
  obtains vt where "vt_tests vt = into_relation (vs_tests_by_hit st) (vs_hit_ids st)"
    "case all_results manifest st of
       Inl e \<Rightarrow> e \<noteq> Panicked
         \<and> \<not> list_all2 vectors_fit (ordered_decisions manifest) (taken (ordered_decisions manifest) (seen st))
     | Inr r \<Rightarrow> results_from vt manifest st r
         \<and> list_all2 vectors_fit (ordered_decisions manifest) (taken (ordered_decisions manifest) (seen st))"
proof -
  obtain vt where vt: "view_tables_of st = Inr vt" "vt_tests vt = into_relation (vs_tests_by_hit st) (vs_hit_ids st)"
    using view_tables_exist[OF assms] by metis
  let ?dl = "\<lparr>dl_vectors = vs_vectors st, dl_tests = vs_tests_by_decision st, dl_outcome_branches = [], dl_decisions = []\<rparr>"
  have seen: "seen st = (\<lambda>d. map mb_vector (listed (vs_vectors st) d))" by (simp add: seen_def fun_eq_iff)
  obtain locations where locations: "hit_locations_of (vs_hit_ids st) (cm_points manifest) = Inr locations"
    using hit_locations_exist by blast
  obtain tests where tests: "test_results st (point_files_of (cm_points manifest)) locations = Inr tests"
    using test_results_exist[OF assms] by blast
  note loop = decision_loop[where vt = vt and B = "set (map bm_id (cm_branches manifest))"
    and metas = "ordered_decisions manifest" and dl = ?dl]
  have "case all_results manifest st of
       Inl e \<Rightarrow> e \<noteq> Panicked
         \<and> \<not> list_all2 vectors_fit (ordered_decisions manifest) (taken (ordered_decisions manifest) (seen st))
     | Inr r \<Rightarrow> results_from vt manifest st r
         \<and> list_all2 vectors_fit (ordered_decisions manifest) (taken (ordered_decisions manifest) (seen st))"
  proof (cases "try_fold (decision_step vt (set (map bm_id (cm_branches manifest)))) (ordered_decisions manifest) ?dl")
    case (Inl e)
    then have "all_results manifest st = Inl e"
      by (simp add: all_results_def Let_def vt(1) decision_results_def ordered_decisions_def)
    then show ?thesis using loop Inl by (simp add: seen)
  next
    case (Inr dl)
    let ?points = "map (point_result_of vt (declined_of manifest)) (cm_points manifest)"
    have "all_results manifest st = Inr \<lparr>vr_decisions = dl_decisions dl, vr_points = ?points,
        vr_branches = map (branch_result_of vt (declined_of manifest)) (cm_branches manifest) @ dl_outcome_branches dl,
        vr_lines = line_results vt (declined_of manifest) ?points, vr_tests = tests,
        vr_phases = phase_results st (point_files_of (cm_points manifest)) locations\<rparr>"
      using Inr by (simp add: all_results_def Let_def vt(1) decision_results_def ordered_decisions_def locations tests)
    then show ?thesis using loop Inr test_results_ids[OF assms tests]
      by (simp add: seen results_from_def Let_def declares_outcome_def)
  qed
  then show thesis using vt(2) that by blast
qed

subsection \<open>The summaries\<close>

definition coverage_of :: "string set option \<Rightarrow> decision_result \<Rightarrow> decision_coverage" where
  "coverage_of test_ids decision =
     \<lparr>dc_condition_count = length (dm_conditions (dr_meta decision)),
       dc_vectors = map vo_vector (filter (\<lambda>observation. included test_ids (vo_tests observation) True)
         (dr_vector_observations decision))\<rparr>"

lemma in_decisions_summary: "in_decisions (summary_input ds ps bs ls T) = map (coverage_of T) ds"
  by (simp add: summary_input_def coverage_of_def)

lemma summary_succeeds:
  "(\<exists>s. summary_for_results ds ps bs ls T = Inr s) \<longleftrightarrow> list_all (\<lambda>d. decision_ok (coverage_of T d)) ds"
  using analyze_core_succeeds[of "summary_input ds ps bs ls T"]
  by (auto simp: summary_for_results_def in_decisions_summary list.pred_map comp_def split: sum.splits)

lemma coverage_of_fewer: "decision_ok (coverage_of None d) \<Longrightarrow> decision_ok (coverage_of T d)"
  by (auto simp: decision_ok_def coverage_of_def list_all_iff included_def)

lemma summary_part:
  assumes "summary_for_results ds ps bs ls None = Inr s"
  shows "\<exists>s. summary_for_results ds ps bs ls T = Inr s"
proof -
  have "list_all (\<lambda>d. decision_ok (coverage_of None d)) ds" using assms summary_succeeds[of ds ps bs ls None] by blast
  then have "list_all (\<lambda>d. decision_ok (coverage_of T d)) ds" by (rule list.pred_mono_strong) (rule coverage_of_fewer)
  then show ?thesis using summary_succeeds[of ds ps bs ls T] by blast
qed

lemma dimension_rows_exist:
  assumes "summary_for_results ds ps bs ls None = Inr s"
  shows "\<exists>rows. dimension_coverage_of ds ps bs ls tests field = Inr rows"
proof -
  have "\<exists>row. dimension_row ds ps bs ls tests field x = Inr row" for x
    using summary_part[OF assms] unfolding dimension_row_def Let_def unwrap_def by (metis rbind.simps(2) sum.simps(6))
  then show ?thesis unfolding dimension_coverage_of_def try_map_succeeds list_all_iff by blast
qed

definition undeclined_decisions :: "'v coverage_manifest \<Rightarrow> view_results \<Rightarrow> decision_result list" where
  "undeclined_decisions manifest r =
     filter (\<lambda>result. dm_id (dr_meta result) \<notin> declined_of manifest) (vr_decisions r)"

definition undeclined_points :: "'v coverage_manifest \<Rightarrow> view_results \<Rightarrow> point_result list" where
  "undeclined_points manifest r =
     filter (\<lambda>result. pm_id (pr_meta result) \<notin> declined_of manifest) (vr_points r)"

definition undeclined_branches :: "'v coverage_manifest \<Rightarrow> view_results \<Rightarrow> branch_result list" where
  "undeclined_branches manifest r =
     filter (\<lambda>result. bm_id (br_meta result) \<notin> declined_of manifest) (vr_branches r)"

lemma view_of_results_cases:
  "case view_of_results j manifest g model r of
     Inl e \<Rightarrow> e \<noteq> Panicked \<and> \<not> list_all (\<lambda>d. decision_ok (coverage_of None d)) (undeclined_decisions manifest r)
   | Inr view \<Rightarrow> list_all (\<lambda>d. decision_ok (coverage_of None d)) (undeclined_decisions manifest r)
       \<and> cv_decisions view = undeclined_decisions manifest r \<and> cv_points view = undeclined_points manifest r
       \<and> cv_branches view = undeclined_branches manifest r \<and> cv_lines view = vr_lines r \<and> cv_tests view = vr_tests r
       \<and> cv_limitations view = cm_limitations manifest
       \<and> (\<exists>s. summary_for_results (cv_decisions view) (cv_points view) (cv_branches view) (cv_lines view) None = Inr s
          \<and> cv_summary view = settle_summary
              (length (vr_decisions r) + length (vr_points r) + length (vr_branches r))
              (length (cv_decisions view) + length (cv_points view) + length (cv_branches view))
              (list_ex (blocking_limitation j) (cm_limitations manifest)) s)"
proof (cases "summary_for_results (undeclined_decisions manifest r) (undeclined_points manifest r)
      (undeclined_branches manifest r) (vr_lines r) None")
  case (Inl e)
  then show ?thesis
    using summary_succeeds[of "undeclined_decisions manifest r" "undeclined_points manifest r"
        "undeclined_branches manifest r" "vr_lines r" None]
    by (simp add: view_of_results_def Let_def stop_report_def undeclined_decisions_def undeclined_points_def
        undeclined_branches_def)
next
  case (Inr s)
  obtain ks where ks: "dimension_coverage_of (undeclined_decisions manifest r) (undeclined_points manifest r)
      (undeclined_branches manifest r) (vr_lines r) (vr_tests r) KindDimension = Inr ks"
    using dimension_rows_exist[OF Inr] by blast
  obtain rs where rs: "dimension_coverage_of (undeclined_decisions manifest r) (undeclined_points manifest r)
      (undeclined_branches manifest r) (vr_lines r) (vr_tests r) RunnerDimension = Inr rs"
    using dimension_rows_exist[OF Inr] by blast
  have "list_all (\<lambda>d. decision_ok (coverage_of None d)) (undeclined_decisions manifest r)"
    using Inr summary_succeeds by blast
  then show ?thesis using Inr ks rs
    by (simp add: view_of_results_def Let_def stop_report_def undeclined_decisions_def undeclined_points_def
        undeclined_branches_def)
qed

subsection \<open>Which runs have a view\<close>

definition vectors_seen :: "'v coverage_manifest \<Rightarrow> raw_test_result list \<Rightarrow> string \<Rightarrow> mcdc_vector list" where
  "vectors_seen manifest raws d =
     concat (map (\<lambda>raw. vectors_of (set (map dm_id (cm_decisions manifest))) raw d) raws)"

definition view_ok :: "'v coverage_manifest \<Rightarrow> raw_test_result list \<Rightarrow> bool" where
  "view_ok manifest raws \<longleftrightarrow> raws_ok {} raws
     \<and> list_all2 vectors_fit (ordered_decisions manifest) (taken (ordered_decisions manifest) (vectors_seen manifest raws))
     \<and> list_all (\<lambda>meta. dm_id meta \<in> declined_of manifest \<or> dm_conditions meta \<noteq> []) (ordered_decisions manifest)"

lemma vectors_fit_set: "set vs = set ws \<Longrightarrow> vectors_fit meta vs \<longleftrightarrow> vectors_fit meta ws"
  by (simp add: vectors_fit_def list_all_iff)

lemma fits_set:
  assumes "\<And>d. set (f d) = set (g d)"
  shows "list_all2 vectors_fit metas (taken metas f) \<longleftrightarrow> list_all2 vectors_fit metas (taken metas g)"
proof -
  have "list_all2 (\<lambda>vs ws. set vs = set ws) (taken metas f) (taken metas g)"
    by (rule taken_rel) (simp_all add: assms)
  then have "list_all2 vectors_fit ms (taken metas f) \<longleftrightarrow> list_all2 vectors_fit ms (taken metas g)" for ms
  proof (induction arbitrary: ms rule: list_all2_induct)
    case (Cons vs f' ws g')
    then show ?case using vectors_fit_set[of vs ws] by (cases ms) auto
  qed simp
  then show ?thesis .
qed

lemma in_related: "list_all2 P xs ys \<Longrightarrow> y \<in> set ys \<Longrightarrow> \<exists>x \<in> set xs. P x y"
  by (induction rule: list_all2_induct) auto

lemma results_metas:
  assumes "results_from vt manifest st r"
  shows "map dr_meta (vr_decisions r) = ordered_decisions manifest"
proof -
  have "map dr_meta rs = metas" if "length oss = length metas" "length nss = length metas"
    "list_all2 (\<lambda>(meta, os, ns) result. decision_result_of vt os ns meta = Inr result) (zip metas (zip oss nss)) rs"
    for metas oss nss rs
    using that
  proof (induction metas arbitrary: oss nss rs)
    case (Cons meta metas)
    then obtain os oss' ns nss' where "oss = os # oss'" "nss = ns # nss'" by (auto simp: length_Suc_conv)
    then show ?case using Cons
      by (auto simp: list_all2_Cons1 decision_result_of_def Let_def split: sum.splits)
  qed simp
  note all = this
  note decisions = conjunct1[OF assms[unfolded results_from_def Let_def]]
  show ?thesis by (rule all[OF length_taken length_taken decisions])
qed

lemma results_fit:
  assumes "results_from vt manifest st r"
  shows "list_all (\<lambda>d. decision_ok (coverage_of None d)) (undeclined_decisions manifest r)
    \<longleftrightarrow> list_all (\<lambda>meta. dm_id meta \<in> declined_of manifest \<or> dm_conditions meta \<noteq> []) (ordered_decisions manifest)"
proof -
  have fit: "vectors_fit (dr_meta result) (map vo_vector (dr_vector_observations result))" if mem: "result \<in> set (vr_decisions r)" for result
  proof -
    obtain meta os ns where result: "decision_result_of vt os ns meta = Inr result"
      using in_related[OF conjunct1[OF assms[unfolded results_from_def Let_def]] mem] by auto
    then have "vectors_fit meta (map mb_vector os)" using decision_result_of_succeeds[of vt os ns meta] by simp
    then show ?thesis by (simp add: decision_result_of_fields[OF result])
  qed
  have "list_all (\<lambda>d. decision_ok (coverage_of None d)) (undeclined_decisions manifest r)
    \<longleftrightarrow> list_all (\<lambda>d. dm_id (dr_meta d) \<in> declined_of manifest \<or> dm_conditions (dr_meta d) \<noteq> []) (vr_decisions r)"
    using fit by (auto simp: list_all_iff undeclined_decisions_def decision_ok_def coverage_of_def vectors_fit_def included_def)
  then show ?thesis
    unfolding results_metas[OF assms, symmetric] by (simp add: list.pred_map comp_def)
qed

lemma view_cases:
  fixes manifest :: "'v coverage_manifest" and j :: "'v json"
  defines "m \<equiv> settled_manifest j manifest"
  shows "case create_coverage_view_with_model j manifest raws g model of
     Inl e \<Rightarrow> e \<noteq> Panicked \<and> \<not> view_ok m raws
   | Inr view \<Rightarrow> view_ok m raws
       \<and> (\<exists>st vt r. reads_run (set (map dm_id (cm_decisions m))) raws st
            \<and> vt_tests vt = into_relation (vs_tests_by_hit st) (vs_hit_ids st)
            \<and> results_from vt m st r \<and> view_of_results j m g model r = Inr view)"
proof (cases "ingest (set (map dm_id (cm_decisions m))) raws")
  case (Inl e)
  then have "e \<noteq> Panicked" using ingest_reads[of "set (map dm_id (cm_decisions m))" raws] by (auto simp: safe_def)
  moreover have "\<not> raws_ok {} raws" using Inl ingest_succeeds[of "set (map dm_id (cm_decisions m))" raws] by simp
  ultimately show ?thesis using Inl by (simp add: create_coverage_view_with_model_def Let_def view_ok_def flip: m_def)
next
  case (Inr st)
  then have st: "reads_run (set (map dm_id (cm_decisions m))) raws st"
    using ingest_reads[of "set (map dm_id (cm_decisions m))" raws] by (simp add: safe_def)
  have raws: "raws_ok {} raws" using Inr ingest_succeeds[of "set (map dm_id (cm_decisions m))" raws] by simp
  have inv: "view_inv st" using st by (simp add: reads_run_def)
  have "set (seen st d) = set (vectors_seen m raws d)" for d
    using st by (simp add: reads_run_def vectors_seen_def)
  note fits = fits_set[of "seen st" "vectors_seen m raws" "ordered_decisions m", OF this]
  have create: "create_coverage_view_with_model j manifest raws g model
      = rbind (all_results m st) (view_of_results j m g model)"
    using Inr by (simp add: create_coverage_view_with_model_def Let_def flip: m_def)
  obtain vt where vt: "vt_tests vt = into_relation (vs_tests_by_hit st) (vs_hit_ids st)"
    and all: "case all_results m st of
       Inl e \<Rightarrow> e \<noteq> Panicked \<and> \<not> list_all2 vectors_fit (ordered_decisions m) (taken (ordered_decisions m) (seen st))
     | Inr r \<Rightarrow> results_from vt m st r \<and> list_all2 vectors_fit (ordered_decisions m) (taken (ordered_decisions m) (seen st))"
    using all_results_exact[OF inv] by metis
  show ?thesis
  proof (cases "all_results m st")
    case (Inl e)
    then show ?thesis using all fits by (simp add: create view_ok_def)
  next
    case (Inr r)
    then have r: "results_from vt m st r" using all by simp
    show ?thesis
      using view_of_results_cases[where j = j and manifest = m and g = g and model = model and r = r] all Inr raws st vt r fits results_fit[OF r]
      by (cases "view_of_results j m g model r") (auto simp: create view_ok_def)
  qed
qed

end
