(* ===== verification/ViewExact.thy ===== *)
theory ViewExact
  imports ViewFacts
begin

section \<open>What a view says of its run, exactly\<close>

text \<open>C7: Building a view never panics, and the runs that have one are exactly the well-formed runs:
  every hit event and server record is what it says it is, every vector is as wide as its decision,
  and every decision that is measured has a condition. Every other run is a returned error.\<close>

theorem view_exists_exactly:
  "create_coverage_view_with_model j manifest raws g model \<noteq> Inl Panicked
   \<and> ((\<exists>view. create_coverage_view_with_model j manifest raws g model = Inr view)
        \<longleftrightarrow> view_ok (settled_manifest j manifest) raws)"
  using view_cases[of j manifest raws g model]
  by (cases "create_coverage_view_with_model j manifest raws g model") auto

lemma view_from:
  assumes "create_coverage_view_with_model j manifest raws g model = Inr view"
  obtains st vt r where "reads_run (set (map dm_id (cm_decisions (settled_manifest j manifest)))) raws st"
    "vt_tests vt = into_relation (vs_tests_by_hit st) (vs_hit_ids st)"
    "results_from vt (settled_manifest j manifest) st r"
    "view_of_results j (settled_manifest j manifest) g model r = Inr view"
  using view_cases[of j manifest raws g model] assms by auto

subsection \<open>Tests by name\<close>

text \<open>The ids of the tests whose records satisfy \<open>P\<close>, in order.\<close>

definition tests_with :: "(raw_test_result \<Rightarrow> bool) \<Rightarrow> raw_test_result list \<Rightarrow> string list" where
  "tests_with P raws = sorted_list_of_set (set (map raw_test_id (filter P raws)))"

lemma set_tests_with [simp]: "set (tests_with P raws) = raw_test_id ` {raw \<in> set raws. P raw}"
  by (simp add: tests_with_def)

lemma tests_with_empty: "tests_with P raws = [] \<longleftrightarrow> \<not> list_ex P raws"
  by (auto simp: tests_with_def list_ex_iff filter_empty_conv)

lemma tests_with_filter:
  "list_ex (\<lambda>test. test \<in> ids) (tests_with P raws) \<longleftrightarrow> tests_with P (filter (\<lambda>raw. raw_test_id raw \<in> ids) raws) \<noteq> []"
  by (auto simp: tests_with_empty list_ex_iff)

definition reaches :: "string \<Rightarrow> raw_test_result \<Rightarrow> bool" where
  "reaches hit raw \<longleftrightarrow> hit \<in> set (hits_of raw)"

lemma hit_tests_named:
  assumes "reads_run decisions raws st" "vt_tests vt = into_relation (vs_tests_by_hit st) (vs_hit_ids st)"
  shows "rd_names (relation_of (vt_tests vt) hit) = tests_with (reaches hit) raws"
    "rl_by_hit (vt_tests vt) hit \<noteq> None \<longleftrightarrow> tests_with (reaches hit) raws \<noteq> []"
proof -
  have ok: "relation_ok (vs_tests_by_hit st) (vs_hit_ids st)"
    using assms(1) view_invD(1) by (auto simp: reads_run_def)
  have "{i. (hit, i) \<in> reached_by (vs_tests_by_hit st) (vs_hit_ids st)} = set (map raw_test_id (filter (reaches hit) raws))"
    using assms(1) by (auto simp: reads_run_def hit_tests_def reaches_def)
  then show names: "rd_names (relation_of (vt_tests vt) hit) = tests_with (reaches hit) raws"
    using relation_of_names(1)[OF ok, of hit] by (simp add: tests_with_def assms(2))
  have "(\<exists>i. (hit, i) \<in> reached_by (vs_tests_by_hit st) (vs_hit_ids st)) \<longleftrightarrow> list_ex (reaches hit) raws"
    using assms(1) by (auto simp: reads_run_def hit_tests_def reaches_def list_ex_iff)
  then show "rl_by_hit (vt_tests vt) hit \<noteq> None \<longleftrightarrow> tests_with (reaches hit) raws \<noteq> []"
    using relation_of_names(2)[OF ok, of hit] by (simp add: tests_with_empty assms(2))
qed

subsection \<open>Points and branches\<close>

definition point_row :: "point_result \<Rightarrow> point_meta \<times> string list \<times> bool" where
  "point_row point = (pr_meta point, pr_tests point, pr_covered point)"

lemma point_rows:
  assumes "create_coverage_view_with_model j manifest raws g model = Inr view"
  shows "map point_row (cv_points view) =
    map (\<lambda>meta. (meta, tests_with (reaches (pm_id meta)) raws, list_ex (reaches (pm_id meta)) raws))
      (filter (\<lambda>meta. pm_id meta \<notin> declined_of (settled_manifest j manifest)) (cm_points (settled_manifest j manifest)))"
proof -
  let ?m = "settled_manifest j manifest"
  obtain st vt r where st: "reads_run (set (map dm_id (cm_decisions ?m))) raws st"
    and vt: "vt_tests vt = into_relation (vs_tests_by_hit st) (vs_hit_ids st)"
    and r: "results_from vt ?m st r" and view: "view_of_results j ?m g model r = Inr view"
    using view_from[OF assms] by metis
  have "cv_points view = filter (\<lambda>result. pm_id (pr_meta result) \<notin> declined_of ?m) (vr_points r)"
    using view_of_results_cases[where j = j and manifest = ?m and g = g and model = model and r = r] view
    by (simp add: undeclined_points_def)
  moreover have "vr_points r = map (point_result_of vt (declined_of ?m)) (cm_points ?m)"
    using r by (simp add: results_from_def Let_def)
  moreover have "point_row (point_result_of vt declined meta)
      = (meta, tests_with (reaches (pm_id meta)) raws, list_ex (reaches (pm_id meta)) raws)" for declined meta
    using hit_tests_named[OF st vt, of "pm_id meta"]
    by (simp add: point_row_def point_result_of_def Let_def tests_with_empty)
  ultimately show ?thesis by (simp add: filter_map comp_def point_result_of_def Let_def)
qed

text \<open>C2: A point is covered exactly when some test reached it, and it names exactly those tests: each
  once, in order. The declined points, and no others, are left out.\<close>

theorem points_exact:
  assumes "create_coverage_view_with_model j manifest raws g model = Inr view"
  shows "map point_row (cv_points view) =
    map (\<lambda>meta. (meta, tests_with (reaches (pm_id meta)) raws, list_ex (reaches (pm_id meta)) raws))
      (filter (\<lambda>meta. pm_id meta \<notin> declined_of (settled_manifest j manifest)) (cm_points (settled_manifest j manifest)))"
  using assms by (rule point_rows)

subsection \<open>Vectors by the tests that saw them\<close>

definition sees :: "string set \<Rightarrow> string \<Rightarrow> (mcdc_vector \<Rightarrow> bool) \<Rightarrow> raw_test_result \<Rightarrow> bool" where
  "sees decisions d P raw \<longleftrightarrow> list_ex P (vectors_of decisions raw d)"

lemma observation_tests_below:
  assumes "view_inv st" "o' \<in> set (listed (vs_vectors st) d)"
  shows "\<forall>n \<in> set (mb_tests o'). n < length (rf_names (vs_tests_by_hit st))"
  using test_numbers_below[OF assms] by blast

lemma reached_names:
  assumes "view_inv st" "vt_tests vt = into_relation (vs_tests_by_hit st) (vs_hit_ids st)"
    "\<forall>n \<in> set ns. n < length (rf_names (vs_tests_by_hit st))"
  shows "rd_names (relation_reached (vt_tests vt) ns) = sorted_list_of_set ((!) (rf_names (vs_tests_by_hit st)) ` set ns)"
  using relation_reached_names(1)[OF into_relation_inv[OF view_invD(1)[OF assms(1)]]] assms(2,3) by simp

lemma seen_by_named:
  assumes "reads_run decisions raws st"
  shows "{i. \<exists>v. P v \<and> (v, i) \<in> seen_by st d} = set (map raw_test_id (filter (sees decisions d P) raws))"
  using assms by (auto simp: reads_run_def sees_def list_ex_iff)

lemma outcome_tests:
  assumes "reads_run decisions raws st" "vt_tests vt = into_relation (vs_tests_by_hit st) (vs_hit_ids st)"
  shows "rd_names (relation_reached (vt_tests vt)
      (concat (map mb_tests (filter (\<lambda>o'. P (mb_vector o')) (listed (vs_vectors st) d)))))
    = tests_with (sees decisions d P) raws"
proof -
  let ?os = "filter (\<lambda>o'. P (mb_vector o')) (listed (vs_vectors st) d)"
  have inv: "view_inv st" using assms(1) by (simp add: reads_run_def)
  have "\<forall>n \<in> set (concat (map mb_tests ?os)). n < length (rf_names (vs_tests_by_hit st))"
    using observation_tests_below[OF inv] by auto
  note names = reached_names[OF inv assms(2) this]
  have "(!) (rf_names (vs_tests_by_hit st)) ` set (concat (map mb_tests ?os)) = {i. \<exists>v. P v \<and> (v, i) \<in> seen_by st d}"
    by (auto simp: seen_by_def vector_tests_def)
  then show ?thesis unfolding names tests_with_def seen_by_named[OF assms(1), symmetric] by simp
qed

lemma observation_tests:
  assumes "reads_run decisions raws st" "vt_tests vt = into_relation (vs_tests_by_hit st) (vs_hit_ids st)"
    "o' \<in> set (listed (vs_vectors st) d)"
  shows "vo_tests (vector_observation_of vt o') = tests_with (sees decisions d (\<lambda>v. v = mb_vector o')) raws"
proof -
  have inv: "view_inv st" using assms(1) by (simp add: reads_run_def)
  have "distinct (map mb_vector (listed (vs_vectors st) d))" by (rule indexes_ok_distinct[OF view_invD(4)[OF inv]])
  then have same: "a = o'" if "a \<in> set (listed (vs_vectors st) d)" "mb_vector a = mb_vector o'" for a
    using that assms(3) by (simp add: distinct_map inj_on_def)
  have "(!) (rf_names (vs_tests_by_hit st)) ` set (mb_tests o') = {i. \<exists>v. v = mb_vector o' \<and> (v, i) \<in> seen_by st d}"
    using same assms(3) by (fastforce simp: seen_by_def vector_tests_def)
  then show ?thesis
    unfolding tests_with_def seen_by_named[OF assms(1), symmetric]
    using reached_names[OF inv assms(2) observation_tests_below[OF inv assms(3)]]
    by (simp add: vector_observation_of_def Let_def)
qed

definition alternative_row :: "alternative_result \<Rightarrow> string \<times> string list \<times> bool" where
  "alternative_row alternative = (ar_id alternative, ar_tests alternative, ar_covered alternative)"

definition branch_row :: "branch_result \<Rightarrow> (string \<times> string list \<times> bool) list \<times> bool" where
  "branch_row branch = (map alternative_row (br_alternatives branch), br_covered branch)"

text \<open>What a row should say: the tests that satisfy \<open>P\<close>, and whether there is one; a branch is covered
  when each of its alternatives is.\<close>

definition expected_alternative :: "raw_test_result list \<Rightarrow> string \<times> (raw_test_result \<Rightarrow> bool) \<Rightarrow> string \<times> string list \<times> bool" where
  "expected_alternative raws = (\<lambda>(i, P). (i, tests_with P raws, list_ex P raws))"

definition expected_branch :: "raw_test_result list \<Rightarrow> (string \<times> (raw_test_result \<Rightarrow> bool)) list \<Rightarrow> (string \<times> string list \<times> bool) list \<times> bool" where
  "expected_branch raws alternatives =
     (map (expected_alternative raws) alternatives, list_all (\<lambda>(_, P). list_ex P raws) alternatives)"

definition declared_alternatives :: "string set \<Rightarrow> branch_meta \<Rightarrow> (string \<times> (raw_test_result \<Rightarrow> bool)) list" where
  "declared_alternatives declined meta = map (\<lambda>alternative. (ba_id alternative, reaches (ba_id alternative)))
     (filter (\<lambda>alternative. ba_id alternative \<notin> declined) (bm_alternatives meta))"

definition decision_alternatives :: "string set \<Rightarrow> decision_meta \<Rightarrow> (string \<times> (raw_test_result \<Rightarrow> bool)) list" where
  "decision_alternatives decisions meta = map (\<lambda>outcome. (dm_id meta @ '':outcome'' @ '':'' @ outcome_text outcome,
     sees decisions (dm_id meta) (\<lambda>v. mv_outcome v = outcome))) [True, False]"

lemma declared_branch_row:
  assumes "reads_run decisions raws st" "vt_tests vt = into_relation (vs_tests_by_hit st) (vs_hit_ids st)"
  shows "branch_row (branch_result_of vt declined meta) = expected_branch raws (declared_alternatives declined meta)"
proof -
  have row: "alternative_row (alternative_result_of vt alternative)
      = expected_alternative raws (ba_id alternative, reaches (ba_id alternative))" for alternative
    using hit_tests_named[OF assms, of "ba_id alternative"]
    by (simp add: alternative_row_def alternative_result_of_def Let_def expected_alternative_def tests_with_empty)
  then have "ar_covered (alternative_result_of vt alternative) \<longleftrightarrow> list_ex (reaches (ba_id alternative)) raws" for alternative
    by (simp add: alternative_row_def expected_alternative_def)
  then show ?thesis using row
    by (simp add: branch_row_def branch_result_of_def Let_def expected_branch_def declared_alternatives_def
        list.pred_map comp_def)
qed

lemma outcome_branch_row:
  assumes "reads_run decisions raws st" "vt_tests vt = into_relation (vs_tests_by_hit st) (vs_hit_ids st)"
  shows "branch_row (outcome_branch vt (listed (vs_vectors st) (dm_id meta)) meta)
    = expected_branch raws (decision_alternatives decisions meta)"
proof -
  have tests: "rd_names (relation_reached (vt_tests vt) (concat (map mb_tests
      (filter (\<lambda>o'. mv_outcome (mb_vector o') = outcome) (listed (vs_vectors st) (dm_id meta))))))
    = tests_with (sees decisions (dm_id meta) (\<lambda>v. mv_outcome v = outcome)) raws" for outcome
    by (rule outcome_tests[OF assms, where P = "\<lambda>v. mv_outcome v = outcome"])
  have row: "alternative_row (outcome_alternative vt (listed (vs_vectors st) (dm_id meta)) (dm_id meta @ '':outcome'') outcome)
      = expected_alternative raws (dm_id meta @ '':outcome'' @ '':'' @ outcome_text outcome,
          sees decisions (dm_id meta) (\<lambda>v. mv_outcome v = outcome))" for outcome
    using tests[of outcome]
    by (simp add: alternative_row_def outcome_alternative_def Let_def expected_alternative_def tests_with_empty)
  then have "ar_covered (outcome_alternative vt (listed (vs_vectors st) (dm_id meta)) (dm_id meta @ '':outcome'') outcome)
      \<longleftrightarrow> list_ex (sees decisions (dm_id meta) (\<lambda>v. mv_outcome v = outcome)) raws" for outcome
    by (simp add: alternative_row_def expected_alternative_def)
  then show ?thesis using row
    by (simp add: branch_row_def outcome_branch_def Let_def expected_branch_def decision_alternatives_def)
qed

lemma branch_rows:
  assumes "create_coverage_view_with_model j manifest raws g model = Inr view"
    and "distinct (map dm_id (cm_decisions (settled_manifest j manifest)))"
  shows "map branch_row (cv_branches view) =
    (let m = settled_manifest j manifest; declined = declined_of m in
     map (\<lambda>meta. expected_branch raws (declared_alternatives declined meta))
       (filter (\<lambda>meta. bm_id meta \<notin> declined) (cm_branches m))
     @ map (\<lambda>meta. expected_branch raws (decision_alternatives (set (map dm_id (cm_decisions m))) meta))
       (filter (\<lambda>meta. \<not> declares_outcome m meta \<and> dm_id meta @ '':outcome'' \<notin> declined) (ordered_decisions m)))"
proof -
  let ?m = "settled_manifest j manifest"
  obtain st vt r where st: "reads_run (set (map dm_id (cm_decisions ?m))) raws st"
    and vt: "vt_tests vt = into_relation (vs_tests_by_hit st) (vs_hit_ids st)"
    and r: "results_from vt ?m st r" and view: "view_of_results j ?m g model r = Inr view"
    using view_from[OF assms(1)] by metis
  have branches: "cv_branches view = filter (\<lambda>result. bm_id (br_meta result) \<notin> declined_of ?m) (vr_branches r)"
    using view_of_results_cases[where j = j and manifest = ?m and g = g and model = model and r = r] view
    by (simp add: undeclined_branches_def)
  have "distinct (map dm_id (ordered_decisions ?m))"
    using assms(2) unfolding ordered_decisions_def distinct_map by simp
  then have "zip (ordered_decisions ?m) (taken (ordered_decisions ?m) (listed (vs_vectors st)))
      = map (\<lambda>meta. (meta, listed (vs_vectors st) (dm_id meta))) (ordered_decisions ?m)"
    by (simp add: taken_distinct zip_map2 zip_same_conv_map)
  then have "vr_branches r = map (branch_result_of vt (declined_of ?m)) (cm_branches ?m)
      @ map (\<lambda>meta. outcome_branch vt (listed (vs_vectors st) (dm_id meta)) meta)
          (filter (\<lambda>meta. \<not> declares_outcome ?m meta) (ordered_decisions ?m))"
    using r by (simp add: results_from_def Let_def filter_map comp_def)
  moreover have "bm_id (br_meta (branch_result_of vt declined meta)) = bm_id meta" for declined meta
    by (simp add: branch_result_of_def Let_def)
  moreover have "bm_id (br_meta (outcome_branch vt os meta)) = dm_id meta @ '':outcome''" for os meta
    by (simp add: outcome_branch_def Let_def)
  ultimately show ?thesis
    using declared_branch_row[OF st vt] outcome_branch_row[OF st vt]
    by (simp add: branches Let_def filter_map comp_def conj_commute)
qed

text \<open>C3: A branch lists its outcomes that were not declined, each with exactly the tests that took it,
  and is covered when every one was taken. A decision whose outcomes the frontend did not declare as
  a branch gets one, of its true and its false outcome, each with the tests that saw it.\<close>

theorem branches_exact:
  assumes "create_coverage_view_with_model j manifest raws g model = Inr view"
    and "distinct (map dm_id (cm_decisions (settled_manifest j manifest)))"
  shows "map branch_row (cv_branches view) =
    (let m = settled_manifest j manifest; declined = declined_of m in
     map (\<lambda>meta. expected_branch raws (declared_alternatives declined meta))
       (filter (\<lambda>meta. bm_id meta \<notin> declined) (cm_branches m))
     @ map (\<lambda>meta. expected_branch raws (decision_alternatives (set (map dm_id (cm_decisions m))) meta))
       (filter (\<lambda>meta. \<not> declares_outcome m meta \<and> dm_id meta @ '':outcome'' \<notin> declined) (ordered_decisions m)))"
  using assms by (rule branch_rows)

subsection \<open>Decisions\<close>

text \<open>The vectors of a decision in the order the run's records first show them.\<close>

definition distinct_vectors :: "'v coverage_manifest \<Rightarrow> raw_test_result list \<Rightarrow> string \<Rightarrow> mcdc_vector list" where
  "distinct_vectors manifest raws d = fold note_vector (vectors_seen manifest raws d) []"

lemma distinct_vectors_set [simp]: "set (distinct_vectors manifest raws d) = set (vectors_seen manifest raws d)"
  by (simp add: distinct_vectors_def)

definition independent :: "mcdc_vector list \<Rightarrow> nat \<Rightarrow> bool" where
  "independent vectors c \<longleftrightarrow> list_ex (\<lambda>v. list_ex (\<lambda>w. is_independence_pair v w c) vectors) vectors"

record decision_row =
  row_meta :: decision_meta
  row_executed :: bool
  row_covered :: bool
  row_vectors :: "mcdc_vector list"
  row_tests :: "string list list"
  row_conditions :: "bool list"

definition decision_row :: "decision_result \<Rightarrow> decision_row" where
  "decision_row result = \<lparr>row_meta = dr_meta result, row_executed = dr_executed result,
     row_covered = dr_covered result, row_vectors = dr_vectors result,
     row_tests = map vo_tests (dr_vector_observations result), row_conditions = map cr_covered (dr_conditions result)\<rparr>"

definition expected_decision :: "'v coverage_manifest \<Rightarrow> raw_test_result list \<Rightarrow> decision_meta \<Rightarrow> decision_row" where
  "expected_decision manifest raws meta =
     (let d = dm_id meta; decisions = set (map dm_id (cm_decisions manifest));
          vectors = distinct_vectors manifest raws d;
          conditions = map (independent vectors) [0..<length (dm_conditions meta)]
      in \<lparr>row_meta = meta, row_executed = (vectors \<noteq> []), row_covered = list_all id conditions, row_vectors = vectors,
          row_tests = map (\<lambda>v. tests_with (sees decisions d (\<lambda>w. w = v)) raws) vectors, row_conditions = conditions\<rparr>)"

lemma condition_covered: "cr_covered (condition_result_of os ws (c, source)) \<longleftrightarrow> ws ! c \<noteq> None"
  by (simp add: condition_result_of_def Let_def)

lemma decision_row_exact:
  assumes st: "reads_run (set (map dm_id (cm_decisions m))) raws st"
    and vt: "vt_tests vt = into_relation (vs_tests_by_hit st) (vs_hit_ids st)"
    and result: "decision_result_of vt (listed (vs_vectors st) (dm_id meta)) ns meta = Inr result"
  shows "decision_row result = expected_decision m raws meta"
proof -
  let ?os = "listed (vs_vectors st) (dm_id meta)" and ?n = "length (dm_conditions meta)"
  let ?vectors = "distinct_vectors m raws (dm_id meta)"
  note fields = decision_result_of_fields[OF result]
  have vectors: "map mb_vector ?os = ?vectors"
    using st by (simp add: reads_run_def seen_def distinct_vectors_def vectors_seen_def)
  then have empty: "?os = [] \<longleftrightarrow> ?vectors = []" by (metis map_is_Nil_conv)
  have tests: "map vo_tests (dr_vector_observations result)
      = map (\<lambda>v. tests_with (sees (set (map dm_id (cm_decisions m))) (dm_id meta) (\<lambda>w. w = v)) raws) ?vectors"
    unfolding fields(4) vectors[symmetric] map_map comp_def
    by (rule map_cong[OF refl]) (rule observation_tests[OF st vt])
  obtain ws where ws: "find_witnesses_for_conditions ?vectors ?n = Inr ws"
    "dr_conditions result = map (condition_result_of (map (vector_observation_of vt) ?os) ws) (enumerate 0 (dm_conditions meta))"
    using fields(7) by (auto simp: vectors)
  have "map cr_covered (dr_conditions result) = map (\<lambda>w. w \<noteq> None) ws"
    using find_witnesses_length[OF ws(1)]
    by (intro nth_equalityI) (simp_all add: ws(2) nth_enumerate_eq condition_covered)
  also have "\<dots> = map (independent ?vectors) [0..<?n]"
    using find_witnesses_length[OF ws(1)] witnessed_iff[OF ws(1)]
    by (intro nth_equalityI) (simp_all add: independent_def list_ex_iff del: not_None_eq)
  finally have conditions: "map cr_covered (dr_conditions result) = map (independent ?vectors) [0..<?n]" .
  have "dr_covered result \<longleftrightarrow> list_all id (map cr_covered (dr_conditions result))"
    by (simp add: fields(6) list.pred_map comp_def)
  then show ?thesis
    by (simp add: decision_row_def expected_decision_def Let_def fields(1-3) vectors empty tests[unfolded] conditions
        del: distinct_vectors_set)
qed

lemma decision_rows:
  assumes "create_coverage_view_with_model j manifest raws g model = Inr view"
    and "distinct (map dm_id (cm_decisions (settled_manifest j manifest)))"
  shows "map decision_row (cv_decisions view) =
    (let m = settled_manifest j manifest in
     map (expected_decision m raws) (filter (\<lambda>meta. dm_id meta \<notin> declined_of m) (ordered_decisions m)))"
proof -
  let ?m = "settled_manifest j manifest"
  obtain st vt r where st: "reads_run (set (map dm_id (cm_decisions ?m))) raws st"
    and vt: "vt_tests vt = into_relation (vs_tests_by_hit st) (vs_hit_ids st)"
    and r: "results_from vt ?m st r" and view: "view_of_results j ?m g model r = Inr view"
    using view_from[OF assms(1)] by metis
  have shown: "cv_decisions view = filter (\<lambda>result. dm_id (dr_meta result) \<notin> declined_of ?m) (vr_decisions r)"
    using view_of_results_cases[where j = j and manifest = ?m and g = g and model = model and r = r] view
    by (simp add: undeclined_decisions_def)
  have "distinct (map dm_id (ordered_decisions ?m))"
    using assms(2) unfolding ordered_decisions_def distinct_map by simp
  then have "list_all2 (\<lambda>meta result. decision_row result = expected_decision ?m raws meta \<and> dr_meta result = meta)
      (ordered_decisions ?m) (vr_decisions r)"
    using r decision_row_exact[OF st vt] decision_result_of_fields(1)
    by (fastforce simp: results_from_def Let_def taken_distinct list_all2_conv_all_nth)
  then have "map decision_row (filter (\<lambda>result. dm_id (dr_meta result) \<notin> declined_of ?m) (vr_decisions r))
      = map (expected_decision ?m raws) (filter (\<lambda>meta. dm_id meta \<notin> declined_of ?m) (ordered_decisions ?m))"
    by (induction rule: list_all2_induct) auto
  then show ?thesis by (simp add: shown Let_def)
qed

text \<open>C4: A decision's row lists the vectors its run observed, each once, in the order first seen, each
  with exactly the tests that saw it; a condition is covered exactly when two of them show its
  independent effect, and the decision when all its conditions are. Code the manifest does not
  declare adds nothing.\<close>

theorem decisions_exact:
  assumes "create_coverage_view_with_model j manifest raws g model = Inr view"
    and "distinct (map dm_id (cm_decisions (settled_manifest j manifest)))"
  shows "map decision_row (cv_decisions view) =
    (let m = settled_manifest j manifest in
     map (expected_decision m raws) (filter (\<lambda>meta. dm_id meta \<notin> declined_of m) (ordered_decisions m)))"
  using assms by (rule decision_rows)

end
