(* ===== verification/ViewPart.thy ===== *)
theory ViewPart
  imports ViewExact
begin

section \<open>The coverage of some of a run's tests\<close>

text \<open>
  \<open>coverage_summary_for_tests\<close> recomputes a summary from a view's results, counting only what the given
  tests observed. It is the summary a run of those tests alone would have: the results of the whole
  run and of the partial one agree on every obligation the tests reached.
\<close>

subsection \<open>Lines of two runs side by side\<close>

lemma tree_insert_rel:
  "list_all2 (rel_prod (=) A) m m' \<Longrightarrow> A v v' \<Longrightarrow> list_all2 (rel_prod (=) A) (tree_insert k v m) (tree_insert k v' m')"
  by (induction m m' rule: list_all2_induct) auto

lemma tree_entry_rel:
  assumes "list_all2 (rel_prod (=) A) m m'" "A d d'" "\<And>a a'. A a a' \<Longrightarrow> A (f a) (f' a')"
  shows "list_all2 (rel_prod (=) A) (tree_entry k d f m) (tree_entry k d' f' m')"
proof -
  have "rel_option A (map_of m k) (map_of m' k)" using assms(1) by (induction rule: list_all2_induct) auto
  then have "A (case map_of m k of Some v \<Rightarrow> v | None \<Rightarrow> d) (case map_of m' k of Some v \<Rightarrow> v | None \<Rightarrow> d')"
    using assms(2) by (auto elim: option.rel_cases)
  then show ?thesis unfolding tree_entry_def by (intro tree_insert_rel[OF assms(1)] assms(3))
qed

definition only :: "string set \<Rightarrow> raw_test_result list \<Rightarrow> raw_test_result list" where
  "only ids raws = filter (\<lambda>raw. raw_test_id raw \<in> ids) raws"

lemma included_tests:
  "included (Some ids) (tests_with P raws) c \<longleftrightarrow> list_ex P (only ids raws)"
  using tests_with_filter[of ids P raws] by (simp add: included_def tests_with_empty only_def)

definition line_related :: "string list \<Rightarrow> string set \<Rightarrow> line_aggregate \<Rightarrow> line_aggregate \<Rightarrow> bool" where
  "line_related names ids a b \<longleftrightarrow> la_measured a = la_measured b
     \<and> (\<forall>n \<in> set (la_tests a). n < length names)
     \<and> ((\<exists>n \<in> set (la_tests a). names ! n \<in> ids) \<longleftrightarrow> la_covered b)"

lemma line_step_rel:
  assumes st: "reads_run decisions raws st" "vt_tests vt = into_relation (vs_tests_by_hit st) (vs_hit_ids st)"
    and st': "reads_run decisions (only ids raws) st'" "vt_tests vt' = into_relation (vs_tests_by_hit st') (vs_hit_ids st')"
    and "list_all2 (rel_prod (=) (line_related (rf_names (vs_tests_by_hit st)) ids)) m m'"
  shows "list_all2 (rel_prod (=) (line_related (rf_names (vs_tests_by_hit st)) ids))
    (line_step vt declined (point_result_of vt declined meta) m)
    (line_step vt' declined (point_result_of vt' declined meta) m')"
proof -
  let ?names = "rf_names (vs_tests_by_hit st)" and ?rl = "relation_of (vt_tests vt) (pm_id meta)"
  have ok: "relation_ok (vs_tests_by_hit st) (vs_hit_ids st)"
    using st(1) view_invD(1) by (auto simp: reads_run_def)
  have below: "\<forall>n \<in> set (rd_numbers ?rl). n < length ?names"
    using relation_of_names(3)[OF ok] by (simp add: st(2))
  have "rd_names ?rl = map ((!) ?names) (rd_numbers ?rl)" using relation_of_names(4)[OF ok] by (simp add: st(2))
  then have "(\<exists>n \<in> set (rd_numbers ?rl). ?names ! n \<in> ids) \<longleftrightarrow> (\<exists>i \<in> set (rd_names ?rl). i \<in> ids)" by simp
  also have "\<dots> \<longleftrightarrow> list_ex (reaches (pm_id meta)) (only ids raws)"
    using hit_tests_named(1)[OF st, of "pm_id meta"] included_tests[of ids "reaches (pm_id meta)" raws]
    by (simp add: included_def list_ex_iff)
  also have "\<dots> \<longleftrightarrow> pr_covered (point_result_of vt' declined meta)"
    using hit_tests_named(2)[OF st', of "pm_id meta"] by (simp add: point_result_of_def Let_def tests_with_empty)
  finally have reached: "(\<exists>n \<in> set (rd_numbers ?rl). ?names ! n \<in> ids) \<longleftrightarrow> pr_covered (point_result_of vt' declined meta)" .
  have meta: "pr_meta (point_result_of vt declined meta) = meta" "pr_meta (point_result_of vt' declined meta) = meta"
    by (simp_all add: point_result_of_def Let_def)
  show ?thesis unfolding line_step_def meta
    by (rule tree_entry_rel[OF assms(5)])
      (use below reached in \<open>auto simp: line_related_def no_aggregate_def\<close>)
qed

lemma lines_part:
  assumes st: "reads_run decisions raws st" "vt_tests vt = into_relation (vs_tests_by_hit st) (vs_hit_ids st)"
    and st': "reads_run decisions (only ids raws) st'" "vt_tests vt' = into_relation (vs_tests_by_hit st') (vs_hit_ids st')"
  shows "map (\<lambda>line. included (Some ids) (lr_tests line) (lr_covered line))
      (filter lr_measured (line_results vt declined (map (point_result_of vt declined) metas)))
    = map lr_covered (filter lr_measured (line_results vt' declined (map (point_result_of vt' declined) metas)))"
proof -
  let ?names = "rf_names (vs_tests_by_hit st)"
  have inv: "view_inv st" using st(1) by (simp add: reads_run_def)
  have "list_all2 (rel_prod (=) (line_related ?names ids))
      (fold (line_step vt declined) (map (point_result_of vt declined) metas) m)
      (fold (line_step vt' declined) (map (point_result_of vt' declined) metas) m')"
    if "list_all2 (rel_prod (=) (line_related ?names ids)) m m'" for m m'
    using that by (induction metas arbitrary: m m') (simp_all add: line_step_rel[OF st st'])
  then have "list_all2 (rel_prod (=) (line_related ?names ids))
      (fold (line_step vt declined) (map (point_result_of vt declined) metas) [])
      (fold (line_step vt' declined) (map (point_result_of vt' declined) metas) [])" by simp
  then show ?thesis unfolding line_results_def
  proof (induction rule: list_all2_induct)
    case (Cons x xs y ys)
    then obtain k a b where xy: "x = (k, a)" "y = (k, b)" "line_related ?names ids a b"
      by (cases x; cases y) auto
    have "rd_names (relation_reached (vt_tests vt) (la_tests a)) = sorted_list_of_set ((!) ?names ` set (la_tests a))"
      by (rule reached_names[OF inv st(2)]) (use xy(3) in \<open>simp add: line_related_def\<close>)
    then have "included (Some ids) (lr_tests (line_result_of vt x)) c \<longleftrightarrow> lr_covered (line_result_of vt' y)" for c
      using xy by (auto simp: line_result_of_def Let_def line_related_def included_def list_ex_iff split: prod.split)
    moreover have "lr_measured (line_result_of vt x) = lr_measured (line_result_of vt' y)"
      using xy by (auto simp: line_result_of_def Let_def line_related_def split: prod.split)
    ultimately show ?case using Cons.IH by simp
  qed simp
qed

subsection \<open>Decisions of two runs side by side\<close>

text \<open>What the loop gives one decision of the whole run and of the partial one: the observations of
  the same name, or nothing to either.\<close>

definition same_name :: "view_state \<Rightarrow> view_state \<Rightarrow> mutable_observation list \<Rightarrow> mutable_observation list \<Rightarrow> bool" where
  "same_name st st' os os' \<longleftrightarrow> os = [] \<and> os' = []
     \<or> (\<exists>d. os = listed (vs_vectors st) d \<and> os' = listed (vs_vectors st') d)"

lemma same_name_taken:
  "list_all2 (same_name st st') (taken metas (listed (vs_vectors st))) (taken metas (listed (vs_vectors st')))"
  by (rule taken_rel) (auto simp: same_name_def)

lemma seen_part:
  assumes "reads_run decisions (only ids raws) st'"
  shows "v \<in> mb_vector ` set (listed (vs_vectors st') d) \<longleftrightarrow> list_ex (sees decisions d (\<lambda>w. w = v)) (only ids raws)"
proof -
  have "mb_vector ` set (listed (vs_vectors st') d) = set (seen st' d)" by (simp add: seen_def)
  also have "\<dots> = (\<Union>raw \<in> set (only ids raws). set (vectors_of decisions raw d))"
    using assms by (simp add: reads_run_def)
  finally show ?thesis by (auto simp: sees_def list_ex_iff)
qed

lemma only_fewer: "list_ex P (only ids raws) \<Longrightarrow> list_ex P raws"
  by (auto simp: only_def list_ex_iff)

lemma decision_part:
  assumes st: "reads_run decisions raws st" "vt_tests vt = into_relation (vs_tests_by_hit st) (vs_hit_ids st)"
    and st': "reads_run decisions (only ids raws) st'"
    and os: "same_name st st' os os'"
    and result: "decision_result_of vt os ns meta = Inr result" "decision_result_of vt' os' ns' meta = Inr result'"
  shows "same_decision (coverage_of (Some ids) result) (coverage_of None result')"
proof -
  have vectors: "set (dc_vectors (coverage_of (Some ids) result))
      = {mb_vector o' |o'. o' \<in> set os \<and> included (Some ids) (vo_tests (vector_observation_of vt o')) True}"
    by (auto simp: coverage_of_def decision_result_of_fields(4)[OF result(1)] filter_map comp_def)
  have vectors': "set (dc_vectors (coverage_of None result')) = mb_vector ` set os'"
    by (auto simp: coverage_of_def included_def decision_result_of_fields(4)[OF result(2)] filter_map comp_def)
  have "{mb_vector o' |o'. o' \<in> set os \<and> included (Some ids) (vo_tests (vector_observation_of vt o')) True}
      = mb_vector ` set os'"
  proof (cases "os = [] \<and> os' = []")
    case False
    then obtain d where d: "os = listed (vs_vectors st) d" "os' = listed (vs_vectors st') d"
      using os by (auto simp: same_name_def)
    have tests: "included (Some ids) (vo_tests (vector_observation_of vt o')) True
        \<longleftrightarrow> list_ex (sees decisions d (\<lambda>w. w = mb_vector o')) (only ids raws)" if "o' \<in> set os" for o'
      using observation_tests[OF st, of o' d] that by (simp add: d included_tests)
    have here: "v \<in> mb_vector ` set os" if "list_ex (sees decisions d (\<lambda>w. w = v)) (only ids raws)" for v
    proof -
      have "reads_run decisions (only UNIV raws) st" using st(1) by (simp add: only_def)
      from seen_part[OF this, of v d] only_fewer[OF that] show ?thesis by (simp add: d only_def)
    qed
    have "v \<in> {mb_vector o' |o'. o' \<in> set os \<and> included (Some ids) (vo_tests (vector_observation_of vt o')) True}
        \<longleftrightarrow> v \<in> mb_vector ` set os'" for v
      unfolding d(2) seen_part[OF st'] using tests here[of v] by (auto simp: image_iff)
    then show ?thesis by blast
  qed simp
  then show ?thesis using vectors vectors'
    by (simp add: same_decision_def) (simp add: coverage_of_def decision_result_of_fields(1)[OF result(1)]
        decision_result_of_fields(1)[OF result(2)])
qed

lemma decisions_part:
  assumes st: "reads_run decisions raws st" "vt_tests vt = into_relation (vs_tests_by_hit st) (vs_hit_ids st)"
    and st': "reads_run decisions (only ids raws) st'"
    and r: "results_from vt m st r" "results_from vt' m st' r'"
  shows "list_all2 same_decision (map (coverage_of (Some ids)) (undeclined_decisions m r))
    (map (coverage_of None) (undeclined_decisions m r'))"
proof -
  let ?metas = "ordered_decisions m"
  have len: "length (vr_decisions r) = length ?metas" "length (vr_decisions r') = length ?metas"
    using results_metas[OF r(1)] results_metas[OF r(2)] length_map by metis+
  have one: "dr_meta (vr_decisions r ! i) = dr_meta (vr_decisions r' ! i)
      \<and> same_decision (coverage_of (Some ids) (vr_decisions r ! i)) (coverage_of None (vr_decisions r' ! i))"
    if i: "i < length ?metas" for i
  proof -
    have "decision_result_of vt (taken ?metas (listed (vs_vectors st)) ! i) (taken ?metas (listed (vs_tests_by_decision st)) ! i)
        (?metas ! i) = Inr (vr_decisions r ! i)"
      using r(1) i list_all2_nthD[of _ _ "vr_decisions r" i] by (fastforce simp: results_from_def Let_def)
    moreover have "decision_result_of vt' (taken ?metas (listed (vs_vectors st')) ! i)
        (taken ?metas (listed (vs_tests_by_decision st')) ! i) (?metas ! i) = Inr (vr_decisions r' ! i)"
      using r(2) i list_all2_nthD[of _ _ "vr_decisions r'" i] by (fastforce simp: results_from_def Let_def)
    moreover have "same_name st st' (taken ?metas (listed (vs_vectors st)) ! i) (taken ?metas (listed (vs_vectors st')) ! i)"
      using same_name_taken i by (simp add: list_all2_nthD)
    ultimately show ?thesis using decision_part[OF st st'] decision_result_of_fields(1) by metis
  qed
  have "list_all2 (\<lambda>a b. dr_meta a = dr_meta b \<and> same_decision (coverage_of (Some ids) a) (coverage_of None b))
      (vr_decisions r) (vr_decisions r')"
    using one len by (simp add: list_all2_conv_all_nth)
  then show ?thesis unfolding undeclined_decisions_def
    by (induction rule: list_all2_induct) auto
qed

subsection \<open>Points and branches of two runs side by side\<close>

definition alternatives_covered :: "string set option \<Rightarrow> branch_result \<Rightarrow> branch_coverage" where
  "alternatives_covered test_ids branch = \<lparr>bc_kind = bm_kind (br_meta branch),
     bc_alternatives = map (\<lambda>alternative. included test_ids (ar_tests alternative) (ar_covered alternative)) (br_alternatives branch)\<rparr>"

lemma declared_branch_part:
  assumes st: "reads_run decisions raws st" "vt_tests vt = into_relation (vs_tests_by_hit st) (vs_hit_ids st)"
    and st': "reads_run decisions (only ids raws) st'" "vt_tests vt' = into_relation (vs_tests_by_hit st') (vs_hit_ids st')"
  shows "alternatives_covered (Some ids) (branch_result_of vt declined meta)
    = alternatives_covered None (branch_result_of vt' declined meta)"
proof -
  have "included (Some ids) (ar_tests (alternative_result_of vt alternative)) c
      \<longleftrightarrow> ar_covered (alternative_result_of vt' alternative)" for alternative c
    using hit_tests_named(1)[OF st, of "ba_id alternative"] hit_tests_named(2)[OF st', of "ba_id alternative"]
    by (simp add: alternative_result_of_def Let_def included_tests tests_with_empty)
  then show ?thesis
    by (simp add: alternatives_covered_def branch_result_of_def Let_def) (simp add: included_def)
qed

lemma outcome_branch_part:
  assumes st: "reads_run decisions raws st" "vt_tests vt = into_relation (vs_tests_by_hit st) (vs_hit_ids st)"
    and st': "reads_run decisions (only ids raws) st'" "vt_tests vt' = into_relation (vs_tests_by_hit st') (vs_hit_ids st')"
    and os: "same_name st st' os os'"
  shows "alternatives_covered (Some ids) (outcome_branch vt os meta) = alternatives_covered None (outcome_branch vt' os' meta)"
proof -
  have "included (Some ids) (ar_tests (outcome_alternative vt os i b)) c \<longleftrightarrow> ar_covered (outcome_alternative vt' os' i b)" for i b c
  proof (cases "os = [] \<and> os' = []")
    case True
    then show ?thesis
      by (simp add: outcome_alternative_def Let_def included_def relation_reached_def)
  next
    case False
    then obtain d where d: "os = listed (vs_vectors st) d" "os' = listed (vs_vectors st') d"
      using os by (auto simp: same_name_def)
    then show ?thesis
      using outcome_tests[OF st, of "\<lambda>v. mv_outcome v = b" d] outcome_tests[OF st', of "\<lambda>v. mv_outcome v = b" d]
      by (simp add: outcome_alternative_def Let_def included_tests tests_with_empty)
  qed
  then show ?thesis
    by (simp add: alternatives_covered_def outcome_branch_def Let_def) (simp add: included_def)
qed

lemma branches_part:
  assumes st: "reads_run decisions raws st" "vt_tests vt = into_relation (vs_tests_by_hit st) (vs_hit_ids st)"
    and st': "reads_run decisions (only ids raws) st'" "vt_tests vt' = into_relation (vs_tests_by_hit st') (vs_hit_ids st')"
    and r: "results_from vt m st r" "results_from vt' m st' r'"
  shows "map (alternatives_covered (Some ids)) (undeclined_branches m r) = map (alternatives_covered None) (undeclined_branches m r')"
proof -
  let ?same = "\<lambda>a b. bm_id (br_meta a) = bm_id (br_meta b) \<and> alternatives_covered (Some ids) a = alternatives_covered None b"
  let ?metas = "ordered_decisions m"
  have declared: "list_all2 ?same (map (branch_result_of vt declined) bs) (map (branch_result_of vt' declined) bs)" for declined bs
    using declared_branch_part[OF st st'] by (induction bs) (auto simp: branch_result_of_def Let_def)
  have ids: "bm_id (br_meta (outcome_branch vt os meta)) = bm_id (br_meta (outcome_branch vt' os' meta))" for os os' meta
    by (simp add: outcome_branch_def Let_def)
  have "list_all2 ?same
      (map (\<lambda>(meta, os). outcome_branch vt os meta) (filter (\<lambda>(meta, _). \<not> declares_outcome m meta) (zip metas oss)))
      (map (\<lambda>(meta, os). outcome_branch vt' os meta) (filter (\<lambda>(meta, _). \<not> declares_outcome m meta) (zip metas oss')))"
    if "list_all2 (same_name st st') oss oss'" for metas oss oss'
    using that
  proof (induction arbitrary: metas rule: list_all2_induct)
    case (Cons os oss os' oss')
    then show ?case using outcome_branch_part[OF st st' Cons.hyps(1)] ids by (cases metas) auto
  qed simp
  from this[OF same_name_taken, of ?metas ?metas] declared
  have "list_all2 ?same (vr_branches r) (vr_branches r')"
    using r by (simp add: results_from_def Let_def list_all2_appendI)
  then show ?thesis unfolding undeclined_branches_def
    by (induction rule: list_all2_induct) auto
qed

lemma points_part:
  assumes st: "reads_run decisions raws st" "vt_tests vt = into_relation (vs_tests_by_hit st) (vs_hit_ids st)"
    and st': "reads_run decisions (only ids raws) st'" "vt_tests vt' = into_relation (vs_tests_by_hit st') (vs_hit_ids st')"
    and r: "results_from vt m st r" "results_from vt' m st' r'"
  shows "map (\<lambda>point. (pm_kind (pr_meta point), included (Some ids) (pr_tests point) (pr_covered point))) (undeclined_points m r)
    = map (\<lambda>point. (pm_kind (pr_meta point), pr_covered point)) (undeclined_points m r')"
proof -
  have meta: "pr_meta (point_result_of w declined meta) = meta" for w declined meta
    by (simp add: point_result_of_def Let_def)
  have "included (Some ids) (pr_tests (point_result_of vt declined meta)) c \<longleftrightarrow> pr_covered (point_result_of vt' declined meta)"
    for declined meta c
    using hit_tests_named(1)[OF st, of "pm_id meta"] hit_tests_named(2)[OF st', of "pm_id meta"]
    by (simp add: point_result_of_def Let_def included_tests tests_with_empty)
  then show ?thesis using r by (simp add: undeclined_points_def results_from_def Let_def filter_map comp_def meta)
qed

subsection \<open>The summary of a part is the part's summary\<close>

lemma summary_input_eq:
  "summary_input ds ps bs ls T = \<lparr>in_decisions = map (coverage_of T) ds,
     in_points = map (\<lambda>(kind, covered). \<lparr>pc_kind = kind, pc_covered = covered\<rparr>)
       (map (\<lambda>point. (pm_kind (pr_meta point), included T (pr_tests point) (pr_covered point))) ps),
     in_branches = map (alternatives_covered T) bs,
     in_lines = map (\<lambda>line. included T (lr_tests line) (lr_covered line)) (filter lr_measured ls)\<rparr>"
  by (simp add: summary_input_def coverage_of_def alternatives_covered_def comp_def)

lemma same_summary:
  assumes "list_all2 same_decision (in_decisions (summary_input ds ps bs ls T)) (in_decisions (summary_input ds' ps' bs' ls' T'))"
    "in_points (summary_input ds ps bs ls T) = in_points (summary_input ds' ps' bs' ls' T')"
    "in_branches (summary_input ds ps bs ls T) = in_branches (summary_input ds' ps' bs' ls' T')"
    "in_lines (summary_input ds ps bs ls T) = in_lines (summary_input ds' ps' bs' ls' T')"
    "summary_for_results ds ps bs ls T = Inr s" "summary_for_results ds' ps' bs' ls' T' = Inr s'"
  shows "s = s'"
  using same_input_summary[OF assms(1-4)] assms(5,6) by (auto simp: summary_for_results_def split: sum.splits)

lemma view_ok_only: "view_ok m raws \<Longrightarrow> view_ok m (filter keep raws)"
proof -
  assume ok: "view_ok m raws"
  have "list_all2 (\<lambda>vs ws. set ws \<subseteq> set vs) (taken metas (vectors_seen m raws)) (taken metas (vectors_seen m (filter keep raws)))"
    for metas by (rule taken_rel) (auto simp: vectors_seen_def)
  then have "list_all2 vectors_fit metas (taken ms (vectors_seen m raws)) \<Longrightarrow>
      list_all2 vectors_fit metas (taken ms (vectors_seen m (filter keep raws)))" for metas ms
    by (auto simp: list_all2_conv_all_nth vectors_fit_def list_all_iff subset_iff)
  then show ?thesis using ok raws_ok_fewer[of "{}" raws "{}" keep] by (simp add: view_ok_def)
qed

lemma part_of_view:
  assumes "create_coverage_view_with_model j manifest raws g model = Inr view"
  obtains part s where "create_coverage_view_with_model j manifest (only ids raws) g model = Inr part"
    "coverage_summary_for_tests view ids = Inr s"
    "summary_for_results (cv_decisions part) (cv_points part) (cv_branches part) (cv_lines part) None = Inr s"
proof -
  let ?m = "settled_manifest j manifest"
  have "view_ok ?m raws" using view_cases[of j manifest raws g model] assms by simp
  then have "view_ok ?m (only ids raws)" unfolding only_def by (rule view_ok_only)
  then obtain part where part: "create_coverage_view_with_model j manifest (only ids raws) g model = Inr part"
    using view_cases[of j manifest "only ids raws" g model]
    by (cases "create_coverage_view_with_model j manifest (only ids raws) g model") auto
  obtain st vt r where st: "reads_run (set (map dm_id (cm_decisions ?m))) raws st"
    "vt_tests vt = into_relation (vs_tests_by_hit st) (vs_hit_ids st)"
    and r: "results_from vt ?m st r" and view: "view_of_results j ?m g model r = Inr view"
    using view_from[OF assms] by metis
  obtain st' vt' r' where st': "reads_run (set (map dm_id (cm_decisions ?m))) (only ids raws) st'"
    "vt_tests vt' = into_relation (vs_tests_by_hit st') (vs_hit_ids st')"
    and r': "results_from vt' ?m st' r'" and view': "view_of_results j ?m g model r' = Inr part"
    using view_from[OF part] by metis
  have fields: "cv_decisions view = undeclined_decisions ?m r" "cv_points view = undeclined_points ?m r"
    "cv_branches view = undeclined_branches ?m r" "cv_lines view = vr_lines r"
    and whole: "\<exists>s. summary_for_results (cv_decisions view) (cv_points view) (cv_branches view) (cv_lines view) None = Inr s"
    using view_of_results_cases[where j = j and manifest = ?m and g = g and model = model and r = r] view by auto
  have fields': "cv_decisions part = undeclined_decisions ?m r'" "cv_points part = undeclined_points ?m r'"
    "cv_branches part = undeclined_branches ?m r'" "cv_lines part = vr_lines r'"
    and whole': "\<exists>s. summary_for_results (cv_decisions part) (cv_points part) (cv_branches part) (cv_lines part) None = Inr s"
    using view_of_results_cases[where j = j and manifest = ?m and g = g and model = model and r = r'] view' by auto
  obtain s where s: "coverage_summary_for_tests view ids = Inr s"
    using whole summary_part unfolding coverage_summary_for_tests_def by blast
  obtain s' where s': "summary_for_results (cv_decisions part) (cv_points part) (cv_branches part) (cv_lines part) None = Inr s'"
    using whole' by blast
  have None: "included None tests c = c" for tests c by (simp add: included_def)
  have lines: "vr_lines r = line_results vt (declined_of ?m) (map (point_result_of vt (declined_of ?m)) (cm_points ?m))"
    "vr_lines r' = line_results vt' (declined_of ?m) (map (point_result_of vt' (declined_of ?m)) (cm_points ?m))"
    using r r' by (simp_all add: results_from_def Let_def)
  have "s = s'"
  proof (rule same_summary[OF _ _ _ _ s[unfolded coverage_summary_for_tests_def] s'])
    show "list_all2 same_decision
        (in_decisions (summary_input (cv_decisions view) (cv_points view) (cv_branches view) (cv_lines view) (Some ids)))
        (in_decisions (summary_input (cv_decisions part) (cv_points part) (cv_branches part) (cv_lines part) None))"
      using decisions_part[OF st st'(1) r r'] by (simp add: summary_input_eq fields fields')
    show "in_points (summary_input (cv_decisions view) (cv_points view) (cv_branches view) (cv_lines view) (Some ids))
        = in_points (summary_input (cv_decisions part) (cv_points part) (cv_branches part) (cv_lines part) None)"
      using points_part[OF st st' r r'] unfolding summary_input_eq fields fields' None
      by (simp only: coverage_core_input.simps)
    show "in_branches (summary_input (cv_decisions view) (cv_points view) (cv_branches view) (cv_lines view) (Some ids))
        = in_branches (summary_input (cv_decisions part) (cv_points part) (cv_branches part) (cv_lines part) None)"
      using branches_part[OF st st' r r'] by (simp add: summary_input_eq fields fields')
    show "in_lines (summary_input (cv_decisions view) (cv_points view) (cv_branches view) (cv_lines view) (Some ids))
        = in_lines (summary_input (cv_decisions part) (cv_points part) (cv_branches part) (cv_lines part) None)"
      using lines_part[OF st st', of "declined_of ?m" "cm_points ?m"]
      unfolding summary_input_eq fields fields' None lines by (simp only: coverage_core_input.simps)
  qed
  then show thesis using that[OF part s] s' by blast
qed

text \<open>A run and a part of it list results for the same obligations, so as many of each are measured.\<close>

lemma outcome_branch_ids:
  assumes "length oss = length metas"
  shows "map (\<lambda>b. bm_id (br_meta b)) (map (\<lambda>(meta, os). outcome_branch vt os meta)
      (filter (\<lambda>(meta, _). P meta) (zip metas oss)))
    = map (\<lambda>meta. bm_id (br_meta (outcome_branch vt' [] meta))) (filter P metas)"
  using assms by (induction metas oss rule: list_induct2') (auto simp: outcome_branch_def Let_def)

lemma results_branch_ids:
  assumes "results_from vt m st r"
  shows "map (\<lambda>b. bm_id (br_meta b)) (vr_branches r) = map bm_id (cm_branches m)
    @ map (\<lambda>meta. bm_id (br_meta (outcome_branch vt' [] meta)))
        (filter (\<lambda>meta. \<not> declares_outcome m meta) (ordered_decisions m))"
proof -
  have "map (\<lambda>b. bm_id (br_meta b)) (map (branch_result_of vt d) bs) = map bm_id bs" for d bs
    by (simp add: branch_result_of_def Let_def)
  then show ?thesis
    using assms outcome_branch_ids[where vt' = vt' and oss = "taken (ordered_decisions m) (listed (vs_vectors st))" and
        metas = "ordered_decisions m" and vt = vt and P = "\<lambda>meta. \<not> declares_outcome m meta"]
    by (simp add: results_from_def Let_def)
qed

lemma undeclined_count:
  assumes "map f xs = map g ys"
  shows "length (filter (\<lambda>x. f x \<notin> D) xs) = length (filter (\<lambda>y. g y \<notin> D) ys)"
  using assms by (induction xs arbitrary: ys) (auto simp: Cons_eq_map_conv map_eq_Cons_conv split: if_splits)

lemma results_counts:
  assumes r: "results_from vt m st r" "results_from vt' m st' r'"
  shows "length (vr_decisions r) = length (vr_decisions r')" "length (vr_points r) = length (vr_points r')"
    "length (vr_branches r) = length (vr_branches r')"
    "length (undeclined_decisions m r) = length (undeclined_decisions m r')"
    "length (undeclined_points m r) = length (undeclined_points m r')"
    "length (undeclined_branches m r) = length (undeclined_branches m r')"
proof -
  have decisions: "map (\<lambda>d. dm_id (dr_meta d)) (vr_decisions r) = map (\<lambda>d. dm_id (dr_meta d)) (vr_decisions r')"
    using arg_cong[OF results_metas[OF r(1), folded results_metas[OF r(2)]], of "map dm_id"] by (simp add: comp_def)
  have points: "map (\<lambda>p. pm_id (pr_meta p)) (vr_points r) = map (\<lambda>p. pm_id (pr_meta p)) (vr_points r')"
    using r by (simp add: results_from_def Let_def point_result_of_def comp_def)
  have branches: "map (\<lambda>b. bm_id (br_meta b)) (vr_branches r) = map (\<lambda>b. bm_id (br_meta b)) (vr_branches r')"
    using results_branch_ids[OF r(1), of vt] results_branch_ids[OF r(2), of vt] by simp
  show "length (vr_decisions r) = length (vr_decisions r')" "length (vr_points r) = length (vr_points r')"
    "length (vr_branches r) = length (vr_branches r')"
    using map_eq_imp_length_eq[OF decisions] map_eq_imp_length_eq[OF points] map_eq_imp_length_eq[OF branches] .
  show "length (undeclined_decisions m r) = length (undeclined_decisions m r')"
    "length (undeclined_points m r) = length (undeclined_points m r')"
    "length (undeclined_branches m r) = length (undeclined_branches m r')"
    unfolding undeclined_decisions_def undeclined_points_def undeclined_branches_def
    using undeclined_count[OF decisions] undeclined_count[OF points] undeclined_count[OF branches] .
qed

lemma part_counts:
  assumes "create_coverage_view_with_model j manifest raws g model = Inr view"
    and "create_coverage_view_with_model j manifest raws' g model = Inr part"
  obtains n k s s' where "cv_summary view = settle_summary n k (list_ex (blocking_limitation j) (cv_limitations view)) s"
    "summary_for_results (cv_decisions view) (cv_points view) (cv_branches view) (cv_lines view) None = Inr s"
    "cv_summary part = settle_summary n k (list_ex (blocking_limitation j) (cv_limitations view)) s'"
    "summary_for_results (cv_decisions part) (cv_points part) (cv_branches part) (cv_lines part) None = Inr s'"
proof -
  let ?m = "settled_manifest j manifest"
  obtain st vt r where r: "results_from vt ?m st r" and view: "view_of_results j ?m g model r = Inr view"
    using view_from[OF assms(1)] by metis
  obtain st' vt' r' where r': "results_from vt' ?m st' r'" and part: "view_of_results j ?m g model r' = Inr part"
    using view_from[OF assms(2)] by metis
  show thesis
    using view_of_results_cases[where j = j and manifest = ?m and g = g and model = model and r = r] view
      view_of_results_cases[where j = j and manifest = ?m and g = g and model = model and r = r'] part that
      results_counts[OF r r']
    by auto
qed

lemma summary_unsettled:
  assumes "summary_for_results ds ps bs ls T = Inr s"
  shows "cs_completeness_blocked s = None" "cs_unmeasured_obligations s = None" "cs_exact_fraction_pct s = None"
  using assms analyze_core_rest(4-6) by (auto simp: summary_for_results_def split: sum.splits)

text \<open>A summary with what the manifest imposes on a run as a whole, which a run's own summary says.\<close>

definition run_limits :: "coverage_summary \<Rightarrow> coverage_summary \<Rightarrow> coverage_summary" where
  "run_limits whole s = s\<lparr>cs_coverage_complete := cs_coverage_complete s \<and> cs_completeness_blocked whole = None,
     cs_completeness_blocked := cs_completeness_blocked whole,
     cs_unmeasured_obligations := cs_unmeasured_obligations whole,
     cs_exact_fraction_pct := cs_exact_fraction_pct whole\<rparr>"

lemma tests_summary:
  assumes "create_coverage_view_with_model j manifest raws g model = Inr view"
  shows "\<exists>part s. create_coverage_view_with_model j manifest (only ids raws) g model = Inr part
    \<and> coverage_summary_for_tests view ids = Inr s \<and> cv_summary part = run_limits (cv_summary view) s
    \<and> cs_completeness_blocked s = None \<and> cs_unmeasured_obligations s = None \<and> cs_exact_fraction_pct s = None"
proof -
  obtain part s where part: "create_coverage_view_with_model j manifest (only ids raws) g model = Inr part"
    and s: "coverage_summary_for_tests view ids = Inr s"
      "summary_for_results (cv_decisions part) (cv_points part) (cv_branches part) (cv_lines part) None = Inr s"
    using part_of_view[OF assms, of ids] .
  from part_counts[OF assms part] s(2)
  obtain n k b s' where "cv_summary view = settle_summary n k b s'" "cv_summary part = settle_summary n k b s"
    "cs_completeness_blocked s' = None" "cs_unmeasured_obligations s' = None" "cs_exact_fraction_pct s' = None"
    by (metis Inr_inject summary_unsettled)
  then have "cv_summary part = run_limits (cv_summary view) s"
    using summary_unsettled[OF s(2)] by (simp add: settle_summary_def run_limits_def Let_def)
  then show ?thesis using part s(1) summary_unsettled[OF s(2)] by blast
qed

text \<open>C5: The summary a reader asks of some of a run's tests is the summary a run of those tests alone would
  have: every count and percentage, MC/DC included. Only what the manifest imposes on every run of it is
  told by the run's summary alone: how many obligations could not be measured and whether a limitation
  blocks, both as in the whole run; blocked, the run is not complete whatever the reader's summary says.\<close>

theorem summary_of_tests_is_their_run:
  assumes "create_coverage_view_with_model j manifest raws g model = Inr view"
  shows "\<exists>part s. create_coverage_view_with_model j manifest (only ids raws) g model = Inr part
    \<and> coverage_summary_for_tests view ids = Inr s
    \<and> cv_summary part = s\<lparr>
        cs_coverage_complete := cs_coverage_complete s \<and> cs_completeness_blocked (cv_summary view) = None,
        cs_completeness_blocked := cs_completeness_blocked (cv_summary view),
        cs_unmeasured_obligations := cs_unmeasured_obligations (cv_summary view),
        cs_exact_fraction_pct := cs_exact_fraction_pct (cv_summary view)\<rparr>
    \<and> cs_completeness_blocked s = None \<and> cs_unmeasured_obligations s = None \<and> cs_exact_fraction_pct s = None"
  using tests_summary[OF assms, of ids] unfolding run_limits_def .

subsection \<open>The verdict\<close>

lemma independence_needs_both:
  assumes "is_independence_pair v w c"
  shows "\<exists>u \<in> {v, w}. mv_values u ! c = Some b"
proof (cases "length (mv_values v) = length (mv_values w) \<and> c < length (mv_values w)")
  case True
  then obtain x where "mv_values v ! c = Some x" "mv_values w ! c = Some (\<not> x)"
    using assms independence_pair_iff[of v "length (mv_values w)" w c] by auto
  then show ?thesis by (cases "x = b") auto
qed (use assms in \<open>auto simp: is_independence_pair_def\<close>)

lemma decision_covered_iff:
  assumes "decision_result_of vt os ns meta = Inr result"
  shows "dr_covered result \<longleftrightarrow> (\<forall>c < length (dm_conditions meta).
    (\<forall>b. \<exists>v \<in> set (map mb_vector os). mv_values v ! c = Some b)
    \<and> (\<exists>v \<in> set (map mb_vector os). \<exists>w \<in> set (map mb_vector os). is_independence_pair v w c))"
proof -
  let ?n = "length (dm_conditions meta)" and ?vectors = "map mb_vector os"
  note fields = decision_result_of_fields[OF assms]
  obtain ws where ws: "find_witnesses_for_conditions ?vectors ?n = Inr ws"
    "dr_conditions result = map (condition_result_of (map (vector_observation_of vt) os) ws) (enumerate 0 (dm_conditions meta))"
    using fields(7) by blast
  have "dr_covered result \<longleftrightarrow> (\<forall>c < ?n. ws ! c \<noteq> None)"
    by (simp add: fields(6) ws(2) list_all_length nth_enumerate_eq condition_covered del: not_None_eq)
  also have "\<dots> \<longleftrightarrow> (\<forall>c < ?n. \<exists>v \<in> set ?vectors. \<exists>w \<in> set ?vectors. is_independence_pair v w c)"
    using witnessed_iff[OF ws(1)] by blast
  also have "\<dots> \<longleftrightarrow> (\<forall>c < ?n. (\<forall>b. \<exists>v \<in> set ?vectors. mv_values v ! c = Some b)
      \<and> (\<exists>v \<in> set ?vectors. \<exists>w \<in> set ?vectors. is_independence_pair v w c))"
  proof -
    have "\<exists>u \<in> set ?vectors. mv_values u ! c = Some b"
      if "v \<in> set ?vectors" "w \<in> set ?vectors" "is_independence_pair v w c" for v w c b
      using independence_needs_both[OF that(3), of b] that(1,2) by blast
    then show ?thesis by blast
  qed
  finally show ?thesis .
qed

definition all_covered :: "'v coverage_view \<Rightarrow> bool" where
  "all_covered view \<longleftrightarrow> list_all lr_covered (filter lr_measured (cv_lines view)) \<and> list_all pr_covered (cv_points view)
     \<and> list_all br_covered (cv_branches view) \<and> list_all dr_covered (cv_decisions view)"

definition small_view :: "'v coverage_view \<Rightarrow> bool" where
  "small_view view \<longleftrightarrow> obligations_below 20000
     (summary_input (cv_decisions view) (cv_points view) (cv_branches view) (cv_lines view) None)"

lemma branch_covered_iff:
  assumes "results_from vt m st r" "branch \<in> set (vr_branches r)"
  shows "br_covered branch \<longleftrightarrow> list_all ar_covered (br_alternatives branch)"
  using assms by (auto simp: results_from_def Let_def branch_result_of_def outcome_branch_def)

lemma verdict_iff:
  assumes "create_coverage_view_with_model j manifest raws g model = Inr view" and "small_view view"
  shows "cs_coverage_complete (cv_summary view) \<longleftrightarrow> all_covered view \<and> \<not> list_ex (blocking_limitation j) (cv_limitations view)"
proof -
  let ?m = "settled_manifest j manifest"
  let ?input = "summary_input (cv_decisions view) (cv_points view) (cv_branches view) (cv_lines view) None"
  obtain st vt r where r: "results_from vt ?m st r" and view: "view_of_results j ?m g model r = Inr view"
    using view_from[OF assms(1)] by metis
  obtain s where fields: "cv_decisions view = undeclined_decisions ?m r" "cv_branches view = undeclined_branches ?m r"
    "cv_limitations view = cm_limitations ?m"
    and s: "summary_for_results (cv_decisions view) (cv_points view) (cv_branches view) (cv_lines view) None = Inr s"
      "cv_summary view = settle_summary
              (length (vr_decisions r) + length (vr_points r) + length (vr_branches r))
              (length (cv_decisions view) + length (cv_points view) + length (cv_branches view))
              (list_ex (blocking_limitation j) (cm_limitations ?m)) s"
    using view_of_results_cases[where j = j and manifest = ?m and g = g and model = model and r = r] view by auto
  obtain out where out: "analyze_core ?input = Inr out" "out_summary out = s"
    using s(1) by (auto simp: summary_for_results_def split: sum.splits)
  have "list_all dr_covered (cv_decisions view) \<longleftrightarrow> list_all (\<lambda>d. \<forall>c < dc_condition_count d.
          (\<forall>b. \<exists>v \<in> set (dc_vectors d). mv_values v ! c = Some b)
          \<and> (\<exists>v \<in> set (dc_vectors d). \<exists>w \<in> set (dc_vectors d). is_independence_pair v w c)) (in_decisions ?input)"
  proof -
    have "dr_covered result \<longleftrightarrow> (\<forall>c < dc_condition_count (coverage_of None result).
          (\<forall>b. \<exists>v \<in> set (dc_vectors (coverage_of None result)). mv_values v ! c = Some b)
          \<and> (\<exists>v \<in> set (dc_vectors (coverage_of None result)). \<exists>w \<in> set (dc_vectors (coverage_of None result)).
               is_independence_pair v w c))" if mem: "result \<in> set (vr_decisions r)" for result
    proof -
      obtain meta os ns where result: "decision_result_of vt os ns meta = Inr result"
        using in_related[OF conjunct1[OF r[unfolded results_from_def Let_def]] mem] by auto
      have "dc_vectors (coverage_of None result) = map mb_vector os" "dc_condition_count (coverage_of None result) = length (dm_conditions meta)"
        by (simp_all add: coverage_of_def included_def decision_result_of_fields[OF result])
      then show ?thesis using decision_covered_iff[OF result] by simp
    qed
    then show ?thesis unfolding in_decisions_summary list.pred_map comp_def list_all_iff fields undeclined_decisions_def
      by auto
  qed
  moreover have "list_all br_covered (cv_branches view) \<longleftrightarrow> list_all (\<lambda>b. list_all (\<lambda>a. a) (bc_alternatives b)) (in_branches ?input)"
    using branch_covered_iff[OF r]
    by (auto simp: list_all_iff fields undeclined_branches_def summary_input_def included_def)
  moreover have "list_all lr_covered (filter lr_measured (cv_lines view)) \<longleftrightarrow> list_all (\<lambda>b. b) (in_lines ?input)"
    "list_all pr_covered (cv_points view) \<longleftrightarrow> list_all pc_covered (in_points ?input)"
    by (auto simp: list_all_iff summary_input_def included_def)
  ultimately have "all_covered view \<longleftrightarrow> every_obligation_covered ?input"
    unfolding all_covered_def every_obligation_covered_def by blast
  moreover have "cs_coverage_complete s \<longleftrightarrow> every_obligation_covered ?input"
    using coverage_complete_exact[OF out(1)] assms(2) out(2) by (simp add: small_view_def)
  ultimately show ?thesis by (simp add: s(2) fields(3) settle_summary_def Let_def)
qed

text \<open>C6: The one-word verdict is right: below 20,000 obligations of each kind, a view is complete exactly
  when every measured line, point, branch and decision it lists is covered and no limitation of its
  manifest blocks measurement.\<close>

theorem verdict_exact:
  assumes "create_coverage_view_with_model j manifest raws g model = Inr view" and "small_view view"
  shows "cs_coverage_complete (cv_summary view) \<longleftrightarrow> all_covered view \<and> \<not> list_ex (blocking_limitation j) (cv_limitations view)"
  using assms by (rule verdict_iff)

end
