(* ===== verification/CoverageReport.thy ===== *)
theory CoverageReport
  imports ViewPart CoverageModel FrontendProtocol
begin

section \<open>A run's report (coverage\_report.rs, analyze\_coverage\_results and its callers)\<close>

text \<open>
  A report holds three views of one run: of all its results, of those of passing and of those of
  failing attempts. They are built side by side on three threads, and the two partial ones are
  expected to build because the whole one did; both outcomes a thread can end in, its value and a
  panic, are joined as the code joins them.
\<close>

definition create_coverage_view ::
  "'v json \<Rightarrow> 'v coverage_manifest \<Rightarrow> raw_test_result list \<Rightarrow> string \<Rightarrow> stop + 'v coverage_view" where
  "create_coverage_view j manifest raw_results generated_at =
     create_coverage_view_with_model j manifest raw_results generated_at javascript_coverage_model"

definition check_results :: "'v coverage_report_request \<Rightarrow> report_error + unit" where
  "check_results request =
     (case find (\<lambda>scope. es_run_id scope \<noteq> rq_run_id request) (List.map_filter rt_scope (rq_raw_results request)) of
        Some scope \<Rightarrow> Inl (ScopeMismatch (rq_run_id request) (es_run_id scope))
      | None \<Rightarrow>
          if rq_raw_results request = [] then Inl (NoEvidence (rq_run_id request))
          else
            let coverage_model = (case rq_coverage_model request of Some m \<Rightarrow> m | None \<Rightarrow> javascript_coverage_model)
            in (case from_declaration coverage_model of
                  Inl reason \<Rightarrow> Inl (InvalidJson ''coverage-model.json'' reason)
                | Inr _ \<Rightarrow> Inr ()))"

subsection \<open>One view at a time\<close>

datatype coverage_view_id = ViewAll | ViewPassed | ViewFailed

fun view_name :: "coverage_view_id \<Rightarrow> string" where
  "view_name ViewAll = ''all''"
| "view_name ViewPassed = ''passed''"
| "view_name ViewFailed = ''failed''"

text \<open>The byte an index stores of a view, and back.\<close>

fun view_byte :: "coverage_view_id \<Rightarrow> u8" where
  "view_byte ViewAll = 0"
| "view_byte ViewPassed = 1"
| "view_byte ViewFailed = 2"

definition view_of_byte :: "u8 \<Rightarrow> string + coverage_view_id" where
  "view_of_byte value =
     (if value = 0 then Inr ViewAll else if value = 1 then Inr ViewPassed
      else if value = 2 then Inr ViewFailed else Inl ''coverage view'')"

fun results_of_view :: "'v coverage_report_request \<Rightarrow> coverage_view_id \<Rightarrow> raw_test_result list" where
  "results_of_view request ViewAll = rq_raw_results request"
| "results_of_view request ViewPassed = passing_coverage_results (rq_raw_results request)"
| "results_of_view request ViewFailed = failed_coverage_results (rq_raw_results request)"

text \<open>The iterator of the code is the list of what each step gives, computed when asked for.\<close>

definition coverage_views ::
  "'v json \<Rightarrow> 'v coverage_report_request \<Rightarrow> coverage_view_id list \<Rightarrow> transport_stats option
     \<Rightarrow> report_error + (stop + coverage_view_id \<times> 'v coverage_view) list" where
  "coverage_views j request views transport =
     rbind (check_results request) (\<lambda>_.
       let coverage_model = (case rq_coverage_model request of Some m \<Rightarrow> m | None \<Rightarrow> javascript_coverage_model)
       in Inr (map (\<lambda>i.
            rbind (create_coverage_view_with_model j (rq_manifest request) (results_of_view request i)
                (rq_generated_at request) coverage_model) (\<lambda>view.
              Inr (i, view\<lparr>cv_integrity := rq_integrity request, cv_transport := transport\<rparr>))) views))"

subsection \<open>The whole report\<close>

text \<open>\<open>join().unwrap_or_else(rethrow)\<close>: a thread's panic goes on in the thread that joins it.\<close>

definition join_thread :: "stop + 'a \<Rightarrow> stop + (stop + 'a)" where
  "join_thread result = (if result = Inl Panicked then Inl Panicked else Inr result)"

definition execution_of :: "exit_code_input \<Rightarrow> execution_result option" where
  "execution_of test_exit_code =
     (case test_exit_code of Missing \<Rightarrow> None
      | Present status \<Rightarrow> Some \<lparr>ex_test_exit_code = status, ex_valid = (status = Some 0)\<rparr>)"

definition with_integrity :: "'v option \<Rightarrow> 'v coverage_view \<Rightarrow> 'v coverage_view" where
  "with_integrity integrity view =
     (case integrity of Some i \<Rightarrow> view\<lparr>cv_integrity := Some i\<rparr> | None \<Rightarrow> view)"

definition analyze_coverage_results :: "'v json \<Rightarrow> 'v coverage_report_request \<Rightarrow> stop + 'v coverage_report" where
  "analyze_coverage_results j request =
     rbind (stop_report (check_results request)) (\<lambda>_.
       let coverage_model = (case rq_coverage_model request of Some m \<Rightarrow> m | None \<Rightarrow> javascript_coverage_model);
           build = (\<lambda>results. create_coverage_view_with_model j (rq_manifest request) results
             (rq_generated_at request) coverage_model)
       in rbind (join_thread (build (rq_raw_results request))) (\<lambda>view.
          rbind (join_thread (build (passing_coverage_results (rq_raw_results request)))) (\<lambda>passed.
          rbind (join_thread (build (failed_coverage_results (rq_raw_results request)))) (\<lambda>failed.
          rbind view (\<lambda>view.
          rbind (unwrap passed) (\<lambda>passed.
          rbind (unwrap failed) (\<lambda>failed.
            Inr \<lparr>rp_view = with_integrity (rq_integrity request) view,
              rp_execution = execution_of (rq_test_exit_code request),
              rp_filters = \<lparr>fi_passed = with_integrity (rq_integrity request) passed,
                fi_failed = with_integrity (rq_integrity request) failed\<rparr>\<rparr>)))))))"

definition with_transport :: "transport_stats \<Rightarrow> 'v coverage_report \<Rightarrow> 'v coverage_report" where
  "with_transport transport report =
     report\<lparr>rp_view := (rp_view report)\<lparr>cv_transport := Some transport\<rparr>,
       rp_filters := \<lparr>fi_passed = (fi_passed (rp_filters report))\<lparr>cv_transport := Some transport\<rparr>,
         fi_failed = (fi_failed (rp_filters report))\<lparr>cv_transport := Some transport\<rparr>\<rparr>\<rparr>"

subsection \<open>A report exists when its whole view does\<close>

lemma stop_report_simps [simp]: "stop_report (Inl e) = Inl (Returned e)" "stop_report (Inr x) = Inr x"
  by (simp_all add: stop_report_def)

lemma unwrap_simps [simp]: "unwrap (Inl e) = Inl Panicked" "unwrap (Inr x) = Inr x"
  by (simp_all add: unwrap_def)

definition model_of :: "'v coverage_report_request \<Rightarrow> coverage_model_declaration" where
  "model_of request = (case rq_coverage_model request of Some m \<Rightarrow> m | None \<Rightarrow> javascript_coverage_model)"

definition view_for :: "'v json \<Rightarrow> 'v coverage_report_request \<Rightarrow> coverage_view_id \<Rightarrow> stop + 'v coverage_view" where
  "view_for j request i = create_coverage_view_with_model j (rq_manifest request) (results_of_view request i)
     (rq_generated_at request) (model_of request)"

lemma results_of_view_filter: "\<exists>keep. results_of_view request i = filter keep (rq_raw_results request)"
  by (cases i) (auto simp: passing_coverage_results_def failed_coverage_results_def Let_def intro: exI[of _ "\<lambda>_. True"])

lemma part_exists:
  assumes "create_coverage_view_with_model j manifest raws g model = Inr view"
  shows "\<exists>part. create_coverage_view_with_model j manifest (filter keep raws) g model = Inr part"
proof -
  have "view_ok (settled_manifest j manifest) (filter keep raws)"
    using view_cases[of j manifest raws g model] assms by (intro view_ok_only) simp
  then show ?thesis using view_cases[of j manifest "filter keep raws" g model] by (auto split: sum.splits)
qed

lemma part_views:
  assumes "view_for j request ViewAll = Inr view"
  obtains part where "view_for j request i = Inr part"
proof -
  obtain keep where "results_of_view request i = filter keep (rq_raw_results request)"
    using results_of_view_filter by blast
  then show thesis using part_exists[of j "rq_manifest request" "rq_raw_results request" _ _ view keep] assms that
    by (auto simp: view_for_def)
qed

lemma view_for_no_panic: "view_for j request i \<noteq> Inl Panicked"
  using view_cases[of j "rq_manifest request" "results_of_view request i" "rq_generated_at request" "model_of request"]
  by (auto simp: view_for_def)

lemma analyze_eq:
  "analyze_coverage_results j request =
     rbind (stop_report (check_results request)) (\<lambda>_. rbind (view_for j request ViewAll) (\<lambda>view.
       rbind (view_for j request ViewPassed) (\<lambda>passed. rbind (view_for j request ViewFailed) (\<lambda>failed.
         Inr \<lparr>rp_view = with_integrity (rq_integrity request) view,
              rp_execution = execution_of (rq_test_exit_code request),
              rp_filters = \<lparr>fi_passed = with_integrity (rq_integrity request) passed,
                fi_failed = with_integrity (rq_integrity request) failed\<rparr>\<rparr>))))"
proof -
  have join: "join_thread (view_for j request i) = Inr (view_for j request i)" for i
    using view_for_no_panic by (simp add: join_thread_def)
  have analyze: "analyze_coverage_results j request = rbind (stop_report (check_results request)) (\<lambda>_.
      rbind (join_thread (view_for j request ViewAll)) (\<lambda>view. rbind (join_thread (view_for j request ViewPassed)) (\<lambda>passed.
      rbind (join_thread (view_for j request ViewFailed)) (\<lambda>failed. rbind view (\<lambda>view.
      rbind (unwrap passed) (\<lambda>passed. rbind (unwrap failed) (\<lambda>failed.
        Inr \<lparr>rp_view = with_integrity (rq_integrity request) view,
              rp_execution = execution_of (rq_test_exit_code request),
              rp_filters = \<lparr>fi_passed = with_integrity (rq_integrity request) passed,
                fi_failed = with_integrity (rq_integrity request) failed\<rparr>\<rparr>)))))))"
    by (simp add: analyze_coverage_results_def view_for_def model_of_def Let_def)
  show ?thesis
  proof (cases "view_for j request ViewAll")
    case (Inr view)
    obtain passed failed where "view_for j request ViewPassed = Inr passed" "view_for j request ViewFailed = Inr failed"
      using part_views[OF Inr] by metis
    then show ?thesis unfolding analyze join using Inr by simp
  next
    case (Inl e)
    then show ?thesis unfolding analyze join by simp
  qed
qed

lemma analysis_outcome:
  "analyze_coverage_results j request \<noteq> Inl Panicked
   \<and> ((\<exists>report. analyze_coverage_results j request = Inr report)
        \<longleftrightarrow> check_results request = Inr () \<and> view_ok (settled_manifest j (rq_manifest request)) (rq_raw_results request))"
proof (cases "check_results request")
  case ok: (Inr u)
  have whole: "view_for j request ViewAll = create_coverage_view_with_model j (rq_manifest request) (rq_raw_results request)
      (rq_generated_at request) (model_of request)" by (simp add: view_for_def)
  show ?thesis
  proof (cases "view_for j request ViewAll")
    case (Inl e)
    then show ?thesis
      using view_cases[of j "rq_manifest request" "rq_raw_results request" "rq_generated_at request" "model_of request"]
      by (simp add: analyze_eq ok flip: whole)
  next
    case (Inr view)
    obtain passed failed where "view_for j request ViewPassed = Inr passed" "view_for j request ViewFailed = Inr failed"
      using part_views[OF Inr] by metis
    then show ?thesis using Inr
        view_cases[of j "rq_manifest request" "rq_raw_results request" "rq_generated_at request" "model_of request"]
      by (simp add: analyze_eq ok flip: whole)
  qed
qed (simp add: analyze_eq)

lemma analysis_report:
  assumes "check_results request = Inr ()" "view_ok (settled_manifest j (rq_manifest request)) (rq_raw_results request)"
  shows "\<exists>report. analyze_coverage_results j request = Inr report"
  using analysis_outcome[of j request] assms by blast

text \<open>A request the analysis accepts: results of its own run, at least one, and a model that can be
  stored.\<close>

definition results_ok :: "'v coverage_report_request \<Rightarrow> bool" where
  "results_ok request \<longleftrightarrow> rq_raw_results request \<noteq> []
     \<and> list_all (\<lambda>raw. case rt_scope raw of None \<Rightarrow> True | Some scope \<Rightarrow> es_run_id scope = rq_run_id request)
         (rq_raw_results request)
     \<and> into_declaration (persist (model_of request)) = Inr (model_of request)"

lemma check_results_iff: "check_results request = Inr () \<longleftrightarrow> results_ok request"
proof -
  have scopes: "find (\<lambda>scope. es_run_id scope \<noteq> rq_run_id request) (List.map_filter rt_scope (rq_raw_results request)) = None
      \<longleftrightarrow> list_all (\<lambda>raw. case rt_scope raw of None \<Rightarrow> True | Some scope \<Rightarrow> es_run_id scope = rq_run_id request) (rq_raw_results request)"
    by (auto simp: find_None_iff list_all_iff set_map_filter_Some split: option.splits)
  have model: "(\<exists>p. from_declaration m = Inr p) \<longleftrightarrow> into_declaration (persist m) = Inr m" for m
    by (auto simp: from_declaration_def into_declaration_def persist_def Let_def rbind_Inr_iff split: if_splits)
  show ?thesis
    unfolding check_results_def model_of_def[symmetric] results_ok_def scopes[symmetric] model[symmetric] Let_def
    by (auto split: option.splits sum.splits)
qed

text \<open>C20: The analysis of a request never panics: when the whole view builds, the passing and the failing
  one do too, as the code expects. It gives a report exactly for a request whose results are of its
  run, that holds some, that declares a model that reads back, and whose run has a view.\<close>

theorem analysis_never_panics:
  "analyze_coverage_results j request \<noteq> Inl Panicked
   \<and> ((\<exists>report. analyze_coverage_results j request = Inr report)
        \<longleftrightarrow> results_ok request \<and> view_ok (settled_manifest j (rq_manifest request)) (rq_raw_results request))"
  using analysis_outcome[of j request] unfolding check_results_iff .

fun view_in :: "'v coverage_report \<Rightarrow> coverage_view_id \<Rightarrow> 'v coverage_view" where
  "view_in report ViewAll = rp_view report"
| "view_in report ViewPassed = fi_passed (rp_filters report)"
| "view_in report ViewFailed = fi_failed (rp_filters report)"

lemma created_view_integrity:
  assumes "create_coverage_view_with_model j manifest raws g model = Inr view"
  shows "cv_integrity view = None"
  using assms
  by (auto simp: create_coverage_view_with_model_def view_of_results_def Let_def rbind_Inr_iff)

text \<open>The views read one at a time are the views of the report: whichever views a reader asks for, in
  whatever order, each is the view \<open>analyze_coverage_results\<close> puts in the report.\<close>

theorem views_are_the_reports:
  assumes "analyze_coverage_results j request = Inr report"
  shows "coverage_views j request views (Some transport) =
    Inr (map (\<lambda>i. Inr (i, view_in (with_transport transport report) i)) views)"
proof -
  obtain view passed failed where built: "view_for j request ViewAll = Inr view"
      "view_for j request ViewPassed = Inr passed" "view_for j request ViewFailed = Inr failed"
    and check: "check_results request = Inr ()"
    and report: "rp_view report = with_integrity (rq_integrity request) view"
      "rp_filters report = \<lparr>fi_passed = with_integrity (rq_integrity request) passed,
         fi_failed = with_integrity (rq_integrity request) failed\<rparr>"
    using assms by (cases "check_results request") (auto simp: analyze_eq rbind_Inr_iff)
  have integrity: "v\<lparr>cv_integrity := rq_integrity request\<rparr> = with_integrity (rq_integrity request) v"
    if "view_for j request i = Inr v" for i and v :: "'a coverage_view"
    using created_view_integrity[of j] that by (cases "rq_integrity request") (auto simp: view_for_def with_integrity_def)
  have one: "rbind (create_coverage_view_with_model j (rq_manifest request) (results_of_view request i)
        (rq_generated_at request) (model_of request)) (\<lambda>view. Inr (i, view\<lparr>cv_integrity := rq_integrity request,
          cv_transport := Some transport\<rparr>)) = Inr (i, view_in (with_transport transport report) i)" for i
  proof -
    obtain v where v: "view_for j request i = Inr v" using built by (cases i) auto
    moreover have "v\<lparr>cv_integrity := rq_integrity request, cv_transport := Some transport\<rparr>
        = (with_integrity (rq_integrity request) v)\<lparr>cv_transport := Some transport\<rparr>"
      by (simp flip: integrity[OF v])
    moreover have "view_in (with_transport transport report) i
        = (with_integrity (rq_integrity request) v)\<lparr>cv_transport := Some transport\<rparr>"
      using v built report by (cases i) (simp_all add: with_transport_def)
    ultimately show ?thesis by (simp add: view_for_def)
  qed
  show ?thesis unfolding coverage_views_def check rbind.simps Let_def model_of_def[symmetric] one ..
qed

end
