(* ===== verification/ArchiveReport.thy ===== *)
theory ArchiveReport
  imports ErrorText ServerRecords TestFilter PhaseIdentity CoverageReport
begin

section \<open>A stored run's report (coverage\_report.rs, archive\_request and its callers)\<close>

text \<open>
  The evidence archive is read into the request its views are built from: records parsed in batches,
  server work joined and credited, repeated executions separated, leaked phases released, the tests a
  filter picks kept, and the whole held to its frontend's declaration.

  \<open>'v library\<close> holds what the engine uses of other code: gzip, SHA-256, \<open>serde_json\<close> from and to the
  records it stores, the file system's contents, the number of cores, \<open>to_lowercase\<close> and \<open>{:?}\<close>, whose
  tables are Unicode's, and whether the test fault \<open>report-request\<close> fires.
\<close>

record 'v library =
  lib_open :: "string \<Rightarrow> io_error + string"
  lib_gunzip :: "string \<Rightarrow> reader \<times> string"
  lib_sha256 :: "string \<Rightarrow> string"
  lib_header_to_vec :: "entry_header \<Rightarrow> string"
  lib_header_from :: "string \<Rightarrow> string + entry_header"
  lib_manifest_from :: "string \<Rightarrow> string + 'v coverage_manifest"
  lib_frontend_from :: "string \<Rightarrow> string + frontend_declaration"
  lib_model_from :: "string \<Rightarrow> string + persisted_coverage_model"
  lib_result_from :: "string \<Rightarrow> string + raw_test_result"
  lib_server_from :: "string \<Rightarrow> string + server_record"
  lib_event_from :: "string \<Rightarrow> string + trace_event"
  lib_server_to_vec :: "server_record \<Rightarrow> string"
  lib_json :: "'v json"
  lib_cores :: "nat option"
  lib_lower :: "string \<Rightarrow> string"
  lib_debug :: "string \<Rightarrow> string"
  lib_debug_report_error :: "report_error \<Rightarrow> string"
  lib_injected :: bool

record 'v archive_report_request =
  aq_archive_path :: string
  aq_run_id :: string
  aq_generated_at :: string
  aq_integrity :: "'v option"
  aq_test_exit_code :: exit_code_input
  aq_test_filter :: "test_filter option"

subsection \<open>From the archive to a request\<close>

definition read_evidence ::
  "'v library \<Rightarrow> 'v archive_report_request
     \<Rightarrow> stop + archive_digest \<times> archive_entry list \<times> raw_test_result list" where
  "read_evidence lib request =
     (case read_archive_each (lib_gunzip lib) (lib_sha256 lib) (lib_header_to_vec lib) (lib_header_from lib)
         (lib_open lib (aq_archive_path request)) (\<lambda>_. True) (visit_entry (lib_cores lib) (lib_result_from lib)) no_batch of
        Inl error \<Rightarrow> Inl (Returned (InvalidArchive (display_archive_error (lib_debug lib) error)))
      | Inr (digest, st) \<Rightarrow>
          let st = flush_batch (lib_cores lib) (lib_result_from lib) st
          in (case bs_failure st of
               Some error \<Rightarrow> Inl (Returned error)
             | None \<Rightarrow> Inr (digest, bs_entries st, bs_raw_results st @ bs_journal_results st)))"

text \<open>\<open>held(path)\<close>, parsed: a read archive holds its manifest, declaration and model.\<close>

definition parse_held :: "archive_entry list \<Rightarrow> string \<Rightarrow> (string \<Rightarrow> string + 'a) \<Rightarrow> stop + 'a" where
  "parse_held entries path from_slice =
     rbind (expect (find (\<lambda>entry. ae_path entry = path) entries)) (\<lambda>entry. stop_report (parse_entry from_slice entry))"

definition read_model :: "'v library \<Rightarrow> archive_entry list \<Rightarrow> frontend_declaration \<Rightarrow> stop + coverage_model_declaration" where
  "read_model lib entries frontend =
     rbind (parse_held entries ''coverage-model.json'' (lib_model_from lib)) (\<lambda>persisted.
     rbind (case into_declaration persisted of
         Inl reason \<Rightarrow> Inl (Returned (InvalidJson ''coverage-model.json'' reason)) | Inr m \<Rightarrow> Inr m) (\<lambda>coverage_model.
     if fd_language frontend \<noteq> md_language coverage_model
     then Inl (Returned (InvalidArchive (''frontend language '' @ fd_language frontend
       @ '' differs from coverage model language '' @ md_language coverage_model)))
     else Inr coverage_model))"

text \<open>The results a filter leaves and the runners they ran under; \<open>is_empty\<close> filters are no filter.\<close>

definition filter_evidence ::
  "'v library \<Rightarrow> test_filter option \<Rightarrow> frontend_declaration \<Rightarrow> raw_test_result list
     \<Rightarrow> stop + frontend_declaration \<times> raw_test_result list" where
  "filter_evidence lib test_filter frontend raw_results =
     (case test_filter of
        None \<Rightarrow> Inr (frontend, raw_results)
      | Some f \<Rightarrow>
          if filter_is_empty f then Inr (frontend, raw_results)
          else rbind (stop_report (select (lib_lower lib) f raw_results)) (\<lambda>raw_results.
            Inr (frontend\<lparr>fd_runners := filter (\<lambda>declared.
                   list_ex (\<lambda>raw. tp_runner (rt_provenance raw) = fr_runner declared) raw_results)
                 (fd_runners frontend)\<rparr>, raw_results)))"

definition limitation_id :: "'v library \<Rightarrow> 'v \<Rightarrow> string option" where
  "limitation_id lib limitation = js_str (lib_json lib) limitation ''id''"

definition validate_request :: "'v library \<Rightarrow> frontend_declaration \<Rightarrow> 'v coverage_report_request \<Rightarrow> stop + unit" where
  "validate_request lib frontend normalized =
     (case validate_frontend_report_request (limitation_id lib) (lib_injected lib) frontend normalized of
        Inl error \<Rightarrow> Inl (Returned (InvalidArchive
          (display_protocol_error (lib_debug lib) (lib_debug_report_error lib) error)))
      | Inr u \<Rightarrow> Inr u)"

definition archive_request ::
  "'v library \<Rightarrow> 'v archive_report_request
     \<Rightarrow> stop + frontend_declaration \<times> 'v coverage_report_request \<times> transport_stats \<times> archive_digest" where
  "archive_request lib request =
     rbind (read_evidence lib request) (\<lambda>(digest, entries, raw_results).
     rbind (parse_held entries ''manifest.json'' (lib_manifest_from lib)) (\<lambda>manifest.
     let (raw_results, transport) = attach_server_work (lib_server_from lib) (lib_event_from lib)
           (lib_server_to_vec lib) (aq_run_id request) entries raw_results
     in
     rbind (parse_held entries ''frontend.json'' (lib_frontend_from lib)) (\<lambda>frontend.
     rbind (read_model lib entries frontend) (\<lambda>coverage_model.
     rbind (unwrap (separate_repeated_executions raw_results)) (\<lambda>raw_results.
     let raw_results = release_leaked_phases raw_results in
     rbind (filter_evidence lib (aq_test_filter request) frontend raw_results) (\<lambda>(frontend, raw_results).
     let normalized = \<lparr>rq_run_id = aq_run_id request, rq_manifest = manifest, rq_raw_results = raw_results,
           rq_generated_at = aq_generated_at request, rq_coverage_model = Some coverage_model,
           rq_integrity = aq_integrity request, rq_test_exit_code = aq_test_exit_code request\<rparr>
     in
     rbind (validate_request lib frontend normalized) (\<lambda>_.
     Inr (frontend, normalized, transport, digest))))))))"

subsection \<open>From the request to a report\<close>

definition analyze_coverage_archive ::
  "'v library \<Rightarrow> 'v archive_report_request \<Rightarrow> stop + 'v coverage_report" where
  "analyze_coverage_archive lib request =
     rbind (archive_request lib request) (\<lambda>(_, normalized, transport, _).
     rbind (analyze_coverage_results (lib_json lib) normalized) (\<lambda>report.
     Inr (with_transport transport report)))"

definition analyze_frontend_results ::
  "'v library \<Rightarrow> frontend_declaration \<Rightarrow> 'v coverage_report_request
     \<Rightarrow> stop + (protocol_error + 'v coverage_report)" where
  "analyze_frontend_results lib declaration request =
     (case validate_frontend_report_request (limitation_id lib) (lib_injected lib) declaration request of
        Inl error \<Rightarrow> Inr (Inl error)
      | Inr _ \<Rightarrow>
          (case analyze_coverage_results (lib_json lib) request of
             Inl Panicked \<Rightarrow> Inl Panicked
           | Inl (Returned error) \<Rightarrow> Inr (Inl (AnalysisFailed error))
           | Inr report \<Rightarrow> Inr (Inr report)))"

definition analyze_frontend_request ::
  "'v library \<Rightarrow> frontend_declaration \<Rightarrow> 'v coverage_report_request \<Rightarrow> transport_stats
     \<Rightarrow> stop + 'v coverage_report" where
  "analyze_frontend_request lib frontend normalized transport =
     rbind (analyze_frontend_results lib frontend normalized) (\<lambda>analysed.
     case analysed of
       Inl error \<Rightarrow> Inl (Returned (InvalidArchive
         (display_protocol_error (lib_debug lib) (lib_debug_report_error lib) error)))
     | Inr report \<Rightarrow> Inr (with_transport transport report))"

subsection \<open>What reading an archive gives\<close>

lemma read_evidence_Inr:
  assumes "read_evidence lib request = Inr (digest, entries, raw_results)"
  obtains bytes es where "lib_open lib (aq_archive_path request) = Inr bytes"
    "accepted (lib_gunzip lib) (lib_header_to_vec lib) (lib_header_from lib) bytes es"
    "digest = \<lparr>ad_sha256 = lib_sha256 lib bytes, ad_bytes = of_nat (length bytes)\<rparr>"
    "read_at_once (lib_result_from lib) es = Inr (entries, raw_results)"
proof -
  obtain st where read: "read_archive_each (lib_gunzip lib) (lib_sha256 lib) (lib_header_to_vec lib) (lib_header_from lib)
         (lib_open lib (aq_archive_path request)) (\<lambda>_. True) (visit_entry (lib_cores lib) (lib_result_from lib)) no_batch
         = Inr (digest, st)"
    and final: "bs_failure (flush_batch (lib_cores lib) (lib_result_from lib) st) = None"
      "entries = bs_entries (flush_batch (lib_cores lib) (lib_result_from lib) st)"
      "raw_results = bs_raw_results (flush_batch (lib_cores lib) (lib_result_from lib) st)
         @ bs_journal_results (flush_batch (lib_cores lib) (lib_result_from lib) st)"
    using assms by (auto simp: read_evidence_def Let_def split: sum.splits option.splits)
  from read obtain bytes es where bytes: "lib_open lib (aq_archive_path request) = Inr bytes"
    "accepted (lib_gunzip lib) (lib_header_to_vec lib) (lib_header_from lib) bytes es"
    "digest = \<lparr>ad_sha256 = lib_sha256 lib bytes, ad_bytes = of_nat (length bytes)\<rparr>"
    and fold: "try_fold (visit_entry (lib_cores lib) (lib_result_from lib)) es no_batch = Inr st"
    by (auto simp: read_archive_each_iff)
  have "read_in_batches (lib_cores lib) (lib_result_from lib) es
      = Inr (flush_batch (lib_cores lib) (lib_result_from lib) st)"
    by (simp add: read_in_batches_def fold)
  then have "read_at_once (lib_result_from lib) es = Inr (entries, raw_results)"
    using read_in_batches_outcome[of "lib_cores lib" "lib_result_from lib" es] final by auto
  then show thesis using bytes that by blast
qed

lemma read_evidence_complete:
  assumes "lib_open lib (aq_archive_path request) = Inr bytes"
    and "accepted (lib_gunzip lib) (lib_header_to_vec lib) (lib_header_from lib) bytes es"
    and "read_at_once (lib_result_from lib) es = Inr (entries, raw_results)"
  shows "read_evidence lib request = Inr (\<lparr>ad_sha256 = lib_sha256 lib bytes, ad_bytes = of_nat (length bytes)\<rparr>,
    entries, raw_results)"
proof -
  obtain st where fold: "try_fold (visit_entry (lib_cores lib) (lib_result_from lib)) es no_batch = Inr st"
    using read_batches by blast
  have batches: "read_in_batches (lib_cores lib) (lib_result_from lib) es
      = Inr (flush_batch (lib_cores lib) (lib_result_from lib) st)"
    by (simp add: read_in_batches_def fold)
  have "read_archive_each (lib_gunzip lib) (lib_sha256 lib) (lib_header_to_vec lib) (lib_header_from lib)
         (lib_open lib (aq_archive_path request)) (\<lambda>_. True) (visit_entry (lib_cores lib) (lib_result_from lib)) no_batch
         = Inr (\<lparr>ad_sha256 = lib_sha256 lib bytes, ad_bytes = of_nat (length bytes)\<rparr>, st)"
    unfolding read_archive_each_iff using assms(1,2) fold by auto
  then show ?thesis
    using read_in_batches_outcome[of "lib_cores lib" "lib_result_from lib" es] assms(3)
    by (auto simp: read_evidence_def batches Let_def split: option.splits)
qed

text \<open>The entries that are neither results nor journals keep what every archive must hold.\<close>

lemma read_at_once_others: "read_at_once from_slice es = Inr (entries, raws) \<Longrightarrow> entries = other_entries es"
  by (auto simp: read_at_once_def rbind_Inr_iff)

lemma required_held:
  assumes "accepted gunzip to_vec from_slice bytes es" "path \<in> required_paths"
  shows "\<exists>entry. find (\<lambda>entry. ae_path entry = path) (other_entries es) = Some entry"
proof -
  have "path \<in> ae_path ` set es" using assms by (auto simp: accepted_def)
  then obtain entry where "entry \<in> set es" "ae_path entry = path" by blast
  moreover have "\<not> is_mcdc_result path" "\<not> is_mcdc_journal path"
    using assms(2) by (auto simp: required_paths_def is_mcdc_result_def is_mcdc_journal_def ends_with_def strip_suffix_def)
  ultimately have "entry \<in> set (other_entries es)" "ae_path entry = path" by (auto simp: other_entries_def)
  then show ?thesis
    by (cases "find (\<lambda>entry. ae_path entry = path) (other_entries es)") (auto simp: find_None_iff)
qed

subsection \<open>The archive's reader keeps its expectations\<close>

lemma read_evidence_no_panic: "read_evidence lib request \<noteq> Inl stop.Panicked"
  by (auto simp: read_evidence_def Let_def split: sum.splits option.splits)

lemma parse_held_no_panic:
  assumes "read_evidence lib request = Inr (digest, entries, raws)" "path \<in> required_paths"
  shows "parse_held entries path from_slice \<noteq> Inl stop.Panicked"
proof -
  obtain bytes es where es: "accepted (lib_gunzip lib) (lib_header_to_vec lib) (lib_header_from lib) bytes es"
      "read_at_once (lib_result_from lib) es = Inr (entries, raws)"
    using read_evidence_Inr[OF assms(1)] by metis
  obtain entry where "find (\<lambda>entry. ae_path entry = path) entries = Some entry"
    using required_held[OF es(1) assms(2)] read_at_once_others[OF es(2)] by blast
  then show ?thesis by (auto simp: parse_held_def expect_def ok_or_def stop_report_def split: sum.splits)
qed

lemma filter_evidence_no_panic: "filter_evidence lib f frontend raws \<noteq> Inl stop.Panicked"
  by (auto simp: filter_evidence_def rbind_Inl_iff stop_report_def split: option.splits sum.splits)

lemma validate_request_outcome:
  "validate_request lib frontend normalized \<noteq> Inl stop.Panicked"
  "validate_request lib frontend normalized = Inr u \<longleftrightarrow>
     validate_frontend_report_request (limitation_id lib) (lib_injected lib) frontend normalized = Inr u"
  by (auto simp: validate_request_def split: sum.splits)

lemma archive_request_cases:
  "case archive_request lib request of
     Inl e \<Rightarrow> e \<noteq> stop.Panicked
   | Inr (frontend, normalized, _, digest) \<Rightarrow>
       validate_frontend_report_request (limitation_id lib) (lib_injected lib) frontend normalized = Inr ()
       \<and> map_sum id (lib_sha256 lib) (lib_open lib (aq_archive_path request)) = Inr (ad_sha256 digest)"
proof (cases "read_evidence lib request")
  case (Inl e)
  then show ?thesis using read_evidence_no_panic[of lib request] by (simp add: archive_request_def)
next
  case (Inr r)
  then obtain digest entries raws where read: "read_evidence lib request = Inr (digest, entries, raws)"
    by (cases r) auto
  have digest: "map_sum id (lib_sha256 lib) (lib_open lib (aq_archive_path request)) = Inr (ad_sha256 digest)"
    using read_evidence_Inr[OF read] by fastforce
  have held: "parse_held entries path from_slice \<noteq> Inl stop.Panicked" if path: "path \<in> required_paths"
    for path and from_slice :: "string \<Rightarrow> string + 'x"
    using parse_held_no_panic[OF read path] .
  have model: "read_model lib entries frontend \<noteq> Inl stop.Panicked" for frontend
    using held[of "''coverage-model.json''" "lib_model_from lib"]
    by (auto simp: read_model_def required_paths_def rbind_Inl_iff split: sum.splits if_splits)
  have separated: "unwrap (separate_repeated_executions raws) \<noteq> Inl stop.Panicked" for raws
    using separation_succeeds[of raws] by (auto simp: unwrap_def)
  obtain work transport where server: "attach_server_work (lib_server_from lib) (lib_event_from lib)
      (lib_server_to_vec lib) (aq_run_id request) entries raws = (work, transport)" by fastforce
  show ?thesis
  proof (cases "archive_request lib request")
    case (Inl e)
    then show ?thesis
      using parse_held_no_panic[OF read, of "''manifest.json''" "lib_manifest_from lib"]
        parse_held_no_panic[OF read, of "''frontend.json''" "lib_frontend_from lib"]
        model separated
      by (auto simp: archive_request_def read server Let_def rbind_Inl_iff required_paths_def
          filter_evidence_no_panic validate_request_outcome(1))
  next
    case (Inr q)
    then obtain frontend normalized where "q = (frontend, normalized, transport, digest)"
        "validate_frontend_report_request (limitation_id lib) (lib_injected lib) frontend normalized = Inr ()"
      by (auto simp: archive_request_def read server Let_def rbind_Inr_iff validate_request_outcome(2))
    then show ?thesis using digest Inr by simp
  qed
qed

text \<open>C21: Reading a stored run never panics, whatever bytes are at its path: an archive that is read holds
  the entries the reader expects of it. A request it returns passes its frontend's validation, its
  digest is of the bytes read, and analysing it never panics either.\<close>

theorem archive_never_panics:
  "(case archive_request lib request of
      Inl e \<Rightarrow> e \<noteq> stop.Panicked
    | Inr (frontend, normalized, _, digest) \<Rightarrow>
        validate_frontend_report_request (limitation_id lib) (lib_injected lib) frontend normalized = Inr ()
        \<and> map_sum id (lib_sha256 lib) (lib_open lib (aq_archive_path request)) = Inr (ad_sha256 digest))
   \<and> analyze_coverage_archive lib request \<noteq> Inl stop.Panicked"
proof -
  have "analyze_coverage_archive lib request \<noteq> Inl stop.Panicked"
    using archive_request_cases[of lib request] analysis_outcome[of "lib_json lib"]
    by (auto simp: analyze_coverage_archive_def rbind_Inl_iff split: sum.splits)
  then show ?thesis using archive_request_cases[of lib request] by blast
qed

end
