(* ===== verification/OwnedArchive.thy ===== *)
theory OwnedArchive
  imports ArchiveReport ArchivePublish
begin

section \<open>The archive a run publishes, and reading it back (owned\_evidence.rs)\<close>

text \<open>
  A frontend's run is archived as one entry for what the numbers mean, one for who produced them, one
  for the obligations and one per test. Publication analyses the request it has just archived
  (\<open>analyze_frontend_request\<close>) instead of reading the archive back (\<open>analyze_coverage_archive\<close>). The
  Python, Ruby and Rust frontends build the same entries in copies of \<open>archive_entries\<close>.

  \<open>serde_json::to_vec\<close> of the stored records is a parameter; \<open>reads_what_is_written\<close> states of it and
  of \<open>from_slice\<close> what the code relies on, for the records of one run.
\<close>

record 'v owned_run =
  ow_declaration :: frontend_declaration
  ow_request :: "'v coverage_report_request"
  ow_tests :: nat

record 'v json_writer =
  jw_manifest :: "'v coverage_manifest \<Rightarrow> string"
  jw_frontend :: "frontend_declaration \<Rightarrow> string"
  jw_model :: "persisted_coverage_model \<Rightarrow> string"
  jw_result :: "raw_test_result \<Rightarrow> string"

text \<open>\<open>{index:08}\<close>: decimal, zeros before it up to eight digits.\<close>

definition padded :: "nat \<Rightarrow> nat \<Rightarrow> string" where
  "padded width n = replicate (width - length (decimal n)) CHR ''0'' @ decimal n"

definition result_path :: "nat \<Rightarrow> string" where
  "result_path index = ''results/'' @ padded 8 index @ ''/mcdc.json''"

definition archive_entries :: "'v json_writer \<Rightarrow> 'v owned_run \<Rightarrow> stop + archive_entry list" where
  "archive_entries w run =
     rbind (expect (rq_coverage_model (ow_request run))) (\<lambda>coverage_model.
     rbind (unwrap (from_declaration coverage_model)) (\<lambda>model.
     Inr ([\<lparr>ae_path = ''coverage-model.json'', ae_contents = jw_model w model\<rparr>,
         \<lparr>ae_path = ''frontend.json'', ae_contents = jw_frontend w (ow_declaration run)\<rparr>,
         \<lparr>ae_path = ''manifest.json'', ae_contents = jw_manifest w (rq_manifest (ow_request run))\<rparr>]
       @ map (\<lambda>(index, raw). \<lparr>ae_path = result_path index, ae_contents = jw_result w raw\<rparr>)
           (enumerate 0 (rq_raw_results (ow_request run))))))"

subsection \<open>Results sort by their index\<close>

lemma digits_value_app: "digits_value (s @ [c]) = digits_value s * 10 + (code c - 48)"
  by (simp add: digits_value_def)

lemma digits_value_bound: "list_all is_ascii_digit s \<Longrightarrow> digits_value s < 10 ^ length s"
proof (induction s rule: rev_induct)
  case (snoc c s)
  then have "code c - 48 < 10" "digits_value s < 10 ^ length s" by (auto simp: is_ascii_digit_def)
  then show ?case by (simp add: digits_value_app)
qed (simp add: digits_value_def)

lemma digits_inject:
  "length s = length t \<Longrightarrow> list_all is_ascii_digit s \<Longrightarrow> list_all is_ascii_digit t \<Longrightarrow>
     digits_value s = digits_value t \<Longrightarrow> s = t"
proof (induction s arbitrary: t rule: rev_induct)
  case (snoc c s)
  then obtain t' d where t: "t = t' @ [d]" by (metis length_greater_0_conv length_append_singleton rev_exhaust zero_less_Suc)
  have digit: "code c - 48 < 10" "code d - 48 < 10" "48 \<le> code c" "48 \<le> code d"
    using snoc.prems t by (auto simp: is_ascii_digit_def)
  have eq: "digits_value s * 10 + (code c - 48) = digits_value t' * 10 + (code d - 48)"
    using snoc.prems(4) unfolding t digits_value_app .
  have tens: "a = b \<and> x = y" if "a * 10 + x = b * 10 + y" "x < 10" "y < 10" for a b x y :: nat
    using that by presburger
  have "digits_value s = digits_value t'" "code c = code d"
    using tens[OF eq digit(1,2)] digit(3,4) by auto
  moreover have "c = d" using calculation(2) char_of_code by metis
  moreover have "s = t'" using snoc.IH[of t'] snoc.prems t calculation(1) by simp
  ultimately show ?case unfolding t by simp
qed simp

lemma digits_order:
  "length s = length t \<Longrightarrow> list_all is_ascii_digit s \<Longrightarrow> list_all is_ascii_digit t \<Longrightarrow>
     digits_value s < digits_value t \<Longrightarrow> s < t"
proof (induction s arbitrary: t rule: rev_induct)
  case (snoc c s)
  then obtain t' d where t: "t = t' @ [d]" by (metis length_greater_0_conv length_append_singleton rev_exhaust zero_less_Suc)
  have digit: "code c - 48 < 10" "code d - 48 < 10" "48 \<le> code c" "48 \<le> code d"
    using snoc.prems t by (auto simp: is_ascii_digit_def)
  have same: "length s = length t'" "list_all is_ascii_digit s" "list_all is_ascii_digit t'"
    using snoc.prems t by auto
  have less: "digits_value s * 10 + (code c - 48) < digits_value t' * 10 + (code d - 48)"
    using snoc.prems(4) unfolding t digits_value_app .
  show ?case
  proof (cases "digits_value s < digits_value t'")
    case True
    then have "s < t'" using snoc.IH same by blast
    then show ?thesis unfolding t using same(1)
      by (auto simp: list_less_def lexord_append_leftI intro: lexord_sufE lexord_sufI)
  next
    case False
    then have eq: "digits_value s = digits_value t'" using less digit by linarith
    then have "code c < code d" using less digit by linarith
    then have "c < d" by (simp add: less_char_def code_def)
    have "s = t'" using digits_inject eq same by blast
    then show ?thesis unfolding t using \<open>c < d\<close> by (simp add: list_less_def lexord_append_leftI)
  qed
qed (simp add: digits_value_def)

lemma decimal_length: "n < 10 ^ k \<Longrightarrow> 0 < k \<Longrightarrow> length (decimal n) \<le> k"
proof (induction n arbitrary: k rule: decimal.induct)
  case (1 n)
  show ?case
  proof (cases "n < 10")
    case False
    obtain k' where k: "k = Suc k'" using 1(3) by (cases k) auto
    have "0 < k'" using 1(2) False unfolding k by (cases k') auto
    moreover have "n div 10 < 10 ^ k'" using 1(2) unfolding k by (simp add: div_less_iff_less_mult mult.commute)
    ultimately show ?thesis using 1(1)[OF False] by (subst decimal.simps) (simp add: False k)
  qed (use 1 in \<open>simp add: decimal.simps\<close>)
qed

lemma padded_digits: "list_all is_ascii_digit (padded w n)"
proof -
  have "is_ascii_digit CHR ''0''" by (simp add: is_ascii_digit_def code_def)
  then show ?thesis using decimal_digits[of _ n] by (auto simp: padded_def list_all_iff)
qed

lemma digits_value_padded: "digits_value (padded w n) = n"
proof -
  have "digits_value (replicate k CHR ''0'' @ s) = digits_value s" for k s
    by (induction k) (simp_all add: digits_value_def code_def)
  then show ?thesis by (simp add: padded_def)
qed

lemma result_path_order:
  assumes "i < k" "k < 10 ^ 8"
  shows "result_path i < result_path k"
proof -
  have length: "length (padded 8 n) = 8" if "n < 10 ^ 8" for n
    using decimal_length[OF that] by (simp add: padded_def)
  have lengths: "length (padded 8 i) = length (padded 8 k)" using length assms by simp
  have "padded 8 i < padded 8 k"
    by (rule digits_order[OF lengths padded_digits padded_digits]) (simp add: digits_value_padded assms)
  then have "padded 8 i @ t < padded 8 k @ t" for t
    using lengths by (auto simp: list_less_def intro: lexord_sufI)
  then show ?thesis unfolding result_path_def list_less_def by (auto intro: lexord_append_leftI)
qed

subsection \<open>A run that keeps its declaration is read as it is\<close>

lemma separate_distinct:
  assumes "distinct (concat (map phase_ids raws))"
  shows "separate_repeated_executions raws = Inr raws"
proof -
  have "try_fold separate_step raws (acc, declared, executions) = Inr (acc @ raws, declared @ concat (map phase_ids raws), executions)"
    if "distinct (concat (map phase_ids raws))" "set (concat (map phase_ids raws)) \<inter> set declared = {}"
    for acc declared executions
    using that
  proof (induction raws arbitrary: acc declared)
    case (Cons raw raws)
    have "separate_step raw (acc, declared, executions) = Inr (acc @ [raw], declared @ phase_ids raw, executions)"
      using Cons.prems(2) by (auto simp: separate_step_def list_ex_iff phase_ids_def)
    moreover have "set (concat (map phase_ids raws)) \<inter> set (declared @ phase_ids raw) = {}"
      using Cons.prems by auto
    ultimately show ?case using Cons.IH[where acc = "acc @ [raw]" and declared = "declared @ phase_ids raw"] Cons.prems(1) by simp
  qed simp
  from this[OF assms, where acc = "[]" and declared = "[]" and executions = Map.empty] show ?thesis by (simp add: separate_repeated_executions_def)
qed

lemma release_own:
  assumes "list_all (\<lambda>raw. references_of raw \<subseteq> set (phase_ids raw)) raws"
  shows "release_leaked_phases raws = raws"
proof -
  have "map_references (release_leaked declared (set (phase_ids raw))) raw = raw"
    if "raw \<in> set raws" for raw declared
    by (rule map_references_same) (use assms that in \<open>auto simp: list_all_iff release_leaked_def\<close>)
  then show ?thesis by (simp add: release_leaked_phases_def Let_def map_idI)
qed

lemma references_declared: "list_all (refers_to ids) (references raw) \<Longrightarrow> references_of raw \<subseteq> ids"
proof
  fix i assume refs: "list_all (refers_to ids) (references raw)" and i: "i \<in> references_of raw"
  have "references_of raw \<subseteq> (\<Union>r \<in> set (references raw). set_option r)"
    unfolding references_of_def references_def by auto
  then obtain r where r: "r \<in> set (references raw)" "r = Some i" using i by (auto simp: elem_set)
  have "refers_to ids r" using refs r(1) unfolding list_all_iff by blast
  then show "i \<in> ids" using r(2) by (auto simp: refers_to_def)
qed

lemma valid_phases:
  assumes "validate_frontend_report_request limitation injected d request = Inr ()"
  shows "separate_repeated_executions (rq_raw_results request) = Inr (rq_raw_results request)"
    "release_leaked_phases (rq_raw_results request) = rq_raw_results request"
proof -
  have ok: "FrontendProtocol.request_ok limitation d request" using assms by (simp add: validate_request_iff)
  have ids: "phase_ids = (\<lambda>raw. map cp_id (rt_phases raw))" by (simp add: fun_eq_iff phase_ids_def)
  have "distinct (concat (map phase_ids (rq_raw_results request)))"
    using ok by (simp add: request_ok_def ids)
  moreover have "list_all (\<lambda>raw. references_of raw \<subseteq> set (phase_ids raw)) (rq_raw_results request)"
    using ok references_declared
    by (fastforce simp: request_ok_def attempt_ok_def phases_ok_def list_all_iff phase_ids_def)
  ultimately show "separate_repeated_executions (rq_raw_results request) = Inr (rq_raw_results request)"
    "release_leaked_phases (rq_raw_results request) = rq_raw_results request" by (simp_all add: separate_distinct release_own)
qed

text \<open>Without server shards and traces nothing is joined, credited or counted.\<close>

lemma no_server_work:
  assumes "list_all (\<lambda>entry. \<not> starts_with ''server/'' (ae_path entry) \<and> \<not> starts_with ''execution.'' (ae_path entry)) entries"
  shows "attach_server_work server_from event_from to_vec run_id entries raws = (raws, transport_none)"
proof -
  have prefix: "starts_with ''server/background/'' path \<Longrightarrow> starts_with ''server/'' path" for path
    by (auto simp: starts_with_iff)
  have "filter (\<lambda>entry. is_scoped_shard (ae_path entry)) entries = []"
    "filter (\<lambda>entry. is_background_shard (ae_path entry)) entries = []"
    "filter (\<lambda>entry. is_execution_trace (ae_path entry)) entries = []"
    using assms prefix
    by (auto simp: filter_empty_conv list_all_iff is_scoped_shard_def is_background_shard_def is_execution_trace_def)
  then have "parse_server_json_lines server_from (filter (\<lambda>entry. is_scoped_shard (ae_path entry)) entries) = no_lines"
    "parse_server_json_lines event_from (filter (\<lambda>entry. is_execution_trace (ae_path entry)) entries) = no_lines"
    "read_background server_from entries = ([], 0, 0)"
    by (simp_all only: parse_server_json_lines_def read_background_def shards_by_writer_def fold.simps id_apply)
  moreover have "join_scoped to_vec raws [] = raws" by (simp add: join_scoped_def)
  moreover have "credit_by_time to_vec raws [] = (raws, [])" by (simp add: credit_by_time_def all_work_def)
  ultimately show ?thesis
    by (simp add: attach_server_work_def transport_none_def count_event_def no_lines_def)
qed

subsection \<open>The archive of a run, as it is read\<close>

lemma sort_key_map: "sort_key f (map g xs) = map g (sort_key (f \<circ> g) xs)"
proof -
  have "insort_key f (g x) (map g ys) = map g (insort_key (f \<circ> g) x ys)" for x ys
    by (induction ys) auto
  then show ?thesis by (induction xs) (simp_all add: sort_key_def)
qed

definition result_entry :: "'v json_writer \<Rightarrow> nat \<times> raw_test_result \<Rightarrow> archive_entry" where
  "result_entry w = (\<lambda>(index, raw). \<lparr>ae_path = result_path index, ae_contents = jw_result w raw\<rparr>)"

lemma is_result_path: "is_mcdc_result (result_path index)"
  unfolding is_mcdc_result_def result_path_def ends_with_iff
  by (intro disjI2) (metis append.assoc)

lemma result_paths_sorted:
  assumes "n \<le> 10 ^ 8"
  shows "sorted_wrt (<) (map result_path [0..<n])"
proof -
  have "result_path i < result_path k" if "i < k" "k < n" for i k
    by (rule result_path_order) (use that assms in linarith)+
  then show ?thesis unfolding sorted_wrt_map sorted_wrt_iff_nth_less by simp
qed

lemma result_entry_paths: "map (ae_path \<circ> result_entry w) (enumerate 0 raws) = map result_path [0..<length raws]"
proof -
  have "ae_path \<circ> result_entry w = result_path \<circ> fst" by (simp add: fun_eq_iff result_entry_def split_beta)
  then show ?thesis by (metis enumerate_eq_zip length_upt list.map_comp map_fst_enumerate add_0)
qed

lemma sorted_results:
  assumes "length raws \<le> 10 ^ 8"
  shows "sorted (map (ae_path \<circ> result_entry w) (enumerate 0 raws))"
  unfolding result_entry_paths using result_paths_sorted[OF assms] unfolding strict_sorted_iff by blast

definition head_entries :: "'v json_writer \<Rightarrow> 'v owned_run \<Rightarrow> persisted_coverage_model \<Rightarrow> archive_entry list" where
  "head_entries w run model =
     [\<lparr>ae_path = ''coverage-model.json'', ae_contents = jw_model w model\<rparr>,
      \<lparr>ae_path = ''frontend.json'', ae_contents = jw_frontend w (ow_declaration run)\<rparr>,
      \<lparr>ae_path = ''manifest.json'', ae_contents = jw_manifest w (rq_manifest (ow_request run))\<rparr>]"

lemma head_paths: "map ae_path (head_entries w run model) = [''coverage-model.json'', ''frontend.json'', ''manifest.json'']"
  by (simp add: head_entries_def)

lemma heads_sorted: "sorted (map ae_path (head_entries w run model))"
  unfolding head_paths by code_simp

lemma head_kinds:
  assumes "entry \<in> set (head_entries w run model)"
  shows "\<not> is_mcdc_result (ae_path entry)" "\<not> is_mcdc_journal (ae_path entry)"
    "\<not> starts_with ''server/'' (ae_path entry)" "\<not> starts_with ''execution.'' (ae_path entry)"
  using assms by (auto simp: head_entries_def is_mcdc_result_def is_mcdc_journal_def ends_with_def strip_suffix_def
      starts_with_def)

lemma archive_entries_Inr:
  assumes "archive_entries w run = Inr entries"
  obtains model where "rq_coverage_model (ow_request run) = Some model" "into_declaration (persist model) = Inr model"
    "entries = head_entries w run (persist model)
       @ map (result_entry w) (enumerate 0 (rq_raw_results (ow_request run)))"
proof -
  obtain model persisted where model: "rq_coverage_model (ow_request run) = Some model"
      "from_declaration model = Inr persisted"
      "entries = head_entries w run persisted @ map (result_entry w) (enumerate 0 (rq_raw_results (ow_request run)))"
    using assms by (auto simp: archive_entries_def rbind_Inr_iff expect_def ok_or_def unwrap_def head_entries_def
        result_entry_def split: option.splits sum.splits)
  have "persisted = persist model" "into_declaration (persist model) = Inr model"
    using model(2) by (auto simp: from_declaration_def into_declaration_def persist_def Let_def rbind_Inr_iff split: if_splits)
  then show thesis using model that by blast
qed

text \<open>Sorted into the order they are stored, the entries split as the reader splits them.\<close>

lemma sorted_entries:
  fixes raws :: "raw_test_result list" and w :: "'v json_writer" and run :: "'v owned_run"
    and model :: persisted_coverage_model
  assumes "length raws \<le> 10 ^ 8"
  defines "entries \<equiv> head_entries w run model @ map (result_entry w) (enumerate 0 raws)"
  shows "result_entries (sort_key ae_path entries) = map (result_entry w) (enumerate 0 raws)"
    and "journal_entries (sort_key ae_path entries) = []"
    and "other_entries (sort_key ae_path entries) = head_entries w run model"
proof -
  have result: "is_mcdc_result (ae_path entry)" if mem: "entry \<in> set (map (result_entry w) (enumerate 0 raws))" for entry
    using mem is_result_path by (auto simp: result_entry_def)
  have "filter (\<lambda>entry. is_mcdc_result (ae_path entry)) entries = map (result_entry w) (enumerate 0 raws)"
    unfolding entries_def filter_append using head_kinds(1)[of _ w run model] result
    by (simp add: filter_empty_conv filter_id_conv)
  moreover have "sort_key ae_path (map (result_entry w) (enumerate 0 raws)) = map (result_entry w) (enumerate 0 raws)"
    by (rule sort_key_id_if_sorted) (simp add: sorted_results[OF assms(1)])
  ultimately show "result_entries (sort_key ae_path entries) = map (result_entry w) (enumerate 0 raws)"
    by (simp add: result_entries_def filter_sort)
  have "filter (\<lambda>entry. \<not> is_mcdc_result (ae_path entry) \<and> \<not> is_mcdc_journal (ae_path entry)) entries = head_entries w run model"
    unfolding entries_def filter_append using head_kinds(1,2)[of _ w run model] result
    by (simp add: filter_empty_conv filter_id_conv)
  moreover have "sort_key ae_path (head_entries w run model) = head_entries w run model"
    by (rule sort_key_id_if_sorted) (rule heads_sorted)
  ultimately show "other_entries (sort_key ae_path entries) = head_entries w run model"
    by (simp add: other_entries_def filter_sort)
  have "filter (\<lambda>entry. \<not> is_mcdc_result (ae_path entry) \<and> is_mcdc_journal (ae_path entry)) entries = []"
    unfolding entries_def filter_append using head_kinds(2)[of _ w run model] result
    by (simp add: filter_empty_conv)
  then show "journal_entries (sort_key ae_path entries) = []"
    by (simp add: journal_entries_def filter_sort)
qed

lemma parse_results:
  assumes "list_all (\<lambda>raw. from_slice (jw_result w raw) = Inr raw) raws"
  shows "parse_share (parse_result from_slice) (map (result_entry w) (enumerate n raws)) = Inr raws"
  using assms
  by (induction raws arbitrary: n) (simp_all add: parse_result_def parse_entry_def result_entry_def)

definition reads_what_is_written :: "'v library \<Rightarrow> 'v json_writer \<Rightarrow> 'v owned_run \<Rightarrow> bool" where
  "reads_what_is_written lib w run \<longleftrightarrow>
     lib_manifest_from lib (jw_manifest w (rq_manifest (ow_request run))) = Inr (rq_manifest (ow_request run))
     \<and> lib_frontend_from lib (jw_frontend w (ow_declaration run)) = Inr (ow_declaration run)
     \<and> (case rq_coverage_model (ow_request run) of None \<Rightarrow> True
        | Some model \<Rightarrow> lib_model_from lib (jw_model w (persist model)) = Inr (persist model))
     \<and> list_all (\<lambda>raw. lib_result_from lib (jw_result w raw) = Inr raw) (rq_raw_results (ow_request run))"

text \<open>The request that reads a published run back, with the run's own identity and no filter.\<close>

definition reading_of :: "string \<Rightarrow> 'v owned_run \<Rightarrow> 'v archive_report_request" where
  "reading_of path run = \<lparr>aq_archive_path = path, aq_run_id = rq_run_id (ow_request run),
     aq_generated_at = rq_generated_at (ow_request run), aq_integrity = rq_integrity (ow_request run),
     aq_test_exit_code = rq_test_exit_code (ow_request run), aq_test_filter = None\<rparr>"

lemma published_evidence:
  assumes entries: "archive_entries w run = Inr entries"
    and model: "rq_coverage_model (ow_request run) = Some model"
    and json: "reads_what_is_written lib w run"
    and few: "length (rq_raw_results (ow_request run)) \<le> 10 ^ 8"
    and held: "lib_open lib path = Inr bytes" "canonicalize_entries entries = Inr cs"
      "accepted (lib_gunzip lib) (lib_header_to_vec lib) (lib_header_from lib) bytes cs"
  shows "\<exists>digest. read_evidence lib (reading_of path run)
      = Inr (digest, head_entries w run (persist model), rq_raw_results (ow_request run))"
proof -
  obtain model' where m: "rq_coverage_model (ow_request run) = Some model'"
    and es: "entries = head_entries w run (persist model')
       @ map (result_entry w) (enumerate 0 (rq_raw_results (ow_request run)))"
    using archive_entries_Inr[OF entries] by metis
  have cs: "cs = sort_key ae_path entries" using held(2) by (simp add: canonicalize_Inr_sort)
  have once: "read_at_once (lib_result_from lib) cs
      = Inr (head_entries w run (persist model), rq_raw_results (ow_request run))"
    unfolding read_at_once_def cs es using sorted_entries[OF few, of w run "persist model'"] m model json
    by (simp add: parse_results reads_what_is_written_def)
  have "lib_open lib (aq_archive_path (reading_of path run)) = Inr bytes"
    using held(1) by (simp add: reading_of_def)
  from read_evidence_complete[OF this held(3) once] show ?thesis by blast
qed

lemma validate_request_Inr:
  "validate_request lib frontend normalized = Inr u \<longleftrightarrow>
     validate_frontend_report_request (limitation_id lib) (lib_injected lib) frontend normalized = Inr u"
  by (simp add: validate_request_def split: sum.splits)

lemma published_request:
  assumes entries: "archive_entries w run = Inr entries"
    and json: "reads_what_is_written lib w run"
    and few: "length (rq_raw_results (ow_request run)) \<le> 10 ^ 8"
    and held: "lib_open lib path = Inr bytes" "canonicalize_entries entries = Inr cs"
      "accepted (lib_gunzip lib) (lib_header_to_vec lib) (lib_header_from lib) bytes cs"
    and language: "fd_language (ow_declaration run) = md_language (model_of (ow_request run))"
    and valid: "validate_frontend_report_request (limitation_id lib) (lib_injected lib) (ow_declaration run)
        (ow_request run) = Inr ()"
  shows "\<exists>digest. archive_request lib (reading_of path run)
      = Inr (ow_declaration run, ow_request run, transport_none, digest)"
proof -
  obtain model where model: "rq_coverage_model (ow_request run) = Some model" "into_declaration (persist model) = Inr model"
    using archive_entries_Inr[OF entries] by metis
  obtain digest where read: "read_evidence lib (reading_of path run)
      = Inr (digest, head_entries w run (persist model), rq_raw_results (ow_request run))"
    using published_evidence[OF entries model(1) json few held] by blast
  let ?heads = "head_entries w run (persist model)"
  have parsed: "parse_held ?heads ''manifest.json'' (lib_manifest_from lib) = Inr (rq_manifest (ow_request run))"
    "parse_held ?heads ''frontend.json'' (lib_frontend_from lib) = Inr (ow_declaration run)"
    "parse_held ?heads ''coverage-model.json'' (lib_model_from lib) = Inr (persist model)"
    using json model(1)
    by (simp_all add: parse_held_def head_entries_def expect_def ok_or_def parse_entry_def reads_what_is_written_def)
  have server: "attach_server_work (lib_server_from lib) (lib_event_from lib) (lib_server_to_vec lib) run_id ?heads raws
      = (raws, transport_none)" for run_id raws
    using head_kinds(3,4)[of _ w run "persist model"] by (intro no_server_work) (auto simp: list_all_iff)
  have phases: "unwrap (separate_repeated_executions (rq_raw_results (ow_request run))) = Inr (rq_raw_results (ow_request run))"
    "release_leaked_phases (rq_raw_results (ow_request run)) = rq_raw_results (ow_request run)"
    using valid_phases[OF valid] by (simp_all add: unwrap_def)
  have same: "\<lparr>rq_run_id = rq_run_id (ow_request run), rq_manifest = rq_manifest (ow_request run),
      rq_raw_results = rq_raw_results (ow_request run), rq_generated_at = rq_generated_at (ow_request run),
      rq_coverage_model = Some model, rq_integrity = rq_integrity (ow_request run),
      rq_test_exit_code = rq_test_exit_code (ow_request run)\<rparr> = ow_request run"
    by (simp flip: model(1))
  have read_model: "read_model lib ?heads (ow_declaration run) = Inr model"
    using language model by (simp add: read_model_def parsed model_of_def)
  have reading: "aq_run_id (reading_of path run) = rq_run_id (ow_request run)"
    "aq_generated_at (reading_of path run) = rq_generated_at (ow_request run)"
    "aq_integrity (reading_of path run) = rq_integrity (ow_request run)"
    "aq_test_exit_code (reading_of path run) = rq_test_exit_code (ow_request run)"
    "aq_test_filter (reading_of path run) = None"
    by (simp_all add: reading_of_def)
  have "validate_request lib (ow_declaration run) (ow_request run) = Inr ()"
    using valid by (simp add: validate_request_Inr)
  then have "archive_request lib (reading_of path run) = Inr (ow_declaration run, ow_request run, transport_none, digest)"
    by (simp add: archive_request_def read parsed server phases read_model reading filter_evidence_def same)
  then show ?thesis by blast
qed

lemma analyzed_frontend_request:
  assumes "analyze_frontend_request lib frontend request transport = Inr report"
  obtains inner where "validate_frontend_report_request (limitation_id lib) (lib_injected lib) frontend request = Inr ()"
    "analyze_coverage_results (lib_json lib) request = Inr inner" "report = with_transport transport inner"
proof -
  obtain analysed where results: "analyze_frontend_results lib frontend request = Inr analysed"
    and "(case analysed of Inl error \<Rightarrow> Inl (Returned (InvalidArchive
         (display_protocol_error (lib_debug lib) (lib_debug_report_error lib) error)))
      | Inr inner \<Rightarrow> Inr (with_transport transport inner)) = Inr report"
    using assms unfolding analyze_frontend_request_def rbind_Inr_iff by blast
  then obtain inner where inner: "analysed = Inr inner" "report = with_transport transport inner"
    by (cases analysed) auto
  show thesis
  proof (cases "validate_frontend_report_request (limitation_id lib) (lib_injected lib) frontend request")
    case (Inr u)
    then have "analyze_coverage_results (lib_json lib) request = Inr inner"
      using results inner(1) by (auto simp: analyze_frontend_results_def split: sum.splits stop.splits)
    then show thesis using Inr inner(2) that by simp
  qed (use results inner(1) in \<open>simp add: analyze_frontend_results_def\<close>)
qed

lemma published_run_analysed:
  assumes "header_codec (lib_header_to_vec lib) (lib_header_from lib)" and "gzip_codec gzip (lib_gunzip lib)"
    and "sink put id" and json: "reads_what_is_written lib w run"
    and entries: "archive_entries w run = Inr entries" and "within_limits (lib_header_to_vec lib) entries"
    and few: "length (rq_raw_results (ow_request run)) \<le> 10 ^ 8"
    and language: "fd_language (ow_declaration run) = md_language (model_of (ow_request run))"
    and "write_archive fails put gzip (lib_header_to_vec lib) pid fuel entries d world = Some (Inr m, world')"
    and opened: "lib_open lib path = ok_or (aw_files world' (dest_path d)) missing"
    and analysed: "analyze_frontend_request lib (ow_declaration run) (ow_request run) transport_none = Inr report"
  shows "analyze_coverage_archive lib (reading_of path run) = Inr report"
proof -
  obtain bytes cs where published: "aw_files world' (dest_path d) = Some bytes" "canonicalize_entries entries = Inr cs"
    "accepted (lib_gunzip lib) (lib_header_to_vec lib) (lib_header_from lib) bytes cs"
    using published_accepted[OF assms(1-3,6,9)] by blast
  have opens: "lib_open lib path = Inr bytes" using opened published(1) by (simp add: ok_or_def)
  obtain inner where valid: "validate_frontend_report_request (limitation_id lib) (lib_injected lib)
        (ow_declaration run) (ow_request run) = Inr ()"
    and inner: "analyze_coverage_results (lib_json lib) (ow_request run) = Inr inner"
      "report = with_transport transport_none inner"
    using analyzed_frontend_request[OF analysed] .
  obtain digest where "archive_request lib (reading_of path run)
      = Inr (ow_declaration run, ow_request run, transport_none, digest)"
    using published_request[OF entries json few opens published(2,3) language valid] by blast
  then show ?thesis using inner by (simp add: analyze_coverage_archive_def)
qed

text \<open>C1: Analysing the request a run has just archived is analysing its archive: when \<open>archive_entries\<close>
  of a run are written, whatever is then read back from that file, its batches, its server work
  joined, its executions separated, its phases released and its request validated, gives the very
  report \<open>analyze_frontend_request\<close> made of the request in memory. The results keep their order
  because eight digits order up to \<open>10\<^sup>8\<close> of them.\<close>

theorem archived_run_analysed_alike:
  assumes "header_codec (lib_header_to_vec lib) (lib_header_from lib)" and "gzip_codec gzip (lib_gunzip lib)"
    and "sink put id" and "reads_what_is_written lib w run"
    and "archive_entries w run = Inr entries" and "within_limits (lib_header_to_vec lib) entries"
    and "length (rq_raw_results (ow_request run)) \<le> 10 ^ 8"
    and "fd_language (ow_declaration run) = md_language (model_of (ow_request run))"
    and "write_archive fails put gzip (lib_header_to_vec lib) pid fuel entries d world = Some (Inr m, world')"
    and "lib_open lib path = ok_or (aw_files world' (dest_path d)) missing"
    and "analyze_frontend_request lib (ow_declaration run) (ow_request run) transport_none = Inr report"
  shows "analyze_coverage_archive lib (reading_of path run) = Inr report"
  using assms by (rule published_run_analysed)

end
