(* ===== verification/OwnedRun.thy ===== *)
theory OwnedRun
  imports OwnedTransport TestKind OwnedArchive
begin

section \<open>From a runtime's evidence to a report request (owned\_evidence.rs)\<close>

text \<open>
  The evidence of an owned frontend's run, of all its processes merged, becomes one record per test
  that ran and one for what no test could claim. \<open>sha256\<close> of \<open>sha2\<close> is a parameter, as is
  \<open>serde_json::Value\<close>; \<open>as u8\<close> and \<open>as u32\<close> keep the low bits.
\<close>

subsection \<open>One evaluation of a decision\<close>

definition PACKED_VALUE_SHIFT :: nat where "PACKED_VALUE_SHIFT = 24"

definition PACKED_OUTCOME_SHIFT :: nat where "PACKED_OUTCOME_SHIFT = 48"

text \<open>\<open>1_u64 << index\<close> of an index past 63 is \<open>1_u64 << (index % 64)\<close> in a release build. No decision
  that wide can be packed.\<close>

definition unpack_vector :: "u64 \<Rightarrow> u8 \<Rightarrow> mcdc_vector" where
  "unpack_vector key width =
     (let evaluated = and key (push_bit PACKED_VALUE_SHIFT 1 - 1);
          values = and (drop_bit PACKED_VALUE_SHIFT key) (push_bit PACKED_VALUE_SHIFT 1 - 1)
      in \<lparr>mv_values = map (\<lambda>index. let bit = push_bit (index mod 64) 1 in
            if and evaluated bit \<noteq> 0 then Some (and values bit \<noteq> 0) else None) [0..<unat width],
          mv_outcome = (and (drop_bit PACKED_OUTCOME_SHIFT key) 1 = 1)\<rparr>)"

subsection \<open>What the owned frontends declare\<close>

definition exact_per_test :: frontend_attribution where
  "exact_per_test = \<lparr>fa_run = Exact, fa_worker = Exact, fa_test = Exact, fa_retry = Exact, fa_phase = Aggregate,
     fa_action = Unavailable, fa_assertion = Unavailable\<rparr>"

definition owned_attribution_limitations :: "string \<Rightarrow> frontend_limitation list" where
  "owned_attribution_limitations language =
     [\<lparr>fl_id = language @ ''-phase-linkage-aggregate'', fl_scopes = [PhaseScope],
        fl_reason = ''probes record what a test reached, not which of its setup, body or teardown phases reached it''\<rparr>,
      \<lparr>fl_id = language @ ''-action-linkage-unavailable'', fl_scopes = [ActionScope],
        fl_reason = ''there is no general application-action lifecycle to link coverage to''\<rparr>,
      \<lparr>fl_id = language @ ''-assertion-linkage-unavailable'', fl_scopes = [AssertionScope],
        fl_reason = ''coverage is attributed to the test that reached the code, not to the assertion that checked it''\<rparr>]"

definition go_declaration :: frontend_declaration where
  "go_declaration = \<lparr>fd_protocol_version = LANGUAGE_FRONTEND_PROTOCOL_VERSION, fd_frontend_id = ''supercov-go'',
     fd_frontend_version = ''go-owned-v1'', fd_language = ''go'', fd_structural_source = OwnedProbes,
     fd_runners = [\<lparr>fr_runner = ''go-test'', fr_execution_model = SerialInProcess, fr_attribution = exact_per_test,
       fr_limitations = owned_attribution_limitations ''go'' @ [\<lparr>fl_id = ''go-parallel-tests'', fl_scopes = [TestScope],
         fl_reason = ''a test that calls t.Parallel() runs alongside others, so work it does after that call is recorded run-wide rather than against that test''\<rparr>]\<rparr>],
     fd_structural_limitations = []\<rparr>"

definition go_coverage_model :: coverage_model_declaration where
  "go_coverage_model = \<lparr>md_language = ''go'', md_variant = ''go-owned-probes-v1'', md_name = ''supercov-go-owned-v1'',
     md_completeness_meaning = ''Every obligation Supercov derived from the module's own Go sources was observed; explicit manifest limitations identify unmeasured Go surfaces.'',
     md_measured = [''owned Go statements and function entries'',
       ''owned atomic condition vectors and decision outcomes'',
       ''exact per-test attribution for tests that do not call t.Parallel()''],
     md_not_measured = [''generated code, vendored packages and testdata'',
       ''work a test does after calling t.Parallel(), which counts run-wide'',
       ''causal linkage to individual actions'',
       ''all input values, semantic partitions, paths, or concurrency interleavings'',
       ''mutation score or assertion fault-detection strength'']\<rparr>"

definition jvm_runner :: "string \<Rightarrow> string \<Rightarrow> frontend_runner" where
  "jvm_runner name concurrency =
     \<lparr>fr_runner = name, fr_execution_model = SerialInProcess, fr_attribution = exact_per_test,
       fr_limitations = owned_attribution_limitations name @ [\<lparr>fl_id = name @ ''-parallel-execution'',
         fl_scopes = [TestScope],
         fl_reason = ''with '' @ concurrency @ '', tests overlap in one process; work they do concurrently is recorded run-wide rather than against a single test, and condition coverage is dropped because concurrent evaluations corrupt it''\<rparr>]\<rparr>"

definition jvm_declaration :: frontend_declaration where
  "jvm_declaration = \<lparr>fd_protocol_version = LANGUAGE_FRONTEND_PROTOCOL_VERSION, fd_frontend_id = ''supercov-jvm'',
     fd_frontend_version = ''jvm-owned-v1'', fd_language = ''jvm'', fd_structural_source = OwnedProbes,
     fd_runners = [jvm_runner ''junit-platform'' ''JUnit parallel execution enabled'',
       jvm_runner ''ant-junit'' ''Ant's <junit> running test classes in threads'',
       jvm_runner ''testng'' ''TestNG's parallel suites or methods''],
     fd_structural_limitations = []\<rparr>"

definition jvm_coverage_model :: coverage_model_declaration where
  "jvm_coverage_model = \<lparr>md_language = ''jvm'', md_variant = ''jvm-owned-probes-v1'', md_name = ''supercov-jvm-owned-v1'',
     md_completeness_meaning = ''Every obligation Supercov derived from the project's own Java and Kotlin sources was observed; explicit manifest limitations identify unmeasured JVM surfaces.'',
     md_measured = [''owned Java and Kotlin statements and method entries'',
       ''owned atomic condition vectors and decision outcomes'',
       ''exact per-test attribution through the JUnit Platform's own lifecycle''],
     md_not_measured = [''generated sources, and bytecode with no source in the project'',
       ''tests run concurrently, which count run-wide and drop condition coverage'',
       ''causal linkage to individual actions'',
       ''all input values, semantic partitions, paths, or concurrency interleavings'',
       ''mutation score or assertion fault-detection strength'']\<rparr>"

subsection \<open>Merging processes\<close>

definition no_evidence :: owned_evidence where
  "no_evidence = \<lparr>oe_global = [], oe_tests = [], oe_widths = [], oe_decision_vectors = []\<rparr>"

text \<open>\<open>resize\<close> to at least \<open>n\<close>.\<close>

definition grow :: "nat \<Rightarrow> 'a \<Rightarrow> 'a list \<Rightarrow> 'a list" where
  "grow n x xs = xs @ replicate (n - length xs) x"

text \<open>\<open>for (slot, value) in xs.iter_mut().zip(ys)\<close>: the rest of \<open>xs\<close> stays.\<close>

fun update_zip :: "('a \<Rightarrow> 'b \<Rightarrow> 'a) \<Rightarrow> 'a list \<Rightarrow> 'b list \<Rightarrow> 'a list" where
  "update_zip f (x # xs) (y # ys) = f x y # update_zip f xs ys"
| "update_zip f xs _ = xs"

definition add_keys :: "u64 list \<Rightarrow> u64 list \<Rightarrow> u64 list" where
  "add_keys known keys = fold (\<lambda>key known. if key \<in> set known then known else known @ [key]) keys known"

text \<open>\<open>decision_vectors[id]\<close> panics when a part has more vector lists than the tables have room for: they
  grow by the widths alone. \<open>widths[id]\<close> never does, the widths having grown to the part's.\<close>

datatype merge_panic = VectorsOutOfRange

definition merge_part :: "owned_evidence \<Rightarrow> owned_evidence \<Rightarrow> merge_panic + owned_evidence" where
  "merge_part part merged =
     (let global = grow (length (oe_global part)) 0 (oe_global merged);
          wider = length (oe_widths merged) < length (oe_widths part);
          widths = grow (length (oe_widths part)) 0 (oe_widths merged);
          vectors = (if wider then grow (length (oe_widths part)) [] (oe_decision_vectors merged)
            else oe_decision_vectors merged)
      in if length vectors < length (oe_decision_vectors part) then Inl VectorsOutOfRange
         else Inr \<lparr>oe_global = update_zip or global (oe_global part), oe_tests = oe_tests merged @ oe_tests part,
          oe_widths = update_zip max widths (oe_widths part),
          oe_decision_vectors = update_zip add_keys vectors (oe_decision_vectors part)\<rparr>)"

definition merge_evidence :: "owned_evidence list \<Rightarrow> merge_panic + owned_evidence" where
  "merge_evidence parts = try_fold merge_part parts no_evidence"

subsection \<open>One record per test\<close>

datatype go_probe_target = StatementProbe string | FunctionProbe string | AlternativeProbe string string

record go_probe =
  gp_id :: u64
  gp_target :: go_probe_target
  gp_at :: nat

record owned_test_outcome =
  oo_name :: string
  oo_package :: string
  oo_file :: "string option"
  oo_status :: string
  oo_runner :: string
  oo_attributed :: bool

definition test_phase :: "string \<Rightarrow> string" where
  "test_phase test_id = test_id @ ''#call''"

fun obligation_of :: "go_probe_target \<Rightarrow> string" where
  "obligation_of (StatementProbe i) = i"
| "obligation_of (FunctionProbe i) = i"
| "obligation_of (AlternativeProbe _ alternative) = alternative"

definition obligations :: "(u64 \<times> go_probe) list \<Rightarrow> (u32 \<times> string) list" where
  "obligations probes = fold (\<lambda>(i, probe). tree_insert (ucast i) (obligation_of (gp_target probe))) probes []"

definition hex_digit :: "nat \<Rightarrow> char" where
  "hex_digit n = ''0123456789abcdef'' ! n"

text \<open>\<open>stable_ids\<close>: the first twelve bytes of a SHA-256, in hex.\<close>

definition stable_digest :: "(string \<Rightarrow> string) \<Rightarrow> string list \<Rightarrow> string" where
  "stable_digest sha256 parts =
     concat (map (\<lambda>byte. [hex_digit (code byte div 16), hex_digit (code byte mod 16)])
       (take 12 (sha256 (concat (map (\<lambda>part. part @ [CHR 0x00]) parts)))))"

definition stable_id :: "(string \<Rightarrow> string) \<Rightarrow> string \<Rightarrow> string list \<Rightarrow> string" where
  "stable_id sha256 prefix values = prefix @ '':'' @ stable_digest sha256 values"

definition hit_event :: "string \<Rightarrow> string \<Rightarrow> nat \<times> string \<Rightarrow> runtime_event" where
  "hit_event environment phase = (\<lambda>(clock, i).
     \<lparr>re_event_type = ''hit'', re_id = i, re_vector = None, re_timestamp_ms = int clock, re_phase_id = Some phase,
       re_environment = environment\<rparr>)"

definition decision_event :: "string \<Rightarrow> string \<Rightarrow> string \<Rightarrow> nat \<times> mcdc_vector \<Rightarrow> runtime_event" where
  "decision_event environment phase i = (\<lambda>(clock, vector).
     \<lparr>re_event_type = ''decision'', re_id = i, re_vector = Some vector, re_timestamp_ms = int clock,
       re_phase_id = Some phase, re_environment = environment\<rparr>)"

text \<open>One measured decision of a snapshot, after the events so far; the clock is how many there are.\<close>

definition snapshot_decision ::
  "string \<Rightarrow> string \<Rightarrow> (u32 \<times> u64 list) list \<Rightarrow> nat \<times> decision_meta
     \<Rightarrow> runtime_event list \<times> decision_snapshot list \<times> nat \<Rightarrow> runtime_event list \<times> decision_snapshot list \<times> nat" where
  "snapshot_decision environment phase by_decision = (\<lambda>(index, meta) (events, decisions, clock).
     case map_of by_decision (of_nat index) of
       None \<Rightarrow> (events, decisions, clock)
     | Some keys \<Rightarrow>
         let width = of_nat (length (dm_conditions meta));
             observed = map (\<lambda>key. unpack_vector key width) keys
         in (events @ map (decision_event environment phase (dm_id meta)) (enumerate clock observed),
             decisions @ [\<lparr>ds_id = dm_id meta, ds_vectors = observed\<rparr>], clock + length observed))"

definition owned_snapshot ::
  "string \<Rightarrow> owned_test_evidence \<Rightarrow> 'v coverage_manifest \<Rightarrow> (u32 \<times> string) list \<Rightarrow> string \<Rightarrow> runtime_snapshot" where
  "owned_snapshot environment evidence manifest by_probe phase =
     (let hits = sorted_list_of_set (set (List.map_filter (\<lambda>(probe, _). map_of by_probe probe) (ot_probes evidence)));
          events = map (hit_event environment phase) (enumerate 0 hits);
          by_decision = fold (\<lambda>vector. tree_entry (pv_decision vector) [] (\<lambda>keys. keys @ [pv_key vector]))
            (ot_vectors evidence) [];
          (events, decisions, _) = fold (snapshot_decision environment phase by_decision)
            (enumerate 0 (cm_decisions manifest)) (events, [], length hits)
      in \<lparr>rs_decisions = decisions, rs_hits = hits, rs_events = events, rs_logicals = [], rs_phase_id = None\<rparr>)"

record 'v owned_run_inputs =
  oi_declaration :: frontend_declaration
  oi_environment :: string
  oi_manifest :: "'v coverage_manifest"
  oi_probes :: "(u64 \<times> go_probe) list"
  oi_evidence :: owned_evidence
  oi_outcomes :: "owned_test_outcome list"
  oi_run_id :: string
  oi_generated_at :: string
  oi_test_exit_code :: int
  oi_coverage_model :: coverage_model_declaration

definition empty_test :: owned_test_evidence where
  "empty_test = \<lparr>ot_name = [], ot_status = [], ot_runner = [], ot_tags = [], ot_unattributed = False, ot_probes = [],
     ot_vectors = []\<rparr>"

definition outcome_test_id :: "owned_test_outcome \<Rightarrow> string" where
  "outcome_test_id outcome = oo_package outcome @ ''::'' @ oo_name outcome"

text \<open>\<open>recorded\<close>: the last record of each name.\<close>

definition recorded_tests :: "owned_evidence \<Rightarrow> (string \<times> owned_test_evidence) list" where
  "recorded_tests evidence = fold (\<lambda>test. tree_insert (ot_name test) test) (oe_tests evidence) []"

definition outcome_evidence :: "owned_evidence \<Rightarrow> owned_test_outcome \<Rightarrow> owned_test_evidence" where
  "outcome_evidence evidence outcome =
     (let test = (case map_of (recorded_tests evidence) (oo_name outcome) of Some test \<Rightarrow> test | None \<Rightarrow> empty_test)
      in if oo_attributed outcome then test else empty_test)"

definition outcome_runner :: "frontend_runner list \<Rightarrow> string \<Rightarrow> owned_test_outcome \<Rightarrow> string" where
  "outcome_runner runners default_runner outcome =
     (if oo_runner outcome \<in> fr_runner ` set runners then oo_runner outcome else default_runner)"

definition outcome_result ::
  "(string \<Rightarrow> string) \<Rightarrow> 'v owned_run_inputs \<Rightarrow> string \<Rightarrow> owned_test_outcome \<Rightarrow> raw_test_result" where
  "outcome_result sha256 inputs default_runner outcome =
     (let test = outcome_evidence (oi_evidence inputs) outcome;
          test_id = outcome_test_id outcome;
          phase = test_phase test_id;
          runner = outcome_runner (fd_runners (oi_declaration inputs)) default_runner outcome
      in \<lparr>rt_test_id = Some test_id,
          rt_scope = Some \<lparr>es_version = 1, es_run_id = oi_run_id inputs, es_worker_id = oo_package outcome,
            es_test_id = test_id, es_test_key = stable_id sha256 ''owned-test'' [oo_package outcome, oo_name outcome],
            es_retry = 0, es_attempt_id = stable_id sha256 ''owned-attempt''
              [oi_run_id inputs, oo_package outcome, oo_name outcome, ''0'']\<rparr>,
          rt_test = oo_name outcome, rt_test_file = oo_file outcome, rt_title = None, rt_retry = Some 0,
          rt_status = Some (oo_status outcome), rt_expected_status = None, rt_flaky = False,
          rt_provenance = \<lparr>tp_runner = runner,
            tp_kind = (case from_tags (ot_tags test) of Some kind \<Rightarrow> kind | None \<Rightarrow> ''unit''),
            tp_project = Some (oo_package outcome), tp_source = fd_frontend_version (oi_declaration inputs),
            tp_tags = ot_tags test\<rparr>,
          rt_role = ''test'',
          rt_attribution = (if oo_attributed outcome then ATTRIBUTION_EXACT else ATTRIBUTION_RUN_WIDE),
          rt_phases = [\<lparr>cp_id = phase, cp_kind = ''test'', cp_operation = runner @ '' '' @ oo_name outcome,
            cp_source = oo_file outcome, cp_caused_by_phase_id = None, cp_started_at_ms = 0, cp_ended_at_ms = None,
            cp_status = Some (oo_status outcome), cp_error = None\<rparr>],
          rt_runtime = [owned_snapshot (oi_environment inputs) test (oi_manifest inputs) (obligations (oi_probes inputs)) phase],
          rt_browser = [], rt_server = [], rt_span = None\<rparr>)"

subsection \<open>What no test claimed\<close>

definition claimed_probes :: "owned_evidence \<Rightarrow> u32 set" where
  "claimed_probes evidence =
     set (concat (map (\<lambda>test. map fst (ot_probes test)) (filter (\<lambda>test. \<not> ot_unattributed test) (oe_tests evidence))))"

definition unclaimed_probes :: "owned_evidence \<Rightarrow> (u32 \<times> u32) list" where
  "unclaimed_probes evidence =
     fold (\<lambda>(index, observed). tree_insert (of_nat index) observed)
       (filter (\<lambda>(index, observed). observed \<noteq> 0 \<and> of_nat index \<notin> claimed_probes evidence) (enumerate 0 (oe_global evidence))) []"

definition background_test_id :: "'v owned_run_inputs \<Rightarrow> string" where
  "background_test_id inputs = fd_language (oi_declaration inputs) @ ''::background''"

definition owned_background_result ::
  "(string \<Rightarrow> string) \<Rightarrow> 'v owned_run_inputs \<Rightarrow> string \<Rightarrow> (u32 \<times> u32) list \<Rightarrow> raw_test_result" where
  "owned_background_result sha256 inputs default_runner unclaimed =
     (let status = (if oi_test_exit_code inputs = 0 then ''passed'' else ''failed'');
          test_id = background_test_id inputs;
          phase = test_phase test_id;
          background = \<lparr>ot_name = ''background'', ot_status = ''unknown'', ot_runner = [], ot_tags = [],
            ot_unattributed = False, ot_probes = unclaimed, ot_vectors = []\<rparr>
      in \<lparr>rt_test_id = Some test_id,
          rt_scope = Some \<lparr>es_version = 1, es_run_id = oi_run_id inputs, es_worker_id = ''background'',
            es_test_id = test_id, es_test_key = stable_id sha256 ''owned-background'' [oi_run_id inputs], es_retry = 0,
            es_attempt_id = stable_id sha256 ''owned-background-attempt'' [oi_run_id inputs]\<rparr>,
          rt_test = ''execution no test could be credited with'', rt_test_file = None, rt_title = None,
          rt_retry = Some 0, rt_status = Some status, rt_expected_status = None, rt_flaky = False,
          rt_provenance = \<lparr>tp_runner = default_runner, tp_kind = ''background'', tp_project = None,
            tp_source = fd_frontend_version (oi_declaration inputs), tp_tags = []\<rparr>,
          rt_role = ''background'', rt_attribution = ATTRIBUTION_EXACT,
          rt_phases = [\<lparr>cp_id = phase, cp_kind = ''background'', cp_operation = ''execution outside any test'',
            cp_source = None, cp_caused_by_phase_id = None, cp_started_at_ms = 0, cp_ended_at_ms = Some 0,
            cp_status = Some status, cp_error = None\<rparr>],
          rt_runtime = [owned_snapshot (oi_environment inputs) background (oi_manifest inputs)
            (obligations (oi_probes inputs)) phase],
          rt_browser = [], rt_server = [], rt_span = None\<rparr>)"

subsection \<open>The run\<close>

text \<open>The first of the declared runners, and each limitation's id: expectations of the code.\<close>

definition build_frontend_run ::
  "'v json \<Rightarrow> (string \<Rightarrow> string) \<Rightarrow> 'v owned_run_inputs \<Rightarrow> stop + 'v owned_run" where
  "build_frontend_run j sha256 inputs =
     (let declaration = oi_declaration inputs; evidence = oi_evidence inputs in
      rbind (expect (case fd_runners declaration of [] \<Rightarrow> None | runner # _ \<Rightarrow> Some (fr_runner runner))) (\<lambda>default_runner.
      let raw_results = map (outcome_result sha256 inputs default_runner) (oi_outcomes inputs);
          unclaimed = unclaimed_probes evidence;
          raw_results = (if unclaimed = [] then raw_results
            else raw_results @ [owned_background_result sha256 inputs default_runner unclaimed]);
          observed = (\<lambda>raw. tp_runner (rt_provenance raw)) ` set raw_results
      in rbind (try_map (\<lambda>limitation. expect (js_str j limitation ''id'')) (cm_limitations (oi_manifest inputs))) (\<lambda>ids.
      Inr \<lparr>ow_declaration = declaration\<lparr>fd_structural_limitations := sorted_list_of_set (set ids),
             fd_runners := filter (\<lambda>runner. fr_runner runner \<in> observed) (fd_runners declaration)\<rparr>,
           ow_request = \<lparr>rq_run_id = oi_run_id inputs, rq_manifest = oi_manifest inputs, rq_raw_results = raw_results,
             rq_generated_at = oi_generated_at inputs, rq_coverage_model = Some (oi_coverage_model inputs),
             rq_integrity = None, rq_test_exit_code = Present (Some (oi_test_exit_code inputs))\<rparr>,
           ow_tests = length raw_results\<rparr>)))"

end
