(* ===== verification/OwnedContracts.thy ===== *)
theory OwnedContracts
  imports OwnedRun
begin

section \<open>What the owned frontends declare is valid\<close>

text \<open>
  The declarations and the coverage models the Go and JVM frontends carry pass the validation a reader
  holds them to, so \<open>archive_entries\<close> never meets the panic its \<open>expect\<close> would be.
\<close>

subsection \<open>Plain ASCII text\<close>

text \<open>A character from space to tilde, told from its bits.\<close>

fun printable :: "char \<Rightarrow> bool" where
  "printable (Char b0 b1 b2 b3 b4 b5 b6 b7) \<longleftrightarrow>
     \<not> b7 \<and> (b5 \<or> b6) \<and> \<not> (b0 \<and> b1 \<and> b2 \<and> b3 \<and> b4 \<and> b5 \<and> b6)"

lemma printable_code: "printable c \<Longrightarrow> 32 \<le> code c \<and> code c < 127"
  by (cases c) (auto simp: code_def of_char_def split: if_splits)

definition plain_text :: "string \<Rightarrow> bool" where
  "plain_text s \<longleftrightarrow> s \<noteq> [] \<and> list_all printable s \<and> hd s \<noteq> CHR '' '' \<and> last s \<noteq> CHR '' ''"

lemma printable_no_control: "list_all printable s \<Longrightarrow> \<not> has_control s"
proof (induction s)
  case (Cons c s)
  then have "32 \<le> code c" "code c < 127" using printable_code[of c] by auto
  then show ?case using Cons by simp
qed simp

lemma white_space_last:
  "list_all (\<lambda>p. case rev p of [] \<Rightarrow> True | c # _ \<Rightarrow> code c \<le> 13 \<or> code c = 32 \<or> 128 \<le> code c) white_space"
  by (simp add: white_space_def bytes_text_def code_def)

lemma not_space: "c \<noteq> CHR '' '' \<Longrightarrow> code c \<noteq> 32"
proof
  assume "c \<noteq> CHR '' ''" "code c = 32"
  moreover have "code (CHR '' '') = 32" by (simp add: code_def)
  ultimately show False by (metis char_of_code)
qed

lemma trim_plain:
  assumes "plain_text s"
  shows "trim s = s"
proof -
  obtain c t where s: "s = c # t" using assms by (cases s) (auto simp: plain_text_def)
  have c: "32 \<le> code c" "code c < 127" "code c \<noteq> 32"
    using assms printable_code[of c] not_space[of c] unfolding s plain_text_def by auto
  then have start: "trim_start s = s" unfolding s by (intro trim_start_stays) auto
  obtain d u where r: "rev s = d # u" using s by (cases "rev s") auto
  then have sd: "s = rev u @ [d]" by (metis rev.simps(2) rev_rev_ident)
  have d: "32 \<le> code d" "code d < 127" "code d \<noteq> 32"
    using assms printable_code[of d] not_space[of d] unfolding plain_text_def sd by auto
  have "q = [] \<or> \<not> starts_with (rev q) (d # u)" if mem: "q \<in> set white_space" for q
  proof (cases "rev q")
    case (Cons e p)
    then have "code e \<le> 13 \<or> code e = 32 \<or> 128 \<le> code e" using white_space_last mem by (fastforce simp: list_all_iff)
    then have "e \<noteq> d" using d by auto
    then show ?thesis using Cons by (simp add: starts_with_iff)
  qed simp
  then have "strip_any (map rev white_space) (rev s) = None" unfolding r by (auto simp: strip_any_None)
  then show ?thesis by (simp add: trim_def start trim_end_def trim_with.simps)
qed

lemma plain_description: "plain_text s \<Longrightarrow> length s \<le> 4096 \<Longrightarrow> valid_description s"
  using trim_plain printable_no_control
  by (auto simp: valid_description_def plain_text_def COVERAGE_MODEL_MAX_DESCRIPTION_BYTES_def)

subsection \<open>The coverage models\<close>

lemma go_texts:
  "list_all (\<lambda>s. plain_text s \<and> length s \<le> 4096) (md_name go_coverage_model # md_completeness_meaning go_coverage_model
     # md_measured go_coverage_model @ md_not_measured go_coverage_model)"
  by (simp add: go_coverage_model_def plain_text_def)

lemma jvm_texts:
  "list_all (\<lambda>s. plain_text s \<and> length s \<le> 4096) (md_name jvm_coverage_model # md_completeness_meaning jvm_coverage_model
     # md_measured jvm_coverage_model @ md_not_measured jvm_coverage_model)"
  by (simp add: jvm_coverage_model_def plain_text_def)

text \<open>A model whose texts are plain and whose surfaces are apart is stored and read back as it is.\<close>

lemma stored_model:
  assumes "valid_identifier (md_language m)" "valid_identifier (md_variant m)"
    and "list_all (\<lambda>s. plain_text s \<and> length s \<le> 4096)
      (md_name m # md_completeness_meaning m # md_measured m @ md_not_measured m)"
    and "md_measured m \<noteq> []" "length (md_measured m) \<le> 256" "length (md_not_measured m) \<le> 256"
    and "distinct (md_measured m @ md_not_measured m)"
  shows "into_declaration (persist m) = Inr m"
  using assms plain_description
  by (auto simp: into_declaration_def persist_def list_all_iff list_ex_iff COVERAGE_MODEL_MAX_SURFACES_PER_LIST_def
      distinct_card)

subsection \<open>The declarations\<close>

text \<open>Lowercase letters, and the characters of a token, told from their bits.\<close>

fun lower_bits :: "char \<Rightarrow> bool" where
  "lower_bits (Char b0 b1 b2 b3 b4 b5 b6 b7) \<longleftrightarrow>
     \<not> b7 \<and> b6 \<and> b5 \<and> (b0 \<or> b1 \<or> b2 \<or> b3 \<or> b4) \<and> \<not> (b4 \<and> b3 \<and> (b2 \<or> (b1 \<and> b0)))"

fun token_bits :: "char \<Rightarrow> bool" where
  "token_bits (Char b0 b1 b2 b3 b4 b5 b6 b7) \<longleftrightarrow>
     lower_bits (Char b0 b1 b2 b3 b4 b5 b6 b7)
     \<or> (\<not> b7 \<and> \<not> b6 \<and> b5 \<and> b4 \<and> \<not> (b3 \<and> (b2 \<or> b1)))
     \<or> Char b0 b1 b2 b3 b4 b5 b6 b7 = CHR ''-''"

lemma lower_bits_lowercase: "lower_bits c \<Longrightarrow> is_ascii_lowercase c"
  by (cases c) (auto simp: is_ascii_lowercase_def code_def of_char_def)

lemma token_bits_token: "token_bits c \<Longrightarrow> is_ascii_lowercase c \<or> is_ascii_digit c \<or> c = CHR ''-''"
proof (cases c)
  case (Char b0 b1 b2 b3 b4 b5 b6 b7)
  assume "token_bits c"
  then consider "lower_bits c" | "\<not> b7 \<and> \<not> b6 \<and> b5 \<and> b4 \<and> \<not> (b3 \<and> (b2 \<or> b1))" | "c = CHR ''-''"
    unfolding Char token_bits.simps by blast
  then show ?thesis
  proof cases
    case 2
    then have "is_ascii_digit c" unfolding Char by (auto simp: is_ascii_digit_def code_def of_char_def)
    then show ?thesis by simp
  qed (use lower_bits_lowercase in auto)
qed

definition plain_token :: "string \<Rightarrow> bool" where
  "plain_token s \<longleftrightarrow> s \<noteq> [] \<and> length s \<le> 64 \<and> lower_bits (hd s) \<and> list_all token_bits s"

lemma plain_token_valid: "plain_token s \<Longrightarrow> valid_frontend_token s \<and> valid_frontend_runner_token s \<and> valid_identifier s"
  using lower_bits_lowercase token_bits_token
  by (cases s) (fastforce simp: plain_token_def valid_frontend_token_def valid_frontend_runner_token_def
      valid_identifier_def COVERAGE_MODEL_MAX_IDENTIFIER_BYTES_def list_all_iff)+

lemma owned_tokens: "list_all plain_token [''go'', ''go-owned-probes-v1'', ''jvm'', ''jvm-owned-probes-v1'',
    ''supercov-go'', ''go-owned-v1'', ''supercov-jvm'', ''jvm-owned-v1'']"
  by (simp add: plain_token_def)

lemma owned_models: "into_declaration (persist go_coverage_model) = Inr go_coverage_model"
  "into_declaration (persist jvm_coverage_model) = Inr jvm_coverage_model"
proof -
  show "into_declaration (persist go_coverage_model) = Inr go_coverage_model"
    by (rule stored_model[OF _ _ go_texts]) (use owned_tokens plain_token_valid in \<open>simp_all add: go_coverage_model_def\<close>)
  show "into_declaration (persist jvm_coverage_model) = Inr jvm_coverage_model"
    by (rule stored_model[OF _ _ jvm_texts]) (use owned_tokens plain_token_valid in \<open>simp_all add: jvm_coverage_model_def\<close>)
qed

lemma plain_limitation:
  "plain_token (fl_id l) \<Longrightarrow> fl_scopes l \<noteq> [] \<Longrightarrow> distinct (fl_scopes l) \<Longrightarrow> plain_text (fl_reason l) \<Longrightarrow>
     limitation_ok l"
proof -
  assume a: "plain_token (fl_id l)" "fl_scopes l \<noteq> []" "distinct (fl_scopes l)" "plain_text (fl_reason l)"
  have "c \<notin> set (fl_reason l)" if "code c < 32" for c
    using a(4) printable_code[of c] that unfolding plain_text_def by (auto simp: list_all_iff)
  then have "CHR 0x0A \<notin> set (fl_reason l)" "CHR 0x0D \<notin> set (fl_reason l)" "CHR 0x00 \<notin> set (fl_reason l)"
    by (simp_all add: code_def)
  then show ?thesis using a trim_plain[OF a(4)] plain_token_valid by (auto simp: limitation_ok_def plain_text_def)
qed

lemma exact_per_test_claims:
  assumes "limited_scopes (fr_limitations r) \<supseteq> {PhaseScope, ActionScope, AssertionScope}"
    "fr_attribution r = exact_per_test" "fr_execution_model r = SerialInProcess"
  shows "claims_ok r"
proof -
  have "scope \<in> exact_axes exact_per_test \<longleftrightarrow> scope \<in> {WorkerScope, TestScope, RetryScope}" for scope
    by (cases scope) (simp_all add: exact_axes_def exact_per_test_def)
  then have exact: "exact_axes exact_per_test = {WorkerScope, TestScope, RetryScope}" by blast
  have "scope \<in> {WorkerScope, TestScope, RetryScope} \<union> limited_scopes (fr_limitations r)" for scope
    using assms(1) by (cases scope) auto
  then have "{WorkerScope, TestScope, RetryScope} \<union> limited_scopes (fr_limitations r) = UNIV" by blast
  moreover have "fa_run exact_per_test = Exact" by (simp add: exact_per_test_def)
  ultimately show ?thesis using assms(2,3) by (simp add: claims_ok_def Let_def exact)
qed

definition plain_runner :: "frontend_runner \<Rightarrow> bool" where
  "plain_runner r \<longleftrightarrow> plain_token (fr_runner r) \<and> fr_attribution r = exact_per_test
     \<and> fr_execution_model r = SerialInProcess
     \<and> list_all (\<lambda>l. plain_token (fl_id l) \<and> fl_scopes l \<noteq> [] \<and> distinct (fl_scopes l) \<and> plain_text (fl_reason l))
         (fr_limitations r)
     \<and> list_all (\<lambda>scope. list_ex (\<lambda>l. scope \<in> set (fl_scopes l)) (fr_limitations r)) [PhaseScope, ActionScope, AssertionScope]"

lemma plain_runner_ok: "plain_runner r \<Longrightarrow> runner_ok r"
proof -
  assume r: "plain_runner r"
  have "limitation_ok l" if mem: "l \<in> set (fr_limitations r)" for l
    using r mem by (intro plain_limitation) (auto simp: plain_runner_def list_all_iff)
  moreover have "{PhaseScope, ActionScope, AssertionScope} \<subseteq> limited_scopes (fr_limitations r)"
    using r by (auto simp: plain_runner_def limited_scopes_def list_ex_iff)
  ultimately show ?thesis
    using r exact_per_test_claims[of r] plain_token_valid by (auto simp: runner_ok_def plain_runner_def list_all_iff)
qed

lemma go_plain: "list_all plain_runner (fd_runners go_declaration)"
  by (simp add: go_declaration_def plain_runner_def owned_attribution_limitations_def plain_text_def plain_token_def)

lemma plain_token_append: "plain_token s \<Longrightarrow> list_all token_bits t \<Longrightarrow> length s + length t \<le> 64 \<Longrightarrow> plain_token (s @ t)"
  by (simp add: plain_token_def)

lemma jvm_runner_plain:
  assumes "plain_token name" "length name \<le> 30" "list_all printable concurrency"
  shows "plain_runner (jvm_runner name concurrency)"
  using assms
  by (simp add: jvm_runner_def plain_runner_def owned_attribution_limitations_def plain_token_append plain_text_def)

lemma jvm_plain: "list_all plain_runner (fd_runners jvm_declaration)"
  by (simp add: jvm_declaration_def jvm_runner_plain plain_token_def)

lemma owned_declarations: "declaration_ok go_declaration" "declaration_ok jvm_declaration"
proof -
  have "list_all runner_ok (fd_runners go_declaration)" "list_all runner_ok (fd_runners jvm_declaration)"
    using go_plain jvm_plain plain_runner_ok by (auto simp: list_all_iff)
  then show "declaration_ok go_declaration" "declaration_ok jvm_declaration"
    using owned_tokens plain_token_valid unfolding declaration_ok_def
    by (simp_all add: go_declaration_def jvm_declaration_def jvm_runner_def LANGUAGE_FRONTEND_PROTOCOL_VERSION_def
        limitation_ids_def owned_attribution_limitations_def)
qed

text \<open>What the Go and JVM frontends declare is valid: their declarations pass the frontend validator,
  and their coverage models are stored and read back as they are, so archiving their runs never
  meets the panic of an invalid model.\<close>

theorem owned_contracts_valid:
  "validate_frontend_run_declaration go_declaration = Inr ()
   \<and> validate_frontend_run_declaration jvm_declaration = Inr ()
   \<and> into_declaration (persist go_coverage_model) = Inr go_coverage_model
   \<and> into_declaration (persist jvm_coverage_model) = Inr jvm_coverage_model"
  using owned_models owned_declarations by (simp add: run_declaration_iff)

end
