(* ===== verification/OwnedValid.thy ===== *)
theory OwnedValid
  imports OwnedContracts
begin

section \<open>What is built of a run's evidence passes validation\<close>

text \<open>
  Every record \<open>build_frontend_run\<close> makes carries the identities its declaration claims, and the
  declaration it returns names the runners observed and the manifest's limitations, so the validation
  the Go and JVM runs make before they publish, and every reader after, accepts the request.
\<close>

subsection \<open>Texts that are present\<close>

lemma white_space_invisible: "p \<in> set white_space \<Longrightarrow> c \<in> set p \<Longrightarrow> code c \<le> 13 \<or> code c = 32 \<or> 128 \<le> code c"
proof -
  have "list_all (list_all (\<lambda>c. code c \<le> 13 \<or> code c = 32 \<or> 128 \<le> code c)) white_space"
    by (simp add: white_space_def bytes_text_def code_def)
  then show "p \<in> set white_space \<Longrightarrow> c \<in> set p \<Longrightarrow> code c \<le> 13 \<or> code c = 32 \<or> 128 \<le> code c"
    unfolding list_all_iff by blast
qed

lemma trim_with_keeps:
  assumes "c \<in> set s" "\<And>p. p \<in> set ps \<Longrightarrow> c \<notin> set p"
  shows "c \<in> set (trim_with ps s)"
  using assms
proof (induction ps s rule: trim_with.induct)
  case (1 ps s)
  show ?case
  proof (cases "strip_any ps s")
    case (Some t)
    then obtain p where "p \<in> set ps" "s = p @ t" using strip_any_Some by blast
    then have "c \<in> set t" using 1(2,3) by auto
    then show ?thesis using 1(1)[OF Some] 1(3) Some by (subst trim_with.simps) simp
  qed (use 1 in \<open>subst trim_with.simps; simp\<close>)
qed

lemma visible_stays:
  assumes "c \<in> set s" "32 < code c" "code c < 128"
  shows "trim s \<noteq> []"
proof -
  have outside: "c \<notin> set p" if "p \<in> set white_space" for p
    using white_space_invisible[OF that, of c] assms(2,3) by auto
  have start: "c \<in> set (trim_start s)" unfolding trim_start_def
    using assms(1) outside by (intro trim_with_keeps)
  have "c \<in> set (trim_with (map rev white_space) (rev (trim_start s)))"
    using start outside by (intro trim_with_keeps) auto
  then show ?thesis by (auto simp: trim_def trim_end_def)
qed

lemma has_control_append:
  "code c < 128 \<Longrightarrow> has_control (s @ c # t) \<longleftrightarrow> has_control s \<or> has_control (c # t)"
proof (induction s)
  case (Cons d s)
  then show ?case by (cases s) auto
qed simp

lemma colon: "code (CHR '':'') = 58" "code (CHR ''#'') = 35"
  by (simp_all add: code_def)

lemma named_present:
  assumes "\<not> has_control a" "\<not> has_control b"
  shows "present (a @ '':'' @ b)"
proof -
  have "CHR '':'' \<in> set (a @ '':'' @ b)" by simp
  then have "trim (a @ '':'' @ b) \<noteq> []" using visible_stays[of "CHR '':''"] by (simp add: colon)
  moreover have "\<not> has_control (a @ CHR '':'' # b)"
    using assms has_control_append[of "CHR '':''" a b] by (simp add: colon)
  ultimately show ?thesis by (simp add: present_def)
qed

lemma phase_present:
  assumes "present test_id"
  shows "present (test_phase test_id)"
proof -
  have "CHR ''#'' \<in> set (test_phase test_id)" by (simp add: test_phase_def)
  then have "trim (test_phase test_id) \<noteq> []" using visible_stays[of "CHR ''#''"] by (simp add: colon)
  moreover have "\<not> has_control (test_id @ CHR ''#'' # ''call'')"
    using assms has_control_append[of "CHR ''#''" test_id "''call''"] printable_no_control[of "''#call''"]
    by (simp add: present_def colon)
  ultimately show ?thesis by (simp add: present_def test_phase_def)
qed

lemma test_id_present:
  assumes "\<not> has_control package" "\<not> has_control name"
  shows "present (package @ ''::'' @ name)"
proof -
  have "\<not> has_control ('':'' @ name)" using assms(2) by (simp add: colon)
  from named_present[OF assms(1) this] show ?thesis by simp
qed

lemma token_no_control: "valid_frontend_token s \<Longrightarrow> \<not> has_control s"
proof -
  have "\<not> has_control s" if "list_all (\<lambda>c. 32 \<le> code c \<and> code c < 127) s"
    using that by (induction s) auto
  moreover have "list_all (\<lambda>c. 32 \<le> code c \<and> code c < 127) s" if "valid_frontend_token s"
    using that unfolding valid_frontend_token_def
    by (auto simp: list_all_iff is_ascii_lowercase_def is_ascii_digit_def code_def)
  ultimately show "valid_frontend_token s \<Longrightarrow> \<not> has_control s" by blast
qed

subsection \<open>A snapshot's events are of its phase\<close>

lemma snapshot_decision_phases:
  "list_all (\<lambda>event. re_phase_id event = Some phase) events \<Longrightarrow>
     snapshot_decision environment phase by_decision d (events, decisions, clock) = (events', decisions', clock') \<Longrightarrow>
     list_all (\<lambda>event. re_phase_id event = Some phase) events'"
  by (cases d) (auto simp: snapshot_decision_def decision_event_def list_all_iff Let_def split: option.splits)

lemma snapshot_phases:
  "list_all (\<lambda>event. re_phase_id event = Some phase) (rs_events (owned_snapshot environment evidence manifest by_probe phase))"
  "rs_phase_id (owned_snapshot environment evidence manifest by_probe phase) = None"
proof -
  have events: "list_all (\<lambda>event. re_phase_id event = Some phase)
      (fst (fold (snapshot_decision environment phase by_decision) ds (events, decisions, clock)))"
    if "list_all (\<lambda>event. re_phase_id event = Some phase) events" for by_decision ds events decisions clock
    using that
  proof (induction ds arbitrary: events decisions clock)
    case (Cons d ds)
    obtain events' decisions' clock' where step: "snapshot_decision environment phase by_decision d (events, decisions, clock)
        = (events', decisions', clock')" using prod_cases3 by blast
    show ?case using Cons.IH[OF snapshot_decision_phases[OF Cons.prems step], of decisions' clock'] by (simp add: step)
  qed simp
  have "list_all (\<lambda>event. re_phase_id event = Some phase) (map (hit_event environment phase) (enumerate 0 hits))" for hits
    by (auto simp: list_all_iff hit_event_def)
  from events[OF this] show "list_all (\<lambda>event. re_phase_id event = Some phase)
      (rs_events (owned_snapshot environment evidence manifest by_probe phase))"
    by (simp add: owned_snapshot_def Let_def split_beta)
  show "rs_phase_id (owned_snapshot environment evidence manifest by_probe phase) = None"
    by (simp add: owned_snapshot_def Let_def split_beta)
qed

subsection \<open>A record that carries every identity\<close>

definition own_identity :: "string \<Rightarrow> raw_test_result \<Rightarrow> bool" where
  "own_identity run_id raw \<longleftrightarrow> (\<exists>test_id scope phase.
     rt_test_id raw = Some test_id \<and> present test_id \<and> rt_scope raw = Some scope \<and> es_run_id scope = run_id
     \<and> present (es_worker_id scope) \<and> es_test_id scope = test_id \<and> rt_retry raw = Some (es_retry scope)
     \<and> rt_status raw \<noteq> Some ''unstarted''
     \<and> rt_phases raw = [phase] \<and> cp_id phase = test_phase test_id \<and> cp_kind phase \<in> set phase_kinds
     \<and> cp_caused_by_phase_id phase = None
     \<and> list_all (\<lambda>reference. reference = None \<or> reference = Some (cp_id phase)) (references raw))"

lemma own_identity_ok:
  assumes "own_identity run_id raw"
  shows "identity_ok runner raw run_id \<and> phases_ok runner raw"
proof -
  obtain test_id scope phase where raw: "rt_test_id raw = Some test_id" "present test_id" "rt_scope raw = Some scope"
    "es_run_id scope = run_id" "present (es_worker_id scope)" "es_test_id scope = test_id"
    "rt_retry raw = Some (es_retry scope)" "rt_status raw \<noteq> Some ''unstarted''" "rt_phases raw = [phase]"
    "cp_id phase = test_phase test_id" "cp_kind phase \<in> set phase_kinds" "cp_caused_by_phase_id phase = None"
    "list_all (\<lambda>reference. reference = None \<or> reference = Some (cp_id phase)) (references raw)"
    using assms unfolding own_identity_def by blast
  have present: "present (cp_id phase)" using phase_present[OF raw(2)] raw(10) by simp
  have "identity_ok runner raw run_id"
    using raw by (simp add: identity_ok_def scope_ok_def never_started_def spelled_out)
  moreover have "{(cp_id p, c) |p c. p \<in> set (rt_phases raw) \<and> cp_caused_by_phase_id p = Some c} = {}"
    using raw(9,12) by auto
  then have "phases_ok runner raw"
    using raw present by (auto simp: phases_ok_def phase_ok_def phase_kinds_def list_all_iff refers_to_def spelled_out wf_acyclic)
  ultimately show ?thesis by blast
qed

definition outcome_ok :: "owned_test_outcome \<Rightarrow> bool" where
  "outcome_ok outcome \<longleftrightarrow> present (oo_package outcome) \<and> \<not> has_control (oo_name outcome)
     \<and> oo_status outcome \<noteq> ''unstarted''"

lemma outcome_identity:
  assumes "outcome_ok outcome"
  shows "own_identity (oi_run_id inputs) (outcome_result sha256 inputs default_runner outcome)"
proof -
  have "present (outcome_test_id outcome)"
    using assms unfolding outcome_test_id_def by (intro test_id_present) (auto simp: outcome_ok_def present_def)
  then show ?thesis using assms
    by (simp add: own_identity_def outcome_result_def Let_def outcome_ok_def references_def phase_kinds_def
        snapshot_phases list_all_iff[symmetric] list.pred_map comp_def)
      (use snapshot_phases in \<open>fastforce simp: list_all_iff\<close>)
qed

lemma background_identity:
  assumes "valid_frontend_token (fd_language (oi_declaration inputs))"
  shows "own_identity (oi_run_id inputs) (owned_background_result sha256 inputs default_runner unclaimed)"
proof -
  have "present (background_test_id inputs)"
    unfolding background_test_id_def
    using test_id_present[OF token_no_control[OF assms] printable_no_control[of "''background''"]] by simp
  moreover have "present ''background''"
  proof -
    have control: "\<not> has_control ''background''" by (rule printable_no_control) (simp)
    have "trim ''background'' = ''background''" by (rule trim_plain) (simp add: plain_text_def)
    with control show ?thesis by (simp add: present_def del: has_control.simps)
  qed
  ultimately show ?thesis
    by (simp add: own_identity_def owned_background_result_def Let_def references_def phase_kinds_def snapshot_phases)
      (use snapshot_phases in \<open>fastforce simp: list_all_iff\<close>)
qed

subsection \<open>The declaration, of the runners that ran\<close>

lemma distinct_concat_filter:
  "distinct (concat (map f xs)) \<Longrightarrow> distinct (concat (map f (filter P xs)))"
  by (induction xs) auto

lemma observed_declaration_ok:
  assumes "declaration_ok d" "fd_structural_limitations d = []"
    and "finite names" "\<And>i. i \<in> names \<Longrightarrow> valid_structural_limitation_reference i" "names \<inter> set (limitation_ids d) = {}"
    and "r \<in> set (fd_runners d)" "fr_runner r \<in> observed"
  shows "declaration_ok (d\<lparr>fd_structural_limitations := sorted_list_of_set names,
    fd_runners := filter (\<lambda>runner. fr_runner runner \<in> observed) (fd_runners d)\<rparr>)"
proof -
  have "filter (\<lambda>runner. fr_runner runner \<in> observed) (fd_runners d) \<noteq> []"
    using assms(6,7) by (auto simp: filter_empty_conv)
  moreover have "distinct (limitation_ids (d\<lparr>fd_structural_limitations := sorted_list_of_set names,
      fd_runners := filter (\<lambda>runner. fr_runner runner \<in> observed) (fd_runners d)\<rparr>))"
    using assms(1-3,5) distinct_concat_filter[of _ "fd_runners d"]
    by (auto simp: limitation_ids_def declaration_ok_def)
  ultimately show ?thesis
    using assms(1,3,4) by (auto simp: declaration_ok_def list_all_iff distinct_map_filter)
qed

lemma outcome_runner_declared:
  "runners = runner # rest \<Longrightarrow> outcome_runner runners (fr_runner runner) outcome \<in> fr_runner ` set runners"
  by (auto simp: outcome_runner_def)

subsection \<open>The run that is built\<close>

definition results_of :: "(string \<Rightarrow> string) \<Rightarrow> 'v owned_run_inputs \<Rightarrow> string \<Rightarrow> raw_test_result list" where
  "results_of sha256 inputs default_runner =
     map (outcome_result sha256 inputs default_runner) (oi_outcomes inputs)
     @ (if unclaimed_probes (oi_evidence inputs) = [] then []
        else [owned_background_result sha256 inputs default_runner (unclaimed_probes (oi_evidence inputs))])"

text \<open>What the frontends' own inputs satisfy: one of their declarations, tests with a package and a name
  of no control characters, one outcome a test, limitations with names a declaration can carry, and
  something that ran.\<close>

definition owned_inputs_ok :: "('v \<Rightarrow> string option) \<Rightarrow> 'v owned_run_inputs \<Rightarrow> bool" where
  "owned_inputs_ok limitation_name inputs \<longleftrightarrow>
     oi_declaration inputs \<in> {go_declaration, jvm_declaration}
     \<and> list_all outcome_ok (oi_outcomes inputs)
     \<and> distinct (background_test_id inputs # map outcome_test_id (oi_outcomes inputs))
     \<and> (oi_outcomes inputs \<noteq> [] \<or> unclaimed_probes (oi_evidence inputs) \<noteq> [])
     \<and> list_all (\<lambda>l. case limitation_name l of None \<Rightarrow> False
         | Some i \<Rightarrow> valid_structural_limitation_reference i \<and> i \<notin> set (limitation_ids (oi_declaration inputs)))
         (cm_limitations (oi_manifest inputs))
     \<and> distinct (map limitation_name (cm_limitations (oi_manifest inputs)))"

lemma owned_declared:
  "d \<in> {go_declaration, jvm_declaration} \<Longrightarrow> declaration_ok d \<and> fd_structural_limitations d = []"
  using owned_declarations by (auto simp: go_declaration_def jvm_declaration_def)

lemma limitation_names_read:
  "list_all (\<lambda>l. case name l of None \<Rightarrow> False | Some i \<Rightarrow> P i) ls \<Longrightarrow>
     try_map (\<lambda>l. expect (name l)) ls = Inr (map (\<lambda>l. the (name l)) ls)"
  by (induction ls) (auto split: option.splits simp: expect_def ok_or_def)

lemma result_phases:
  "map cp_id (rt_phases (outcome_result sha256 inputs default_runner outcome)) = [test_phase (outcome_test_id outcome)]"
  "map cp_id (rt_phases (owned_background_result sha256 inputs default_runner unclaimed))
     = [test_phase (background_test_id inputs)]"
  by (simp_all add: outcome_result_def owned_background_result_def Let_def)

lemma result_runners:
  "tp_runner (rt_provenance (outcome_result sha256 inputs default_runner outcome))
     = outcome_runner (fd_runners (oi_declaration inputs)) default_runner outcome"
  "tp_runner (rt_provenance (owned_background_result sha256 inputs default_runner unclaimed)) = default_runner"
  by (simp_all add: outcome_result_def owned_background_result_def Let_def)

lemma test_phase_inj: "inj test_phase"
  by (rule injI) (simp add: test_phase_def)

lemma results_phases_distinct:
  assumes "distinct (background_test_id inputs # map outcome_test_id (oi_outcomes inputs))"
  shows "distinct (concat (map (\<lambda>raw. map cp_id (rt_phases raw)) (results_of sha256 inputs default_runner)))"
proof -
  have "concat (map (\<lambda>raw. map cp_id (rt_phases raw)) (map (outcome_result sha256 inputs default_runner) outcomes))
      = map test_phase (map outcome_test_id outcomes)" for outcomes
    by (induction outcomes) (simp_all add: result_phases)
  then have "concat (map (\<lambda>raw. map cp_id (rt_phases raw)) (results_of sha256 inputs default_runner))
      = map test_phase (map outcome_test_id (oi_outcomes inputs)
          @ (if unclaimed_probes (oi_evidence inputs) = [] then [] else [background_test_id inputs]))"
    by (simp add: results_of_def result_phases)
  then show ?thesis using assms test_phase_inj
    by (simp only: distinct_map) (auto intro: inj_on_subset dest: injD)
qed

lemma built_run:
  assumes "owned_inputs_ok (\<lambda>l. js_str j l ''id'') inputs"
  shows "\<exists>run. build_frontend_run j sha256 inputs = Inr run
     \<and> request_ok (\<lambda>l. js_str j l ''id'') (ow_declaration run) (ow_request run)"
proof -
  let ?name = "\<lambda>l. js_str j l ''id''" and ?d = "oi_declaration inputs"
  let ?limitations = "cm_limitations (oi_manifest inputs)"
  let ?ids = "map (\<lambda>l. the (?name l)) ?limitations"
  obtain declared: "declaration_ok ?d" "fd_structural_limitations ?d = []"
    and outcomes: "list_all outcome_ok (oi_outcomes inputs)"
    and ids: "distinct (background_test_id inputs # map outcome_test_id (oi_outcomes inputs))"
    and some: "oi_outcomes inputs \<noteq> [] \<or> unclaimed_probes (oi_evidence inputs) \<noteq> []"
    and named: "list_all (\<lambda>l. case ?name l of None \<Rightarrow> False
        | Some i \<Rightarrow> valid_structural_limitation_reference i \<and> i \<notin> set (limitation_ids ?d)) ?limitations"
    and apart: "distinct (map ?name ?limitations)"
    using assms owned_declared unfolding owned_inputs_ok_def by blast
  obtain runner rest where runners: "fd_runners ?d = runner # rest"
    using declared(1) by (cases "fd_runners ?d") (auto simp: declaration_ok_def)
  define raws where "raws = results_of sha256 inputs (fr_runner runner)"
  define observed where "observed = (\<lambda>raw. tp_runner (rt_provenance raw)) ` set raws"
  define d' where "d' = ?d\<lparr>fd_structural_limitations := sorted_list_of_set (set ?ids),
    fd_runners := filter (\<lambda>runner. fr_runner runner \<in> observed) (fd_runners ?d)\<rparr>"
  have first: "fr_runner runner \<in> fr_runner ` set (fd_runners ?d)" by (simp add: runners)
  have known: "tp_runner (rt_provenance raw) \<in> fr_runner ` set (fd_runners ?d)" if "raw \<in> set raws" for raw
  proof -
    have "raw \<in> outcome_result sha256 inputs (fr_runner runner) ` set (oi_outcomes inputs)
        \<or> tp_runner (rt_provenance raw) = fr_runner runner"
      using that by (auto simp: raws_def results_of_def result_runners split: if_splits)
    then show ?thesis using first outcome_runner_declared[OF runners] by (metis imageE result_runners(1))
  qed
  have nonempty: "raws \<noteq> []" using some by (auto simp: raws_def results_of_def)
  have "tp_runner (rt_provenance (hd raws)) \<in> fr_runner ` set (fd_runners ?d)" using known nonempty by simp
  moreover have "tp_runner (rt_provenance (hd raws)) \<in> observed" using nonempty by (simp add: observed_def)
  ultimately obtain r where r: "r \<in> set (fd_runners ?d)" "fr_runner r \<in> observed" by (metis imageE)
  have present: "\<exists>i. ?name l = Some i \<and> valid_structural_limitation_reference i \<and> i \<notin> set (limitation_ids ?d)"
    if "l \<in> set ?limitations" for l using named that by (fastforce simp: list_all_iff split: option.splits)
  have "declaration_ok d'" unfolding d'_def
    by (rule observed_declaration_ok[OF declared _ _ _ r]) (use present in fastforce)+
  moreover have "inj_on (\<lambda>l. the (?name l)) (set ?limitations)"
  proof (rule inj_onI)
    fix l m assume lm: "l \<in> set ?limitations" "m \<in> set ?limitations" "the (?name l) = the (?name m)"
    then have "?name l = ?name m" using present[OF lm(1)] present[OF lm(2)] by auto
    then show "l = m" using apart lm(1,2) by (auto simp: distinct_map dest: inj_onD)
  qed
  then have "distinct ?ids" using apart by (simp add: distinct_map)
  then have "limitations_ok ?name d' \<lparr>rq_run_id = oi_run_id inputs, rq_manifest = oi_manifest inputs, rq_raw_results = raws,
      rq_generated_at = oi_generated_at inputs, rq_coverage_model = Some (oi_coverage_model inputs),
      rq_integrity = None, rq_test_exit_code = Present (Some (oi_test_exit_code inputs))\<rparr>"
    using present unfolding limitations_ok_def limitation_names_def
    by (fastforce simp: d'_def list_all_iff valid_structural_limitation_reference_def)
  moreover have "attempt_ok d' (oi_run_id inputs) raw" if mem: "raw \<in> set raws" for raw
  proof -
    have "own_identity (oi_run_id inputs) raw"
      using mem outcomes outcome_identity background_identity declared(1)
      by (fastforce simp: raws_def results_of_def list_all_iff declaration_ok_def split: if_splits)
    then have kept: "identity_ok runner raw (oi_run_id inputs) \<and> phases_ok runner raw" for runner
      by (rule own_identity_ok)
    obtain runner where runner: "runner \<in> set (fd_runners ?d)" "fr_runner runner = tp_runner (rt_provenance raw)"
      using known[OF mem] by (metis imageE)
    then have "runner \<in> set (fd_runners d')" using mem by (simp add: d'_def observed_def)
    then show ?thesis using kept runner(2) unfolding attempt_ok_def by blast
  qed
  moreover have "distinct (concat (map (\<lambda>raw. map cp_id (rt_phases raw)) raws))"
    using results_phases_distinct[OF ids] by (simp add: raws_def)
  moreover have "fr_runner ` set (fd_runners d') \<subseteq> observed" by (auto simp: d'_def)
  moreover have "build_frontend_run j sha256 inputs = Inr \<lparr>ow_declaration = d', ow_request =
      \<lparr>rq_run_id = oi_run_id inputs, rq_manifest = oi_manifest inputs, rq_raw_results = raws,
      rq_generated_at = oi_generated_at inputs, rq_coverage_model = Some (oi_coverage_model inputs),
      rq_integrity = None, rq_test_exit_code = Present (Some (oi_test_exit_code inputs))\<rparr>, ow_tests = length raws\<rparr>"
    using limitation_names_read[OF named]
    by (simp add: build_frontend_run_def Let_def runners expect_def ok_or_def d'_def observed_def raws_def results_of_def)
  ultimately show ?thesis by (simp add: request_ok_def list_all_iff observed_def)
qed

text \<open>C26: The run a Go or JVM run's evidence is made into passes the validation that guards publishing:
  when each test's package and name can be an identity and no two outcomes are the same test,
  \<open>build_frontend_run\<close> returns, without either of its panics, a declaration of just the runners that
  ran and a request every record of which carries the identities that declaration claims, whatever
  the runtime recorded.\<close>

theorem built_run_validates:
  assumes "owned_inputs_ok (\<lambda>l. js_str j l ''id'') inputs"
  shows "\<exists>run. build_frontend_run j sha256 inputs = Inr run
     \<and> validate_frontend_report_request (\<lambda>l. js_str j l ''id'') False (ow_declaration run) (ow_request run) = Inr ()"
  using built_run[OF assms] by (simp add: validate_request_iff)

end
