(* ===== verification/OwnedMerge.thy ===== *)
theory OwnedMerge
  imports OwnedValid
begin

section \<open>Nothing a runtime reached is lost\<close>

text \<open>
  Merging the processes of a run is the union of what they reached, a packed evaluation unpacks to what
  was evaluated, and what was reached ends in some record of the run, where its tests are told apart by
  their names.
\<close>

subsection \<open>A packed evaluation\<close>

text \<open>The key a runtime writes: which conditions were evaluated, which of those held, and the outcome.\<close>

definition pack_vector :: "mcdc_vector \<Rightarrow> u64" where
  "pack_vector vector =
     or (horner_sum of_bool 2 (map (\<lambda>v. v \<noteq> None) (mv_values vector)))
       (or (push_bit PACKED_VALUE_SHIFT (horner_sum of_bool 2 (map (\<lambda>v. v = Some True) (mv_values vector))))
         (push_bit PACKED_OUTCOME_SHIFT (of_bool (mv_outcome vector))))"

lemma bit_low_mask: "bit (push_bit n 1 - 1 :: u64) i \<longleftrightarrow> i < 64 \<and> i < n"
proof -
  have "push_bit n 1 - 1 = (mask n :: u64)" by (simp add: mask_eq_exp_minus_1 push_bit_eq_mult)
  then show ?thesis by (simp add: bit_mask_iff)
qed

lemma and_single_bit:
  assumes "i < 64"
  shows "(and w (push_bit i 1) \<noteq> 0) \<longleftrightarrow> bit (w :: u64) i"
proof -
  have "bit (and w (push_bit i 1)) n \<longleftrightarrow> n = i \<and> bit w i" for n
    using assms by (auto simp: bit_and_iff bit_exp_iff)
  then show ?thesis by (metis bit_0_eq bit_eqI bot_apply bot_bool_def)
qed

lemma masked_single_bit:
  "i < 24 \<Longrightarrow> (and (and w (push_bit PACKED_VALUE_SHIFT 1 - 1)) (push_bit i 1) \<noteq> 0) \<longleftrightarrow> bit (w :: u64) i"
  by (subst and_single_bit) (simp, simp only: bit_and_iff bit_low_mask PACKED_VALUE_SHIFT_def, auto)

lemma bit_and_one: "and w 1 = (1 :: u64) \<longleftrightarrow> bit w 0"
  by (simp add: and_one_eq bit_0 mod_2_eq_odd)

lemma bit_pack:
  assumes "length (mv_values vector) \<le> 24"
  shows "i < 24 \<Longrightarrow> bit (pack_vector vector) i \<longleftrightarrow> i < length (mv_values vector) \<and> mv_values vector ! i \<noteq> None"
    "i < 24 \<Longrightarrow> bit (pack_vector vector) (24 + i)
       \<longleftrightarrow> i < length (mv_values vector) \<and> mv_values vector ! i = Some True"
    "bit (pack_vector vector) 48 \<longleftrightarrow> mv_outcome vector"
  using assms
  by (auto simp: pack_vector_def PACKED_VALUE_SHIFT_def PACKED_OUTCOME_SHIFT_def bit_or_iff bit_push_bit_iff
      bit_horner_sum_bit_iff bit_of_bool_iff)

lemma unpack_pack:
  assumes "length (mv_values vector) \<le> 24"
  shows "unpack_vector (pack_vector vector) (of_nat (length (mv_values vector))) = vector"
proof -
  let ?n = "length (mv_values vector)" and ?key = "pack_vector vector"
  have width: "unat (of_nat ?n :: u8) = ?n" using assms by (simp add: unat_of_nat)
  have "(let bit = push_bit (i mod 64) 1 in
        if and (and ?key (push_bit PACKED_VALUE_SHIFT 1 - 1)) bit \<noteq> 0
        then Some (and (and (drop_bit PACKED_VALUE_SHIFT ?key) (push_bit PACKED_VALUE_SHIFT 1 - 1)) bit \<noteq> 0) else None)
      = mv_values vector ! i" if i: "i < ?n" for i
  proof -
    have "i < 24" "i mod 64 = i" using i assms by simp_all
    then show ?thesis using i bit_pack(1,2)[OF assms, of i]
      unfolding Let_def \<open>i mod 64 = i\<close> masked_single_bit[OF \<open>i < 24\<close>]
      unfolding bit_drop_bit_eq comp_def PACKED_VALUE_SHIFT_def
      by (cases "mv_values vector ! i") auto
  qed
  then have "map (\<lambda>i. let bit = push_bit (i mod 64) 1 in
        if and (and ?key (push_bit PACKED_VALUE_SHIFT 1 - 1)) bit \<noteq> 0
        then Some (and (and (drop_bit PACKED_VALUE_SHIFT ?key) (push_bit PACKED_VALUE_SHIFT 1 - 1)) bit \<noteq> 0) else None)
      [0..<?n] = mv_values vector"
    by (intro nth_equalityI) (simp_all del: upt_Suc)
  moreover have "(and (drop_bit PACKED_OUTCOME_SHIFT ?key) 1 = 1) = mv_outcome vector"
    using bit_pack(3)[OF assms] by (simp add: bit_and_one bit_drop_bit_eq PACKED_OUTCOME_SHIFT_def)
  ultimately show ?thesis unfolding unpack_vector_def Let_def width by (cases vector) simp
qed

text \<open>An evaluation unpacks to what was packed, for every decision a runtime packs: a condition it
  evaluated to its value, a condition it never reached to none, and the decision to its outcome.\<close>

theorem unpack_vector_inverts:
  assumes "length (mv_values vector) \<le> 24"
  shows "unpack_vector (pack_vector vector) (of_nat (length (mv_values vector))) = vector"
  using assms by (rule unpack_pack)

theorem unpack_vector_inverts_witness:
  "unpack_vector (pack_vector \<lparr>mv_values = [Some False, None], mv_outcome = True\<rparr>) 2
     = \<lparr>mv_values = [Some False, None], mv_outcome = True\<rparr>"
  using unpack_vector_inverts[of "\<lparr>mv_values = [Some False, None], mv_outcome = True\<rparr>"] by simp

subsection \<open>Merging is the union\<close>

definition slot :: "'a \<Rightarrow> 'a list \<Rightarrow> nat \<Rightarrow> 'a" where
  "slot x xs i = (if i < length xs then xs ! i else x)"

lemma length_update_zip [simp]: "length (update_zip f xs ys) = length xs"
  by (induction f xs ys rule: update_zip.induct) auto

lemma nth_update_zip: "i < length xs \<Longrightarrow> update_zip f xs ys ! i = (if i < length ys then f (xs ! i) (ys ! i) else xs ! i)"
proof (induction f xs ys arbitrary: i rule: update_zip.induct)
  case (1 f x xs y ys)
  then show ?case by (cases i) auto
qed auto

lemma slot_update_zip:
  "(\<And>a. f a x = a) \<Longrightarrow> slot x (update_zip f (grow (length ys) x xs) ys) i = f (slot x xs i) (slot x ys i)"
  by (auto simp: slot_def grow_def nth_update_zip nth_append)

lemma set_add_keys: "set (add_keys known keys) = set known \<union> set keys"
proof (induction keys arbitrary: known)
  case (Cons key keys)
  then show ?case by (auto simp: add_keys_def)
qed (simp add: add_keys_def)

text \<open>A decision table a reader made has as many vector lists as widths.\<close>

definition tables_match :: "owned_evidence \<Rightarrow> bool" where
  "tables_match e \<longleftrightarrow> length (oe_decision_vectors e) = length (oe_widths e)"

lemma merge_part_union:
  assumes "tables_match part" "tables_match merged"
  obtains after where "merge_part part merged = Inr after" "tables_match after"
    "\<And>i. slot 0 (oe_global after) i = or (slot 0 (oe_global merged) i) (slot 0 (oe_global part) i)"
    "\<And>i. slot 0 (oe_widths after) i = max (slot 0 (oe_widths merged) i) (slot 0 (oe_widths part) i)"
    "\<And>i. set (slot [] (oe_decision_vectors after) i)
       = set (slot [] (oe_decision_vectors merged) i) \<union> set (slot [] (oe_decision_vectors part) i)"
    "oe_tests after = oe_tests merged @ oe_tests part"
proof -
  let ?vectors = "grow (length (oe_decision_vectors part)) [] (oe_decision_vectors merged)"
  define after where "after = \<lparr>oe_global = update_zip or (grow (length (oe_global part)) 0 (oe_global merged)) (oe_global part),
    oe_tests = oe_tests merged @ oe_tests part,
    oe_widths = update_zip max (grow (length (oe_widths part)) 0 (oe_widths merged)) (oe_widths part),
    oe_decision_vectors = update_zip add_keys ?vectors (oe_decision_vectors part)\<rparr>"
  have "(if length (oe_widths merged) < length (oe_widths part)
      then grow (length (oe_widths part)) [] (oe_decision_vectors merged) else oe_decision_vectors merged) = ?vectors"
    using assms by (auto simp: grow_def tables_match_def)
  then have "merge_part part merged = Inr after" by (simp add: merge_part_def Let_def after_def) (simp add: grow_def)
  moreover have "tables_match after" using assms by (simp add: after_def tables_match_def grow_def)
  moreover have "slot 0 (oe_global after) i = or (slot 0 (oe_global merged) i) (slot 0 (oe_global part) i)"
    "slot 0 (oe_widths after) i = max (slot 0 (oe_widths merged) i) (slot 0 (oe_widths part) i)"
    "slot [] (oe_decision_vectors after) i
       = add_keys (slot [] (oe_decision_vectors merged) i) (slot [] (oe_decision_vectors part) i)" for i
    by (simp_all add: after_def slot_update_zip add_keys_def)
  ultimately show thesis using that by (simp add: set_add_keys after_def)
qed

lemma try_fold_merge_union:
  assumes "list_all tables_match parts" "tables_match merged"
  shows "\<exists>all. try_fold merge_part parts merged = Inr all
    \<and> (\<forall>i b. bit (slot 0 (oe_global all) i) b
       \<longleftrightarrow> bit (slot 0 (oe_global merged) i) b \<or> (\<exists>part \<in> set parts. bit (slot 0 (oe_global part) i) b))
    \<and> (\<forall>i. set (slot [] (oe_decision_vectors all) i)
       = set (slot [] (oe_decision_vectors merged) i) \<union> (\<Union>part \<in> set parts. set (slot [] (oe_decision_vectors part) i)))
    \<and> oe_tests all = oe_tests merged @ concat (map oe_tests parts)"
  using assms
proof (induction parts arbitrary: merged)
  case (Cons part parts)
  obtain step where step: "merge_part part merged = Inr step" "tables_match step"
    "\<And>i. slot 0 (oe_global step) i = or (slot 0 (oe_global merged) i) (slot 0 (oe_global part) i)"
    "\<And>i. set (slot [] (oe_decision_vectors step) i)
       = set (slot [] (oe_decision_vectors merged) i) \<union> set (slot [] (oe_decision_vectors part) i)"
    "oe_tests step = oe_tests merged @ oe_tests part"
    using merge_part_union[of part merged] Cons.prems by (metis list.pred_inject(2))
  obtain all where all: "try_fold merge_part parts step = Inr all"
    "\<forall>i b. bit (slot 0 (oe_global all) i) b
       \<longleftrightarrow> bit (slot 0 (oe_global step) i) b \<or> (\<exists>part \<in> set parts. bit (slot 0 (oe_global part) i) b)"
    "\<forall>i. set (slot [] (oe_decision_vectors all) i)
       = set (slot [] (oe_decision_vectors step) i) \<union> (\<Union>part \<in> set parts. set (slot [] (oe_decision_vectors part) i))"
    "oe_tests all = oe_tests step @ concat (map oe_tests parts)"
    using Cons.IH[OF _ step(2)] Cons.prems(1) by auto
  show ?case by (rule exI[of _ all]) (auto simp: step all bit_or_iff)
qed simp

text \<open>Merging the processes of a run never panics, and is the union of what they reached: a bit of a probe's count is
  set in the run when some process set it, a decision's evaluations are those of every process, and the
  tests are all their tests in order. No process's evidence hides another's, whatever the lengths of
  their tables.\<close>

theorem merge_evidence_union:
  assumes "list_all tables_match parts"
  shows "\<exists>merged. merge_evidence parts = Inr merged
    \<and> (bit (slot 0 (oe_global merged) i) b \<longleftrightarrow> (\<exists>part \<in> set parts. bit (slot 0 (oe_global part) i) b))
    \<and> set (slot [] (oe_decision_vectors merged) d) = (\<Union>part \<in> set parts. set (slot [] (oe_decision_vectors part) d))
    \<and> oe_tests merged = concat (map oe_tests parts)"
proof -
  have none: "tables_match no_evidence" by (simp add: tables_match_def no_evidence_def)
  have "slot 0 (oe_global no_evidence) i = 0" "slot [] (oe_decision_vectors no_evidence) d = []"
    by (simp_all add: no_evidence_def slot_def)
  then show ?thesis
    using try_fold_merge_union[OF assms none] by (auto simp: merge_evidence_def no_evidence_def)
qed

end
