(* ===== verification/SampleRun.thy ===== *)
theory SampleRun
  imports ViewPart CoverageModel
begin

section \<open>A small run\<close>

text \<open>
  A concrete run at which the properties of views are shown to hold together: JSON values with the
  operations the engine uses of them, a file with two statements, a branch of two outcomes and a
  decision of two conditions, and two tests that reach part of it.
\<close>

datatype json_value = JNull | JBool bool | JStr string | JArray "json_value list" | JObject "(string \<times> json_value) list"

fun json_get :: "json_value \<Rightarrow> string \<Rightarrow> json_value option" where
  "json_get (JObject entries) key = map_of entries key"
| "json_get _ key = None"

definition sample_json :: "json_value json" where
  "sample_json = \<lparr>
     js_bool = (\<lambda>v key. case json_get v key of Some (JBool b) \<Rightarrow> Some b | _ \<Rightarrow> None),
     js_str = (\<lambda>v key. case json_get v key of Some (JStr s) \<Rightarrow> Some s | _ \<Rightarrow> None),
     js_array = (\<lambda>v key. case json_get v key of Some (JArray vs) \<Rightarrow> Some vs | _ \<Rightarrow> None),
     js_is_object = (\<lambda>v. case v of JObject _ \<Rightarrow> True | _ \<Rightarrow> False),
     js_insert = (\<lambda>key x v. case v of JObject entries \<Rightarrow> JObject (AList.update key x entries) | _ \<Rightarrow> v),
     js_of_bool = JBool, js_of_str = JStr, js_of_array = JArray, js_object = JObject\<rparr>"

definition sample_point :: "string \<Rightarrow> nat \<Rightarrow> point_meta" where
  "sample_point i line = \<lparr>pm_id = i, pm_kind = Statement, pm_file = ''a.js'', pm_line = line, pm_column = 1,
     pm_source = ''f();'', pm_label = None\<rparr>"

definition sample_decision :: decision_meta where
  "sample_decision = \<lparr>dm_id = ''d'', dm_file = ''a.js'', dm_line = 2, dm_column = 1, dm_source = ''a && b'',
     dm_conditions = [''a'', ''b''], dm_kind = ''if''\<rparr>"

definition sample_branch :: branch_meta where
  "sample_branch = \<lparr>bm_id = ''b'', bm_kind = ''switch'', bm_file = ''a.js'', bm_line = 3, bm_column = 1,
     bm_source = ''switch (x)'', bm_alternatives = [\<lparr>ba_id = ''b1'', ba_label = ''one''\<rparr>, \<lparr>ba_id = ''b2'', ba_label = ''two''\<rparr>]\<rparr>"

definition sample_manifest :: "json_value coverage_manifest" where
  "sample_manifest = \<lparr>cm_decisions = [sample_decision], cm_points = [sample_point ''p1'' 1, sample_point ''p2'' 4],
     cm_branches = [sample_branch], cm_limitations = [], cm_unmeasured = [''b2''], cm_scope = None,
     cm_assertion_sites = []\<rparr>"

definition vector_and :: mcdc_vector where
  "vector_and = \<lparr>mv_values = [Some True, Some True], mv_outcome = True\<rparr>"

definition vector_not :: mcdc_vector where
  "vector_not = \<lparr>mv_values = [Some False, None], mv_outcome = False\<rparr>"

definition sample_snapshot :: "mcdc_vector list \<Rightarrow> string list \<Rightarrow> runtime_snapshot" where
  "sample_snapshot vectors hits = \<lparr>rs_decisions = [\<lparr>ds_id = ''d'', ds_vectors = vectors\<rparr>], rs_hits = hits,
     rs_events = [], rs_logicals = [], rs_phase_id = None\<rparr>"

definition sample_test :: "string \<Rightarrow> string \<Rightarrow> runtime_snapshot \<Rightarrow> raw_test_result" where
  "sample_test name status snapshot = \<lparr>rt_test_id = None, rt_scope = None, rt_test = name, rt_test_file = Some ''a.test.js'',
     rt_title = None, rt_retry = Some 0, rt_status = Some status, rt_expected_status = None, rt_flaky = False,
     rt_provenance = \<lparr>tp_runner = ''vitest'', tp_kind = ''unit'', tp_project = None, tp_source = ''path'', tp_tags = []\<rparr>,
     rt_role = ''test'', rt_attribution = ''exact'', rt_phases = [], rt_runtime = [snapshot], rt_browser = [],
     rt_server = [], rt_span = None\<rparr>"

definition sample_run :: "raw_test_result list" where
  "sample_run = [sample_test ''t2'' ''passed'' (sample_snapshot [vector_and] [''p1'']),
     sample_test ''t1'' ''failed'' (sample_snapshot [vector_not, vector_and] [''b1'', ''p1''])]"

lemma sample_settled: "settled_manifest sample_json sample_manifest = sample_manifest"
  by code_simp

lemma sample_ok: "view_ok sample_manifest sample_run"
  by code_simp

lemma sample_view_exists:
  "\<exists>view. create_coverage_view_with_model sample_json sample_manifest sample_run ''now'' javascript_coverage_model = Inr view"
  using view_cases[of sample_json sample_manifest sample_run "''now''" javascript_coverage_model] sample_ok
  by (auto simp: sample_settled split: sum.splits)

text \<open>What the view of this run holds.\<close>

lemma sample_points:
  "map (\<lambda>meta. (meta, tests_with (reaches (pm_id meta)) sample_run, list_ex (reaches (pm_id meta)) sample_run))
      (filter (\<lambda>meta. pm_id meta \<notin> declined_of (settled_manifest sample_json sample_manifest))
        (cm_points (settled_manifest sample_json sample_manifest)))
    = [(sample_point ''p1'' 1, [''t1'', ''t2''], True), (sample_point ''p2'' 4, [], False)]"
  by code_simp

lemma sample_decisions_distinct: "distinct (map dm_id (cm_decisions (settled_manifest sample_json sample_manifest)))"
  by code_simp

lemma sample_branches:
  "(let m = settled_manifest sample_json sample_manifest; declined = declined_of m in
     map (\<lambda>meta. expected_branch sample_run (declared_alternatives declined meta))
       (filter (\<lambda>meta. bm_id meta \<notin> declined) (cm_branches m))
     @ map (\<lambda>meta. expected_branch sample_run (decision_alternatives (set (map dm_id (cm_decisions m))) meta))
       (filter (\<lambda>meta. \<not> declares_outcome m meta \<and> dm_id meta @ '':outcome'' \<notin> declined) (ordered_decisions m)))
   = [([(''b1'', [''t1''], True)], True),
      ([(''d:outcome:true'', [''t1'', ''t2''], True), (''d:outcome:false'', [''t1''], True)], True)]"
  by code_simp

lemma sample_decision_rows:
  "(let m = settled_manifest sample_json sample_manifest in
     map (expected_decision m sample_run) (filter (\<lambda>meta. dm_id meta \<notin> declined_of m) (ordered_decisions m)))
   = [\<lparr>row_meta = sample_decision, row_executed = True, row_covered = False, row_vectors = [vector_and, vector_not],
       row_tests = [[''t1'', ''t2''], [''t1'']], row_conditions = [True, False]\<rparr>]"
  by code_simp

theorem points_exact_witness:
  "\<exists>view. create_coverage_view_with_model sample_json sample_manifest sample_run ''now'' javascript_coverage_model = Inr view
     \<and> map point_row (cv_points view) = [(sample_point ''p1'' 1, [''t1'', ''t2''], True), (sample_point ''p2'' 4, [], False)]"
proof -
  obtain view where view: "create_coverage_view_with_model sample_json sample_manifest sample_run ''now''
      javascript_coverage_model = Inr view" using sample_view_exists by blast
  show ?thesis by (rule exI[of _ view], rule conjI[OF view points_exact[OF view, unfolded sample_points]])
qed

theorem branches_exact_witness:
  "\<exists>view. create_coverage_view_with_model sample_json sample_manifest sample_run ''now'' javascript_coverage_model = Inr view
     \<and> map branch_row (cv_branches view) = [([(''b1'', [''t1''], True)], True),
      ([(''d:outcome:true'', [''t1'', ''t2''], True), (''d:outcome:false'', [''t1''], True)], True)]"
proof -
  obtain view where view: "create_coverage_view_with_model sample_json sample_manifest sample_run ''now''
      javascript_coverage_model = Inr view" using sample_view_exists by blast
  show ?thesis by (rule exI[of _ view], rule conjI[OF view branches_exact[OF view sample_decisions_distinct, unfolded sample_branches]])
qed

theorem decisions_exact_witness:
  "\<exists>view. create_coverage_view_with_model sample_json sample_manifest sample_run ''now'' javascript_coverage_model = Inr view
     \<and> map row_tests (map decision_row (cv_decisions view)) = [[[''t1'', ''t2''], [''t1'']]]
     \<and> map row_conditions (map decision_row (cv_decisions view)) = [[True, False]]"
proof -
  obtain view where view: "create_coverage_view_with_model sample_json sample_manifest sample_run ''now''
      javascript_coverage_model = Inr view" using sample_view_exists by blast
  show ?thesis
    using view decisions_exact[OF view sample_decisions_distinct, unfolded sample_decision_rows] by auto
qed

theorem summary_of_tests_witness:
  "\<exists>view part s. create_coverage_view_with_model sample_json sample_manifest sample_run ''now'' javascript_coverage_model = Inr view
     \<and> create_coverage_view_with_model sample_json sample_manifest (only {''t2''} sample_run) ''now''
         javascript_coverage_model = Inr part
     \<and> coverage_summary_for_tests view {''t2''} = Inr s \<and> cs_lines (cv_summary part) = cs_lines s
     \<and> cs_covered_conditions (cv_summary part) = cs_covered_conditions s"
proof -
  obtain view where view: "create_coverage_view_with_model sample_json sample_manifest sample_run ''now''
      javascript_coverage_model = Inr view" using sample_view_exists by blast
  from summary_of_tests_is_their_run[OF view, of "{''t2''}"] show ?thesis using view by force
qed

subsection \<open>The same test twice\<close>

text \<open>A test whose two records, of one attempt, do not agree.\<close>

definition twice_run :: "raw_test_result list" where
  "twice_run = [sample_test ''t'' ''passed'' (sample_snapshot [] [''p1'']), sample_test ''t'' ''failed'' (sample_snapshot [] [''p2''])]"

lemma twice_attempt: "of_attempt ''t'' 0 raw" if "raw \<in> set twice_run"
  using that by (auto simp: twice_run_def sample_test_def of_attempt_def raw_test_id_def)

theorem mixed_attempt_counted_twice_witness:
  "passing_coverage_results twice_run = twice_run \<and> failed_coverage_results twice_run = twice_run
   \<and> test_outcome (fold record_attempt twice_run (new_test (hd twice_run))) = ''failed''"
proof -
  have both: "raw \<in> set (passing_coverage_results twice_run) \<and> raw \<in> set (failed_coverage_results twice_run)
      \<and> test_outcome (fold record_attempt (filter (\<lambda>other. raw_test_id other = ''t'') twice_run) (new_test (hd twice_run))) = ''failed''"
    if "raw \<in> set twice_run" for raw
  proof (rule mixed_attempt_counted_twice[OF that twice_attempt[OF that], of "hd twice_run" "last twice_run"])
    show "terminal_attempt twice_run ''t'' 0"
      by (simp add: terminal_attempt_def twice_run_def sample_test_def of_attempt_def raw_test_id_def)
  qed (simp_all add: twice_run_def sample_test_def of_attempt_def raw_test_id_def new_test_def)
  have "filter (\<lambda>other. raw_test_id other = ''t'') twice_run = twice_run"
    by (simp add: twice_run_def sample_test_def raw_test_id_def)
  moreover have "passing_coverage_results twice_run = twice_run" "failed_coverage_results twice_run = twice_run"
    using both by (auto simp: passing_records failed_records intro!: filter_True)
  ultimately show ?thesis using both[of "hd twice_run"] by (simp add: twice_run_def)
qed

subsection \<open>The verdict of this run\<close>

lemma line_count: "length (fold (line_step vt declined) points m) \<le> length m + length points"
proof (induction points arbitrary: m)
  case (Cons point points)
  have "length (tree_insert k v m) \<le> Suc (length m)" for k v and m :: "(source_line \<times> line_aggregate) list"
    by (induction k v m rule: tree_insert.induct) auto
  then have "length (line_step vt declined point m) \<le> Suc (length m)"
    by (simp add: line_step_def tree_entry_def)
  then show ?case using Cons[of "line_step vt declined point m"] by simp
qed simp

lemma view_line_count:
  assumes "create_coverage_view_with_model j manifest raws g model = Inr view"
  shows "length (cv_lines view) \<le> length (cm_points (settled_manifest j manifest))"
proof -
  obtain st vt r where r: "results_from vt (settled_manifest j manifest) st r"
    and view: "view_of_results j (settled_manifest j manifest) g model r = Inr view"
    using view_from[OF assms] by metis
  have "cv_lines view = vr_lines r"
    using view_of_results_cases[where j = j and manifest = "settled_manifest j manifest" and g = g and model = model and r = r] view
    by simp
  then show ?thesis
    using r line_count[of vt "declined_of (settled_manifest j manifest)" "vr_points r" "[]"]
    by (auto simp: results_from_def Let_def line_results_def)
qed

lemma sample_view_facts:
  assumes view: "create_coverage_view_with_model sample_json sample_manifest sample_run ''now'' javascript_coverage_model = Inr view"
  shows "small_view view" "\<not> all_covered view"
proof -
  have points: "map point_row (cv_points view) = [(sample_point ''p1'' 1, [''t1'', ''t2''], True), (sample_point ''p2'' 4, [], False)]"
    using point_rows[OF view, unfolded sample_points] .
  have "map (\<lambda>(alternatives, _). length alternatives) (map branch_row (cv_branches view)) = [1, 2]"
    unfolding branch_rows[OF view sample_decisions_distinct, unfolded sample_branches] by simp
  then have branches: "map (\<lambda>branch. length (br_alternatives branch)) (cv_branches view) = [1, 2]"
    by (simp add: branch_row_def comp_def)
  have "map row_meta (map decision_row (cv_decisions view)) = [sample_decision]"
    unfolding decision_rows[OF view sample_decisions_distinct, unfolded sample_decision_rows] by simp
  then have decisions: "map dr_meta (cv_decisions view) = [sample_decision]"
    by (simp add: decision_row_def comp_def)
  have "length (cv_lines view) \<le> 2" using view_line_count[OF view] by (simp add: sample_settled) (simp add: sample_manifest_def)
  then have "length (filter lr_measured (cv_lines view)) \<le> 2" by (meson le_trans length_filter_le)
  moreover have "length (cv_points view) = 2" using arg_cong[OF points, of length] by simp
  moreover have "sum_list (map (\<lambda>branch. length (br_alternatives branch)) (cv_branches view)) = 3" by (simp add: branches)
  moreover have "sum_list (map (\<lambda>d. length (dm_conditions (dr_meta d))) (cv_decisions view))
      = sum_list (map (\<lambda>meta. length (dm_conditions meta)) (map dr_meta (cv_decisions view)))" by (simp add: comp_def)
  then have "sum_list (map (\<lambda>d. length (dm_conditions (dr_meta d))) (cv_decisions view)) = 2"
    unfolding decisions by (simp add: sample_decision_def)
  ultimately show "small_view view"
    by (simp add: small_view_def obligations_below_def summary_input_def alternatives_of_def length_concat comp_def)
  have "list_all (\<lambda>(_, _, covered). covered) (map point_row (cv_points view)) \<longleftrightarrow> list_all pr_covered (cv_points view)"
    by (simp add: list.pred_map comp_def point_row_def)
  then show "\<not> all_covered view" unfolding points all_covered_def by simp
qed

theorem verdict_exact_witness:
  "\<exists>view. create_coverage_view_with_model sample_json sample_manifest sample_run ''now'' javascript_coverage_model = Inr view
     \<and> \<not> cs_coverage_complete (cv_summary view)"
proof -
  obtain view where view: "create_coverage_view_with_model sample_json sample_manifest sample_run ''now''
      javascript_coverage_model = Inr view" using sample_view_exists by blast
  show ?thesis
    using view verdict_exact[OF view sample_view_facts(1)[OF view]] sample_view_facts(2)[OF view] by blast
qed

end
