(* ===== verification/ReportSample.thy ===== *)
theory ReportSample
  imports SampleRun CoverageReport
begin

section \<open>The report of the small run\<close>

text \<open>A request for the report of the run of SampleRun.thy, and the report it gets.\<close>

definition sample_model :: coverage_model_declaration where
  "sample_model = \<lparr>md_language = ''js'', md_variant = ''v8'', md_name = ''n'', md_completeness_meaning = ''m'',
     md_measured = [''l''], md_not_measured = []\<rparr>"

definition sample_request :: "json_value coverage_report_request" where
  "sample_request = \<lparr>rq_run_id = ''run'', rq_manifest = sample_manifest, rq_raw_results = sample_run,
     rq_generated_at = ''now'', rq_coverage_model = Some sample_model, rq_integrity = Some JNull,
     rq_test_exit_code = Present (Some 0)\<rparr>"

lemma trim_letter:
  assumes "13 < code c" "code c \<noteq> 32" "code c < 128"
  shows "trim [c] = [c]"
proof -
  have "p = [] \<or> \<not> starts_with p [c]" if mem: "p \<in> set (map rev white_space)" for p
  proof (rule ccontr)
    assume p: "\<not> ?thesis"
    then have "p = [c]" by (cases p) (auto simp: starts_with_iff)
    then have "[c] \<in> set white_space" using mem by force
    then show False using white_space_first assms by (force simp: list_all_iff)
  qed
  then have "strip_any (map rev white_space) [c] = None" by (simp add: strip_any_None)
  then show ?thesis using assms by (simp add: trim_def trim_start_stays trim_end_def trim_with.simps)
qed

lemma sample_model_valid: "\<exists>p. from_declaration sample_model = Inr p"
proof -
  have "valid_identifier ''js''" "valid_identifier ''v8''"
    by (simp_all add: valid_identifier_def COVERAGE_MODEL_MAX_IDENTIFIER_BYTES_def is_ascii_lowercase_def is_ascii_digit_def code_def)
  moreover have "valid_description ''n''" "valid_description ''m''" "valid_description ''l''"
    by (simp_all add: valid_description_def COVERAGE_MODEL_MAX_DESCRIPTION_BYTES_def trim_letter code_def)
  ultimately show ?thesis
    by (simp add: from_declaration_def into_declaration_def sample_model_def persist_def Let_def
        COVERAGE_MODEL_MAX_SURFACES_PER_LIST_def)
qed

lemma sample_report_exists: "\<exists>report. analyze_coverage_results sample_json sample_request = Inr report"
proof -
  have "find (\<lambda>scope. es_run_id scope \<noteq> rq_run_id sample_request) (List.map_filter rt_scope (rq_raw_results sample_request)) = None"
    by (simp add: sample_request_def sample_run_def sample_test_def map_filter_simps)
  moreover have "rq_raw_results sample_request \<noteq> []" by (simp add: sample_request_def sample_run_def)
  moreover have "\<exists>p. from_declaration (case rq_coverage_model sample_request of Some m \<Rightarrow> m | None \<Rightarrow> javascript_coverage_model) = Inr p"
    by (simp add: sample_request_def sample_model_valid)
  ultimately have "check_results sample_request = Inr ()" unfolding check_results_def Let_def by force
  moreover have "view_ok (settled_manifest sample_json (rq_manifest sample_request)) (rq_raw_results sample_request)"
    using sample_ok sample_settled by (simp add: sample_request_def)
  ultimately show ?thesis using analysis_report by blast
qed

theorem views_are_the_reports_witness:
  "\<exists>report. analyze_coverage_results sample_json sample_request = Inr report
     \<and> coverage_views sample_json sample_request [ViewFailed, ViewAll] (Some transport_none)
       = Inr [Inr (ViewFailed, fi_failed (rp_filters (with_transport transport_none report))),
           Inr (ViewAll, rp_view (with_transport transport_none report))]"
proof -
  obtain report where report: "analyze_coverage_results sample_json sample_request = Inr report"
    using sample_report_exists by blast
  show ?thesis
    by (rule exI[of _ report], rule conjI[OF report])
      (simp add: views_are_the_reports[OF report, of "[ViewFailed, ViewAll]" transport_none])
qed

end
