(* ===== verification/OwnedSample.thy ===== *)
theory OwnedSample
  imports OwnedArchive ReportSample
begin

section \<open>The small run, archived\<close>

text \<open>
  The run of SampleRun.thy as a frontend's, archived and read back: a declaration of its runner, JSON
  text that names its values, and the library of the archive's own sample.
\<close>

definition sample_attribution :: frontend_attribution where
  "sample_attribution = \<lparr>fa_run = Exact, fa_worker = Aggregate, fa_test = Aggregate, fa_retry = Aggregate,
     fa_phase = Aggregate, fa_action = Aggregate, fa_assertion = Aggregate\<rparr>"

definition sample_frontend :: frontend_declaration where
  "sample_frontend = \<lparr>fd_protocol_version = 2, fd_frontend_id = ''f'', fd_frontend_version = ''v'', fd_language = ''js'',
     fd_structural_source = OwnedProbes,
     fd_runners = [\<lparr>fr_runner = ''vitest'', fr_execution_model = SerialInProcess, fr_attribution = sample_attribution,
       fr_limitations = [\<lparr>fl_id = ''l'',
         fl_scopes = [WorkerScope, TestScope, RetryScope, PhaseScope, ActionScope, AssertionScope],
         fl_reason = ''r''\<rparr>]\<rparr>],
     fd_structural_limitations = []\<rparr>"

definition sample_owned :: "json_value owned_run" where
  "sample_owned = \<lparr>ow_declaration = sample_frontend, ow_request = sample_request, ow_tests = 2\<rparr>"

definition sample_writer :: "json_value json_writer" where
  "sample_writer = \<lparr>jw_manifest = \<lambda>_. ''manifest'', jw_frontend = \<lambda>_. ''frontend'', jw_model = \<lambda>_. ''model'',
     jw_result = rt_test\<rparr>"

definition sample_library :: "io_error + string \<Rightarrow> json_value library" where
  "sample_library opened = \<lparr>lib_open = \<lambda>_. opened, lib_gunzip = sample_gunzip, lib_sha256 = id,
     lib_header_to_vec = sample_to_vec, lib_header_from = sample_from_slice,
     lib_manifest_from = \<lambda>_. Inr sample_manifest, lib_frontend_from = \<lambda>_. Inr sample_frontend,
     lib_model_from = \<lambda>_. Inr (persist sample_model),
     lib_result_from = \<lambda>text. ok_or (find (\<lambda>raw. rt_test raw = text) sample_run) ''unknown test'',
     lib_server_from = \<lambda>_. Inl ''none'', lib_event_from = \<lambda>_. Inl ''none'', lib_server_to_vec = \<lambda>_. [],
     lib_json = sample_json, lib_cores = Some 4, lib_lower = id, lib_debug = id, lib_debug_report_error = \<lambda>_. [],
     lib_injected = False\<rparr>"

lemma sample_declaration_ok: "declaration_ok sample_frontend"
proof -
  have tokens: "valid_frontend_token ''f''" "valid_frontend_token ''v''" "valid_frontend_token ''js''"
    "valid_frontend_token ''l''" "valid_frontend_runner_token ''vitest''"
    by (simp_all add: valid_frontend_token_def valid_frontend_runner_token_def is_ascii_lowercase_def code_def)
  have reason: "trim ''r'' = ''r''" by (rule trim_letter) (simp_all add: code_def)
  have scopes: "exact_axes sample_attribution \<union> {WorkerScope, TestScope, RetryScope, PhaseScope, ActionScope, AssertionScope} = UNIV"
    "exact_axes sample_attribution \<inter> {RetryScope, PhaseScope} = {}"
    "exact_axes sample_attribution \<inter> {ActionScope, AssertionScope} = {}"
    using limitation_scope.exhaust by (auto simp: exact_axes_def sample_attribution_def)
  show ?thesis
    using tokens reason scopes
    by (simp add: declaration_ok_def sample_frontend_def limitation_ids_def runner_ok_def limitation_ok_def claims_ok_def
        limited_scopes_def sample_attribution_def)
qed

lemma sample_validates:
  "validate_frontend_report_request limitation False sample_frontend sample_request = Inr ()"
proof -
  have "acyclic ({} :: (string \<times> string) set)" by (simp add: wf_acyclic)
  then have attempt: "attempt_ok sample_frontend run_id raw" if mem: "raw \<in> set sample_run" for raw run_id
    using mem
    by (auto simp: attempt_ok_def sample_frontend_def sample_run_def sample_test_def sample_snapshot_def
        identity_ok_def phases_ok_def references_def refers_to_def never_started_def scope_ok_def unscoped_ok_def observed_something_def phase_ok_def sample_attribution_def)
  have "FrontendProtocol.request_ok limitation sample_frontend sample_request"
    using attempt sample_declaration_ok
    by (auto simp: request_ok_def limitations_ok_def limitation_names_def sample_request_def sample_manifest_def
        list_all_iff sample_run_def sample_test_def sample_frontend_def)
  then show ?thesis by (simp add: validate_request_iff)
qed

definition owned_entries :: "archive_entry list" where
  "owned_entries = [\<lparr>ae_path = ''coverage-model.json'', ae_contents = ''model''\<rparr>,
     \<lparr>ae_path = ''frontend.json'', ae_contents = ''frontend''\<rparr>, \<lparr>ae_path = ''manifest.json'', ae_contents = ''manifest''\<rparr>,
     \<lparr>ae_path = ''results/00000000/mcdc.json'', ae_contents = ''t2''\<rparr>,
     \<lparr>ae_path = ''results/00000001/mcdc.json'', ae_contents = ''t1''\<rparr>]"

lemma sample_model_reads: "into_declaration (persist sample_model) = Inr sample_model"
  using sample_model_valid
  by (auto simp: from_declaration_def into_declaration_def persist_def Let_def rbind_Inr_iff split: if_splits)

lemma sample_archive_entries: "archive_entries sample_writer sample_owned = Inr owned_entries"
proof -
  have "from_declaration sample_model = Inr (persist sample_model)"
    by (simp add: from_declaration_def sample_model_reads Let_def)
  moreover have "result_path 0 = ''results/00000000/mcdc.json''" "result_path (Suc 0) = ''results/00000001/mcdc.json''"
    by code_simp+
  ultimately show ?thesis
    by (simp add: archive_entries_def sample_owned_def sample_request_def sample_writer_def expect_def ok_or_def
        owned_entries_def sample_run_def sample_test_def)
qed

lemma owned_canonical: "canonicalize_entries owned_entries = Inr owned_entries"
proof -
  have "list_all (\<lambda>e. valid_path (ae_path e)) owned_entries"
    by (simp add: owned_entries_def validate_archive_path_def starts_with_def ends_with_def strip_suffix_def)
  moreover have "sort_key ae_path owned_entries = owned_entries"
    by (simp add: owned_entries_def less_list_code less_eq_list_code less_char_def)
  ultimately show ?thesis
    unfolding canonicalize_Inr_sort by (simp add: owned_entries_def)
qed

lemma owned_limits: "within_limits sample_to_vec owned_entries" "headers_fit (2 ^ 32) sample_to_vec owned_entries"
  by (simp_all add: within_limits_def headers_fit_def owned_entries_def encoded_header_def
      sample_to_vec_def decimal.simps MAX_ENTRY_HEADER_BYTES_def)

lemma owned_written:
  "\<exists>m w'. write_archive (\<lambda>_. None) vec_write id sample_to_vec 7 (Suc 0) owned_entries
     sample_destination sample_world = Some (Inr m, w')"
proof -
  obtain t v where o: "open_temporary (\<lambda>_. None) 7 sample_destination (Suc 0) sample_world = Some (Inr t, v)"
    using sample_open[of "\<lambda>_. None"] by blast
  obtain m w' where f: "fill_and_rename (\<lambda>_. None) vec_write id sample_to_vec owned_entries t
      (dest_path sample_destination) EVIDENCE_ARCHIVE_SCHEMA_VERSION EVIDENCE_ARCHIVE_MAGIC None v = Some (Inr m, w')"
    using owned_limits(2)
    by (simp add: fill_and_rename_def write_framed_bytes Let_def write_all_no_fault map_io_def checked_def)
  have "''frontend.json'' \<in> set (map ae_path owned_entries)"
    "''coverage-model.json'' \<in> set (map ae_path owned_entries)"
    by (simp_all add: owned_entries_def)
  moreover have "ok_or (dest_parent sample_destination) e = Inr ''runs''" for e :: archive_error
    by (simp add: sample_destination_def ok_or_def)
  ultimately show ?thesis
    by (auto simp: write_archive_def write_archive_version_def owned_canonical checked_def o f
        simp del: open_temporary.simps split: option.splits)
qed

lemma sample_json_reads: "reads_what_is_written (sample_library opened) sample_writer sample_owned"
  by (simp add: reads_what_is_written_def sample_library_def sample_writer_def sample_owned_def sample_request_def
      sample_run_def sample_test_def ok_or_def)

theorem archived_run_analysed_alike_witness:
  "\<exists>library report. analyze_frontend_request library sample_frontend sample_request transport_none = Inr report
     \<and> analyze_coverage_archive library (reading_of ''runs/evidence.raw.gz'' sample_owned) = Inr report"
proof -
  obtain m w' where written: "write_archive (\<lambda>_. None) vec_write id sample_to_vec 7 (Suc 0) owned_entries
     sample_destination sample_world = Some (Inr m, w')" using owned_written by blast
  define opened where "opened = ok_or (aw_files w' (dest_path sample_destination)) unexpected_eof"
  let ?lib = "sample_library opened"
  have parts: "lib_header_to_vec ?lib = sample_to_vec" "lib_header_from ?lib = sample_from_slice"
    "lib_gunzip ?lib = sample_gunzip" "lib_open ?lib path = opened" "lib_json ?lib = sample_json" "lib_injected ?lib = False"
    for path by (simp_all add: sample_library_def)
  obtain inner where "analyze_coverage_results sample_json sample_request = Inr inner"
    using sample_report_exists by blast
  then have analysed: "analyze_frontend_request ?lib (ow_declaration sample_owned) (ow_request sample_owned) transport_none
      = Inr (with_transport transport_none inner)"
    by (simp add: analyze_frontend_request_def analyze_frontend_results_def parts sample_validates sample_owned_def)
  have "analyze_coverage_archive ?lib (reading_of ''runs/evidence.raw.gz'' sample_owned)
      = Inr (with_transport transport_none inner)"
  proof (rule archived_run_analysed_alike[where gzip = id and w = sample_writer and entries = owned_entries
        and put = vec_write and world' = w' and missing = unexpected_eof and m = m and world = sample_world
        and d = sample_destination and fails = "\<lambda>_. None" and pid = 7 and fuel = "Suc 0"])
    show "header_codec (lib_header_to_vec ?lib) (lib_header_from ?lib)" unfolding parts by (rule sample_codec)
    show "gzip_codec id (lib_gunzip ?lib)" unfolding parts by (rule sample_gzip_codec)
    show "sink vec_write id" by (rule vec.sink_axioms)
    show "reads_what_is_written ?lib sample_writer sample_owned" by (rule sample_json_reads)
    show "archive_entries sample_writer sample_owned = Inr owned_entries" by (rule sample_archive_entries)
    show "within_limits (lib_header_to_vec ?lib) owned_entries" unfolding parts by (rule owned_limits)
    show "length (rq_raw_results (ow_request sample_owned)) \<le> 10 ^ 8"
      by (simp add: sample_owned_def sample_request_def sample_run_def)
    show "fd_language (ow_declaration sample_owned) = md_language (model_of (ow_request sample_owned))"
      by (simp add: sample_owned_def sample_frontend_def sample_request_def model_of_def sample_model_def)
    show "write_archive (\<lambda>_. None) vec_write id (lib_header_to_vec ?lib) 7 (Suc 0) owned_entries sample_destination
        sample_world = Some (Inr m, w')" unfolding parts by (rule written)
    show "lib_open ?lib ''runs/evidence.raw.gz'' = ok_or (aw_files w' (dest_path sample_destination)) unexpected_eof"
      unfolding parts by (rule opened_def)
    show "analyze_frontend_request ?lib (ow_declaration sample_owned) (ow_request sample_owned) transport_none
        = Inr (with_transport transport_none inner)" by (rule analysed)
  qed
  then show ?thesis using analysed
    by (intro exI[of _ ?lib] exI[of _ "with_transport transport_none inner"]) (simp add: sample_owned_def)
qed

end
