(* ===== verification/OwnedKept.thy ===== *)
theory OwnedKept
  imports OwnedMerge OwnedSample
begin

section \<open>What a run reached is in its records\<close>

text \<open>
  Each probe a run's evidence reached is a hit of some record of the request, a test's or the run's own,
  as long as its tests have names of their own. Where two share one, the records of all but the last are
  lost: the runs below show both.
\<close>

subsection \<open>The record of a name\<close>

lemma map_of_fold_insert:
  "map_of (fold (\<lambda>x. tree_insert (k x) (v x)) xs m) i
     = (case find (\<lambda>x. k x = i) (rev xs) of Some x \<Rightarrow> Some (v x) | None \<Rightarrow> map_of m i)"
proof (induction xs arbitrary: m)
  case (Cons x xs)
  have "find P (ys @ [x]) = (case find P ys of None \<Rightarrow> if P x then Some x else None | y \<Rightarrow> y)" for P ys
    by (induction ys) auto
  then show ?case by (simp add: Cons.IH split: option.splits)
qed simp

lemma find_found: "find P xs = Some x \<Longrightarrow> x \<in> set xs \<and> P x"
  by (induction xs) (auto split: if_splits)

lemma recorded_by_name:
  assumes "distinct (map ot_name (oe_tests evidence))" "test \<in> set (oe_tests evidence)"
  shows "map_of (recorded_tests evidence) (ot_name test) = Some test"
proof -
  have "find (\<lambda>t. ot_name t = ot_name test) (rev (oe_tests evidence)) \<noteq> None"
    using assms(2) by (auto simp: find_None_iff)
  then obtain found where found: "find (\<lambda>t. ot_name t = ot_name test) (rev (oe_tests evidence)) = Some found" by blast
  then have "found \<in> set (oe_tests evidence)" "ot_name found = ot_name test" using find_found by fastforce+
  then have "found = test" using assms by (auto simp: distinct_map dest: inj_onD)
  then show ?thesis using found by (simp add: recorded_tests_def map_of_fold_insert)
qed

subsection \<open>A snapshot's hits\<close>

lemma snapshot_hits:
  "set (rs_hits (owned_snapshot environment evidence manifest by_probe phase))
     = {i. \<exists>probe \<in> fst ` set (ot_probes evidence). map_of by_probe probe = Some i}"
proof -
  have "set (List.map_filter (\<lambda>(probe, _). map_of by_probe probe) (ot_probes evidence))
      = {i. \<exists>probe \<in> fst ` set (ot_probes evidence). map_of by_probe probe = Some i}"
    by (force simp: List.map_filter_def)
  moreover have "finite (set (List.map_filter (\<lambda>(probe, _). map_of by_probe probe) (ot_probes evidence)))" by simp
  ultimately show ?thesis by (simp add: owned_snapshot_def Let_def split_beta)
qed

lemma snapshot_hit:
  "probe \<in> fst ` set (ot_probes evidence) \<Longrightarrow> map_of by_probe probe = Some i \<Longrightarrow>
     i \<in> set (rs_hits (owned_snapshot environment evidence manifest by_probe phase))"
  unfolding snapshot_hits by blast

lemma result_snapshots:
  "rt_runtime (outcome_result sha256 inputs default_runner outcome) = [owned_snapshot (oi_environment inputs)
     (outcome_evidence (oi_evidence inputs) outcome) (oi_manifest inputs) (obligations (oi_probes inputs))
     (test_phase (outcome_test_id outcome))]"
  "\<exists>background. ot_probes background = unclaimed \<and>
     rt_runtime (owned_background_result sha256 inputs default_runner unclaimed) = [owned_snapshot (oi_environment inputs)
       background (oi_manifest inputs) (obligations (oi_probes inputs)) (test_phase (background_test_id inputs))]"
proof -
  show "rt_runtime (outcome_result sha256 inputs default_runner outcome) = [owned_snapshot (oi_environment inputs)
     (outcome_evidence (oi_evidence inputs) outcome) (oi_manifest inputs) (obligations (oi_probes inputs))
     (test_phase (outcome_test_id outcome))]"
    by (simp add: outcome_result_def Let_def)
  let ?background = "\<lparr>ot_name = ''background'', ot_status = ''unknown'', ot_runner = [], ot_tags = [],
            ot_unattributed = False, ot_probes = unclaimed, ot_vectors = []\<rparr>"
  show "\<exists>background. ot_probes background = unclaimed \<and>
     rt_runtime (owned_background_result sha256 inputs default_runner unclaimed) = [owned_snapshot (oi_environment inputs)
       background (oi_manifest inputs) (obligations (oi_probes inputs)) (test_phase (background_test_id inputs))]"
    by (rule exI[of _ ?background]) (simp add: owned_background_result_def Let_def)
qed

lemma build_results:
  assumes "build_frontend_run j sha256 inputs = Inr run"
  obtains default_runner where "rq_raw_results (ow_request run) = results_of sha256 inputs default_runner"
proof -
  have "rq_raw_results (ow_request run) = results_of sha256 inputs default_runner"
    if "expect (case fd_runners (oi_declaration inputs) of [] \<Rightarrow> None | runner # _ \<Rightarrow> Some (fr_runner runner)) = Inr default_runner"
    for default_runner using assms that by (auto simp: build_frontend_run_def Let_def rbind_Inr_iff results_of_def)
  then show thesis using assms that unfolding build_frontend_run_def Let_def rbind_Inr_iff by blast
qed

subsection \<open>Claimed or not, a probe is kept\<close>

lemma keys_fold_insert:
  "fst ` set (fold (\<lambda>x. tree_insert (k x) (v x)) xs m) = k ` set xs \<union> fst ` set m"
  by (induction xs arbitrary: m) auto

lemma unclaimed_keys:
  assumes "index < length (oe_global evidence)" "oe_global evidence ! index \<noteq> 0"
    and "of_nat index \<notin> claimed_probes evidence"
  shows "of_nat index \<in> fst ` set (unclaimed_probes evidence)"
proof -
  have "(index, oe_global evidence ! index) \<in> set (filter (\<lambda>(index, observed). observed \<noteq> 0
      \<and> of_nat index \<notin> claimed_probes evidence) (enumerate 0 (oe_global evidence)))"
    using assms by (auto simp: in_set_enumerate_eq)
  then have "of_nat index \<in> (\<lambda>p. of_nat (fst p)) ` set (filter (\<lambda>(index, observed). observed \<noteq> 0
      \<and> of_nat index \<notin> claimed_probes evidence) (enumerate 0 (oe_global evidence)))" by force
  then show ?thesis by (simp add: unclaimed_probes_def keys_fold_insert case_prod_unfold)
qed

definition hit_in :: "string \<Rightarrow> raw_test_result \<Rightarrow> bool" where
  "hit_in obligation raw \<longleftrightarrow> list_ex (\<lambda>snapshot. obligation \<in> set (rs_hits snapshot)) (rt_runtime raw)"

text \<open>Every test the evidence holds has its outcome, credited exactly when the runtime credited it.\<close>

definition outcomes_cover :: "owned_evidence \<Rightarrow> owned_test_outcome list \<Rightarrow> bool" where
  "outcomes_cover evidence outcomes \<longleftrightarrow>
     list_all (\<lambda>test. list_ex (\<lambda>outcome. oo_name outcome = ot_name test \<and> oo_attributed outcome = (\<not> ot_unattributed test))
       outcomes) (oe_tests evidence)"

lemma reached_is_kept:
  assumes built: "build_frontend_run j sha256 inputs = Inr run"
    and names: "distinct (map ot_name (oe_tests (oi_evidence inputs)))"
    and cover: "outcomes_cover (oi_evidence inputs) (oi_outcomes inputs)"
    and reached: "index < length (oe_global (oi_evidence inputs))" "oe_global (oi_evidence inputs) ! index \<noteq> 0"
    and answers: "map_of (obligations (oi_probes inputs)) (of_nat index) = Some obligation"
  shows "list_ex (hit_in obligation) (rq_raw_results (ow_request run))"
proof -
  obtain default_runner where raws: "rq_raw_results (ow_request run) = results_of sha256 inputs default_runner"
    using build_results[OF built] .
  show ?thesis
  proof (cases "of_nat index \<in> claimed_probes (oi_evidence inputs)")
    case True
    then obtain test where test: "test \<in> set (oe_tests (oi_evidence inputs))" "\<not> ot_unattributed test"
      "of_nat index \<in> fst ` set (ot_probes test)" by (auto simp: claimed_probes_def)
    then obtain outcome where outcome: "outcome \<in> set (oi_outcomes inputs)" "oo_name outcome = ot_name test"
      "oo_attributed outcome" using cover by (auto simp: outcomes_cover_def list_all_iff list_ex_iff)
    then have "outcome_evidence (oi_evidence inputs) outcome = test"
      using recorded_by_name[OF names test(1)] by (simp add: outcome_evidence_def)
    then have "hit_in obligation (outcome_result sha256 inputs default_runner outcome)"
      using snapshot_hit[OF test(3) answers] by (simp add: hit_in_def result_snapshots(1))
    then show ?thesis using outcome(1) by (auto simp: raws results_of_def list_ex_iff)
  next
    case False
    let ?unclaimed = "unclaimed_probes (oi_evidence inputs)"
    have key: "of_nat index \<in> fst ` set ?unclaimed" by (rule unclaimed_keys[OF reached False])
    obtain background where background: "ot_probes background = ?unclaimed"
      "rt_runtime (owned_background_result sha256 inputs default_runner ?unclaimed) = [owned_snapshot (oi_environment inputs)
         background (oi_manifest inputs) (obligations (oi_probes inputs)) (test_phase (background_test_id inputs))]"
      using result_snapshots(2) by metis
    then have "hit_in obligation (owned_background_result sha256 inputs default_runner ?unclaimed)"
      using snapshot_hit[OF key[folded background(1)] answers] by (simp add: hit_in_def)
    moreover have "?unclaimed \<noteq> []" using key by auto
    ultimately show ?thesis by (simp add: raws results_of_def)
  qed
qed

text \<open>C27: Nothing a run reached is lost between the runtime's evidence and the report request: each probe
  with a count becomes a hit of its obligation in the record of a test that claimed it, or in the run's
  own record when no test did, where the tests of the run have names of their own.\<close>

theorem reached_probes_are_recorded:
  assumes "build_frontend_run j sha256 inputs = Inr run"
    and "distinct (map ot_name (oe_tests (oi_evidence inputs)))"
    and "outcomes_cover (oi_evidence inputs) (oi_outcomes inputs)"
    and "index < length (oe_global (oi_evidence inputs))" and "oe_global (oi_evidence inputs) ! index \<noteq> 0"
    and "map_of (obligations (oi_probes inputs)) (of_nat index) = Some obligation"
  shows "list_ex (hit_in obligation) (rq_raw_results (ow_request run))"
  using assms by (rule reached_is_kept)

subsection \<open>A small run\<close>

definition small_test :: "string \<Rightarrow> u32 \<Rightarrow> owned_test_evidence" where
  "small_test name probe = \<lparr>ot_name = name, ot_status = ''passed'', ot_runner = [], ot_tags = [], ot_unattributed = False,
     ot_probes = [(probe, 1)], ot_vectors = []\<rparr>"

definition small_part :: "owned_test_evidence \<Rightarrow> u32 list \<Rightarrow> owned_evidence" where
  "small_part test global = \<lparr>oe_global = global, oe_tests = [test], oe_widths = [], oe_decision_vectors = []\<rparr>"

definition small_outcome :: "string \<Rightarrow> string \<Rightarrow> owned_test_outcome" where
  "small_outcome package name = \<lparr>oo_name = name, oo_package = package, oo_file = None, oo_status = ''passed'',
     oo_runner = [], oo_attributed = True\<rparr>"

text \<open>Two packages with a test each, the first reaching probe 0 and the second probe 1.\<close>

definition small_inputs :: "string \<Rightarrow> string \<Rightarrow> json_value owned_run_inputs" where
  "small_inputs one other = \<lparr>oi_declaration = go_declaration, oi_environment = ''go'',
     oi_manifest = \<lparr>cm_decisions = [], cm_points = [], cm_branches = [], cm_limitations = [], cm_unmeasured = [],
       cm_scope = None, cm_assertion_sites = []\<rparr>,
     oi_probes = [(0, \<lparr>gp_id = 0, gp_target = StatementProbe ''s0'', gp_at = 0\<rparr>),
       (1, \<lparr>gp_id = 1, gp_target = StatementProbe ''s1'', gp_at = 0\<rparr>)],
     oi_evidence = (case merge_evidence [small_part (small_test one 0) [1, 0], small_part (small_test other 1) [0, 1]] of
       Inr merged \<Rightarrow> merged | Inl panic \<Rightarrow> no_evidence),
     oi_outcomes = [small_outcome ''a'' one, small_outcome ''b'' other], oi_run_id = ''r'', oi_generated_at = [],
     oi_test_exit_code = 0, oi_coverage_model = go_coverage_model\<rparr>"

lemma small_evidence:
  "oi_evidence (small_inputs one other) = \<lparr>oe_global = [1, 1], oe_tests = [small_test one 0, small_test other 1],
     oe_widths = [], oe_decision_vectors = []\<rparr>"
  by (simp add: small_inputs_def merge_evidence_def merge_part_def no_evidence_def small_part_def grow_def)

lemma small_unclaimed: "unclaimed_probes (oi_evidence (small_inputs one other)) = []"
  by (simp add: small_evidence unclaimed_probes_def claimed_probes_def small_test_def)

lemma small_obligations: "obligations (oi_probes (small_inputs one other)) = [(0, ''s0''), (1, ''s1'')]"
  by (simp add: small_inputs_def obligations_def)

lemma small_built:
  "\<exists>run. build_frontend_run sample_json id (small_inputs one other) = Inr run
     \<and> rq_raw_results (ow_request run) = map (outcome_result id (small_inputs one other) ''go-test'')
         [small_outcome ''a'' one, small_outcome ''b'' other]"
proof -
  have "oi_declaration (small_inputs one other) = go_declaration"
    "oi_outcomes (small_inputs one other) = [small_outcome ''a'' one, small_outcome ''b'' other]"
    "cm_limitations (oi_manifest (small_inputs one other)) = []"
    by (simp_all add: small_inputs_def)
  then show ?thesis
    by (simp add: build_frontend_run_def Let_def go_declaration_def expect_def ok_or_def small_unclaimed)
qed

theorem reached_probes_are_recorded_witness:
  "\<exists>run. build_frontend_run sample_json id (small_inputs ''TestA'' ''TestB'') = Inr run
     \<and> list_ex (hit_in ''s0'') (rq_raw_results (ow_request run))"
proof -
  let ?in = "small_inputs ''TestA'' ''TestB''"
  obtain run where run: "build_frontend_run sample_json id ?in = Inr run" using small_built by blast
  have "list_ex (hit_in ''s0'') (rq_raw_results (ow_request run))"
  proof (rule reached_probes_are_recorded[OF run, of 0])
    show "distinct (map ot_name (oe_tests (oi_evidence ?in)))" by (simp add: small_evidence small_test_def)
    show "outcomes_cover (oi_evidence ?in) (oi_outcomes ?in)"
      unfolding outcomes_cover_def small_evidence by (simp add: small_test_def small_inputs_def small_outcome_def)
    show "0 < length (oe_global (oi_evidence ?in))" "oe_global (oi_evidence ?in) ! 0 \<noteq> 0"
      "map_of (obligations (oi_probes ?in)) (of_nat 0) = Some ''s0''"
      by (simp_all add: small_evidence small_obligations)
  qed
  then show ?thesis using run by blast
qed

text \<open>C28: Two packages whose tests share a name, as Go's may: the run is built, and nothing in it says that the
  first package's test reached anything.\<close>

theorem same_name_loses_evidence:
  "\<exists>run. build_frontend_run sample_json id (small_inputs ''TestX'' ''TestX'') = Inr run
     \<and> oe_global (oi_evidence (small_inputs ''TestX'' ''TestX'')) ! 0 = 1
     \<and> map_of (obligations (oi_probes (small_inputs ''TestX'' ''TestX''))) 0 = Some ''s0''
     \<and> \<not> list_ex (hit_in ''s0'') (rq_raw_results (ow_request run))"
proof -
  let ?in = "small_inputs ''TestX'' ''TestX''"
  obtain run where run: "build_frontend_run sample_json id ?in = Inr run"
    "rq_raw_results (ow_request run) = map (outcome_result id ?in ''go-test'')
         [small_outcome ''a'' ''TestX'', small_outcome ''b'' ''TestX'']"
    using small_built by blast
  have "outcome_evidence (oi_evidence ?in) (small_outcome package ''TestX'') = small_test ''TestX'' 1" for package
    by (simp add: small_evidence outcome_evidence_def recorded_tests_def small_outcome_def small_test_def)
  then have "\<not> hit_in ''s0'' (outcome_result id ?in ''go-test'' (small_outcome package ''TestX''))" for package
    by (auto simp: hit_in_def result_snapshots(1) snapshot_hits small_test_def small_obligations)
  then show ?thesis using run by (simp add: small_evidence small_obligations)
qed

subsection \<open>The other theorems, at that run\<close>

lemma plain_present: "plain_text s \<Longrightarrow> present s"
  using trim_plain[of s] printable_no_control[of s] by (auto simp: present_def plain_text_def)

theorem merge_evidence_union_witness:
  "\<exists>merged. merge_evidence [small_part (small_test ''TestA'' 0) [1], small_part (small_test ''TestB'' 1) [0, 1]] = Inr merged
     \<and> oe_tests merged = [small_test ''TestA'' 0, small_test ''TestB'' 1]"
  using merge_evidence_union[of "[small_part (small_test ''TestA'' 0) [1], small_part (small_test ''TestB'' 1) [0, 1]]" 0 0 0]
  by (auto simp: small_part_def tables_match_def)

theorem transport_whole_or_refused_witness:
  "read_owned_evidence (write_evidence (small_part (small_test ''TestA'' 0) [1])) = Inr (small_part (small_test ''TestA'' 0) [1])"
proof -
  have "evidence_ok (small_part (small_test ''TestA'' 0) [1])"
    by (simp add: evidence_ok_def small_part_def small_test_def test_ok_def text_ok_def tree_map_def code_def)
  moreover have "length (write_evidence (small_part (small_test ''TestA'' 0) [1])) < 2 ^ 64"
    by (simp add: write_evidence_def small_part_def small_test_def write_test_def write_text_def write_list_def le_bytes_def)
  ultimately show ?thesis using transport_whole_or_refused by blast
qed

theorem built_run_validates_witness:
  "\<exists>run. build_frontend_run sample_json id (small_inputs ''TestA'' ''TestB'') = Inr run
     \<and> validate_frontend_report_request (\<lambda>l. js_str sample_json l ''id'') False (ow_declaration run) (ow_request run) = Inr ()"
proof (rule built_run_validates)
  have "plain_text ''a''" "plain_text ''b''" by (simp_all add: plain_text_def)
  then have "present ''a''" "present ''b''" by (auto intro: plain_present)
  moreover have "\<not> has_control ''TestA''" "\<not> has_control ''TestB''" by (rule printable_no_control, simp)+
  ultimately show "owned_inputs_ok (\<lambda>l. js_str sample_json l ''id'') (small_inputs ''TestA'' ''TestB'')"
    by (simp add: owned_inputs_ok_def small_inputs_def outcome_ok_def small_outcome_def background_test_id_def
        outcome_test_id_def go_declaration_def del: has_control.simps)
qed

end
