(* ===== verification/MinimumSet.thy ===== *)
theory MinimumSet
  imports CoverageView
begin

section \<open>The smallest set of tests that keeps a run's coverage (coverage\_query.rs, minimum\_test\_set)\<close>

text \<open>
  What \<open>runs <run> minimize\<close> computes: the obligations of a view, each with the sets of tests that
  satisfy it, and a search over sets of tests that cuts off what cannot beat the best set so far. A
  \<open>BTreeSet<String>\<close> is a set of strings, its order the one of \<open>sorted_list_of_set\<close>.
\<close>

subsection \<open>Metrics\<close>

datatype minimize_metric = MinimizeAll | MinimizeLines | MinimizeStatements | MinimizeFunctions | MinimizeBranches | MinimizeMcdc

datatype obligation_metric = ObligationLines | ObligationStatements | ObligationFunctions | ObligationBranches | ObligationMcdc

fun metric_public :: "obligation_metric \<Rightarrow> minimize_metric" where
  "metric_public ObligationLines = MinimizeLines"
| "metric_public ObligationStatements = MinimizeStatements"
| "metric_public ObligationFunctions = MinimizeFunctions"
| "metric_public ObligationBranches = MinimizeBranches"
| "metric_public ObligationMcdc = MinimizeMcdc"

definition metric_selected :: "obligation_metric \<Rightarrow> minimize_metric \<Rightarrow> bool" where
  "metric_selected candidate metric \<longleftrightarrow> metric = MinimizeAll
     \<or> (candidate, metric) \<in> {(ObligationLines, MinimizeLines), (ObligationStatements, MinimizeStatements),
         (ObligationFunctions, MinimizeFunctions), (ObligationBranches, MinimizeBranches), (ObligationMcdc, MinimizeMcdc)}"

text \<open>An \<open>f64\<close> asked for: a finite one by its value, or an infinity or no number.\<close>

datatype f64_value = FiniteNumber rat | NotFinite

subsection \<open>Obligations\<close>

record obligation =
  ob_id :: string
  ob_metric :: obligation_metric
  ob_options :: "string list list"

record obligation_model =
  om_obligations :: "obligation list"
  om_setup_by_file :: "(string \<times> string list) list"
  om_tests_by_file :: "(string \<times> string list) list"
  om_background :: "string list"

definition setup_selected :: "obligation_model \<Rightarrow> string set \<Rightarrow> string \<Rightarrow> bool" where
  "setup_selected model selected source_file =
     (case map_of (om_tests_by_file model) source_file of
        Some tests \<Rightarrow> list_ex (\<lambda>i. i \<in> selected) tests
      | None \<Rightarrow> False)"

definition expand :: "obligation_model \<Rightarrow> string set \<Rightarrow> string set" where
  "expand model selected =
     fold (\<lambda>(source_file, setup_ids) expanded.
         if setup_selected model selected source_file then expanded \<union> set setup_ids else expanded)
       (om_setup_by_file model) (selected \<union> set (om_background model))"

text \<open>\<open>sort\<close>, \<open>dedup\<close>, and one option per joined text.\<close>

definition insert_option :: "string list \<Rightarrow> (string \<times> string list) list \<Rightarrow> (string \<times> string list) list" where
  "insert_option option unique =
     (let option = remdups_adj (sort option) in tree_entry (join [CHR 0x00] option) option (\<lambda>kept. kept) unique)"

definition deduplicate_options :: "string list list \<Rightarrow> string list list" where
  "deduplicate_options options = map snd (fold insert_option options [])"

definition evidence_choice ::
  "(string \<Rightarrow> test_coverage_result option) \<Rightarrow> string set \<Rightarrow> (string \<times> string list) list \<Rightarrow> string \<Rightarrow> string list list" where
  "evidence_choice tests candidate_ids tests_by_file i =
     (case tests i of
        None \<Rightarrow> []
      | Some test \<Rightarrow>
          if tc_role test = ''setup''
          then (case tc_file test of
              None \<Rightarrow> []
            | Some source_file \<Rightarrow> (case map_of tests_by_file source_file of
                None \<Rightarrow> []
              | Some of_file \<Rightarrow> map (\<lambda>candidate. [candidate]) of_file))
          else if i \<in> candidate_ids then [[i]] else [])"

definition evidence_choices ::
  "(string \<Rightarrow> test_coverage_result option) \<Rightarrow> string set \<Rightarrow> (string \<times> string list) list \<Rightarrow> string list \<Rightarrow> string list list" where
  "evidence_choices tests candidate_ids tests_by_file ids =
     deduplicate_options (concat (map (evidence_choice tests candidate_ids tests_by_file) ids))"

definition tests_of_role :: "string \<Rightarrow> test_coverage_result list \<Rightarrow> (string \<times> string list) list" where
  "tests_of_role role tests =
     fold (\<lambda>test by_file. if tc_role test = role
         then (case tc_file test of
             Some source_file \<Rightarrow> tree_entry source_file [] (\<lambda>ids. ids @ [tc_id test]) by_file
           | None \<Rightarrow> by_file)
         else by_file) tests []"

definition line_obligation :: "(string list \<Rightarrow> string list list) \<Rightarrow> source_line \<times> line_result \<Rightarrow> obligation" where
  "line_obligation choices = (\<lambda>((source_file, line), result).
     \<lparr>ob_id = ''line:'' @ source_file @ '':'' @ decimal line, ob_metric = ObligationLines,
       ob_options = choices (lr_tests result)\<rparr>)"

definition unique_lines :: "line_result list \<Rightarrow> (source_line \<times> line_result) list" where
  "unique_lines lines = fold (\<lambda>line. tree_insert (lr_file line, lr_line line) line) lines []"

definition point_obligation :: "(string list \<Rightarrow> string list list) \<Rightarrow> point_result \<Rightarrow> obligation" where
  "point_obligation choices point =
     (let (kind, metric) = (case pm_kind (pr_meta point) of
          Statement \<Rightarrow> (''statement'', ObligationStatements) | Function \<Rightarrow> (''function'', ObligationFunctions))
      in \<lparr>ob_id = kind @ '':'' @ pm_id (pr_meta point), ob_metric = metric, ob_options = choices (pr_tests point)\<rparr>)"

definition alternative_obligations :: "(string list \<Rightarrow> string list list) \<Rightarrow> branch_result \<Rightarrow> obligation list" where
  "alternative_obligations choices branch =
     map (\<lambda>alternative. \<lparr>ob_id = ''branch:'' @ bm_id (br_meta branch) @ '':'' @ ar_id alternative,
         ob_metric = ObligationBranches, ob_options = choices (ar_tests alternative)\<rparr>) (br_alternatives branch)"

definition pair_options ::
  "(string list \<Rightarrow> string list list) \<Rightarrow> nat \<Rightarrow> vector_observation \<Rightarrow> vector_observation \<Rightarrow> string list list" where
  "pair_options choices condition first second =
     (if \<not> is_independence_pair (vo_vector first) (vo_vector second) condition then []
      else let seconds = choices (vo_tests second)
        in concat (map (\<lambda>first_choice. map (\<lambda>second_choice. first_choice @ second_choice) seconds)
          (choices (vo_tests first))))"

definition condition_obligation ::
  "(string list \<Rightarrow> string list list) \<Rightarrow> decision_result \<Rightarrow> nat \<Rightarrow> obligation" where
  "condition_obligation choices decision condition =
     (let observations = dr_vector_observations decision;
          options = concat (map (\<lambda>left. concat (map (\<lambda>right.
              pair_options choices condition (observations ! left) (observations ! right))
            [left + 1..<length observations])) [0..<length observations])
      in \<lparr>ob_id = ''mcdc:'' @ dm_id (dr_meta decision) @ '':'' @ decimal condition, ob_metric = ObligationMcdc,
          ob_options = deduplicate_options options\<rparr>)"

definition condition_obligations :: "(string list \<Rightarrow> string list list) \<Rightarrow> decision_result \<Rightarrow> obligation list" where
  "condition_obligations choices decision =
     map (condition_obligation choices decision) [0..<length (dm_conditions (dr_meta decision))]"

definition build_obligations :: "'v coverage_view \<Rightarrow> string set \<Rightarrow> obligation_model" where
  "build_obligations view candidate_ids =
     (let tests = map_of (rev (map (\<lambda>test. (tc_id test, test)) (cv_tests view)));
          tests_by_file = tests_of_role ''test'' (cv_tests view);
          choices = evidence_choices tests candidate_ids tests_by_file
      in \<lparr>om_obligations = map (line_obligation choices) (unique_lines (cv_lines view))
            @ map (point_obligation choices) (cv_points view)
            @ concat (map (alternative_obligations choices) (cv_branches view))
            @ concat (map (condition_obligations choices) (cv_decisions view)),
          om_setup_by_file = tests_of_role ''setup'' (cv_tests view),
          om_tests_by_file = tests_by_file,
          om_background = map tc_id (filter (\<lambda>test. tc_role test = ''background'') (cv_tests view))\<rparr>)"

fun metric_percentage :: "obligation_metric \<Rightarrow> coverage_summary \<Rightarrow> rat" where
  "metric_percentage ObligationLines summary = cc_percentage (cs_lines summary)"
| "metric_percentage ObligationStatements summary = cc_percentage (cs_statements summary)"
| "metric_percentage ObligationFunctions summary = cc_percentage (cs_functions summary)"
| "metric_percentage ObligationBranches summary = cc_percentage (cs_branches summary)"
| "metric_percentage ObligationMcdc summary = cs_condition_coverage_pct summary"

definition obligation_satisfied :: "obligation \<Rightarrow> string set \<Rightarrow> bool" where
  "obligation_satisfied obligation selected \<longleftrightarrow>
     list_ex (list_all (\<lambda>test. test \<in> selected)) (ob_options obligation)"

subsection \<open>The search\<close>

datatype query_error =
    InvalidTarget f64_value
  | UnattributedEvidence
  | TargetUnreachable minimize_metric rat rat
  | ComplexityLimit nat nat nat nat "rat option" minimize_metric

text \<open>What a search reads, and what it keeps as it goes.\<close>

record search_problem =
  sp_obligations :: "obligation list"
  sp_skip_limits :: "obligation_metric \<Rightarrow> nat"
  sp_max_states :: nat
  sp_candidate_tests :: nat
  sp_target :: "rat option"
  sp_metric :: minimize_metric

record search_state =
  se_best :: "string set"
  se_explored_states :: nat
  se_seen :: "string set"

definition state_key :: "string set \<Rightarrow> string set \<Rightarrow> string" where
  "state_key selected skipped =
     join '','' (sorted_list_of_set selected) @ ''|'' @ join '','' (sorted_list_of_set skipped)"

definition feasible_options :: "string set \<Rightarrow> obligation \<Rightarrow> nat" where
  "feasible_options selected obligation =
     length (filter (list_ex (\<lambda>test. test \<notin> selected)) (ob_options obligation))"

definition unmet_obligations :: "search_problem \<Rightarrow> string set \<Rightarrow> string set \<Rightarrow> obligation list" where
  "unmet_obligations problem selected skipped =
     sort_key (\<lambda>obligation. (feasible_options selected obligation, ob_id obligation))
       (filter (\<lambda>obligation. ob_id obligation \<notin> skipped \<and> \<not> obligation_satisfied obligation selected)
         (sp_obligations problem))"

definition additions_of :: "obligation \<Rightarrow> string set \<Rightarrow> string list list" where
  "additions_of obligation selected =
     sort_key (\<lambda>addition. (length addition, join [CHR 0x00] addition))
       (deduplicate_options (filter (\<lambda>addition. addition \<noteq> [])
         (map (filter (\<lambda>test. test \<notin> selected)) (ob_options obligation))))"

text \<open>The tests some option names: a search adds no other.\<close>

definition named_tests :: "search_problem \<Rightarrow> string set" where
  "named_tests problem = \<Union> (set ` (\<Union>obligation \<in> set (sp_obligations problem). set (ob_options obligation)))"

lemma try_fold_cong [fundef_cong]:
  "xs = ys \<Longrightarrow> s = t \<Longrightarrow> (\<And>x u. x \<in> set ys \<Longrightarrow> f x u = g x u) \<Longrightarrow> try_fold f xs s = try_fold g ys t"
proof (induction xs arbitrary: ys s t)
  case (Cons x xs)
  have "try_fold f xs u = try_fold g xs u" for u using Cons.IH[of xs u u] Cons.prems by auto
  then show ?case using Cons.prems by (cases "f x s") auto
qed simp

function (sequential) visit ::
  "search_problem \<Rightarrow> string set \<Rightarrow> string set \<Rightarrow> (obligation_metric \<Rightarrow> nat) \<Rightarrow> search_state \<Rightarrow> query_error + search_state" where
  "visit problem selected skipped skipped_by_metric st =
     (let st = st\<lparr>se_explored_states := se_explored_states st + 1\<rparr> in
      if sp_max_states problem < se_explored_states st
      then Inl (ComplexityLimit (sp_candidate_tests problem) (length (sp_obligations problem)) (se_explored_states st)
        (sp_max_states problem) (sp_target problem) (sp_metric problem))
      else if card (se_best st) \<le> card selected then Inr st
      else let key = state_key selected skipped in
      if key \<in> se_seen st then Inr st
      else let st = st\<lparr>se_seen := insert key (se_seen st)\<rparr> in
      (case unmet_obligations problem selected skipped of
         [] \<Rightarrow> Inr (st\<lparr>se_best := selected\<rparr>)
       | obligation # _ \<Rightarrow>
           rbind (try_fold (\<lambda>addition st.
               if card (se_best st) \<le> card selected + length addition then Inr st
               else visit problem (selected \<union> set addition) skipped skipped_by_metric st)
             (additions_of obligation selected) st) (\<lambda>st.
           let skipped_count = skipped_by_metric (ob_metric obligation) in
           if skipped_count < sp_skip_limits problem (ob_metric obligation)
           then visit problem selected (insert (ob_id obligation) skipped)
             (skipped_by_metric(ob_metric obligation := skipped_count + 1)) st
           else Inr st)))"
  by pat_completeness auto

subsection \<open>It terminates\<close>

abbreviation canonical :: "string list \<Rightarrow> string list" where
  "canonical option \<equiv> remdups_adj (sort option)"

abbreviation option_key :: "string list \<Rightarrow> string" where
  "option_key \<equiv> join [CHR 0x00]"

lemma deduplicated_map:
  "tree_map (fold insert_option options [])
   \<and> (\<forall>k v. map_of (fold insert_option options []) k = Some v \<longrightarrow> k = option_key v \<and> v \<in> canonical ` set options)
   \<and> (\<forall>option \<in> set options. map_of (fold insert_option options []) (option_key (canonical option)) \<noteq> None)"
proof (induction options rule: rev_induct)
  case (snoc option options)
  define m where "m = fold insert_option options []"
  define key where "key = option_key (canonical option)"
  define kept where "kept = (case map_of m key of Some v \<Rightarrow> v | None \<Rightarrow> canonical option)"
  have IH: "tree_map m" "\<And>k v. map_of m k = Some v \<Longrightarrow> k = option_key v \<and> v \<in> canonical ` set options"
    "\<And>option. option \<in> set options \<Longrightarrow> map_of m (option_key (canonical option)) \<noteq> None"
    using snoc unfolding m_def by blast+
  have step: "fold insert_option (options @ [option]) [] = tree_insert key kept m"
    by (simp add: insert_option_def Let_def tree_entry_def m_def key_def kept_def)
  have kept: "key = option_key kept" "kept \<in> canonical ` set (options @ [option])"
    using IH(2)[of key] by (auto simp: kept_def key_def split: option.splits)
  have "k = option_key v \<and> v \<in> canonical ` set (options @ [option])" if "map_of (tree_insert key kept m) k = Some v" for k v
  proof (cases "k = key")
    case True
    then show ?thesis using that kept by simp
  next
    case False
    then show ?thesis using that IH(2)[of k v] by auto
  qed
  moreover have "map_of (tree_insert key kept m) (option_key (canonical o')) \<noteq> None" if "o' \<in> set (options @ [option])" for o'
    using that IH(3)[of o'] by (auto simp: key_def)
  ultimately show ?case unfolding step using tree_map_insert[OF IH(1)] by blast
qed simp

lemma set_deduplicate:
  "v \<in> set (deduplicate_options options) \<longleftrightarrow> map_of (fold insert_option options []) (option_key v) = Some v"
proof -
  let ?m = "fold insert_option options []"
  have tree: "tree_map ?m" and keys: "\<And>k v. map_of ?m k = Some v \<Longrightarrow> k = option_key v"
    using deduplicated_map by blast+
  have "v \<in> set (deduplicate_options options) \<longleftrightarrow> (\<exists>k. (k, v) \<in> set ?m)"
    by (simp add: deduplicate_options_def image_iff Bex_def split_paired_Ex)
  also have "\<dots> \<longleftrightarrow> (\<exists>k. map_of ?m k = Some v)" using tree_map_in[OF tree] by blast
  also have "\<dots> \<longleftrightarrow> map_of ?m (option_key v) = Some v" using keys by blast
  finally show ?thesis .
qed

lemma deduplicated_options: "v \<in> set (deduplicate_options options) \<Longrightarrow> v \<in> canonical ` set options"
  using deduplicated_map[of options] unfolding set_deduplicate by blast

lemma deduplicate_complete:
  assumes "inj_on option_key (canonical ` set options)" "option \<in> set options"
  shows "canonical option \<in> set (deduplicate_options options)"
proof -
  obtain v where v: "map_of (fold insert_option options []) (option_key (canonical option)) = Some v"
    using deduplicated_map[of options] assms(2) by blast
  then have "option_key (canonical option) = option_key v \<and> v \<in> canonical ` set options"
    using deduplicated_map[of options] by blast
  then have "v = canonical option" using assms by (auto dest: inj_onD)
  then show ?thesis using v by (simp add: set_deduplicate)
qed

lemma distinct_canonical: "distinct (canonical option)"
proof -
  have "sorted_wrt (<) (canonical option)" by (rule sorted_remdups_adj_strict) simp
  then show ?thesis by (simp add: strict_sorted_iff)
qed

lemma addition_of_option:
  assumes "addition \<in> set (additions_of obligation selected)"
  shows "\<exists>option \<in> set (ob_options obligation). set addition = set option - selected \<and> addition \<noteq> [] \<and> distinct addition"
proof -
  obtain left where left: "left \<in> set (filter (\<lambda>addition. addition \<noteq> [])
      (map (filter (\<lambda>test. test \<notin> selected)) (ob_options obligation)))" "addition = canonical left"
    using assms deduplicated_options unfolding additions_of_def set_sort by blast
  then obtain option where "option \<in> set (ob_options obligation)" "left = filter (\<lambda>test. test \<notin> selected) option" "left \<noteq> []"
    by auto
  moreover have "distinct addition" unfolding left(2) by (rule distinct_canonical)
  moreover have "set addition = set left" unfolding left(2) by simp
  ultimately have "set addition = set option - selected \<and> addition \<noteq> [] \<and> distinct addition" by auto
  then show ?thesis using \<open>option \<in> set (ob_options obligation)\<close> by blast
qed

lemma finite_named_tests [simp]: "finite (named_tests problem)"
  by (auto simp: named_tests_def)

lemma unmet_obligation:
  "unmet_obligations problem selected skipped = obligation # rest \<Longrightarrow>
     obligation \<in> set (sp_obligations problem) \<and> ob_id obligation \<notin> skipped
     \<and> \<not> obligation_satisfied obligation selected"
proof -
  assume "unmet_obligations problem selected skipped = obligation # rest"
  then have "obligation \<in> set (unmet_obligations problem selected skipped)" by simp
  then show ?thesis by (simp add: unmet_obligations_def)
qed

definition states_left :: "search_problem \<Rightarrow> string set \<Rightarrow> string set \<Rightarrow> nat" where
  "states_left problem selected skipped =
     card (named_tests problem - selected) + card (ob_id ` set (sp_obligations problem) - skipped)"

lemma selecting_leaves_less:
  assumes "obligation \<in> set (sp_obligations problem)" "addition \<in> set (additions_of obligation selected)"
  shows "states_left problem (selected \<union> set addition) skipped < states_left problem selected skipped"
proof -
  obtain option where option: "option \<in> set (ob_options obligation)" "set addition = set option - selected" "addition \<noteq> []"
    using addition_of_option[OF assms(2)] by blast
  then obtain test where "test \<in> set option" "test \<notin> selected" "test \<in> set addition" by (cases addition) auto
  moreover have "set option \<subseteq> named_tests problem" using assms(1) option(1) by (auto simp: named_tests_def)
  ultimately have "named_tests problem - (selected \<union> set addition) \<subset> named_tests problem - selected" by auto
  then show ?thesis unfolding states_left_def by (simp add: psubset_card_mono)
qed

lemma skipping_leaves_less:
  assumes "obligation \<in> set (sp_obligations problem)" "ob_id obligation \<notin> skipped"
  shows "states_left problem selected (insert (ob_id obligation) skipped) < states_left problem selected skipped"
proof -
  have "ob_id ` set (sp_obligations problem) - insert (ob_id obligation) skipped
      \<subset> ob_id ` set (sp_obligations problem) - skipped" using assms by auto
  then show ?thesis unfolding states_left_def by (simp add: psubset_card_mono)
qed

termination visit
  apply (relation "measure (\<lambda>(problem, selected, skipped, _, _). states_left problem selected skipped)")
    apply simp
   apply (drule unmet_obligation, simp only: in_measure split_conv, elim conjE, rule selecting_leaves_less, assumption, assumption)
  apply (drule unmet_obligation, simp only: in_measure split_conv, elim conjE, rule skipping_leaves_less, assumption, assumption)
  done

subsection \<open>The query\<close>

record minimum_test_set_result =
  ms_optimal :: bool
  ms_target :: "rat option"
  ms_metric :: minimize_metric
  ms_selected :: "string list"
  ms_expanded :: "string list"
  ms_summary :: coverage_summary
  ms_explored_states :: nat

datatype query_stop = Refused query_error | SummaryPanicked

definition valid_target :: "f64_value \<Rightarrow> query_error + rat" where
  "valid_target target = (case target of
     FiniteNumber q \<Rightarrow> if 0 \<le> q \<and> q \<le> 100 then Inr q else Inl (InvalidTarget target)
   | NotFinite \<Rightarrow> Inl (InvalidTarget target))"

definition valid_targets :: "f64_value option \<Rightarrow> query_error + rat option" where
  "valid_targets target = (case target of
     None \<Rightarrow> Inr None
   | Some asked \<Rightarrow> rbind (valid_target asked) (\<lambda>q. Inr (Some q)))"

definition unattributed_evidence :: "test_coverage_result \<Rightarrow> bool" where
  "unattributed_evidence test \<longleftrightarrow>
     (tc_role test = ''background'' \<and> (tc_hits test \<noteq> [] \<or> tc_decisions test \<noteq> []))
     \<or> (tc_role test = ''test'' \<and> \<not> coverage_is_complete (tc_attribution test))"

text \<open>\<open>(total as f64 * target / 100.0).ceil() as usize\<close>.\<close>

definition required_of :: "nat \<Rightarrow> rat \<Rightarrow> nat" where
  "required_of total_of target = nat \<lceil>f64_round (f64_round (f64_round (of_nat total_of) * target) / 100)\<rceil>"

definition skip_limit :: "obligation list \<Rightarrow> string set \<Rightarrow> rat option \<Rightarrow> obligation_metric \<Rightarrow> nat" where
  "skip_limit obligations candidate_ids target metric =
     (let of_metric = filter (\<lambda>obligation. ob_metric obligation = metric) obligations in
      case target of
        Some target \<Rightarrow> length of_metric - required_of (length of_metric) target
      | None \<Rightarrow> length (filter (\<lambda>obligation. \<not> obligation_satisfied obligation candidate_ids) of_metric))"

definition selected_metrics :: "minimize_metric \<Rightarrow> obligation_metric list" where
  "selected_metrics metric = filter (\<lambda>candidate. metric_selected candidate metric)
     [ObligationLines, ObligationStatements, ObligationFunctions, ObligationBranches, ObligationMcdc]"

text \<open>\<open>reachable + 1e-9 < target\<close>.\<close>

definition falls_short :: "rat \<Rightarrow> rat \<Rightarrow> bool" where
  "falls_short reachable target \<longleftrightarrow> f64_round (reachable + f64_round (1 / 10 ^ 9)) < target"

definition summary_of_tests :: "'v coverage_view \<Rightarrow> string set \<Rightarrow> query_stop + coverage_summary" where
  "summary_of_tests view test_ids =
     (case coverage_summary_for_tests view test_ids of Inl _ \<Rightarrow> Inl SummaryPanicked | Inr summary \<Rightarrow> Inr summary)"

definition check_reachable ::
  "'v coverage_view \<Rightarrow> obligation_model \<Rightarrow> string set \<Rightarrow> obligation_metric list \<Rightarrow> rat option \<Rightarrow> query_stop + unit" where
  "check_reachable view model candidate_ids metrics target =
     (case target of
        None \<Rightarrow> Inr ()
      | Some target \<Rightarrow>
          rbind (summary_of_tests view (expand model candidate_ids)) (\<lambda>full_summary.
          case find (\<lambda>metric. falls_short (metric_percentage metric full_summary) target) metrics of
            Some metric \<Rightarrow> Inl (Refused (TargetUnreachable (metric_public metric) target (metric_percentage metric full_summary)))
          | None \<Rightarrow> Inr ()))"

definition minimum_problem ::
  "obligation_model \<Rightarrow> string set \<Rightarrow> rat option \<Rightarrow> minimize_metric \<Rightarrow> nat \<Rightarrow> search_problem" where
  "minimum_problem model candidate_ids target metric max_states =
     (let obligations = filter (\<lambda>obligation. metric_selected (ob_metric obligation) metric) (om_obligations model)
      in \<lparr>sp_obligations = obligations,
          sp_skip_limits = (\<lambda>candidate. if candidate \<in> set (selected_metrics metric)
             then skip_limit obligations candidate_ids target candidate else 0),
          sp_max_states = max_states, sp_candidate_tests = card candidate_ids, sp_target = target, sp_metric = metric\<rparr>)"

definition start_state :: "string set \<Rightarrow> search_state" where
  "start_state candidate_ids = \<lparr>se_best = candidate_ids, se_explored_states = 0, se_seen = {}\<rparr>"

definition candidate_tests :: "'v coverage_view \<Rightarrow> string set" where
  "candidate_tests view = set (map tc_id (filter (\<lambda>test. tc_role test = ''test'') (cv_tests view)))"

definition refused :: "query_error + 'a \<Rightarrow> query_stop + 'a" where
  "refused result = (case result of Inl e \<Rightarrow> Inl (Refused e) | Inr x \<Rightarrow> Inr x)"

definition minimum_test_set ::
  "'v coverage_view \<Rightarrow> f64_value option \<Rightarrow> minimize_metric \<Rightarrow> nat \<Rightarrow> query_stop + minimum_test_set_result" where
  "minimum_test_set view target metric max_states =
     rbind (refused (valid_targets target)) (\<lambda>target.
     if list_ex unattributed_evidence (cv_tests view) then Inl (Refused UnattributedEvidence)
     else
       let candidate_ids = candidate_tests view;
           model = build_obligations view candidate_ids
       in rbind (check_reachable view model candidate_ids (selected_metrics metric) target) (\<lambda>_.
          rbind (refused (visit (minimum_problem model candidate_ids target metric max_states) {} {} (\<lambda>_. 0)
            (start_state candidate_ids))) (\<lambda>search.
          let expanded = expand model (se_best search) in
          rbind (summary_of_tests view expanded) (\<lambda>summary.
            Inr \<lparr>ms_optimal = True, ms_target = target, ms_metric = metric,
              ms_selected = sorted_list_of_set (se_best search), ms_expanded = sorted_list_of_set expanded,
              ms_summary = summary, ms_explored_states = se_explored_states search\<rparr>))))"

end
