(* ===== verification/MinimumSearch.thy ===== *)
theory MinimumSearch
  imports MinimumSet
begin

section \<open>The search finds a smallest set\<close>

text \<open>
  A state of the search is a selection and the obligations skipped. A set of tests is open to a state
  when it holds the selection and leaves, with what the state skips, no more of a metric than the limit
  unsatisfied. Visiting a state leaves a best set no larger than any set open to it.
\<close>

subsection \<open>Sets open to a state\<close>

definition left_over :: "search_problem \<Rightarrow> string set \<Rightarrow> string set \<Rightarrow> obligation_metric \<Rightarrow> obligation list" where
  "left_over problem skipped tests metric =
     filter (\<lambda>obligation. ob_metric obligation = metric
       \<and> (ob_id obligation \<in> skipped \<or> \<not> obligation_satisfied obligation tests)) (sp_obligations problem)"

definition within_limits :: "search_problem \<Rightarrow> string set \<Rightarrow> string set \<Rightarrow> bool" where
  "within_limits problem skipped tests \<longleftrightarrow>
     (\<forall>metric. length (left_over problem skipped tests metric) \<le> sp_skip_limits problem metric)"

text \<open>A set that meets the problem: what it leaves unsatisfied stays within the limits.\<close>

definition meets :: "search_problem \<Rightarrow> string set \<Rightarrow> bool" where
  "meets problem tests \<longleftrightarrow> within_limits problem {} tests"

definition obligation_ids :: "search_problem \<Rightarrow> string set" where
  "obligation_ids problem = ob_id ` set (sp_obligations problem)"

definition skip_counts :: "search_problem \<Rightarrow> string set \<Rightarrow> obligation_metric \<Rightarrow> nat" where
  "skip_counts problem skipped metric =
     length (filter (\<lambda>obligation. ob_metric obligation = metric \<and> ob_id obligation \<in> skipped) (sp_obligations problem))"

text \<open>The texts the search keeps for states and options tell them apart.\<close>

definition keys_apart :: "search_problem \<Rightarrow> bool" where
  "keys_apart problem \<longleftrightarrow>
     inj_on (\<lambda>(selected, skipped). state_key selected skipped) (Pow (named_tests problem) \<times> Pow (obligation_ids problem))
     \<and> inj_on option_key {option. sorted option \<and> distinct option \<and> set option \<subseteq> named_tests problem}"

lemma satisfied_mono: "obligation_satisfied obligation tests \<Longrightarrow> tests \<subseteq> more_tests \<Longrightarrow> obligation_satisfied obligation more_tests"
  by (auto simp: obligation_satisfied_def list_ex_iff list_all_iff)

lemma length_filter_mono:
  "(\<And>x. x \<in> set xs \<Longrightarrow> P x \<Longrightarrow> Q x) \<Longrightarrow> length (filter P xs) \<le> length (filter Q xs)"
proof (induction xs)
  case (Cons x xs)
  then have "length (filter P xs) \<le> length (filter Q xs)" by simp
  then show ?case using Cons.prems[of x] by auto
qed simp

lemma all_met:
  assumes "unmet_obligations problem selected skipped = []"
    and "\<forall>metric. skip_counts problem skipped metric \<le> sp_skip_limits problem metric"
  shows "meets problem selected"
  unfolding meets_def within_limits_def
proof
  fix metric
  have "set (unmet_obligations problem selected skipped) = {}" using assms(1) by simp
  then have "\<And>obligation. obligation \<in> set (sp_obligations problem) \<Longrightarrow>
      \<not> obligation_satisfied obligation selected \<Longrightarrow> ob_id obligation \<in> skipped"
    unfolding unmet_obligations_def set_sort by auto
  then have "length (left_over problem {} selected metric) \<le> skip_counts problem skipped metric"
    unfolding skip_counts_def left_over_def by (intro length_filter_mono) auto
  then show "length (left_over problem {} selected metric) \<le> sp_skip_limits problem metric"
    using assms(2) le_trans by blast
qed

lemma length_filter_or:
  "x \<in> set xs \<Longrightarrow> P x \<Longrightarrow> \<not> Q x \<Longrightarrow> (\<And>y. y \<in> set xs \<Longrightarrow> Q y \<Longrightarrow> P y) \<Longrightarrow>
     length (filter Q xs) < length (filter P xs)"
proof (induction xs)
  case (Cons y ys)
  have less: "length (filter Q ys) \<le> length (filter P ys)" using Cons.prems(4) by (intro length_filter_mono) simp
  show ?case
  proof (cases "x = y")
    case True
    then show ?thesis using Cons.prems(2,3) less by simp
  next
    case False
    then have "length (filter Q ys) < length (filter P ys)" using Cons by simp
    then show ?thesis using Cons.prems(4)[of y] by auto
  qed
qed simp

text \<open>An obligation is skipped only where a set open to the state leaves it unsatisfied.\<close>

lemma skip_allowed:
  assumes "obligation \<in> set (sp_obligations problem)" "ob_id obligation \<notin> skipped"
    and "\<not> obligation_satisfied obligation tests" "within_limits problem skipped tests"
  shows "skip_counts problem skipped (ob_metric obligation) < sp_skip_limits problem (ob_metric obligation)"
proof -
  have "skip_counts problem skipped (ob_metric obligation)
      < length (left_over problem skipped tests (ob_metric obligation))"
    unfolding skip_counts_def left_over_def by (rule length_filter_or[OF assms(1)]) (use assms(2,3) in auto)
  also have "\<dots> \<le> sp_skip_limits problem (ob_metric obligation)" using assms(4) by (simp add: within_limits_def)
  finally show ?thesis .
qed

lemma within_limits_skip:
  assumes "\<not> obligation_satisfied obligation tests" "within_limits problem skipped tests"
    and "obligation \<in> set (sp_obligations problem)" "distinct (map ob_id (sp_obligations problem))"
  shows "within_limits problem (insert (ob_id obligation) skipped) tests"
proof -
  have "o' = obligation" if "o' \<in> set (sp_obligations problem)" "ob_id o' = ob_id obligation" for o'
    using assms(3,4) that by (auto simp: distinct_map dest: inj_onD)
  then have "left_over problem (insert (ob_id obligation) skipped) tests metric = left_over problem skipped tests metric" for metric
    using assms(1) unfolding left_over_def by (intro filter_cong) auto
  then show ?thesis using assms(2) by (simp add: within_limits_def)
qed

lemma skip_counts_insert:
  assumes "obligation \<in> set (sp_obligations problem)" "distinct (map ob_id (sp_obligations problem))"
    and "ob_id obligation \<notin> skipped"
  shows "skip_counts problem (insert (ob_id obligation) skipped)
    = (skip_counts problem skipped)(ob_metric obligation := skip_counts problem skipped (ob_metric obligation) + 1)"
proof
  fix metric
  have one: "o' = obligation" if "o' \<in> set (sp_obligations problem)" "ob_id o' = ob_id obligation" for o'
    using assms(1,2) that by (auto simp: distinct_map dest: inj_onD)
  have d: "distinct (sp_obligations problem)" using assms(2) by (simp add: distinct_map)
  have counted: "length (filter P (sp_obligations problem)) = card {o' \<in> set (sp_obligations problem). P o'}" for P
    using distinct_card[OF distinct_filter[OF d], of P] by simp
  have "{o' \<in> set (sp_obligations problem). ob_metric o' = metric \<and> ob_id o' \<in> insert (ob_id obligation) skipped}
      = {o' \<in> set (sp_obligations problem). ob_metric o' = metric \<and> ob_id o' \<in> skipped}
          \<union> {o' \<in> {obligation}. ob_metric o' = metric}" using one assms(1) by auto
  then have "length (filter (\<lambda>o'. ob_metric o' = metric \<and> ob_id o' \<in> insert (ob_id obligation) skipped) (sp_obligations problem))
      = card ({o' \<in> set (sp_obligations problem). ob_metric o' = metric \<and> ob_id o' \<in> skipped}
          \<union> {o' \<in> {obligation}. ob_metric o' = metric})"
    unfolding counted by (rule arg_cong)
  also have "\<dots> = card {o' \<in> set (sp_obligations problem). ob_metric o' = metric \<and> ob_id o' \<in> skipped}
      + card {o' \<in> {obligation}. ob_metric o' = metric}"
    using assms(3) by (subst card_Un_disjoint) auto
  also have "card {o' \<in> {obligation}. ob_metric o' = metric} = (if metric = ob_metric obligation then 1 else 0)"
  proof -
    have "{o' \<in> {obligation}. ob_metric o' = metric} = (if metric = ob_metric obligation then {obligation} else {})" by auto
    then show ?thesis by simp
  qed
  also have "card {o' \<in> set (sp_obligations problem). ob_metric o' = metric \<and> ob_id o' \<in> skipped} = skip_counts problem skipped metric"
    unfolding skip_counts_def counted ..
  finally show "skip_counts problem (insert (ob_id obligation) skipped) metric
      = ((skip_counts problem skipped)(ob_metric obligation := skip_counts problem skipped (ob_metric obligation) + 1)) metric"
    by (simp add: skip_counts_def)
qed

text \<open>Where a set open to the state satisfies an obligation the state does not, an addition leads to it.\<close>

lemma leads_to:
  assumes apart: "keys_apart problem" and obligation: "obligation \<in> set (sp_obligations problem)"
    and sat: "obligation_satisfied obligation tests" "\<not> obligation_satisfied obligation selected"
  shows "\<exists>addition \<in> set (additions_of obligation selected). set addition \<subseteq> tests"
proof -
  obtain option where option: "option \<in> set (ob_options obligation)" "set option \<subseteq> tests"
    using sat(1) by (auto simp: obligation_satisfied_def list_ex_iff list_all_iff)
  define left where "left = filter (\<lambda>test. test \<notin> selected) option"
  define lefts where "lefts = filter (\<lambda>addition. addition \<noteq> []) (map (filter (\<lambda>test. test \<notin> selected)) (ob_options obligation))"
  have "left \<noteq> []"
    using sat(2) option(1) by (auto simp: left_def obligation_satisfied_def list_ex_iff list_all_iff filter_empty_conv)
  then have mem: "left \<in> set lefts" using option(1) by (auto simp: lefts_def left_def)
  have "canonical ` set lefts \<subseteq> {option. sorted option \<and> distinct option \<and> set option \<subseteq> named_tests problem}"
    using obligation distinct_canonical by (fastforce simp: lefts_def named_tests_def sorted_remdups_adj)
  then have "inj_on option_key (canonical ` set lefts)"
    using apart inj_on_subset unfolding keys_apart_def by blast
  from deduplicate_complete[OF this mem]
  have "canonical left \<in> set (additions_of obligation selected)" by (simp add: additions_of_def lefts_def)
  moreover have "set (canonical left) \<subseteq> tests" using option(2) by (auto simp: left_def)
  ultimately show ?thesis by blast
qed

subsection \<open>What a visit leaves\<close>

text \<open>A state is closed when no set open to it is smaller than the best one.\<close>

definition closed :: "search_problem \<Rightarrow> search_state \<Rightarrow> string set \<Rightarrow> string set \<Rightarrow> bool" where
  "closed problem st selected skipped \<longleftrightarrow>
     (\<forall>tests. finite tests \<longrightarrow> selected \<subseteq> tests \<longrightarrow> within_limits problem skipped tests \<longrightarrow> card (se_best st) \<le> card tests)"

definition seen_closed :: "search_problem \<Rightarrow> (string set \<times> string set) set \<Rightarrow> search_state \<Rightarrow> bool" where
  "seen_closed problem ancestors st \<longleftrightarrow>
     (\<forall>key \<in> se_seen st. \<exists>selected skipped. key = state_key selected skipped
        \<and> selected \<subseteq> named_tests problem \<and> skipped \<subseteq> obligation_ids problem
        \<and> (closed problem st selected skipped \<or> (selected, skipped) \<in> ancestors))"

text \<open>What a step of the search keeps: the best set only shrinks, to one that meets the problem.\<close>

definition improves :: "search_problem \<Rightarrow> search_state \<Rightarrow> search_state \<Rightarrow> bool" where
  "improves problem st st' \<longleftrightarrow> card (se_best st') \<le> card (se_best st)
     \<and> (se_best st' = se_best st \<or> (meets problem (se_best st') \<and> se_best st' \<subseteq> named_tests problem))"

lemma improves_refl [simp]: "se_best st' = se_best st \<Longrightarrow> improves problem st st'"
  by (simp add: improves_def)

lemma improves_trans: "improves problem r s \<Longrightarrow> improves problem s t \<Longrightarrow> improves problem r t"
  by (auto simp: improves_def)

lemma closed_improves: "closed problem st selected skipped \<Longrightarrow> improves problem st st' \<Longrightarrow> closed problem st' selected skipped"
  unfolding closed_def improves_def by (meson le_trans)

lemma try_fold_each:
  assumes "try_fold f xs s = Inr t" "I s"
    and "\<And>x s t. x \<in> set xs \<Longrightarrow> I s \<Longrightarrow> f x s = Inr t \<Longrightarrow> I t \<and> Q x t"
    and "\<And>x y s t. x \<in> set xs \<Longrightarrow> Q y s \<Longrightarrow> I s \<Longrightarrow> f x s = Inr t \<Longrightarrow> Q y t"
  shows "I t \<and> (\<forall>x \<in> set xs. Q x t)"
  using assms
proof (induction xs arbitrary: s)
  case (Cons x xs)
  then obtain u where u: "f x s = Inr u" "try_fold f xs u = Inr t" by (auto simp: rbind_Inr_iff)
  have "I u" "Q x u" using Cons.prems(2,3) u(1) by auto
  have rest: "I t \<and> (\<forall>y \<in> set xs. Q y t)"
  proof (rule Cons.IH[OF u(2) \<open>I u\<close>])
    fix y s t assume "y \<in> set xs" "I s" "f y s = Inr t"
    then show "I t \<and> Q y t" using Cons.prems(3)[of y s t] by simp
  next
    fix y z s t assume "y \<in> set xs" "Q z s" "I s" "f y s = Inr t"
    then show "Q z t" using Cons.prems(4)[of y z s t] by simp
  qed
  have "Q x t"
  proof (rule try_fold_invariant[OF u(2), where P = "\<lambda>s. I s \<and> Q x s", THEN conjunct2])
    fix y s t assume "y \<in> set xs" "I s \<and> Q x s" "f y s = Inr t"
    then show "I t \<and> Q x t" using Cons.prems(3)[of y s t] Cons.prems(4)[of y x s t] by simp
  qed (simp add: \<open>I u\<close> \<open>Q x u\<close>)
  then show ?case using rest by auto
qed simp

definition visit_closes :: "search_problem \<Rightarrow> string set \<Rightarrow> string set \<Rightarrow> (obligation_metric \<Rightarrow> nat) \<Rightarrow> search_state \<Rightarrow> bool" where
  "visit_closes problem selected skipped skipped_by_metric st \<longleftrightarrow>
     (\<forall>ancestors st'. visit problem selected skipped skipped_by_metric st = Inr st'
        \<longrightarrow> selected \<subseteq> named_tests problem \<longrightarrow> skipped \<subseteq> obligation_ids problem
        \<longrightarrow> skipped_by_metric = skip_counts problem skipped
        \<longrightarrow> (\<forall>metric. skip_counts problem skipped metric \<le> sp_skip_limits problem metric)
        \<longrightarrow> (\<forall>(selected', skipped') \<in> ancestors. states_left problem selected skipped < states_left problem selected' skipped')
        \<longrightarrow> seen_closed problem ancestors st
        \<longrightarrow> improves problem st st' \<and> seen_closed problem ancestors st' \<and> closed problem st' selected skipped)"

lemma visit_closesD:
  assumes "visit_closes problem selected skipped skipped_by_metric st"
    and "visit problem selected skipped skipped_by_metric st = Inr st'"
    and "selected \<subseteq> named_tests problem" "skipped \<subseteq> obligation_ids problem"
    and "skipped_by_metric = skip_counts problem skipped"
    and "\<forall>metric. skip_counts problem skipped metric \<le> sp_skip_limits problem metric"
    and "\<forall>(selected', skipped') \<in> ancestors. states_left problem selected skipped < states_left problem selected' skipped'"
    and "seen_closed problem ancestors st"
  shows "improves problem st st'" "seen_closed problem ancestors st'" "closed problem st' selected skipped"
  using assms unfolding visit_closes_def by blast+

lemma closed_best: "se_best st = se_best st' \<Longrightarrow> closed problem st = closed problem st'"
  by (intro ext) (simp add: closed_def)

lemma seen_closed_mono:
  assumes "seen_closed problem ancestors st" "improves problem st st'" "se_seen st' = se_seen st"
  shows "seen_closed problem ancestors st'"
  using assms closed_improves unfolding seen_closed_def by metis

lemma seen_closed_insert:
  assumes "seen_closed problem ancestors st" "selected \<subseteq> named_tests problem" "skipped \<subseteq> obligation_ids problem"
    and "se_seen st' = insert (state_key selected skipped) (se_seen st)" "se_best st' = se_best st"
  shows "seen_closed problem (insert (selected, skipped) ancestors) st'"
  unfolding seen_closed_def
proof
  fix key assume "key \<in> se_seen st'"
  then consider "key = state_key selected skipped" | "key \<in> se_seen st" using assms(4) by blast
  then show "\<exists>selected' skipped'. key = state_key selected' skipped' \<and> selected' \<subseteq> named_tests problem
      \<and> skipped' \<subseteq> obligation_ids problem
      \<and> (closed problem st' selected' skipped' \<or> (selected', skipped') \<in> insert (selected, skipped) ancestors)"
  proof cases
    case 2
    then show ?thesis using assms(1) closed_best[OF assms(5)] unfolding seen_closed_def by (metis insertCI)
  qed (use assms(2,3) in blast)
qed

lemma seen_closed_leave:
  assumes "seen_closed problem (insert (selected, skipped) ancestors) st" "closed problem st selected skipped"
  shows "seen_closed problem ancestors st"
  using assms unfolding seen_closed_def by blast

lemma pruned_closed:
  assumes "card (se_best st) \<le> card selected + length addition" "finite selected"
    and "distinct addition" "set addition \<inter> selected = {}"
  shows "closed problem st (selected \<union> set addition) skipped"
  unfolding closed_def
proof (intro allI impI)
  fix tests assume "finite tests" "selected \<union> set addition \<subseteq> tests"
  then have "card (selected \<union> set addition) \<le> card tests" by (simp add: card_mono)
  then show "card (se_best st) \<le> card tests"
    using assms by (simp add: card_Un_disjoint distinct_card Int_commute)
qed

declare visit.simps [simp del]

text \<open>One call, by what stops it.\<close>

definition entered :: "search_state \<Rightarrow> search_state" where
  "entered st = st\<lparr>se_explored_states := se_explored_states st + 1\<rparr>"

definition noted :: "string set \<Rightarrow> string set \<Rightarrow> search_state \<Rightarrow> search_state" where
  "noted selected skipped st = (entered st)\<lparr>se_seen := insert (state_key selected skipped) (se_seen st)\<rparr>"

lemma entered_fields [simp]: "se_best (entered st) = se_best st" "se_seen (entered st) = se_seen st"
  "se_explored_states (entered st) = se_explored_states st + 1"
  by (simp_all add: entered_def)

lemma noted_fields [simp]: "se_best (noted selected skipped st) = se_best st"
  "se_seen (noted selected skipped st) = insert (state_key selected skipped) (se_seen st)"
  "se_explored_states (noted selected skipped st) = se_explored_states st + 1"
  by (simp_all add: noted_def)

definition add_step ::
  "search_problem \<Rightarrow> string set \<Rightarrow> string set \<Rightarrow> (obligation_metric \<Rightarrow> nat) \<Rightarrow> string list \<Rightarrow> search_state
     \<Rightarrow> query_error + search_state" where
  "add_step problem selected skipped skipped_by_metric addition st =
     (if card (se_best st) \<le> card selected + length addition then Inr st
      else visit problem (selected \<union> set addition) skipped skipped_by_metric st)"

definition skip_step ::
  "search_problem \<Rightarrow> string set \<Rightarrow> string set \<Rightarrow> (obligation_metric \<Rightarrow> nat) \<Rightarrow> obligation \<Rightarrow> search_state
     \<Rightarrow> query_error + search_state" where
  "skip_step problem selected skipped skipped_by_metric obligation st =
     (if skipped_by_metric (ob_metric obligation) < sp_skip_limits problem (ob_metric obligation)
      then visit problem selected (insert (ob_id obligation) skipped)
        (skipped_by_metric(ob_metric obligation := skipped_by_metric (ob_metric obligation) + 1)) st
      else Inr st)"

lemma visit_unfold:
  "visit problem selected skipped skipped_by_metric st =
     (if sp_max_states problem < se_explored_states st + 1
      then Inl (ComplexityLimit (sp_candidate_tests problem) (length (sp_obligations problem)) (se_explored_states st + 1)
        (sp_max_states problem) (sp_target problem) (sp_metric problem))
      else if card (se_best st) \<le> card selected \<or> state_key selected skipped \<in> se_seen st then Inr (entered st)
      else case unmet_obligations problem selected skipped of
         [] \<Rightarrow> Inr ((noted selected skipped st)\<lparr>se_best := selected\<rparr>)
       | obligation # _ \<Rightarrow>
           rbind (try_fold (add_step problem selected skipped skipped_by_metric) (additions_of obligation selected)
               (noted selected skipped st))
             (skip_step problem selected skipped skipped_by_metric obligation))"
  by (subst visit.simps)
    (simp add: Let_def entered_def noted_def add_step_def [abs_def] skip_step_def [abs_def] split: list.split)

lemma visit_induct:
  assumes "\<And>problem selected skipped skipped_by_metric st.
    (\<And>obligation rest addition st'. unmet_obligations problem selected skipped = obligation # rest \<Longrightarrow>
        addition \<in> set (additions_of obligation selected) \<Longrightarrow>
        P problem (selected \<union> set addition) skipped skipped_by_metric st') \<Longrightarrow>
    (\<And>obligation rest st'. unmet_obligations problem selected skipped = obligation # rest \<Longrightarrow>
        P problem selected (insert (ob_id obligation) skipped)
          (skipped_by_metric(ob_metric obligation := skipped_by_metric (ob_metric obligation) + 1)) st') \<Longrightarrow>
    P problem selected skipped skipped_by_metric st"
  shows "P problem selected skipped skipped_by_metric st"
proof (induction "states_left problem selected skipped" arbitrary: selected skipped skipped_by_metric st rule: less_induct)
  case less
  show ?case
  proof (rule assms)
    fix obligation rest addition st'
    assume "unmet_obligations problem selected skipped = obligation # rest" "addition \<in> set (additions_of obligation selected)"
    then show "P problem (selected \<union> set addition) skipped skipped_by_metric st'"
      by (intro less selecting_leaves_less) (auto dest: unmet_obligation)
  next
    fix obligation rest st'
    assume "unmet_obligations problem selected skipped = obligation # rest"
    then show "P problem selected (insert (ob_id obligation) skipped)
          (skipped_by_metric(ob_metric obligation := skipped_by_metric (ob_metric obligation) + 1)) st'"
      by (intro less skipping_leaves_less) (auto dest: unmet_obligation)
  qed
qed


text \<open>The steps of a state that has an obligation unmet.\<close>

lemma addition_inside:
  assumes "obligation \<in> set (sp_obligations problem)" "addition \<in> set (additions_of obligation selected)"
  shows "set addition \<subseteq> named_tests problem" "distinct addition" "set addition \<inter> selected = {}"
  using addition_of_option[OF assms(2)] assms(1) by (auto simp: named_tests_def)

lemma branching_closed:
  assumes apart: "keys_apart problem"
    and unmet: "obligation \<in> set (sp_obligations problem)" "ob_id obligation \<notin> skipped"
      "\<not> obligation_satisfied obligation selected"
    and ids: "distinct (map ob_id (sp_obligations problem))"
    and additions: "\<forall>addition \<in> set (additions_of obligation selected). closed problem st (selected \<union> set addition) skipped"
    and skips: "skip_counts problem skipped (ob_metric obligation) < sp_skip_limits problem (ob_metric obligation) \<Longrightarrow>
      closed problem st selected (insert (ob_id obligation) skipped)"
  shows "closed problem st selected skipped"
  unfolding closed_def
proof (intro allI impI)
  fix tests assume tests: "finite tests" "selected \<subseteq> tests" "within_limits problem skipped tests"
  show "card (se_best st) \<le> card tests"
  proof (cases "obligation_satisfied obligation tests")
    case True
    then obtain addition where "addition \<in> set (additions_of obligation selected)" "set addition \<subseteq> tests"
      using leads_to[OF apart unmet(1) _ unmet(3)] by blast
    then show ?thesis using additions tests unfolding closed_def by (meson Un_least)
  next
    case False
    then show ?thesis
      using skips skip_allowed[OF unmet(1,2) False tests(3)] within_limits_skip[OF False tests(3) unmet(1) ids] tests(1,2)
      unfolding closed_def by blast
  qed
qed

lemma visit_keeps:
  assumes ids: "distinct (map ob_id (sp_obligations problem))" and apart: "keys_apart problem"
  shows "visit_closes problem selected skipped skipped_by_metric st"
  using assms
proof (induction problem selected skipped skipped_by_metric st rule: visit_induct)
  case (1 problem selected skipped skipped_by_metric st)
  note ids = 1(3) and apart = 1(4)
  show ?case
    unfolding visit_closes_def
  proof (intro allI impI)
    fix ancestors st'
    assume result: "visit problem selected skipped skipped_by_metric st = Inr st'"
      and inside: "selected \<subseteq> named_tests problem" "skipped \<subseteq> obligation_ids problem"
      and counts: "skipped_by_metric = skip_counts problem skipped"
      and limits: "\<forall>metric. skip_counts problem skipped metric \<le> sp_skip_limits problem metric"
      and less: "\<forall>(selected', skipped') \<in> ancestors. states_left problem selected skipped < states_left problem selected' skipped'"
      and seen: "seen_closed problem ancestors st"
    have finite: "finite selected" using inside(1) finite_named_tests finite_subset by blast
    have states: "\<not> sp_max_states problem < se_explored_states st + 1"
      using result by (subst (asm) visit_unfold) (auto split: if_splits)
    consider (larger) "card (se_best st) \<le> card selected" "st' = entered st"
      | (again) "state_key selected skipped \<in> se_seen st" "st' = entered st"
      | (met) "\<not> card (se_best st) \<le> card selected" "unmet_obligations problem selected skipped = []"
          "st' = (noted selected skipped st)\<lparr>se_best := selected\<rparr>"
      | (branch) obligation rest added where "unmet_obligations problem selected skipped = obligation # rest"
          "try_fold (add_step problem selected skipped skipped_by_metric) (additions_of obligation selected)
             (noted selected skipped st) = Inr added"
          "skip_step problem selected skipped skipped_by_metric obligation added = Inr st'"
      using result states by (subst (asm) visit_unfold) (auto simp: rbind_Inr_iff split: if_splits list.splits)
    then show "improves problem st st' \<and> seen_closed problem ancestors st' \<and> closed problem st' selected skipped"
    proof cases
      case larger
      have "closed problem st selected skipped" using larger(1) unfolding closed_def by (meson card_mono le_trans)
      then show ?thesis using seen_closed_mono[OF seen, of st'] closed_best[of st' st] larger(2) by simp
    next
      case again
      obtain selected' skipped' where key: "state_key selected skipped = state_key selected' skipped'"
        "selected' \<subseteq> named_tests problem" "skipped' \<subseteq> obligation_ids problem"
        "closed problem st selected' skipped' \<or> (selected', skipped') \<in> ancestors"
        using seen again(1) unfolding seen_closed_def by blast
      have "inj_on (\<lambda>(selected, skipped). state_key selected skipped) (Pow (named_tests problem) \<times> Pow (obligation_ids problem))"
        using apart unfolding keys_apart_def by blast
      then have "(selected, skipped) = (selected', skipped')"
        by (rule inj_onD) (use key(1-3) inside in auto)
      then have "closed problem st selected skipped" using key(4) less by auto
      then show ?thesis using seen_closed_mono[OF seen, of st'] closed_best[of st' st] again(2) by simp
    next
      case met
      let ?noted = "noted selected skipped st"
      have closed: "closed problem st' selected skipped" by (simp add: closed_def met(3) card_mono)
      have improves: "improves problem st st'"
        using all_met[OF met(2) limits] met(1) inside(1) by (simp add: improves_def met(3))
      have "seen_closed problem (insert (selected, skipped) ancestors) ?noted"
        by (rule seen_closed_insert[OF seen inside]) simp_all
      then have "seen_closed problem (insert (selected, skipped) ancestors) st'"
        by (rule seen_closed_mono) (use improves in \<open>simp_all add: improves_def met(3)\<close>)
      then show ?thesis using closed improves seen_closed_leave by blast
    next
      case branch
      let ?inner = "insert (selected, skipped) ancestors" and ?noted = "noted selected skipped st"
      have unmet: "obligation \<in> set (sp_obligations problem)" "ob_id obligation \<notin> skipped"
        "\<not> obligation_satisfied obligation selected" using unmet_obligation[OF branch(1)] by blast+
      have noted: "seen_closed problem ?inner ?noted"
        by (rule seen_closed_insert[OF seen inside]) simp_all
      have step: "improves problem s t \<and> seen_closed problem ?inner t \<and> closed problem t (selected \<union> set addition) skipped"
        if addition: "addition \<in> set (additions_of obligation selected)" and s: "seen_closed problem ?inner s"
          and t: "add_step problem selected skipped skipped_by_metric addition s = Inr t" for addition s t
      proof (cases "card (se_best s) \<le> card selected + length addition")
        case True
        then have "t = s" using t by (simp add: add_step_def)
        then show ?thesis using s pruned_closed[OF True finite addition_inside(2,3)[OF unmet(1) addition]] by simp
      next
        case False
        then have visited: "visit problem (selected \<union> set addition) skipped skipped_by_metric s = Inr t"
          using t by (simp add: add_step_def)
        have deeper: "states_left problem (selected \<union> set addition) skipped < states_left problem selected skipped"
          by (rule selecting_leaves_less[OF unmet(1) addition])
        have within: "selected \<union> set addition \<subseteq> named_tests problem"
          using inside(1) addition_inside(1)[OF unmet(1) addition] by simp
        have "\<forall>(selected', skipped') \<in> ?inner. states_left problem (selected \<union> set addition) skipped < states_left problem selected' skipped'"
          using less deeper less_trans by fastforce
        from visit_closesD[OF 1(1)[OF branch(1) addition ids apart] visited within inside(2) counts limits this s]
        show ?thesis by blast
      qed
      have added: "(improves problem st added \<and> seen_closed problem ?inner added)
        \<and> (\<forall>addition \<in> set (additions_of obligation selected). closed problem added (selected \<union> set addition) skipped)"
      proof (rule try_fold_each[OF branch(2)])
        show "improves problem st ?noted \<and> seen_closed problem ?inner ?noted" using noted by simp
      next
        fix addition s t
        assume "addition \<in> set (additions_of obligation selected)" "improves problem st s \<and> seen_closed problem ?inner s"
          "add_step problem selected skipped skipped_by_metric addition s = Inr t"
        then show "(improves problem st t \<and> seen_closed problem ?inner t) \<and> closed problem t (selected \<union> set addition) skipped"
          using step improves_trans by blast
      next
        fix addition other s t
        assume "addition \<in> set (additions_of obligation selected)" "closed problem s (selected \<union> set other) skipped"
          "improves problem st s \<and> seen_closed problem ?inner s"
          "add_step problem selected skipped skipped_by_metric addition s = Inr t"
        then show "closed problem t (selected \<union> set other) skipped" using step closed_improves by blast
      qed
      have "improves problem added st' \<and> seen_closed problem ?inner st'
        \<and> (skip_counts problem skipped (ob_metric obligation) < sp_skip_limits problem (ob_metric obligation) \<longrightarrow>
            closed problem st' selected (insert (ob_id obligation) skipped))"
      proof (cases "skip_counts problem skipped (ob_metric obligation) < sp_skip_limits problem (ob_metric obligation)")
        case False
        then show ?thesis using branch(3) added by (simp add: skip_step_def counts)
      next
        case True
        have counted: "(skip_counts problem skipped)(ob_metric obligation := skip_counts problem skipped (ob_metric obligation) + 1)
            = skip_counts problem (insert (ob_id obligation) skipped)"
          using skip_counts_insert[OF unmet(1) ids unmet(2)] by simp
        have visited: "visit problem selected (insert (ob_id obligation) skipped)
            (skipped_by_metric(ob_metric obligation := skipped_by_metric (ob_metric obligation) + 1)) added = Inr st'"
          using branch(3) True by (simp add: skip_step_def counts)
        have within: "insert (ob_id obligation) skipped \<subseteq> obligation_ids problem"
          using inside(2) unmet(1) by (auto simp: obligation_ids_def)
        have bounded: "\<forall>metric. skip_counts problem (insert (ob_id obligation) skipped) metric \<le> sp_skip_limits problem metric"
          using limits True by (simp add: counted[symmetric])
        have deeper: "states_left problem selected (insert (ob_id obligation) skipped) < states_left problem selected skipped"
          by (rule skipping_leaves_less[OF unmet(1,2)])
        have further: "\<forall>(selected', skipped') \<in> ?inner. states_left problem selected (insert (ob_id obligation) skipped)
            < states_left problem selected' skipped'" using less deeper less_trans by fastforce
        have "skipped_by_metric(ob_metric obligation := skipped_by_metric (ob_metric obligation) + 1)
            = skip_counts problem (insert (ob_id obligation) skipped)" using counted counts by simp
        from visit_closesD[OF 1(2)[OF branch(1) ids apart] visited inside(1) within this bounded further] added
        show ?thesis by blast
      qed
      then have last: "improves problem added st'" "seen_closed problem ?inner st'"
        and skips: "skip_counts problem skipped (ob_metric obligation) < sp_skip_limits problem (ob_metric obligation) \<Longrightarrow>
          closed problem st' selected (insert (ob_id obligation) skipped)" by blast+
      have "closed problem st' selected skipped"
        by (rule branching_closed[OF apart unmet ids _ skips]) (use added last closed_improves in blast)+
      then show ?thesis using seen_closed_leave[OF last(2)] improves_trans[OF _ last(1)] added by blast
    qed
  qed
qed

subsection \<open>The search from its start\<close>

lemma search_from_start:
  assumes "distinct (map ob_id (sp_obligations problem))" "keys_apart problem"
    and "visit problem {} {} (\<lambda>_. 0) (start_state candidate_ids) = Inr search"
  shows "se_best search = candidate_ids \<or> (meets problem (se_best search) \<and> se_best search \<subseteq> named_tests problem)"
    "finite tests \<Longrightarrow> meets problem tests \<Longrightarrow> card (se_best search) \<le> card tests"
proof -
  have "improves problem (start_state candidate_ids) search \<and> closed problem search {} {}"
    using visit_closesD[OF visit_keeps[OF assms(1,2)] assms(3), of "{}"]
    by (simp add: skip_counts_def seen_closed_def start_state_def fun_eq_iff)
  then show "se_best search = candidate_ids \<or> (meets problem (se_best search) \<and> se_best search \<subseteq> named_tests problem)"
    "finite tests \<Longrightarrow> meets problem tests \<Longrightarrow> card (se_best search) \<le> card tests"
    by (auto simp: improves_def start_state_def closed_def meets_def)
qed

subsection \<open>Names that keep the keys apart\<close>

lemma split_on_join:
  "xs \<noteq> [] \<Longrightarrow> \<forall>x \<in> set xs. sep \<notin> set x \<Longrightarrow> split_on sep (join [sep] xs) = xs"
proof (induction "[sep]" xs rule: join.induct)
  case (2 s)
  have "split_on sep s = [s]" if "sep \<notin> set s" for s using that by (induction s) auto
  then show ?case using 2 by simp
next
  case (3 s t ss)
  have "split_on sep s = [s]" if "sep \<notin> set s" for s using that by (induction s) auto
  then show ?case using 3 by (simp add: split_on_append_sep)
qed simp

lemma join_inj:
  assumes "join [sep] xs = join [sep] ys" "\<forall>x \<in> set xs \<union> set ys. sep \<notin> set x \<and> x \<noteq> []"
  shows "xs = ys"
proof -
  have empty: "join [sep] zs = [] \<longleftrightarrow> zs = []" if "\<forall>z \<in> set zs. z \<noteq> []" for zs
    using that by (cases "([sep], zs)" rule: join.cases) auto
  show ?thesis
  proof (cases "xs = [] \<or> ys = []")
    case True
    then show ?thesis using assms empty[of xs] empty[of ys] by auto
  next
    case False
    then show ?thesis using assms split_on_join[of xs sep] split_on_join[of ys sep] by (metis UnI1 UnI2)
  qed
qed

lemma join_avoids: "c \<notin> set sep \<Longrightarrow> \<forall>x \<in> set xs. c \<notin> set x \<Longrightarrow> c \<notin> set (join sep xs)"
  by (induction sep xs rule: join.induct) auto

definition plain_name :: "string \<Rightarrow> bool" where
  "plain_name name \<longleftrightarrow> name \<noteq> [] \<and> CHR '','' \<notin> set name \<and> CHR ''|'' \<notin> set name \<and> CHR 0x00 \<notin> set name"

lemma bar_split: "a @ c # b = a' @ c # b' \<Longrightarrow> c \<notin> set a \<Longrightarrow> c \<notin> set a' \<Longrightarrow> a = a' \<and> b = b'"
proof (induction a arbitrary: a')
  case Nil
  then show ?case by (cases a') auto
next
  case (Cons x a)
  then show ?case by (cases a') auto
qed

lemma plain_states_apart:
  assumes "finite tests" "finite ids" and plain: "\<forall>name \<in> tests \<union> ids. plain_name name"
  shows "inj_on (\<lambda>(selected, skipped). state_key selected skipped) (Pow tests \<times> Pow ids)"
proof -
  have "selected = selected' \<and> skipped = skipped'"
    if "selected \<subseteq> tests" "selected' \<subseteq> tests" "skipped \<subseteq> ids" "skipped' \<subseteq> ids"
      "state_key selected skipped = state_key selected' skipped'" for selected selected' skipped skipped'
  proof -
    have finite: "finite selected" "finite selected'" "finite skipped" "finite skipped'"
      using that(1-4) assms(1,2) finite_subset by blast+
    have names: "\<forall>x \<in> set (sorted_list_of_set A). plain_name x" if "finite A" "A \<subseteq> tests \<or> A \<subseteq> ids" for A
      using that plain by auto
    have bar: "CHR ''|'' \<notin> set (join '','' (sorted_list_of_set A))" if "finite A" "A \<subseteq> tests \<or> A \<subseteq> ids" for A
      using names[OF that] by (intro join_avoids) (auto simp: plain_name_def)
    have "join '','' (sorted_list_of_set selected) = join '','' (sorted_list_of_set selected')
        \<and> join '','' (sorted_list_of_set skipped) = join '','' (sorted_list_of_set skipped')"
      using that(5) unfolding state_key_def by (intro bar_split) (use bar finite that(1-4) in auto)
    then have "sorted_list_of_set selected = sorted_list_of_set selected' \<and> sorted_list_of_set skipped = sorted_list_of_set skipped'"
      using names finite that(1-4) by (intro conjI join_inj[of "CHR '',''"]) (auto simp: plain_name_def)
    then show ?thesis using finite by (metis set_sorted_list_of_set)
  qed
  then show ?thesis by (auto simp: inj_on_def)
qed

lemma plain_options_apart:
  "\<forall>name \<in> tests. plain_name name \<Longrightarrow> inj_on option_key {option. sorted option \<and> distinct option \<and> set option \<subseteq> tests}"
  by (intro inj_onI join_inj[of "CHR 0x00"]) (auto simp: plain_name_def)

end
