(* ===== verification/MinimumKept.thy ===== *)
theory MinimumKept
  imports MinimumSearch ViewPart
begin

section \<open>The minimum set keeps the run's coverage\<close>

text \<open>
  An obligation is satisfied by a set of tests exactly when the summary of those tests and their setups
  counts it. So the set the search finds covers, with its setups, what all the tests of the view do.
\<close>

subsection \<open>The options of a list of tests\<close>

lemma canonical_single [simp]: "canonical [x] = [x]"
  by simp

lemma deduplicated_iff:
  assumes "inj_on option_key (canonical ` set options)"
  shows "v \<in> set (deduplicate_options options) \<longleftrightarrow> v \<in> canonical ` set options"
  using assms deduplicated_options[of v options] deduplicate_complete by blast

lemma satisfied_deduplicated:
  assumes "inj_on option_key (canonical ` set options)"
  shows "list_ex (list_all (\<lambda>test. test \<in> selected)) (deduplicate_options options)
    \<longleftrightarrow> list_ex (list_all (\<lambda>test. test \<in> selected)) options"
  using deduplicated_iff[OF assms] by (auto simp: list_ex_iff list_all_iff Bex_def image_iff)

lemma evidence_choice_single: "option \<in> set (evidence_choice tests candidate_ids tests_by_file i) \<Longrightarrow> \<exists>x. option = [x]"
  by (auto simp: evidence_choice_def split: option.splits if_splits)

lemma option_key_single: "inj_on option_key {option. \<exists>x. option = [x]}"
  by (auto intro!: inj_onI)

lemma set_evidence_choices:
  "set (evidence_choices tests candidate_ids tests_by_file ids)
     = (\<Union>i \<in> set ids. set (evidence_choice tests candidate_ids tests_by_file i))"
proof -
  let ?options = "concat (map (evidence_choice tests candidate_ids tests_by_file) ids)"
  have single: "\<exists>x. option = [x]" if "option \<in> set ?options" for option
    using that evidence_choice_single by auto
  have canonical: "canonical ` set ?options = set ?options"
    using single by (force intro!: image_cong[where g = id, simplified])
  have "inj_on option_key (canonical ` set ?options)"
    unfolding canonical by (rule inj_on_subset[OF option_key_single]) (use single in auto)
  then have "set (evidence_choices tests candidate_ids tests_by_file ids) = canonical ` set ?options"
    unfolding evidence_choices_def using deduplicated_iff by blast
  then show ?thesis unfolding canonical by simp
qed

subsection \<open>Tests and their setups\<close>

lemma tests_of_role_entries:
  "map_of (tests_of_role role tests) source_file
     = (case map tc_id (filter (\<lambda>test. tc_role test = role \<and> tc_file test = Some source_file) tests) of
          [] \<Rightarrow> None | ids \<Rightarrow> Some ids)"
  and tests_of_role_tree: "tree_map (tests_of_role role tests)"
proof -
  let ?step = "\<lambda>test by_file. if tc_role test = role
         then (case tc_file test of
             Some source_file \<Rightarrow> tree_entry source_file [] (\<lambda>ids. ids @ [tc_id test]) by_file
           | None \<Rightarrow> by_file)
         else by_file"
  have "tree_map (fold ?step tests []) \<and> map_of (fold ?step tests []) source_file
     = (case map tc_id (filter (\<lambda>test. tc_role test = role \<and> tc_file test = Some source_file) tests) of
          [] \<Rightarrow> None | ids \<Rightarrow> Some ids)" for source_file
  proof (induction tests rule: rev_induct)
    case (snoc test tests)
    show ?case using snoc by (auto split: option.splits list.splits)
  qed simp
  then show "map_of (tests_of_role role tests) source_file
     = (case map tc_id (filter (\<lambda>test. tc_role test = role \<and> tc_file test = Some source_file) tests) of
          [] \<Rightarrow> None | ids \<Rightarrow> Some ids)" "tree_map (tests_of_role role tests)"
    by (simp_all add: tests_of_role_def)
qed

lemma expand_set:
  "expand model selected = selected \<union> set (om_background model)
     \<union> (\<Union>(source_file, setup_ids) \<in> set (om_setup_by_file model).
          if setup_selected model selected source_file then set setup_ids else {})"
proof -
  have "fold (\<lambda>(source_file, setup_ids) expanded.
         if setup_selected model selected source_file then expanded \<union> set setup_ids else expanded) files ids
     = ids \<union> (\<Union>(source_file, setup_ids) \<in> set files.
          if setup_selected model selected source_file then set setup_ids else {})" for files ids
    by (induction files arbitrary: ids) (auto split: if_splits)
  then show ?thesis by (simp add: expand_def)
qed

definition view_choices :: "'v coverage_view \<Rightarrow> string list \<Rightarrow> string list list" where
  "view_choices view = evidence_choices (map_of (rev (map (\<lambda>test. (tc_id test, test)) (cv_tests view))))
     (candidate_tests view) (tests_of_role ''test'' (cv_tests view))"

definition view_model :: "'v coverage_view \<Rightarrow> obligation_model" where
  "view_model view = build_obligations view (candidate_tests view)"

lemma view_model_fields:
  "om_obligations (view_model view) = map (line_obligation (view_choices view)) (unique_lines (cv_lines view))
     @ map (point_obligation (view_choices view)) (cv_points view)
     @ concat (map (alternative_obligations (view_choices view)) (cv_branches view))
     @ concat (map (condition_obligations (view_choices view)) (cv_decisions view))"
  "om_setup_by_file (view_model view) = tests_of_role ''setup'' (cv_tests view)"
  "om_tests_by_file (view_model view) = tests_of_role ''test'' (cv_tests view)"
  "om_background (view_model view) = map tc_id (filter (\<lambda>test. tc_role test = ''background'') (cv_tests view))"
  by (simp_all add: view_model_def build_obligations_def view_choices_def Let_def)

text \<open>Evidence of the run's background is none's: no list of tests names its record.\<close>

definition background_ids :: "'v coverage_view \<Rightarrow> string set" where
  "background_ids view = set (map tc_id (filter (\<lambda>test. tc_role test = ''background'') (cv_tests view)))"

definition evidence_lists :: "'v coverage_view \<Rightarrow> string list list" where
  "evidence_lists view = map lr_tests (cv_lines view) @ map pr_tests (cv_points view)
     @ concat (map (\<lambda>branch. map ar_tests (br_alternatives branch)) (cv_branches view))
     @ concat (map (\<lambda>decision. map vo_tests (dr_vector_observations decision)) (cv_decisions view))"

definition tests_apart :: "'v coverage_view \<Rightarrow> bool" where
  "tests_apart view \<longleftrightarrow> distinct (map tc_id (cv_tests view))
     \<and> list_all (\<lambda>ids. set ids \<inter> background_ids view = {}) (evidence_lists view)"

lemma setup_selected_iff:
  "setup_selected (view_model view) selected source_file
     \<longleftrightarrow> (\<exists>test \<in> set (cv_tests view). tc_role test = ''test'' \<and> tc_file test = Some source_file \<and> tc_id test \<in> selected)"
proof -
  let ?ids = "map tc_id (filter (\<lambda>test. tc_role test = ''test'' \<and> tc_file test = Some source_file) (cv_tests view))"
  have "setup_selected (view_model view) selected source_file \<longleftrightarrow> list_ex (\<lambda>i. i \<in> selected) ?ids"
    by (simp add: setup_selected_def view_model_fields(3) tests_of_role_entries split: list.splits)
  then show ?thesis by (auto simp: list_ex_iff)
qed

lemma expand_iff:
  "i \<in> expand (view_model view) selected \<longleftrightarrow> i \<in> selected \<or> i \<in> background_ids view
     \<or> (\<exists>test \<in> set (cv_tests view). \<exists>source_file. tc_id test = i \<and> tc_role test = ''setup'' \<and> tc_file test = Some source_file
          \<and> setup_selected (view_model view) selected source_file)"
proof -
  have entry: "(source_file, ids) \<in> set (tests_of_role ''setup'' (cv_tests view)) \<longleftrightarrow>
      ids = map tc_id (filter (\<lambda>test. tc_role test = ''setup'' \<and> tc_file test = Some source_file) (cv_tests view)) \<and> ids \<noteq> []"
    for source_file ids
    by (auto simp: tree_map_in[OF tests_of_role_tree] tests_of_role_entries split: list.splits)
  have "i \<in> (\<Union>(source_file, setup_ids) \<in> set (om_setup_by_file (view_model view)).
          if setup_selected (view_model view) selected source_file then set setup_ids else {})
    \<longleftrightarrow> (\<exists>source_file ids. (source_file, ids) \<in> set (tests_of_role ''setup'' (cv_tests view))
        \<and> setup_selected (view_model view) selected source_file \<and> i \<in> set ids)"
    unfolding view_model_fields(2) by (force split: if_splits)
  also have "\<dots> \<longleftrightarrow> (\<exists>test \<in> set (cv_tests view). \<exists>source_file. tc_id test = i \<and> tc_role test = ''setup''
      \<and> tc_file test = Some source_file \<and> setup_selected (view_model view) selected source_file)"
    unfolding entry by (auto simp: filter_empty_conv)
  finally show ?thesis unfolding expand_set view_model_fields(4) background_ids_def by blast
qed

lemma setup_choice:
  "tests i = Some test \<Longrightarrow> tc_role test = ''setup'' \<Longrightarrow>
     evidence_choice tests candidate_ids (tests_of_role ''test'' all_tests) i
       = (case tc_file test of None \<Rightarrow> [] | Some source_file \<Rightarrow>
           map (\<lambda>candidate. [candidate])
             (map tc_id (filter (\<lambda>test. tc_role test = ''test'' \<and> tc_file test = Some source_file) all_tests)))"
  by (auto simp: evidence_choice_def tests_of_role_entries simp del: map_map split: option.split list.split)

lemma choice_iff:
  assumes "distinct (map tc_id (cv_tests view))" "selected \<subseteq> candidate_tests view" "i \<notin> background_ids view"
  shows "(\<exists>option \<in> set (evidence_choice (map_of (rev (map (\<lambda>test. (tc_id test, test)) (cv_tests view))))
        (candidate_tests view) (tests_of_role ''test'' (cv_tests view)) i). set option \<subseteq> selected)
     \<longleftrightarrow> i \<in> expand (view_model view) selected"
proof -
  let ?tests = "map_of (rev (map (\<lambda>test. (tc_id test, test)) (cv_tests view)))"
  have found: "?tests i = Some test \<longleftrightarrow> test \<in> set (cv_tests view) \<and> tc_id test = i" for test
    using assms(1) by (auto simp: rev_map[symmetric] map_of_eq_Some_iff comp_def)
  have same: "test = other" if "test \<in> set (cv_tests view)" "other \<in> set (cv_tests view)" "tc_id test = tc_id other" for test other
    using assms(1) that by (auto simp: distinct_map dest: inj_onD)
  show ?thesis
  proof (cases "?tests i")
    case None
    then have "\<nexists>test. test \<in> set (cv_tests view) \<and> tc_id test = i" using found by (metis option.distinct(1))
    then show ?thesis using assms(2,3) None
      by (auto simp: evidence_choice_def expand_iff candidate_tests_def)
  next
    case (Some test)
    then have test: "test \<in> set (cv_tests view)" "tc_id test = i" using found by blast+
    have candidate: "i \<in> candidate_tests view \<longleftrightarrow> tc_role test = ''test''"
      using test same by (auto simp: candidate_tests_def)
    show ?thesis
    proof (cases "tc_role test = ''setup''")
      case True
      then have outside: "i \<notin> selected" using candidate assms(2) by auto
      have "i \<in> expand (view_model view) selected
          \<longleftrightarrow> (\<exists>source_file. tc_file test = Some source_file \<and> setup_selected (view_model view) selected source_file)"
        using outside assms(3) test same True unfolding expand_iff by blast
      moreover have "(\<exists>option \<in> set (evidence_choice ?tests (candidate_tests view) (tests_of_role ''test'' (cv_tests view)) i). set option \<subseteq> selected)
          \<longleftrightarrow> (\<exists>source_file. tc_file test = Some source_file \<and> setup_selected (view_model view) selected source_file)"
        unfolding setup_choice[where tests = ?tests, OF Some True] setup_selected_iff by (cases "tc_file test") auto
      ultimately show ?thesis by simp
    next
      case False
      then have "i \<in> expand (view_model view) selected \<longleftrightarrow> i \<in> selected"
        using assms(3) test same unfolding expand_iff by blast
      then show ?thesis using Some False assms(2) by (auto simp: evidence_choice_def)
    qed
  qed
qed

lemma choices_iff:
  assumes "tests_apart view" "selected \<subseteq> candidate_tests view" "set ids \<inter> background_ids view = {}"
  shows "list_ex (list_all (\<lambda>test. test \<in> selected)) (view_choices view ids)
    \<longleftrightarrow> list_ex (\<lambda>i. i \<in> expand (view_model view) selected) ids"
proof -
  have "list_ex (list_all (\<lambda>test. test \<in> selected)) (view_choices view ids)
      \<longleftrightarrow> (\<exists>i \<in> set ids. \<exists>option \<in> set (evidence_choice (map_of (rev (map (\<lambda>test. (tc_id test, test)) (cv_tests view))))
        (candidate_tests view) (tests_of_role ''test'' (cv_tests view)) i). set option \<subseteq> selected)"
    unfolding list_ex_iff list_all_iff view_choices_def set_evidence_choices by blast
  also have "\<dots> \<longleftrightarrow> (\<exists>i \<in> set ids. i \<in> expand (view_model view) selected)"
    using choice_iff[OF _ assms(2)] assms(1,3) unfolding tests_apart_def by blast
  finally show ?thesis by (simp add: list_ex_iff)
qed

subsection \<open>An obligation is satisfied by what its summary counts\<close>

abbreviation counted :: "'v coverage_view \<Rightarrow> string set \<Rightarrow> string list \<Rightarrow> bool" where
  "counted view selected ids \<equiv> list_ex (\<lambda>i. i \<in> expand (view_model view) selected) ids"

definition options_apart :: "'v coverage_view \<Rightarrow> bool" where
  "options_apart view \<longleftrightarrow>
     inj_on option_key {option. sorted option \<and> distinct option \<and> set option \<subseteq> candidate_tests view}"

lemma choice_within:
  assumes "option \<in> set (evidence_choice tests candidate_ids tests_by_file i)"
    and "\<And>source_file ids. map_of tests_by_file source_file = Some ids \<Longrightarrow> set ids \<subseteq> candidate_ids"
  shows "set option \<subseteq> candidate_ids"
proof (cases "tests i")
  case (Some test)
  show ?thesis
  proof (cases "tc_role test = ''setup''")
    case True
    then obtain source_file ids where "map_of tests_by_file source_file = Some ids" "option \<in> (\<lambda>candidate. [candidate]) ` set ids"
      using assms(1) Some by (cases "tc_file test"; cases "map_of tests_by_file (the (tc_file test))") (auto simp: evidence_choice_def)
    then show ?thesis using assms(2)[of source_file ids] by auto
  qed (use assms(1) Some in \<open>simp add: evidence_choice_def split: if_splits\<close>)
qed (use assms(1) in \<open>simp add: evidence_choice_def\<close>)

lemma option_within:
  assumes "option \<in> set (view_choices view ids)"
  shows "set option \<subseteq> candidate_tests view"
proof -
  have files: "map_of (tests_of_role ''test'' (cv_tests view)) source_file = Some ids \<Longrightarrow> set ids \<subseteq> candidate_tests view"
    for source_file ids
  proof -
    assume "map_of (tests_of_role ''test'' (cv_tests view)) source_file = Some ids"
    then have "ids = map tc_id (filter (\<lambda>test. tc_role test = ''test'' \<and> tc_file test = Some source_file) (cv_tests view))"
      unfolding tests_of_role_entries by (simp split: list.splits)
    then show "set ids \<subseteq> candidate_tests view" by (auto simp: candidate_tests_def)
  qed
  obtain i where "option \<in> set (evidence_choice (map_of (rev (map (\<lambda>test. (tc_id test, test)) (cv_tests view))))
        (candidate_tests view) (tests_of_role ''test'' (cv_tests view)) i)"
    using assms unfolding view_choices_def set_evidence_choices by blast
  then show ?thesis using files by (rule choice_within)
qed

lemma evidence_disjoint:
  assumes "tests_apart view"
  shows "line \<in> set (cv_lines view) \<Longrightarrow> set (lr_tests line) \<inter> background_ids view = {}"
    "point \<in> set (cv_points view) \<Longrightarrow> set (pr_tests point) \<inter> background_ids view = {}"
    "branch \<in> set (cv_branches view) \<Longrightarrow> alternative \<in> set (br_alternatives branch) \<Longrightarrow>
       set (ar_tests alternative) \<inter> background_ids view = {}"
    "decision \<in> set (cv_decisions view) \<Longrightarrow> observation \<in> set (dr_vector_observations decision) \<Longrightarrow>
       set (vo_tests observation) \<inter> background_ids view = {}"
  using assms unfolding tests_apart_def evidence_lists_def list_all_iff by fastforce+

lemma satisfied_line:
  assumes "tests_apart view" "selected \<subseteq> candidate_tests view" "line \<in> set (cv_lines view)"
  shows "obligation_satisfied (line_obligation (view_choices view) (key, line)) selected \<longleftrightarrow> counted view selected (lr_tests line)"
  using choices_iff[OF assms(1,2) evidence_disjoint(1)[OF assms(1,3)]]
  by (simp add: obligation_satisfied_def line_obligation_def case_prod_unfold)

lemma satisfied_point:
  assumes "tests_apart view" "selected \<subseteq> candidate_tests view" "point \<in> set (cv_points view)"
  shows "obligation_satisfied (point_obligation (view_choices view) point) selected \<longleftrightarrow> counted view selected (pr_tests point)"
  using choices_iff[OF assms(1,2) evidence_disjoint(2)[OF assms(1,3)]]
  by (simp add: obligation_satisfied_def point_obligation_def split: point_kind.split)

lemma satisfied_alternative:
  assumes "tests_apart view" "selected \<subseteq> candidate_tests view" "branch \<in> set (cv_branches view)"
    "alternative \<in> set (br_alternatives branch)"
  shows "obligation_satisfied \<lparr>ob_id = i, ob_metric = ObligationBranches, ob_options = view_choices view (ar_tests alternative)\<rparr> selected
    \<longleftrightarrow> counted view selected (ar_tests alternative)"
  using choices_iff[OF assms(1,2) evidence_disjoint(3)[OF assms(1,3,4)]]
  by (simp add: obligation_satisfied_def)

lemma in_concat_map: "y \<in> set (f x) \<Longrightarrow> x \<in> set xs \<Longrightarrow> y \<in> set (concat (map f xs))"
  by auto

lemma satisfied_pair:
  "list_ex (list_all (\<lambda>test. test \<in> selected)) (pair_options choices condition first second)
     \<longleftrightarrow> is_independence_pair (vo_vector first) (vo_vector second) condition
       \<and> list_ex (list_all (\<lambda>test. test \<in> selected)) (choices (vo_tests first))
       \<and> list_ex (list_all (\<lambda>test. test \<in> selected)) (choices (vo_tests second))"
  by (auto simp: pair_options_def list_ex_iff list_all_iff Let_def)

lemma satisfied_condition:
  assumes "tests_apart view" "options_apart view" "selected \<subseteq> candidate_tests view" "decision \<in> set (cv_decisions view)"
  shows "obligation_satisfied (condition_obligation (view_choices view) decision condition) selected
    \<longleftrightarrow> (\<exists>left right. left < right \<and> right < length (dr_vector_observations decision)
        \<and> is_independence_pair (vo_vector (dr_vector_observations decision ! left))
            (vo_vector (dr_vector_observations decision ! right)) condition
        \<and> counted view selected (vo_tests (dr_vector_observations decision ! left))
        \<and> counted view selected (vo_tests (dr_vector_observations decision ! right)))"
proof -
  let ?os = "dr_vector_observations decision"
  let ?options = "concat (map (\<lambda>left. concat (map (\<lambda>right.
      pair_options (view_choices view) condition (?os ! left) (?os ! right)) [left + 1..<length ?os])) [0..<length ?os])"
  have pair: "set option \<subseteq> candidate_tests view"
    if "option \<in> set (pair_options (view_choices view) condition first second)" for option first second
    using that option_within by (fastforce simp: pair_options_def Let_def split: if_splits)
  have within: "set option \<subseteq> candidate_tests view" if "option \<in> set ?options" for option
  proof -
    obtain left right where "option \<in> set (pair_options (view_choices view) condition (?os ! left) (?os ! right))"
      using \<open>option \<in> set ?options\<close> by (auto simp del: upt_Suc)
    then show ?thesis by (rule pair)
  qed
  have "canonical ` set ?options \<subseteq> {option. sorted option \<and> distinct option \<and> set option \<subseteq> candidate_tests view}"
  proof
    fix option assume "option \<in> canonical ` set ?options"
    then obtain left where "left \<in> set ?options" "option = canonical left" by blast
    then show "option \<in> {option. sorted option \<and> distinct option \<and> set option \<subseteq> candidate_tests view}"
      using within[of left] distinct_canonical by (simp add: sorted_remdups_adj)
  qed
  then have "inj_on option_key (canonical ` set ?options)"
    using assms(2) inj_on_subset unfolding options_apart_def by blast
  then have "obligation_satisfied (condition_obligation (view_choices view) decision condition) selected
      \<longleftrightarrow> list_ex (list_all (\<lambda>test. test \<in> selected)) ?options"
    by (simp add: obligation_satisfied_def condition_obligation_def Let_def satisfied_deduplicated del: upt_Suc)
  also have "\<dots> \<longleftrightarrow> (\<exists>left right. left < right \<and> right < length ?os
      \<and> list_ex (list_all (\<lambda>test. test \<in> selected)) (pair_options (view_choices view) condition (?os ! left) (?os ! right)))"
    (is "?lhs \<longleftrightarrow> ?rhs")
  proof
    assume ?lhs
    then obtain option left right where "list_all (\<lambda>test. test \<in> selected) option" "left < right" "right < length ?os"
      "option \<in> set (pair_options (view_choices view) condition (?os ! left) (?os ! right))"
      by (auto simp: list_ex_iff Suc_le_eq)
    then show ?rhs by (auto simp: list_ex_iff)
  next
    assume ?rhs
    then obtain left right option where "left < right" "right < length ?os" "list_all (\<lambda>test. test \<in> selected) option"
      "option \<in> set (pair_options (view_choices view) condition (?os ! left) (?os ! right))" by (auto simp: list_ex_iff)
    then have "right \<in> set [left + 1..<length ?os]" "left \<in> set [0..<length ?os]" by auto
    then have "option \<in> set ?options"
      using \<open>option \<in> set (pair_options (view_choices view) condition (?os ! left) (?os ! right))\<close>
      by (intro in_concat_map[of _ _ left] in_concat_map[of _ _ right])
    then show ?lhs using \<open>list_all (\<lambda>test. test \<in> selected) option\<close> by (auto simp: list_ex_iff simp del: upt_Suc)
  qed
  finally have options: "obligation_satisfied (condition_obligation (view_choices view) decision condition) selected \<longleftrightarrow> \<dots>" .
  have "list_ex (list_all (\<lambda>test. test \<in> selected)) (view_choices view (vo_tests (?os ! n)))
      \<longleftrightarrow> counted view selected (vo_tests (?os ! n))" if "n < length ?os" for n
    by (rule choices_iff[OF assms(1,3) evidence_disjoint(4)[OF assms(1,4)]]) (use that in simp)
  then show ?thesis unfolding options satisfied_pair using less_trans by blast
qed

lemma independence_irreflexive: "\<not> is_independence_pair v v c"
  by (auto simp: is_independence_pair_def split: option.splits)

lemma satisfied_condition_iff:
  assumes "tests_apart view" "options_apart view" "selected \<subseteq> candidate_tests view" "decision \<in> set (cv_decisions view)"
  shows "obligation_satisfied (condition_obligation (view_choices view) decision condition) selected
    \<longleftrightarrow> (\<exists>v \<in> set (map vo_vector (filter (\<lambda>o'. counted view selected (vo_tests o')) (dr_vector_observations decision))).
         \<exists>w \<in> set (map vo_vector (filter (\<lambda>o'. counted view selected (vo_tests o')) (dr_vector_observations decision))).
           is_independence_pair v w condition)" (is "_ \<longleftrightarrow> ?pair")
proof
  assume "obligation_satisfied (condition_obligation (view_choices view) decision condition) selected"
  then obtain left right where "left < length (dr_vector_observations decision)" "right < length (dr_vector_observations decision)"
    "is_independence_pair (vo_vector (dr_vector_observations decision ! left))
       (vo_vector (dr_vector_observations decision ! right)) condition"
    "counted view selected (vo_tests (dr_vector_observations decision ! left))"
    "counted view selected (vo_tests (dr_vector_observations decision ! right))"
    unfolding satisfied_condition[OF assms] using less_trans by blast
  then have "vo_vector (dr_vector_observations decision ! left)
        \<in> set (map vo_vector (filter (\<lambda>o'. counted view selected (vo_tests o')) (dr_vector_observations decision)))"
    "vo_vector (dr_vector_observations decision ! right)
        \<in> set (map vo_vector (filter (\<lambda>o'. counted view selected (vo_tests o')) (dr_vector_observations decision)))"
    "is_independence_pair (vo_vector (dr_vector_observations decision ! left))
       (vo_vector (dr_vector_observations decision ! right)) condition" by auto
  then show ?pair by blast
next
  assume ?pair
  then obtain a b where ab: "a \<in> set (dr_vector_observations decision)" "b \<in> set (dr_vector_observations decision)"
    "counted view selected (vo_tests a)" "counted view selected (vo_tests b)"
    "is_independence_pair (vo_vector a) (vo_vector b) condition" by auto
  then obtain m n where mn: "m < length (dr_vector_observations decision)" "n < length (dr_vector_observations decision)"
    "a = dr_vector_observations decision ! m" "b = dr_vector_observations decision ! n" by (metis in_set_conv_nth)
  have "m \<noteq> n" using ab(5) mn independence_irreflexive by metis
  then consider "m < n" | "n < m" by linarith
  then show "obligation_satisfied (condition_obligation (view_choices view) decision condition) selected"
  proof cases
    case 1
    then show ?thesis unfolding satisfied_condition[OF assms] using ab mn by blast
  next
    case 2
    then show ?thesis unfolding satisfied_condition[OF assms] using ab mn is_independence_pair_sym by blast
  qed
qed

subsection \<open>The problem of a view without a target\<close>

text \<open>The texts of the search tell the view's obligations, tests and states apart.\<close>

definition names_apart :: "'v coverage_view \<Rightarrow> bool" where
  "names_apart view \<longleftrightarrow> distinct (map ob_id (om_obligations (view_model view)))
     \<and> inj_on (\<lambda>(selected, skipped). state_key selected skipped)
         (Pow (candidate_tests view) \<times> Pow (ob_id ` set (om_obligations (view_model view))))
     \<and> options_apart view"

lemma plain_names_apart:
  assumes "distinct (map ob_id (om_obligations (view_model view)))"
    and "\<forall>name \<in> candidate_tests view \<union> ob_id ` set (om_obligations (view_model view)). plain_name name"
  shows "names_apart view"
  using assms plain_states_apart[of "candidate_tests view" "ob_id ` set (om_obligations (view_model view))"]
    plain_options_apart[of "candidate_tests view"]
  by (auto simp: names_apart_def options_apart_def candidate_tests_def)

abbreviation metric_problem :: "'v coverage_view \<Rightarrow> rat option \<Rightarrow> minimize_metric \<Rightarrow> nat \<Rightarrow> search_problem" where
  "metric_problem view target metric max_states \<equiv>
     minimum_problem (view_model view) (candidate_tests view) target metric max_states"

lemma metric_problem_obligations:
  "sp_obligations (metric_problem view target metric max_states)
     = filter (\<lambda>obligation. metric_selected (ob_metric obligation) metric) (om_obligations (view_model view))"
  by (simp add: minimum_problem_def Let_def)

lemma model_options_within:
  assumes "obligation \<in> set (om_obligations (view_model view))" "option \<in> set (ob_options obligation)"
  shows "set option \<subseteq> candidate_tests view"
proof -
  have choices: "set option \<subseteq> candidate_tests view" if "option \<in> set (view_choices view ids)" for ids
    by (rule option_within[OF that])
  have pairs: "set option \<subseteq> candidate_tests view"
    if mem: "option \<in> set (ob_options (condition_obligation (view_choices view) decision condition))" for decision condition
  proof -
    obtain left first second where "option = canonical left" "left \<in> set (pair_options (view_choices view) condition first second)"
      using mem deduplicated_options unfolding condition_obligation_def Let_def by (fastforce simp del: upt_Suc)
    then show ?thesis using option_within by (fastforce simp: pair_options_def Let_def split: if_splits)
  qed
  have "(\<exists>ids. ob_options obligation = view_choices view ids)
      \<or> (\<exists>decision condition. obligation = condition_obligation (view_choices view) decision condition)"
    using assms(1) unfolding view_model_fields(1)
    by (auto simp: line_obligation_def point_obligation_def alternative_obligations_def condition_obligations_def
        split: point_kind.splits)
  then show ?thesis
  proof (elim disjE exE)
    fix ids assume "ob_options obligation = view_choices view ids"
    then show ?thesis using choices[of ids] assms(2) by simp
  next
    fix decision condition assume "obligation = condition_obligation (view_choices view) decision condition"
    then show ?thesis using pairs[of decision condition] assms(2) by simp
  qed
qed

lemma named_candidates: "named_tests (metric_problem view target metric max_states) \<subseteq> candidate_tests view"
  using model_options_within unfolding named_tests_def metric_problem_obligations by fastforce

lemma finite_candidate_tests [simp]: "finite (candidate_tests view)"
  by (simp add: candidate_tests_def)

lemma problem_keys_apart:
  assumes "names_apart view"
  shows "keys_apart (metric_problem view target metric max_states)"
    "distinct (map ob_id (sp_obligations (metric_problem view target metric max_states)))"
proof -
  let ?p = "metric_problem view target metric max_states" and ?ids = "ob_id ` set (om_obligations (view_model view))"
  have states: "inj_on (\<lambda>(selected, skipped). state_key selected skipped) (Pow (candidate_tests view) \<times> Pow ?ids)"
    and options: "inj_on option_key {option. sorted option \<and> distinct option \<and> set option \<subseteq> candidate_tests view}"
    using assms by (simp_all add: names_apart_def options_apart_def)
  have ids: "obligation_ids ?p \<subseteq> ?ids" unfolding obligation_ids_def metric_problem_obligations by auto
  have named: "named_tests ?p \<subseteq> candidate_tests view" by (rule named_candidates)
  have "inj_on (\<lambda>(selected, skipped). state_key selected skipped) (Pow (named_tests ?p) \<times> Pow (obligation_ids ?p))"
    by (rule inj_on_subset[OF states]) (use ids named in auto)
  moreover have "inj_on option_key {option. sorted option \<and> distinct option \<and> set option \<subseteq> named_tests ?p}"
    by (rule inj_on_subset[OF options]) (use named in auto)
  ultimately show "keys_apart ?p" by (simp add: keys_apart_def)
  show "distinct (map ob_id (sp_obligations (metric_problem view target metric max_states)))"
    using assms unfolding names_apart_def metric_problem_obligations by (simp add: distinct_map_filter)
qed

text \<open>A set of tests keeps what the tests cover when it satisfies every obligation of the metric all of
  them satisfy.\<close>

definition keeps_covered :: "'v coverage_view \<Rightarrow> minimize_metric \<Rightarrow> string set \<Rightarrow> bool" where
  "keeps_covered view metric selected \<longleftrightarrow>
     list_all (\<lambda>obligation. metric_selected (ob_metric obligation) metric \<longrightarrow>
         obligation_satisfied obligation (candidate_tests view) \<longrightarrow> obligation_satisfied obligation selected)
       (om_obligations (build_obligations view (candidate_tests view)))"

lemma all_metrics: "metric_selected m metric \<longleftrightarrow> m \<in> set (selected_metrics metric)"
  by (cases m) (auto simp: selected_metrics_def)

lemma no_target_limit:
  "sp_skip_limits (metric_problem view None metric max_states) m
     = length (left_over (metric_problem view None metric max_states) {} (candidate_tests view) m)"
  by (auto simp: minimum_problem_def Let_def skip_limit_def left_over_def all_metrics[symmetric] filter_empty_conv
      intro!: arg_cong[where f = length] filter_cong)

lemma meets_iff_keeps:
  assumes "selected \<subseteq> candidate_tests view"
  shows "meets (metric_problem view None metric max_states) selected \<longleftrightarrow> keeps_covered view metric selected"
proof -
  let ?p = "metric_problem view None metric max_states" and ?C = "candidate_tests view"
  have "length (left_over ?p {} selected m) \<le> length (left_over ?p {} ?C m)
      \<longleftrightarrow> (\<forall>obligation \<in> set (sp_obligations ?p). ob_metric obligation = m \<longrightarrow>
        obligation_satisfied obligation ?C \<longrightarrow> obligation_satisfied obligation selected)" (is "?few \<longleftrightarrow> ?kept") for m
  proof
    assume few: ?few
    show ?kept
    proof (intro ballI impI)
      fix obligation assume o: "obligation \<in> set (sp_obligations ?p)" "ob_metric obligation = m" "obligation_satisfied obligation ?C"
      show "obligation_satisfied obligation selected"
      proof (rule ccontr)
        assume "\<not> obligation_satisfied obligation selected"
        then have "length (left_over ?p {} ?C m) < length (left_over ?p {} selected m)"
          unfolding left_over_def by (intro length_filter_or[OF o(1)]) (use o assms satisfied_mono in auto)
        then show False using few by simp
      qed
    qed
  next
    assume ?kept
    then show ?few unfolding left_over_def by (intro length_filter_mono) blast
  qed
  then show ?thesis
    unfolding meets_def within_limits_def no_target_limit keeps_covered_def metric_problem_obligations
    by (auto simp: list_all_iff view_model_def)
qed

lemma minimum_set_parts:
  assumes "minimum_test_set view target metric max_states = Inr r"
  obtains search goal where "visit (metric_problem view goal metric max_states) {} {} (\<lambda>_. 0) (start_state (candidate_tests view)) = Inr search"
    "valid_targets target = Inr goal" "ms_selected r = sorted_list_of_set (se_best search)"
    "coverage_summary_for_tests view (expand (view_model view) (se_best search)) = Inr (ms_summary r)"
  using assms
  by (auto simp: minimum_test_set_def refused_def summary_of_tests_def rbind_Inr_iff Let_def view_model_def
      split: sum.splits if_splits)

lemma minimum_set_found:
  assumes "minimum_test_set view None metric max_states = Inr r" "names_apart view"
  shows "distinct (ms_selected r)" "set (ms_selected r) \<subseteq> candidate_tests view" "keeps_covered view metric (set (ms_selected r))"
    "tests \<subseteq> candidate_tests view \<Longrightarrow> keeps_covered view metric tests \<Longrightarrow> length (ms_selected r) \<le> card tests"
    "coverage_summary_for_tests view (expand (view_model view) (set (ms_selected r))) = Inr (ms_summary r)"
proof -
  obtain search where search: "visit (metric_problem view None metric max_states) {} {} (\<lambda>_. 0) (start_state (candidate_tests view)) = Inr search"
    "ms_selected r = sorted_list_of_set (se_best search)"
    "coverage_summary_for_tests view (expand (view_model view) (se_best search)) = Inr (ms_summary r)"
  proof -
    have "valid_targets None = Inr None" by (simp add: valid_targets_def)
    then show thesis using minimum_set_parts[OF assms(1)] that by fastforce
  qed
  note found = search_from_start[OF problem_keys_apart(2,1)[OF assms(2)] search(1)]
  have inside: "se_best search \<subseteq> candidate_tests view" using found(1) named_candidates by blast
  then have finite: "finite (se_best search)" using finite_candidate_tests finite_subset by blast
  then have set: "set (ms_selected r) = se_best search" by (simp add: search(2))
  show "distinct (ms_selected r)" by (simp add: search(2))
  show "set (ms_selected r) \<subseteq> candidate_tests view" using inside set by simp
  have "keeps_covered view metric (candidate_tests view)" by (simp add: keeps_covered_def list_all_iff)
  then show "keeps_covered view metric (set (ms_selected r))"
    using found(1) meets_iff_keeps[OF inside, of metric max_states] set by metis
  show "length (ms_selected r) \<le> card tests" if "tests \<subseteq> candidate_tests view" "keeps_covered view metric tests"
  proof -
    have "meets (metric_problem view None metric max_states) tests" using that meets_iff_keeps by blast
    then have "card (se_best search) \<le> card tests" using found(2) that(1) finite_candidate_tests finite_subset by blast
    then show ?thesis using finite by (simp add: search(2))
  qed
  show "coverage_summary_for_tests view (expand (view_model view) (set (ms_selected r))) = Inr (ms_summary r)"
    using search(3) set by simp
qed

text \<open>C8: Without a target, the set \<open>minimize\<close> finds is a smallest one: it is of the view's tests, it satisfies
  every obligation of the metric that all of them together do, and no set of tests that does is smaller, so
  the \<open>optimal\<close> it reports is true, as long as the texts the search remembers states by tell them apart
  (\<open>names_apart\<close>), which they do when no id holds a comma or a bar. With a target it need not be
  (\<open>unmeasured_line_keeps_every_test\<close>).\<close>

theorem minimum_set_is_smallest:
  assumes "names_apart view" and "minimum_test_set view None metric max_states = Inr r"
  shows "set (ms_selected r) \<subseteq> candidate_tests view \<and> keeps_covered view metric (set (ms_selected r))
    \<and> list_all (\<lambda>tests. keeps_covered view metric (set tests) \<longrightarrow> length (ms_selected r) \<le> length tests)
        (subseqs (sorted_list_of_set (candidate_tests view)))"
proof -
  have "length (ms_selected r) \<le> length tests"
    if "tests \<in> set (subseqs (sorted_list_of_set (candidate_tests view)))" "keeps_covered view metric (set tests)" for tests
  proof -
    have "set tests \<in> set ` set (subseqs (sorted_list_of_set (candidate_tests view)))" using that(1) by blast
    then have "set tests \<subseteq> candidate_tests view" by (simp add: subseqs_powset)
    then have "length (ms_selected r) \<le> card (set tests)" using minimum_set_found(4)[OF assms(2,1)] that(2) by blast
    then show ?thesis using card_length le_trans by blast
  qed
  then show ?thesis using minimum_set_found(2,3)[OF assms(2,1)] by (simp add: list_all_iff)
qed

subsection \<open>The coverage of the set is the coverage of all tests\<close>

lemma keeps_all:
  assumes "keeps_covered view MinimizeAll selected" "selected \<subseteq> candidate_tests view"
    "obligation \<in> set (om_obligations (view_model view))"
  shows "obligation_satisfied obligation selected \<longleftrightarrow> obligation_satisfied obligation (candidate_tests view)"
proof
  show "obligation_satisfied obligation selected \<Longrightarrow> obligation_satisfied obligation (candidate_tests view)"
    using satisfied_mono assms(2) by blast
  have "metric_selected (ob_metric obligation) MinimizeAll" by (simp add: metric_selected_def)
  then show "obligation_satisfied obligation (candidate_tests view) \<Longrightarrow> obligation_satisfied obligation selected"
    using assms(1,3) by (simp only: keeps_covered_def list_all_iff view_model_def)
qed

lemma unique_lines_all:
  assumes "distinct (map (\<lambda>line. (lr_file line, lr_line line)) lines)" "line \<in> set lines"
  shows "((lr_file line, lr_line line), line) \<in> set (unique_lines lines)"
proof -
  have "tree_map (unique_lines lines) \<and> (\<forall>line \<in> set lines. map_of (unique_lines lines) (lr_file line, lr_line line) = Some line)"
    using assms(1) unfolding unique_lines_def
  proof (induction lines rule: rev_induct)
    case (snoc l lines)
    let ?key = "\<lambda>line. (lr_file line, lr_line line)"
    have others: "?key line \<noteq> ?key l" if "line \<in> set lines" for line
    proof
      assume "?key line = ?key l"
      then have "?key l \<in> set (map ?key lines)" using that by (simp only: set_map) (rule image_eqI[OF sym])
      moreover have "?key l \<notin> set (map ?key lines)" using snoc.prems by (simp only: map_append distinct_append list.map list.set) blast
      ultimately show False by blast
    qed
    let ?kept = "fold (\<lambda>line. tree_insert (?key line) line) lines []"
    have IH: "tree_map ?kept" "\<And>line. line \<in> set lines \<Longrightarrow> map_of ?kept (?key line) = Some line"
      using snoc.IH snoc.prems by (simp_all only: map_append distinct_append)
    have "map_of (tree_insert (?key l) l ?kept) (?key line) = Some line" if "line \<in> set (lines @ [l])" for line
    proof (cases "line = l")
      case True
      then show ?thesis by simp
    next
      case False
      then have "line \<in> set lines" using that by simp
      then show ?thesis using others[of line] IH(2)[of line] by (simp del: prod.inject)
    qed
    then show ?case using tree_map_insert[OF IH(1)] by simp
  qed simp
  then show ?thesis using assms(2) by (simp add: tree_map_in)
qed

lemma same_counted:
  assumes apart: "names_apart view" "tests_apart view"
    and lines: "distinct (map (\<lambda>line. (lr_file line, lr_line line)) (cv_lines view))"
    and kept: "keeps_covered view MinimizeAll selected" "selected \<subseteq> candidate_tests view"
  shows "line \<in> set (cv_lines view) \<Longrightarrow> counted view selected (lr_tests line) \<longleftrightarrow> counted view (candidate_tests view) (lr_tests line)"
    "point \<in> set (cv_points view) \<Longrightarrow> counted view selected (pr_tests point) \<longleftrightarrow> counted view (candidate_tests view) (pr_tests point)"
    "branch \<in> set (cv_branches view) \<Longrightarrow> alternative \<in> set (br_alternatives branch) \<Longrightarrow>
       counted view selected (ar_tests alternative) \<longleftrightarrow> counted view (candidate_tests view) (ar_tests alternative)"
    "decision \<in> set (cv_decisions view) \<Longrightarrow> condition < length (dm_conditions (dr_meta decision)) \<Longrightarrow>
       (\<exists>v \<in> set (map vo_vector (filter (\<lambda>o'. counted view selected (vo_tests o')) (dr_vector_observations decision))).
         \<exists>w \<in> set (map vo_vector (filter (\<lambda>o'. counted view selected (vo_tests o')) (dr_vector_observations decision))).
           is_independence_pair v w condition)
       \<longleftrightarrow> (\<exists>v \<in> set (map vo_vector (filter (\<lambda>o'. counted view (candidate_tests view) (vo_tests o')) (dr_vector_observations decision))).
         \<exists>w \<in> set (map vo_vector (filter (\<lambda>o'. counted view (candidate_tests view) (vo_tests o')) (dr_vector_observations decision))).
           is_independence_pair v w condition)"
proof -
  note all = keeps_all[OF kept]
  have options: "options_apart view" using apart(1) by (simp add: names_apart_def)
  note obligations = view_model_fields(1)
  show "counted view selected (lr_tests line) \<longleftrightarrow> counted view (candidate_tests view) (lr_tests line)" if line: "line \<in> set (cv_lines view)"
  proof -
    have "line_obligation (view_choices view) ((lr_file line, lr_line line), line) \<in> set (om_obligations (view_model view))"
      unfolding obligations using unique_lines_all[OF lines line] by auto
    from all[OF this] show ?thesis using satisfied_line[OF apart(2) _ line] kept(2) by blast
  qed
  show "counted view selected (pr_tests point) \<longleftrightarrow> counted view (candidate_tests view) (pr_tests point)"
    if point: "point \<in> set (cv_points view)"
  proof -
    have "point_obligation (view_choices view) point \<in> set (om_obligations (view_model view))"
      unfolding obligations using point by simp
    from all[OF this] show ?thesis using satisfied_point[OF apart(2) _ point] kept(2) by blast
  qed
  show "counted view selected (ar_tests alternative) \<longleftrightarrow> counted view (candidate_tests view) (ar_tests alternative)"
    if branch: "branch \<in> set (cv_branches view)" "alternative \<in> set (br_alternatives branch)"
  proof -
    have "\<lparr>ob_id = ''branch:'' @ bm_id (br_meta branch) @ '':'' @ ar_id alternative,
         ob_metric = ObligationBranches, ob_options = view_choices view (ar_tests alternative)\<rparr> \<in> set (om_obligations (view_model view))"
      unfolding obligations alternative_obligations_def using branch by (auto simp: image_iff)
    from all[OF this] show ?thesis using satisfied_alternative[OF apart(2) _ branch] kept(2) by blast
  qed
  assume decision: "decision \<in> set (cv_decisions view)" "condition < length (dm_conditions (dr_meta decision))"
  have mem: "condition_obligation (view_choices view) decision condition \<in> set (om_obligations (view_model view))"
    using in_concat_map[of "condition_obligation (view_choices view) decision condition"
        "condition_obligations (view_choices view)" decision "cv_decisions view"] decision
    by (simp add: obligations condition_obligations_def)
  show "(\<exists>v \<in> set (map vo_vector (filter (\<lambda>o'. counted view selected (vo_tests o')) (dr_vector_observations decision))).
         \<exists>w \<in> set (map vo_vector (filter (\<lambda>o'. counted view selected (vo_tests o')) (dr_vector_observations decision))).
           is_independence_pair v w condition)
       \<longleftrightarrow> (\<exists>v \<in> set (map vo_vector (filter (\<lambda>o'. counted view (candidate_tests view) (vo_tests o')) (dr_vector_observations decision))).
         \<exists>w \<in> set (map vo_vector (filter (\<lambda>o'. counted view (candidate_tests view) (vo_tests o')) (dr_vector_observations decision))).
           is_independence_pair v w condition)"
    using all[OF mem]
    unfolding satisfied_condition_iff[OF apart(2) options kept(2) decision(1)]
      satisfied_condition_iff[OF apart(2) options subset_refl decision(1)] .
qed

lemma same_conditions:
  assumes apart: "names_apart view" "tests_apart view"
    and lines: "distinct (map (\<lambda>line. (lr_file line, lr_line line)) (cv_lines view))"
    and kept: "keeps_covered view MinimizeAll selected" "selected \<subseteq> candidate_tests view"
  shows "in_lines (summary_input (cv_decisions view) (cv_points view) (cv_branches view) (cv_lines view)
        (Some (expand (view_model view) selected)))
      = in_lines (summary_input (cv_decisions view) (cv_points view) (cv_branches view) (cv_lines view)
        (Some (expand (view_model view) (candidate_tests view))))"
    "in_points (summary_input (cv_decisions view) (cv_points view) (cv_branches view) (cv_lines view)
        (Some (expand (view_model view) selected)))
      = in_points (summary_input (cv_decisions view) (cv_points view) (cv_branches view) (cv_lines view)
        (Some (expand (view_model view) (candidate_tests view))))"
    "in_branches (summary_input (cv_decisions view) (cv_points view) (cv_branches view) (cv_lines view)
        (Some (expand (view_model view) selected)))
      = in_branches (summary_input (cv_decisions view) (cv_points view) (cv_branches view) (cv_lines view)
        (Some (expand (view_model view) (candidate_tests view))))"
proof -
  note same = same_counted[OF assms]
  show "in_lines (summary_input (cv_decisions view) (cv_points view) (cv_branches view) (cv_lines view)
        (Some (expand (view_model view) selected)))
      = in_lines (summary_input (cv_decisions view) (cv_points view) (cv_branches view) (cv_lines view)
        (Some (expand (view_model view) (candidate_tests view))))"
    using same(1) by (auto simp: summary_input_def included_def)
  show "in_points (summary_input (cv_decisions view) (cv_points view) (cv_branches view) (cv_lines view)
        (Some (expand (view_model view) selected)))
      = in_points (summary_input (cv_decisions view) (cv_points view) (cv_branches view) (cv_lines view)
        (Some (expand (view_model view) (candidate_tests view))))"
    using same(2) by (auto simp: summary_input_def included_def)
  show "in_branches (summary_input (cv_decisions view) (cv_points view) (cv_branches view) (cv_lines view)
        (Some (expand (view_model view) selected)))
      = in_branches (summary_input (cv_decisions view) (cv_points view) (cv_branches view) (cv_lines view)
        (Some (expand (view_model view) (candidate_tests view))))"
    using same(3) by (auto simp: summary_input_def included_def)
qed

lemma same_witnessed_conditions:
  assumes "names_apart view" "tests_apart view"
    "distinct (map (\<lambda>line. (lr_file line, lr_line line)) (cv_lines view))"
    "keeps_covered view MinimizeAll selected" "selected \<subseteq> candidate_tests view"
    and wss: "try_map decision_witnesses (enumerate 0 (in_decisions (summary_input (cv_decisions view) (cv_points view)
        (cv_branches view) (cv_lines view) (Some (expand (view_model view) selected))))) = Inr wss"
    and full: "try_map decision_witnesses (enumerate 0 (in_decisions (summary_input (cv_decisions view) (cv_points view)
        (cv_branches view) (cv_lines view) (Some (expand (view_model view) (candidate_tests view)))))) = Inr full"
  shows "map (map (\<lambda>w. w \<noteq> None)) wss = map (map (\<lambda>w. w \<noteq> None)) full"
proof -
  let ?vectors = "\<lambda>tests decision. map vo_vector (filter (\<lambda>o'. counted view tests (vo_tests o')) (dr_vector_observations decision))"
  note w = witnesses_per_decision[OF wss] witnesses_per_decision[OF full]
  have len: "length wss = length (cv_decisions view)" "length full = length (cv_decisions view)"
    using w by (auto dest!: list_all2_lengthD simp: summary_input_def)
  show ?thesis
  proof (rule nth_equalityI)
    fix i assume "i < length (map (map (\<lambda>w. w \<noteq> None)) wss)"
    then have i: "i < length (cv_decisions view)" using len by simp
    let ?decision = "cv_decisions view ! i" and ?n = "length (dm_conditions (dr_meta (cv_decisions view ! i)))"
    have f: "find_witnesses_for_conditions (?vectors selected ?decision) ?n = Inr (wss ! i)"
      "find_witnesses_for_conditions (?vectors (candidate_tests view) ?decision) ?n = Inr (full ! i)"
      using list_all2_nthD[OF w(1), of i] list_all2_nthD[OF w(2), of i] i
      by (simp_all add: summary_input_def included_def)
    have lens: "length (wss ! i) = ?n" "length (full ! i) = ?n" using f find_witnesses_length by blast+
    have "map (\<lambda>w. w \<noteq> None) (wss ! i) = map (\<lambda>w. w \<noteq> None) (full ! i)"
    proof (rule nth_equalityI)
      fix c assume "c < length (map (\<lambda>w. w \<noteq> None) (wss ! i))"
      then have c: "c < ?n" using lens by simp
      have "(wss ! i ! c \<noteq> None) = (full ! i ! c \<noteq> None)"
        unfolding witnessed_iff[OF f(1) c] witnessed_iff[OF f(2) c]
        by (rule same_counted(4)[OF assms(1-5) nth_mem[OF i] c])
      then show "map (\<lambda>w. w \<noteq> None) (wss ! i) ! c = map (\<lambda>w. w \<noteq> None) (full ! i) ! c"
        using c lens by (simp del: not_None_eq)
    qed (simp add: lens)
    then show "map (map (\<lambda>w. w \<noteq> None)) wss ! i = map (map (\<lambda>w. w \<noteq> None)) full ! i" using i len by simp
  qed (simp add: len)
qed

lemma kept_summary:
  assumes apart: "names_apart view" "tests_apart view"
    and lines: "distinct (map (\<lambda>line. (lr_file line, lr_line line)) (cv_lines view))"
    and found: "minimum_test_set view None MinimizeAll max_states = Inr r"
    and full: "coverage_summary_for_tests view (expand (view_model view) (candidate_tests view)) = Inr full"
  shows "cs_lines (ms_summary r) = cs_lines full" "cs_statements (ms_summary r) = cs_statements full"
    "cs_functions (ms_summary r) = cs_functions full" "cs_branches (ms_summary r) = cs_branches full"
    "cs_covered_conditions (ms_summary r) = cs_covered_conditions full"
    "cs_conditions (ms_summary r) = cs_conditions full"
    "cs_condition_coverage_pct (ms_summary r) = cs_condition_coverage_pct full"
    "cs_covered_decisions (ms_summary r) = cs_covered_decisions full"
    "cs_value_selections (ms_summary r) = cs_value_selections full"
proof -
  note set = minimum_set_found[OF found apart(1)]
  note same = same_conditions[OF apart lines set(3,2)]
  let ?input = "\<lambda>tests. summary_input (cv_decisions view) (cv_points view) (cv_branches view) (cv_lines view)
     (Some (expand (view_model view) tests))"
  obtain out where out: "analyze_core (?input (set (ms_selected r))) = Inr out" "ms_summary r = out_summary out"
    using set(5) by (auto simp: coverage_summary_for_tests_def summary_for_results_def split: sum.splits)
  obtain out' where out': "analyze_core (?input (candidate_tests view)) = Inr out'" "full = out_summary out'"
    using full by (auto simp: coverage_summary_for_tests_def summary_for_results_def split: sum.splits)
  note A = analyze_core_counts[OF out(1)] and B = analyze_core_counts[OF out'(1)]
  show "cs_lines (ms_summary r) = cs_lines full" "cs_statements (ms_summary r) = cs_statements full"
    "cs_functions (ms_summary r) = cs_functions full" "cs_branches (ms_summary r) = cs_branches full"
    unfolding out(2) out'(2) A B same by (rule refl)+
  have "map (map (\<lambda>w. w \<noteq> None)) (out_witnesses out) = map (map (\<lambda>w. w \<noteq> None)) (out_witnesses out')"
    by (rule same_witnessed_conditions[OF apart lines set(3,2) analyze_core_Inr[OF out(1)] analyze_core_Inr[OF out'(1)]])
  then have witnesses: "map (map (\<lambda>w. w \<noteq> None)) (out_witnesses out) = map (map (\<lambda>w. w \<noteq> None)) (out_witnesses out')" .
  show conditions: "cs_covered_conditions (ms_summary r) = cs_covered_conditions full"
    unfolding out(2) out'(2) A B witness_counts(1) witnesses ..
  have "map dc_condition_count (in_decisions (?input tests)) = map (\<lambda>d. length (dm_conditions (dr_meta d))) (cv_decisions view)" for tests
    by (simp add: summary_input_def comp_def)
  then show total: "cs_conditions (ms_summary r) = cs_conditions full" unfolding out(2) out'(2) A B by simp
  show "cs_condition_coverage_pct (ms_summary r) = cs_condition_coverage_pct full"
    using conditions total unfolding out(2) out'(2) A(10) B(10) by simp
  show "cs_covered_decisions (ms_summary r) = cs_covered_decisions full" 
    unfolding out(2) out'(2) analyze_core_rest(3)[OF out(1)] analyze_core_rest(3)[OF out'(1)] witness_counts(2) witnesses ..
  show "cs_value_selections (ms_summary r) = cs_value_selections full"
    unfolding out(2) out'(2) A B same ..
qed

text \<open>C9: Asked for everything, all metrics and no target, \<open>minimize\<close> keeps every count it searches by: the
  summary of the tests it selects, with the setups they bring, has as many lines, statements, functions,
  branch outcomes and conditions shown covered as the summary of all the view's tests, the same MC/DC
  percentage, and as many decisions fully covered. Decision outcomes, condition outcomes and decisions
  executed, which the summary counts too, are not among them and may be fewer. The texts the search
  remembers states by tell them apart, no two tests share an id, a line is listed once, and background work
  is no obligation's evidence.\<close>

theorem minimum_set_keeps_coverage:
  assumes "names_apart view" and "tests_apart view"
    and "distinct (map (\<lambda>line. (lr_file line, lr_line line)) (cv_lines view))"
    and "minimum_test_set view None MinimizeAll max_states = Inr r"
    and "coverage_summary_for_tests view (expand (build_obligations view (candidate_tests view)) (candidate_tests view)) = Inr full"
  shows "cs_lines (ms_summary r) = cs_lines full \<and> cs_statements (ms_summary r) = cs_statements full
    \<and> cs_functions (ms_summary r) = cs_functions full \<and> cs_branches (ms_summary r) = cs_branches full
    \<and> cs_value_selections (ms_summary r) = cs_value_selections full
    \<and> cs_covered_conditions (ms_summary r) = cs_covered_conditions full
    \<and> cs_condition_coverage_pct (ms_summary r) = cs_condition_coverage_pct full
    \<and> cs_covered_decisions (ms_summary r) = cs_covered_decisions full"
  using kept_summary[OF assms(1-4) assms(5)[folded view_model_def]] by blast

end
