(* ===== verification/MinimumSample.thy ===== *)
theory MinimumSample
  imports MinimumKept
begin

section \<open>The set for a target, and small views\<close>

text \<open>
  With a target of 100 percent the search may skip no obligation, measured or not, so a line nothing
  measured leaves it with the set it started from; then the small views the theorems on \<open>minimize\<close> are
  shown on.
\<close>

subsection \<open>A target of 100 percent\<close>

lemma required_of_all: "n < 2 ^ 46 \<Longrightarrow> required_of n 100 = n"
proof -
  assume n: "n < 2 ^ 46"
  have "f64_round (of_nat n * 100) = of_nat n * 100" using f64_round_nat[of "n * 100"] n by simp
  moreover have "f64_round (of_nat n) = of_nat n" using f64_round_nat[of n] n by simp
  ultimately show ?thesis by (simp add: required_of_def)
qed

lemma full_target_limit:
  assumes "length (om_obligations (view_model view)) < 2 ^ 46"
  shows "sp_skip_limits (metric_problem view (Some 100) metric max_states) m = 0"
proof -
  have "length (filter (\<lambda>obligation. ob_metric obligation = m)
      (filter (\<lambda>obligation. metric_selected (ob_metric obligation) metric) (om_obligations (view_model view)))) < 2 ^ 46"
    by (rule le_less_trans[OF le_trans[OF length_filter_le length_filter_le] assms])
  then show ?thesis by (simp add: minimum_problem_def Let_def skip_limit_def required_of_all)
qed

lemma no_choices: "evidence_choices tests candidate_ids tests_by_file [] = []"
  by (simp add: evidence_choices_def deduplicate_options_def)

text \<open>C33: With \<open>--target 100\<close> a view with a line no test ran, an unmeasured one too, which the percentage
  leaves out, has no smaller set: what \<open>minimize\<close> reports as optimal is every test of the view.\<close>

theorem unmeasured_line_keeps_every_test:
  assumes "names_apart view" and "length (om_obligations (build_obligations view (candidate_tests view))) < 2 ^ 46"
    and "distinct (map (\<lambda>line. (lr_file line, lr_line line)) (cv_lines view))"
    and "line \<in> set (cv_lines view)" and "lr_tests line = []" and "metric_selected ObligationLines metric"
    and "minimum_test_set view (Some (FiniteNumber 100)) metric max_states = Inr r"
  shows "ms_optimal r \<and> set (ms_selected r) = candidate_tests view"
proof -
  let ?p = "metric_problem view (Some 100) metric max_states"
  let ?o = "line_obligation (view_choices view) ((lr_file line, lr_line line), line)"
  obtain search goal where search: "visit (metric_problem view goal metric max_states) {} {} (\<lambda>_. 0) (start_state (candidate_tests view)) = Inr search"
    "valid_targets (Some (FiniteNumber 100)) = Inr goal" "ms_selected r = sorted_list_of_set (se_best search)"
    using minimum_set_parts[OF assms(7)] .
  have goal: "goal = Some 100" using search(2) by (simp add: valid_targets_def valid_target_def)
  have "?o \<in> set (om_obligations (view_model view))"
    unfolding view_model_fields(1) using unique_lines_all[OF assms(3,4)] by auto
  moreover have "ob_metric ?o = ObligationLines" "ob_options ?o = []"
    using assms(5) by (simp_all add: line_obligation_def view_choices_def no_choices)
  ultimately have "?o \<in> set (left_over ?p {} tests ObligationLines)" for tests
    using assms(6) by (simp add: left_over_def metric_problem_obligations obligation_satisfied_def)
  then have "left_over ?p {} tests ObligationLines \<noteq> []" for tests by (metis list.set_sel empty_iff empty_set)
  then have "\<not> meets ?p tests" for tests
    using full_target_limit[OF assms(2)[folded view_model_def], of metric max_states ObligationLines]
    unfolding meets_def within_limits_def by (metis le_zero_eq length_0_conv)
  then have "se_best search = candidate_tests view"
    using search_from_start(1)[OF problem_keys_apart(2,1)[OF assms(1)] search(1)] goal by blast
  moreover have "ms_optimal r" using assms(7)
    by (auto simp: minimum_test_set_def Let_def rbind_Inr_iff refused_def split: sum.splits if_splits)
  ultimately show ?thesis by (simp add: search(3))
qed

subsection \<open>Small views\<close>

definition sample_confidence :: coverage_confidence where
  "sample_confidence = \<lparr>cf_level = [], cf_setup_only = False, cf_background_only = False, cf_tests = [],
     cf_runners = [], cf_kinds = [], cf_e2e = False\<rparr>"

definition sample_line :: "nat \<Rightarrow> bool \<Rightarrow> string list \<Rightarrow> line_result" where
  "sample_line line counts tests = \<lparr>lr_file = ''f'', lr_line = line, lr_covered = counts, lr_measured = counts, lr_tests = tests,
     lr_runners = [], lr_kinds = [], lr_exclusive_kind = None, lr_phases = [], lr_confidence = sample_confidence\<rparr>"

definition sample_statement :: "string list \<Rightarrow> point_result" where
  "sample_statement tests = \<lparr>pr_meta = \<lparr>pm_id = ''s'', pm_kind = Statement, pm_file = ''f'', pm_line = 1,
       pm_column = 0, pm_source = [], pm_label = None\<rparr>,
     pr_covered = True, pr_measured = True, pr_tests = tests, pr_phases = [], pr_confidence = sample_confidence\<rparr>"

definition sample_view_test :: "string \<Rightarrow> test_coverage_result" where
  "sample_view_test i = \<lparr>tc_id = i, tc_name = i, tc_file = None, tc_title = None, tc_retries = [], tc_attempts = [],
     tc_outcome = ''passed'', tc_provenance = \<lparr>tp_runner = [], tp_kind = [], tp_project = None, tp_source = [], tp_tags = []\<rparr>,
     tc_role = ''test'', tc_attribution = [], tc_hits = [], tc_decisions = [], tc_lines = []\<rparr>"

definition sample_summary :: coverage_summary where
  "sample_summary = \<lparr>cs_decisions = 0, cs_executed_decisions = 0, cs_covered_decisions = 0, cs_conditions = 0,
     cs_covered_conditions = 0, cs_condition_coverage_pct = 100, cs_lines = count 0 0, cs_statements = count 0 0,
     cs_functions = count 0 0, cs_branches = count 0 0, cs_decision_outcomes = count 0 0, cs_condition_outcomes = count 0 0,
     cs_value_selections = count 0 0, cs_coverage_complete = True, cs_completeness_blocked = None,
     cs_unmeasured_obligations = None, cs_exact_fraction_pct = None\<rparr>"

definition sample_view :: "line_result list \<Rightarrow> point_result list \<Rightarrow> unit coverage_view" where
  "sample_view lines points = \<lparr>cv_generated_at = [], cv_variant = [], cv_scope = None,
     cv_model = \<lparr>mo_language = [], mo_name = [], mo_completeness_meaning = [], mo_measured = [], mo_not_measured = []\<rparr>,
     cv_integrity = None, cv_limitations = [], cv_transport = None, cv_summary = sample_summary,
     cv_coverage_by_kind = [], cv_coverage_by_runner = [], cv_decisions = [], cv_points = points, cv_branches = [],
     cv_tests = [sample_view_test ''a'', sample_view_test ''b''], cv_test_files = [], cv_phases = [], cv_lines = lines\<rparr>"

lemma sample_candidates: "candidate_tests (sample_view lines points) = {''a'', ''b''}"
  by (simp add: candidate_tests_def sample_view_def sample_view_test_def)

lemma sample_choices:
  "view_choices (sample_view lines points) [''a''] = [[''a'']]"
  "view_choices (sample_view lines points) [''b''] = [[''b'']]"
  "view_choices (sample_view lines points) [''a'', ''b''] = [[''a''], [''b'']]"
  "view_choices (sample_view lines points) [] = []"
  unfolding view_choices_def sample_candidates
  by (simp_all add: sample_view_def sample_view_test_def evidence_choices_def evidence_choice_def
      deduplicate_options_def insert_option_def tree_entry_def tests_of_role_def)

text \<open>A line both tests run and a statement only \<open>b\<close> runs; and a line both run and one nothing measured.\<close>

definition kept_view :: "unit coverage_view" where
  "kept_view = sample_view [sample_line 1 True [''a'', ''b'']] [sample_statement [''b'']]"

definition declined_view :: "unit coverage_view" where
  "declined_view = sample_view [sample_line 1 True [''a'', ''b''], sample_line 2 False []] []"

lemma small_decimals: "decimal (Suc 0) = ''1''" "decimal 2 = ''2''"
  by code_simp+

lemma kept_model: "om_obligations (view_model kept_view)
  = [\<lparr>ob_id = ''line:f:1'', ob_metric = ObligationLines, ob_options = [[''a''], [''b'']]\<rparr>,
     \<lparr>ob_id = ''statement:s'', ob_metric = ObligationStatements, ob_options = [[''b'']]\<rparr>]"
  unfolding view_model_fields(1) kept_view_def
  by (simp add: sample_choices) (simp add: sample_view_def unique_lines_def sample_line_def line_obligation_def small_decimals
      point_obligation_def sample_statement_def sample_choices[unfolded sample_view_def sample_line_def sample_statement_def])

lemma declined_model: "om_obligations (view_model declined_view)
  = [\<lparr>ob_id = ''line:f:1'', ob_metric = ObligationLines, ob_options = [[''a''], [''b'']]\<rparr>,
     \<lparr>ob_id = ''line:f:2'', ob_metric = ObligationLines, ob_options = []\<rparr>]"
  unfolding view_model_fields(1) declined_view_def
  by (simp add: sample_choices) (simp add: sample_view_def unique_lines_def sample_line_def line_obligation_def small_decimals
      less_prod_def sample_choices[unfolded sample_view_def sample_line_def])

lemma sample_names_apart: "names_apart kept_view" "names_apart declined_view"
  by (rule plain_names_apart; simp add: kept_model declined_model plain_name_def;
      simp add: kept_view_def declined_view_def sample_candidates)+

lemma sample_setups:
  "expand (view_model (sample_view lines points)) tests = tests"
  by (simp add: expand_def setup_selected_def view_model_fields)
    (auto simp: sample_view_def sample_view_test_def tests_of_role_def)

lemma sample_covered:
  "\<exists>summary. coverage_summary_for_tests (sample_view lines points) tests = Inr summary
     \<and> cs_lines summary = count (count_true (map (\<lambda>line. list_ex (\<lambda>i. i \<in> tests) (lr_tests line)) (filter lr_measured lines)))
         (length (filter lr_measured lines))"
  by (simp add: coverage_summary_for_tests_def summary_for_results_def analyze_core_def summary_input_def sample_view_def
      included_def Let_def)

lemma kept_problem:
  "sp_obligations (metric_problem kept_view None MinimizeAll 9)
     = [\<lparr>ob_id = ''line:f:1'', ob_metric = ObligationLines, ob_options = [[''a''], [''b'']]\<rparr>,
        \<lparr>ob_id = ''statement:s'', ob_metric = ObligationStatements, ob_options = [[''b'']]\<rparr>]"
  "sp_max_states (metric_problem kept_view None MinimizeAll 9) = 9"
  by (simp_all add: metric_problem_obligations kept_model metric_selected_def) (simp add: minimum_problem_def Let_def)

lemma kept_limits: "sp_skip_limits (metric_problem kept_view None MinimizeAll 9) m = 0"
proof -
  have "candidate_tests kept_view = {''a'', ''b''}" by (simp add: kept_view_def sample_candidates)
  then show ?thesis unfolding no_target_limit left_over_def kept_problem by (simp add: obligation_satisfied_def)
qed

lemma kept_visit_last:
  assumes "card (se_best st) = 2" "state_key {''b''} {} \<notin> se_seen st" "se_explored_states st < 9"
  shows "\<exists>st'. visit (metric_problem kept_view None MinimizeAll 9) {''b''} {} (\<lambda>_. 0) st = Inr st' \<and> se_best st' = {''b''}"
  using assms by (subst visit_unfold) (simp add: kept_problem unmet_obligations_def obligation_satisfied_def)

lemma kept_additions:
  "additions_of \<lparr>ob_id = i, ob_metric = m, ob_options = [[''b'']]\<rparr> {} = [[''b'']]"
  by (simp add: additions_of_def deduplicate_options_def insert_option_def tree_entry_def)

lemma kept_first:
  "unmet_obligations (metric_problem kept_view None MinimizeAll 9) {} {}
    = [\<lparr>ob_id = ''statement:s'', ob_metric = ObligationStatements, ob_options = [[''b'']]\<rparr>,
       \<lparr>ob_id = ''line:f:1'', ob_metric = ObligationLines, ob_options = [[''a''], [''b'']]\<rparr>]"
  by (simp add: unmet_obligations_def kept_problem obligation_satisfied_def feasible_options_def less_prod_def less_eq_prod_def)

lemma kept_visit:
  "\<exists>search. visit (metric_problem kept_view None MinimizeAll 9) {} {} (\<lambda>_. 0) (start_state {''a'', ''b''}) = Inr search
     \<and> se_best search = {''b''}"
proof -
  let ?p = "metric_problem kept_view None MinimizeAll 9"
  let ?st = "noted {} {} (start_state {''a'', ''b''})"
  have "state_key {''b''} {} \<noteq> state_key {} {}" by (simp add: state_key_def)
  then obtain st' where st': "visit ?p {''b''} {} (\<lambda>_. 0) ?st = Inr st'" "se_best st' = {''b''}"
    using kept_visit_last[of ?st] by (auto simp: start_state_def)
  then show ?thesis
    by (subst visit_unfold) (simp add: start_state_def kept_first kept_additions kept_problem add_step_def skip_step_def kept_limits)
qed

lemma declined_visit:
  "\<exists>search. visit (metric_problem declined_view (Some 100) MinimizeLines 9) {} {} (\<lambda>_. 0) (start_state {''a'', ''b''}) = Inr search"
proof -
  let ?p = "metric_problem declined_view (Some 100) MinimizeLines 9"
  have limits: "sp_skip_limits ?p m = 0" for m by (rule full_target_limit) (simp add: declined_model)
  have problem: "sp_obligations ?p = om_obligations (view_model declined_view)" "sp_max_states ?p = 9"
    by (simp_all add: metric_problem_obligations declined_model metric_selected_def) (simp add: minimum_problem_def Let_def)
  have first: "unmet_obligations ?p {} {} = \<lparr>ob_id = ''line:f:2'', ob_metric = ObligationLines, ob_options = []\<rparr>
      # [\<lparr>ob_id = ''line:f:1'', ob_metric = ObligationLines, ob_options = [[''a''], [''b'']]\<rparr>]"
    by (simp add: unmet_obligations_def problem declined_model obligation_satisfied_def feasible_options_def less_prod_def less_eq_prod_def)
  show ?thesis
    by (subst visit_unfold)
      (simp add: start_state_def first problem limits skip_step_def additions_of_def deduplicate_options_def)
qed

lemma sample_accepted: "\<not> list_ex unattributed_evidence (cv_tests (sample_view lines points))"
  by (simp add: sample_view_def unattributed_evidence_def sample_view_test_def coverage_is_complete_def)

lemma minimum_set_runs:
  assumes "valid_targets target = Inr goal" "\<not> list_ex unattributed_evidence (cv_tests view)"
    and "check_reachable view (view_model view) (candidate_tests view) (selected_metrics metric) goal = Inr ()"
    and "visit (metric_problem view goal metric max_states) {} {} (\<lambda>_. 0) (start_state (candidate_tests view)) = Inr search"
    and "coverage_summary_for_tests view (expand (view_model view) (se_best search)) = Inr summary"
  shows "\<exists>r. minimum_test_set view target metric max_states = Inr r \<and> ms_selected r = sorted_list_of_set (se_best search)"
  using assms unfolding view_model_def
  by (simp add: minimum_test_set_def refused_def summary_of_tests_def Let_def)

lemma kept_tests: "candidate_tests kept_view = {''a'', ''b''}" "candidate_tests declined_view = {''a'', ''b''}"
  by (simp_all add: kept_view_def declined_view_def sample_candidates)

lemma kept_result:
  "\<exists>r. minimum_test_set kept_view None MinimizeAll 9 = Inr r \<and> ms_selected r = [''b'']"
proof -
  obtain search where search: "visit (metric_problem kept_view None MinimizeAll 9) {} {} (\<lambda>_. 0)
      (start_state (candidate_tests kept_view)) = Inr search" "se_best search = {''b''}"
    using kept_visit unfolding kept_tests by blast
  obtain summary where summary: "coverage_summary_for_tests kept_view (expand (view_model kept_view) (se_best search)) = Inr summary"
    unfolding kept_view_def using sample_covered by blast
  have "\<exists>r. minimum_test_set kept_view None MinimizeAll 9 = Inr r \<and> ms_selected r = sorted_list_of_set (se_best search)"
    by (rule minimum_set_runs[OF _ _ _ search(1) summary])
      (simp_all add: valid_targets_def check_reachable_def sample_accepted kept_view_def)
  then show ?thesis by (simp add: search(2))
qed

theorem minimum_set_is_smallest_witness:
  "\<exists>r. minimum_test_set kept_view None MinimizeAll 9 = Inr r \<and> ms_selected r = [''b'']
    \<and> keeps_covered kept_view MinimizeAll (set (ms_selected r))
    \<and> list_all (\<lambda>tests. keeps_covered kept_view MinimizeAll (set tests) \<longrightarrow> length (ms_selected r) \<le> length tests)
        (subseqs (sorted_list_of_set (candidate_tests kept_view)))"
proof -
  obtain r where r: "minimum_test_set kept_view None MinimizeAll 9 = Inr r" "ms_selected r = [''b'']" using kept_result by blast
  show ?thesis using minimum_set_is_smallest[OF sample_names_apart(1) r(1)] r by blast
qed

lemma kept_lines: "cv_lines kept_view = [sample_line 1 True [''a'', ''b'']]" "cv_points kept_view = [sample_statement [''b'']]"
  "cv_lines declined_view = [sample_line 1 True [''a'', ''b''], sample_line 2 False []]"
  by (simp_all add: kept_view_def declined_view_def sample_view_def)

lemma kept_tests_apart: "tests_apart kept_view"
proof -
  have "background_ids kept_view = {}"
    by (auto simp: background_ids_def kept_view_def sample_view_def sample_view_test_def)
  moreover have "distinct (map tc_id (cv_tests kept_view))" by (simp add: kept_view_def sample_view_def sample_view_test_def)
  ultimately show ?thesis by (simp add: tests_apart_def list_all_iff)
qed

theorem minimum_set_keeps_coverage_witness:
  "\<exists>r full. minimum_test_set kept_view None MinimizeAll 9 = Inr r \<and> ms_selected r = [''b'']
    \<and> coverage_summary_for_tests kept_view
        (expand (build_obligations kept_view (candidate_tests kept_view)) (candidate_tests kept_view)) = Inr full
    \<and> cs_lines (ms_summary r) = cs_lines full \<and> cs_statements (ms_summary r) = cs_statements full"
proof -
  obtain r where r: "minimum_test_set kept_view None MinimizeAll 9 = Inr r" "ms_selected r = [''b'']" using kept_result by blast
  obtain full where full: "coverage_summary_for_tests kept_view
      (expand (build_obligations kept_view (candidate_tests kept_view)) (candidate_tests kept_view)) = Inr full"
    unfolding kept_view_def using sample_covered by blast
  have "distinct (map (\<lambda>line. (lr_file line, lr_line line)) (cv_lines kept_view))" by (simp add: kept_lines)
  then show ?thesis
    using minimum_set_keeps_coverage[OF sample_names_apart(1) kept_tests_apart _ r(1) full] r full by blast
qed

lemma declined_summary:
  "\<exists>summary. coverage_summary_for_tests declined_view tests = Inr summary
     \<and> cs_lines summary = count (of_bool (''a'' \<in> tests \<or> ''b'' \<in> tests)) 1"
  using sample_covered[of "[sample_line 1 True [''a'', ''b''], sample_line 2 False []]" "[]" tests, folded declined_view_def]
  by (auto simp: sample_line_def count_true_def split: if_splits)

lemma full_does_not_fall_short: "\<not> falls_short 100 100"
proof -
  have "f64_round (of_nat 100) \<le> f64_round (100 + f64_round (1 / 10 ^ 9))"
    by (rule f64_round_mono) (use f64_round_nonneg[of "1 / 10 ^ 9"] in simp)
  then show ?thesis using f64_round_nat[of 100] by (simp add: falls_short_def)
qed

text \<open>One test of the two reaches 100 percent, and \<open>minimize\<close> reports both.\<close>

theorem unmeasured_line_keeps_every_test_witness:
  "\<exists>r summary. minimum_test_set declined_view (Some (FiniteNumber 100)) MinimizeLines 9 = Inr r
    \<and> set (ms_selected r) = {''a'', ''b''}
    \<and> coverage_summary_for_tests declined_view {''a''} = Inr summary \<and> cc_percentage (cs_lines summary) = 100"
proof -
  obtain search where search: "visit (metric_problem declined_view (Some 100) MinimizeLines 9) {} {} (\<lambda>_. 0)
      (start_state (candidate_tests declined_view)) = Inr search"
    using declined_visit unfolding kept_tests by blast
  obtain one where one: "coverage_summary_for_tests declined_view {''a''} = Inr one" "cs_lines one = count 1 1"
    using declined_summary[of "{''a''}"] by auto
  obtain full where full: "coverage_summary_for_tests declined_view {''a'', ''b''} = Inr full" "cs_lines full = count 1 1"
    using declined_summary[of "{''a'', ''b''}"] by auto
  obtain best where best: "coverage_summary_for_tests declined_view (expand (view_model declined_view) (se_best search)) = Inr best"
    using declined_summary by blast
  have complete: "cc_percentage (count 1 1) = 100" using percentage_all[of 1] by (simp add: count_def)
  obtain r where r: "minimum_test_set declined_view (Some (FiniteNumber 100)) MinimizeLines 9 = Inr r"
  proof -
    have "expand (view_model declined_view) {''a'', ''b''} = {''a'', ''b''}" by (simp add: declined_view_def sample_setups)
    then have "check_reachable declined_view (view_model declined_view) (candidate_tests declined_view) (selected_metrics MinimizeLines) (Some 100) = Inr ()"
      using full complete by (simp add: check_reachable_def kept_tests summary_of_tests_def selected_metrics_def metric_selected_def full_does_not_fall_short)
    then have "\<exists>r. minimum_test_set declined_view (Some (FiniteNumber 100)) MinimizeLines 9 = Inr r \<and> ms_selected r = sorted_list_of_set (se_best search)"
      by (intro minimum_set_runs[OF _ _ _ search best])
        (simp_all add: valid_targets_def valid_target_def sample_accepted declined_view_def)
    then show thesis using that by blast
  qed
  have "set (ms_selected r) = {''a'', ''b''}"
    using unmeasured_line_keeps_every_test[OF sample_names_apart(2), of "sample_line 2 False []" MinimizeLines 9 r] r
    by (simp add: kept_tests declined_model[unfolded view_model_def kept_tests] kept_lines sample_line_def metric_selected_def)
  then show ?thesis using r one complete by auto
qed

end
