(* ===== verification/RunView.thy ===== *)
theory RunView
  imports CoverageView ServerRecords
begin

section \<open>One view of a run for every gate and export (run\_view.rs)\<close>

text \<open>
  What a threshold check, a changed-line check and an export read of a run: per metric how much is
  covered and eligible and whether it can be judged, per file its lines, branches, functions and
  conditions, and the check against percentage floors. The code's \<open>expect\<close>s are the branches
  \<open>run_view_panic\<close>.
\<close>

subsection \<open>Metrics\<close>

datatype metric = LinesMetric | StatementsMetric | FunctionsMetric | BranchesMetric | McdcMetric

definition all_metrics :: "metric list" where
  "all_metrics = [LinesMetric, StatementsMetric, FunctionsMetric, BranchesMetric, McdcMetric]"

fun metric_name :: "metric \<Rightarrow> string" where
  "metric_name LinesMetric = ''lines''"
| "metric_name StatementsMetric = ''statements''"
| "metric_name FunctionsMetric = ''functions''"
| "metric_name BranchesMetric = ''branches''"
| "metric_name McdcMetric = ''mcdc''"

definition metric_parse :: "string \<Rightarrow> metric option" where
  "metric_parse text = find (\<lambda>metric. metric_name metric = map to_ascii_lowercase text) all_metrics"

fun metric_flag :: "metric \<Rightarrow> string" where
  "metric_flag LinesMetric = ''--min-lines''"
| "metric_flag StatementsMetric = ''--min-statements''"
| "metric_flag FunctionsMetric = ''--min-functions''"
| "metric_flag BranchesMetric = ''--min-branches''"
| "metric_flag McdcMetric = ''--min-mcdc''"

datatype applicability = IsMeasured | NotApplicable | IsIncomplete nat

record metric_view =
  mw_metric :: metric
  mw_covered :: nat
  mw_eligible :: nat
  mw_applicability :: applicability

text \<open>\<open>meets\<close> multiplies in 128 bits, which two 64-bit counts do not overflow.\<close>

definition metric_meets :: "metric_view \<Rightarrow> nat \<Rightarrow> bool" where
  "metric_meets view floor_ppm \<longleftrightarrow> floor_ppm * mw_eligible view \<le> mw_covered view * 1000000"

text \<open>For display only: \<open>covered as f64 * 100.0 / eligible as f64\<close>.\<close>

definition display_percentage :: "nat \<Rightarrow> nat \<Rightarrow> rat option" where
  "display_percentage covered eligible = (if 0 < eligible
     then Some (f64_round (f64_round (f64_round (of_nat covered) * 100) / f64_round (of_nat eligible))) else None)"

fun metric_counts :: "coverage_summary \<Rightarrow> metric \<Rightarrow> nat \<times> nat" where
  "metric_counts summary LinesMetric = (cc_covered (cs_lines summary), cc_total (cs_lines summary))"
| "metric_counts summary StatementsMetric = (cc_covered (cs_statements summary), cc_total (cs_statements summary))"
| "metric_counts summary FunctionsMetric = (cc_covered (cs_functions summary), cc_total (cs_functions summary))"
| "metric_counts summary BranchesMetric = (cc_covered (cs_branches summary), cc_total (cs_branches summary))"
| "metric_counts summary McdcMetric = (cs_covered_conditions summary, cs_conditions summary)"

text \<open>\<open>split(['_', '.', '-'])\<close>: the pieces between any of the separators.\<close>

fun split_any :: "char set \<Rightarrow> string \<Rightarrow> string list" where
  "split_any seps [] = [[]]"
| "split_any seps (c # s) =
     (if c \<in> seps then [] # split_any seps s
      else case split_any seps s of piece # pieces \<Rightarrow> (c # piece) # pieces | [] \<Rightarrow> [[c]])"

definition named_as_test :: "string \<Rightarrow> bool" where
  "named_as_test path = list_ex (\<lambda>part. part = ''test'' \<or> part = ''spec'')
     (split_any {CHR ''_'', CHR ''.'', CHR ''-''} (map to_ascii_lowercase (last (split_on CHR ''/'' path))))"

definition metric_view_of :: "coverage_summary \<Rightarrow> metric \<Rightarrow> metric_view" where
  "metric_view_of summary metric =
     (let unmeasured = (case cs_unmeasured_obligations summary of Some n \<Rightarrow> n | None \<Rightarrow> 0);
          (covered, eligible) = metric_counts summary metric
      in \<lparr>mw_metric = metric, mw_covered = covered, mw_eligible = eligible,
          mw_applicability = (if eligible = 0 then NotApplicable
            else if 0 < unmeasured then IsIncomplete unmeasured else IsMeasured)\<rparr>)"

definition metrics_of :: "coverage_summary \<Rightarrow> metric_view list" where
  "metrics_of summary = map (metric_view_of summary) all_metrics"

subsection \<open>Files\<close>

record source_location =
  sl_line :: nat
  sl_column :: nat

record function_record =
  fn_line :: nat
  fn_name :: string
  fn_covered :: bool

record branch_record =
  bn_line :: nat
  bn_block :: nat
  bn_index :: nat
  bn_taken :: bool

record condition_record =
  cn_line :: nat
  cn_column :: nat
  cn_index :: nat
  cn_covered :: bool
  cn_source :: string

record file_view =
  fv_file :: string
  fv_metrics :: "metric_view list"
  fv_measured_lines :: "nat list"
  fv_uncovered_lines :: "nat list"
  fv_missing_branches :: "source_location list"
  fv_missing_conditions :: "source_location list"
  fv_functions :: "function_record list"
  fv_branches :: "branch_record list"
  fv_conditions :: "condition_record list"

datatype run_view_panic = NoMetric | NoFileOfPoint | NoSummary

definition metric_in :: "metric_view list \<Rightarrow> metric \<Rightarrow> run_view_panic + metric_view" where
  "metric_in views metric = ok_or (find (\<lambda>view. mw_metric view = metric) views) NoMetric"

text \<open>\<open>binary_search\<close> in lines in order: halving the range the line can be in.\<close>

function search_between :: "nat list \<Rightarrow> nat \<Rightarrow> nat \<Rightarrow> nat \<Rightarrow> bool" where
  "search_between lines line low high =
     (if high \<le> low then False
      else let mid = (low + high) div 2 in
        if lines ! mid = line then True
        else if lines ! mid < line then search_between lines line (mid + 1) high
        else search_between lines line low mid)"
  by pat_completeness auto
termination
  by (relation "measure (\<lambda>(lines, line, low, high). high - low)") auto

declare search_between.simps [simp del]

definition binary_search :: "nat list \<Rightarrow> nat \<Rightarrow> bool" where
  "binary_search lines line = search_between lines line 0 (length lines)"

definition line_hits :: "file_view \<Rightarrow> (nat \<times> bool) list" where
  "line_hits view = map (\<lambda>line. (line, \<not> binary_search (fv_uncovered_lines view) line)) (fv_measured_lines view)"

record run_view =
  rv_schema_version :: nat
  rv_run :: string
  rv_generated_at :: string
  rv_suite_passed :: bool
  rv_stale :: bool
  rv_stale_reasons :: "string list"
  rv_complete :: bool
  rv_limitations :: "string list"
  rv_totals :: "metric_view list"
  rv_files :: "file_view list"
  rv_source_neighbourhoods :: "(string \<times> string) set"

definition RUN_VIEW_SCHEMA_VERSION :: nat where "RUN_VIEW_SCHEMA_VERSION = 1"

definition file_of :: "run_view \<Rightarrow> string \<Rightarrow> file_view option" where
  "file_of view path = find (\<lambda>file_view. fv_file file_view = path) (rv_files view)"

definition measured_line :: "run_view \<Rightarrow> string \<Rightarrow> nat \<Rightarrow> bool" where
  "measured_line view path line =
     (case file_of view path of Some file_view \<Rightarrow> binary_search (fv_measured_lines file_view) line | None \<Rightarrow> False)"

definition neighbourhood :: "string \<Rightarrow> (string \<times> string) option" where
  "neighbourhood path =
     (let (directory, name) = (case rsplit_once CHR ''/'' path of Some split \<Rightarrow> split | None \<Rightarrow> ([], path)) in
      case rsplit_once CHR ''.'' name of None \<Rightarrow> None | Some (_, extension) \<Rightarrow> Some (directory, extension))"

definition looks_like_source :: "run_view \<Rightarrow> string \<Rightarrow> bool" where
  "looks_like_source view path \<longleftrightarrow> \<not> named_as_test path
     \<and> (case neighbourhood path of Some key \<Rightarrow> key \<in> rv_source_neighbourhoods view | None \<Rightarrow> False)"

definition blockers :: "run_view \<Rightarrow> string list" where
  "blockers view =
     (if rv_suite_passed view then []
      else [''the wrapped test command did not pass; a gate over a failed suite cannot report success''])
     @ (if \<not> rv_stale view then []
        else if rv_stale_reasons view = [] then [''the run no longer matches the current checkout'']
        else [''the run no longer matches the current checkout: '' @ join '', '' (rv_stale_reasons view)])"

subsection \<open>Building the view\<close>

definition empty_file :: "string \<Rightarrow> file_view" where
  "empty_file path = \<lparr>fv_file = path, fv_metrics = [], fv_measured_lines = [], fv_uncovered_lines = [],
     fv_missing_branches = [], fv_missing_conditions = [], fv_functions = [], fv_branches = [], fv_conditions = []\<rparr>"

type_synonym file_views = "(string \<times> file_view) list"

definition in_file :: "string \<Rightarrow> (file_view \<Rightarrow> file_view) \<Rightarrow> file_views \<Rightarrow> file_views" where
  "in_file path change files = tree_entry path (empty_file path) change files"

definition line_into :: "line_result \<Rightarrow> file_view \<Rightarrow> file_view" where
  "line_into line file_view = file_view
     \<lparr>fv_measured_lines := fv_measured_lines file_view @ (if lr_measured line then [lr_line line] else []),
      fv_uncovered_lines := fv_uncovered_lines file_view
        @ (if lr_measured line \<and> \<not> lr_covered line then [lr_line line] else [])\<rparr>"

definition add_line :: "line_result \<Rightarrow> file_views \<Rightarrow> file_views" where
  "add_line line = in_file (lr_file line) (line_into line)"

definition branch_location :: "branch_result \<Rightarrow> source_location" where
  "branch_location branch = \<lparr>sl_line = bm_line (br_meta branch), sl_column = bm_column (br_meta branch)\<rparr>"

definition branch_into :: "nat \<times> branch_result \<Rightarrow> file_view \<Rightarrow> file_view" where
  "branch_into = (\<lambda>(block, branch) file_view. file_view
     \<lparr>fv_missing_branches := fv_missing_branches file_view
        @ map (\<lambda>_. branch_location branch) (filter (\<lambda>alternative. \<not> ar_covered alternative) (br_alternatives branch)),
      fv_branches := fv_branches file_view
        @ map (\<lambda>(index, alternative). \<lparr>bn_line = bm_line (br_meta branch), bn_block = block, bn_index = index,
            bn_taken = ar_covered alternative\<rparr>) (enumerate 0 (br_alternatives branch))\<rparr>)"

definition add_branch :: "nat \<times> branch_result \<Rightarrow> file_views \<Rightarrow> file_views" where
  "add_branch numbered = in_file (bm_file (br_meta (snd numbered))) (branch_into numbered)"

definition function_of :: "point_result \<Rightarrow> function_record" where
  "function_of point = \<lparr>fn_line = pm_line (pr_meta point),
     fn_name = (case pm_label (pr_meta point) of Some label \<Rightarrow> label
       | None \<Rightarrow> decimal (pm_line (pr_meta point)) @ '':'' @ decimal (pm_column (pr_meta point))),
     fn_covered = pr_covered point\<rparr>"

definition function_into :: "point_result \<Rightarrow> file_view \<Rightarrow> file_view" where
  "function_into point file_view = file_view\<lparr>fv_functions := fv_functions file_view @ [function_of point]\<rparr>"

definition add_function :: "point_result \<Rightarrow> file_views \<Rightarrow> run_view_panic + file_views" where
  "add_function point files =
     (if pm_kind (pr_meta point) \<noteq> Function then Inr files
      else case map_of files (pm_file (pr_meta point)) of
        None \<Rightarrow> Inl NoFileOfPoint
      | Some file_view \<Rightarrow> Inr (tree_insert (pm_file (pr_meta point)) (function_into point file_view) files))"

definition decision_into :: "decision_result \<Rightarrow> file_view \<Rightarrow> file_view" where
  "decision_into decision file_view = file_view
     \<lparr>fv_missing_conditions := fv_missing_conditions file_view
        @ map (\<lambda>_. \<lparr>sl_line = dm_line (dr_meta decision), sl_column = dm_column (dr_meta decision)\<rparr>)
            (filter (\<lambda>condition. \<not> cr_covered condition) (dr_conditions decision)),
      fv_conditions := fv_conditions file_view
        @ map (\<lambda>condition. \<lparr>cn_line = dm_line (dr_meta decision), cn_column = dm_column (dr_meta decision),
            cn_index = cr_index condition, cn_covered = cr_covered condition, cn_source = cr_source condition\<rparr>)
          (dr_conditions decision)\<rparr>"

definition add_decision :: "decision_result \<Rightarrow> file_views \<Rightarrow> file_views" where
  "add_decision decision = in_file (dm_file (dr_meta decision)) (decision_into decision)"

definition in_order :: "file_view \<Rightarrow> file_view" where
  "in_order file_view = file_view
     \<lparr>fv_measured_lines := remdups_adj (sort (fv_measured_lines file_view)),
      fv_uncovered_lines := remdups_adj (sort (fv_uncovered_lines file_view)),
      fv_missing_branches := sort_key (\<lambda>l. (sl_line l, sl_column l)) (fv_missing_branches file_view),
      fv_missing_conditions := sort_key (\<lambda>l. (sl_line l, sl_column l)) (fv_missing_conditions file_view),
      fv_functions := sort_key (\<lambda>f. (fn_line f, fn_name f)) (fv_functions file_view),
      fv_branches := sort_key (\<lambda>b. (bn_line b, bn_block b, bn_index b)) (fv_branches file_view),
      fv_conditions := sort_key (\<lambda>c. (cn_line c, cn_column c, cn_index c)) (fv_conditions file_view)\<rparr>"

definition finish_file :: "'v coverage_view \<Rightarrow> string \<times> file_view \<Rightarrow> run_view_panic + file_view" where
  "finish_file view = (\<lambda>(path, file_view).
     case coverage_summary_for_file view path of
       Inl _ \<Rightarrow> Inl NoSummary
     | Inr summary \<Rightarrow> Inr (in_order (file_view\<lparr>fv_metrics := metrics_of summary\<rparr>)))"

definition files_read :: "'v coverage_view \<Rightarrow> run_view_panic + file_views" where
  "files_read view =
     rbind (try_fold add_function (cv_points view)
       (fold add_branch (enumerate 0 (cv_branches view)) (fold add_line (cv_lines view) [])))
       (\<lambda>files. Inr (fold add_decision (cv_decisions view) files))"

definition run_view_of ::
  "('v \<Rightarrow> string) \<Rightarrow> string \<Rightarrow> string \<Rightarrow> 'v coverage_view \<Rightarrow> bool \<Rightarrow> bool \<Rightarrow> string list \<Rightarrow> run_view_panic + run_view" where
  "run_view_of print run generated_at view suite_passed stale stale_reasons =
     rbind (files_read view) (\<lambda>files.
     rbind (try_map (finish_file view) files) (\<lambda>built.
       Inr \<lparr>rv_schema_version = RUN_VIEW_SCHEMA_VERSION, rv_run = run, rv_generated_at = generated_at,
         rv_suite_passed = suite_passed, rv_stale = stale, rv_stale_reasons = stale_reasons,
         rv_complete = cs_coverage_complete (cv_summary view), rv_limitations = map print (cv_limitations view),
         rv_totals = metrics_of (cv_summary view), rv_files = built,
         rv_source_neighbourhoods = set (List.map_filter (\<lambda>file_view. neighbourhood (fv_file file_view)) built)\<rparr>))"

subsection \<open>Floors\<close>

record percentage_floor =
  fl_metric :: metric
  fl_ppm :: nat

abbreviation U64_MAX :: nat where "U64_MAX \<equiv> 2 ^ 64 - 1"

fun split_once :: "char \<Rightarrow> string \<Rightarrow> (string \<times> string) option" where
  "split_once sep [] = None"
| "split_once sep (c # s) =
     (if c = sep then Some ([], s) else map_option (\<lambda>(before, after). (c # before, after)) (split_once sep s))"

text \<open>The checks and the number; \<open>debug\<close> is the text \<open>{:?}\<close> gives.\<close>

definition parse_percentage :: "(string \<Rightarrow> string) \<Rightarrow> string \<Rightarrow> string + nat" where
  "parse_percentage debug given =
     (let text = trim given;
          (whole, fraction) = (case split_once CHR ''.'' text of Some split \<Rightarrow> split | None \<Rightarrow> (text, []))
      in if whole = [] \<and> fraction = [] then Inl (debug given @ '' is not a percentage'')
         else if \<not> list_all is_ascii_digit whole \<or> \<not> list_all is_ascii_digit fraction \<or> 4 < length fraction
         then Inl (debug given @ '' is not a percentage between 0 and 100 with at most four decimal places'')
         else
           rbind (if whole = [] then Inr 0 else ok_or (parse_unsigned U64_MAX whole) (debug given @ '' is too large'')) (\<lambda>whole.
           let scaled = (if fraction = [] then 0
                 else digits_value (fraction @ replicate (4 - length fraction) CHR ''0''));
               ppm = whole * 10000 + scaled
           in if U64_MAX < whole * 10000 \<or> U64_MAX < ppm then Inl (debug given @ '' is too large'')
              else if ppm \<le> 1000000 then Inr ppm
              else Inl (debug given @ '' is above 100'')))"

record violation =
  vi_file :: "string option"
  vi_metric :: metric
  vi_covered :: nat
  vi_eligible :: nat
  vi_floor_ppm :: nat
  vi_uncovered_lines :: "nat list"

datatype check_outcome = CheckPass | CheckFail "violation list" | CheckError "string list"

fun exit_code :: "check_outcome \<Rightarrow> nat" where
  "exit_code CheckPass = 0"
| "exit_code (CheckFail violations) = 1"
| "exit_code (CheckError reasons) = 2"

definition floor_reason :: "run_view \<Rightarrow> percentage_floor \<Rightarrow> run_view_panic + string list" where
  "floor_reason view minimum =
     rbind (metric_in (rv_totals view) (fl_metric minimum)) (\<lambda>metric.
       Inr (case mw_applicability metric of
         NotApplicable \<Rightarrow> [metric_name (fl_metric minimum)
           @ '' has nothing eligible in this run, which is not the same as complete; remove ''
           @ metric_flag (fl_metric minimum) @ '' or widen the scope'']
       | IsIncomplete unmeasured \<Rightarrow> [metric_name (fl_metric minimum) @ '' left '' @ decimal unmeasured
           @ '' obligation(s) unmeasured, so '' @ metric_flag (fl_metric minimum) @ '' cannot be judged exactly'']
       | IsMeasured \<Rightarrow> []))"

definition violation_of :: "string option \<Rightarrow> metric_view \<Rightarrow> percentage_floor \<Rightarrow> nat list \<Rightarrow> violation" where
  "violation_of path metric minimum uncovered_lines =
     \<lparr>vi_file = path, vi_metric = fl_metric minimum, vi_covered = mw_covered metric, vi_eligible = mw_eligible metric,
       vi_floor_ppm = fl_ppm minimum, vi_uncovered_lines = uncovered_lines\<rparr>"

definition file_violation :: "percentage_floor \<Rightarrow> file_view \<Rightarrow> run_view_panic + violation list" where
  "file_violation minimum file_view =
     rbind (metric_in (fv_metrics file_view) (fl_metric minimum)) (\<lambda>counts.
       Inr (if mw_eligible counts = 0 \<or> metric_meets counts (fl_ppm minimum) then []
         else [violation_of (Some (fv_file file_view)) counts minimum (fv_uncovered_lines file_view)]))"

definition floor_violations :: "run_view \<Rightarrow> bool \<Rightarrow> percentage_floor \<Rightarrow> run_view_panic + violation list" where
  "floor_violations view per_file minimum =
     rbind (metric_in (rv_totals view) (fl_metric minimum)) (\<lambda>metric.
       let whole = (if metric_meets metric (fl_ppm minimum) then [] else [violation_of None metric minimum []]) in
       if \<not> per_file then Inr whole
       else rbind (try_map (file_violation minimum) (rv_files view)) (\<lambda>found. Inr (whole @ concat found)))"

definition check :: "run_view \<Rightarrow> percentage_floor list \<Rightarrow> bool \<Rightarrow> run_view_panic + check_outcome" where
  "check view floors per_file =
     rbind (try_map (floor_reason view) floors) (\<lambda>found.
       let reasons = blockers view
             @ (if floors = [] then [''no floor requested; give at least one --min-<metric>''] else [])
             @ concat found
       in if reasons \<noteq> [] then Inr (CheckError reasons)
          else rbind (try_map (floor_violations view per_file) floors) (\<lambda>found.
            let violations = concat found in
            Inr (if violations = [] then CheckPass else CheckFail violations)))"

end
