(* ===== verification/RunViewFacts.thy ===== *)
theory RunViewFacts
  imports RunView ViewPart
begin

section \<open>What the view of a run holds\<close>

text \<open>
  The loops of \<open>build\<close> distribute a view's lines, branches, functions and decisions over its files.
  Each file ends with exactly its own, in order, whatever the files between them, and none of the
  \<open>expect\<close>s is reached from a view the engine built.
\<close>

subsection \<open>Finding lines and metrics\<close>

lemma search_between_iff:
  assumes "sorted lines" "high \<le> length lines"
  shows "search_between lines line low high \<longleftrightarrow> (\<exists>i. low \<le> i \<and> i < high \<and> lines ! i = line)"
  using assms
proof (induction lines line low high rule: search_between.induct)
  case (1 lines line low high)
  show ?case
  proof (cases "low < high")
    case True
    let ?mid = "(low + high) div 2"
    have mid: "low \<le> ?mid" "?mid < high" using True by auto
    have below: "lines ! i \<le> lines ! ?mid" if "i \<le> ?mid" for i
      using that mid 1(3,4) by (auto intro: sorted_nth_mono)
    have above: "lines ! ?mid \<le> lines ! i" if "?mid \<le> i" "i < high" for i
      using that 1(3,4) by (auto intro: sorted_nth_mono)
    consider (here) "lines ! ?mid = line" | (right) "lines ! ?mid < line" | (left) "line < lines ! ?mid" by linarith
    then show ?thesis
    proof cases
      case here
      then show ?thesis using True mid by (subst search_between.simps) auto
    next
      case right
      then have "search_between lines line low high = search_between lines line (?mid + 1) high"
        using True by (subst search_between.simps) (simp add: Let_def)
      also have "\<dots> \<longleftrightarrow> (\<exists>i. ?mid + 1 \<le> i \<and> i < high \<and> lines ! i = line)"
        using 1(1)[OF _ refl] True right 1(3,4) by simp
      also have "\<dots> \<longleftrightarrow> (\<exists>i. low \<le> i \<and> i < high \<and> lines ! i = line)"
      proof -
        have "?mid + 1 \<le> i" if "lines ! i = line" for i using below[of i] right that by (cases "i \<le> ?mid") auto
        then have "(?mid + 1 \<le> i \<and> i < high \<and> lines ! i = line) = (low \<le> i \<and> i < high \<and> lines ! i = line)" for i
          using mid(1) by (metis le_trans le_add1)
        then show ?thesis by (simp only:)
      qed
      finally show ?thesis .
    next
      case left
      then have "search_between lines line low high = search_between lines line low ?mid"
        using True by (subst search_between.simps) (simp add: Let_def)
      also have "\<dots> \<longleftrightarrow> (\<exists>i. low \<le> i \<and> i < ?mid \<and> lines ! i = line)"
        using 1(2)[OF _ refl] True left 1(3,4) mid by simp
      also have "\<dots> \<longleftrightarrow> (\<exists>i. low \<le> i \<and> i < high \<and> lines ! i = line)"
      proof -
        have "i < ?mid" if "lines ! i = line" "i < high" for i using above[of i] left that by (cases "?mid \<le> i") auto
        then have "(low \<le> i \<and> i < ?mid \<and> lines ! i = line) = (low \<le> i \<and> i < high \<and> lines ! i = line)" for i
          using mid(2) by (metis less_trans)
        then show ?thesis by (simp only:)
      qed
      finally show ?thesis .
    qed
  qed (subst search_between.simps, auto)
qed

lemma binary_search_iff: "sorted lines \<Longrightarrow> binary_search lines line \<longleftrightarrow> line \<in> set lines"
  by (auto simp: binary_search_def search_between_iff in_set_conv_nth)

lemma metric_in_metrics [simp]: "metric_in (metrics_of summary) metric = Inr (metric_view_of summary metric)"
  by (cases metric) (simp_all add: metric_in_def metrics_of_def all_metrics_def metric_view_of_def Let_def ok_or_def split: prod.splits)

lemma metric_view_fields [simp]:
  "mw_covered (metric_view_of summary metric) = fst (metric_counts summary metric)"
  "mw_eligible (metric_view_of summary metric) = snd (metric_counts summary metric)"
  "mw_metric (metric_view_of summary metric) = metric"
  by (simp_all add: metric_view_of_def Let_def split: prod.splits)

subsection \<open>What the engine's views keep\<close>

text \<open>Every line is there once, every point's file has a line, and every file can be summarised.\<close>

definition view_whole :: "'v coverage_view \<Rightarrow> bool" where
  "view_whole view \<longleftrightarrow> distinct (map (\<lambda>line. (lr_file line, lr_line line)) (cv_lines view))
     \<and> pm_file ` pr_meta ` set (cv_points view) \<subseteq> lr_file ` set (cv_lines view)
     \<and> list_all (\<lambda>d. decision_ok (coverage_of None d)) (cv_decisions view)"

lemma line_step_keys:
  "tree_map m \<Longrightarrow> tree_map (fold (line_step vt declined) points m)
    \<and> fst ` set (fold (line_step vt declined) points m)
      = fst ` set m \<union> (\<lambda>p. (pm_file (pr_meta p), pm_line (pr_meta p))) ` set points"
  by (induction points arbitrary: m) (auto simp: line_step_def tree_entry_def)

lemma built_view_whole:
  assumes "create_coverage_view_with_model j manifest raws g model = Inr view"
  shows "view_whole view"
proof -
  let ?m = "settled_manifest j manifest"
  obtain st vt r where r: "results_from vt ?m st r" and view: "view_of_results j ?m g model r = Inr view"
    using view_from[OF assms] by metis
  note parts = view_of_results_cases[where j = j and manifest = ?m and g = g and model = model and r = r, unfolded view sum.case]
  have points: "cv_points view = undeclined_points ?m r" and lines: "cv_lines view = vr_lines r"
    and decisions: "list_all (\<lambda>d. decision_ok (coverage_of None d)) (cv_decisions view)"
    using parts by simp_all
  have built: "vr_lines r = line_results vt (declined_of ?m) (vr_points r)"
    using r by (simp add: results_from_def Let_def)
  let ?lines = "fold (line_step vt (declined_of ?m)) (vr_points r) []"
  have keys: "tree_map ?lines" "fst ` set ?lines = (\<lambda>p. (pm_file (pr_meta p), pm_line (pr_meta p))) ` set (vr_points r)"
    using line_step_keys[of "[]"] by auto
  have key: "(lr_file (line_result_of vt e), lr_line (line_result_of vt e)) = fst e" for e
    by (cases e) (auto simp: line_result_of_def Let_def)
  have names: "map (\<lambda>line. (lr_file line, lr_line line)) (cv_lines view) = map fst ?lines"
    unfolding lines built line_results_def by (simp add: key)
  have "lr_file ` set (cv_lines view) = fst ` fst ` set ?lines"
    using arg_cong[OF names, of "\<lambda>xs. fst ` set xs"] by (simp add: image_image)
  then have "lr_file ` set (cv_lines view) = pm_file ` pr_meta ` set (vr_points r)" by (simp add: keys(2) image_image)
  then show ?thesis
    using decisions tree_map_distinct[OF keys(1)] unfolding view_whole_def names points undeclined_points_def by auto
qed

text \<open>A line is measured where a measured point starts on it, and covered where a covered one does.\<close>

abbreviation starts_at :: "source_line \<Rightarrow> point_result \<Rightarrow> bool" where
  "starts_at key p \<equiv> (pm_file (pr_meta p), pm_line (pr_meta p)) = key"

definition aggregate_at :: "(source_line \<times> line_aggregate) list \<Rightarrow> source_line \<Rightarrow> line_aggregate" where
  "aggregate_at m key = (case map_of m key of Some a \<Rightarrow> a | None \<Rightarrow> no_aggregate)"

lemma line_steps_at:
  "(la_measured (aggregate_at (fold (line_step vt declined) points m) key) \<longleftrightarrow> la_measured (aggregate_at m key)
      \<or> list_ex (\<lambda>p. starts_at key p \<and> pm_id (pr_meta p) \<notin> declined) points)
   \<and> (la_covered (aggregate_at (fold (line_step vt declined) points m) key) \<longleftrightarrow> la_covered (aggregate_at m key)
      \<or> list_ex (\<lambda>p. starts_at key p \<and> pm_id (pr_meta p) \<notin> declined \<and> pr_covered p) points)"
proof (induction points arbitrary: m)
  case (Cons p points)
  have "aggregate_at (line_step vt declined p m) key = (if starts_at key p \<and> pm_id (pr_meta p) \<notin> declined
      then \<lparr>la_covered = la_covered (aggregate_at m key) \<or> pr_covered p, la_measured = True,
         la_tests = la_tests (aggregate_at m key) @ rd_numbers (relation_of (vt_tests vt) (pm_id (pr_meta p))),
         la_phases = la_phases (aggregate_at m key) @ rd_numbers (relation_of (vt_phases vt) (pm_id (pr_meta p))),
         la_explicit_phases = la_explicit_phases (aggregate_at m key)
           @ rd_numbers (relation_of (vt_explicit vt) (pm_id (pr_meta p)))\<rparr>
      else aggregate_at m key)"
    by (auto simp: aggregate_at_def line_step_def)
  then have "la_measured (aggregate_at (line_step vt declined p m) key) \<longleftrightarrow> la_measured (aggregate_at m key)
       \<or> (starts_at key p \<and> pm_id (pr_meta p) \<notin> declined)"
    "la_covered (aggregate_at (line_step vt declined p m) key) \<longleftrightarrow> la_covered (aggregate_at m key)
       \<or> (starts_at key p \<and> pm_id (pr_meta p) \<notin> declined \<and> pr_covered p)" by auto
  then show ?case using Cons.IH[of "line_step vt declined p m"] by auto
qed simp

lemma lines_of_points:
  assumes "create_coverage_view_with_model j manifest raws g model = Inr view"
  shows "\<forall>line \<in> set (cv_lines view). (lr_measured line \<longleftrightarrow> list_ex (starts_at (lr_file line, lr_line line)) (cv_points view))
      \<and> (lr_covered line \<longleftrightarrow> list_ex (\<lambda>p. starts_at (lr_file line, lr_line line) p \<and> pr_covered p) (cv_points view))"
    "(\<lambda>p. (pm_file (pr_meta p), pm_line (pr_meta p))) ` set (cv_points view) \<subseteq> (\<lambda>line. (lr_file line, lr_line line)) ` set (cv_lines view)"
proof -
  let ?m = "settled_manifest j manifest"
  obtain st vt r where r: "results_from vt ?m st r" and view: "view_of_results j ?m g model r = Inr view"
    using view_from[OF assms] by metis
  note parts = view_of_results_cases[where j = j and manifest = ?m and g = g and model = model and r = r, unfolded view sum.case]
  let ?lines = "fold (line_step vt (declined_of ?m)) (vr_points r) []"
  have points: "cv_points view = filter (\<lambda>p. pm_id (pr_meta p) \<notin> declined_of ?m) (vr_points r)"
    and lines: "cv_lines view = map (line_result_of vt) ?lines"
    using parts r by (simp_all add: undeclined_points_def results_from_def Let_def line_results_def)
  have keys: "tree_map ?lines" "fst ` set ?lines = (\<lambda>p. (pm_file (pr_meta p), pm_line (pr_meta p))) ` set (vr_points r)"
    using line_step_keys[of "[]"] by auto
  have fields: "(lr_file (line_result_of vt e), lr_line (line_result_of vt e)) = fst e"
    "lr_measured (line_result_of vt e) = la_measured (snd e)" "lr_covered (line_result_of vt e) = la_covered (snd e)" for e
    by (cases e; auto simp: line_result_of_def Let_def)+
  have start: "aggregate_at [] key = no_aggregate" for key by (simp add: aggregate_at_def)
  have at_key: "(lr_measured (line_result_of vt e) \<longleftrightarrow> list_ex (starts_at (fst e)) (cv_points view))
      \<and> (lr_covered (line_result_of vt e) \<longleftrightarrow> list_ex (\<lambda>p. starts_at (fst e) p \<and> pr_covered p) (cv_points view))"
    if "e \<in> set ?lines" for e
  proof -
    have "map_of ?lines (fst e) = Some (snd e)" using that tree_map_in[OF keys(1), of "fst e" "snd e"] by simp
    then have "aggregate_at ?lines (fst e) = snd e" by (simp add: aggregate_at_def)
    then show ?thesis
      using line_steps_at[of vt "declined_of ?m" "vr_points r" "[]" "fst e"]
      unfolding fields(2,3) points by (simp add: start no_aggregate_def list_ex_iff) blast
  qed
  show "\<forall>line \<in> set (cv_lines view). (lr_measured line \<longleftrightarrow> list_ex (starts_at (lr_file line, lr_line line)) (cv_points view))
      \<and> (lr_covered line \<longleftrightarrow> list_ex (\<lambda>p. starts_at (lr_file line, lr_line line) p \<and> pr_covered p) (cv_points view))"
  proof
    fix line assume "line \<in> set (cv_lines view)"
    then obtain e where e: "e \<in> set ?lines" "line = line_result_of vt e" unfolding lines by auto
    show "(lr_measured line \<longleftrightarrow> list_ex (starts_at (lr_file line, lr_line line)) (cv_points view))
      \<and> (lr_covered line \<longleftrightarrow> list_ex (\<lambda>p. starts_at (lr_file line, lr_line line) p \<and> pr_covered p) (cv_points view))"
      unfolding e(2) fields(1) by (rule at_key[OF e(1)])
  qed
  have "(\<lambda>line. (lr_file line, lr_line line)) ` set (cv_lines view) = fst ` set ?lines"
    unfolding lines by (simp add: image_image fields(1))
  then show "(\<lambda>p. (pm_file (pr_meta p), pm_line (pr_meta p))) ` set (cv_points view) \<subseteq> (\<lambda>line. (lr_file line, lr_line line)) ` set (cv_lines view)"
    unfolding keys(2) points by auto
qed

lemma view_summaries:
  assumes "view_whole view"
  shows "\<exists>summary. coverage_summary_for_file view path = Inr summary"
  using assms summary_succeeds[of "filter (\<lambda>decision. dm_file (dr_meta decision) = path) (cv_decisions view)"]
  by (auto simp: coverage_summary_for_file_def view_whole_def list_all_iff)

subsection \<open>What the loops leave in a file\<close>

definition file_at :: "file_views \<Rightarrow> string \<Rightarrow> file_view" where
  "file_at files path = (case map_of files path of Some v \<Rightarrow> v | None \<Rightarrow> empty_file path)"

lemma fold_in_file:
  assumes "tree_map files"
  shows "tree_map (fold (\<lambda>x. in_file (key x) (upd x)) xs files)
    \<and> fst ` set (fold (\<lambda>x. in_file (key x) (upd x)) xs files) = fst ` set files \<union> key ` set xs
    \<and> (\<forall>path. file_at (fold (\<lambda>x. in_file (key x) (upd x)) xs files) path
      = fold upd (filter (\<lambda>x. key x = path) xs) (file_at files path))"
  using assms
proof (induction xs arbitrary: files)
  case (Cons x xs)
  let ?files = "in_file (key x) (upd x) files"
  have "tree_map ?files" "fst ` set ?files = insert (key x) (fst ` set files)"
    using Cons.prems by (simp_all add: in_file_def tree_entry_def)
  moreover have "file_at ?files path = (if key x = path then upd x (file_at files path) else file_at files path)" for path
    by (auto simp: file_at_def in_file_def)
  ultimately show ?case using Cons.IH[of ?files] by simp
qed simp

lemma enumerated_image: "(\<lambda>numbered. f (snd numbered)) ` set (enumerate n xs) = f ` set xs"
proof -
  have "map (\<lambda>numbered. f (snd numbered)) (enumerate n xs) = map f xs" by (induction xs arbitrary: n) simp_all
  then show ?thesis by (metis set_map)
qed

definition functions_in :: "string \<Rightarrow> point_result list \<Rightarrow> point_result list" where
  "functions_in path points = filter (\<lambda>point. pm_kind (pr_meta point) = Function \<and> pm_file (pr_meta point) = path) points"

lemma add_functions:
  assumes "tree_map files" "pm_file ` pr_meta ` set points \<subseteq> fst ` set files"
  shows "\<exists>files'. try_fold add_function points files = Inr files' \<and> tree_map files' \<and> fst ` set files' = fst ` set files
    \<and> (\<forall>path. file_at files' path = fold function_into (functions_in path points) (file_at files path))"
  using assms
proof (induction points arbitrary: files)
  case (Cons point points)
  let ?path = "pm_file (pr_meta point)"
  show ?case
  proof (cases "pm_kind (pr_meta point) = Function")
    case True
    obtain file_view where found: "map_of files ?path = Some file_view"
      using Cons.prems(2) map_of_eq_None_iff[of files ?path] by fastforce
    let ?files = "tree_insert ?path (function_into point file_view) files"
    have "tree_map ?files" "fst ` set ?files = fst ` set files" using Cons.prems by auto
    moreover have "file_at ?files path = (if ?path = path then function_into point (file_at files path) else file_at files path)" for path
      using found by (auto simp: file_at_def)
    ultimately show ?thesis using Cons.IH[of ?files] Cons.prems True found by (auto simp: add_function_def functions_in_def)
  qed (use Cons in \<open>auto simp: add_function_def functions_in_def\<close>)
qed (simp add: functions_in_def)

text \<open>One file's share of a view, before it is put in order.\<close>

definition branches_in :: "'v coverage_view \<Rightarrow> string \<Rightarrow> (nat \<times> branch_result) list" where
  "branches_in view path = filter (\<lambda>(_, branch). bm_file (br_meta branch) = path) (enumerate 0 (cv_branches view))"

definition lines_in :: "'v coverage_view \<Rightarrow> string \<Rightarrow> line_result list" where
  "lines_in view path = filter (\<lambda>line. lr_file line = path) (cv_lines view)"

definition decisions_in :: "'v coverage_view \<Rightarrow> string \<Rightarrow> decision_result list" where
  "decisions_in view path = filter (\<lambda>decision. dm_file (dr_meta decision) = path) (cv_decisions view)"

definition share_of :: "'v coverage_view \<Rightarrow> string \<Rightarrow> file_view" where
  "share_of view path = fold decision_into (decisions_in view path)
     (fold function_into (functions_in path (cv_points view))
       (fold branch_into (branches_in view path) (fold line_into (lines_in view path) (empty_file path))))"

definition files_named :: "'v coverage_view \<Rightarrow> string set" where
  "files_named view = lr_file ` set (cv_lines view) \<union> bm_file ` br_meta ` set (cv_branches view)
     \<union> dm_file ` dr_meta ` set (cv_decisions view)"

lemma files_read_exact:
  assumes "view_whole view"
  shows "\<exists>files. files_read view = Inr files \<and> tree_map files \<and> fst ` set files = files_named view
    \<and> (\<forall>path. file_at files path = share_of view path)"
proof -
  let ?lines = "fold add_line (cv_lines view) []"
  let ?branches = "fold add_branch (enumerate 0 (cv_branches view)) ?lines"
  have lines: "tree_map ?lines" "fst ` set ?lines = lr_file ` set (cv_lines view)"
    "file_at ?lines path = fold line_into (lines_in view path) (empty_file path)" for path
    using fold_in_file[of "[]" lr_file line_into "cv_lines view"]
    by (simp_all add: add_line_def[abs_def] lines_in_def file_at_def)
  have branches: "tree_map ?branches"
    "fst ` set ?branches = lr_file ` set (cv_lines view) \<union> bm_file ` br_meta ` set (cv_branches view)"
    "file_at ?branches path = fold branch_into (branches_in view path) (fold line_into (lines_in view path) (empty_file path))" for path
    using fold_in_file[OF lines(1), of "\<lambda>numbered. bm_file (br_meta (snd numbered))" branch_into "enumerate 0 (cv_branches view)"]
      enumerated_image[of "\<lambda>branch. bm_file (br_meta branch)" 0 "cv_branches view"] lines(2,3)
    by (simp_all add: add_branch_def[abs_def] branches_in_def case_prod_unfold image_image)
  have "pm_file ` pr_meta ` set (cv_points view) \<subseteq> fst ` set ?branches"
    using assms branches(2) by (auto simp: view_whole_def)
  then obtain files where files: "try_fold add_function (cv_points view) ?branches = Inr files" "tree_map files"
    "fst ` set files = fst ` set ?branches"
    "\<forall>path. file_at files path = fold function_into (functions_in path (cv_points view)) (file_at ?branches path)"
    using add_functions[OF branches(1)] by metis
  have "files_read view = Inr (fold add_decision (cv_decisions view) files)" by (simp add: files_read_def files(1))
  moreover have "tree_map (fold add_decision (cv_decisions view) files)"
    "fst ` set (fold add_decision (cv_decisions view) files) = files_named view"
    "file_at (fold add_decision (cv_decisions view) files) path = share_of view path" for path
    using fold_in_file[OF files(2), of "\<lambda>decision. dm_file (dr_meta decision)" decision_into "cv_decisions view"] files(3,4) branches(2,3)
    by (simp_all add: add_decision_def[abs_def] share_of_def decisions_in_def files_named_def image_image)
  ultimately show ?thesis by blast
qed

lemma lines_into: "fold line_into lines file_view = file_view
   \<lparr>fv_measured_lines := fv_measured_lines file_view @ map lr_line (filter lr_measured lines),
    fv_uncovered_lines := fv_uncovered_lines file_view @ map lr_line (filter (\<lambda>line. lr_measured line \<and> \<not> lr_covered line) lines)\<rparr>"
  by (induction lines arbitrary: file_view) (simp_all add: line_into_def)

definition branch_records :: "nat \<times> branch_result \<Rightarrow> branch_record list" where
  "branch_records = (\<lambda>(block, branch). map (\<lambda>(index, alternative). \<lparr>bn_line = bm_line (br_meta branch), bn_block = block,
     bn_index = index, bn_taken = ar_covered alternative\<rparr>) (enumerate 0 (br_alternatives branch)))"

lemma branches_into:
  "fv_file (fold branch_into branches file_view) = fv_file file_view"
  "fv_metrics (fold branch_into branches file_view) = fv_metrics file_view"
  "fv_measured_lines (fold branch_into branches file_view) = fv_measured_lines file_view"
  "fv_uncovered_lines (fold branch_into branches file_view) = fv_uncovered_lines file_view"
  "fv_functions (fold branch_into branches file_view) = fv_functions file_view"
  "fv_conditions (fold branch_into branches file_view) = fv_conditions file_view"
  "fv_branches (fold branch_into branches file_view) = fv_branches file_view @ concat (map branch_records branches)"
  by (induction branches arbitrary: file_view) (simp_all add: branch_into_def branch_records_def case_prod_unfold)

lemma functions_into: "fold function_into points file_view
   = file_view\<lparr>fv_functions := fv_functions file_view @ map function_of points\<rparr>"
  by (induction points arbitrary: file_view) (simp_all add: function_into_def)

definition condition_records :: "decision_result \<Rightarrow> condition_record list" where
  "condition_records decision = map (\<lambda>condition. \<lparr>cn_line = dm_line (dr_meta decision), cn_column = dm_column (dr_meta decision),
     cn_index = cr_index condition, cn_covered = cr_covered condition, cn_source = cr_source condition\<rparr>) (dr_conditions decision)"

lemma decisions_into:
  "fv_file (fold decision_into decisions file_view) = fv_file file_view"
  "fv_metrics (fold decision_into decisions file_view) = fv_metrics file_view"
  "fv_measured_lines (fold decision_into decisions file_view) = fv_measured_lines file_view"
  "fv_uncovered_lines (fold decision_into decisions file_view) = fv_uncovered_lines file_view"
  "fv_functions (fold decision_into decisions file_view) = fv_functions file_view"
  "fv_branches (fold decision_into decisions file_view) = fv_branches file_view"
  "fv_conditions (fold decision_into decisions file_view) = fv_conditions file_view @ concat (map condition_records decisions)"
  by (induction decisions arbitrary: file_view) (simp_all add: decision_into_def condition_records_def)

lemma share_fields:
  "fv_file (share_of view path) = path"
  "fv_measured_lines (share_of view path) = map lr_line (filter lr_measured (lines_in view path))"
  "fv_uncovered_lines (share_of view path)
    = map lr_line (filter (\<lambda>line. lr_measured line \<and> \<not> lr_covered line) (lines_in view path))"
  "fv_functions (share_of view path) = map function_of (functions_in path (cv_points view))"
  "fv_branches (share_of view path) = concat (map branch_records (branches_in view path))"
  "fv_conditions (share_of view path) = concat (map condition_records (decisions_in view path))"
  by (simp_all add: share_of_def lines_into branches_into functions_into decisions_into empty_file_def)

subsection \<open>The view of a run\<close>

definition file_summary :: "'v coverage_view \<Rightarrow> string \<Rightarrow> coverage_summary" where
  "file_summary view path = (case coverage_summary_for_file view path of Inr summary \<Rightarrow> summary | Inl _ \<Rightarrow> cv_summary view)"

definition file_view_of :: "'v coverage_view \<Rightarrow> string \<Rightarrow> file_view" where
  "file_view_of view path = in_order ((share_of view path)\<lparr>fv_metrics := metrics_of (file_summary view path)\<rparr>)"

lemma run_view_exact:
  assumes "view_whole view"
  shows "\<exists>run_view. run_view_of print run g view passed stale reasons = Inr run_view
    \<and> rv_files run_view = map (file_view_of view) (sorted_list_of_set (files_named view))
    \<and> rv_totals run_view = metrics_of (cv_summary view) \<and> rv_suite_passed run_view = passed
    \<and> rv_stale run_view = stale \<and> rv_stale_reasons run_view = reasons"
proof -
  obtain files where files: "files_read view = Inr files" "tree_map files" "fst ` set files = files_named view"
    "\<And>path. file_at files path = share_of view path"
    using files_read_exact[OF assms] by blast
  have "finish_file view (path, file_view) = Inr (file_view_of view path)" if "(path, file_view) \<in> set files" for path file_view
  proof -
    have "map_of files path = Some file_view" using that tree_map_in[OF files(2)] by blast
    then have "file_view = share_of view path" using files(4)[of path] by (simp add: file_at_def)
    then show ?thesis
      using view_summaries[OF assms, of path] by (auto simp: finish_file_def file_view_of_def file_summary_def)
  qed
  then have built: "try_map (finish_file view) files = Inr (map (\<lambda>file. file_view_of view (fst file)) files)"
    by (intro try_map_all_Inr) auto
  have "sorted_wrt (<) (map fst files)" using files(2) by (simp add: tree_map_def)
  then have "map fst files = sorted_list_of_set (files_named view)"
    unfolding files(3)[symmetric] by (metis set_map sorted_list_of_set.idem_if_sorted_distinct strict_sorted_iff)
  moreover have "map (\<lambda>file. file_view_of view (fst file)) files = map (file_view_of view) (map fst files)" by simp
  ultimately have "map (\<lambda>file. file_view_of view (fst file)) files = map (file_view_of view) (sorted_list_of_set (files_named view))"
    by simp
  then show ?thesis by (simp add: run_view_of_def files(1) built)
qed

lemma finite_files [simp]: "finite (files_named view)"
  by (simp add: files_named_def)

lemma file_view_fields:
  "fv_file (file_view_of view path) = path"
  "fv_metrics (file_view_of view path) = metrics_of (file_summary view path)"
  "fv_measured_lines (file_view_of view path) = remdups_adj (sort (map lr_line (filter lr_measured (lines_in view path))))"
  "fv_uncovered_lines (file_view_of view path)
    = remdups_adj (sort (map lr_line (filter (\<lambda>line. lr_measured line \<and> \<not> lr_covered line) (lines_in view path))))"
  by (simp_all add: file_view_of_def in_order_def share_fields)

end
