(* ===== verification/RunViewExact.thy ===== *)
theory RunViewExact
  imports RunViewFacts
begin

section \<open>What gates and exports read agrees\<close>

text \<open>
  No \<open>expect\<close> of the run view is reached on a view the engine built; a check passes exactly when every
  floor is met by exact counts; and the lines an export lists, the counts of a file and the totals of the
  run say the same.
\<close>

subsection \<open>No panic\<close>

lemma run_view_from:
  assumes "create_coverage_view_with_model j manifest raws g model = Inr view"
    and "run_view_of print run generated_at view passed stale reasons = Inr run_view"
  shows "rv_files run_view = map (file_view_of view) (sorted_list_of_set (files_named view))"
    "rv_totals run_view = metrics_of (cv_summary view)" "rv_suite_passed run_view = passed" "rv_stale run_view = stale"
    "rv_stale_reasons run_view = reasons"
  using run_view_exact[OF built_view_whole[OF assms(1)], of print run generated_at passed stale reasons] assms(2) by auto

definition reasons_of :: "coverage_summary \<Rightarrow> percentage_floor \<Rightarrow> string list" where
  "reasons_of summary minimum = (case mw_applicability (metric_view_of summary (fl_metric minimum)) of
       NotApplicable \<Rightarrow> [metric_name (fl_metric minimum)
           @ '' has nothing eligible in this run, which is not the same as complete; remove ''
           @ metric_flag (fl_metric minimum) @ '' or widen the scope'']
       | IsIncomplete unmeasured \<Rightarrow> [metric_name (fl_metric minimum) @ '' left '' @ decimal unmeasured
           @ '' obligation(s) unmeasured, so '' @ metric_flag (fl_metric minimum) @ '' cannot be judged exactly'']
       | IsMeasured \<Rightarrow> [])"

definition violations_of :: "coverage_summary \<Rightarrow> file_view list \<Rightarrow> bool \<Rightarrow> percentage_floor \<Rightarrow> violation list" where
  "violations_of summary files per_file minimum =
     (let metric = metric_view_of summary (fl_metric minimum) in
      (if metric_meets metric (fl_ppm minimum) then [] else [violation_of None metric minimum []])
      @ (if per_file then concat (map (\<lambda>file_view. case file_violation minimum file_view of Inr vs \<Rightarrow> vs | Inl _ \<Rightarrow> []) files) else []))"

lemma file_violation_file:
  "file_violation minimum (file_view_of view path)
    = Inr (let counts = metric_view_of (file_summary view path) (fl_metric minimum) in
        if mw_eligible counts = 0 \<or> metric_meets counts (fl_ppm minimum) then []
        else [violation_of (Some path) counts minimum (fv_uncovered_lines (file_view_of view path))])"
  by (simp add: file_violation_def file_view_fields Let_def)

lemma check_of_run:
  assumes "create_coverage_view_with_model j manifest raws g model = Inr view"
    and "run_view_of print run generated_at view passed stale reasons = Inr run_view"
  shows "check run_view floors per_file = Inr (
     let reasons = blockers run_view
           @ (if floors = [] then [''no floor requested; give at least one --min-<metric>''] else [])
           @ concat (map (reasons_of (cv_summary view)) floors);
         violations = concat (map (violations_of (cv_summary view) (rv_files run_view) per_file) floors)
     in if reasons \<noteq> [] then CheckError reasons else if violations = [] then CheckPass else CheckFail violations)"
proof -
  note parts = run_view_from[OF assms]
  have reasons: "try_map (floor_reason run_view) floors = Inr (map (reasons_of (cv_summary view)) floors)"
    by (rule try_map_all_Inr) (simp add: floor_reason_def parts(2) reasons_of_def)
  have files: "try_map (file_violation minimum) (rv_files run_view)
      = Inr (map (\<lambda>file_view. case file_violation minimum file_view of Inr vs \<Rightarrow> vs | Inl _ \<Rightarrow> []) (rv_files run_view))" for minimum
    by (rule try_map_all_Inr) (auto simp: parts(1) file_violation_file)
  have "try_map (floor_violations run_view per_file) floors
      = Inr (map (violations_of (cv_summary view) (rv_files run_view) per_file) floors)"
    by (rule try_map_all_Inr) (simp add: floor_violations_def parts(2) files violations_of_def Let_def)
  then show ?thesis by (simp add: check_def reasons Let_def)
qed

text \<open>C13: The view every gate and export reads is built of every view the engine made of a run, and a
  check against any floors answers: no \<open>expect\<close> on the way is reached.\<close>

theorem run_view_never_panics:
  assumes "create_coverage_view_with_model j manifest raws g model = Inr view"
  shows "\<exists>run_view outcome. run_view_of print run generated_at view passed stale reasons = Inr run_view
     \<and> check run_view floors per_file = Inr outcome"
  using run_view_exact[OF built_view_whole[OF assms], of print run generated_at passed stale reasons] check_of_run[OF assms] by blast

subsection \<open>When a check passes\<close>

definition floor_met :: "coverage_summary \<Rightarrow> percentage_floor \<Rightarrow> bool" where
  "floor_met summary minimum \<longleftrightarrow>
     (let (covered, eligible) = metric_counts summary (fl_metric minimum)
      in fl_ppm minimum * eligible \<le> covered * 1000000)"

definition floor_judged :: "coverage_summary \<Rightarrow> percentage_floor \<Rightarrow> bool" where
  "floor_judged summary minimum \<longleftrightarrow> snd (metric_counts summary (fl_metric minimum)) \<noteq> 0
     \<and> cs_unmeasured_obligations summary \<in> {None, Some 0}"

lemma no_reasons: "reasons_of summary minimum = [] \<longleftrightarrow> floor_judged summary minimum"
  by (auto simp: reasons_of_def metric_view_of_def floor_judged_def Let_def split: prod.splits option.splits applicability.splits if_splits)

lemma meets_floor: "metric_meets (metric_view_of summary (fl_metric minimum)) (fl_ppm minimum) \<longleftrightarrow> floor_met summary minimum"
  by (simp add: metric_meets_def floor_met_def split: prod.splits)

lemma no_file_violation:
  "file_violation minimum (file_view_of view path) = Inr [] \<longleftrightarrow> floor_met (file_summary view path) minimum"
  unfolding file_violation_file Let_def meets_floor by (auto simp: floor_met_def split: prod.splits)

lemma no_violations:
  "violations_of summary (map (file_view_of view) paths) per_file minimum = []
    \<longleftrightarrow> floor_met summary minimum \<and> (per_file \<longrightarrow> list_all (\<lambda>path. floor_met (file_summary view path) minimum) paths)"
proof -
  have "(case file_violation minimum (file_view_of view path) of Inr vs \<Rightarrow> vs | Inl _ \<Rightarrow> []) = []
      \<longleftrightarrow> floor_met (file_summary view path) minimum" for path
    using no_file_violation[of minimum view path] file_violation_file[of minimum view path] by (cases "file_violation minimum (file_view_of view path)") auto
  then show ?thesis by (auto simp: violations_of_def Let_def meets_floor list_all_iff)
qed

lemma no_blockers: "blockers run_view = [] \<longleftrightarrow> rv_suite_passed run_view \<and> \<not> rv_stale run_view"
  by (simp add: blockers_def)

text \<open>C10: A gate passes exactly when the suite passed, the run is of this checkout, at least one floor
  was asked for, every metric asked for has something eligible and nothing unmeasured, and covered times
  a million is at least the floor times eligible: in the run and, per file, in each file. No rounding
  comes between.\<close>

theorem check_passes_exactly:
  assumes "create_coverage_view_with_model j manifest raws g model = Inr view"
    and "run_view_of print run generated_at view passed stale reasons = Inr run_view"
  shows "check run_view floors per_file = Inr CheckPass \<longleftrightarrow>
     passed \<and> \<not> stale \<and> floors \<noteq> []
     \<and> list_all (\<lambda>minimum. floor_judged (cv_summary view) minimum \<and> floor_met (cv_summary view) minimum
         \<and> (\<not> per_file \<or> list_all (\<lambda>path. floor_met (file_summary view path) minimum) (sorted_list_of_set (files_named view)))) floors"
  unfolding check_of_run[OF assms] run_view_from(1)[OF assms]
  using run_view_from(3,4)[OF assms]
  by (auto simp: Let_def no_blockers no_reasons no_violations list_all_iff)

subsection \<open>Lines, counts and totals\<close>

lemma file_summary_exists:
  assumes "view_whole view"
  shows "coverage_summary_for_file view path = Inr (file_summary view path)"
  using view_summaries[OF assms, of path] by (auto simp: file_summary_def)

text \<open>What a list of results counts of a metric: each result's covered and eligible parts.\<close>

definition witnessed :: "decision_result \<Rightarrow> nat" where
  "witnessed decision = (case find_witnesses_for_conditions (dc_vectors (coverage_of None decision))
       (dc_condition_count (coverage_of None decision)) of
     Inr ws \<Rightarrow> length (filter (\<lambda>w. w \<noteq> None) ws) | Inl _ \<Rightarrow> 0)"

fun counted_of ::
  "decision_result list \<Rightarrow> point_result list \<Rightarrow> branch_result list \<Rightarrow> line_result list \<Rightarrow> metric \<Rightarrow> nat \<times> nat" where
  "counted_of ds ps bs ls LinesMetric =
     (sum_list (map (\<lambda>l. of_bool (lr_measured l \<and> lr_covered l)) ls), sum_list (map (\<lambda>l. of_bool (lr_measured l)) ls))"
| "counted_of ds ps bs ls StatementsMetric =
     (sum_list (map (\<lambda>p. of_bool (pm_kind (pr_meta p) = Statement \<and> pr_covered p)) ps),
      sum_list (map (\<lambda>p. of_bool (pm_kind (pr_meta p) = Statement)) ps))"
| "counted_of ds ps bs ls FunctionsMetric =
     (sum_list (map (\<lambda>p. of_bool (pm_kind (pr_meta p) = Function \<and> pr_covered p)) ps),
      sum_list (map (\<lambda>p. of_bool (pm_kind (pr_meta p) = Function)) ps))"
| "counted_of ds ps bs ls BranchesMetric =
     (sum_list (map (\<lambda>b. length (filter ar_covered (br_alternatives b))) bs), sum_list (map (\<lambda>b. length (br_alternatives b)) bs))"
| "counted_of ds ps bs ls McdcMetric =
     (sum_list (map witnessed ds), sum_list (map (\<lambda>d. length (dm_conditions (dr_meta d))) ds))"

lemma length_filter_sum: "length (filter P xs) = sum_list (map (\<lambda>x. of_bool (P x)) xs)"
  by (induction xs) auto

lemma sum_filter_of_bool: "sum_list (map (\<lambda>x. of_bool (P x)) (filter Q xs)) = sum_list (map (\<lambda>x. of_bool (Q x \<and> P x)) xs)"
  by (induction xs) auto

lemma witnessed_sum:
  assumes "list_all2 (\<lambda>d ws. dc_condition_count d \<noteq> 0
      \<and> find_witnesses_for_conditions (dc_vectors d) (dc_condition_count d) = Inr ws) (map (coverage_of None) ds) wss"
  shows "length (filter (\<lambda>w. w \<noteq> None) (concat wss)) = sum_list (map witnessed ds)"
  using assms
proof (induction ds arbitrary: wss)
  case (Cons d ds)
  obtain ws rest where wss: "wss = ws # rest"
    "find_witnesses_for_conditions (dc_vectors (coverage_of None d)) (dc_condition_count (coverage_of None d)) = Inr ws"
    "length (filter (\<lambda>w. w \<noteq> None) (concat rest)) = sum_list (map witnessed ds)"
    using Cons by (auto simp: list_all2_Cons1 simp del: not_None_eq)
  have "witnessed d = length (filter (\<lambda>w. w \<noteq> None) ws)" unfolding witnessed_def wss(2) by simp
  then show ?case using wss(1,3) by (simp del: not_None_eq)
qed simp

lemma summary_counts:
  assumes "summary_for_results ds ps bs ls None = Inr summary"
  shows "metric_counts summary metric = counted_of ds ps bs ls metric"
proof -
  obtain out where out: "analyze_core (summary_input ds ps bs ls None) = Inr out" "summary = out_summary out"
    using assms by (auto simp: summary_for_results_def split: sum.splits)
  note counts = analyze_core_counts[OF out(1)]
  have branches: "length (alternatives_of (in_branches (summary_input ds ps bs ls None))) = sum_list (map (\<lambda>b. length (br_alternatives b)) bs)"
    "count_true (alternatives_of (in_branches (summary_input ds ps bs ls None))) = sum_list (map (\<lambda>b. length (filter ar_covered (br_alternatives b))) bs)"
    by (induction bs) (simp_all add: summary_input_def alternatives_of_def count_true_def included_def filter_map comp_def)
  have covered: "cs_covered_conditions summary = sum_list (map witnessed ds)"
    using witnessed_sum[OF witnesses_per_decision[OF analyze_core_Inr[OF out(1)], unfolded in_decisions_summary]] counts(9) out(2)
    by (simp del: not_None_eq)
  have conditions: "cs_conditions summary = sum_list (map (\<lambda>d. length (dm_conditions (dr_meta d))) ds)"
    using counts(8) out(2) by (simp add: in_decisions_summary coverage_of_def comp_def)
  show ?thesis
  proof (cases metric)
    case BranchesMetric
    then show ?thesis by (simp add: out(2) counts(4) count_def branches)
  next
    case McdcMetric
    then show ?thesis by (simp add: covered conditions)
  qed (simp_all add: counts(1-3) out(2) count_def summary_input_def count_true_def points_of_def included_def
         filter_map comp_def length_filter_sum sum_filter_of_bool conj_commute)
qed

lemma sum_by_file:
  fixes weight :: "'a \<Rightarrow> nat"
  assumes "finite files" "key ` set xs \<subseteq> files"
  shows "sum_list (map weight xs) = (\<Sum>path\<in>files. sum_list (map weight (filter (\<lambda>x. key x = path) xs)))"
  using assms(2)
proof (induction xs)
  case (Cons x xs)
  have "(\<Sum>path\<in>files. sum_list (map weight (filter (\<lambda>y. key y = path) (x # xs))))
      = (\<Sum>path\<in>files. (if key x = path then weight x else 0) + sum_list (map weight (filter (\<lambda>y. key y = path) xs)))"
    by (rule sum.cong) auto
  also have "\<dots> = weight x + sum_list (map weight xs)"
    using Cons assms(1) by (simp add: sum.distrib)
  finally show ?case by simp
qed simp

lemma file_counts:
  assumes "view_whole view"
  shows "metric_counts (file_summary view path) metric = counted_of (decisions_in view path)
    (filter (\<lambda>p. pm_file (pr_meta p) = path) (cv_points view)) (filter (\<lambda>b. bm_file (br_meta b) = path) (cv_branches view))
    (lines_in view path) metric"
  using summary_counts file_summary_exists[OF assms, of path, unfolded coverage_summary_for_file_def]
  by (simp add: decisions_in_def lines_in_def)

lemma run_counts:
  assumes "create_coverage_view_with_model j manifest raws g model = Inr view"
  shows "metric_counts (cv_summary view) metric
    = counted_of (cv_decisions view) (cv_points view) (cv_branches view) (cv_lines view) metric"
proof -
  obtain r where "view_of_results j (settled_manifest j manifest) g model r = Inr view"
    using view_from[OF assms] by metis
  then obtain s n k b where s: "summary_for_results (cv_decisions view) (cv_points view) (cv_branches view) (cv_lines view) None = Inr s"
    "cv_summary view = settle_summary n k b s"
    using view_of_results_cases[where j = j and manifest = "settled_manifest j manifest" and g = g and model = model and r = r]
    by auto
  have "metric_counts (settle_summary n k b s) metric = metric_counts s metric"
    by (cases metric) (simp_all add: settle_summary_def Let_def)
  then show ?thesis using summary_counts[OF s(1)] s(2) by simp
qed

lemma counts_by_file:
  assumes "view_whole view"
  shows "fst (counted_of (cv_decisions view) (cv_points view) (cv_branches view) (cv_lines view) metric)
      = (\<Sum>path\<in>files_named view. fst (metric_counts (file_summary view path) metric))"
    "snd (counted_of (cv_decisions view) (cv_points view) (cv_branches view) (cv_lines view) metric)
      = (\<Sum>path\<in>files_named view. snd (metric_counts (file_summary view path) metric))"
proof -
  have files: "lr_file ` set (cv_lines view) \<subseteq> files_named view" "(\<lambda>d. dm_file (dr_meta d)) ` set (cv_decisions view) \<subseteq> files_named view"
    "(\<lambda>b. bm_file (br_meta b)) ` set (cv_branches view) \<subseteq> files_named view" "(\<lambda>p. pm_file (pr_meta p)) ` set (cv_points view) \<subseteq> files_named view"
    using assms by (auto simp: files_named_def view_whole_def)
  note split = sum_by_file[OF finite_files files(1)] sum_by_file[OF finite_files files(2)]
    sum_by_file[OF finite_files files(3)] sum_by_file[OF finite_files files(4)]
  show "fst (counted_of (cv_decisions view) (cv_points view) (cv_branches view) (cv_lines view) metric)
      = (\<Sum>path\<in>files_named view. fst (metric_counts (file_summary view path) metric))"
    unfolding file_counts[OF assms] lines_in_def decisions_in_def by (cases metric) (simp_all only: counted_of.simps fst_conv split)
  show "snd (counted_of (cv_decisions view) (cv_points view) (cv_branches view) (cv_lines view) metric)
      = (\<Sum>path\<in>files_named view. snd (metric_counts (file_summary view path) metric))"
    unfolding file_counts[OF assms] lines_in_def decisions_in_def by (cases metric) (simp_all only: counted_of.simps snd_conv split)
qed

lemma sum_sorted_files: "(\<Sum>path\<in>files_named view. f path) = sum_list (map f (sorted_list_of_set (files_named view)))"
  by (simp add: sum_list_distinct_conv_sum_set)

text \<open>C12: The totals a gate judges are the sums of the files' counts, in every metric: nothing is counted
  outside the files or in two of them.\<close>

theorem totals_are_the_files:
  assumes "create_coverage_view_with_model j manifest raws g model = Inr view"
    and "run_view_of print run generated_at view passed stale reasons = Inr run_view"
  shows "\<exists>whole parts. metric_in (rv_totals run_view) metric = Inr whole
     \<and> try_map (\<lambda>file_view. metric_in (fv_metrics file_view) metric) (rv_files run_view) = Inr parts
     \<and> mw_covered whole = sum_list (map mw_covered parts) \<and> mw_eligible whole = sum_list (map mw_eligible parts)"
proof -
  note view = built_view_whole[OF assms(1)] and parts = run_view_from(1,2)[OF assms]
  let ?files = "sorted_list_of_set (files_named view)"
  let ?parts = "map (\<lambda>path. metric_view_of (file_summary view path) metric) ?files"
  have "try_map (\<lambda>file_view. metric_in (fv_metrics file_view) metric) (rv_files run_view) = Inr ?parts"
    unfolding parts(1) by (simp add: try_map_Inr_iff list_all2_map1 list_all2_map2 list_all2_same file_view_fields)
  moreover have "fst (metric_counts (cv_summary view) metric) = sum_list (map mw_covered ?parts)"
    "snd (metric_counts (cv_summary view) metric) = sum_list (map mw_eligible ?parts)"
    unfolding run_counts[OF assms(1)] counts_by_file[OF view] sum_sorted_files by (simp_all add: comp_def)
  ultimately show ?thesis by (simp add: parts(2))
qed

lemma file_lines:
  assumes "view_whole view"
  shows "distinct (map lr_line (lines_in view path))"
proof -
  have "distinct (map (\<lambda>line. (lr_file line, lr_line line)) (lines_in view path))"
    using assms unfolding view_whole_def lines_in_def by (simp add: distinct_map_filter)
  moreover have "map (\<lambda>line. (lr_file line, lr_line line)) (lines_in view path) = map (Pair path) (map lr_line (lines_in view path))"
    by (auto simp: lines_in_def)
  ultimately show ?thesis by (simp add: distinct_map inj_on_def)
qed

lemma hits_of:
  assumes "view_whole view"
  shows "line_hits (file_view_of view path)
    = map (\<lambda>line. (line, line \<notin> set (map lr_line (filter (\<lambda>l. lr_measured l \<and> \<not> lr_covered l) (lines_in view path)))))
        (sort (map lr_line (filter lr_measured (lines_in view path))))"
proof -
  have "remdups_adj (sort (map lr_line (filter lr_measured (lines_in view path)))) = sort (map lr_line (filter lr_measured (lines_in view path)))"
    using file_lines[OF assms, of path] by (intro remdups_adj_distinct) (simp add: distinct_map_filter)
  then show ?thesis unfolding line_hits_def file_view_fields by (simp add: binary_search_iff sorted_remdups_adj)
qed

lemma length_filter_mset: "mset xs = mset ys \<Longrightarrow> length (filter P xs) = length (filter P ys)"
  by (metis mset_filter size_mset)

lemma covered_hits:
  assumes "distinct (map lr_line ls)"
  shows "length (filter (\<lambda>line. line \<notin> set (map lr_line (filter (\<lambda>l. lr_measured l \<and> \<not> lr_covered l) ls)))
      (map lr_line (filter lr_measured ls))) = length (filter (\<lambda>l. lr_measured l \<and> lr_covered l) ls)"
proof -
  have "lr_line l \<in> set (map lr_line (filter (\<lambda>l. lr_measured l \<and> \<not> lr_covered l) ls)) \<longleftrightarrow> lr_measured l \<and> \<not> lr_covered l"
    if "l \<in> set ls" for l
    using assms that by (auto simp: distinct_map inj_on_def)
  then have "filter (\<lambda>l. lr_line l \<notin> set (map lr_line (filter (\<lambda>l. lr_measured l \<and> \<not> lr_covered l) ls))) (filter lr_measured ls)
      = filter (\<lambda>l. lr_measured l \<and> lr_covered l) ls"
    unfolding filter_filter by (intro filter_cong refl) auto
  then show ?thesis by (simp add: filter_map comp_def)
qed

text \<open>The lines an export lists for a file are the file's counts: each measured line once, in order,
  as many as are eligible, and as many of them hit as are covered.\<close>

theorem line_hits_are_counted:
  assumes "create_coverage_view_with_model j manifest raws g model = Inr view"
    and "run_view_of print run generated_at view passed stale reasons = Inr run_view"
    and "file_view \<in> set (rv_files run_view)"
  shows "sorted_wrt (<) (map fst (line_hits file_view))
    \<and> (\<exists>counts. metric_in (fv_metrics file_view) LinesMetric = Inr counts
        \<and> mw_eligible counts = length (line_hits file_view) \<and> mw_covered counts = length (filter snd (line_hits file_view)))"
proof -
  note view = built_view_whole[OF assms(1)]
  obtain path where path: "file_view = file_view_of view path"
    using assms(3) run_view_from(1)[OF assms(1,2)] by auto
  let ?ls = "lines_in view path"
  let ?missed = "set (map lr_line (filter (\<lambda>l. lr_measured l \<and> \<not> lr_covered l) ?ls))"
  note hits = hits_of[OF view, of path] and lines = file_lines[OF view, of path]
  have names: "map fst (line_hits file_view) = sort (map lr_line (filter lr_measured ?ls))"
    unfolding path hits by (simp add: comp_def)
  have "sorted_wrt (<) (map fst (line_hits file_view))"
    unfolding names strict_sorted_iff using lines by (simp add: distinct_map_filter)
  moreover have "metric_counts (file_summary view path) LinesMetric
      = (length (filter (\<lambda>l. lr_measured l \<and> lr_covered l) ?ls), length (filter lr_measured ?ls))"
    unfolding file_counts[OF view] by (simp add: length_filter_sum)
  moreover have "length (line_hits file_view) = length (filter lr_measured ?ls)" unfolding path hits by simp
  moreover have "length (filter snd (line_hits file_view)) = length (filter (\<lambda>l. lr_measured l \<and> lr_covered l) ?ls)"
  proof -
    have "length (filter snd (line_hits file_view)) = length (filter (\<lambda>line. line \<notin> ?missed) (sort (map lr_line (filter lr_measured ?ls))))"
      unfolding path hits by (simp add: filter_map comp_def)
    also have "\<dots> = length (filter (\<lambda>line. line \<notin> ?missed) (map lr_line (filter lr_measured ?ls)))"
      by (rule length_filter_mset) simp
    also have "\<dots> = length (filter (\<lambda>l. lr_measured l \<and> lr_covered l) ?ls)" by (rule covered_hits[OF lines])
    finally show ?thesis .
  qed
  ultimately show ?thesis by (simp add: path file_view_fields)
qed

subsection \<open>Floors\<close>

lemma split_once_cases:
  "case split_once sep s of None \<Rightarrow> sep \<notin> set s | Some (a, b) \<Rightarrow> s = a @ sep # b \<and> sep \<notin> set a"
  by (induction sep s rule: split_once.induct) (auto split: option.splits)

lemma split_once_append: "sep \<notin> set a \<Longrightarrow> split_once sep (a @ sep # b) = Some (a, b)"
  by (induction a) auto

lemma digits_value_zeros: "digits_value (s @ replicate n CHR ''0'') = digits_value s * 10 ^ n"
proof -
  have "foldl (\<lambda>acc c. acc * 10 + (code c - 48)) acc (replicate n CHR ''0'') = acc * 10 ^ n" for acc
    by (induction n arbitrary: acc) (simp_all add: code_def)
  then show ?thesis by (simp add: digits_value_def)
qed

definition percentage_parts :: "string \<Rightarrow> string \<Rightarrow> string \<Rightarrow> bool" where
  "percentage_parts text whole fraction \<longleftrightarrow>
     (text = whole @ ''.'' @ fraction \<or> (text = whole \<and> fraction = [])) \<and> (whole \<noteq> [] \<or> fraction \<noteq> [])
     \<and> list_all is_ascii_digit whole \<and> list_all is_ascii_digit fraction \<and> length fraction \<le> 4"

lemma no_dot: "list_all is_ascii_digit s \<Longrightarrow> CHR ''.'' \<notin> set s"
  by (auto simp: list_all_iff is_ascii_digit_def code_def)

lemma parts_split:
  assumes "percentage_parts text whole fraction"
  shows "(case split_once CHR ''.'' text of Some split \<Rightarrow> split | None \<Rightarrow> (text, [])) = (whole, fraction)"
proof -
  have "CHR ''.'' \<notin> set whole" using assms no_dot by (auto simp: percentage_parts_def)
  then show ?thesis
    using assms split_once_append[of "CHR ''.''" whole fraction] split_once_cases[of "CHR ''.''" whole]
    by (auto simp: percentage_parts_def split: option.splits)
qed

lemma parse_digits:
  "s \<noteq> [] \<Longrightarrow> list_all is_ascii_digit s \<Longrightarrow>
     parse_unsigned limit s = (if digits_value s \<le> limit then Some (digits_value s) else None)"
proof -
  assume s: "s \<noteq> []" "list_all is_ascii_digit s"
  then have "hd s \<noteq> CHR ''+''" by (cases s) (auto simp: is_ascii_digit_def code_def)
  then show ?thesis using s by (cases s) (auto simp: parse_unsigned_def Let_def)
qed

text \<open>C32: A floor is read from exactly the texts of a percentage: digits, at most four decimals, between 0
  and 100, and the parts per million are the number written, exactly; a number too long for 64 bits is
  refused, not wrapped.\<close>

theorem parse_percentage_exact:
  "parse_percentage debug given = Inr ppm \<longleftrightarrow>
     (\<exists>whole fraction. percentage_parts (trim given) whole fraction
        \<and> ppm = digits_value whole * 10000 + digits_value fraction * 10 ^ (4 - length fraction) \<and> ppm \<le> 1000000)"
proof -
  obtain whole fraction where split: "(case split_once CHR ''.'' (trim given) of Some split \<Rightarrow> split | None \<Rightarrow> (trim given, [])) = (whole, fraction)"
    by (cases "case split_once CHR ''.'' (trim given) of Some split \<Rightarrow> split | None \<Rightarrow> (trim given, [])") auto
  have around: "trim given = whole @ ''.'' @ fraction \<or> (trim given = whole \<and> fraction = [])"
    using split split_once_cases[of "CHR ''.''" "trim given"] by (auto split: option.splits)
  have only: "percentage_parts (trim given) w f \<Longrightarrow> w = whole \<and> f = fraction" for w f
    using parts_split[of "trim given" w f] split by simp
  have scaled: "(if fraction = [] then 0 else digits_value (fraction @ replicate (4 - length fraction) CHR ''0''))
      = digits_value fraction * 10 ^ (4 - length fraction)"
    by (simp only: digits_value_zeros) (simp add: digits_value_def)
  show ?thesis
  proof (cases "percentage_parts (trim given) whole fraction")
    case True
    then have digits: "\<not> (whole = [] \<and> fraction = [])" "list_all is_ascii_digit whole" "list_all is_ascii_digit fraction" "length fraction \<le> 4"
      by (auto simp: percentage_parts_def)
    have number: "(if whole = [] then Inr 0 else ok_or (parse_unsigned U64_MAX whole) e)
        = (if digits_value whole \<le> U64_MAX then Inr (digits_value whole) else Inl e)" for e :: string
      using digits(2) parse_digits[of whole U64_MAX] by (simp add: ok_or_def digits_value_def)
    have "parse_percentage debug given = Inr ppm \<longleftrightarrow>
        ppm = digits_value whole * 10000 + digits_value fraction * 10 ^ (4 - length fraction) \<and> ppm \<le> 1000000"
      unfolding parse_percentage_def Let_def split prod.case number scaled using digits by auto
    then show ?thesis using True only by blast
  next
    case False
    then have "\<nexists>w f. percentage_parts (trim given) w f" using only by blast
    moreover have "parse_percentage debug given \<noteq> Inr ppm"
      using False around unfolding parse_percentage_def Let_def split prod.case by (auto simp: percentage_parts_def)
    ultimately show ?thesis by blast
  qed
qed

end
