(* ===== verification/PatchView.thy ===== *)
theory PatchView
  imports RunViewExact
begin

section \<open>Are the changed lines tested? (patch\_view.rs)\<close>

text \<open>
  The lines a diff adds, the part of them a run measured, and the annotations of what no test reached.
  A diff is the text \<open>git diff --unified=0\<close> prints; the model of its format is at the end, for the
  reader to be judged against.
\<close>

subsection \<open>Reading a diff\<close>

text \<open>\<open>str::lines\<close>: a carriage return before a line feed goes with it.\<close>

abbreviation LF :: char where "LF \<equiv> CHR 0x0A"
abbreviation CR :: char where "CR \<equiv> CHR 0x0D"

definition without_cr :: "string \<Rightarrow> string" where
  "without_cr line = (case strip_suffix [CR] line of Some stripped \<Rightarrow> stripped | None \<Rightarrow> line)"

definition text_lines :: "string \<Rightarrow> string list" where
  "text_lines given =
     (let pieces = split_on LF given in
      map without_cr (butlast pieces) @ (if last pieces = [] then [] else [last pieces]))"

text \<open>\<open>str::split_whitespace\<close>.\<close>

function split_words :: "string \<Rightarrow> string \<Rightarrow> string list" where
  "split_words word [] = [word]"
| "split_words word (c # s) =
     (case strip_any white_space (c # s) of
        Some rest \<Rightarrow> word # split_words [] rest
      | None \<Rightarrow> split_words (word @ [c]) s)"
  by pat_completeness auto
termination
  by (relation "measure (\<lambda>(word, s). length s)") (auto dest: strip_any_shorter)

definition split_whitespace :: "string \<Rightarrow> string list" where
  "split_whitespace s = filter (\<lambda>word. word \<noteq> []) (split_words [] s)"

type_synonym changed_lines = "(string \<times> nat set) list"

text \<open>The lines a hunk header names on its \<open>+\<close> side.\<close>

definition hunk_range :: "string \<Rightarrow> (nat \<times> nat) option" where
  "hunk_range header =
     (case find (starts_with ''+'') (split_whitespace header) of
        None \<Rightarrow> None
      | Some side \<Rightarrow>
          let numbers = split_on CHR '','' (tl side) in
          case parse_unsigned U64_MAX (hd numbers) of
            None \<Rightarrow> None
          | Some start \<Rightarrow>
              let count_of = (case tl numbers of [] \<Rightarrow> 1
                    | n # _ \<Rightarrow> (case parse_unsigned U64_MAX n of Some n \<Rightarrow> n | None \<Rightarrow> 1))
              in if count_of = 0 then None else Some (start, count_of))"

definition header_path :: "string \<Rightarrow> string option" where
  "header_path rest =
     (let path = (case strip_prefix ''b/'' rest of Some path \<Rightarrow> path | None \<Rightarrow> rest) in
      if path = ''/dev/null'' then None else Some (trim_end path))"

definition diff_line :: "string \<Rightarrow> string option \<times> changed_lines \<Rightarrow> string option \<times> changed_lines" where
  "diff_line line = (\<lambda>(path, changed).
     case strip_prefix ''+++ '' line of
       Some rest \<Rightarrow> (header_path rest, changed)
     | None \<Rightarrow> (case strip_prefix ''@@ '' line of
         None \<Rightarrow> (path, changed)
       | Some header \<Rightarrow> (case path of
           None \<Rightarrow> (path, changed)
         | Some file_path \<Rightarrow> (case hunk_range header of
             None \<Rightarrow> (path, changed)
           | Some (start, count_of) \<Rightarrow>
               (path, tree_entry file_path {} (\<lambda>lines. lines \<union> {start..<(start + count_of) mod 2 ^ 64}) changed)))))"

definition changed_lines :: "string \<Rightarrow> changed_lines" where
  "changed_lines diff = snd (fold diff_line (text_lines diff) (None, []))"

subsection \<open>The patch and the run\<close>

record patch_file =
  pf_file :: string
  pf_executable :: "nat list"
  pf_uncovered :: "nat list"
  pf_missing_from_run :: bool

record patch_view =
  pv_schema_version :: nat
  pv_run :: string
  pv_covered :: nat
  pv_eligible :: nat
  pv_files :: "patch_file list"
  pv_missing_from_run :: "string list"

definition patch_is_empty :: "patch_view \<Rightarrow> bool" where
  "patch_is_empty patch \<longleftrightarrow> pv_eligible patch = 0"

definition patch_meets :: "patch_view \<Rightarrow> nat \<Rightarrow> bool" where
  "patch_meets patch floor_ppm \<longleftrightarrow> floor_ppm * pv_eligible patch \<le> pv_covered patch * 1000000"

text \<open>By file what no test reached; looking up the eligible lines is what may panic.\<close>

definition measured_files :: "run_view \<Rightarrow> run_view_panic + (string \<times> nat set) list" where
  "measured_files view =
     try_map (\<lambda>file_view. rbind (metric_in (fv_metrics file_view) LinesMetric)
       (\<lambda>_. Inr (fv_file file_view, set (fv_uncovered_lines file_view)))) (rv_files view)"

record patch_state =
  ps_files :: "patch_file list"
  ps_missing :: "string list"
  ps_covered :: nat
  ps_eligible :: nat

definition patch_step :: "run_view \<Rightarrow> (string \<times> nat set) list \<Rightarrow> string \<times> nat set \<Rightarrow> patch_state \<Rightarrow> patch_state" where
  "patch_step view measured = (\<lambda>(path, lines) st.
     case btree_map measured path of
       None \<Rightarrow>
         if looks_like_source view path
         then st\<lparr>ps_missing := ps_missing st @ [path],
             ps_files := ps_files st @ [\<lparr>pf_file = path, pf_executable = [], pf_uncovered = [], pf_missing_from_run = True\<rparr>]\<rparr>
         else st
     | Some uncovered_lines \<Rightarrow>
         let executable = filter (measured_line view path) (sorted_list_of_set lines);
             uncovered = filter (\<lambda>line. line \<in> uncovered_lines) executable
         in st\<lparr>ps_covered := ps_covered st + (length executable - length uncovered),
             ps_eligible := ps_eligible st + length executable,
             ps_files := ps_files st @ (if executable = [] then []
               else [\<lparr>pf_file = path, pf_executable = executable, pf_uncovered = uncovered, pf_missing_from_run = False\<rparr>])\<rparr>)"

definition patch_of :: "run_view \<Rightarrow> changed_lines \<Rightarrow> run_view_panic + patch_view" where
  "patch_of view changed =
     rbind (measured_files view) (\<lambda>measured.
       let st = fold (patch_step view measured) changed
             \<lparr>ps_files = [], ps_missing = [], ps_covered = 0, ps_eligible = 0\<rparr>
       in Inr \<lparr>pv_schema_version = RUN_VIEW_SCHEMA_VERSION, pv_run = rv_run view, pv_covered = ps_covered st,
            pv_eligible = ps_eligible st, pv_files = ps_files st, pv_missing_from_run = ps_missing st\<rparr>)"

subsection \<open>Ranges and annotations\<close>

definition extend_range :: "nat \<Rightarrow> (nat \<times> nat) list \<Rightarrow> (nat \<times> nat) list" where
  "extend_range line out =
     (if out \<noteq> [] \<and> snd (last out) + 1 = line then butlast out @ [(fst (last out), line)] else out @ [(line, line)])"

definition ranges :: "nat list \<Rightarrow> (nat \<times> nat) list" where
  "ranges lines = fold extend_range lines []"

definition replace_char :: "char \<Rightarrow> string \<Rightarrow> string \<Rightarrow> string" where
  "replace_char c text = (\<lambda>s. concat (map (\<lambda>d. if d = c then text else [d]) s))"

definition escape_message :: "string \<Rightarrow> string" where
  "escape_message text = replace_char LF ''%0A'' (replace_char CR ''%0D'' (replace_char CHR ''%'' ''%25'' text))"

definition escape_property :: "string \<Rightarrow> string" where
  "escape_property text = replace_char CHR '','' ''%2C'' (replace_char CHR '':'' ''%3A'' (replace_char LF ''%0A''
     (replace_char CR ''%0D'' (replace_char CHR ''%'' ''%25'' text))))"

definition annotation :: "string \<Rightarrow> patch_file \<Rightarrow> nat \<times> nat \<Rightarrow> string" where
  "annotation prefix patch_file = (\<lambda>(start, last_line).
     let lines = (if start = last_line then ''line '' @ decimal start
           else ''lines '' @ decimal start @ '' to '' @ decimal last_line)
     in ''::warning file='' @ escape_property (prefix @ pf_file patch_file) @ '',line='' @ decimal start
        @ '',endLine='' @ decimal last_line @ ''::''
        @ escape_message (''Changed '' @ lines @ '' not covered by the selected tests.''))"

text \<open>The loops return as soon as there are \<open>cap\<close> annotations.\<close>

definition annotations :: "patch_view \<Rightarrow> nat \<Rightarrow> string \<Rightarrow> string list" where
  "annotations patch cap prefix =
     take cap (concat (map (\<lambda>patch_file. map (annotation prefix patch_file) (ranges (pf_uncovered patch_file))) (pv_files patch)))"

end
