(* ===== verification/PatchFacts.thy ===== *)
theory PatchFacts
  imports PatchView
begin

section \<open>What the patch view answers\<close>

subsection \<open>Eligible and covered lines\<close>

definition line_at :: "(line_result \<Rightarrow> bool) \<Rightarrow> 'v coverage_view \<Rightarrow> string \<Rightarrow> nat \<Rightarrow> bool" where
  "line_at P view path line \<longleftrightarrow> list_ex (\<lambda>l. lr_file l = path \<and> lr_line l = line \<and> P l) (cv_lines view)"

lemma line_at_in: "line_at P view path line \<longleftrightarrow> line \<in> lr_line ` {l \<in> set (lines_in view path). P l}"
  by (auto simp: line_at_def lines_in_def list_ex_iff)

lemma file_of_run:
  assumes "create_coverage_view_with_model j manifest raws g model = Inr view"
    and "run_view_of print run generated_at view passed stale reasons = Inr run_view"
  shows "file_of run_view path = (if path \<in> files_named view then Some (file_view_of view path) else None)"
proof -
  have "find (\<lambda>file_view. fv_file file_view = path) (map (file_view_of view) paths)
      = (if path \<in> set paths then Some (file_view_of view path) else None)" for paths
    by (induction paths) (auto simp: file_view_fields)
  then show ?thesis unfolding file_of_def run_view_from(1)[OF assms] by simp
qed

lemma measured_line_iff:
  assumes "create_coverage_view_with_model j manifest raws g model = Inr view"
    and "run_view_of print run generated_at view passed stale reasons = Inr run_view"
  shows "measured_line run_view path line \<longleftrightarrow> line_at lr_measured view path line"
proof -
  have "path \<in> files_named view" if "line_at lr_measured view path line"
    using that by (auto simp: line_at_def list_ex_iff files_named_def)
  moreover have "binary_search (fv_measured_lines (file_view_of view path)) line \<longleftrightarrow> line_at lr_measured view path line"
    unfolding file_view_fields line_at_in by (subst binary_search_iff) (auto simp: sorted_remdups_adj)
  ultimately show ?thesis by (auto simp: measured_line_def file_of_run[OF assms])
qed

lemma uncovered_set:
  "set (fv_uncovered_lines (file_view_of view path)) = {line. line_at (\<lambda>l. lr_measured l \<and> \<not> lr_covered l) view path line}"
  unfolding file_view_fields line_at_in by auto

lemma covered_line_iff:
  assumes "view_whole view"
  shows "line_at lr_measured view path line \<and> \<not> line_at (\<lambda>l. lr_measured l \<and> \<not> lr_covered l) view path line
    \<longleftrightarrow> line_at (\<lambda>l. lr_measured l \<and> lr_covered l) view path line"
proof -
  have same: "l = l'" if "l \<in> set (lines_in view path)" "l' \<in> set (lines_in view path)" "lr_line l = lr_line l'" for l l'
    using file_lines[OF assms, of path] that by (auto simp: distinct_map inj_on_def)
  show ?thesis unfolding line_at_in using same by blast
qed

lemma measured_files_of_run:
  assumes "create_coverage_view_with_model j manifest raws g model = Inr view"
    and "run_view_of print run generated_at view passed stale reasons = Inr run_view"
  shows "\<exists>measured. measured_files run_view = Inr measured
    \<and> (\<forall>path. btree_map measured path = (if path \<in> files_named view
         then Some {line. line_at (\<lambda>l. lr_measured l \<and> \<not> lr_covered l) view path line} else None))"
proof -
  let ?paths = "sorted_list_of_set (files_named view)"
  let ?entry = "\<lambda>path. (path, {line. line_at (\<lambda>l. lr_measured l \<and> \<not> lr_covered l) view path line})"
  have "measured_files run_view = Inr (map ?entry ?paths)"
    unfolding measured_files_def run_view_from(1)[OF assms]
    by (simp add: try_map_Inr_iff list_all2_map1 list_all2_map2 list_all2_same file_view_fields(1,2) uncovered_set)
  moreover have "btree_map (map ?entry ?paths) path = (if path \<in> files_named view then Some (snd (?entry path)) else None)" for path
  proof (cases "path \<in> files_named view")
    case True
    have "distinct (map fst (map ?entry ?paths))" by (simp add: comp_def)
    then have "btree_map (map ?entry ?paths) path = Some (snd (?entry path))"
      using True by (subst btree_map_distinct) auto
    then show ?thesis using True by simp
  next
    case False
    then have "path \<notin> fst ` set (map ?entry ?paths)" by auto
    then have "btree_map (map ?entry ?paths) path = None" unfolding dom_btree_map[symmetric] by (simp only: domIff not_not)
    then show ?thesis using False by simp
  qed
  ultimately show ?thesis by auto
qed

definition patch_part :: "'v coverage_view \<Rightarrow> (line_result \<Rightarrow> bool) \<Rightarrow> string \<times> nat set \<Rightarrow> nat" where
  "patch_part view P = (\<lambda>(path, lines). card {line \<in> lines. line_at P view path line})"

lemma length_filter_card: "finite S \<Longrightarrow> length (filter P (sorted_list_of_set S)) = card {x \<in> S. P x}"
proof -
  assume S: "finite S"
  have "distinct (filter P (sorted_list_of_set S))" by simp
  then have "length (filter P (sorted_list_of_set S)) = card (set (filter P (sorted_list_of_set S)))"
    by (simp only: distinct_card)
  then show ?thesis using S by simp
qed

definition missing_in :: "'v coverage_view \<Rightarrow> run_view \<Rightarrow> changed_lines \<Rightarrow> string list" where
  "missing_in view run_view changed =
     map fst (filter (\<lambda>(path, _). path \<notin> files_named view \<and> looks_like_source run_view path) changed)"

lemma patch_fold:
  assumes "create_coverage_view_with_model j manifest raws g model = Inr view"
    and "run_view_of print run generated_at view passed stale reasons = Inr run_view"
    and measured: "\<forall>path. btree_map measured path = (if path \<in> files_named view
         then Some {line. line_at (\<lambda>l. lr_measured l \<and> \<not> lr_covered l) view path line} else None)"
    and "\<forall>(path, lines) \<in> set changed. finite lines"
  shows "ps_eligible (fold (patch_step run_view measured) changed st) = ps_eligible st + sum_list (map (patch_part view lr_measured) changed)
    \<and> ps_covered (fold (patch_step run_view measured) changed st)
      = ps_covered st + sum_list (map (patch_part view (\<lambda>l. lr_measured l \<and> lr_covered l)) changed)
    \<and> ps_missing (fold (patch_step run_view measured) changed st) = ps_missing st @ missing_in view run_view changed"
  using assms(4)
proof (induction changed arbitrary: st)
  case (Cons entry changed)
  obtain path lines where entry: "entry = (path, lines)" and finite: "finite lines" using Cons.prems by (cases entry) auto
  let ?step = "patch_step run_view measured entry st"
  have "ps_eligible ?step = ps_eligible st + patch_part view lr_measured entry
    \<and> ps_covered ?step = ps_covered st + patch_part view (\<lambda>l. lr_measured l \<and> lr_covered l) entry
    \<and> ps_missing ?step = ps_missing st @ missing_in view run_view [entry]"
  proof (cases "path \<in> files_named view")
    case True
    let ?executable = "filter (measured_line run_view path) (sorted_list_of_set lines)"
    let ?U = "{line. line_at (\<lambda>l. lr_measured l \<and> \<not> lr_covered l) view path line}"
    have "length ?executable = patch_part view lr_measured entry"
      using finite by (simp add: entry patch_part_def length_filter_card measured_line_iff[OF assms(1,2)])
    moreover have "length ?executable - length (filter (\<lambda>line. line \<in> ?U) ?executable)
        = patch_part view (\<lambda>l. lr_measured l \<and> lr_covered l) entry"
    proof -
      have "length ?executable - length (filter (\<lambda>line. line \<in> ?U) ?executable) = length (filter (\<lambda>line. line \<notin> ?U) ?executable)"
        using sum_length_filter_compl[of "\<lambda>line. line \<in> ?U" ?executable] by linarith
      also have "\<dots> = patch_part view (\<lambda>l. lr_measured l \<and> lr_covered l) entry"
        using finite covered_line_iff[OF built_view_whole[OF assms(1)], of path]
        by (simp add: entry patch_part_def length_filter_card measured_line_iff[OF assms(1,2)] filter_filter conj_commute)
      finally show ?thesis .
    qed
    moreover have "ps_eligible ?step = ps_eligible st + length ?executable \<and> ps_missing ?step = ps_missing st
        \<and> ps_covered ?step = ps_covered st + (length ?executable - length (filter (\<lambda>line. line \<in> ?U) ?executable))"
      unfolding entry patch_step_def prod.case measured[rule_format, of path] if_P[OF True] option.case Let_def by simp
    ultimately show ?thesis using True by (simp add: entry missing_in_def del: filter_filter)
  next
    case False
    then have "\<not> line_at P view path line" for P line by (auto simp: line_at_def list_ex_iff files_named_def)
    then show ?thesis using False measured by (simp add: entry patch_step_def missing_in_def patch_part_def)
  qed
  then show ?case using Cons by (simp add: missing_in_def)
qed (simp add: missing_in_def)

text \<open>C11: The patch check's denominator is the changed lines the run measured and its numerator those some
  test reached; a changed file the run has nothing of is named as missing exactly when it looks like the
  run's source.\<close>

theorem patch_exact:
  assumes "create_coverage_view_with_model j manifest raws g model = Inr view"
    and "run_view_of print run generated_at view passed stale reasons = Inr run_view"
    and "list_all (\<lambda>(path, lines). finite lines) changed"
  shows "\<exists>patch. patch_of run_view changed = Inr patch
    \<and> pv_eligible patch = sum_list (map (patch_part view lr_measured) changed)
    \<and> pv_covered patch = sum_list (map (patch_part view (\<lambda>l. lr_measured l \<and> lr_covered l)) changed)
    \<and> pv_missing_from_run patch = missing_in view run_view changed"
proof -
  obtain measured where measured: "measured_files run_view = Inr measured"
    "\<forall>path. btree_map measured path = (if path \<in> files_named view
         then Some {line. line_at (\<lambda>l. lr_measured l \<and> \<not> lr_covered l) view path line} else None)"
    using measured_files_of_run[OF assms(1,2)] by blast
  then show ?thesis
    using patch_fold[OF assms(1,2) measured(2)] assms(3) by (simp add: patch_of_def Let_def list_all_iff)
qed

subsection \<open>Ranges\<close>

lemma ranges_snoc: "ranges (lines @ [line]) = extend_range line (ranges lines)"
  by (simp add: ranges_def)

definition range_lines :: "nat \<times> nat \<Rightarrow> nat list" where
  "range_lines = (\<lambda>(start, last_line). [start..<last_line + 1])"

text \<open>The ranges annotated are the uncovered lines, each once and in order, in runs that could not be
  longer: no range starts where the one before it ends.\<close>

theorem ranges_exact:
  "concat (map range_lines (ranges lines)) = lines
   \<and> successively (\<lambda>before after. fst after \<noteq> snd before + 1) (ranges lines)
   \<and> list_all (\<lambda>(start, last_line). start \<le> last_line) (ranges lines)"
proof (induction lines rule: rev_induct)
  case (snoc line lines)
  show ?case
  proof (cases "ranges lines \<noteq> [] \<and> snd (last (ranges lines)) + 1 = line")
    case True
    then obtain rs start stop where rs: "ranges lines = rs @ [(start, stop)]" "stop + 1 = line"
      by (cases "ranges lines" rule: rev_cases) auto
    then show ?thesis
      using snoc by (auto simp: ranges_snoc extend_range_def range_lines_def successively_append_iff)
  next
    case False
    then show ?thesis
      using snoc by (auto simp: ranges_snoc extend_range_def range_lines_def successively_append_iff)
  qed
qed (simp add: ranges_def)

subsection \<open>Annotations\<close>

fun unescape :: "string \<Rightarrow> string" where
  "unescape [] = []"
| "unescape (c # s) =
     (if c \<noteq> CHR ''%'' then c # unescape s
      else (case s of a # b # rest \<Rightarrow>
          (if [a, b] = ''25'' then CHR ''%'' else if [a, b] = ''0D'' then CR else if [a, b] = ''0A'' then LF
           else if [a, b] = ''3A'' then CHR '':'' else CHR '','') # unescape rest
        | _ \<Rightarrow> []))"

definition escaped_char :: "char \<Rightarrow> string" where
  "escaped_char c = (if c = CHR ''%'' then ''%25'' else if c = CR then ''%0D'' else if c = LF then ''%0A''
     else if c = CHR '':'' then ''%3A'' else if c = CHR '','' then ''%2C'' else [c])"

lemma replace_concat: "replace_char c t (concat (map f s)) = concat (map (\<lambda>d. replace_char c t (f d)) s)"
  by (induction s) (simp_all add: replace_char_def)

lemma replace_map: "replace_char c t s = concat (map (\<lambda>d. replace_char c t [d]) s)"
  by (induction s) (simp_all add: replace_char_def)

lemma escape_by_char: "escape_property s = concat (map escaped_char s)"
  unfolding escape_property_def replace_map[of "CHR ''%''" _ s] replace_concat
  by (intro arg_cong[where f = concat] map_cong refl) (simp add: replace_char_def escaped_char_def)

text \<open>A path escaped as a property has nothing left that ends a property or a command, whatever it
  holds, and reads back as the path.\<close>

theorem escape_property_roundtrip:
  "unescape (escape_property path) = path
   \<and> set (escape_property path) \<inter> {LF, CR, CHR '':'', CHR '',''} = {}"
proof -
  have "unescape (escaped_char c @ s) = c # unescape s" for c s
    by (simp add: escaped_char_def)
  then have "unescape (concat (map escaped_char path)) = path" by (induction path) simp_all
  moreover have "set (escaped_char c) \<inter> {LF, CR, CHR '':'', CHR '',''} = {}" for c
    by (auto simp: escaped_char_def)
  ultimately show ?thesis unfolding escape_by_char by auto
qed

end
