(* ===== verification/PatchExact.thy ===== *)
theory PatchExact
  imports PatchView
begin

section \<open>What the changed-line check reads and answers\<close>

subsection \<open>The diff \<open>git\<close> prints\<close>

text \<open>
  A hunk is its old side, the first of the lines it adds and their number, the text git gives after the
  header, and its body; a file's part is its extended header lines, its new name, or none where it was
  deleted, and its hunks.
\<close>

record hunk =
  hk_old :: string
  hk_start :: nat
  hk_count :: nat
  hk_section :: string
  hk_body :: "string list"

record file_diff =
  fd_headers :: "string list"
  fd_path :: "string option"
  fd_hunks :: "hunk list"

definition hunk_side :: "hunk \<Rightarrow> string" where
  "hunk_side hunk = ''+'' @ decimal (hk_start hunk) @ (if hk_count hunk = 1 then [] else '','' @ decimal (hk_count hunk))"

definition hunk_header :: "hunk \<Rightarrow> string" where
  "hunk_header hunk = hk_old hunk @ '' '' @ hunk_side hunk @ '' @@'' @ hk_section hunk"

definition hunk_text :: "hunk \<Rightarrow> string list" where
  "hunk_text hunk = (''@@ '' @ hunk_header hunk) # hk_body hunk"

text \<open>
  The line with a file's new name. Git ends a name with a space in it with a tabulator, and would print one
  with a quotation mark, a backslash or a control character in quotes; with \<open>core.quotePath=false\<close>, as
  the command line asks, it prints every other name as it is.
\<close>

abbreviation TAB :: char where "TAB \<equiv> CHR 0x09"

definition path_text :: "string option \<Rightarrow> string" where
  "path_text path = ''+++ '' @ (case path of Some path \<Rightarrow> ''b/'' @ path @ (if CHR '' '' \<in> set path then [TAB] else [])
     | None \<Rightarrow> ''/dev/null'')"

definition file_diff_text :: "file_diff \<Rightarrow> string list" where
  "file_diff_text f = fd_headers f @ [path_text (fd_path f)] @ concat (map hunk_text (fd_hunks f))"

definition diff_text :: "file_diff list \<Rightarrow> string" where
  "diff_text files = concat (map (\<lambda>line. line @ [LF]) (concat (map file_diff_text files)))"

text \<open>Lines that are read as no header.\<close>

definition body_line :: "string \<Rightarrow> bool" where
  "body_line line \<longleftrightarrow> LF \<notin> set line \<and> \<not> starts_with ''+++ '' line \<and> \<not> starts_with ''@@ '' line"

definition plain_word :: "string \<Rightarrow> bool" where
  "plain_word word \<longleftrightarrow> word \<noteq> [] \<and> list_all (\<lambda>c. 32 < code c \<and> code c < 127) word"

definition hunk_ok :: "hunk \<Rightarrow> bool" where
  "hunk_ok hunk \<longleftrightarrow> plain_word (hk_old hunk) \<and> hd (hk_old hunk) \<noteq> CHR ''+''
     \<and> hk_start hunk + hk_count hunk < 2 ^ 64 \<and> LF \<notin> set (hk_section hunk)"

definition path_ok :: "string \<Rightarrow> bool" where
  "path_ok path \<longleftrightarrow> LF \<notin> set path \<and> trim_end path = path \<and> without_cr path = path \<and> path \<noteq> ''/dev/null''"

definition unquoted :: "string \<Rightarrow> bool" where
  "unquoted path \<longleftrightarrow> list_all (\<lambda>c. 32 \<le> code c \<and> code c \<noteq> 127 \<and> c \<noteq> CHR 0x22 \<and> c \<noteq> CHR 0x5C) path"

definition file_diff_ok :: "file_diff \<Rightarrow> bool" where
  "file_diff_ok f \<longleftrightarrow> list_all body_line (fd_headers f) \<and> (case fd_path f of Some path \<Rightarrow> path_ok path \<and> unquoted path | None \<Rightarrow> True)
     \<and> list_all (\<lambda>hunk. hunk_ok hunk \<and> list_all body_line (hk_body hunk)) (fd_hunks f)"

subsection \<open>Lines and words\<close>

lemma split_on_terminated:
  "\<forall>line \<in> set lines. c \<notin> set line \<Longrightarrow> split_on c (concat (map (\<lambda>line. line @ [c]) lines)) = lines @ [[]]"
  by (induction lines) (simp_all add: split_on_append_sep split_on_trivial)

lemma text_lines_terminated:
  "\<forall>line \<in> set lines. LF \<notin> set line \<Longrightarrow> text_lines (concat (map (\<lambda>line. line @ [LF]) lines)) = map without_cr lines"
  by (simp add: text_lines_def split_on_terminated)

lemma without_cr_cases: "without_cr line = line \<or> line = without_cr line @ [CR]"
proof (cases "strip_suffix [CR] line")
  case (Some stripped)
  then have "starts_with [CR] (rev line)" by (auto simp: strip_suffix_def starts_with_def)
  then obtain t where "rev line = CR # t" by (auto simp: starts_with_iff)
  then have "line = rev t @ [CR]" by (metis rev.simps(2) rev_rev_ident)
  then show ?thesis using Some by (simp add: without_cr_def strip_suffix_def)
qed (simp add: without_cr_def)

lemma without_cr_append: "s \<noteq> [] \<Longrightarrow> without_cr (p @ s) = p @ without_cr s"
proof -
  assume "s \<noteq> []"
  then obtain t c where s: "s = t @ [c]" by (metis rev_exhaust)
  have last: "without_cr (q @ [c]) = (if c = CR then q else q @ [c])" for q
    by (simp add: without_cr_def strip_suffix_def)
  show ?thesis using last[of t] last[of "p @ t"] unfolding s by simp
qed

lemma body_without_cr: "body_line line \<Longrightarrow> body_line (without_cr line)"
proof -
  assume line: "body_line line"
  define kept where "kept = without_cr line"
  obtain s where "line = kept @ s" using without_cr_cases[of line] unfolding kept_def[symmetric] by force
  then have "body_line kept" using line by (auto simp: body_line_def starts_with_iff)
  then show ?thesis by (simp only: kept_def)
qed

lemma no_space_at: "32 < code c \<Longrightarrow> code c < 127 \<Longrightarrow> strip_any white_space (c # s) = None"
proof -
  assume c: "32 < code c" "code c < 127"
  have "p = [] \<or> \<not> starts_with p (c # s)" if "p \<in> set white_space" for p
    using white_space_first that c by (cases p) (fastforce simp: list_all_iff starts_with_iff)+
  then show ?thesis by (simp add: strip_any_None)
qed

lemma white_space_ends:
  "list_all (\<lambda>p. case p of [] \<Rightarrow> True | c # _ \<Rightarrow> code c \<le> 13 \<or> code c = 32 \<or> 128 \<le> code c) (map rev white_space)"
  by (simp add: white_space_def bytes_text_def code_def)

lemma trim_end_stays: "32 < code c \<Longrightarrow> code c < 127 \<Longrightarrow> trim_end (s @ [c]) = s @ [c]"
proof -
  assume c: "32 < code c" "code c < 127"
  have "p = [] \<or> \<not> starts_with p (c # rev s)" if "p \<in> set (map rev white_space)" for p
    using bspec[OF white_space_ends[unfolded list_all_iff] that] c by (cases p) (auto simp: starts_with_iff)
  then have "strip_any (map rev white_space) (c # rev s) = None" by (simp add: strip_any_None)
  then show ?thesis by (simp add: trim_end_def trim_with.simps)
qed

lemma trim_end_tab: "trim_end (s @ [TAB]) = trim_end s"
proof -
  have "char_of (9 :: nat) = TAB" by code_simp
  then obtain ps where ps: "map rev white_space = [TAB] # ps" unfolding white_space_def bytes_text_def by simp
  have "strip_any (map rev white_space) (TAB # rev s) = Some (rev s)" by (simp add: ps)
  then show ?thesis by (simp add: trim_end_def trim_with.simps[of _ "TAB # rev s"])
qed

lemma space_at: "strip_any white_space (CHR '' '' # s) = Some s"
proof -
  have "strip_any ps (CHR '' '' # s) = Some s" if "'' '' \<in> set ps" "list_all (\<lambda>p. p = '' '' \<or> (p \<noteq> [] \<and> hd p \<noteq> CHR '' '')) ps" for ps
    using that
  proof (induction ps)
    case (Cons p ps)
    then show ?case
    proof (cases "p = '' ''")
      case False
      then have "strip_prefix p (CHR '' '' # s) = None" using Cons.prems(2) by (cases p) auto
      then show ?thesis using Cons False by auto
    qed simp
  qed simp
  then show ?thesis using space_in space_only by blast
qed

lemma split_words_plain:
  "list_all (\<lambda>c. 32 < code c \<and> code c < 127) word \<Longrightarrow> split_words acc (word @ CHR '' '' # s) = (acc @ word) # split_words [] s"
  by (induction word arbitrary: acc) (simp_all add: no_space_at space_at)

lemma plain_decimal: "list_all (\<lambda>c. 32 < code c \<and> code c < 127) (decimal n)"
  using decimal_digits by (fastforce simp: list_all_iff is_ascii_digit_def)

lemma plain_side: "plain_word (hunk_side hunk)"
  using plain_decimal by (auto simp: plain_word_def hunk_side_def code_def)

lemma no_comma: "CHR '','' \<notin> set (decimal n)"
  using decimal_digits[of "CHR '',''" n] by (auto simp: is_ascii_digit_def code_def)

lemma header_range:
  assumes "hunk_ok hunk"
  shows "hunk_range (hk_old hunk @ '' '' @ hunk_side hunk @ '' @@'' @ rest)
    = (if hk_count hunk = 0 then None else Some (hk_start hunk, hk_count hunk))"
proof -
  have old: "plain_word (hk_old hunk)" "\<not> starts_with ''+'' (hk_old hunk)" and fits: "hk_start hunk + hk_count hunk < 2 ^ 64"
    using assms by (auto simp: hunk_ok_def starts_with_iff)
  have "split_whitespace (hk_old hunk @ '' '' @ hunk_side hunk @ '' @@'' @ rest)
      = hk_old hunk # hunk_side hunk # filter (\<lambda>w. w \<noteq> []) (split_words [] (''@@'' @ rest))"
    using old(1) plain_side[of hunk] split_words_plain[of "hk_old hunk" "[]"] split_words_plain[of "hunk_side hunk" "[]"]
    by (simp add: split_whitespace_def plain_word_def)
  moreover have "starts_with ''+'' (hunk_side hunk)" by (simp add: hunk_side_def starts_with_iff)
  ultimately have "find (starts_with ''+'') (split_whitespace (hk_old hunk @ '' '' @ hunk_side hunk @ '' @@'' @ rest)) = Some (hunk_side hunk)"
    using old(2) by simp
  moreover have "split_on CHR '','' (tl (hunk_side hunk))
      = (if hk_count hunk = 1 then [decimal (hk_start hunk)] else [decimal (hk_start hunk), decimal (hk_count hunk)])"
    using no_comma by (simp add: hunk_side_def split_on_trivial split_on_append_sep)
  ultimately show ?thesis using fits by (auto simp: hunk_range_def Let_def parse_unsigned_decimal)
qed

subsection \<open>The lines of a file's part\<close>

definition note_hunk :: "string \<Rightarrow> hunk \<Rightarrow> changed_lines \<Rightarrow> changed_lines" where
  "note_hunk path hunk changed = (if hk_count hunk = 0 then changed
     else tree_entry path {} (\<lambda>lines. lines \<union> {hk_start hunk..<hk_start hunk + hk_count hunk}) changed)"

definition note_hunks :: "string option \<Rightarrow> hunk list \<Rightarrow> changed_lines \<Rightarrow> changed_lines" where
  "note_hunks path hunks changed = (case path of None \<Rightarrow> changed | Some path \<Rightarrow> fold (note_hunk path) hunks changed)"

lemma body_line_step: "body_line line \<Longrightarrow> diff_line (without_cr line) st = st"
  using body_without_cr[of line] by (cases st) (auto simp: diff_line_def body_line_def starts_with_def)

lemma body_lines_step: "list_all body_line lines \<Longrightarrow> fold diff_line (map without_cr lines) st = st"
  by (induction lines) (simp_all add: body_line_step)

lemma header_step:
  assumes "hunk_ok hunk"
  shows "diff_line (without_cr (''@@ '' @ hunk_header hunk)) (path, changed) = (path, note_hunks path [hunk] changed)"
proof -
  have at: "without_cr (''@@ '' @ hunk_header hunk)
      = ''@@ '' @ hk_old hunk @ '' '' @ hunk_side hunk @ '' @@'' @ (if hk_section hunk = [] then [] else without_cr (hk_section hunk))"
  proof (cases "hk_section hunk = []")
    case True
    then show ?thesis
      using without_cr_append[of "'' @@''" "''@@ '' @ hk_old hunk @ '' '' @ hunk_side hunk"]
      by (simp add: hunk_header_def without_cr_def strip_suffix_def)
  next
    case False
    then show ?thesis
      using without_cr_append[of "hk_section hunk" "''@@ '' @ hk_old hunk @ '' '' @ hunk_side hunk @ '' @@''"]
      by (simp add: hunk_header_def)
  qed
  have "hk_start hunk + hk_count hunk < 2 ^ 64" using assms by (simp add: hunk_ok_def)
  then show ?thesis unfolding at
    using header_range[OF assms]
    by (cases path) (simp_all add: diff_line_def note_hunks_def note_hunk_def strip_prefix_Some)
qed

lemma hunks_step:
  "list_all (\<lambda>hunk. hunk_ok hunk \<and> list_all body_line (hk_body hunk)) hunks \<Longrightarrow>
     fold diff_line (map without_cr (concat (map hunk_text hunks))) (path, changed) = (path, note_hunks path hunks changed)"
proof (induction hunks arbitrary: changed)
  case (Cons hunk hunks)
  have "fold diff_line (map without_cr (concat (map hunk_text (hunk # hunks)))) (path, changed)
      = fold diff_line (map without_cr (concat (map hunk_text hunks)))
          (fold diff_line (map without_cr (hk_body hunk)) (diff_line (without_cr (''@@ '' @ hunk_header hunk)) (path, changed)))"
    by (simp add: hunk_text_def del: append_Cons)
  also have "\<dots> = (path, note_hunks path hunks (note_hunks path [hunk] changed))"
    using Cons.prems Cons.IH[of "note_hunks path [hunk] changed"] by (simp only: header_step body_lines_step list.pred_inject)
  finally show ?case by (cases path) (simp_all add: note_hunks_def)
qed (simp add: note_hunks_def split: option.split)

lemma path_step:
  assumes "case path of Some path \<Rightarrow> path_ok path | None \<Rightarrow> True"
  shows "diff_line (without_cr (path_text path)) (q, changed) = (path, changed)"
proof (cases path)
  case None
  have "without_cr ''+++ /dev/null'' = ''+++ /dev/null''" by (simp add: without_cr_def strip_suffix_def)
  then show ?thesis using None by (simp add: path_text_def diff_line_def header_path_def)
next
  case (Some p)
  then have p: "trim_end p = p" "without_cr p = p" "p \<noteq> ''/dev/null''" using assms by (simp_all add: path_ok_def)
  let ?rest = "p @ (if CHR '' '' \<in> set p then [TAB] else [])"
  have "without_cr (''+++ b/'' @ ?rest) = ''+++ b/'' @ ?rest"
  proof (cases "p = []")
    case False
    have "without_cr [TAB] = [TAB]" by (simp add: without_cr_def strip_suffix_def)
    then have "without_cr ?rest = ?rest" using p(2) without_cr_append[of "[TAB]" p] by (cases "CHR '' '' \<in> set p") simp_all
    then show ?thesis using without_cr_append[of ?rest "''+++ b/''"] False by simp
  qed (simp add: without_cr_def strip_suffix_def)
  moreover have "?rest \<noteq> ''/dev/null''" using p(3) by auto
  moreover have "trim_end ?rest = p" using p(1) by (simp add: trim_end_tab)
  ultimately show ?thesis by (simp add: Some path_text_def diff_line_def header_path_def)
qed

definition note_file :: "file_diff \<Rightarrow> changed_lines \<Rightarrow> changed_lines" where
  "note_file f = note_hunks (fd_path f) (fd_hunks f)"

lemma files_step:
  "list_all file_diff_ok files \<Longrightarrow>
     snd (fold diff_line (map without_cr (concat (map file_diff_text files))) (path, changed)) = fold note_file files changed"
proof (induction files arbitrary: path changed)
  case (Cons f files)
  have f: "list_all body_line (fd_headers f)" "case fd_path f of Some path \<Rightarrow> path_ok path | None \<Rightarrow> True"
    "list_all (\<lambda>hunk. hunk_ok hunk \<and> list_all body_line (hk_body hunk)) (fd_hunks f)"
    using Cons.prems by (auto simp: file_diff_ok_def split: option.splits)
  have "fold diff_line (map without_cr (file_diff_text f)) (path, changed) = (fd_path f, note_file f changed)"
    by (simp add: file_diff_text_def body_lines_step[OF f(1)] path_step[OF f(2)] hunks_step[OF f(3)] note_file_def)
  then show ?case using Cons by simp
qed simp

definition file_diff_plain :: "file_diff \<Rightarrow> bool" where
  "file_diff_plain f \<longleftrightarrow> list_all body_line (fd_headers f) \<and> (case fd_path f of Some path \<Rightarrow> path_ok path | None \<Rightarrow> True)
     \<and> list_all (\<lambda>hunk. hunk_ok hunk \<and> list_all body_line (hk_body hunk)) (fd_hunks f)"

lemma ok_plain: "list_all file_diff_ok files \<Longrightarrow> list_all file_diff_plain files"
  by (auto simp: list_all_iff file_diff_ok_def file_diff_plain_def split: option.splits)

lemma no_line_feeds:
  assumes "list_all file_diff_plain files" "line \<in> set (concat (map file_diff_text files))"
  shows "LF \<notin> set line"
proof -
  have header: "LF \<notin> set (''@@ '' @ hunk_header hunk)" if "hunk_ok hunk" for hunk
  proof -
    have "\<forall>c \<in> set (hk_old hunk) \<union> set (hunk_side hunk). 32 < code c"
      using that plain_side[of hunk] by (auto simp: hunk_ok_def plain_word_def list_all_iff)
    moreover have "\<not> 32 < code LF" by (simp add: code_def)
    ultimately show ?thesis using that by (auto simp: hunk_header_def hunk_ok_def)
  qed
  have path: "LF \<notin> set (path_text path)" if "case path of Some path \<Rightarrow> path_ok path | None \<Rightarrow> True" for path
    using that by (cases path) (simp_all add: path_text_def path_ok_def)
  obtain f where f: "f \<in> set files" "line \<in> set (file_diff_text f)" using assms(2) by auto
  then have ok: "file_diff_plain f" using assms(1) by (simp add: list_all_iff)
  consider "line \<in> set (fd_headers f)" | "line = path_text (fd_path f)"
    | hunk where "hunk \<in> set (fd_hunks f)" "line \<in> set (hunk_text hunk)"
    using f(2) by (auto simp: file_diff_text_def)
  then show ?thesis
  proof cases
    case 3
    then have "hunk_ok hunk" "list_all body_line (hk_body hunk)" using ok by (auto simp: file_diff_plain_def list_all_iff)
    then show ?thesis using 3(2) header unfolding hunk_text_def by (auto simp: body_line_def list_all_iff)
  qed (use ok path in \<open>auto simp: file_diff_plain_def list_all_iff body_line_def\<close>)
qed

definition added_in :: "string \<Rightarrow> file_diff \<Rightarrow> nat set" where
  "added_in path f = (if fd_path f = Some path
     then \<Union> (set (map (\<lambda>hunk. {hk_start hunk..<hk_start hunk + hk_count hunk}) (fd_hunks f))) else {})"

definition added_lines :: "file_diff list \<Rightarrow> string \<Rightarrow> nat set" where
  "added_lines files path = \<Union> (set (map (added_in path) files))"

definition joined :: "nat set option \<Rightarrow> nat set \<Rightarrow> nat set option" where
  "joined known added = (if added = {} then known else Some ((case known of Some s \<Rightarrow> s | None \<Rightarrow> {}) \<union> added))"

lemma joined_again [simp]: "joined (joined known a) b = joined known (a \<union> b)" "joined known {} = known"
  by (auto simp: joined_def split: option.splits)

definition hunk_lines :: "string \<Rightarrow> string \<Rightarrow> hunk \<Rightarrow> nat set" where
  "hunk_lines q path hunk = (if q = path then {hk_start hunk..<hk_start hunk + hk_count hunk} else {})"

lemma note_hunk_map: "map_of (note_hunk path hunk changed) q = joined (map_of changed q) (hunk_lines q path hunk)"
  by (auto simp: note_hunk_def hunk_lines_def joined_def split: option.splits)

lemma note_hunks_map:
  "map_of (fold (note_hunk path) hunks changed) q = joined (map_of changed q) (\<Union> (set (map (hunk_lines q path) hunks)))"
  by (induction hunks arbitrary: changed) (simp_all add: note_hunk_map)

lemma hunks_of_path: "\<Union> (set (map (hunk_lines q path) (fd_hunks f))) = added_in q f" if "fd_path f = Some path"
  using that by (cases "q = path") (auto simp: added_in_def hunk_lines_def)

lemma note_file_map: "map_of (note_file f changed) q = joined (map_of changed q) (added_in q f)"
proof (cases "fd_path f")
  case (Some path)
  then show ?thesis by (simp add: note_file_def note_hunks_def note_hunks_map flip: hunks_of_path[OF Some])
qed (simp add: note_file_def note_hunks_def added_in_def)

lemma note_files_map: "map_of (fold note_file files changed) q = joined (map_of changed q) (added_lines files q)"
  by (induction files arbitrary: changed) (simp_all add: note_file_map added_lines_def)


text \<open>C30: An added line of source whose text begins with \<open>++\<close> and a space is printed \<open>+++\<close> and is read
  as the header of a file: what the hunks after it add to the file goes to a file named by the rest of
  the line, and the file is left without it.\<close>

theorem added_text_taken_for_header:
  assumes "list_all body_line headers" and "path_ok path" and "path_ok name" and "\<not> starts_with ''b/'' name" and "name \<noteq> path"
    and "hunk_ok first" and "hk_body first = [''+'' @ ''++ '' @ name]" and "hk_count first = 1"
    and "hunk_ok second" and "list_all body_line (hk_body second)" and "hk_count second \<noteq> 0"
  shows "(let changed = changed_lines (diff_text [\<lparr>fd_headers = headers, fd_path = Some path, fd_hunks = [first, second]\<rparr>]) in
      map_of changed path = Some {hk_start first}
      \<and> map_of changed name = Some {hk_start second..<hk_start second + hk_count second})"
proof -
  let ?f = "\<lparr>fd_headers = headers, fd_path = Some path, fd_hunks = [first, second]\<rparr>"
  let ?g = "\<lparr>fd_headers = headers, fd_path = Some path, fd_hunks = [first\<lparr>hk_body := []\<rparr>, second]\<rparr>"
  have same: "hunk_header (first\<lparr>hk_body := []\<rparr>) = hunk_header first" "hunk_ok (first\<lparr>hk_body := []\<rparr>)"
    using assms(6) by (simp_all add: hunk_header_def hunk_side_def hunk_ok_def)
  have clear: "LF \<notin> set line" if "line \<in> set (file_diff_text ?g)" for line
    using no_line_feeds[of "[?g]"] assms same(2) that by (simp add: file_diff_plain_def)
  have "set (file_diff_text ?f) \<subseteq> set (file_diff_text ?g) \<union> {''+++ '' @ name}"
    by (auto simp: file_diff_text_def hunk_text_def same assms(7))
  then have "\<forall>line \<in> set (file_diff_text ?f). LF \<notin> set line"
    using clear assms(3) by (auto simp: path_ok_def)
  then have lines: "text_lines (diff_text [?f]) = map without_cr (file_diff_text ?f)"
    using text_lines_terminated[of "file_diff_text ?f"] by (simp add: diff_text_def)
  have named: "diff_line (without_cr (''+++ '' @ name)) (q, changed) = (Some name, changed)" for q changed
  proof -
    have "without_cr (''+++ '' @ name) = ''+++ '' @ name"
      using without_cr_append[of name "''+++ ''"] assms(3)
      by (cases "name = []") (simp_all add: path_ok_def without_cr_def strip_suffix_def)
    then show ?thesis using assms(3,4)
      by (auto simp: diff_line_def header_path_def path_ok_def starts_with_def split: option.splits)
  qed
  have "fold diff_line (map without_cr (file_diff_text ?f)) (None, [])
      = (Some name, note_hunk name second (note_hunk path first []))"
    using assms(2,6,9) by (simp add: file_diff_text_def hunk_text_def assms(7) body_lines_step[OF assms(1)] body_lines_step[OF assms(10)]
        path_step named[simplified] header_step[simplified] note_hunks_def)
  then have "changed_lines (diff_text [?f]) = note_hunk name second (note_hunk path first [])"
    by (simp add: changed_lines_def lines)
  then show ?thesis using assms(5,8,11) by (auto simp: Let_def note_hunk_map joined_def hunk_lines_def)
qed

theorem added_text_taken_for_header_witness:
  "let changed = changed_lines (diff_text [\<lparr>fd_headers = [''diff --git a/a.c b/a.c''], fd_path = Some ''a.c'',
       fd_hunks = [\<lparr>hk_old = ''-3,0'', hk_start = 4, hk_count = 1, hk_section = [], hk_body = [''+++ i;'']\<rparr>,
         \<lparr>hk_old = ''-8,0'', hk_start = 10, hk_count = 2, hk_section = [], hk_body = [''+x'', ''+y'']\<rparr>]\<rparr>])
   in map_of changed ''a.c'' = Some {4} \<and> map_of changed ''i;'' = Some {10..<12}"
proof -
  have "trim_end ''a.c'' = ''a.c'' \<and> trim_end ''i;'' = ''i;''"
    using trim_end_stays[of "CHR ''c''" "''a.''"] trim_end_stays[of "CHR '';''" "''i''"] by (simp add: code_def)
  then have "path_ok ''a.c''" "path_ok ''i;''" by (simp_all add: path_ok_def without_cr_def strip_suffix_def)
  then show ?thesis
    using added_text_taken_for_header[of "[''diff --git a/a.c b/a.c'']" "''a.c''" "''i;''"
        "\<lparr>hk_old = ''-3,0'', hk_start = 4, hk_count = 1, hk_section = [], hk_body = [''+++ i;'']\<rparr>"
        "\<lparr>hk_old = ''-8,0'', hk_start = 10, hk_count = 2, hk_section = [], hk_body = [''+x'', ''+y'']\<rparr>"]
    by (simp add: body_line_def starts_with_def hunk_ok_def plain_word_def code_def Let_def)
qed


end
