(* ===== verification/CoverageExport.thy ===== *)
theory CoverageExport
  imports PatchFacts PatchExact
begin

section \<open>LCOV and Cobertura (coverage\_export.rs)\<close>

text \<open>
  The exports of a run view, as the texts the code writes. \<open>version\<close> is the package version the build
  puts in. A finite \<open>f64\<close> with four decimals is the decimal nearest its exact value, ties to even.
\<close>

definition xml_char :: "char \<Rightarrow> string" where
  "xml_char c = (if c = CHR ''&'' then ''&amp;'' else if c = CHR ''<'' then ''&lt;'' else if c = CHR ''>'' then ''&gt;''
     else if c = CHR 0x22 then ''&quot;'' else if c = CHR 0x27 then ''&apos;''
     else if code c < 32 \<and> c \<noteq> CHR 0x09 \<and> c \<noteq> LF \<and> c \<noteq> CR then [] else [c])"

definition xml :: "string \<Rightarrow> string" where
  "xml text = concat (map xml_char text)"

definition rate :: "nat \<Rightarrow> nat \<Rightarrow> rat" where
  "rate covered count_of = (if count_of = 0 then 1 else f64_round (f64_round (of_nat covered) / f64_round (of_nat count_of)))"

definition four_decimals :: "rat \<Rightarrow> string" where
  "four_decimals q = (let n = nat (round_ties_even (q * 10000)); fraction = decimal (n mod 10000)
     in decimal (n div 10000) @ ''.'' @ replicate (4 - length fraction) CHR ''0'' @ fraction)"

definition line_of :: "string \<Rightarrow> string" where
  "line_of text = text @ [LF]"

definition zero_one :: "bool \<Rightarrow> string" where
  "zero_one b = (if b then ''1'' else ''0'')"

definition QUOTE :: string where "QUOTE = [CHR 0x22]"

definition attribute :: "string \<Rightarrow> string \<Rightarrow> string" where
  "attribute name text = '' '' @ name @ ''='' @ QUOTE @ text @ QUOTE"

subsection \<open>Conditions\<close>

text \<open>\<open>chunk_by\<close> on equal keys: runs of neighbours with one key.\<close>

fun chunk_by :: "('a \<Rightarrow> 'k) \<Rightarrow> 'a list \<Rightarrow> 'a list list" where
  "chunk_by key [] = []"
| "chunk_by key (x # xs) = (case chunk_by key xs of
     [] \<Rightarrow> [[x]]
   | chunk # later \<Rightarrow> if key x = key (hd chunk) then (x # chunk) # later else [x] # chunk # later)"

definition line_groups :: "condition_record list \<Rightarrow> condition_record list list" where
  "line_groups line =
     (let decisions = chunk_by cn_column line;
          apart = successively (\<noteq>) (sort (map length decisions))
      in sort_key length (if apart then decisions else [line]))"

definition condition_name :: "nat \<Rightarrow> condition_record \<Rightarrow> string" where
  "condition_name index condition =
     (let named = join '' '' (split_whitespace (cn_source condition))
      in if named = [] then ''condition '' @ decimal index else named)"

definition condition_text :: "nat \<Rightarrow> nat \<times> condition_record \<Rightarrow> string" where
  "condition_text size_of = (\<lambda>(index, condition). concat (map (\<lambda>sense. line_of (''MCDC:'' @ decimal (cn_line condition) @ '',''
       @ decimal size_of @ '','' @ [sense] @ '','' @ zero_one (cn_covered condition) @ '','' @ decimal index @ '',''
       @ condition_name index condition)) [CHR ''t'', CHR ''f'']))"

definition group_text :: "condition_record list \<Rightarrow> string" where
  "group_text conditions = concat (map (condition_text (length conditions)) (enumerate 0 conditions))"

definition mcdc_groups :: "condition_record list \<Rightarrow> condition_record list list" where
  "mcdc_groups conditions = concat (map line_groups (chunk_by cn_line conditions))"

text \<open>The records, and how many obligations they count found and hit.\<close>

definition mcdc_records :: "condition_record list \<Rightarrow> string \<times> nat \<times> nat" where
  "mcdc_records conditions =
     (let written = concat (mcdc_groups conditions)
      in (concat (map group_text (mcdc_groups conditions)),
          sum_list (map (\<lambda>_. 2) written), sum_list (map (\<lambda>condition. 2 * of_bool (cn_covered condition)) written)))"

subsection \<open>LCOV\<close>

definition counts_of :: "metric_view list \<Rightarrow> metric \<Rightarrow> run_view_panic + nat \<times> nat" where
  "counts_of metrics metric = rbind (metric_in metrics metric) (\<lambda>view. Inr (mw_covered view, mw_eligible view))"

definition branch_text :: "branch_record \<Rightarrow> string" where
  "branch_text branch = line_of (''BRDA:'' @ decimal (bn_line branch) @ '','' @ decimal (bn_block branch) @ '',''
     @ decimal (bn_index branch) @ '','' @ (if bn_taken branch then ''1'' else ''-''))"

definition lcov_file :: "file_view \<Rightarrow> run_view_panic + string" where
  "lcov_file file_view =
     rbind (counts_of (fv_metrics file_view) FunctionsMetric) (\<lambda>(covered_functions, functions).
     rbind (counts_of (fv_metrics file_view) BranchesMetric) (\<lambda>(covered_branches, branches).
     let (records, conditions, shown) = mcdc_records (fv_conditions file_view) in
     rbind (counts_of (fv_metrics file_view) LinesMetric) (\<lambda>(covered_lines, lines).
     Inr (line_of ''TN:'' @ line_of (''SF:'' @ fv_file file_view)
       @ concat (map (\<lambda>f. line_of (''FN:'' @ decimal (fn_line f) @ '','' @ fn_name f)) (fv_functions file_view))
       @ concat (map (\<lambda>f. line_of (''FNDA:'' @ zero_one (fn_covered f) @ '','' @ fn_name f)) (fv_functions file_view))
       @ line_of (''FNF:'' @ decimal functions) @ line_of (''FNH:'' @ decimal covered_functions)
       @ concat (map branch_text (fv_branches file_view))
       @ line_of (''BRF:'' @ decimal branches) @ line_of (''BRH:'' @ decimal covered_branches)
       @ records
       @ (if 0 < conditions then line_of (''MCF:'' @ decimal conditions) @ line_of (''MCH:'' @ decimal shown) else [])
       @ concat (map (\<lambda>(line, covered). line_of (''DA:'' @ decimal line @ '','' @ zero_one covered)) (line_hits file_view))
       @ line_of (''LF:'' @ decimal lines) @ line_of (''LH:'' @ decimal covered_lines) @ line_of ''end_of_record''))))"

definition lcov :: "run_view \<Rightarrow> run_view_panic + string" where
  "lcov view = rbind (try_map lcov_file (rv_files view)) (\<lambda>files. Inr (concat files))"

subsection \<open>Cobertura\<close>

definition rates :: "nat \<times> nat \<Rightarrow> nat \<times> nat \<Rightarrow> string" where
  "rates lines branches = attribute ''line-rate'' (four_decimals (rate (fst lines) (snd lines)))
     @ attribute ''branch-rate'' (four_decimals (rate (fst branches) (snd branches)))"

definition cobertura_line :: "file_view \<Rightarrow> nat \<times> bool \<Rightarrow> string" where
  "cobertura_line file_view = (\<lambda>(line, covered).
     let alternatives = filter (\<lambda>branch. bn_line branch = line) (fv_branches file_view);
         taken = length (filter bn_taken alternatives);
         named = ''            <line'' @ attribute ''number'' (decimal line) @ attribute ''hits'' (zero_one covered)
     in if alternatives = [] then line_of (named @ ''/>'')
        else line_of (named @ attribute ''branch'' ''true''
          @ attribute ''condition-coverage'' (decimal (nat (round_half_up (f64_round (rate taken (length alternatives) * 100))))
              @ ''% ('' @ decimal taken @ ''/'' @ decimal (length alternatives) @ '')'')
          @ ''/>''))"

definition cobertura_file :: "file_view \<Rightarrow> run_view_panic + string" where
  "cobertura_file file_view =
     rbind (counts_of (fv_metrics file_view) LinesMetric) (\<lambda>lines.
     rbind (counts_of (fv_metrics file_view) BranchesMetric) (\<lambda>branches.
     Inr (line_of (''        <class'' @ attribute ''name'' (xml (fv_file file_view))
         @ attribute ''filename'' (xml (fv_file file_view)) @ rates lines branches @ attribute ''complexity'' ''0'' @ ''>'')
       @ line_of ''          <methods/>'' @ line_of ''          <lines>''
       @ concat (map (cobertura_line file_view) (line_hits file_view))
       @ line_of ''          </lines>'' @ line_of ''        </class>'')))"

definition cobertura :: "string \<Rightarrow> run_view \<Rightarrow> nat \<Rightarrow> run_view_panic + string" where
  "cobertura version view timestamp =
     rbind (counts_of (rv_totals view) LinesMetric) (\<lambda>lines.
     rbind (counts_of (rv_totals view) BranchesMetric) (\<lambda>branches.
     rbind (try_map cobertura_file (rv_files view)) (\<lambda>classes.
     Inr (line_of (''<?xml'' @ attribute ''version'' ''1.0'' @ attribute ''encoding'' ''UTF-8'' @ ''?>'')
       @ line_of (''<coverage'' @ rates lines branches
         @ attribute ''lines-covered'' (decimal (fst lines)) @ attribute ''lines-valid'' (decimal (snd lines))
         @ attribute ''branches-covered'' (decimal (fst branches)) @ attribute ''branches-valid'' (decimal (snd branches))
         @ attribute ''complexity'' ''0'' @ attribute ''version'' (xml version) @ attribute ''timestamp'' (decimal timestamp) @ ''>'')
       @ line_of ''  <sources>'' @ line_of ''    <source>.</source>'' @ line_of ''  </sources>'' @ line_of ''  <packages>''
       @ line_of (''    <package'' @ attribute ''name'' [] @ rates lines branches @ attribute ''complexity'' ''0'' @ ''>'')
       @ line_of ''      <classes>'' @ concat classes @ line_of ''      </classes>'' @ line_of ''    </package>''
       @ line_of ''  </packages>'' @ line_of ''</coverage>''))))"

definition FORMATS :: string where "FORMATS = ''lcov|cobertura|html''"

definition export_run :: "string \<Rightarrow> run_view \<Rightarrow> string \<Rightarrow> nat \<Rightarrow> run_view_panic + string + string" where
  "export_run version view format timestamp =
     (if format = ''lcov'' then rbind (lcov view) (\<lambda>text. Inr (Inr text))
      else if format = ''cobertura'' then rbind (cobertura version view timestamp) (\<lambda>text. Inr (Inr text))
      else Inr (Inl (''unknown format '' @ format @ ''; Supercov exports '' @ FORMATS)))"

subsection \<open>A condition's records name it alone\<close>

lemma chunk_by_groups:
  "concat (chunk_by key xs) = xs" "chunk \<in> set (chunk_by key xs) \<Longrightarrow> chunk \<noteq> [] \<and> (\<forall>x \<in> set chunk. key x = key (hd chunk))"
  by (induction xs arbitrary: chunk) (auto split: list.splits if_splits)

lemma chunk_heads:
  "sorted (map key xs) \<Longrightarrow> sorted_wrt (<) (map (\<lambda>chunk. key (hd chunk)) (chunk_by key xs))
     \<and> (xs \<noteq> [] \<longrightarrow> chunk_by key xs \<noteq> [] \<and> key (hd (hd (chunk_by key xs))) = key (hd xs))"
proof (induction xs)
  case (Cons x xs)
  show ?case
  proof (cases "chunk_by key xs")
    case Nil
    then show ?thesis by simp
  next
    case (Cons chunk later)
    have xs: "xs \<noteq> []" using Cons by (cases xs) auto
    have "key x \<le> key (hd chunk)" using Cons.prems Cons.IH Cons xs by (cases xs) auto
    then show ?thesis using Cons.prems Cons.IH Cons by auto
  qed
qed simp

text \<open>The place a condition is written at: its line, the size of its group, its place there.\<close>

definition record_keys :: "condition_record list \<Rightarrow> (nat \<times> nat \<times> nat) list" where
  "record_keys conditions = concat (map (\<lambda>group'. map (\<lambda>(index, condition). (cn_line condition, length group', index))
     (enumerate 0 group')) (mcdc_groups conditions))"

lemma neighbours_distinct: "sorted xs \<Longrightarrow> successively (\<noteq>) xs \<Longrightarrow> distinct (xs :: nat list)"
proof (induction xs rule: induct_list012)
  case (3 x y zs)
  then have "x < y" "sorted (y # zs)" "distinct (y # zs)" by auto
  then show ?case by (auto simp: less_le_trans)
qed simp_all

lemma line_groups_sizes: "distinct (map length (line_groups line))" "mset (concat (line_groups line)) = mset line"
proof -
  let ?decisions = "chunk_by cn_column line"
  have mset_sorted: "mset (concat (sort_key length groups)) = mset (concat groups)" for groups :: "condition_record list list"
    by (simp add: mset_concat flip: sum_mset_sum_list)
  show "distinct (map length (line_groups line))"
  proof (cases "successively (\<noteq>) (sort (map length ?decisions))")
    case True
    then have "distinct (sort (map length ?decisions))" by (intro neighbours_distinct) simp
    then have "distinct (map length ?decisions)" by simp
    moreover have "mset (map length (sort_key length ?decisions)) = mset (map length ?decisions)" by simp
    ultimately have "distinct (map length (sort_key length ?decisions))" by (metis mset_eq_imp_distinct_iff)
    then show ?thesis using True by (simp add: line_groups_def Let_def)
  qed (simp add: line_groups_def Let_def)
  show "mset (concat (line_groups line)) = mset line"
    unfolding line_groups_def Let_def mset_sorted by (simp add: chunk_by_groups(1))
qed

lemma distinct_concat_map:
  assumes "distinct (map h xs)" "\<And>x. x \<in> set xs \<Longrightarrow> distinct (f x) \<and> (\<forall>y \<in> set (f x). g y = h x)"
  shows "distinct (concat (map f xs))"
  using assms
proof (induction xs)
  case (Cons x xs)
  have "y \<notin> set (f x)" if "x' \<in> set xs" "y \<in> set (f x')" for x' y
    using that Cons.prems(1) Cons.prems(2)[of x] Cons.prems(2)[of x'] by (metis distinct.simps(2) image_eqI list.set_intros list.simps(9) list.set_map)
  moreover have "distinct (concat (map f xs))" using Cons by simp
  ultimately show ?case using Cons.prems(2)[of x] by auto
qed simp

lemma group_keys:
  "\<forall>c \<in> set g. cn_line c = line \<Longrightarrow>
     map (\<lambda>(index, condition). (cn_line condition, n, index)) (enumerate k g) = map (\<lambda>index. (line, n, index)) [k..<k + length g]"
  by (induction g arbitrary: k) (simp_all add: upt_rec)

lemma set_concat_groups: "g \<in> set (line_groups line) \<Longrightarrow> set g \<subseteq> set line"
  using mset_eq_setD[OF line_groups_sizes(2)[of line]] by auto

lemma keys_distinct:
  assumes "sorted (map cn_line conditions)"
  shows "distinct (record_keys conditions)"
proof -
  let ?keys = "\<lambda>g. map (\<lambda>(index, condition). (cn_line condition, length g, index)) (enumerate 0 g)"
  have of_line: "distinct (concat (map ?keys (line_groups chunk))) \<and> (\<forall>key \<in> set (concat (map ?keys (line_groups chunk))). fst key = cn_line (hd chunk))"
    if chunk: "chunk \<in> set (chunk_by cn_line conditions)" for chunk
  proof -
    have "?keys g = map (\<lambda>index. (cn_line (hd chunk), length g, index)) [0..<length g]" if "g \<in> set (line_groups chunk)" for g
    proof -
      have "\<forall>c \<in> set chunk. cn_line c = cn_line (hd chunk)" using chunk_by_groups(2)[OF chunk] by (rule conjunct2)
      then have "\<forall>c \<in> set g. cn_line c = cn_line (hd chunk)" using set_concat_groups[OF that] by (metis subsetD)
      then show ?thesis using group_keys[of g "cn_line (hd chunk)" "length g" 0] by (simp only: add_0)
    qed
    then have same: "map ?keys (line_groups chunk) = map (\<lambda>g. map (\<lambda>index. (cn_line (hd chunk), length g, index)) [0..<length g]) (line_groups chunk)"
      by simp
    have "distinct (concat (map (\<lambda>g. map (\<lambda>index. (cn_line (hd chunk), length g, index)) [0..<length g]) (line_groups chunk)))"
      by (rule distinct_concat_map[where h = length and g = "\<lambda>key. fst (snd key)", OF line_groups_sizes(1)])
        (auto simp: distinct_map inj_on_def)
    then show ?thesis unfolding same by auto
  qed
  have "distinct (map (\<lambda>chunk. cn_line (hd chunk)) (chunk_by cn_line conditions))"
    using chunk_heads[OF assms] strict_sorted_iff by blast
  then have "distinct (concat (map (\<lambda>chunk. concat (map ?keys (line_groups chunk))) (chunk_by cn_line conditions)))"
    by (rule distinct_concat_map[where g = fst]) (use of_line in blast)
  moreover have "record_keys conditions = concat (map (\<lambda>chunk. concat (map ?keys (line_groups chunk))) (chunk_by cn_line conditions))"
  proof -
    have "concat (map f (concat (map g chunks))) = concat (map (\<lambda>chunk. concat (map f (g chunk))) chunks)"
      for f :: "condition_record list \<Rightarrow> (nat \<times> nat \<times> nat) list" and g chunks by (induction chunks) simp_all
    then show ?thesis by (simp add: record_keys_def mcdc_groups_def)
  qed
  ultimately show ?thesis by simp
qed

lemma written_conditions: "mset (concat (mcdc_groups conditions)) = mset conditions"
proof -
  have "mset (concat (concat (map line_groups chunks))) = mset (concat chunks)" for chunks
    using line_groups_sizes(2) by (induction chunks) simp_all
  then show ?thesis using chunk_by_groups(1)[of cn_line conditions] by (simp add: mcdc_groups_def)
qed

lemma records_counted:
  "fst (snd (mcdc_records conditions)) = 2 * length conditions"
  "snd (snd (mcdc_records conditions)) = 2 * length (filter cn_covered conditions)"
proof -
  let ?written = "concat (mcdc_groups conditions)"
  have "length ?written = length conditions" using written_conditions[of conditions] by (metis size_mset)
  then show "fst (snd (mcdc_records conditions)) = 2 * length conditions"
    by (simp add: mcdc_records_def Let_def sum_list_triv)
  have "sum_list (map (\<lambda>c. 2 * of_bool (cn_covered c)) written) = 2 * length (filter cn_covered written)" for written
    by (induction written) simp_all
  then have "sum_list (map (\<lambda>c. 2 * of_bool (cn_covered c)) ?written) = 2 * length (filter cn_covered ?written)" .
  also have "length (filter cn_covered ?written) = length (filter cn_covered conditions)"
    by (rule length_filter_mset[OF written_conditions])
  finally show "snd (snd (mcdc_records conditions)) = 2 * length (filter cn_covered conditions)"
    by (simp add: mcdc_records_def Let_def)
qed

subsection \<open>The counts of the records are the run's\<close>

lemma decision_conditions:
  assumes "create_coverage_view_with_model j manifest raws g model = Inr view" "decision \<in> set (cv_decisions view)"
  shows "length (dr_conditions decision) = length (dm_conditions (dr_meta decision))"
    "length (filter cr_covered (dr_conditions decision)) = witnessed decision"
proof -
  let ?m = "settled_manifest j manifest"
  obtain st vt r where r: "results_from vt ?m st r" and view: "view_of_results j ?m g model r = Inr view"
    using view_from[OF assms(1)] by metis
  have "decision \<in> set (vr_decisions r)"
    using assms(2) view_of_results_cases[where j = j and manifest = ?m and g = g and model = model and r = r, unfolded view sum.case]
    by (simp add: undeclined_decisions_def)
  then obtain x where "(\<lambda>(meta, os, ns) result. decision_result_of vt os ns meta = Inr result) x decision"
    using in_related[OF conjunct1[OF r[unfolded results_from_def Let_def]]] by blast
  then obtain meta os ns where made: "decision_result_of vt os ns meta = Inr decision" by (cases x) simp
  note fields = decision_result_of_fields[OF made]
  obtain ws where ws: "find_witnesses_for_conditions (map mb_vector os) (length (dm_conditions meta)) = Inr ws"
    "dr_conditions decision = map (condition_result_of (map (vector_observation_of vt) os) ws) (enumerate 0 (dm_conditions meta))"
    using fields(7) by blast
  have len: "length ws = length (dm_conditions meta)" by (rule find_witnesses_length[OF ws(1)])
  show "length (dr_conditions decision) = length (dm_conditions (dr_meta decision))" by (simp add: ws(2) fields(1))
  have vectors: "dc_vectors (coverage_of None decision) = map mb_vector os"
    "dc_condition_count (coverage_of None decision) = length (dm_conditions meta)"
    by (simp_all add: coverage_of_def included_def fields(1,4))
  have "map cr_covered (dr_conditions decision) = map (\<lambda>w. w \<noteq> None) ws"
  proof (rule nth_equalityI)
    show "length (map cr_covered (dr_conditions decision)) = length (map (\<lambda>w. w \<noteq> None) ws)" by (simp add: ws(2) len)
    fix i assume "i < length (map cr_covered (dr_conditions decision))"
    then have i: "i < length ws" by (simp add: ws(2) len)
    show "map cr_covered (dr_conditions decision) ! i = map (\<lambda>w. w \<noteq> None) ws ! i"
      using i by (simp add: ws(2) len nth_enumerate_eq condition_covered del: not_None_eq)
  qed
  then have "length (filter id (map cr_covered (dr_conditions decision))) = length (filter id (map (\<lambda>w. w \<noteq> None) ws))" by simp
  then show "length (filter cr_covered (dr_conditions decision)) = witnessed decision"
    unfolding witnessed_def vectors ws(1) by (simp add: filter_map comp_def del: not_None_eq)
qed

lemma file_conditions:
  assumes "create_coverage_view_with_model j manifest raws g model = Inr view"
  shows "sorted (map cn_line (fv_conditions (file_view_of view path)))"
    "metric_counts (file_summary view path) McdcMetric
      = (length (filter cn_covered (fv_conditions (file_view_of view path))), length (fv_conditions (file_view_of view path)))"
proof -
  let ?share = "concat (map condition_records (decisions_in view path))"
  have written: "fv_conditions (file_view_of view path) = sort_key (\<lambda>c. (cn_line c, cn_column c, cn_index c)) ?share"
    by (simp add: file_view_of_def in_order_def share_fields)
  have "sorted (map (\<lambda>c. (cn_line c, cn_column c, cn_index c)) (sort_key (\<lambda>c. (cn_line c, cn_column c, cn_index c)) ?share))"
    by (rule sorted_sort_key)
  then show "sorted (map cn_line (fv_conditions (file_view_of view path)))"
    unfolding written sorted_map by (rule sorted_wrt_mono_rel[rotated]) (auto simp: less_eq_prod_def)
  have same: "mset (fv_conditions (file_view_of view path)) = mset ?share" unfolding written by simp
  have "set (decisions_in view path) \<subseteq> set (cv_decisions view)" by (auto simp: decisions_in_def)
  then have "length (concat (map condition_records ds)) = sum_list (map (\<lambda>d. length (dm_conditions (dr_meta d))) ds)
      \<and> length (filter cn_covered (concat (map condition_records ds))) = sum_list (map witnessed ds)"
    if "set ds \<subseteq> set (decisions_in view path)" for ds
    using that
  proof (induction ds)
    case (Cons d ds)
    then have d: "d \<in> set (cv_decisions view)" by auto
    have "length (condition_records d) = length (dm_conditions (dr_meta d))"
      "length (filter cn_covered (condition_records d)) = witnessed d"
      using decision_conditions[OF assms d] by (simp_all add: condition_records_def filter_map comp_def)
    then show ?case using Cons by simp
  qed simp
  then have "length ?share = sum_list (map (\<lambda>d. length (dm_conditions (dr_meta d))) (decisions_in view path))"
    "length (filter cn_covered ?share) = sum_list (map witnessed (decisions_in view path))" by blast+
  then show "metric_counts (file_summary view path) McdcMetric
      = (length (filter cn_covered (fv_conditions (file_view_of view path))), length (fv_conditions (file_view_of view path)))"
    unfolding file_counts[OF built_view_whole[OF assms]] using length_filter_mset[OF same, of cn_covered] mset_eq_length[OF same] by simp
qed

subsection \<open>The records as a reader of LCOV takes them\<close>

text \<open>A reader takes the lines that begin with \<open>MCDC:\<close> apart at their commas: the line of the condition, the
  size of its group, the sense, whether it was shown, and the condition's place in the group.\<close>

definition record_fields :: "string \<Rightarrow> (string \<times> string \<times> string \<times> string \<times> string) option" where
  "record_fields text = (case strip_prefix ''MCDC:'' text of None \<Rightarrow> None
     | Some rest \<Rightarrow> (case split_on CHR '','' rest of
          line # size_of # sense # shown # index # _ \<Rightarrow> Some (line, size_of, sense, shown, index)
        | _ \<Rightarrow> None))"

definition records_read :: "string \<Rightarrow> (string \<times> string \<times> string \<times> string \<times> string) list" where
  "records_read text = List.map_filter record_fields (split_on LF text)"

lemma words_no_line_feed: "word \<in> set (split_words acc s) \<Longrightarrow> LF \<notin> set acc \<Longrightarrow> LF \<notin> set word"
proof (induction acc s rule: split_words.induct)
  case (2 acc c s)
  have "[LF] \<in> set white_space" by code_simp
  then have feed: "strip_any white_space (LF # s) \<noteq> None" for s
    unfolding strip_any_None by (intro notI) (drule bspec, assumption, simp add: starts_with_iff)
  then have "strip_any white_space (c # s) = None \<Longrightarrow> c \<noteq> LF" by blast
  then show ?case using 2 by (auto split: option.splits)
qed simp

lemma name_no_line_feed: "LF \<notin> set (condition_name index condition)"
proof -
  have "LF \<notin> set (join '' '' words)" if "\<forall>word \<in> set words. LF \<notin> set word" for words
    using that by (induction words rule: induct_list012) auto
  moreover have "\<forall>word \<in> set (split_whitespace given). LF \<notin> set word" for given
    using words_no_line_feed[of _ "[]" given] by (auto simp: split_whitespace_def)
  moreover have "LF \<notin> set (decimal index)" using decimal_digits[of LF index] by (auto simp: is_ascii_digit_def code_def)
  ultimately show ?thesis by (auto simp: condition_name_def Let_def)
qed

definition record_line :: "nat \<Rightarrow> nat \<times> condition_record \<Rightarrow> char \<Rightarrow> string" where
  "record_line size_of = (\<lambda>(index, condition) sense. ''MCDC:'' @ decimal (cn_line condition) @ '','' @ decimal size_of @ '',''
     @ [sense] @ '','' @ zero_one (cn_covered condition) @ '','' @ decimal index @ '','' @ condition_name index condition)"

definition record_of :: "nat \<Rightarrow> nat \<times> condition_record \<Rightarrow> char \<Rightarrow> string \<times> string \<times> string \<times> string \<times> string" where
  "record_of size_of = (\<lambda>(index, condition) sense. (decimal (cn_line condition), decimal size_of, [sense],
     zero_one (cn_covered condition), decimal index))"

lemma record_line_read: "sense \<noteq> CHR '','' \<Longrightarrow> record_fields (record_line size_of entry sense) = Some (record_of size_of entry sense)"
  by (cases entry) (simp add: record_fields_def record_line_def record_of_def split_on_append_sep split_on_trivial no_comma zero_one_def)

lemma record_line_clear: "sense \<noteq> LF \<Longrightarrow> LF \<notin> set (record_line size_of entry sense)"
proof -
  have "LF \<notin> set (decimal n)" for n using decimal_digits[of LF n] by (auto simp: is_ascii_digit_def code_def)
  then show "sense \<noteq> LF \<Longrightarrow> ?thesis" using name_no_line_feed by (cases entry) (auto simp: record_line_def zero_one_def)
qed

text \<open>The conditions in the order they are written, each with the size of its group and its place there.\<close>

definition record_entries :: "condition_record list \<Rightarrow> (nat \<times> nat \<times> condition_record) list" where
  "record_entries conditions = concat (map (\<lambda>group'. map (\<lambda>entry. (length group', entry)) (enumerate 0 group')) (mcdc_groups conditions))"

lemma entries_written: "map (\<lambda>(_, _, condition). condition) (record_entries conditions) = concat (mcdc_groups conditions)"
proof -
  have "map (\<lambda>(_, _, condition). condition) (map (\<lambda>entry. (n, entry)) (enumerate k g)) = g" for n k :: nat and g :: "condition_record list"
    by (induction g arbitrary: k) simp_all
  then show ?thesis unfolding record_entries_def by (induction "mcdc_groups conditions") (simp_all add: map_concat comp_def)
qed

lemma entries_keys: "map (\<lambda>(n, index, condition). (cn_line condition, n, index)) (record_entries conditions) = record_keys conditions"
  by (simp add: record_entries_def record_keys_def map_concat comp_def case_prod_unfold)

lemma records_text:
  "fst (mcdc_records conditions) = concat (map (\<lambda>line. line @ [LF])
     (concat (map (\<lambda>(n, entry). map (record_line n entry) [CHR ''t'', CHR ''f'']) (record_entries conditions))))"
proof -
  have "condition_text n entry = concat (map (\<lambda>line. line @ [LF]) (map (record_line n entry) [CHR ''t'', CHR ''f'']))" for n entry
    by (cases entry) (simp add: condition_text_def record_line_def line_of_def)
  then have "concat (map (condition_text n) entries) = concat (map (\<lambda>line. line @ [LF]) (concat (map (\<lambda>(n, entry).
      map (record_line n entry) [CHR ''t'', CHR ''f'']) (map (\<lambda>entry. (n, entry)) entries))))" for n entries
    by (induction entries) simp_all
  then have "concat (map group_text groups) = concat (map (\<lambda>line. line @ [LF]) (concat (map (\<lambda>(n, entry).
      map (record_line n entry) [CHR ''t'', CHR ''f'']) (concat (map (\<lambda>group'. map (\<lambda>entry. (length group', entry)) (enumerate 0 group')) groups)))))"
    for groups by (induction groups) (simp_all add: group_text_def)
  then show ?thesis by (simp only: mcdc_records_def record_entries_def Let_def fst_conv)
qed

lemma records_read_back:
  "records_read (fst (mcdc_records conditions))
     = concat (map (\<lambda>(n, entry). map (record_of n entry) [CHR ''t'', CHR ''f'']) (record_entries conditions))"
proof -
  let ?lines = "\<lambda>entries. concat (map (\<lambda>(n, entry). map (record_line n entry) [CHR ''t'', CHR ''f'']) entries)"
  have "split_on LF (fst (mcdc_records conditions)) = ?lines (record_entries conditions) @ [[]]"
    unfolding records_text by (rule split_on_terminated) (auto simp: record_line_clear)
  moreover have "List.map_filter record_fields (?lines entries @ [[]])
      = concat (map (\<lambda>(n, entry). map (record_of n entry) [CHR ''t'', CHR ''f'']) entries)" for entries
  proof (induction entries)
    case (Cons entry entries)
    then show ?case by (cases entry) (simp add: List.map_filter_simps record_line_read)
  qed (simp add: List.map_filter_simps record_fields_def)
  ultimately show ?thesis by (simp add: records_read_def)
qed

lemma keys_read:
  assumes "distinct (record_keys conditions)"
  shows "distinct (map (\<lambda>(line, size_of, sense, _, index). (line, size_of, sense, index)) (records_read (fst (mcdc_records conditions))))"
proof -
  let ?key = "\<lambda>(line, n, index). (decimal line, decimal n, decimal index)"
  have "map (\<lambda>(line, size_of, sense, _, index). (line, size_of, sense, index)) (records_read (fst (mcdc_records conditions)))
      = concat (map (\<lambda>(n, index, condition). map (\<lambda>sense. (decimal (cn_line condition), decimal n, [sense], decimal index))
          [CHR ''t'', CHR ''f'']) (record_entries conditions))"
    unfolding records_read_back by (simp add: map_concat comp_def record_of_def case_prod_unfold)
  moreover have "distinct (map (\<lambda>entry. ?key ((\<lambda>(n, index, condition). (cn_line condition, n, index)) entry)) (record_entries conditions))"
  proof -
    have "inj ?key" by (rule injI) auto
    then have "distinct (map ?key (record_keys conditions))" using assms by (simp add: distinct_map inj_on_subset[OF _ subset_UNIV])
    then show ?thesis by (simp add: entries_keys[symmetric] comp_def)
  qed
  ultimately show ?thesis
    by (simp only:) (rule distinct_concat_map[where g = "\<lambda>(line, n, sense, index). (line, n, index)"], assumption, auto)
qed

lemma mset_concat_map: "mset xs = mset ys \<Longrightarrow> mset (concat (map f xs)) = mset (concat (map f ys))"
proof -
  have "mset (concat (map f zs)) = sum_mset (image_mset (\<lambda>z. mset (f z)) (mset zs))" for zs by (induction zs) simp_all
  then show "mset xs = mset ys \<Longrightarrow> ?thesis" by simp
qed

lemma senses_read:
  "mset (map (\<lambda>(line, _, sense, shown, _). (line, sense, shown)) (records_read (fst (mcdc_records conditions))))
     = mset (concat (map (\<lambda>condition. map (\<lambda>sense. (decimal (cn_line condition), sense, zero_one (cn_covered condition)))
         [''t'', ''f'']) conditions))"
proof -
  let ?senses = "\<lambda>condition. map (\<lambda>sense. (decimal (cn_line condition), sense, zero_one (cn_covered condition))) [''t'', ''f'']"
  have "map (\<lambda>(line, _, sense, shown, _). (line, sense, shown)) (records_read (fst (mcdc_records conditions)))
      = concat (map ?senses (map (\<lambda>(_, _, condition). condition) (record_entries conditions)))"
    unfolding records_read_back by (simp add: map_concat comp_def record_of_def case_prod_unfold)
  also have "\<dots> = concat (map ?senses (concat (mcdc_groups conditions)))" by (simp only: entries_written)
  finally show ?thesis using mset_concat_map[OF written_conditions] by (simp only:)
qed

lemma middle_of:
  "\<exists>before after. a @ b @ c @ d @ e @ f @ g @ h @ i @ x @ y @ rest = before @ x @ y @ after"
  by (intro exI[of _ "a @ b @ c @ d @ e @ f @ g @ h @ i"] exI[of _ rest]) simp

text \<open>C31: Read back from the text of a file's LCOV export, the MC/DC records name each condition and sense
  alone, by line, group size and place in the group; they are two a condition of the file, one for each
  sense, on the condition's line and marked shown exactly when the condition is covered; and the totals
  written after them, hit over found, are twice the MC/DC counts of the file in the run.\<close>

theorem lcov_conditions_exact:
  assumes "create_coverage_view_with_model j manifest raws g model = Inr view"
    and "run_view_of print run generated_at view passed stale reasons = Inr run_view"
    and "file_view \<in> set (rv_files run_view)"
  shows "\<exists>records counts before after. lcov_file file_view = Inr (before @ records
        @ (if mw_eligible counts = 0 then [] else line_of (''MCF:'' @ decimal (2 * mw_eligible counts))
            @ line_of (''MCH:'' @ decimal (2 * mw_covered counts))) @ after)
    \<and> metric_in (fv_metrics file_view) McdcMetric = Inr counts
    \<and> distinct (map (\<lambda>(line, size_of, sense, _, index). (line, size_of, sense, index)) (records_read records))
    \<and> mset (map (\<lambda>(line, _, sense, shown, _). (line, sense, shown)) (records_read records))
      = mset (concat (map (\<lambda>condition. map (\<lambda>sense. (decimal (cn_line condition), sense, zero_one (cn_covered condition)))
          [''t'', ''f'']) (fv_conditions file_view)))"
proof -
  obtain path where path: "file_view = file_view_of view path"
    using assms(3) run_view_from(1)[OF assms(1,2)] by auto
  let ?records = "mcdc_records (fv_conditions file_view)"
  obtain counts where counts: "metric_in (fv_metrics file_view) McdcMetric = Inr counts"
    "snd ?records = (2 * mw_eligible counts, 2 * mw_covered counts)"
  proof -
    have "snd ?records = (2 * snd (metric_counts (file_summary view path) McdcMetric), 2 * fst (metric_counts (file_summary view path) McdcMetric))"
      unfolding file_conditions(2)[OF assms(1)] path using records_counted by (intro prod_eqI) simp_all
    then show thesis by (intro that[of "metric_view_of (file_summary view path) McdcMetric"]) (simp_all add: path file_view_fields)
  qed
  have metrics: "\<exists>c. metric_in (fv_metrics file_view) m = Inr c" for m by (simp add: path file_view_fields)
  obtain written where written: "?records = (written, 2 * mw_eligible counts, 2 * mw_covered counts)"
    using counts(2) by (metis prod.collapse)
  have "\<exists>before after. lcov_file file_view = Inr (before @ written
      @ (if mw_eligible counts = 0 then [] else line_of (''MCF:'' @ decimal (2 * mw_eligible counts))
          @ line_of (''MCH:'' @ decimal (2 * mw_covered counts))) @ after)"
  proof -
    obtain f b l where m: "metric_in (fv_metrics file_view) FunctionsMetric = Inr f"
      "metric_in (fv_metrics file_view) BranchesMetric = Inr b" "metric_in (fv_metrics file_view) LinesMetric = Inr l"
      using metrics by blast
    have "(if 0 < 2 * n then x else []) = (if n = 0 then [] else x)" for n :: nat and x :: string by simp
    then show ?thesis
      unfolding lcov_file_def counts_of_def written m rbind.simps prod.case Let_def sum.inject by (simp only:) (rule middle_of)
  qed
  moreover have "distinct (record_keys (fv_conditions file_view))"
    using keys_distinct[OF file_conditions(1)[OF assms(1), of path]] by (simp add: path)
  ultimately show ?thesis
    using keys_read[of "fv_conditions file_view"] senses_read[of "fv_conditions file_view"] counts(1)
    unfolding written fst_conv by blast
qed

subsection \<open>Names in markup\<close>

text \<open>No text put into the Cobertura document can end the attribute it stands in or open an element,
  whatever a path holds, and no two texts of characters XML can carry are written alike.\<close>

theorem xml_escapes_markup:
  "set (xml given) \<inter> {CHR ''<'', CHR ''>'', CHR 0x22, CHR 0x27} = {}
   \<and> list_all (\<lambda>c. 32 \<le> code c \<or> c = CHR 0x09 \<or> c = LF \<or> c = CR) (xml given)"
proof -
  have "set (xml_char c) \<inter> {CHR ''<'', CHR ''>'', CHR 0x22, CHR 0x27} = {}" for c
    by (auto simp: xml_char_def)
  moreover have "list_all (\<lambda>c. 32 \<le> code c \<or> c = CHR 0x09 \<or> c = LF \<or> c = CR) (xml_char c)" for c
    by (auto simp: xml_char_def code_def)
  ultimately show ?thesis unfolding xml_def by (induction given) auto
qed

end
