(* ===== verification/GateSample.thy ===== *)
theory GateSample
  imports CoverageExport PatchExact SampleRun
begin

section \<open>The gates on the small run\<close>

text \<open>
  The run of SampleRun.thy has two statements, on lines 1 and 4 of \<open>a.js\<close>, of which the tests reach the
  first: half of its statements, and half of a patch that touches both lines.
\<close>

definition sample_check_view :: "json_value coverage_view \<Rightarrow> run_view_panic + run_view" where
  "sample_check_view view = run_view_of (\<lambda>_. []) ''run'' ''now'' view True False []"

lemma sample_gate:
  "\<exists>view run_view. create_coverage_view_with_model sample_json sample_manifest sample_run ''now'' javascript_coverage_model = Inr view
     \<and> sample_check_view view = Inr run_view"
proof -
  obtain view where view: "create_coverage_view_with_model sample_json sample_manifest sample_run ''now''
      javascript_coverage_model = Inr view" using sample_view_exists by blast
  show ?thesis
    using view run_view_exact[OF built_view_whole[OF view], of "\<lambda>_. []" "''run''" "''now''" True False "[]"]
    unfolding sample_check_view_def by blast
qed

lemma sample_rows:
  assumes "create_coverage_view_with_model sample_json sample_manifest sample_run ''now'' javascript_coverage_model = Inr view"
  shows "map point_row (cv_points view) = [(sample_point ''p1'' 1, [''t1'', ''t2''], True), (sample_point ''p2'' 4, [], False)]"
  using point_rows[OF assms, unfolded sample_points] .

lemma sample_statements:
  assumes "create_coverage_view_with_model sample_json sample_manifest sample_run ''now'' javascript_coverage_model = Inr view"
  shows "metric_counts (cv_summary view) StatementsMetric = (1, 2)"
proof -
  obtain p q where points: "cv_points view = [p, q]" "point_row p = (sample_point ''p1'' 1, [''t1'', ''t2''], True)"
    "point_row q = (sample_point ''p2'' 4, [], False)"
    using sample_rows[OF assms] by (auto simp: map_eq_Cons_conv)
  then show ?thesis unfolding run_counts[OF assms] by (simp add: point_row_def sample_point_def)
qed

lemma line_at_points:
  assumes "create_coverage_view_with_model j manifest raws g model = Inr view"
  shows "line_at lr_measured view path line \<longleftrightarrow> list_ex (starts_at (path, line)) (cv_points view)"
    "line_at (\<lambda>l. lr_measured l \<and> lr_covered l) view path line \<longleftrightarrow> list_ex (\<lambda>p. starts_at (path, line) p \<and> pr_covered p) (cv_points view)"
proof -
  note lines = lines_of_points[OF assms]
  have there: "\<exists>l \<in> set (cv_lines view). lr_file l = path \<and> lr_line l = line" if "p \<in> set (cv_points view)" "starts_at (path, line) p" for p
  proof -
    have "(path, line) \<in> (\<lambda>line. (lr_file line, lr_line line)) ` set (cv_lines view)" using that lines(2) by blast
    then show ?thesis by auto
  qed
  have at_line: "lr_measured l \<longleftrightarrow> list_ex (starts_at (path, line)) (cv_points view)"
    "lr_covered l \<longleftrightarrow> list_ex (\<lambda>p. starts_at (path, line) p \<and> pr_covered p) (cv_points view)"
    if "l \<in> set (cv_lines view)" "lr_file l = path \<and> lr_line l = line" for l
    using lines(1)[rule_format, OF that(1)] that(2) by simp_all
  have some_line: "\<exists>l \<in> set (cv_lines view). lr_file l = path \<and> lr_line l = line"
    if "list_ex (starts_at (path, line)) (cv_points view)"
    using that there unfolding list_ex_iff by blast
  have covered: "list_ex (starts_at (path, line)) (cv_points view)"
    if "list_ex (\<lambda>p. starts_at (path, line) p \<and> pr_covered p) (cv_points view)" using that by (simp add: list_ex_iff) blast
  have known: "line_at P view path line \<longleftrightarrow> (\<exists>l. l \<in> set (cv_lines view) \<and> (lr_file l = path \<and> lr_line l = line) \<and> P l)" for P
    by (auto simp: line_at_def list_ex_iff)
  show "line_at lr_measured view path line \<longleftrightarrow> list_ex (starts_at (path, line)) (cv_points view)"
    unfolding known using at_line(1) some_line by blast
  show "line_at (\<lambda>l. lr_measured l \<and> lr_covered l) view path line \<longleftrightarrow> list_ex (\<lambda>p. starts_at (path, line) p \<and> pr_covered p) (cv_points view)"
    unfolding known using at_line some_line covered by blast
qed

theorem run_view_never_panics_witness:
  "\<exists>view run_view outcome. create_coverage_view_with_model sample_json sample_manifest sample_run ''now'' javascript_coverage_model = Inr view
     \<and> sample_check_view view = Inr run_view \<and> check run_view [\<lparr>fl_metric = LinesMetric, fl_ppm = 1000000\<rparr>] True = Inr outcome"
proof -
  obtain view where view: "create_coverage_view_with_model sample_json sample_manifest sample_run ''now''
      javascript_coverage_model = Inr view" using sample_view_exists by blast
  show ?thesis
    unfolding sample_check_view_def using view run_view_never_panics[OF view] by blast
qed

theorem check_passes_exactly_witness:
  "\<exists>view run_view. create_coverage_view_with_model sample_json sample_manifest sample_run ''now'' javascript_coverage_model = Inr view
     \<and> sample_check_view view = Inr run_view
     \<and> check run_view [\<lparr>fl_metric = StatementsMetric, fl_ppm = 500001\<rparr>] False \<noteq> Inr CheckPass"
proof -
  obtain view run_view where run: "create_coverage_view_with_model sample_json sample_manifest sample_run ''now''
      javascript_coverage_model = Inr view" "sample_check_view view = Inr run_view" using sample_gate by blast
  have "check run_view [\<lparr>fl_metric = StatementsMetric, fl_ppm = 500001\<rparr>] False \<noteq> Inr CheckPass"
    using check_passes_exactly[OF run(1) run(2)[unfolded sample_check_view_def], of "[\<lparr>fl_metric = StatementsMetric, fl_ppm = 500001\<rparr>]" False]
      sample_statements[OF run(1)] by (simp add: floor_met_def)
  then show ?thesis using run by blast
qed

theorem totals_are_the_files_witness:
  "\<exists>view run_view parts. create_coverage_view_with_model sample_json sample_manifest sample_run ''now'' javascript_coverage_model = Inr view
     \<and> sample_check_view view = Inr run_view
     \<and> try_map (\<lambda>file_view. metric_in (fv_metrics file_view) StatementsMetric) (rv_files run_view) = Inr parts
     \<and> sum_list (map mw_covered parts) = 1 \<and> sum_list (map mw_eligible parts) = 2"
proof -
  obtain view run_view where run: "create_coverage_view_with_model sample_json sample_manifest sample_run ''now''
      javascript_coverage_model = Inr view" "sample_check_view view = Inr run_view" using sample_gate by blast
  note check = run(2)[unfolded sample_check_view_def]
  obtain whole parts where parts: "metric_in (rv_totals run_view) StatementsMetric = Inr whole"
    "try_map (\<lambda>file_view. metric_in (fv_metrics file_view) StatementsMetric) (rv_files run_view) = Inr parts"
    "mw_covered whole = sum_list (map mw_covered parts)" "mw_eligible whole = sum_list (map mw_eligible parts)"
    using totals_are_the_files[OF run(1) check, of StatementsMetric] by blast
  have "whole = metric_view_of (cv_summary view) StatementsMetric" using parts(1) run_view_from(2)[OF run(1) check] by simp
  then show ?thesis using run parts sample_statements[OF run(1)] by auto
qed

lemma sample_file:
  assumes "create_coverage_view_with_model sample_json sample_manifest sample_run ''now'' javascript_coverage_model = Inr view"
    and "sample_check_view view = Inr run_view"
  shows "\<exists>file_view. file_view \<in> set (rv_files run_view)"
proof -
  have "cv_points view \<noteq> []" using sample_rows[OF assms(1)] by auto
  then obtain p where "p \<in> set (cv_points view)" by (cases "cv_points view") auto
  then have "pm_file (pr_meta p) \<in> lr_file ` set (cv_lines view)"
    using built_view_whole[OF assms(1)] unfolding view_whole_def by blast
  then have "pm_file (pr_meta p) \<in> files_named view" unfolding files_named_def by blast
  then show ?thesis using run_view_from(1)[OF assms(1) assms(2)[unfolded sample_check_view_def]] by auto
qed

theorem line_hits_are_counted_witness:
  "\<exists>view run_view file_view. create_coverage_view_with_model sample_json sample_manifest sample_run ''now'' javascript_coverage_model = Inr view
     \<and> sample_check_view view = Inr run_view \<and> file_view \<in> set (rv_files run_view)
     \<and> sorted_wrt (<) (map fst (line_hits file_view))"
proof -
  obtain view run_view file_view where run: "create_coverage_view_with_model sample_json sample_manifest sample_run ''now''
      javascript_coverage_model = Inr view" "sample_check_view view = Inr run_view" "file_view \<in> set (rv_files run_view)"
    using sample_gate sample_file by blast
  show ?thesis using run line_hits_are_counted[OF run(1) run(2)[unfolded sample_check_view_def] run(3)] by blast
qed

theorem lcov_conditions_exact_witness:
  "\<exists>view run_view file_view. create_coverage_view_with_model sample_json sample_manifest sample_run ''now'' javascript_coverage_model = Inr view
     \<and> sample_check_view view = Inr run_view \<and> file_view \<in> set (rv_files run_view)
     \<and> (\<exists>records counts before after. lcov_file file_view = Inr (before @ records
           @ (if mw_eligible counts = 0 then [] else line_of (''MCF:'' @ decimal (2 * mw_eligible counts))
               @ line_of (''MCH:'' @ decimal (2 * mw_covered counts))) @ after)
         \<and> metric_in (fv_metrics file_view) McdcMetric = Inr counts
         \<and> distinct (map (\<lambda>(line, size_of, sense, _, index). (line, size_of, sense, index)) (records_read records)))"
proof -
  obtain view run_view file_view where run: "create_coverage_view_with_model sample_json sample_manifest sample_run ''now''
      javascript_coverage_model = Inr view" "sample_check_view view = Inr run_view" "file_view \<in> set (rv_files run_view)"
    using sample_gate sample_file by blast
  from lcov_conditions_exact[OF run(1) run(2)[unfolded sample_check_view_def] run(3)] show ?thesis using run by blast
qed

theorem patch_exact_witness:
  "\<exists>view run_view patch. create_coverage_view_with_model sample_json sample_manifest sample_run ''now'' javascript_coverage_model = Inr view
     \<and> sample_check_view view = Inr run_view \<and> patch_of run_view [(''a.js'', {1, 2, 4})] = Inr patch
     \<and> pv_eligible patch = 2 \<and> pv_covered patch = 1"
proof -
  obtain view run_view where run: "create_coverage_view_with_model sample_json sample_manifest sample_run ''now''
      javascript_coverage_model = Inr view" "sample_check_view view = Inr run_view" using sample_gate by blast
  note check = run(2)[unfolded sample_check_view_def]
  obtain p q where points: "cv_points view = [p, q]" "point_row p = (sample_point ''p1'' 1, [''t1'', ''t2''], True)"
    "point_row q = (sample_point ''p2'' 4, [], False)"
    using sample_rows[OF run(1)] by (auto simp: map_eq_Cons_conv)
  have "{line \<in> {1, 2, 4}. line_at lr_measured view ''a.js'' line} = {1, 4}"
    "{line \<in> {1, 2, 4}. line_at (\<lambda>l. lr_measured l \<and> lr_covered l) view ''a.js'' line} = {1}"
    unfolding line_at_points[OF run(1)] points(1) using points(2,3) by (auto simp: point_row_def sample_point_def)
  then have "patch_part view lr_measured (''a.js'', {1, 2, 4}) = 2"
    "patch_part view (\<lambda>l. lr_measured l \<and> lr_covered l) (''a.js'', {1, 2, 4}) = 1"
    by (simp_all add: patch_part_def)
  moreover have "list_all (\<lambda>(path, lines). finite lines) [(''a.js'', {1, 2, 4 :: nat})]" by simp
  ultimately show ?thesis using run patch_exact[OF run(1) check, of "[(''a.js'', {1, 2, 4})]"] by fastforce
qed

end
