(* ===== verification/Spec2Isabelle.thy ===== *)
theory Spec2Isabelle
  imports Probe CoverageCore DecisionShape ArchivePublish FrontendProtocol CreditByTime
    RustTestContext Interned TestKind AgentJson RunnerAttempt
    CoverageModel TestFilter CoverageView IngestExact OwnedKept MinimumSample GateSample
begin

text \<open>
  Supercov measures which code a test suite exercises: lines, statements, functions, branches and masking
  MC/DC. Instrumenters and runtimes of each language record evidence; the engine
  (\<open>src/crates/supercov-engine\<close>) reads that evidence, decides what each obligation of the program was
  reached by, stores it, and answers the questions of reports, gates, exports and \<open>minimize\<close>. This
  library models the engine's own logic, component by component, from evidence to answers.

  \<^bold>\<open>How the parts interact.\<close> A runtime's files become records of tests (OwnedTransport, OwnedRun); records
  and a manifest of obligations are archived (EvidenceArchive, ArchivePublish) under a declaration that
  says what the evidence may claim (FrontendDeclaration, FrontendProtocol). An archive is read back into
  records (ArchiveReading), server work joins the tests it belongs to (ServerRecords, CreditByTime),
  phases are made each record's own (PhaseIdentity), a filter picks tests (TestFilter), and the records are
  read into tables and from them a view (Ingest, ReachedBy, TestResults, WholeFiles, CoverageView), whose
  verdicts come from a pure core (Mcdc, CoverageCore). Views make reports (CoverageReport, ArchiveReport),
  and a view answers \<open>minimize\<close> (MinimumSet), gates (RunView), the changed-line check (PatchView) and exports
  (CoverageExport).

  \<^bold>\<open>Conventions.\<close> A Rust \<open>String\<close> is the list of its UTF-8 bytes. A \<open>Result\<close> is a sum, an error its left
  side; every early return and \<open>?\<close> is a branch of the model. A \<open>BTreeMap\<close> is the list of its entries in
  key order (\<open>tree_insert\<close>, \<open>tree_entry\<close>) and a \<open>HashMap\<close> a map. Integers whose width matters are words
  (Probe, Interned, Mcdc's bit sets) or are bounded by a hypothesis; an \<open>f64\<close> that percentages take is
  the rational nearest, by \<open>f64_round\<close> (Float64). Code outside the repository is a parameter with what the
  engine relies on as a named hypothesis: JSON (\<open>json\<close>, \<open>library\<close>), gzip, SHA-256, Unicode case mapping.

  \<^bold>\<open>Panics.\<close> A lookup or an \<open>expect\<close> that the records could make fail is a branch of its own: \<open>Panicked\<close>
  (building a view: the tests and phases a relation names, the observation of an event, the file of a
  point, the tests in their order), \<open>SummaryPanicked\<close> (the summary \<open>minimize\<close> makes), \<open>run_view_panic\<close> (a metric missing from a run view),
  \<open>NoNewName\<close> (the new name of a phase) and \<open>VectorsOutOfRange\<close> (merging processes). The theorems that
  nothing panics are about these branches. Two kinds of panic have no branch. The vectors the engine
  indexes by numbers it gave out itself (\<open>names[n]\<close>, \<open>rank[n]\<close>, \<open>by_obligation[n]\<close>, \<open>observations[i]\<close>,
  \<open>hit_locations[n]\<close>, \<open>test_traits[n]\<close>, \<open>vectors[witness.second]\<close>, \<open>ordered_phases[started - 2]\<close>) are
  indexed by total functions; that the numbers are in range is proved beside them: \<open>indices_in_range\<close>
  (IngestExact), \<open>relation_of_names\<close> (ReachedBy), \<open>witnesses_sound_complete\<close> (Mcdc). And the \<open>expect\<close>s on
  the entry of \<open>tests_by_id\<close> that the same turn of the loop inserted (\<open>test was inserted\<close>, \<open>registered test\<close>,
  \<open>slot was inserted\<close>) have no branch, the entry being held as \<open>vs_test\<close>.

  \<^bold>\<open>The theories.\<close>

  \<^item> Prelude: results, loops that may fail, ordered maps, strings. Float64: rounding to an \<open>f64\<close>.
  \<^item> Probe (\<open>probe_v2.rs\<close>): the base-3 frame an evaluation is sent in. Interned (\<open>interned.rs\<close>): the hash of
    ids. TestKind (\<open>test_kind.rs\<close>). AgentJson (\<open>agent_json.rs\<close>): pages. RunnerAttempt
    (\<open>rust_runner_attempt.rs\<close>), RustTestContext (\<open>rust_test_context.rs\<close>, \<open>stable_ids.rs\<close>).
  \<^item> Mcdc (\<open>coverage_analysis.rs\<close>): \<open>find_witnesses_for_conditions\<close> over bit sets equals a nested scan of all
    pairs; a condition has a witness exactly when two vectors show it independent. CoverageCore
    (\<open>analyze_core\<close>): the counts and percentages of a summary and when it is complete. DecisionShape
    (\<open>decision_shape.rs\<close>): parsing a decision's shape and the vectors it can give.
  \<^item> Evidence, ReportModel: the records in and the rows out. CreditByTime (\<open>credit_by_time\<close>): work no request
    named. PhaseIdentity (\<open>separate_repeated_executions\<close>, which panics nowhere and leaves no record a phase of an
    earlier one; \<open>release_leaked_phases\<close>). TestFilter, CoverageModel, WholeFiles, TestResults (which
    attempts the passing and the failing view take, and the one both do).
  \<^item> Ingest, IngestFacts, IngestExact: the loop over the records, the invariant of its state, and the state
    as a function of the records. ReachedBy: the numbered relation of obligations and tests refines a
    relation of names. CoverageView, SummaryFacts, ViewFacts, ViewExact, ViewPart: the rows of a view are
    exactly what the records say; no well-formed run panics; the summary of some tests is, but for
    what the manifest imposes on the whole run, the summary of the run of those tests.
  \<^item> CoverageReport, ArchiveReading, ServerRecords, ArchiveReport, ErrorText: a report of records or of an
    archive, one view at a time or all, parsed in batches and on many cores.
  \<^item> EvidenceArchive, ArchivePublish (\<open>evidence_archive.rs\<close>): writing, publishing whole, reading strictly.
  \<^item> FrontendDeclaration (\<open>supercov-contracts\<close>), FrontendProtocol (\<open>frontend_protocol.rs\<close>): what a frontend
    declares, and its evidence against it.
  \<^item> OwnedTransport, OwnedRun, OwnedMerge, OwnedContracts, OwnedValid, OwnedKept, OwnedArchive
    (\<open>owned_evidence.rs\<close>): the Go and JVM runtimes' transport (\<open>write_evidence\<close> is \<open>Supercov.java\<close>'s \<open>write\<close>),
    merging processes, the request built of it, its validity, and that what was reached is recorded.
  \<^item> MinimumSet (\<open>coverage_query.rs\<close>, \<open>minimum_test_set\<close>): obligations, options, and the branch-and-bound
    search \<open>visit\<close>. MinimumSearch: the search's invariant, that its best set is no larger than any set open to
    a visited state. MinimumKept: without a target the set is a smallest one and keeps the counts it searches by, though not
    every outcome of a decision or a condition. MinimumSample: a
    target of 100 percent, and small views.
  \<^item> RunView (\<open>run_view.rs\<close>), RunViewFacts, RunViewExact: the view gates and exports share, its check,
    that it is built of every view without a panic, and that files add up to totals. PatchView
    (\<open>patch_view.rs\<close>), PatchExact, PatchFacts: reading a diff as git prints it for names it does not quote, the
    patch's counts, ranges and annotations. CoverageExport (\<open>coverage_export.rs\<close>): LCOV and Cobertura, and
    the MC/DC records of an LCOV file read back from its text.
  \<^item> SampleRun, ReportSample, OwnedSample, GateSample: a small run at which the theorems are shown to hold.

  \<^bold>\<open>Locales.\<close> \<open>index_set\<close> (Mcdc) is the set of indices the witness search works with, interpreted on the
  bit sets; \<open>sink\<close> (EvidenceArchive) what a writer may rely on, interpreted on a vector, a counter and a
  writer that fails; \<open>reach_store\<close> (ReachedBy) the store of what reached what, interpreted on the numbered
  store and on the named relation.

  \<^bold>\<open>Termination, fuel and bounds.\<close> The parser of decisions has fuel, and the round trip proves that the
  length of the input is enough. \<open>visit\<close> terminates because every call selects a test some option names or
  skips an obligation; the walk over phase causes because it stops at a phase seen. Theorems on percentages
  assume fewer than \<open>2^53\<close> obligations, or fewer where they say so; a hunk's lines end below \<open>2^64\<close>.
  \<open>names_apart\<close> is what \<open>minimize\<close> relies on: the search remembers states by texts joined with a comma and
  a bar, which tell states apart when no id holds either (\<open>plain_names_apart\<close>).

  \<^bold>\<open>What modelling showed.\<close> A run is reported complete when its percentages round to 100
  (\<open>complete_with_uncovered_line\<close>). Tests of one name in two Go packages lose what only the first reached
  (\<open>same_name_loses_evidence\<close>). With \<open>--target 100\<close> a line nothing measured makes \<open>minimize\<close> keep every test
  and call it optimal (\<open>unmeasured_line_keeps_every_test\<close>). An added line that begins with \<open>++\<close> and a space is
  taken for a file's header by the changed-line check (\<open>added_text_taken_for_header\<close>). An attempt with a
  record that passed and one that failed is in the passed and in the failed view
  (\<open>mixed_attempt_counted_twice\<close>). Without a target \<open>minimize\<close> keeps no outcome of a decision or of a
  condition for its own sake, where the documentation says it keeps everything the tests cover.

  \<^bold>\<open>Not modelled.\<close> The instrumenters rewrite trees of third-party parsers, which are not in the repository.
  The runners, the workspace, the run store, process supervision, servers and containers are processes,
  files, signals and sockets. The index is a binary format over memory maps and the other queries of
  \<open>coverage_query.rs\<close> page and print what a view holds. Project and source discovery walk directories. The
  command line parses arguments and prints. Publication appends a record of the sources to the
  archive \<open>archive_entries\<close> lists (\<open>source_capture.rs\<close>, which walks directories), so what is said of that
  archive is said of it before. A path that git prints in quotes is outside the changed-line theorems. Of
  the evidence archive, \<open>collect_sources\<close> walks a directory and
  \<open>sync_directory\<close> is the platform's; of the interned ids only the hash shows in values; of
  \<open>go_instrumenter.rs\<close> only the kinds of probes.
\<close>

end
